(* ===== verification/Prelude.thy ===== *)
theory Prelude
  imports Main "HOL-Library.Word" "HOL-Library.AList" "HOL-Library.Multiset"
begin

text \<open>
  The vocabulary every component shares: bytes, the errors a JavaScript call can throw, the
  sequencing of calls that mutate a state and may throw, and the pieces of the JavaScript
  standard library that the sources use (\<open>Array.prototype.sort\<close>, \<open>slice\<close>, \<open>Set\<close>, \<open>Map\<close>,
  \<open>padStart\<close>, number formatting) together with lodash's \<open>uniqBy\<close> and the facts the component
  proofs need about them.

  A \<open>Uint8Array\<close> is a list of \<^typ>\<open>8 word\<close>, a string is a list of code units (\<^typ>\<open>char\<close>,
  so the model covers the strings whose code units are below 256), a \<open>Set\<close> is a distinct
  list in insertion order, and a \<open>Map\<close> whose iteration order is observed is an
  association list updated by \<^const>\<open>AList.update\<close>, which keeps the position of a key that is
  already there and appends a new one, as \<open>Map.set\<close> does.
\<close>

named_theorems js_simps "equations that unfold the modelled standard library"
named_theorems inv_intros "introduction rules for the component invariants"

type_synonym byte = "8 word"
type_synonym bytes = "byte list"

section \<open>Errors and state\<close>

datatype js_error =
    RangeError
  | TypeError
  | JsError string

text \<open>
  A call that mutates a state \<open>'s\<close> and then returns or throws. The state is kept when the call
  throws: JavaScript does not roll back.
\<close>

type_synonym ('s, 'a) call = "'s \<times> (js_error + 'a)"

definition then_do :: "('s, 'a) call \<Rightarrow> ('s \<Rightarrow> 'a \<Rightarrow> ('s, 'b) call) \<Rightarrow> ('s, 'b) call" where
  "then_do c f = (case snd c of Inl e \<Rightarrow> (fst c, Inl e) | Inr a \<Rightarrow> f (fst c) a)"

definition returns :: "'s \<Rightarrow> 'a \<Rightarrow> ('s, 'a) call" where
  "returns s a = (s, Inr a)"

definition throws :: "'s \<Rightarrow> js_error \<Rightarrow> ('s, 'a) call" where
  "throws s e = (s, Inl e)"

lemma then_do_returns [simp]: "then_do (returns s a) f = f s a"
  by (simp add: then_do_def returns_def)

lemma then_do_throws [simp]: "then_do (throws s e) f = throws s e"
  by (simp add: then_do_def throws_def)

lemma then_do_Inr [simp]: "then_do (s, Inr a) f = f s a"
  by (simp add: then_do_def)

lemma then_do_Inl [simp]: "then_do (s, Inl e) f = (s, Inl e)"
  by (simp add: then_do_def)

lemma fst_returns [simp]: "fst (returns s a) = s"
  and snd_returns [simp]: "snd (returns s a) = Inr a"
  and fst_throws [simp]: "fst (throws s e) = s"
  and snd_throws [simp]: "snd (throws s e) = Inl e"
  by (simp_all add: returns_def throws_def)

lemma returns_inject [simp]: "returns s a = returns s' a' \<longleftrightarrow> s = s' \<and> a = a'"
  by (simp add: returns_def)

lemma returns_eq_pair [simp]: "returns s a = (s', r) \<longleftrightarrow> s' = s \<and> r = Inr a"
  and throws_eq_pair [simp]: "throws s e = (s', r) \<longleftrightarrow> s' = s \<and> r = Inl e"
  by (auto simp: returns_def throws_def)

text \<open>A property of the state that both calls keep is kept by their sequence, thrown or not.\<close>

lemma then_do_fst:
  assumes "P (fst c)"
    and "\<And>s a. c = (s, Inr a) \<Longrightarrow> P s \<Longrightarrow> P (fst (f s a))"
  shows "P (fst (then_do c f))"
  using assms by (cases c; cases "snd c") auto

section \<open>Array.prototype.sort\<close>

text \<open>
  ECMAScript requires the sort to be stable, and its result is determined whenever the comparator
  is consistent: it is then the one computed by stable insertion.
\<close>

fun js_insert :: "('a \<Rightarrow> 'a \<Rightarrow> int) \<Rightarrow> 'a \<Rightarrow> 'a list \<Rightarrow> 'a list" where
  "js_insert cmp x [] = [x]"
| "js_insert cmp x (y # ys) = (if cmp x y \<le> 0 then x # y # ys else y # js_insert cmp x ys)"

fun js_sort :: "('a \<Rightarrow> 'a \<Rightarrow> int) \<Rightarrow> 'a list \<Rightarrow> 'a list" where
  "js_sort cmp [] = []"
| "js_sort cmp (x # xs) = js_insert cmp x (js_sort cmp xs)"

lemma mset_js_insert [simp]: "mset (js_insert cmp x xs) = add_mset x (mset xs)"
  by (induction xs) auto

lemma mset_js_sort [simp]: "mset (js_sort cmp xs) = mset xs"
  by (induction xs) auto

lemma set_js_sort [simp]: "set (js_sort cmp xs) = set xs"
  using mset_js_sort by (metis set_mset_mset)

lemma length_js_sort [simp]: "length (js_sort cmp xs) = length xs"
  using mset_js_sort by (metis size_mset)

lemma set_js_insert [simp]: "set (js_insert cmp x xs) = insert x (set xs)"
  by (induction xs) auto

text \<open>
  The comparator a sort relies on. ECMAScript calls it consistent; a sort by such a comparator
  is ordered, and a list that is ordered already is left as it is.
\<close>

locale consistent_comparator =
  fixes cmp :: "'a \<Rightarrow> 'a \<Rightarrow> int"
  assumes cmp_total: "cmp x y \<le> 0 \<or> cmp y x \<le> 0"
    and cmp_trans: "cmp x y \<le> 0 \<Longrightarrow> cmp y z \<le> 0 \<Longrightarrow> cmp x z \<le> 0"
begin

lemma sorted_js_insert:
  "sorted_wrt (\<lambda>x y. cmp x y \<le> 0) xs \<Longrightarrow> sorted_wrt (\<lambda>x y. cmp x y \<le> 0) (js_insert cmp x xs)"
  by (induction xs) (use cmp_total cmp_trans in \<open>fastforce+\<close>)

lemma sorted_js_sort: "sorted_wrt (\<lambda>x y. cmp x y \<le> 0) (js_sort cmp xs)"
  by (induction xs) (simp_all add: sorted_js_insert)

lemma js_sort_id: "sorted_wrt (\<lambda>x y. cmp x y \<le> 0) xs \<Longrightarrow> js_sort cmp xs = xs"
proof (induction xs)
  case (Cons x xs)
  then show ?case by (cases xs) auto
qed simp

lemma js_insert_last:
  assumes "sorted_wrt (\<lambda>x y. cmp x y \<le> 0) xs" and "\<forall>y\<in>set xs. cmp y x \<le> 0"
  shows "js_sort cmp (xs @ [x]) = xs @ [x]"
  by (rule js_sort_id) (use assms in \<open>auto simp: sorted_wrt_append\<close>)

end

section \<open>lodash uniqBy, slice, find\<close>

text \<open>\<open>_.uniqBy\<close> keeps the first element of each key.\<close>

fun uniq_by :: "('a \<Rightarrow> 'k) \<Rightarrow> 'a list \<Rightarrow> 'a list" where
  "uniq_by f [] = []"
| "uniq_by f (x # xs) = x # filter (\<lambda>y. f y \<noteq> f x) (uniq_by f xs)"

lemma set_uniq_by: "set (uniq_by f xs) \<subseteq> set xs"
  by (induction xs) auto

lemma keys_uniq_by [simp]: "f ` set (uniq_by f xs) = f ` set xs"
proof (induction xs)
  case (Cons x xs)
  have "f ` {y \<in> set (uniq_by f xs). f y \<noteq> f x} = f ` set (uniq_by f xs) - {f x}" by auto
  with Cons show ?case by auto
qed simp

lemma map_filter_key: "map f (filter (\<lambda>y. f y \<noteq> k) xs) = filter (\<lambda>z. z \<noteq> k) (map f xs)"
  by (induction xs) auto

lemma distinct_uniq_by: "distinct (map f (uniq_by f xs))"
  by (induction xs) (auto simp: map_filter_key)

lemma sorted_uniq_by: "sorted_wrt R xs \<Longrightarrow> sorted_wrt R (uniq_by f xs)"
proof (induction xs)
  case (Cons x xs)
  then have "\<forall>y\<in>set (uniq_by f xs). R x y" using set_uniq_by[of f xs] by auto
  with Cons show ?case by (auto intro: sorted_wrt_filter)
qed simp

lemma uniq_by_id: "distinct (map f xs) \<Longrightarrow> uniq_by f xs = xs"
proof (induction xs)
  case (Cons x xs)
  then have "filter (\<lambda>y. f y \<noteq> f x) xs = xs"
    by (intro filter_True) (metis imageI distinct.simps(2) list.simps(9) set_map)
  with Cons show ?case by simp
qed simp

lemma length_uniq_by: "length (uniq_by f xs) \<le> length xs"
  by (induction xs) (auto intro: le_trans[OF length_filter_le])

text \<open>\<open>find\<close> by a key.\<close>

lemma find_key_None: "find (\<lambda>y. f y = k) xs = None \<longleftrightarrow> k \<notin> f ` set xs"
  by (auto simp: find_None_iff image_iff)

lemma find_key_Some: "find (\<lambda>y. f y = k) xs = Some x \<Longrightarrow> x \<in> set xs \<and> f x = k"
  by (auto simp: find_Some_iff)

lemma find_key_distinct:
  "distinct (map f xs) \<Longrightarrow> x \<in> set xs \<Longrightarrow> f x = k \<Longrightarrow> find (\<lambda>y. f y = k) xs = Some x"
  by (induction xs) (auto simp: image_iff)

text \<open>\<open>slice(start)\<close> with a possibly negative start.\<close>

definition js_slice_from :: "int \<Rightarrow> 'a list \<Rightarrow> 'a list" where
  "js_slice_from start xs =
     (if start < 0 then drop (nat (max 0 (int (length xs) + start))) xs
      else drop (nat start) xs)"

lemma js_slice_from_suffix: "\<exists>ys. xs = ys @ js_slice_from n xs"
  unfolding js_slice_from_def by (metis append_take_drop_id)

lemma set_js_slice_from: "set (js_slice_from n xs) \<subseteq> set xs"
  by (auto simp: js_slice_from_def dest: in_set_dropD split: if_splits)

lemma length_js_slice_from_neg:
  "0 < n \<Longrightarrow> length (js_slice_from (- int n) xs) = min n (length xs)"
  by (auto simp: js_slice_from_def)

lemma js_slice_from_0 [simp]: "js_slice_from 0 xs = xs"
  by (simp add: js_slice_from_def)

section \<open>Set\<close>

definition js_set_add :: "'a \<Rightarrow> 'a list \<Rightarrow> 'a list" where
  "js_set_add x s = (if x \<in> set s then s else s @ [x])"

definition js_set_delete :: "'a \<Rightarrow> 'a list \<Rightarrow> 'a list" where
  "js_set_delete x s = filter (\<lambda>y. y \<noteq> x) s"

lemma set_js_set_add [simp]: "set (js_set_add x s) = insert x (set s)"
  by (auto simp: js_set_add_def)

lemma set_js_set_delete [simp]: "set (js_set_delete x s) = set s - {x}"
  by (auto simp: js_set_delete_def)

lemma distinct_js_set_add [simp]: "distinct (js_set_add x s) = distinct s"
  by (auto simp: js_set_add_def)

lemma distinct_js_set_delete: "distinct s \<Longrightarrow> distinct (js_set_delete x s)"
  by (simp add: js_set_delete_def)

section \<open>Numbers as decimal strings\<close>

definition digit_char :: "nat \<Rightarrow> char" where
  "digit_char d = char_of (48 + d mod 10)"

fun decimal :: "nat \<Rightarrow> string" where
  "decimal n = (if n < 10 then [digit_char n] else decimal (n div 10) @ [digit_char n])"

declare decimal.simps [simp del]

definition pad_start :: "nat \<Rightarrow> char \<Rightarrow> string \<Rightarrow> string" where
  "pad_start w c s = replicate (w - length s) c @ s"

definition is_digit :: "char \<Rightarrow> bool" where
  "is_digit c \<longleftrightarrow> 48 \<le> (of_char c :: nat) \<and> (of_char c :: nat) \<le> 57"

definition digit_value :: "char \<Rightarrow> nat" where
  "digit_value c = of_char c - 48"

text \<open>The digits read back, most significant first.\<close>

definition read_digits :: "string \<Rightarrow> nat" where
  "read_digits s = foldl (\<lambda>n c. 10 * n + digit_value c) 0 s"

lemma digit_value_le: "is_digit c \<Longrightarrow> digit_value c \<le> 9"
  by (auto simp: is_digit_def digit_value_def)

lemma digit_value_inject: "is_digit c \<Longrightarrow> is_digit d \<Longrightarrow> digit_value c = digit_value d \<longleftrightarrow> c = d"
  unfolding is_digit_def digit_value_def
  by (metis diff_diff_cancel diff_le_mono2 eq_diff_iff of_char_eq_iff)

lemma of_char_digit_char: "(of_char (digit_char d) :: nat) = 48 + d mod 10"
  by (simp add: digit_char_def of_char_of)

lemma is_digit_digit_char [simp]: "is_digit (digit_char d)"
  by (simp add: is_digit_def of_char_digit_char)

lemma digit_value_digit_char [simp]: "digit_value (digit_char d) = d mod 10"
  by (simp add: digit_value_def of_char_digit_char)

lemma decimal_digits: "\<forall>c\<in>set (decimal n). is_digit c"
proof (induction n rule: decimal.induct)
  case (1 n)
  then show ?case by (cases "n < 10") (simp_all add: decimal.simps[of n])
qed

lemma decimal_not_Nil [simp]: "decimal n \<noteq> []"
  by (subst decimal.simps) simp

lemma read_digits_append: "read_digits (s @ [c]) = 10 * read_digits s + digit_value c"
  by (simp add: read_digits_def)

lemma read_digits_decimal [simp]: "read_digits (decimal n) = n"
proof (induction n rule: decimal.induct)
  case (1 n)
  show ?case
  proof (cases "n < 10")
    case True
    then show ?thesis by (simp add: decimal.simps[of n] read_digits_def)
  next
    case False
    with 1 show ?thesis by (simp add: decimal.simps[of n] read_digits_append)
  qed
qed

lemma decimal_inject: "decimal m = decimal n \<longleftrightarrow> m = n"
  by (metis read_digits_decimal)

lemma length_decimal: "0 < w \<Longrightarrow> n < 10 ^ w \<Longrightarrow> length (decimal n) \<le> w"
proof (induction n arbitrary: w rule: decimal.induct)
  case (1 n)
  show ?case
  proof (cases "n < 10")
    case True
    then show ?thesis using "1.prems" by (simp add: decimal.simps[of n])
  next
    case False
    with "1.prems" obtain v where w: "w = Suc v" "0 < v" by (cases w; cases "w - 1") auto
    with "1.prems" have "n div 10 < 10 ^ v" by (simp add: less_mult_imp_div_less mult.commute)
    with "1.IH"[OF False \<open>0 < v\<close>] w False show ?thesis by (simp add: decimal.simps[of n])
  qed
qed

section \<open>String order by code units\<close>

text \<open>
  The order of the relational operators on strings. It is also one of the orders that
  \<open>localeCompare\<close> may implement, and the one the concrete examples use.
\<close>

fun codeunit_compare :: "string \<Rightarrow> string \<Rightarrow> int" where
  "codeunit_compare [] [] = 0"
| "codeunit_compare [] (y # ys) = - 1"
| "codeunit_compare (x # xs) [] = 1"
| "codeunit_compare (x # xs) (y # ys) =
     (if (of_char x :: nat) < of_char y then - 1
      else if (of_char y :: nat) < of_char x then 1 else codeunit_compare xs ys)"

lemma codeunit_compare_total: "codeunit_compare s t \<le> 0 \<or> codeunit_compare t s \<le> 0"
  by (induction s t rule: codeunit_compare.induct) auto

lemma codeunit_compare_trans:
  "codeunit_compare s t \<le> 0 \<Longrightarrow> codeunit_compare t u \<le> 0 \<Longrightarrow> codeunit_compare s u \<le> 0"
proof (induction s t arbitrary: u rule: codeunit_compare.induct)
  case (1 u)
  then show ?case by (cases u) auto
next
  case (2 y ys u)
  then show ?case by (cases u) auto
next
  case (4 x xs y ys u)
  note IH = "4.IH" and prems = "4.prems"
  show ?case
  proof (cases u)
    case Nil
    with prems show ?thesis by simp
  next
    case (Cons z zs)
    have xy: "(of_char x :: nat) < of_char y
        \<or> (of_char x :: nat) = of_char y \<and> codeunit_compare xs ys \<le> 0"
      using prems(1) by (cases "(of_char x :: nat) < of_char y") (simp_all split: if_splits)
    have yz: "(of_char y :: nat) < of_char z
        \<or> (of_char y :: nat) = of_char z \<and> codeunit_compare ys zs \<le> 0"
      using prems(2) Cons by (cases "(of_char y :: nat) < of_char z") (simp_all split: if_splits)
    show ?thesis
    proof (cases "(of_char x :: nat) < of_char z")
      case True
      with Cons show ?thesis by simp
    next
      case False
      with xy yz have e: "(of_char x :: nat) = of_char y" "(of_char y :: nat) = of_char z"
        and le: "codeunit_compare xs ys \<le> 0" "codeunit_compare ys zs \<le> 0" by linarith+
      from e have "\<not> (of_char x :: nat) < of_char y" "\<not> (of_char y :: nat) < of_char x" by simp_all
      from IH[OF this le] e Cons show ?thesis by simp
    qed
  qed
qed simp

interpretation by_code_units: consistent_comparator codeunit_compare
  by unfold_locales (rule codeunit_compare_total, rule codeunit_compare_trans)

text \<open>Digit strings of one length are ordered as the numbers they write.\<close>

lemma read_digits_Cons:
  "read_digits (c # s) = digit_value c * 10 ^ length s + read_digits s"
proof -
  have "foldl (\<lambda>n c. 10 * n + digit_value c) a s
      = a * 10 ^ length s + foldl (\<lambda>n c. 10 * n + digit_value c) 0 s" for a
  proof (induction s arbitrary: a)
    case (Cons d s)
    show ?case
      unfolding foldl_Cons
      by (subst (1 2) Cons.IH) (simp add: algebra_simps)
  qed simp
  from this[of "digit_value c"] show ?thesis by (simp add: read_digits_def)
qed

lemma read_digits_bound: "\<forall>c\<in>set s. is_digit c \<Longrightarrow> read_digits s < 10 ^ length s"
proof (induction s rule: rev_induct)
  case (snoc c s)
  then have "digit_value c \<le> 9" by (simp add: digit_value_le)
  with snoc show ?case by (simp add: read_digits_append)
qed (simp add: read_digits_def)

lemma codeunit_compare_digits:
  assumes "length s = length t" "\<forall>c\<in>set s. is_digit c" "\<forall>c\<in>set t. is_digit c"
  shows "codeunit_compare (s @ a) (t @ b) =
    (if read_digits s < read_digits t then - 1
     else if read_digits t < read_digits s then 1 else codeunit_compare a b)"
  using assms
proof (induction s t rule: list_induct2)
  case (Cons c s d t)
  have digits: "is_digit c" "is_digit d" using Cons.prems by auto
  have b: "read_digits s < 10 ^ length t" "read_digits t < 10 ^ length t"
    using Cons read_digits_bound[of s] read_digits_bound[of t] by auto
  have less: "digit_value x * 10 ^ length t + p < digit_value y * 10 ^ length t + q"
    if "digit_value x < digit_value y" "p < 10 ^ length t" for x y p q
  proof -
    have "digit_value x * 10 ^ length t + p < Suc (digit_value x) * 10 ^ length t"
      using that(2) by simp
    also have "\<dots> \<le> digit_value y * 10 ^ length t" using that(1) by (intro mult_le_mono1) simp
    finally show ?thesis by simp
  qed
  consider "digit_value c < digit_value d" | "digit_value d < digit_value c"
    | "digit_value c = digit_value d" by linarith
  then show ?case
  proof cases
    case 1
    then have "(of_char c :: nat) < of_char d" by (simp add: digit_value_def)
    with less[OF 1 b(1)] Cons.hyps show ?thesis by (simp add: read_digits_Cons)
  next
    case 2
    then have "(of_char d :: nat) < of_char c" by (simp add: digit_value_def)
    with less[OF 2 b(2)] Cons.hyps show ?thesis
      by (simp add: read_digits_Cons not_less_iff_gr_or_eq)
  next
    case 3
    with digits have "c = d" by (simp add: digit_value_inject)
    with 3 Cons show ?thesis by (simp add: read_digits_Cons)
  qed
qed (simp add: read_digits_def)

lemma read_digits_zeros [simp]: "read_digits (replicate n (CHR ''0'') @ s) = read_digits s"
  by (induction n) (simp_all add: read_digits_Cons digit_value_def)

lemma pad_start_decimal:
  assumes "n < 10 ^ w" "0 < w"
  shows "length (pad_start w (CHR ''0'') (decimal n)) = w"
    and "\<forall>c\<in>set (pad_start w (CHR ''0'') (decimal n)). is_digit c"
    and "read_digits (pad_start w (CHR ''0'') (decimal n)) = n"
  using length_decimal[OF assms(2,1)] decimal_digits[of n]
  by (auto simp: pad_start_def is_digit_def)

end
