(* ===== verification/Bytes.thy ===== *)
theory Bytes
  imports Prelude
begin

text \<open>
  \<open>DataView\<close> reads and writes of big-endian unsigned integers (\<open>getUint8\<close>, \<open>getUint16\<close>,
  \<open>getBigUint64\<close>, \<open>setUint16\<close>, \<open>setBigInt64\<close>, all called with the default byte order), and
  the helpers of \<open>packages/utils/src/bytes/index.ts\<close>. A read or write past the end of the
  buffer throws \<open>RangeError\<close>.
\<close>

section \<open>Big-endian integers\<close>

definition be_value :: "bytes \<Rightarrow> nat" where
  "be_value bs = foldl (\<lambda>n b. 256 * n + unat b) 0 bs"

fun be_bytes :: "nat \<Rightarrow> nat \<Rightarrow> bytes" where
  "be_bytes 0 v = []"
| "be_bytes (Suc w) v = be_bytes w (v div 256) @ [of_nat v]"

definition get_be :: "nat \<Rightarrow> nat \<Rightarrow> bytes \<Rightarrow> js_error + nat" where
  "get_be w off bs =
     (if off + w \<le> length bs then Inr (be_value (take w (drop off bs))) else Inl RangeError)"

definition set_be :: "nat \<Rightarrow> nat \<Rightarrow> nat \<Rightarrow> bytes \<Rightarrow> js_error + bytes" where
  "set_be w off v bs =
     (if off + w \<le> length bs then Inr (take off bs @ be_bytes w v @ drop (off + w) bs)
      else Inl RangeError)"

lemma length_be_bytes [simp]: "length (be_bytes w v) = w"
  by (induction w arbitrary: v) auto

lemma be_value_Nil [simp]: "be_value [] = 0"
  by (simp add: be_value_def)

lemma be_value_snoc [simp]: "be_value (bs @ [b]) = 256 * be_value bs + unat b"
  by (simp add: be_value_def)

lemma unat_byte_bound: "unat (b :: byte) < 256"
  using unsigned_less[of b] by simp

lemma be_value_bytes [simp]: "be_value (be_bytes w v) = v mod 256 ^ w"
proof (induction w arbitrary: v)
  case (Suc w)
  have "v mod (256 * 256 ^ w) = 256 * (v div 256 mod 256 ^ w) + v mod 256"
    by (rule mod_mult2_eq)
  moreover have "unat (of_nat v :: byte) = v mod 256"
    by (simp add: unat_of_nat)
  ultimately show ?case by (simp add: Suc)
qed simp

lemma be_value_bound: "be_value bs < 256 ^ length bs"
proof (induction bs rule: rev_induct)
  case (snoc b bs)
  then show ?case using unat_byte_bound[of b] by simp
qed simp

lemma be_bytes_value: "length bs = w \<Longrightarrow> be_bytes w (be_value bs) = bs"
proof (induction bs arbitrary: w rule: rev_induct)
  case (snoc b bs)
  then obtain w' where w: "w = Suc w'" "length bs = w'" by (cases w) auto
  have "(256 * be_value bs + unat b) div 256 = be_value bs"
    using unat_byte_bound[of b] by simp
  moreover have "(of_nat (256 * be_value bs + unat b) :: byte) = b"
    using unat_byte_bound[of b]
    by (simp only: word_unat_eq_iff unat_of_nat) simp
  ultimately show ?case using snoc w by simp
qed simp

lemma get_be_append:
  assumes "length pre = off"
  shows "get_be w off (pre @ be_bytes w v @ post) = Inr (v mod 256 ^ w)"
  using assms by (simp add: get_be_def)

section \<open>packages/utils/src/bytes/index.ts\<close>

text \<open>
  \<open>concat\<close>: the pieces are copied one after the other into a buffer of \<open>totalLength\<close> bytes
  (their total length when it is not given); \<open>Uint8Array.set\<close> throws \<open>RangeError\<close> when a piece
  does not fit.
\<close>

fun concat_into :: "nat \<Rightarrow> bytes \<Rightarrow> bytes list \<Rightarrow> js_error + bytes" where
  "concat_into offset res [] = Inr res"
| "concat_into offset res (b # bs) =
     (if offset + length b \<le> length res
      then concat_into (offset + length b)
             (take offset res @ b @ drop (offset + length b) res) bs
      else Inl RangeError)"

definition bytes_concat :: "bytes list \<Rightarrow> nat option \<Rightarrow> js_error + bytes" where
  "bytes_concat byteArrays totalLength =
     (let len = (case totalLength of Some n \<Rightarrow> n | None \<Rightarrow> sum_list (map length byteArrays))
      in concat_into 0 (replicate len 0) byteArrays)"

lemma concat_into_fits:
  assumes "offset + sum_list (map length bs) \<le> length res"
  shows "concat_into offset res bs =
    Inr (take offset res @ concat bs @ drop (offset + sum_list (map length bs)) res)"
  using assms
proof (induction bs arbitrary: offset res)
  case (Cons b bs)
  let ?res = "take offset res @ b @ drop (offset + length b) res"
  have "length ?res = length res" using Cons.prems by simp
  with Cons have "concat_into (offset + length b) ?res bs = Inr (take (offset + length b) ?res
      @ concat bs @ drop (offset + length b + sum_list (map length bs)) ?res)"
    by (intro Cons.IH) simp
  moreover have "take (offset + length b) ?res = take offset res @ b"
    using Cons.prems by simp
  moreover have "drop (offset + length b + n) ?res = drop (offset + length b + n) res" for n
    using Cons.prems by (simp add: add.commute)
  ultimately show ?case using Cons.prems by (simp add: add.assoc)
qed simp

lemma bytes_concat_None: "bytes_concat bs None = Inr (concat bs)"
  by (simp add: bytes_concat_def concat_into_fits)

text \<open>\<open>numberToBytes\<close> on a bigint: eight bytes, two's complement, big-endian.\<close>

definition numberToBytes_bigint :: "int \<Rightarrow> bytes" where
  "numberToBytes_bigint value = be_bytes 8 (nat (value mod 2 ^ 64))"

lemma numberToBytes_bigint_value: "int (be_value (numberToBytes_bigint v)) = v mod 2 ^ 64"
  by (simp add: numberToBytes_bigint_def nat_mod_distrib[symmetric])

text \<open>\<open>bytesToHex\<close>: two lower-case digits per byte.\<close>

definition hex_digit :: "nat \<Rightarrow> char" where
  "hex_digit d = (if d < 10 then char_of (48 + d) else char_of (87 + d))"

definition bytesToHex :: "bytes \<Rightarrow> string" where
  "bytesToHex bs = concat (map (\<lambda>b. [hex_digit (unat b div 16), hex_digit (unat b mod 16)]) bs)"

lemma length_bytesToHex [simp]: "length (bytesToHex bs) = 2 * length bs"
  by (induction bs) (simp_all add: bytesToHex_def)

lemma bytesToHex_simps [simp]:
  "bytesToHex [] = []"
  "bytesToHex (b # bs) = hex_digit (unat b div 16) # hex_digit (unat b mod 16) # bytesToHex bs"
  by (simp_all add: bytesToHex_def)

end
