(* ===== verification/Probabilities.thy ===== *)
theory Probabilities
  imports Prelude Complex_Main
begin

text \<open>
  \<open>packages/sds/src/probabilities.ts\<close>: the table of false-positive rates that sizes a Bloom
  filter when the number of hash functions is given, and its lookup. The rows are
  \<open>Float32Array\<close>s: an entry is the single-precision value nearest to the decimal of the source,
  which is an integral multiple of \<open>2 ^ -44\<close>, and the table below lists these multiples exactly.
\<close>

section \<open>The table\<close>

definition kErrors_scaled :: "int list list" where
  "kErrors_scaled = [
    [17592186044416],
    [17592186044416, 17592186044416, 6913729232896, 4978588516352, 3887873130496,
     3184185573376, 2709196636160, 2339760766976, 2075877965824, 1847179476992, 1674776150016,
     1528761024512, 1407374852096, 1301821784064, 1212101558272, 1134695940096, 1066086498304,
     1004513853440, 949978071040, 902479151104, 858498662400, 818036670464, 781093044224,
     747667914752, 717761216512, 689613701120, 663225434112, 640355598336, 617485762560,
     596375109632, 577023705088, 557672300544, 541839327232],
    [17592186044416, 17592186044416, 7036874522624, 4169348153344, 2726788857856,
     1917548232704, 1414411714560, 1087197085696, 860257910784, 698409811968, 578782953472,
     485544329216, 415175606272, 357121392640, 311381688320, 274438094848, 242772164608,
     216383881216, 195273261056, 175570010112, 159385206784, 145135534080, 132821008384,
     122089775104, 112414072832, 103969816576, 96405176320, 89720152064, 83562881024,
     78109302784, 73183494144, 68609523712, 64563322880],
    [17592186044416, 17592186044416, 17592186044416, 4450822914048, 2586051346432,
     1618481119232, 1071364112384, 744149483520, 538320896000, 401101848576, 306104041472,
     239253733376, 189995614208, 153931628544, 126311899136, 104849432576, 189995614208,
     153931628544, 126311899136, 104849432576, 87960928256, 74414948352, 63683715072,
     54887620608, 47498903552, 41517559808, 36415823872, 32193699840, 28499341312,
     25508669440, 22693920768, 20406935552, 18471794688, 16694984704, 15164464128,
     13809865728, 12613597184],
    [17592186044416, 17592186044416, 17592186044416, 17592186044416, 2814749704192,
     1618481119232, 986921631744, 631559487488, 422212468736, 292030283776, 207587803136,
     151996481536, 113645518848, 86553559040, 67026227200, 52776558592, 42045325312,
     33952919552, 27795654656, 22869841920, 18999560192, 15920928768, 13440430080,
     11417328640, 9763662848, 8409064960, 7265572864, 6315594752, 5523946496, 4855443456,
     4274901248, 3782319872, 3360107520],
    [17592186044416, 17592186044416, 17592186044416, 17592186044416, 17592186044416,
     1776810852352, 1016828329984, 610448834560, 381750444032, 248049827840, 165894307840,
     114349211648, 80748134400, 58406055936, 42924933120, 32193699840, 24453138432,
     18823639040, 14759843840, 11663619072, 9323858944, 7511863296, 6104488448, 5013772800,
     4134163712, 3448068352, 2885118464, 2427721728, 2058285824, 1752181760, 1500613504,
     1289507200, 1113585408],
    [17592186044416, 17592186044416, 17592186044416, 17592186044416, 17592186044416,
     17592186044416, 1122381463552, 640355598336, 379991228416, 233976070144, 148478050304,
     97108869120, 65267011584, 44860076032, 31490013184, 22517997568, 16448694272,
     12173792256, 9130344448, 6931321344, 5330432512, 4151756032, 3254554368, 2586051328,
     2058285824, 1660702336, 1347561472, 1101270784, 905997568, 749427136, 624522624,
     522487936, 439804640],
    [17592186044416, 17592186044416, 17592186044416, 17592186044416, 17592186044416,
     17592186044416, 17592186044416, 17592186044416, 402861064192, 237494517760, 144080011264,
     90247913472, 57878290432, 38175043584, 25684592640, 17592186880, 12349714432, 8778501120,
     6333187072, 4644337152, 3448068352, 2586051328, 1970324864, 1505891072, 1166361984,
     911275264, 717761216, 569986816, 455637632, 367676704, 297307936, 242772160, 198791696],
    [17592186044416, 17592186044416, 17592186044416, 17592186044416, 17592186044416,
     17592186044416, 17592186044416, 17592186044416, 17592186044416, 255086690304,
     148829896704, 89544228864, 55239462912, 35008450560, 22693920768, 14988542976,
     10097914880, 6931321344, 4837851136, 3412883968, 2462906112, 1776810752, 1312377088,
     976366336, 733594176, 555913088, 425730912, 328973888, 256845920, 200550928, 158505600,
     125960056, 100803224],
    [17592186044416, 17592186044416, 17592186044416, 17592186044416, 17592186044416,
     17592186044416, 17592186044416, 17592186044416, 17592186044416, 17592186044416,
     17592186044416, 93414506496, 55767228416, 34128840704, 21286545408, 13633944576,
     8884054016, 5893382144, 3975834112, 2726788864, 1899956096, 1335246976, 953496512,
     689613696, 503136512, 371195136, 276197312, 207587792, 157625984, 120506472, 92886744,
     72127960, 56294996],
    [17592186044416, 17592186044416, 17592186044416, 17592186044416, 17592186044416,
     17592186044416, 17592186044416, 17592186044416, 17592186044416, 17592186044416,
     17592186044416, 17592186044416, 58757902336, 34832527360, 21110624256, 13088586752,
     8268327424, 5312840192, 3483252736, 2322168576, 1563945344, 1071364160, 744149440,
     522487936, 371195136, 267401232, 193514048, 141968944, 105025352, 78285224, 58933824,
     44684152, 34128840],
    [17592186044416, 17592186044416, 17592186044416, 17592186044416, 17592186044416,
     17592186044416, 17592186044416, 17592186044416, 17592186044416, 17592186044416,
     17592186044416, 17592186044416, 17592186044416, 36943589376, 21814310912, 13141362688,
     8074813440, 5048957440, 3219369984, 2075878016, 1366912896, 911275264, 615726528,
     422212480, 292030304, 204069360, 144783696, 103617976, 74766792, 54535776, 40110184,
     29730794, 22166154],
    [17592186044416, 17592186044416, 17592186044416, 17592186044416, 17592186044416,
     17592186044416, 17592186044416, 17592186044416, 17592186044416, 17592186044416,
     17592186044416, 17592186044416, 17592186044416, 17592186044416, 17592186044416,
     13686720512, 8197958656, 4996180992, 3096224768, 1952732672, 1252563584, 814518208,
     536561664, 358880608, 242772160, 165718400, 114701056, 80220368, 56646840, 40286108,
     29027106, 21110624, 15375571]]"

definition kErrors :: "real list list" where
  "kErrors = map (map (\<lambda>n. real_of_int n / 2 ^ 44)) kErrors_scaled"

section \<open>The lookup\<close>

definition KTooLargeError :: string where
  "KTooLargeError = ''K must be <= 12''"

definition NoSuitableRatioError :: string where
  "NoSuitableRatioError =
     ''Specified value of k and error rate not achievable using less than 4 bytes / element.''"

text \<open>The loop over \<open>mOverN\<close>: the remaining entries of the row, the first at index \<open>mOverN\<close>.\<close>

fun scan_ratio :: "nat \<Rightarrow> real list \<Rightarrow> real \<Rightarrow> nat option" where
  "scan_ratio mOverN [] targetError = None"
| "scan_ratio mOverN (p # ps) targetError =
     (if p < targetError then Some mOverN else scan_ratio (Suc mOverN) ps targetError)"

definition getMOverNBitsForK :: "int \<Rightarrow> real \<Rightarrow> real list list \<Rightarrow> js_error + nat" where
  "getMOverNBitsForK k targetError probabilityTable =
     (if k < 0 \<or> k > 12 then Inl (JsError KTooLargeError)
      else if nat k \<ge> length probabilityTable then Inl TypeError
      else case scan_ratio 2 (drop 2 (probabilityTable ! nat k)) targetError of
             Some m \<Rightarrow> Inr m
           | None \<Rightarrow> Inl (JsError NoSuitableRatioError))"

lemma scan_ratio_Some:
  "scan_ratio m ps t = Some r \<longleftrightarrow>
     m \<le> r \<and> r < m + length ps \<and> ps ! (r - m) < t \<and> (\<forall>j<r - m. t \<le> ps ! j)"
proof (induction ps arbitrary: m)
  case (Cons p ps)
  show ?case
  proof (cases "p < t")
    case True
    then show ?thesis by (auto simp: not_le) (metis gr0I nth_Cons_0 not_le zero_less_diff le_antisym)
  next
    case False
    have "(Suc m \<le> r \<and> r < Suc m + length ps \<and> ps ! (r - Suc m) < t
        \<and> (\<forall>j<r - Suc m. t \<le> ps ! j)) \<longleftrightarrow>
      (m \<le> r \<and> r < m + length (p # ps) \<and> (p # ps) ! (r - m) < t
        \<and> (\<forall>j<r - m. t \<le> (p # ps) ! j))"
    proof (cases "m < r")
      case True
      then obtain d where "r = Suc (m + d)" using less_iff_Suc_add by auto
      with False show ?thesis by (auto simp: less_Suc_eq_0_disj)
    next
      case False
      with \<open>\<not> p < t\<close> show ?thesis by (cases "r = m") auto
    qed
    with False Cons show ?thesis by simp
  qed
qed simp

lemma scan_ratio_None: "scan_ratio m ps t = None \<longleftrightarrow> (\<forall>p\<in>set ps. t \<le> p)"
  by (induction ps arbitrary: m) auto

text \<open>Only the third row is not decreasing: its entries 12 to 15 appear a second time.\<close>

fun decreasing_row :: "int list \<Rightarrow> bool" where
  "decreasing_row (x # y # zs) = (y \<le> x \<and> decreasing_row (y # zs))"
| "decreasing_row row = True"

lemma Suc_Suc_diff_2 [simp]: "2 \<le> j \<Longrightarrow> Suc (Suc (j - 2)) = j"
  by arith

section \<open>Properties\<close>

text \<open>\<open>getMOverNBitsForK\<close> returns the smallest ratio, from 2 on, whose rate is below the
  target, and throws exactly when k is out of range or no entry of the row is below the target.\<close>

theorem getMOverNBitsForK_least:
  assumes "0 \<le> k" and "k \<le> 12" and "nat k < length table"
  shows "(getMOverNBitsForK k t table = Inr m \<longleftrightarrow>
            2 \<le> m \<and> m < length (table ! nat k) \<and> table ! nat k ! m < t
            \<and> (\<forall>j. 2 \<le> j \<longrightarrow> j < m \<longrightarrow> t \<le> table ! nat k ! j))
       \<and> (getMOverNBitsForK k t table = Inl (JsError NoSuitableRatioError) \<longleftrightarrow>
            (\<forall>j. 2 \<le> j \<longrightarrow> j < length (table ! nat k) \<longrightarrow> t \<le> table ! nat k ! j))"
proof -
  let ?row = "table ! nat k"
  have r: "getMOverNBitsForK k t table = (case scan_ratio 2 (drop 2 ?row) t of
      Some m \<Rightarrow> Inr m | None \<Rightarrow> Inl (JsError NoSuitableRatioError))"
    using assms by (simp add: getMOverNBitsForK_def)
  have "(\<forall>j<m - 2. t \<le> drop 2 ?row ! j) \<longleftrightarrow> (\<forall>j. 2 \<le> j \<longrightarrow> j < m \<longrightarrow> t \<le> ?row ! j)"
    if "2 \<le> m" "m < length ?row"
  proof
    assume a: "\<forall>j<m - 2. t \<le> drop 2 ?row ! j"
    show "\<forall>j. 2 \<le> j \<longrightarrow> j < m \<longrightarrow> t \<le> ?row ! j"
    proof (intro allI impI)
      fix j assume "2 \<le> j" "j < m"
      with a[rule_format, of "j - 2"] that show "t \<le> ?row ! j" by simp
    qed
  qed (use that in simp)
  then have "scan_ratio 2 (drop 2 ?row) t = Some m \<longleftrightarrow> 2 \<le> m \<and> m < length ?row
      \<and> ?row ! m < t \<and> (\<forall>j. 2 \<le> j \<longrightarrow> j < m \<longrightarrow> t \<le> ?row ! j)"
    by (cases "2 \<le> m \<and> m < length ?row") (auto simp: scan_ratio_Some)
  moreover have "scan_ratio 2 (drop 2 ?row) t = None \<longleftrightarrow>
      (\<forall>j. 2 \<le> j \<longrightarrow> j < length ?row \<longrightarrow> t \<le> ?row ! j)"
  proof -
    have "(\<forall>i<length (drop 2 ?row). t \<le> drop 2 ?row ! i) \<longleftrightarrow>
        (\<forall>j. 2 \<le> j \<longrightarrow> j < length ?row \<longrightarrow> t \<le> ?row ! j)"
    proof
      assume a: "\<forall>i<length (drop 2 ?row). t \<le> drop 2 ?row ! i"
      show "\<forall>j. 2 \<le> j \<longrightarrow> j < length ?row \<longrightarrow> t \<le> ?row ! j"
      proof (intro allI impI)
        fix j assume "2 \<le> j" "j < length ?row"
        with a[rule_format, of "j - 2"] show "t \<le> ?row ! j" by simp
      qed
    qed simp
    then show ?thesis by (simp only: scan_ratio_None all_set_conv_all_nth)
  qed
  ultimately show ?thesis by (auto simp: r split: option.splits)
qed

theorem getMOverNBitsForK_least_witness:
  "getMOverNBitsForK 1 (1 / 2) [[1], [1, 1, 3 / 4, 1 / 4, 1 / 8]] = Inr 3"
  using getMOverNBitsForK_least[of 1 "[[1], [1, 1, 3 / 4, 1 / 4, 1 / 8]]" "1 / 2" 3]
  by (auto simp: less_Suc_eq eval_nat_numeral)

text \<open>The table is not what it is taken for in its row for three hash functions: every other row
  is decreasing, but that one has 37 entries and jumps up from its entry 15 to its entry 16 (the
  entries 12 to 15 are repeated), and the documented example of the lookup, 5 for three hash
  functions and a rate of 0.01, is 13.\<close>

theorem kErrors_row3_repeats:
  "map decreasing_row kErrors_scaled =
     [True, True, True, False, True, True, True, True, True, True, True, True, True]
   \<and> length (kErrors_scaled ! 3) = 37
   \<and> take 4 (drop 16 (kErrors_scaled ! 3)) = take 4 (drop 12 (kErrors_scaled ! 3))
   \<and> getMOverNBitsForK 3 (1 / 100) kErrors = Inr 13"
proof (intro conjI)
  show "map decreasing_row kErrors_scaled =
     [True, True, True, False, True, True, True, True, True, True, True, True, True]"
    by (simp add: kErrors_scaled_def)
  show "length (kErrors_scaled ! 3) = 37" by (simp add: kErrors_scaled_def)
  show "take 4 (drop 16 (kErrors_scaled ! 3)) = take 4 (drop 12 (kErrors_scaled ! 3))"
    by (simp add: kErrors_scaled_def)
  show "getMOverNBitsForK 3 (1 / 100) kErrors = Inr 13"
    by (simp add: getMOverNBitsForK_def kErrors_def kErrors_scaled_def)
qed

end
