(* ===== verification/Bloom.thy ===== *)
theory Bloom
  imports Bytes Probabilities
begin

unbundle bit_operations_syntax

text \<open>
  \<open>packages/sds/src/bloom_filter/bloom.ts\<close> and the double hashing of
  \<open>packages/sds/src/nim_hashn/nim_hashn.mjs\<close>. The array of bigints is a list of
  natural numbers (no value is ever negative), and the hash function is an argument of the
  filter's operations, as it is a constructor argument of the class; \<open>DefaultBloomFilter\<close>
  passes \<open>nim_hashN\<close>. An index past the end of the array reads \<open>undefined\<close>, whose use with a
  bigint throws \<open>TypeError\<close>.
\<close>

section \<open>The Nim hash\<close>

text \<open>
  All intermediate values are forced to 32 bits by \<open>>>> 0\<close>, so they are \<^typ>\<open>32 word\<close>s;
  \<open>imul\<close>, which multiplies by halves, is the product modulo \<open>2 ^ 32\<close>.
\<close>

definition murmur_imul :: "32 word \<Rightarrow> 32 word \<Rightarrow> 32 word" where
  "murmur_imul a b =
     (let aHi = drop_bit 16 a AND 65535; aLo = a AND 65535;
          bHi = drop_bit 16 b AND 65535; bLo = b AND 65535
      in aLo * bLo + push_bit 16 (aHi * bLo + aLo * bHi))"

definition murmur_rotl :: "32 word \<Rightarrow> nat \<Rightarrow> 32 word" where
  "murmur_rotl x r = push_bit r x OR drop_bit (32 - r) x"

text \<open>The inner loops gather bytes from the highest index down.\<close>

definition murmur_gather :: "nat list \<Rightarrow> 32 word" where
  "murmur_gather codes = foldr (\<lambda>c k. push_bit 8 k OR of_nat c) codes 0"

definition murmur_scramble :: "32 word \<Rightarrow> 32 word" where
  "murmur_scramble k = murmur_imul (murmur_rotl (murmur_imul k 3432918353) 15) 461845907"

fun murmur_body :: "32 word \<Rightarrow> nat list \<Rightarrow> 32 word" where
  "murmur_body h (a # b # c # d # rest) =
     murmur_body
       (murmur_rotl (h XOR murmur_scramble (murmur_gather [a, b, c, d])) 13 * 5 + 3864292196) rest"
| "murmur_body h rest = h XOR murmur_scramble (murmur_gather rest)"

definition murmur_final :: "32 word \<Rightarrow> 32 word" where
  "murmur_final h =
     (let h1 = h XOR drop_bit 16 h;
          h2 = murmur_imul h1 2246822507;
          h3 = h2 XOR drop_bit 13 h2;
          h4 = murmur_imul h3 3266489909
      in h4 XOR drop_bit 16 h4)"

definition murmurHash :: "nat list \<Rightarrow> int" where
  "murmurHash codes =
     sint (murmur_final (murmur_body 0 codes XOR of_nat (length codes)))"

definition char_codes :: "string \<Rightarrow> nat list" where
  "char_codes s = map of_char s"

text \<open>
  \<open>hashN\<close>: the sum and the product are checked for overflow of a signed 32-bit integer, and a
  zero modulus raises.
\<close>

definition nim_checked :: "int \<Rightarrow> js_error + int" where
  "nim_checked v =
     (if v > 2147483647 \<or> v < - 2147483648 then Inl (JsError ''OverflowDefect'') else Inr v)"

definition nim_hashN :: "string \<Rightarrow> nat \<Rightarrow> nat \<Rightarrow> js_error + nat" where
  "nim_hashN item n maxValue =
     (if maxValue = 0 then Inl (JsError ''DivByZeroDefect'')
      else let hashA = \<bar>murmurHash (char_codes item)\<bar> mod int maxValue;
               hashB = \<bar>murmurHash (char_codes (item @ '' b''))\<bar> mod int maxValue
           in case nim_checked (int n * hashB) of
                Inl e \<Rightarrow> Inl e
              | Inr p \<Rightarrow>
                  (case nim_checked (hashA + p) of
                     Inl e \<Rightarrow> Inl e
                   | Inr s \<Rightarrow> Inr (nat (\<bar>s\<bar> mod int maxValue))))"

lemma nim_hashN_bound: "nim_hashN item n m = Inr h \<Longrightarrow> h < m"
  by (auto simp: nim_hashN_def Let_def nat_less_iff split: if_splits sum.splits)

lemma nim_hashN_total:
  assumes "0 < m" and "(n + 1) * m \<le> 2 ^ 31"
  shows "\<exists>h. nim_hashN item n m = Inr h"
proof -
  define hA where "hA = \<bar>murmurHash (char_codes item)\<bar> mod int m"
  define hB where "hB = \<bar>murmurHash (char_codes (item @ '' b''))\<bar> mod int m"
  have A: "0 \<le> hA" "hA < int m" and B: "0 \<le> hB" "hB \<le> int m"
    using assms(1) by (auto simp: hA_def hB_def intro: less_imp_le)
  have p: "0 \<le> int n * hB" "int n * hB \<le> int n * int m"
    using B by (simp_all add: mult_left_mono)
  have "int ((n + 1) * m) \<le> int (2 ^ 31)" using assms(2) by (simp only: of_nat_le_iff)
  then have "int n * int m + int m \<le> 2147483648" by (simp add: algebra_simps)
  with A p have "hA + int n * hB \<le> 2147483647" by linarith
  with A p assms(1) show ?thesis
    by (simp add: nim_hashN_def nim_checked_def hA_def[symmetric] hB_def[symmetric])
qed

section \<open>The filter\<close>

record bloom_options =
  capacity :: nat
  opt_errorRate :: real
  opt_kHashes :: "int option"
  opt_forceNBitsPerElem :: "nat option"

record bloom =
  totalBits :: nat
  data :: "nat list"
  kHashes :: nat
  errorRate :: real
  options :: bloom_options

text \<open>
  The number of hash functions and of bits per element. \<open>Math.log\<close> is the real logarithm (the
  rounding of doubles is not modelled) and \<open>Math.round\<close> rounds a half up. The error rate is
  documented to lie between 0 and 1.
\<close>

definition bloom_dims :: "bloom_options \<Rightarrow> js_error + nat \<times> nat" where
  "bloom_dims opts =
     (let k = (case opt_kHashes opts of None \<Rightarrow> 0 | Some k \<Rightarrow> k);
          forceNBitsPerElem = (case opt_forceNBitsPerElem opts of None \<Rightarrow> 0 | Some n \<Rightarrow> n)
      in if k < 1
         then (let bitsPerElem = \<lceil>- 1 * (ln (opt_errorRate opts) / (ln 2)\<^sup>2)\<rceil>
               in Inr (nat \<lfloor>ln (2 :: real) * of_int bitsPerElem + 1 / 2\<rfloor>, nat bitsPerElem))
         else if forceNBitsPerElem < 1
         then (case getMOverNBitsForK k (opt_errorRate opts) kErrors of
                 Inl e \<Rightarrow> Inl e
               | Inr n \<Rightarrow> Inr (nat k, n))
         else Inr (nat k, forceNBitsPerElem))"

definition bloom_new :: "bloom_options \<Rightarrow> js_error + bloom" where
  "bloom_new opts =
     (case bloom_dims opts of
        Inl e \<Rightarrow> Inl e
      | Inr (k, nBitsPerElem) \<Rightarrow>
          (let mBits = capacity opts * nBitsPerElem; mInts = 1 + mBits div 64
           in Inr \<lparr>totalBits = mBits, data = replicate mInts 0, kHashes = k,
                   errorRate = opt_errorRate opts, options = opts\<rparr>))"

type_synonym hash_fun = "string \<Rightarrow> nat \<Rightarrow> nat \<Rightarrow> js_error + nat"

fun collect_hashes :: "(nat \<Rightarrow> js_error + nat) \<Rightarrow> nat list \<Rightarrow> js_error + nat list" where
  "collect_hashes h [] = Inr []"
| "collect_hashes h (i # is) =
     (case h i of
        Inl e \<Rightarrow> Inl e
      | Inr v \<Rightarrow> (case collect_hashes h is of Inl e \<Rightarrow> Inl e | Inr vs \<Rightarrow> Inr (v # vs)))"

definition computeHashes :: "hash_fun \<Rightarrow> bloom \<Rightarrow> string \<Rightarrow> js_error + nat list" where
  "computeHashes hashN bf item =
     collect_hashes (\<lambda>i. hashN item i (totalBits bf)) [0..<kHashes bf]"

fun set_bits :: "nat list \<Rightarrow> nat list \<Rightarrow> (nat list, unit) call" where
  "set_bits ws [] = returns ws ()"
| "set_bits ws (h # hs) =
     (let intAddress = h div 64; bitOffset = h mod 64
      in if intAddress < length ws
         then set_bits (ws[intAddress := ws ! intAddress OR push_bit bitOffset 1]) hs
         else throws ws TypeError)"

definition bloom_insert :: "hash_fun \<Rightarrow> bloom \<Rightarrow> string \<Rightarrow> (bloom, unit) call" where
  "bloom_insert hashN bf item =
     (case computeHashes hashN bf item of
        Inl e \<Rightarrow> throws bf e
      | Inr hs \<Rightarrow> (case set_bits (data bf) hs of (ws, r) \<Rightarrow> (bf\<lparr>data := ws\<rparr>, r)))"

fun test_bits :: "nat list \<Rightarrow> nat list \<Rightarrow> js_error + bool" where
  "test_bits ws [] = Inr True"
| "test_bits ws (h # hs) =
     (let intAddress = h div 64; bitOffset = h mod 64
      in if intAddress < length ws
         then (if ws ! intAddress \<noteq> (ws ! intAddress OR push_bit bitOffset 1) then Inr False
               else test_bits ws hs)
         else Inl TypeError)"

definition bloom_lookup :: "hash_fun \<Rightarrow> bloom \<Rightarrow> string \<Rightarrow> js_error + bool" where
  "bloom_lookup hashN bf item =
     (case computeHashes hashN bf item of
        Inl e \<Rightarrow> Inl e
      | Inr hs \<Rightarrow> test_bits (data bf) hs)"

definition bloom_toBytes :: "bloom \<Rightarrow> bytes" where
  "bloom_toBytes bf = concat (map (be_bytes 8) (data bf))"

text \<open>\<open>read_words n i bs\<close> reads \<open>n\<close> big-endian words, the first at byte \<open>8 * i\<close>.\<close>

fun read_words :: "nat \<Rightarrow> nat \<Rightarrow> bytes \<Rightarrow> js_error + nat list" where
  "read_words 0 i bs = Inr []"
| "read_words (Suc n) i bs =
     (case get_be 8 (i * 8) bs of
        Inl e \<Rightarrow> Inl e
      | Inr w \<Rightarrow> (case read_words n (Suc i) bs of Inl e \<Rightarrow> Inl e | Inr ws \<Rightarrow> Inr (w # ws)))"

definition bloom_fromBytes :: "bytes \<Rightarrow> bloom_options \<Rightarrow> js_error + bloom" where
  "bloom_fromBytes bs opts =
     (case bloom_new opts of
        Inl e \<Rightarrow> Inl e
      | Inr bf \<Rightarrow> (case read_words (length (data bf)) 0 bs of
                      Inl e \<Rightarrow> Inl e
                    | Inr ws \<Rightarrow> Inr (bf\<lparr>data := ws\<rparr>)))"

section \<open>The filter is a set of bit positions\<close>

definition word_bits :: "nat list \<Rightarrow> nat set" where
  "word_bits ws = {h. h div 64 < length ws \<and> bit (ws ! (h div 64)) (h mod 64)}"

definition bloom_wf :: "bloom \<Rightarrow> bool" where
  "bloom_wf bf \<longleftrightarrow> length (data bf) = 1 + totalBits bf div 64 \<and> (\<forall>w\<in>set (data bf). w < 2 ^ 64)"

lemma or_push_bit_1: "(w :: nat) OR push_bit o' 1 = set_bit o' w"
  by (simp add: set_bit_eq_or)

lemma or_power_2: "(w :: nat) OR 2 ^ i = set_bit i w"
  by (simp add: set_bit_eq_or)

lemma set_bit_idle_iff: "(w :: nat) = set_bit i w \<longleftrightarrow> bit w i"
  by (metis bit_set_bit_iff possible_bit_nat set_bit_eq_or or_power_2 bit_eq_iff bit_or_iff bit_push_bit_iff)

lemma div_mod_64_inject: "(h :: nat) div 64 = g div 64 \<Longrightarrow> h mod 64 = g mod 64 \<Longrightarrow> h = g"
  by (metis mult_div_mod_eq)

lemma word_bits_set:
  assumes "h div 64 < length ws"
  shows "word_bits (ws[h div 64 := set_bit (h mod 64) (ws ! (h div 64))]) = insert h (word_bits ws)"
  using assms
  by (auto simp: word_bits_def nth_list_update bit_simps
      intro: div_mod_64_inject split: if_splits)

lemma set_bit_lt: "(w :: nat) < 2 ^ n \<Longrightarrow> i < n \<Longrightarrow> set_bit i w < 2 ^ n"
  by (metis (no_types) take_bit_nat_eq_self_iff take_bit_set_bit_eq not_le)

lemma set_bits_Cons:
  "set_bits ws (h # hs) =
     (if h div 64 < length ws
      then set_bits (ws[h div 64 := set_bit (h mod 64) (ws ! (h div 64))]) hs
      else throws ws TypeError)"
  by (simp add: Let_def or_power_2)

declare set_bits.simps(2) [simp del]

lemma set_bits_length: "length (fst (set_bits ws hs)) = length ws"
  by (induction hs arbitrary: ws) (auto simp: set_bits_Cons)

lemma set_bits_bound:
  "\<forall>w\<in>set ws. w < 2 ^ 64 \<Longrightarrow> \<forall>w\<in>set (fst (set_bits ws hs)). w < 2 ^ 64"
proof (induction hs arbitrary: ws)
  case (Cons h hs)
  let ?ws = "ws[h div 64 := set_bit (h mod 64) (ws ! (h div 64))]"
  have "h div 64 < length ws \<Longrightarrow> set_bit (h mod 64) (ws ! (h div 64)) < 2 ^ 64"
    using Cons.prems by (intro set_bit_lt) auto
  then have "h div 64 < length ws \<Longrightarrow> \<forall>w\<in>set ?ws. w < 2 ^ 64"
    using Cons.prems set_update_subset_insert[of ws "h div 64"] by blast
  then show ?case using Cons.IH[of ?ws] Cons.prems by (simp add: set_bits_Cons)
qed simp

lemma set_bits_ok:
  "\<forall>h\<in>set hs. h div 64 < length ws \<Longrightarrow>
    \<exists>ws'. set_bits ws hs = returns ws' () \<and> word_bits ws' = word_bits ws \<union> set hs"
proof (induction hs arbitrary: ws)
  case (Cons h hs)
  let ?ws = "ws[h div 64 := set_bit (h mod 64) (ws ! (h div 64))]"
  have "\<forall>h\<in>set hs. h div 64 < length ?ws" using Cons.prems by simp
  from Cons.IH[OF this] obtain ws' where "set_bits ?ws hs = returns ws' ()"
    and "word_bits ws' = word_bits ?ws \<union> set hs" by blast
  with Cons.prems show ?case by (auto simp: set_bits_Cons word_bits_set)
qed simp

lemma test_bits_ok:
  "\<forall>h\<in>set hs. h div 64 < length ws \<Longrightarrow> test_bits ws hs = Inr (set hs \<subseteq> word_bits ws)"
proof (induction hs)
  case (Cons h hs)
  then show ?case by (auto simp: Let_def or_power_2 set_bit_idle_iff word_bits_def)
qed simp

lemma read_words_ok:
  "length bs = 8 * length ws \<Longrightarrow> \<forall>w\<in>set ws. w < 2 ^ 64 \<Longrightarrow>
    8 * i = length pre \<Longrightarrow> bs = concat (map (be_bytes 8) ws) \<Longrightarrow>
    read_words (length ws) i (pre @ bs) = Inr ws"
proof (induction ws arbitrary: bs i pre)
  case (Cons w ws)
  let ?rest = "concat (map (be_bytes 8) ws)"
  have "get_be 8 (i * 8) (pre @ be_bytes 8 w @ ?rest) = Inr w"
    using Cons.prems get_be_append[of pre "i * 8" 8 w ?rest] by (simp add: mult.commute)
  moreover have "read_words (length ws) (Suc i) ((pre @ be_bytes 8 w) @ ?rest) = Inr ws"
    using Cons.prems by (intro Cons.IH) (simp_all add: length_concat comp_def sum_list_triv)
  ultimately show ?case using Cons.prems by simp
qed simp

lemma length_toBytes: "length (bloom_toBytes bf) = 8 * length (data bf)"
  by (simp add: bloom_toBytes_def length_concat comp_def sum_list_triv)

text \<open>
  Whether the filter was sized by \<open>opts\<close>: the dimensions that \<open>fromBytes\<close> recomputes.
\<close>

definition sized_by :: "bloom_options \<Rightarrow> bloom \<Rightarrow> bool" where
  "sized_by opts bf \<longleftrightarrow> bloom_wf bf \<and> options bf = opts \<and> errorRate bf = opt_errorRate opts
     \<and> (\<exists>n. bloom_dims opts = Inr (kHashes bf, n) \<and> totalBits bf = capacity opts * n)"

lemma bloom_new_sized: "bloom_new opts = Inr bf \<Longrightarrow> sized_by opts bf"
  by (auto simp: bloom_new_def sized_by_def bloom_wf_def Let_def split: sum.splits)

lemma word_bits_zero: "\<forall>w\<in>set ws. w = 0 \<Longrightarrow> word_bits ws = {}"
  by (auto simp: word_bits_def) (metis bit_0_eq bot_apply bot_bool_def nth_mem)

lemma fromBytes_toBytes: "sized_by opts bf \<Longrightarrow> bloom_fromBytes (bloom_toBytes bf) opts = Inr bf"
proof -
  assume "sized_by opts bf"
  then obtain n where n: "bloom_dims opts = Inr (kHashes bf, n)"
      "totalBits bf = capacity opts * n" "bloom_wf bf" "options bf = opts"
      "errorRate bf = opt_errorRate opts"
    by (auto simp: sized_by_def)
  have "read_words (length (data bf)) 0 ([] @ bloom_toBytes bf) = Inr (data bf)"
    by (rule read_words_ok)
      (use n(3) in \<open>auto simp: length_toBytes bloom_wf_def, simp add: bloom_toBytes_def\<close>)
  with n show ?thesis
    by (simp add: bloom_fromBytes_def bloom_new_def bloom_wf_def Let_def length_toBytes)
qed

section \<open>Hash functions that stay in range\<close>

locale bloom_hash =
  fixes hashN :: hash_fun and k m :: nat
  assumes hash_in_range: "i < k \<Longrightarrow> \<exists>h. hashN item i m = Inr h \<and> h < m"
begin

lemma collect_ok:
  "\<forall>i\<in>set is. i < k \<Longrightarrow>
    \<exists>hs. collect_hashes (\<lambda>i. hashN item i m) is = Inr hs \<and> (\<forall>h\<in>set hs. h < m)"
proof (induction "is")
  case (Cons i "is")
  then show ?case using hash_in_range[of i item] by fastforce
qed simp

lemma computeHashes_ok:
  assumes "kHashes bf = k" and "totalBits bf = m"
  shows "\<exists>hs. computeHashes hashN bf item = Inr hs \<and> (\<forall>h\<in>set hs. h < m)"
  unfolding computeHashes_def assms using collect_ok[of "[0..<k]"] by simp

lemma in_range: "bloom_wf bf \<Longrightarrow> totalBits bf = m \<Longrightarrow> h < m \<Longrightarrow> h div 64 < length (data bf)"
  by (simp add: bloom_wf_def less_Suc_eq_le div_le_mono)

lemma lookup_iff:
  assumes "bloom_wf bf" "kHashes bf = k" "totalBits bf = m" "computeHashes hashN bf item = Inr hs"
  shows "bloom_lookup hashN bf item = Inr (set hs \<subseteq> word_bits (data bf))"
proof -
  have "\<forall>h\<in>set hs. h div 64 < length (data bf)"
    using computeHashes_ok[of bf item] assms in_range by fastforce
  then show ?thesis by (simp add: bloom_lookup_def assms(4) test_bits_ok)
qed

lemma insert_ok:
  assumes "bloom_wf bf" "kHashes bf = k" "totalBits bf = m" "computeHashes hashN bf item = Inr hs"
  shows "\<exists>ws. bloom_insert hashN bf item = (bf\<lparr>data := ws\<rparr>, Inr ())
    \<and> bloom_wf (bf\<lparr>data := ws\<rparr>) \<and> word_bits ws = word_bits (data bf) \<union> set hs"
proof -
  have "\<forall>h\<in>set hs. h div 64 < length (data bf)"
    using computeHashes_ok[of bf item] assms in_range by fastforce
  then obtain ws where ws: "set_bits (data bf) hs = returns ws ()"
    "word_bits ws = word_bits (data bf) \<union> set hs" using set_bits_ok by blast
  with set_bits_length[of "data bf" hs] set_bits_bound[of "data bf" hs] assms(1)
  have "bloom_wf (bf\<lparr>data := ws\<rparr>)" by (simp add: bloom_wf_def)
  with ws show ?thesis by (auto simp: bloom_insert_def assms(4) returns_def)
qed

text \<open>Inserting adds the positions of the item and keeps those that were there.\<close>

lemma insert_lookup:
  assumes "bloom_wf bf" "kHashes bf = k" "totalBits bf = m"
  shows "\<exists>bf'. bloom_insert hashN bf item = (bf', Inr ())
    \<and> bloom_wf bf' \<and> kHashes bf' = k \<and> totalBits bf' = m \<and> options bf' = options bf
    \<and> errorRate bf' = errorRate bf
    \<and> bloom_lookup hashN bf' item = Inr True
    \<and> (\<forall>x. bloom_lookup hashN bf x = Inr True \<longrightarrow> bloom_lookup hashN bf' x = Inr True)"
proof -
  obtain hs where hs: "computeHashes hashN bf item = Inr hs"
    using computeHashes_ok assms(2,3) by blast
  obtain ws where ws: "bloom_insert hashN bf item = (bf\<lparr>data := ws\<rparr>, Inr ())"
      "bloom_wf (bf\<lparr>data := ws\<rparr>)" "word_bits ws = word_bits (data bf) \<union> set hs"
    using insert_ok[OF assms hs] by blast
  let ?bf = "bf\<lparr>data := ws\<rparr>"
  have same: "computeHashes hashN ?bf x = computeHashes hashN bf x" for x
    by (simp add: computeHashes_def)
  have "bloom_lookup hashN ?bf item = Inr True"
    using lookup_iff[of ?bf item hs] ws assms hs same by simp
  moreover have "bloom_lookup hashN ?bf x = Inr True" if "bloom_lookup hashN bf x = Inr True" for x
  proof -
    obtain hx where hx: "computeHashes hashN bf x = Inr hx"
      using computeHashes_ok assms(2,3) by blast
    with that lookup_iff[OF assms hx] have "set hx \<subseteq> word_bits (data bf)" by simp
    with lookup_iff[of ?bf x hx] ws assms hx same show ?thesis by auto
  qed
  ultimately show ?thesis using ws assms by auto
qed

end

interpretation default_hash: bloom_hash nim_hashN 10 150000
proof
  fix i :: nat and item
  assume "i < 10"
  then have "(i + 1) * 150000 \<le> 2 ^ 31" by simp
  then show "\<exists>h. nim_hashN item i 150000 = Inr h \<and> h < 150000"
    using nim_hashN_total[of 150000 i item] nim_hashN_bound by fastforce
qed

section \<open>The default filter\<close>

definition DEFAULT_BLOOM_FILTER_OPTIONS :: bloom_options where
  "DEFAULT_BLOOM_FILTER_OPTIONS =
     \<lparr>capacity = 10000, opt_errorRate = 1 / 1000, opt_kHashes = None, opt_forceNBitsPerElem = None\<rparr>"

lemma ln_2_bounds: "2 / 3 \<le> ln (2 :: real)" "ln (2 :: real) < 7 / 10"
proof -
  have "exp (2 / 3 :: real) = exp (1 / 12) ^ 8" by (simp add: exp_of_nat_mult[symmetric])
  also have "\<dots> \<le> (157 / 144) ^ 8"
    using exp_bound[of "1 / 12"] by (intro power_mono) (simp_all add: power2_eq_square)
  also have "\<dots> < (2 :: real)" by (simp add: eval_nat_numeral)
  finally show "2 / 3 \<le> ln (2 :: real)"
    by (metis exp_gt_zero less_imp_le ln_exp ln_less_cancel_iff zero_less_numeral)
  have "(2 :: real) < (1.19) ^ 4" by (simp add: eval_nat_numeral)
  also have "\<dots> \<le> exp (7 / 40 :: real) ^ 4"
    using exp_lower_Taylor_quadratic[of "7 / 40 :: real"]
    by (intro power_mono) (simp_all add: power2_eq_square)
  also have "\<dots> = exp (7 / 10)" by (simp add: exp_of_nat_mult[symmetric])
  finally show "ln (2 :: real) < 7 / 10"
    by (metis exp_gt_zero ln_exp ln_less_cancel_iff zero_less_numeral)
qed

lemma ln_1000_bounds: "9.9 * ln 2 < ln (1000 :: real)" "ln (1000 :: real) < 10 * ln 2"
proof -
  have "99 * ln (2 :: real) = ln (2 ^ 99)" by (subst ln_realpow) auto
  also have "\<dots> < ln (1000 ^ 10)" by (subst ln_less_cancel_iff) auto
  also have "\<dots> = 10 * ln (1000 :: real)" by (subst ln_realpow) auto
  finally show "9.9 * ln 2 < ln (1000 :: real)" by simp
  have "ln (1000 :: real) < ln (2 ^ 10)" by (subst ln_less_cancel_iff) auto
  also have "\<dots> = 10 * ln (2 :: real)" by (subst ln_realpow) auto
  finally show "ln (1000 :: real) < 10 * ln 2" .
qed

lemma default_dims: "bloom_dims DEFAULT_BLOOM_FILTER_OPTIONS = Inr (10, 15)"
proof -
  have l: "2 / 3 \<le> ln (2 :: real)" "ln (2 :: real) < 7 / 10"
    by (rule ln_2_bounds)+
  have e: "ln (1 / 1000 :: real) = - ln 1000" by (simp add: ln_div)
  have "14 * (ln (2 :: real))\<^sup>2 < ln 1000"
  proof -
    have "14 * (ln (2 :: real))\<^sup>2 \<le> 14 * (7 / 10) * ln 2"
      using l by (simp add: power2_eq_square)
    also have "\<dots> < 9.9 * ln 2" using l by (intro mult_strict_right_mono) auto
    finally show ?thesis using ln_1000_bounds by linarith
  qed
  moreover have "ln 1000 \<le> 15 * (ln (2 :: real))\<^sup>2"
  proof -
    have "10 * ln (2 :: real) \<le> 15 * (ln 2 * ln 2)"
      using mult_right_mono[OF l(1), of "ln 2"] l(1) by simp
    with ln_1000_bounds(2) show ?thesis unfolding power2_eq_square by linarith
  qed
  ultimately have "\<lceil>- 1 * (ln (1 / 1000 :: real) / (ln 2)\<^sup>2)\<rceil> = 15"
    using l by (simp add: ceiling_eq_iff e field_simps)
  moreover have "\<lfloor>ln (2 :: real) * of_int 15 + 1 / 2\<rfloor> = 10"
    using l by (simp add: floor_eq_iff)
  ultimately show ?thesis
    by (simp add: bloom_dims_def DEFAULT_BLOOM_FILTER_OPTIONS_def Let_def)
qed

fun insert_all :: "hash_fun \<Rightarrow> bloom \<Rightarrow> string list \<Rightarrow> (bloom, unit) call" where
  "insert_all hashN bf [] = returns bf ()"
| "insert_all hashN bf (x # xs) = then_do (bloom_insert hashN bf x) (\<lambda>bf' _. insert_all hashN bf' xs)"

lemma insert_all_ok:
  assumes "bloom_wf bf" "kHashes bf = 10" "totalBits bf = 150000"
  shows "\<exists>bf'. insert_all nim_hashN bf items = (bf', Inr ())
    \<and> (\<forall>x. x \<in> set items \<or> bloom_lookup nim_hashN bf x = Inr True \<longrightarrow>
          bloom_lookup nim_hashN bf' x = Inr True)"
  using assms
proof (induction items arbitrary: bf)
  case (Cons y ys)
  from default_hash.insert_lookup[OF Cons.prems, of y] obtain bf1 where
    b: "bloom_insert nim_hashN bf y = (bf1, Inr ())"
      "bloom_wf bf1" "kHashes bf1 = 10" "totalBits bf1 = 150000"
      "bloom_lookup nim_hashN bf1 y = Inr True"
      "\<And>x. bloom_lookup nim_hashN bf x = Inr True \<Longrightarrow> bloom_lookup nim_hashN bf1 x = Inr True"
    by blast
  from Cons.IH[OF b(2-4)] b show ?case by fastforce
qed (simp add: returns_def)

lemma default_filter:
  "\<exists>bf. bloom_new DEFAULT_BLOOM_FILTER_OPTIONS = Inr bf \<and> bloom_wf bf \<and> kHashes bf = 10
     \<and> totalBits bf = 150000 \<and> word_bits (data bf) = {}"
  by (auto simp: bloom_new_def default_dims Let_def bloom_wf_def intro!: word_bits_zero)
    (simp_all add: DEFAULT_BLOOM_FILTER_OPTIONS_def)

section \<open>Properties\<close>

text \<open>C31: The filter of a message channel (capacity 10000, error rate 0.001) has 10 hash
  functions and 150000 bits, and it never gives a false negative: after any sequence of insertions
  with the Nim double hash, none of which throws, every inserted item is found.\<close>

theorem default_filter_no_false_negatives:
  "\<exists>bf0. bloom_new DEFAULT_BLOOM_FILTER_OPTIONS = Inr bf0 \<and> kHashes bf0 = 10
     \<and> totalBits bf0 = 150000
     \<and> (\<forall>items. \<exists>bf. insert_all nim_hashN bf0 items = (bf, Inr ())
           \<and> list_all (\<lambda>x. bloom_lookup nim_hashN bf x = Inr True) items)"
proof -
  obtain bf0 where bf0: "bloom_new DEFAULT_BLOOM_FILTER_OPTIONS = Inr bf0" "bloom_wf bf0"
      "kHashes bf0 = 10" "totalBits bf0 = 150000"
    using default_filter by blast
  moreover have "\<exists>bf. insert_all nim_hashN bf0 items = (bf, Inr ())
      \<and> list_all (\<lambda>x. bloom_lookup nim_hashN bf x = Inr True) items" for items
    using insert_all_ok[OF bf0(2-4), of items] by (auto simp: list_all_iff)
  ultimately show ?thesis by blast
qed

text \<open>The filter implements a set of bit positions: inserting an item adds the positions its
  hashes name and nothing else, and a lookup answers whether all of them are in the set; neither
  throws on the default filter.\<close>

theorem default_filter_is_bit_set:
  assumes "bloom_wf bf" and "kHashes bf = 10" and "totalBits bf = 150000"
  shows "\<exists>hs bf'. computeHashes nim_hashN bf item = Inr hs
    \<and> bloom_lookup nim_hashN bf item = Inr (set hs \<subseteq> word_bits (data bf))
    \<and> bloom_insert nim_hashN bf item = (bf', Inr ()) \<and> bloom_wf bf'
    \<and> word_bits (data bf') = word_bits (data bf) \<union> set hs"
proof -
  obtain hs where hs: "computeHashes nim_hashN bf item = Inr hs"
    using default_hash.computeHashes_ok[OF assms(2,3)] by blast
  show ?thesis
    using default_hash.insert_ok[OF assms hs] default_hash.lookup_iff[OF assms hs] hs by fastforce
qed

theorem default_filter_is_bit_set_witness:
  "\<exists>bf hs bf'. bloom_new DEFAULT_BLOOM_FILTER_OPTIONS = Inr bf
     \<and> computeHashes nim_hashN bf ''hello'' = Inr hs
     \<and> bloom_insert nim_hashN bf ''hello'' = (bf', Inr ()) \<and> word_bits (data bf') = set hs"
proof -
  obtain bf where bf: "bloom_new DEFAULT_BLOOM_FILTER_OPTIONS = Inr bf" "bloom_wf bf"
      "kHashes bf = 10" "totalBits bf = 150000" "word_bits (data bf) = {}"
    using default_filter by blast
  from default_filter_is_bit_set[OF bf(2-4), of "''hello''"] bf(1,5) show ?thesis by auto
qed

text \<open>Serialising a filter and reading it back with the options that sized it gives the same
  filter, and the serialised form has eight bytes per 64-bit word.\<close>

theorem bloom_bytes_roundtrip:
  assumes "sized_by opts bf"
  shows "bloom_fromBytes (bloom_toBytes bf) opts = Inr bf
    \<and> length (bloom_toBytes bf) = 8 * (1 + totalBits bf div 64)"
  using fromBytes_toBytes[OF assms] assms by (simp add: length_toBytes sized_by_def bloom_wf_def)

theorem bloom_bytes_roundtrip_witness:
  "\<exists>opts bf. opts = \<lparr>capacity = 20, opt_errorRate = 1 / 100, opt_kHashes = Some 2,
                     opt_forceNBitsPerElem = Some 4\<rparr>
     \<and> bloom_new opts = Inr bf
     \<and> bloom_fromBytes (bloom_toBytes (bf\<lparr>data := [5, 2 ^ 63]\<rparr>)) opts = Inr (bf\<lparr>data := [5, 2 ^ 63]\<rparr>)"
proof -
  define opts where "opts = \<lparr>capacity = 20, opt_errorRate = 1 / 100, opt_kHashes = Some 2,
    opt_forceNBitsPerElem = Some 4\<rparr>"
  obtain bf where bf: "bloom_new opts = Inr bf" "totalBits bf = 80"
    by (simp add: bloom_new_def bloom_dims_def opts_def Let_def)
  have "sized_by opts (bf\<lparr>data := [5, 2 ^ 63]\<rparr>)"
    using bloom_new_sized[OF bf(1)] bf(2) by (simp add: sized_by_def bloom_wf_def)
  from bloom_bytes_roundtrip[OF this] bf(1) show ?thesis unfolding opts_def by blast
qed

lemma read_words_short:
  "length bs < 8 * (i + n) \<Longrightarrow> 8 * i \<le> length bs \<Longrightarrow> read_words n i bs = Inl RangeError"
proof (induction n arbitrary: i)
  case (Suc n)
  show ?case
  proof (cases "8 * Suc i \<le> length bs")
    case True
    with Suc show ?thesis by (simp add: get_be_def)
  next
    case False
    then show ?thesis by (simp add: get_be_def)
  qed
qed simp

lemma fromBytes_short:
  assumes "bloom_new opts = Inr bf" and "length bs < 8 * length (data bf)"
  shows "bloom_fromBytes bs opts = Inl RangeError"
  using read_words_short[of bs 0 "length (data bf)"] assms by (simp add: bloom_fromBytes_def)

text \<open>A filter with the dimensions of the default options, as a channel keeps it.\<close>

definition default_filter_ok :: "bloom \<Rightarrow> bool" where
  "default_filter_ok bf \<longleftrightarrow> bloom_wf bf \<and> kHashes bf = 10 \<and> totalBits bf = 150000
     \<and> options bf = DEFAULT_BLOOM_FILTER_OPTIONS
     \<and> errorRate bf = opt_errorRate DEFAULT_BLOOM_FILTER_OPTIONS"

lemma default_filter_new:
  "\<exists>bf. bloom_new DEFAULT_BLOOM_FILTER_OPTIONS = Inr bf \<and> default_filter_ok bf
     \<and> length (data bf) = 2344"
  by (auto simp: bloom_new_def default_dims Let_def bloom_wf_def default_filter_ok_def)
    (simp_all add: DEFAULT_BLOOM_FILTER_OPTIONS_def)

lemma read_words_Inr:
  "read_words n i bs = Inr ws \<Longrightarrow> length ws = n \<and> (\<forall>w\<in>set ws. w < 2 ^ 64)"
proof (induction n arbitrary: i ws)
  case (Suc n)
  then obtain w ws' where w: "get_be 8 (i * 8) bs = Inr w" "read_words n (Suc i) bs = Inr ws'"
    "ws = w # ws'" by (auto split: sum.splits)
  from w(1) have "w < 2 ^ 64"
    using be_value_bound[of "take 8 (drop (i * 8) bs)"] by (simp add: get_be_def split: if_splits)
  with Suc.IH[OF w(2)] w(3) show ?case by simp
qed simp

lemma read_words_enough: "8 * (i + n) \<le> length bs \<Longrightarrow> \<exists>ws. read_words n i bs = Inr ws"
proof (induction n arbitrary: i)
  case (Suc n)
  then have "8 * (Suc i + n) \<le> length bs" by simp
  from Suc.IH[OF this] Suc.prems show ?case by (auto simp: get_be_def)
qed simp

lemma fromBytes_default:
  "bloom_fromBytes bs DEFAULT_BLOOM_FILTER_OPTIONS = Inr bf \<Longrightarrow> default_filter_ok bf"
  using default_filter_new
  by (auto simp: bloom_fromBytes_def default_filter_ok_def bloom_wf_def dest!: read_words_Inr
      split: sum.splits)

lemma fromBytes_default_iff:
  "(\<exists>bf. bloom_fromBytes bs DEFAULT_BLOOM_FILTER_OPTIONS = Inr bf) \<longleftrightarrow> 18752 \<le> length bs"
proof -
  obtain bf where bf: "bloom_new DEFAULT_BLOOM_FILTER_OPTIONS = Inr bf" "length (data bf) = 2344"
    using default_filter_new by blast
  with fromBytes_short[OF bf(1), of bs] read_words_enough[of 0 2344 bs] show ?thesis
    by (cases "18752 \<le> length bs") (auto simp: bloom_fromBytes_def)
qed

lemma default_filter_sized: "default_filter_ok bf \<Longrightarrow> sized_by DEFAULT_BLOOM_FILTER_OPTIONS bf"
  using default_dims
  by (auto simp: default_filter_ok_def sized_by_def) (simp add: DEFAULT_BLOOM_FILTER_OPTIONS_def)

end
