(* ===== verification/Sds_Message.thy ===== *)
theory Sds_Message
  imports Bytes
begin

text \<open>
  \<open>packages/sds/src/message_channel/message.ts\<close>: the messages of a channel. The three classes
  share the fields of \<open>Message\<close> and the code tells them apart by testing the fields, never the
  class, so a message is one record and the classes are its constructors and tests. Timestamps are
  bigints that start from a clock or come from an unsigned 64-bit field, hence naturals.

  The protobuf codec (\<open>packages/proto/src/generated\<close>, on top of protons-runtime) is a parameter:
  a pair of functions from and to bytes, the decoder returning \<open>None\<close> where it throws.
\<close>

section \<open>Types\<close>

record history_entry =
  he_messageId :: string
  he_retrievalHint :: "bytes option"
  he_senderId :: "string option"

record message =
  messageId :: string
  channelId :: string
  senderId :: string
  causalHistory :: "history_entry list"
  lamportTimestamp :: "nat option"
  bloomFilter :: "bytes option"
  content :: "bytes option"
  repairRequest :: "history_entry list"
  retrievalHint :: "bytes option"

section \<open>The tests\<close>

definition testSyncMessage :: "nat option \<Rightarrow> bytes option \<Rightarrow> bool" where
  "testSyncMessage lamport cont \<longleftrightarrow>
     lamport \<noteq> None \<and> (case cont of None \<Rightarrow> True | Some c \<Rightarrow> length c = 0)"

definition testEphemeralMessage :: "nat option \<Rightarrow> bytes option \<Rightarrow> bool" where
  "testEphemeralMessage lamport cont \<longleftrightarrow>
     lamport = None \<and> (case cont of None \<Rightarrow> False | Some c \<Rightarrow> length c \<noteq> 0)"

definition testContentMessage :: "nat option \<Rightarrow> bytes option \<Rightarrow> bool" where
  "testContentMessage lamport cont \<longleftrightarrow>
     lamport \<noteq> None \<and> (case cont of None \<Rightarrow> False | Some c \<Rightarrow> length c \<noteq> 0)"

definition isSyncMessage :: "message \<Rightarrow> bool" where
  "isSyncMessage m = testSyncMessage (lamportTimestamp m) (content m)"

definition isEphemeralMessage :: "message \<Rightarrow> bool" where
  "isEphemeralMessage m = testEphemeralMessage (lamportTimestamp m) (content m)"

definition isContentMessage :: "message \<Rightarrow> bool" where
  "isContentMessage m = testContentMessage (lamportTimestamp m) (content m)"

lemmas message_tests = isSyncMessage_def isEphemeralMessage_def isContentMessage_def
  testSyncMessage_def testEphemeralMessage_def testContentMessage_def

section \<open>The constructors\<close>

text \<open>\<open>ContentMessage\<close> and \<open>EphemeralMessage\<close> refuse an empty content.\<close>

definition ContentMessage ::
  "string \<Rightarrow> string \<Rightarrow> string \<Rightarrow> history_entry list \<Rightarrow> nat \<Rightarrow> bytes option \<Rightarrow> bytes \<Rightarrow>
   history_entry list \<Rightarrow> js_error + message" where
  "ContentMessage mid cid sid causal lamport bloom cont repair =
     (if cont = [] then Inl (JsError ''Content Message must have content'')
      else Inr \<lparr>messageId = mid, channelId = cid, senderId = sid, causalHistory = causal,
                lamportTimestamp = Some lamport, bloomFilter = bloom, content = Some cont,
                repairRequest = repair, retrievalHint = None\<rparr>)"

definition EphemeralMessage ::
  "string \<Rightarrow> string \<Rightarrow> string \<Rightarrow> history_entry list \<Rightarrow> bytes option \<Rightarrow> bytes \<Rightarrow>
   history_entry list \<Rightarrow> js_error + message" where
  "EphemeralMessage mid cid sid causal bloom cont repair =
     (if cont = [] then Inl (JsError ''Ephemeral Message must have content'')
      else Inr \<lparr>messageId = mid, channelId = cid, senderId = sid, causalHistory = causal,
                lamportTimestamp = None, bloomFilter = bloom, content = Some cont,
                repairRequest = repair, retrievalHint = None\<rparr>)"

definition SyncMessage ::
  "string \<Rightarrow> string \<Rightarrow> string \<Rightarrow> history_entry list \<Rightarrow> nat \<Rightarrow> bytes option \<Rightarrow>
   history_entry list \<Rightarrow> message" where
  "SyncMessage mid cid sid causal lamport bloom repair =
     \<lparr>messageId = mid, channelId = cid, senderId = sid, causalHistory = causal,
      lamportTimestamp = Some lamport, bloomFilter = bloom, content = None,
      repairRequest = repair, retrievalHint = None\<rparr>"

lemma ContentMessage_Inr:
  "ContentMessage mid cid sid causal lamport bloom cont repair = Inr m \<Longrightarrow>
    isContentMessage m \<and> messageId m = mid \<and> channelId m = cid \<and> senderId m = sid
    \<and> causalHistory m = causal \<and> lamportTimestamp m = Some lamport \<and> bloomFilter m = bloom
    \<and> content m = Some cont \<and> repairRequest m = repair \<and> retrievalHint m = None"
  by (auto simp: ContentMessage_def message_tests split: if_splits)

lemma content_not_sync: "isContentMessage m \<Longrightarrow> \<not> isSyncMessage m \<and> \<not> isEphemeralMessage m"
  by (auto simp: message_tests split: option.splits)

lemma isSync_SyncMessage [simp]: "isSyncMessage (SyncMessage a b c d e f g)"
  by (simp add: SyncMessage_def message_tests)

section \<open>Order\<close>

text \<open>
  \<open>ContentMessage.valueOf\<close>: the timestamp padded to 16 digits, then the id. A content message
  always has a timestamp; the other case is never reached.
\<close>

definition message_valueOf :: "message \<Rightarrow> string" where
  "message_valueOf m =
     (case lamportTimestamp m of
        Some t \<Rightarrow> pad_start 16 (CHR ''0'') (decimal t) @ ''_'' @ messageId m
      | None \<Rightarrow> '''')"

section \<open>Wire format\<close>

definition Message_encode :: "(message \<Rightarrow> bytes) \<Rightarrow> message \<Rightarrow> bytes" where
  "Message_encode proto_encode m = proto_encode m"

definition Message_decode :: "(bytes \<Rightarrow> message option) \<Rightarrow> bytes \<Rightarrow> message option" where
  "Message_decode proto_decode bs =
     (case proto_decode bs of
        None \<Rightarrow> None
      | Some f \<Rightarrow>
          if testContentMessage (lamportTimestamp f) (content f)
          then Some (f\<lparr>retrievalHint := None\<rparr>)
          else if testEphemeralMessage (lamportTimestamp f) (content f)
          then Some (f\<lparr>lamportTimestamp := None, retrievalHint := None\<rparr>)
          else if testSyncMessage (lamportTimestamp f) (content f)
          then Some (f\<lparr>content := None, retrievalHint := None\<rparr>)
          else None)"

section \<open>Properties\<close>

text \<open>The three tests partition the messages: no message passes two of them, and the messages
  that pass none are those without timestamp and without content, which are exactly the ones the
  decoder drops; whatever the decoder returns passes exactly one test and carries no retrieval hint.\<close>

theorem message_kinds:
  "(isContentMessage m \<longrightarrow> \<not> isSyncMessage m \<and> \<not> isEphemeralMessage m)
   \<and> \<not> (isSyncMessage m \<and> isEphemeralMessage m)
   \<and> (\<not> isContentMessage m \<and> \<not> isSyncMessage m \<and> \<not> isEphemeralMessage m \<longleftrightarrow>
        lamportTimestamp m = None \<and> content m \<in> {None, Some []})
   \<and> (Message_decode (\<lambda>_. Some m) bs = None \<longleftrightarrow>
        lamportTimestamp m = None \<and> content m \<in> {None, Some []})
   \<and> (case Message_decode (\<lambda>_. Some m) bs of None \<Rightarrow> True
      | Some d \<Rightarrow> retrievalHint d = None \<and> isContentMessage d = isContentMessage m
          \<and> isSyncMessage d = isSyncMessage m \<and> isEphemeralMessage d = isEphemeralMessage m)"
  by (cases "lamportTimestamp m"; cases "content m") (auto simp: message_tests Message_decode_def)

theorem message_kinds_witness:
  "\<exists>m. isContentMessage m \<and> \<not> isSyncMessage m \<and> \<not> isEphemeralMessage m \<and> messageId m = ''a''"
proof -
  let ?m = "\<lparr>messageId = ''a'', channelId = ''c'', senderId = ''s'', causalHistory = [],
    lamportTimestamp = Some 1, bloomFilter = None, content = Some [1], repairRequest = [],
    retrievalHint = None\<rparr>"
  have "isContentMessage ?m" by (simp add: message_tests)
  with message_kinds[of ?m "[]"] show ?thesis by (intro exI[of _ ?m]) auto
qed

text \<open>A content, sync or ephemeral message survives the wire: when the codec gives back the
  message it encoded, decoding gives the message without its retrieval hint, which is never sent;
  only the empty content of a sync message becomes absent.\<close>

theorem message_wire_roundtrip:
  assumes codec: "proto_decode (proto_encode m) = Some (m\<lparr>retrievalHint := None\<rparr>)"
    and kind: "isContentMessage m \<or> isEphemeralMessage m \<or> isSyncMessage m"
  shows "Message_decode proto_decode (Message_encode proto_encode m) =
    Some (if isSyncMessage m then m\<lparr>content := None, retrievalHint := None\<rparr>
          else m\<lparr>retrievalHint := None\<rparr>)"
  using kind
  by (cases "lamportTimestamp m"; cases "content m")
    (auto simp: Message_decode_def Message_encode_def codec message_tests)

theorem message_wire_roundtrip_witness:
  "let m = SyncMessage ''sync-1'' ''c'' ''s'' [] 7 None [];
       enc = (\<lambda>x. be_bytes 2 (the (lamportTimestamp x)));
       dec = (\<lambda>bs. Some (SyncMessage ''sync-1'' ''c'' ''s'' [] (be_value bs) None []))
   in Message_decode dec (Message_encode enc m) = Some m"
  using message_wire_roundtrip[of
      "\<lambda>bs. Some (SyncMessage ''sync-1'' ''c'' ''s'' [] (be_value bs) None [])"
      "\<lambda>x. be_bytes 2 (the (lamportTimestamp x))" "SyncMessage ''sync-1'' ''c'' ''s'' [] 7 None []"]
  by (simp add: Let_def) (simp add: SyncMessage_def)

end
