(* ===== verification/Repair_Buffers.thy ===== *)
theory Repair_Buffers
  imports Sds_Message
begin

text \<open>
  \<open>packages/sds/src/message_channel/repair/buffers.ts\<close>: the two buffers of the repair protocol,
  arrays kept ordered by due time. Times and bounds are JavaScript numbers that hold integers.
\<close>

section \<open>The bounded ordered insertion both buffers share\<close>

text \<open>
  Both \<open>add\<close> methods refuse an id that is there already, pop the last element of a full buffer,
  append the new entry and sort. Popping the empty array of a buffer of size 0 gives \<open>undefined\<close>,
  whose property access throws.
\<close>

definition time_compare :: "('e \<Rightarrow> int) \<Rightarrow> 'e \<Rightarrow> 'e \<Rightarrow> int" where
  "time_compare time a b = time a - time b"

definition add_sorted ::
  "('e \<Rightarrow> string) \<Rightarrow> ('e \<Rightarrow> int) \<Rightarrow> nat \<Rightarrow> 'e \<Rightarrow> 'e list \<Rightarrow> ('e list, bool) call" where
  "add_sorted ident time maxSize new xs =
     (if list_ex (\<lambda>x. ident x = ident new) xs then returns xs False
      else if length xs \<ge> maxSize
      then (if xs = [] then throws xs TypeError
            else returns (js_sort (time_compare time) (butlast xs @ [new])) True)
      else returns (js_sort (time_compare time) (xs @ [new])) True)"

interpretation by_time: consistent_comparator "time_compare time" for time
  by unfold_locales (auto simp: time_compare_def)

abbreviation sorted_by :: "('e \<Rightarrow> int) \<Rightarrow> 'e list \<Rightarrow> bool" where
  "sorted_by time \<equiv> sorted_wrt (\<lambda>x y. time x \<le> time y)"

definition buffer_ok :: "('e \<Rightarrow> string) \<Rightarrow> ('e \<Rightarrow> int) \<Rightarrow> nat \<Rightarrow> 'e list \<Rightarrow> bool" where
  "buffer_ok ident time maxSize xs \<longleftrightarrow>
     0 < maxSize \<and> length xs \<le> maxSize \<and> distinct (map ident xs) \<and> sorted_by time xs"

lemma sorted_js_sort_time: "sorted_by time (js_sort (time_compare time) xs)"
  using by_time.sorted_js_sort[of time xs] by (simp add: time_compare_def)

lemma distinct_map_mset: "mset xs = mset ys \<Longrightarrow> distinct (map f xs) = distinct (map f ys)"
  by (metis mset_map mset_eq_imp_distinct_iff)

lemma add_sorted_present:
  "ident new \<in> ident ` set xs \<Longrightarrow> add_sorted ident time n new xs = (xs, Inr False)"
  by (auto simp: add_sorted_def list_ex_iff returns_def)

lemma add_sorted_new:
  assumes "buffer_ok ident time n xs" and "ident new \<notin> ident ` set xs"
  shows "\<exists>ys kept. add_sorted ident time n new xs = (ys, Inr True) \<and> buffer_ok ident time n ys
    \<and> mset ys = add_mset new (mset kept)
    \<and> kept = (if length xs = n then butlast xs else xs)"
proof -
  define kept where "kept = (if length xs = n then butlast xs else xs)"
  define ys where "ys = js_sort (time_compare time) (kept @ [new])"
  have ok: "0 < n" "length xs \<le> n" "distinct (map ident xs)"
    using assms(1) by (auto simp: buffer_ok_def)
  have "\<not> list_ex (\<lambda>x. ident x = ident new) xs"
    using assms(2) by (metis (mono_tags, lifting) image_eqI list_ex_iff)
  then have "add_sorted ident time n new xs = (ys, Inr True)"
    using ok by (auto simp: add_sorted_def returns_def ys_def kept_def)
  moreover have "mset ys = mset (kept @ [new])" by (simp add: ys_def)
  moreover have "distinct (map ident (kept @ [new]))"
    using ok assms(2) by (auto simp: kept_def map_butlast distinct_butlast dest: in_set_butlastD)
  moreover have "length (kept @ [new]) \<le> n" using ok by (auto simp: kept_def)
  ultimately have "buffer_ok ident time n ys"
    using ok distinct_map_mset[of ys "kept @ [new]" ident]
    by (auto simp: buffer_ok_def ys_def sorted_js_sort_time)
  with \<open>add_sorted ident time n new xs = (ys, Inr True)\<close> show ?thesis
    by (auto simp: ys_def kept_def)
qed

lemma add_sorted_ok:
  assumes "buffer_ok ident time n xs"
  shows "buffer_ok ident time n (fst (add_sorted ident time n new xs))"
  using assms add_sorted_new[OF assms, of new] add_sorted_present[of ident new xs time n]
  by (cases "ident new \<in> ident ` set xs") auto

lemma buffer_ok_filter: "buffer_ok ident time n xs \<Longrightarrow> buffer_ok ident time n (filter P xs)"
  by (auto simp: buffer_ok_def distinct_map_filter sorted_wrt_filter
      intro: le_trans[OF length_filter_le])

lemma buffer_ok_drop: "buffer_ok ident time n xs \<Longrightarrow> buffer_ok ident time n (drop k xs)"
  by (auto simp: buffer_ok_def drop_map[symmetric] sorted_wrt_drop)

section \<open>OutgoingRepairBuffer\<close>

record outgoing_entry =
  out_entry :: history_entry
  tReq :: int
  requested :: bool

record outgoing_buffer =
  out_items :: "outgoing_entry list"
  out_maxSize :: nat

abbreviation out_id :: "outgoing_entry \<Rightarrow> string" where
  "out_id x \<equiv> he_messageId (out_entry x)"

definition outgoing_new :: "nat \<Rightarrow> outgoing_buffer" where
  "outgoing_new n = \<lparr>out_items = [], out_maxSize = n\<rparr>"

definition outgoing_has :: "outgoing_buffer \<Rightarrow> string \<Rightarrow> bool" where
  "outgoing_has b mid = list_ex (\<lambda>x. out_id x = mid) (out_items b)"

definition outgoing_add :: "outgoing_buffer \<Rightarrow> history_entry \<Rightarrow> int \<Rightarrow> (outgoing_buffer, bool) call" where
  "outgoing_add b e t =
     (case add_sorted out_id tReq (out_maxSize b)
             \<lparr>out_entry = e, tReq = t, requested = False\<rparr> (out_items b) of
        (xs, r) \<Rightarrow> (b\<lparr>out_items := xs\<rparr>, r))"

definition outgoing_remove :: "outgoing_buffer \<Rightarrow> string \<Rightarrow> outgoing_buffer" where
  "outgoing_remove b mid = b\<lparr>out_items := filter (\<lambda>x. out_id x \<noteq> mid) (out_items b)\<rparr>"

text \<open>The loop of \<open>getEligible\<close>: the items as it leaves them, and the entries gathered.\<close>

fun eligible_loop ::
  "int \<Rightarrow> nat \<Rightarrow> outgoing_entry list \<Rightarrow> history_entry list \<Rightarrow> outgoing_entry list \<times> history_entry list" where
  "eligible_loop now maxRequests [] eligible = ([], eligible)"
| "eligible_loop now maxRequests (x # xs) eligible =
     (if tReq x > now then (x # xs, eligible)
      else let (x', eligible') =
                 (if \<not> requested x \<and> length eligible < maxRequests
                  then (x\<lparr>requested := True\<rparr>, eligible @ [out_entry x]) else (x, eligible))
           in if length eligible' \<ge> maxRequests then (x' # xs, eligible')
              else let (xs', el) = eligible_loop now maxRequests xs eligible' in (x' # xs', el))"

definition getEligible ::
  "outgoing_buffer \<Rightarrow> int \<Rightarrow> nat \<Rightarrow> outgoing_buffer \<times> history_entry list" where
  "getEligible b now maxRequests =
     (case eligible_loop now maxRequests (out_items b) [] of
        (xs, el) \<Rightarrow> (b\<lparr>out_items := xs\<rparr>, el))"

definition outgoing_clear :: "outgoing_buffer \<Rightarrow> outgoing_buffer" where
  "outgoing_clear b = b\<lparr>out_items := []\<rparr>"

definition outgoing_getAll :: "outgoing_buffer \<Rightarrow> history_entry list" where
  "outgoing_getAll b = map out_entry (out_items b)"

definition outgoing_inv :: "outgoing_buffer \<Rightarrow> bool" where
  "outgoing_inv b \<longleftrightarrow> buffer_ok out_id tReq (out_maxSize b) (out_items b)"

definition outgoing_ids :: "outgoing_buffer \<Rightarrow> string set" where
  "outgoing_ids b = out_id ` set (out_items b)"

section \<open>IncomingRepairBuffer\<close>

record incoming_entry =
  in_entry :: history_entry
  tResp :: int

record incoming_buffer =
  in_items :: "incoming_entry list"
  in_maxSize :: nat

abbreviation in_id :: "incoming_entry \<Rightarrow> string" where
  "in_id x \<equiv> he_messageId (in_entry x)"

definition incoming_new :: "nat \<Rightarrow> incoming_buffer" where
  "incoming_new n = \<lparr>in_items = [], in_maxSize = n\<rparr>"

definition incoming_has :: "incoming_buffer \<Rightarrow> string \<Rightarrow> bool" where
  "incoming_has b mid = list_ex (\<lambda>x. in_id x = mid) (in_items b)"

definition incoming_add :: "incoming_buffer \<Rightarrow> history_entry \<Rightarrow> int \<Rightarrow> (incoming_buffer, bool) call" where
  "incoming_add b e t =
     (case add_sorted in_id tResp (in_maxSize b) \<lparr>in_entry = e, tResp = t\<rparr> (in_items b) of
        (xs, r) \<Rightarrow> (b\<lparr>in_items := xs\<rparr>, r))"

definition incoming_remove :: "incoming_buffer \<Rightarrow> string \<Rightarrow> incoming_buffer" where
  "incoming_remove b mid = b\<lparr>in_items := filter (\<lambda>x. in_id x \<noteq> mid) (in_items b)\<rparr>"

text \<open>The loop that finds the cut-off, from index \<open>i\<close> on, with the cut-off found so far.\<close>

fun cutoff_loop :: "int \<Rightarrow> nat \<Rightarrow> incoming_entry list \<Rightarrow> nat \<Rightarrow> nat" where
  "cutoff_loop now i [] cutoff = cutoff"
| "cutoff_loop now i (x # xs) cutoff =
     (if tResp x > now then i else cutoff_loop now (i + 1) xs (i + 1))"

definition getReady :: "incoming_buffer \<Rightarrow> int \<Rightarrow> incoming_buffer \<times> history_entry list" where
  "getReady b now =
     (let cutoff = cutoff_loop now 0 (in_items b) 0
      in (b\<lparr>in_items := drop cutoff (in_items b)\<rparr>, map in_entry (take cutoff (in_items b))))"

definition incoming_clear :: "incoming_buffer \<Rightarrow> incoming_buffer" where
  "incoming_clear b = b\<lparr>in_items := []\<rparr>"

definition incoming_getAll :: "incoming_buffer \<Rightarrow> history_entry list" where
  "incoming_getAll b = map in_entry (in_items b)"

definition incoming_inv :: "incoming_buffer \<Rightarrow> bool" where
  "incoming_inv b \<longleftrightarrow> buffer_ok in_id tResp (in_maxSize b) (in_items b)"

definition incoming_ids :: "incoming_buffer \<Rightarrow> string set" where
  "incoming_ids b = in_id ` set (in_items b)"

section \<open>The contract of a repair buffer\<close>

text \<open>What the manager relies on, for either buffer.\<close>

locale repair_buffer =
  fixes add :: "'b \<Rightarrow> history_entry \<Rightarrow> int \<Rightarrow> ('b, bool) call"
    and remove :: "'b \<Rightarrow> string \<Rightarrow> 'b"
    and has :: "'b \<Rightarrow> string \<Rightarrow> bool"
    and ids :: "'b \<Rightarrow> string set"
    and inv :: "'b \<Rightarrow> bool"
  assumes has_iff: "has b mid \<longleftrightarrow> mid \<in> ids b"
    and add_present: "he_messageId e \<in> ids b \<Longrightarrow> add b e t = (b, Inr False)"
    and add_new: "inv b \<Longrightarrow> he_messageId e \<notin> ids b \<Longrightarrow>
      \<exists>b'. add b e t = (b', Inr True) \<and> inv b' \<and> he_messageId e \<in> ids b'
        \<and> ids b' \<subseteq> insert (he_messageId e) (ids b)"
    and remove_ids: "ids (remove b mid) = ids b - {mid}"
    and remove_inv: "inv b \<Longrightarrow> inv (remove b mid)"
begin

lemma add_ok:
  assumes "inv b"
  shows "\<exists>b' r. add b e t = (b', Inr r) \<and> inv b' \<and> he_messageId e \<in> ids b'
    \<and> ids b' \<subseteq> insert (he_messageId e) (ids b)"
  using assms add_present[of e b t] add_new[OF assms, of e t]
  by (cases "he_messageId e \<in> ids b") auto

lemma remove_absent: "mid \<notin> ids b \<Longrightarrow> ids (remove b mid) = ids b"
  by (simp add: remove_ids)

lemma removed: "\<not> has (remove b mid) mid"
  by (simp add: has_iff remove_ids)

end

interpretation out_buf: repair_buffer outgoing_add outgoing_remove outgoing_has outgoing_ids outgoing_inv
proof
  show "outgoing_has b mid \<longleftrightarrow> mid \<in> outgoing_ids b" for b mid
    by (auto simp: outgoing_has_def outgoing_ids_def list_ex_iff)
  show "he_messageId e \<in> outgoing_ids b \<Longrightarrow> outgoing_add b e t = (b, Inr False)" for b e t
    by (simp add: outgoing_add_def outgoing_ids_def add_sorted_present)
  show "\<exists>b'. outgoing_add b e t = (b', Inr True) \<and> outgoing_inv b' \<and> he_messageId e \<in> outgoing_ids b'
        \<and> outgoing_ids b' \<subseteq> insert (he_messageId e) (outgoing_ids b)"
    if a: "outgoing_inv b" "he_messageId e \<notin> outgoing_ids b" for b e t
  proof -
    let ?new = "\<lparr>out_entry = e, tReq = t, requested = False\<rparr>"
    from a obtain ys kept where "add_sorted out_id tReq (out_maxSize b) ?new (out_items b) = (ys, Inr True)"
      "buffer_ok out_id tReq (out_maxSize b) ys" "mset ys = add_mset ?new (mset kept)"
      "kept = (if length (out_items b) = out_maxSize b then butlast (out_items b) else out_items b)"
      using add_sorted_new[of out_id tReq "out_maxSize b" "out_items b" ?new]
      by (auto simp: outgoing_inv_def outgoing_ids_def)
    moreover from this have "set ys = insert ?new (set kept)" by (metis set_mset_add_mset_insert set_mset_mset)
    moreover have "set kept \<subseteq> set (out_items b)"
      using calculation by (auto dest: in_set_butlastD split: if_splits)
    ultimately show ?thesis by (auto simp: outgoing_add_def outgoing_inv_def outgoing_ids_def)
  qed
  show "outgoing_ids (outgoing_remove b mid) = outgoing_ids b - {mid}" for b mid
    by (auto simp: outgoing_ids_def outgoing_remove_def)
  show "outgoing_inv b \<Longrightarrow> outgoing_inv (outgoing_remove b mid)" for b mid
    by (simp add: outgoing_inv_def outgoing_remove_def buffer_ok_filter)
qed

interpretation in_buf: repair_buffer incoming_add incoming_remove incoming_has incoming_ids incoming_inv
proof
  show "incoming_has b mid \<longleftrightarrow> mid \<in> incoming_ids b" for b mid
    by (auto simp: incoming_has_def incoming_ids_def list_ex_iff)
  show "he_messageId e \<in> incoming_ids b \<Longrightarrow> incoming_add b e t = (b, Inr False)" for b e t
    by (simp add: incoming_add_def incoming_ids_def add_sorted_present)
  show "\<exists>b'. incoming_add b e t = (b', Inr True) \<and> incoming_inv b' \<and> he_messageId e \<in> incoming_ids b'
        \<and> incoming_ids b' \<subseteq> insert (he_messageId e) (incoming_ids b)"
    if a: "incoming_inv b" "he_messageId e \<notin> incoming_ids b" for b e t
  proof -
    let ?new = "\<lparr>in_entry = e, tResp = t\<rparr>"
    from a obtain ys kept where "add_sorted in_id tResp (in_maxSize b) ?new (in_items b) = (ys, Inr True)"
      "buffer_ok in_id tResp (in_maxSize b) ys" "mset ys = add_mset ?new (mset kept)"
      "kept = (if length (in_items b) = in_maxSize b then butlast (in_items b) else in_items b)"
      using add_sorted_new[of in_id tResp "in_maxSize b" "in_items b" ?new]
      by (auto simp: incoming_inv_def incoming_ids_def)
    moreover from this have "set ys = insert ?new (set kept)" by (metis set_mset_add_mset_insert set_mset_mset)
    moreover have "set kept \<subseteq> set (in_items b)"
      using calculation by (auto dest: in_set_butlastD split: if_splits)
    ultimately show ?thesis by (auto simp: incoming_add_def incoming_inv_def incoming_ids_def)
  qed
  show "incoming_ids (incoming_remove b mid) = incoming_ids b - {mid}" for b mid
    by (auto simp: incoming_ids_def incoming_remove_def)
  show "incoming_inv b \<Longrightarrow> incoming_inv (incoming_remove b mid)" for b mid
    by (simp add: incoming_inv_def incoming_remove_def buffer_ok_filter)
qed

section \<open>Sweeping\<close>

definition due :: "int \<Rightarrow> outgoing_entry \<Rightarrow> bool" where
  "due now x \<longleftrightarrow> tReq x \<le> now \<and> \<not> requested x"

definition timed :: "outgoing_entry \<Rightarrow> history_entry \<times> int" where
  "timed x = (out_entry x, tReq x)"

lemma eligible_loop_spec:
  "sorted_by tReq xs \<Longrightarrow> length el \<le> n \<Longrightarrow> eligible_loop now n xs el = (xs', el') \<Longrightarrow>
     el' = el @ take (n - length el) (map out_entry (filter (due now) xs))
     \<and> filter (due now) xs' = drop (n - length el) (filter (due now) xs)
     \<and> map timed xs' = map timed xs"
proof (induction xs arbitrary: el xs' el')
  case (Cons x xs)
  show ?case
  proof (cases "tReq x > now")
    case True
    then have "filter (due now) (x # xs) = []"
      using Cons.prems(1) by (auto simp: due_def filter_empty_conv)
    with True Cons.prems show ?thesis by simp
  next
    case False
    have sorted: "sorted_by tReq xs" using Cons.prems(1) by simp
    obtain ys ey where rec: "eligible_loop now n xs (el @ [out_entry x]) = (ys, ey)" by fastforce
    obtain zs ez where rec': "eligible_loop now n xs el = (zs, ez)" by fastforce
    consider "\<not> requested x" "Suc (length el) = n" | "\<not> requested x" "Suc (length el) < n"
      | "requested x" "length el < n" | "length el = n"
      using Cons.prems(2) by linarith
    then show ?thesis
    proof cases
      case 1
      then have "n - length el = 1" by simp
      with False 1 Cons.prems(3) show ?thesis by (auto simp: due_def timed_def)
    next
      case 2
      then have n: "n - length el = Suc (n - Suc (length el))" by simp
      from False 2 Cons.prems(3) rec have "xs' = x\<lparr>requested := True\<rparr> # ys" "el' = ey" by auto
      moreover have "length (el @ [out_entry x]) \<le> n" using 2 by simp
      moreover have "due now x" using False 2 by (simp add: due_def)
      ultimately show ?thesis using Cons.IH[OF sorted _ rec] n
        by (simp add: due_def timed_def)
    next
      case 3
      with False Cons.prems(3) rec' have "xs' = x # zs" "el' = ez" by auto
      moreover have "\<not> due now x" using 3 by (simp add: due_def)
      ultimately show ?thesis using Cons.IH[OF sorted Cons.prems(2) rec'] by simp
    next
      case 4
      with False Cons.prems(3) show ?thesis by auto
    qed
  qed
qed simp

lemma map_timed:
  assumes "map timed xs = map timed ys"
  shows "map out_id xs = map out_id ys \<and> map tReq xs = map tReq ys"
proof -
  have ids: "map out_id zs = map (\<lambda>p. he_messageId (fst p)) (map timed zs)"
    and times: "map tReq zs = map snd (map timed zs)" for zs
    by (simp_all add: timed_def)
  show ?thesis unfolding ids times assms by simp
qed

lemma sorted_by_map: "sorted_by time xs \<longleftrightarrow> sorted_wrt (\<le>) (map time xs)"
  by (simp add: sorted_wrt_map)

lemma getEligible_inv [inv_intros]:
  assumes "outgoing_inv b" and "getEligible b now n = (b', el)"
  shows "outgoing_inv b'" and "outgoing_ids b' = outgoing_ids b"
proof -
  obtain xs where xs: "eligible_loop now n (out_items b) [] = (xs, el)" "b' = b\<lparr>out_items := xs\<rparr>"
    using assms(2) by (auto simp: getEligible_def split: prod.splits)
  have t: "map timed xs = map timed (out_items b)"
    using eligible_loop_spec[OF _ _ xs(1)] assms(1) by (simp add: outgoing_inv_def buffer_ok_def)
  have len: "length xs = length (out_items b)" using arg_cong[OF t, of length] by simp
  have "buffer_ok out_id tReq (out_maxSize b) xs"
    using assms(1) map_timed[OF t] len sorted_by_map[of tReq xs] sorted_by_map[of tReq "out_items b"]
    unfolding outgoing_inv_def buffer_ok_def by (simp only: len)
  then show "outgoing_inv b'" using xs(2) by (simp add: outgoing_inv_def)
  from arg_cong[OF map_timed[OF t, THEN conjunct1], of set] xs(2)
  show "outgoing_ids b' = outgoing_ids b" by (simp add: outgoing_ids_def)
qed

lemma cutoff_loop_takeWhile:
  "cutoff_loop now i xs i = i + length (takeWhile (\<lambda>x. tResp x \<le> now) xs)"
  by (induction xs arbitrary: i) auto

lemma split_sorted_by_time:
  "sorted_by time xs \<Longrightarrow> takeWhile (\<lambda>x. time x \<le> (now :: int)) xs = filter (\<lambda>x. time x \<le> now) xs
     \<and> dropWhile (\<lambda>x. time x \<le> now) xs = filter (\<lambda>x. now < time x) xs"
proof (induction xs)
  case (Cons x xs)
  have "now < time x \<Longrightarrow> \<forall>y\<in>set xs. now < time y" using Cons.prems by auto
  with Cons show ?case by (cases "time x \<le> now") (simp_all add: filter_False filter_True not_le)
qed simp

lemma getReady_spec:
  assumes "sorted_by tResp (in_items b)"
  shows "getReady b now = (b\<lparr>in_items := filter (\<lambda>x. now < tResp x) (in_items b)\<rparr>,
    map in_entry (filter (\<lambda>x. tResp x \<le> now) (in_items b)))"
proof -
  let ?P = "\<lambda>x. tResp x \<le> now" and ?xs = "in_items b"
  have "take (length (takeWhile ?P ?xs)) ?xs = filter ?P ?xs"
    by (subst takeWhile_eq_take[symmetric]) (rule split_sorted_by_time[OF assms, THEN conjunct1])
  moreover have "drop (length (takeWhile ?P ?xs)) ?xs = filter (\<lambda>x. now < tResp x) ?xs"
    by (subst dropWhile_eq_drop[symmetric]) (rule split_sorted_by_time[OF assms, THEN conjunct2])
  ultimately show ?thesis
    using cutoff_loop_takeWhile[of now 0 ?xs] by (simp only: getReady_def Let_def add_0)
qed

section \<open>Properties\<close>

text \<open>A sweep of the outgoing repair buffer returns, earliest first, the entries that are due and
  were not requested before, at most as many as asked for, and marks exactly those: an entry is
  requested once. Nothing leaves the buffer and its order is kept.\<close>

theorem getEligible_correct:
  assumes "outgoing_inv b" and "getEligible b now n = (b', el)"
  shows "el = take n (map out_entry (filter (due now) (out_items b)))
    \<and> filter (due now) (out_items b') = drop n (filter (due now) (out_items b))
    \<and> map timed (out_items b') = map timed (out_items b) \<and> outgoing_inv b'"
proof -
  obtain xs where xs: "eligible_loop now n (out_items b) [] = (xs, el)" "b' = b\<lparr>out_items := xs\<rparr>"
    using assms(2) by (auto simp: getEligible_def split: prod.splits)
  have "sorted_by tReq (out_items b)" using assms(1) by (simp add: outgoing_inv_def buffer_ok_def)
  from eligible_loop_spec[OF this _ xs(1)] xs(2) getEligible_inv(1)[OF assms] show ?thesis by simp
qed

definition sample_entry :: "string \<Rightarrow> history_entry" where
  "sample_entry mid = \<lparr>he_messageId = mid, he_retrievalHint = None, he_senderId = None\<rparr>"

definition sample_outgoing :: outgoing_buffer where
  "sample_outgoing = \<lparr>out_items = [\<lparr>out_entry = sample_entry ''a'', tReq = 1, requested = True\<rparr>,
      \<lparr>out_entry = sample_entry ''b'', tReq = 2, requested = False\<rparr>,
      \<lparr>out_entry = sample_entry ''c'', tReq = 9, requested = False\<rparr>], out_maxSize = 3\<rparr>"

theorem getEligible_correct_witness:
  "snd (getEligible sample_outgoing 5 3) = [sample_entry ''b'']
   \<and> filter (due 5) (out_items (fst (getEligible sample_outgoing 5 3))) = []"
proof -
  have "outgoing_inv sample_outgoing"
    by (simp add: outgoing_inv_def buffer_ok_def sample_outgoing_def sample_entry_def)
  from getEligible_correct[OF this, of 5 3] show ?thesis
    by (cases "getEligible sample_outgoing 5 3") (auto simp: sample_outgoing_def due_def)
qed

text \<open>A sweep of the incoming repair buffer splits it by the clock: it returns, earliest first, the
  entries whose response is due, and keeps exactly the others.\<close>

theorem getReady_splits:
  assumes "incoming_inv b"
  shows "getReady b now = (b\<lparr>in_items := filter (\<lambda>x. now < tResp x) (in_items b)\<rparr>,
      map in_entry (filter (\<lambda>x. tResp x \<le> now) (in_items b)))
    \<and> incoming_inv (fst (getReady b now))"
proof -
  have "sorted_by tResp (in_items b)" using assms by (simp add: incoming_inv_def buffer_ok_def)
  from getReady_spec[OF this, of now] buffer_ok_filter[OF assms[unfolded incoming_inv_def]]
  show ?thesis by (simp add: incoming_inv_def)
qed

theorem getReady_splits_witness:
  "let b = \<lparr>in_items = [\<lparr>in_entry = sample_entry ''a'', tResp = 1\<rparr>,
                          \<lparr>in_entry = sample_entry ''b'', tResp = 7\<rparr>], in_maxSize = 2\<rparr>
   in getReady b 4 = (b\<lparr>in_items := [\<lparr>in_entry = sample_entry ''b'', tResp = 7\<rparr>]\<rparr>, [sample_entry ''a''])"
  using getReady_splits[of "\<lparr>in_items = [\<lparr>in_entry = sample_entry ''a'', tResp = 1\<rparr>,
      \<lparr>in_entry = sample_entry ''b'', tResp = 7\<rparr>], in_maxSize = 2\<rparr>" 4]
  by (simp add: incoming_inv_def buffer_ok_def sample_entry_def)

text \<open>Adding to a full outgoing buffer drops its last entry, the one due last, and always keeps the
  new one, even when the new entry is due later than everything in the buffer, so an earlier repair
  can be given up for a later one.\<close>

theorem outgoing_add_full:
  assumes "outgoing_inv b" and "length (out_items b) = out_maxSize b"
    and "he_messageId e \<notin> outgoing_ids b"
  shows "\<exists>b'. outgoing_add b e t = (b', Inr True) \<and> outgoing_inv b'
    \<and> mset (out_items b') = add_mset \<lparr>out_entry = e, tReq = t, requested = False\<rparr>
          (mset (butlast (out_items b)))"
proof -
  let ?new = "\<lparr>out_entry = e, tReq = t, requested = False\<rparr>"
  from assms obtain ys where "add_sorted out_id tReq (out_maxSize b) ?new (out_items b) = (ys, Inr True)"
    "buffer_ok out_id tReq (out_maxSize b) ys" "mset ys = add_mset ?new (mset (butlast (out_items b)))"
    using add_sorted_new[of out_id tReq "out_maxSize b" "out_items b" ?new]
    by (auto simp: outgoing_inv_def outgoing_ids_def)
  then show ?thesis by (auto simp: outgoing_add_def outgoing_inv_def)
qed

theorem outgoing_add_full_witness:
  "\<exists>b'. outgoing_add sample_outgoing (sample_entry ''d'') 100 = (b', Inr True)
     \<and> mset (map tReq (out_items b')) = {#1, 2, 100#}"
proof -
  have "outgoing_inv sample_outgoing" "length (out_items sample_outgoing) = out_maxSize sample_outgoing"
    "he_messageId (sample_entry ''d'') \<notin> outgoing_ids sample_outgoing"
    by (simp_all add: outgoing_inv_def buffer_ok_def sample_outgoing_def sample_entry_def outgoing_ids_def)
  from outgoing_add_full[OF this, of 100] show ?thesis by (auto simp: sample_outgoing_def)
qed

end
