(* ===== verification/Local_History.thy ===== *)
theory Local_History
  imports Sds_Message
begin

text \<open>
  \<open>packages/sds/src/message_channel/mem_local_history.ts\<close>: the history of a channel, ordered by
  timestamp and then by id, without two messages of one id, and bounded. The order is the one of
  \<open>String.prototype.localeCompare\<close>, which depends on the host's locale: it is a parameter, and
  what the code relies on is what ECMAScript requires of it, that it is a consistent comparator.
\<close>

type_synonym collation = "string \<Rightarrow> string \<Rightarrow> int"

definition DEFAULT_MAX_LENGTH :: nat where
  "DEFAULT_MAX_LENGTH = 10000"

record history =
  items :: "message list"
  maxLength :: nat

definition new_history :: "nat \<Rightarrow> history" where
  "new_history n = \<lparr>items = [], maxLength = n\<rparr>"

definition compare_messages :: "collation \<Rightarrow> message \<Rightarrow> message \<Rightarrow> int" where
  "compare_messages collate a b = collate (message_valueOf a) (message_valueOf b)"

definition validateMessage :: "message \<Rightarrow> js_error option" where
  "validateMessage m =
     (if \<not> isContentMessage m
      then Some (JsError ''Message must have lamportTimestamp and content defined, sync and ephemeral messages cannot be stored'')
      else None)"

text \<open>The loop of validations stops at the first error.\<close>

fun validate_all :: "message list \<Rightarrow> js_error option" where
  "validate_all [] = None"
| "validate_all (m # ms) = (case validateMessage m of Some e \<Rightarrow> Some e | None \<Rightarrow> validate_all ms)"

definition history_push :: "collation \<Rightarrow> history \<Rightarrow> message list \<Rightarrow> (history, nat) call" where
  "history_push collate h new =
     (case validate_all new of
        Some e \<Rightarrow> throws h e
      | None \<Rightarrow>
          (let combinedItems = js_sort (compare_messages collate) (items h @ new);
               uniq = uniq_by messageId combinedItems;
               kept = (if length uniq > maxLength h then drop (length uniq - maxLength h) uniq
                       else uniq)
           in returns (h\<lparr>items := kept\<rparr>) (length kept)))"

definition history_some :: "(message \<Rightarrow> bool) \<Rightarrow> history \<Rightarrow> bool" where
  "history_some p h = list_ex p (items h)"

definition history_slice :: "int \<Rightarrow> history \<Rightarrow> message list" where
  "history_slice start h = js_slice_from start (items h)"

definition history_find :: "(message \<Rightarrow> bool) \<Rightarrow> history \<Rightarrow> message option" where
  "history_find p h = find p (items h)"

fun find_index :: "('a \<Rightarrow> bool) \<Rightarrow> 'a list \<Rightarrow> int" where
  "find_index p [] = -1"
| "find_index p (x # xs) =
     (if p x then 0 else let i = find_index p xs in if i = -1 then -1 else i + 1)"

definition history_findIndex :: "(message \<Rightarrow> bool) \<Rightarrow> history \<Rightarrow> int" where
  "history_findIndex p h = find_index p (items h)"

definition history_ids :: "history \<Rightarrow> string set" where
  "history_ids h = messageId ` set (items h)"

section \<open>Invariant\<close>

definition history_inv :: "history \<Rightarrow> bool" where
  "history_inv h \<longleftrightarrow> distinct (map messageId (items h)) \<and> (\<forall>m\<in>set (items h). isContentMessage m)
     \<and> length (items h) \<le> maxLength h"

definition history_sorted :: "collation \<Rightarrow> history \<Rightarrow> bool" where
  "history_sorted collate h \<longleftrightarrow> sorted_wrt (\<lambda>x y. compare_messages collate x y \<le> 0) (items h)"

lemma validate_all_None: "validate_all ms = None \<longleftrightarrow> (\<forall>m\<in>set ms. isContentMessage m)"
  by (induction ms) (auto simp: validateMessage_def)

lemma distinct_map_drop: "distinct (map f xs) \<Longrightarrow> distinct (map f (drop n xs))"
  by (metis distinct_drop drop_map)

lemma history_push_Inl: "history_push collate h ms = (h', Inl e) \<Longrightarrow> h' = h"
  by (auto simp: history_push_def Let_def split: option.splits)

lemma history_push_maxLength [simp]: "maxLength (fst (history_push collate h ms)) = maxLength h"
  by (simp add: history_push_def Let_def split: option.splits)

lemma history_push_set:
  "set (items (fst (history_push collate h ms))) \<subseteq> set (items h) \<union> set ms"
  using set_uniq_by[of messageId "js_sort (compare_messages collate) (items h @ ms)"]
  by (auto simp: history_push_def Let_def dest!: in_set_dropD split: option.splits)

lemma history_push_inv [inv_intros]:
  assumes "history_inv h"
  shows "history_inv (fst (history_push collate h ms))"
proof (cases "validate_all ms")
  case None
  let ?u = "uniq_by messageId (js_sort (compare_messages collate) (items h @ ms))"
  have "\<forall>m\<in>set ?u. isContentMessage m"
    using None assms set_uniq_by[of messageId "js_sort (compare_messages collate) (items h @ ms)"]
    by (auto simp: history_inv_def validate_all_None)
  then show ?thesis using None
    by (auto simp: history_push_def history_inv_def Let_def distinct_uniq_by distinct_map_drop
        dest: in_set_dropD)
qed (use assms in \<open>simp add: history_push_def\<close>)

lemma history_push_keeps:
  assumes "\<forall>m\<in>set ms. isContentMessage m" and "length (items h) + length ms \<le> maxLength h"
  shows "history_ids (fst (history_push collate h ms)) = history_ids h \<union> messageId ` set ms"
proof -
  let ?s = "js_sort (compare_messages collate) (items h @ ms)"
  have "length (uniq_by messageId ?s) \<le> maxLength h"
    using length_uniq_by[of messageId ?s] assms(2) by simp
  moreover have "messageId ` set (uniq_by messageId ?s) = messageId ` (set (items h) \<union> set ms)"
    by simp
  ultimately show ?thesis using assms(1)
    by (simp add: history_push_def Let_def history_ids_def validate_all_None[THEN iffD2] image_Un)
qed

text \<open>What the clients of the history rely on, whatever implements it.\<close>

locale local_history =
  fixes push :: "'h \<Rightarrow> message list \<Rightarrow> ('h, nat) call"
    and ids :: "'h \<Rightarrow> string set"
    and inv :: "'h \<Rightarrow> bool"
    and room :: "'h \<Rightarrow> nat \<Rightarrow> bool"
  assumes push_inv: "inv h \<Longrightarrow> inv (fst (push h ms))"
    and push_subset: "ids (fst (push h ms)) \<subseteq> ids h \<union> messageId ` set ms"
    and push_room: "\<forall>m\<in>set ms. isContentMessage m \<Longrightarrow> room h (length ms) \<Longrightarrow>
      ids (fst (push h ms)) = ids h \<union> messageId ` set ms"
    and push_content: "\<forall>m\<in>set ms. isContentMessage m \<Longrightarrow> \<exists>n. snd (push h ms) = Inr n"
    and push_throws: "\<not> (\<forall>m\<in>set ms. isContentMessage m) \<Longrightarrow>
      fst (push h ms) = h \<and> (\<exists>e. snd (push h ms) = Inl e)"
begin

lemma push_one: "isContentMessage m \<Longrightarrow> \<exists>h' n. push h [m] = (h', Inr n)"
  using push_content[of "[m]" h] by (cases "push h [m]") auto

lemma push_one_inv: "inv h \<Longrightarrow> push h [m] = (h', r) \<Longrightarrow> inv h'"
  using push_inv[of h "[m]"] by simp

lemma push_one_ids:
  "isContentMessage m \<Longrightarrow> room h 1 \<Longrightarrow> push h [m] = (h', r) \<Longrightarrow> ids h' = insert (messageId m) (ids h)"
  using push_room[of "[m]" h] by simp

lemma push_one_subset: "push h [m] = (h', r) \<Longrightarrow> ids h' \<subseteq> insert (messageId m) (ids h)"
  using push_subset[of h "[m]"] by simp

end

interpretation mem_history: local_history "history_push collate" history_ids history_inv
    "\<lambda>h n. length (items h) + n \<le> maxLength h" for collate
proof
  show "history_inv h \<Longrightarrow> history_inv (fst (history_push collate h ms))" for h ms
    by (rule history_push_inv)
  show "history_ids (fst (history_push collate h ms)) \<subseteq> history_ids h \<union> messageId ` set ms" for h ms
    using history_push_set[of collate h ms] by (auto simp: history_ids_def)
  show "\<forall>m\<in>set ms. isContentMessage m \<Longrightarrow> \<exists>n. snd (history_push collate h ms) = Inr n" for h ms
    by (simp add: history_push_def validate_all_None[THEN iffD2] Let_def)
  show "\<not> (\<forall>m\<in>set ms. isContentMessage m) \<Longrightarrow>
      fst (history_push collate h ms) = h \<and> (\<exists>e. snd (history_push collate h ms) = Inl e)" for h ms
    by (auto simp: history_push_def validate_all_None[symmetric] split: option.splits)
qed (rule history_push_keeps)

section \<open>Order of the history\<close>

lemma compare_messages_consistent:
  "consistent_comparator collate \<Longrightarrow> consistent_comparator (compare_messages collate)"
  unfolding consistent_comparator_def compare_messages_def by blast

interpretation by_value: consistent_comparator "compare_messages codeunit_compare"
  by (rule compare_messages_consistent) (rule by_code_units.consistent_comparator_axioms)

lemma history_push_sorted:
  assumes "consistent_comparator collate" and "\<forall>m\<in>set ms. isContentMessage m"
  shows "history_sorted collate (fst (history_push collate h ms))"
proof -
  let ?s = "js_sort (compare_messages collate) (items h @ ms)"
  have "sorted_wrt (\<lambda>x y. compare_messages collate x y \<le> 0) ?s"
    using compare_messages_consistent[OF assms(1)] by (rule consistent_comparator.sorted_js_sort)
  then have "sorted_wrt (\<lambda>x y. compare_messages collate x y \<le> 0) (drop n (uniq_by messageId ?s))" for n
    by (intro sorted_wrt_drop sorted_uniq_by)
  from this[of 0] this show ?thesis using assms(2)
    by (simp add: history_sorted_def history_push_def validate_all_None[THEN iffD2] Let_def)
qed

section \<open>Properties\<close>

text \<open>Pushing content messages never throws and leaves a history that is ordered by the comparator,
  has one message per id and respects the bound; ids only come from the old history and the pushed
  messages, all of them are there while there is room, and the messages dropped for lack of room are
  the oldest. Any other message makes the push throw and changes nothing.\<close>

theorem history_push_correct:
  assumes "consistent_comparator collate" and "history_inv h"
  shows "(if list_all isContentMessage ms
     then (\<exists>h' old. history_push collate h ms = (h', Inr (length (items h')))
            \<and> history_inv h' \<and> history_sorted collate h' \<and> maxLength h' = maxLength h
            \<and> messageId ` set (old @ items h') = history_ids h \<union> messageId ` set ms
            \<and> distinct (map messageId (old @ items h'))
            \<and> sorted_wrt (\<lambda>x y. compare_messages collate x y \<le> 0) (old @ items h')
            \<and> (old = [] \<or> length (items h') = maxLength h))
     else (\<exists>e. history_push collate h ms = (h, Inl e)))"
proof (cases "list_all isContentMessage ms")
  case True
  then have content: "\<forall>m\<in>set ms. isContentMessage m" by (simp add: list_all_iff)
  let ?s = "js_sort (compare_messages collate) (items h @ ms)"
  define u where "u = uniq_by messageId ?s"
  define n where "n = (if length u > maxLength h then length u - maxLength h else 0)"
  define h' where "h' = h\<lparr>items := drop n u\<rparr>"
  have push: "history_push collate h ms = (h', Inr (length (items h')))"
    using content
    by (simp add: history_push_def validate_all_None[THEN iffD2] Let_def h'_def returns_def
        u_def n_def)
  have all: "take n u @ items h' = u" by (simp add: h'_def)
  have "sorted_wrt (\<lambda>x y. compare_messages collate x y \<le> 0) u"
    unfolding u_def
    by (rule sorted_uniq_by, rule consistent_comparator.sorted_js_sort)
      (rule compare_messages_consistent[OF assms(1)])
  moreover have "messageId ` set u = history_ids h \<union> messageId ` set ms"
    by (simp add: history_ids_def image_Un u_def)
  moreover have "distinct (map messageId u)" by (simp add: u_def distinct_uniq_by)
  moreover have "history_inv h'" "history_sorted collate h'"
    using history_push_inv[OF assms(2), of collate ms] history_push_sorted[OF assms(1) content, of h] push
    by simp_all
  moreover have "take n u = [] \<or> length (items h') = maxLength h" "maxLength h' = maxLength h"
    by (simp_all add: h'_def n_def)
  ultimately have "\<exists>old. history_push collate h ms = (h', Inr (length (items h')))
            \<and> history_inv h' \<and> history_sorted collate h' \<and> maxLength h' = maxLength h
            \<and> messageId ` set (old @ items h') = history_ids h \<union> messageId ` set ms
            \<and> distinct (map messageId (old @ items h'))
            \<and> sorted_wrt (\<lambda>x y. compare_messages collate x y \<le> 0) (old @ items h')
            \<and> (old = [] \<or> length (items h') = maxLength h)"
    using push by (intro exI[of _ "take n u"]) (simp only: all simp_thms)
  with True show ?thesis by (auto simp only: if_True)
next
  case False
  then have "\<not> (\<forall>m\<in>set ms. isContentMessage m)" by (simp add: list_all_iff)
  from mem_history.push_throws[OF this, of collate h] False show ?thesis
    by (cases "history_push collate h ms") auto
qed


definition stamped :: "nat \<Rightarrow> string \<Rightarrow> message" where
  "stamped t mid = \<lparr>messageId = mid, channelId = ''c'', senderId = ''s'', causalHistory = [],
     lamportTimestamp = Some t, bloomFilter = None, content = Some [1], repairRequest = [],
     retrievalHint = None\<rparr>"

lemma compare_stamped:
  "s < 10 ^ 16 \<Longrightarrow> t < 10 ^ 16 \<Longrightarrow> compare_messages codeunit_compare (stamped s i) (stamped t j) =
     (if s < t then - 1 else if t < s then 1 else codeunit_compare i j)"
  using pad_start_decimal[of s 16] pad_start_decimal[of t 16]
  by (simp add: compare_messages_def message_valueOf_def codeunit_compare_digits stamped_def)


theorem history_push_correct_witness:
  "\<exists>h. history_push codeunit_compare (new_history 1) [stamped 3 ''b'', stamped 2 ''a''] = (h, Inr 1)
     \<and> items h = [stamped 3 ''b'']"
proof -
  have "history_inv (new_history 1)" by (simp add: history_inv_def new_history_def)
  moreover have "isContentMessage (stamped t i)" for t i by (simp add: message_tests stamped_def)
  ultimately obtain h where h: "history_push codeunit_compare (new_history 1)
      [stamped 3 ''b'', stamped 2 ''a''] = (h, Inr (length (items h)))"
    using history_push_correct[OF by_code_units.consistent_comparator_axioms,
        of "new_history 1" "[stamped 3 ''b'', stamped 2 ''a'']"] by auto
  moreover have "items (fst (history_push codeunit_compare (new_history 1)
      [stamped 3 ''b'', stamped 2 ''a''])) = [stamped 3 ''b'']"
    using \<open>\<And>t i. isContentMessage (stamped t i)\<close>
    by (simp add: history_push_def new_history_def validateMessage_def compare_stamped Let_def)
      (simp add: stamped_def)
  ultimately show ?thesis by auto
qed

end
