(* ===== verification/Repair_Manager.thy ===== *)
theory Repair_Manager
  imports Repair_Buffers Local_History
begin

unbundle bit_operations_syntax

text \<open>
  \<open>packages/sds/src/message_channel/repair/utils.ts\<close> and \<open>repair.ts\<close>: when to request a missing
  message and when to answer a request. The hash (\<open>@noble/hashes\<close>) is a parameter
  \<open>sha256 :: bytes \<Rightarrow> bytes\<close>; the clock is an argument, as it is in the code. Numbers are integers:
  \<open>BigInt\<close> refuses a fraction, and the sums stay below \<open>2 ^ 53\<close> for any sensible clock.
\<close>

section \<open>utils.ts\<close>

text \<open>\<open>TextEncoder.encode\<close> on the code units below 256.\<close>

definition utf8_encode :: "string \<Rightarrow> bytes" where
  "utf8_encode s = concat (map (\<lambda>c. let n = (of_char c :: nat) in
     if n < 128 then [of_nat n] else [of_nat (192 + n div 64), of_nat (128 + n mod 64)]) s)"

definition hashToInteger :: "(bytes \<Rightarrow> bytes) \<Rightarrow> string \<Rightarrow> int" where
  "hashToInteger sha256 input = int (be_value (take 8 (sha256 (utf8_encode input))))"

definition combinedHash :: "(bytes \<Rightarrow> bytes) \<Rightarrow> string \<Rightarrow> string \<Rightarrow> int" where
  "combinedHash sha256 participantId mid = hashToInteger sha256 (participantId @ mid)"

definition participantIdToNumeric :: "(bytes \<Rightarrow> bytes) \<Rightarrow> string \<Rightarrow> int" where
  "participantIdToNumeric sha256 participantId = hashToInteger sha256 participantId"

definition calculateXorDistance :: "(bytes \<Rightarrow> bytes) \<Rightarrow> string \<Rightarrow> string \<Rightarrow> int" where
  "calculateXorDistance sha256 p1 p2 =
     (participantIdToNumeric sha256 p1) XOR (participantIdToNumeric sha256 p2)"

text \<open>The remainder of two bigints takes the sign of the dividend; a zero divisor throws.\<close>

definition bigint_rem :: "int \<Rightarrow> int \<Rightarrow> js_error + int" where
  "bigint_rem a b = (if b = 0 then Inl RangeError else Inr (sgn a * (\<bar>a\<bar> mod \<bar>b\<bar>)))"

definition MAX_SAFE_INTEGER :: int where
  "MAX_SAFE_INTEGER = 9007199254740991"

definition bigintToNumber :: "int \<Rightarrow> int" where
  "bigintToNumber v = sgn v * (\<bar>v\<bar> mod MAX_SAFE_INTEGER)"

definition hashString :: "(bytes \<Rightarrow> bytes) \<Rightarrow> string \<Rightarrow> int" where
  "hashString sha256 input = hashToInteger sha256 input"

lemma hashToInteger_nonneg [simp]: "0 \<le> hashToInteger sha256 s"
  by (simp add: hashToInteger_def)

lemma calculateXorDistance_nonneg [simp]: "0 \<le> calculateXorDistance sha256 p q"
  by (simp add: calculateXorDistance_def participantIdToNumeric_def)

section \<open>Configuration and state\<close>

record repair_config =
  tMin :: int
  tMax :: int
  numResponseGroups :: int
  bufferSize :: nat

definition DEFAULT_REPAIR_CONFIG :: repair_config where
  "DEFAULT_REPAIR_CONFIG = \<lparr>tMin = 30000, tMax = 120000, numResponseGroups = 1, bufferSize = 1000\<rparr>"

definition PARTICIPANTS_PER_RESPONSE_GROUP :: int where
  "PARTICIPANTS_PER_RESPONSE_GROUP = 128"

record repair_manager =
  participantId :: string
  config :: repair_config
  rm_outgoing :: outgoing_buffer
  rm_incoming :: incoming_buffer

definition repair_new :: "string \<Rightarrow> repair_config \<Rightarrow> repair_manager" where
  "repair_new pid cfg =
     \<lparr>participantId = pid, config = cfg, rm_outgoing = outgoing_new (bufferSize cfg),
      rm_incoming = incoming_new (bufferSize cfg)\<rparr>"

section \<open>Timing\<close>

definition calculateTReq ::
  "(bytes \<Rightarrow> bytes) \<Rightarrow> repair_manager \<Rightarrow> string \<Rightarrow> int \<Rightarrow> js_error + int" where
  "calculateTReq sha256 rm mid currentTime =
     (case bigint_rem (combinedHash sha256 (participantId rm) mid)
             (tMax (config rm) - tMin (config rm)) of
        Inl e \<Rightarrow> Inl e
      | Inr r \<Rightarrow> Inr (currentTime + (bigintToNumber r + tMin (config rm))))"

definition calculateTResp ::
  "(bytes \<Rightarrow> bytes) \<Rightarrow> repair_manager \<Rightarrow> string \<Rightarrow> string \<Rightarrow> int \<Rightarrow> js_error + int" where
  "calculateTResp sha256 rm sid mid currentTime =
     (case bigint_rem (calculateXorDistance sha256 (participantId rm) sid * hashString sha256 mid)
             (tMax (config rm)) of
        Inl e \<Rightarrow> Inl e
      | Inr r \<Rightarrow> Inr (currentTime + bigintToNumber r))"

definition isInResponseGroup ::
  "(bytes \<Rightarrow> bytes) \<Rightarrow> repair_manager \<Rightarrow> string \<Rightarrow> string \<Rightarrow> bool" where
  "isInResponseGroup sha256 rm sid mid =
     (if sid = '''' then False
      else if numResponseGroups (config rm) \<le> 1 then True
      else combinedHash sha256 (participantId rm) mid mod numResponseGroups (config rm)
         = combinedHash sha256 sid mid mod numResponseGroups (config rm))"

section \<open>Operations\<close>

fun markDependenciesMissing ::
  "(bytes \<Rightarrow> bytes) \<Rightarrow> repair_manager \<Rightarrow> history_entry list \<Rightarrow> int \<Rightarrow> (repair_manager, unit) call" where
  "markDependenciesMissing sha256 rm [] now = returns rm ()"
| "markDependenciesMissing sha256 rm (e # es) now =
     (case calculateTReq sha256 rm (he_messageId e) now of
        Inl err \<Rightarrow> throws rm err
      | Inr t \<Rightarrow>
          (case outgoing_add (rm_outgoing rm) e t of
             (b, Inl err) \<Rightarrow> throws (rm\<lparr>rm_outgoing := b\<rparr>) err
           | (b, Inr _) \<Rightarrow> markDependenciesMissing sha256 (rm\<lparr>rm_outgoing := b\<rparr>) es now))"

definition markMessageReceived :: "repair_manager \<Rightarrow> string \<Rightarrow> repair_manager" where
  "markMessageReceived rm mid =
     (let wasInOutgoing = outgoing_has (rm_outgoing rm) mid;
          wasInIncoming = incoming_has (rm_incoming rm) mid;
          rm1 = (if wasInOutgoing
                 then rm\<lparr>rm_outgoing := outgoing_remove (rm_outgoing rm) mid\<rparr> else rm)
      in if wasInIncoming
         then rm1\<lparr>rm_incoming := incoming_remove (rm_incoming rm1) mid\<rparr> else rm1)"

definition getRepairRequests ::
  "repair_manager \<Rightarrow> nat \<Rightarrow> int \<Rightarrow> repair_manager \<times> history_entry list" where
  "getRepairRequests rm maxRequests now =
     (case getEligible (rm_outgoing rm) now maxRequests of
        (b, el) \<Rightarrow> (rm\<lparr>rm_outgoing := b\<rparr>, el))"

text \<open>
  One request of the loop: the entry leaves the own outgoing buffer whatever happens next; it
  enters the incoming buffer only when the message is in the history, the sender is known and this
  participant is in the response group.
\<close>

definition process_request ::
  "(bytes \<Rightarrow> bytes) \<Rightarrow> history \<Rightarrow> int \<Rightarrow> repair_manager \<Rightarrow> history_entry \<Rightarrow> (repair_manager, unit) call" where
  "process_request sha256 localHistory now rm0 request =
     (let mid = he_messageId request;
          rm = rm0\<lparr>rm_outgoing := outgoing_remove (rm_outgoing rm0) mid\<rparr>
      in case history_find (\<lambda>m. messageId m = mid) localHistory of
           None \<Rightarrow> returns rm ()
         | Some message \<Rightarrow>
             (case he_senderId request of
                None \<Rightarrow> returns rm ()
              | Some sid \<Rightarrow>
                  if sid = '''' then returns rm ()
                  else if \<not> isInResponseGroup sha256 rm sid mid then returns rm ()
                  else (case calculateTResp sha256 rm sid mid now of
                          Inl err \<Rightarrow> throws rm err
                        | Inr t \<Rightarrow>
                            (case incoming_add (rm_incoming rm) request t of
                               (b, Inl err) \<Rightarrow> throws (rm\<lparr>rm_incoming := b\<rparr>) err
                             | (b, Inr _) \<Rightarrow> returns (rm\<lparr>rm_incoming := b\<rparr>) ()))))"

fun processIncomingRepairRequests ::
  "(bytes \<Rightarrow> bytes) \<Rightarrow> repair_manager \<Rightarrow> history_entry list \<Rightarrow> history \<Rightarrow> int \<Rightarrow>
   (repair_manager, unit) call" where
  "processIncomingRepairRequests sha256 rm [] localHistory now = returns rm ()"
| "processIncomingRepairRequests sha256 rm (r # rs) localHistory now =
     then_do (process_request sha256 localHistory now rm r)
       (\<lambda>rm' _. processIncomingRepairRequests sha256 rm' rs localHistory now)"

text \<open>\<open>sweepOutgoingBuffer\<close> of the manager is \<open>getRepairRequests\<close>.\<close>

definition repair_sweepOutgoingBuffer ::
  "repair_manager \<Rightarrow> nat \<Rightarrow> int \<Rightarrow> repair_manager \<times> history_entry list" where
  "repair_sweepOutgoingBuffer rm maxRequests now = getRepairRequests rm maxRequests now"

definition repair_sweepIncomingBuffer ::
  "repair_manager \<Rightarrow> history \<Rightarrow> int \<Rightarrow> repair_manager \<times> message list" where
  "repair_sweepIncomingBuffer rm localHistory now =
     (case getReady (rm_incoming rm) now of
        (b, ready) \<Rightarrow>
          (rm\<lparr>rm_incoming := b\<rparr>,
           List.map_filter (\<lambda>e. history_find (\<lambda>m. messageId m = he_messageId e) localHistory) ready))"

definition repair_clear :: "repair_manager \<Rightarrow> repair_manager" where
  "repair_clear rm = rm\<lparr>rm_outgoing := outgoing_clear (rm_outgoing rm),
                        rm_incoming := incoming_clear (rm_incoming rm)\<rparr>"

text \<open>The argument is an integer here; the code also refuses fractions and infinities.\<close>

definition updateResponseGroups :: "repair_manager \<Rightarrow> int \<Rightarrow> (repair_manager, unit) call" where
  "updateResponseGroups rm numParticipants =
     (if numParticipants < 0
      then throws rm (JsError ''Invalid numParticipants'')
      else let n = (if numParticipants > MAX_SAFE_INTEGER then MAX_SAFE_INTEGER else numParticipants)
           in returns (rm\<lparr>config := (config rm)\<lparr>numResponseGroups :=
                 max 1 (n div PARTICIPANTS_PER_RESPONSE_GROUP)\<rparr>\<rparr>) ())"

definition hasRequestsReady :: "repair_manager \<Rightarrow> int \<Rightarrow> bool" where
  "hasRequestsReady rm now =
     (case out_items (rm_outgoing rm) of [] \<Rightarrow> False | x # _ \<Rightarrow> tReq x \<le> now)"

section \<open>Invariant\<close>

definition config_ok :: "repair_config \<Rightarrow> bool" where
  "config_ok c \<longleftrightarrow> 0 \<le> tMin c \<and> tMin c < tMax c \<and> 0 < bufferSize c"

definition repair_inv :: "repair_manager \<Rightarrow> bool" where
  "repair_inv rm \<longleftrightarrow> outgoing_inv (rm_outgoing rm) \<and> incoming_inv (rm_incoming rm)"

lemma repair_new_inv: "config_ok cfg \<Longrightarrow> repair_inv (repair_new pid cfg)"
  by (simp add: repair_inv_def repair_new_def outgoing_inv_def incoming_inv_def outgoing_new_def
      incoming_new_def buffer_ok_def config_ok_def)

lemma bigint_rem_nonneg: "0 \<le> a \<Longrightarrow> 0 < b \<Longrightarrow> bigint_rem a b = Inr (a mod b)"
  by (cases "a = 0") (auto simp: bigint_rem_def)

lemma bigintToNumber_nonneg: "0 \<le> v \<Longrightarrow> bigintToNumber v = v mod MAX_SAFE_INTEGER"
  by (cases "v = 0") (auto simp: bigintToNumber_def)

lemma bigintToNumber_mod:
  assumes "0 < b"
  shows "0 \<le> bigintToNumber (a mod b)" and "bigintToNumber (a mod b) < b"
proof -
  have n: "bigintToNumber (a mod b) = a mod b mod MAX_SAFE_INTEGER"
    using assms by (simp add: bigintToNumber_nonneg)
  show "0 \<le> bigintToNumber (a mod b)" by (simp add: n MAX_SAFE_INTEGER_def)
  have "a mod b mod MAX_SAFE_INTEGER \<le> a mod b"
    using assms by (intro zmod_le_nonneg_dividend) simp
  also have "\<dots> < b" using assms by simp
  finally show "bigintToNumber (a mod b) < b" by (simp add: n)
qed

lemma calculateTReq_ok:
  assumes "config_ok (config rm)"
  shows "\<exists>t. calculateTReq sha256 rm mid now = Inr t \<and> now + tMin (config rm) \<le> t
    \<and> t < now + tMax (config rm)"
proof -
  let ?h = "combinedHash sha256 (participantId rm) mid" and ?r = "tMax (config rm) - tMin (config rm)"
  have "0 < ?r" using assms by (simp add: config_ok_def)
  from bigint_rem_nonneg[OF _ this, of ?h] bigintToNumber_mod[OF this, of ?h] show ?thesis
    by (simp add: calculateTReq_def) (simp add: combinedHash_def)
qed

lemma calculateTResp_ok:
  assumes "config_ok (config rm)"
  shows "\<exists>t. calculateTResp sha256 rm sid mid now = Inr t \<and> now \<le> t \<and> t < now + tMax (config rm)"
proof -
  let ?p = "calculateXorDistance sha256 (participantId rm) sid * hashString sha256 mid"
  have "0 < tMax (config rm)" using assms by (simp add: config_ok_def)
  from bigint_rem_nonneg[OF _ this, of ?p] bigintToNumber_mod[OF this, of ?p] show ?thesis
    by (simp add: calculateTResp_def hashString_def)
qed

section \<open>The manager keeps its buffers in order\<close>

lemma mark_missing_ok:
  "config_ok (config rm) \<Longrightarrow> repair_inv rm \<Longrightarrow>
    \<exists>rm'. markDependenciesMissing sha256 rm es now = (rm', Inr ()) \<and> repair_inv rm'
      \<and> config rm' = config rm \<and> participantId rm' = participantId rm \<and> rm_incoming rm' = rm_incoming rm"
proof (induction es arbitrary: rm)
  case (Cons e es)
  obtain t where t: "calculateTReq sha256 rm (he_messageId e) now = Inr t"
    using calculateTReq_ok[OF Cons.prems(1)] by blast
  obtain b r where b: "outgoing_add (rm_outgoing rm) e t = (b, Inr r)" "outgoing_inv b"
    using out_buf.add_ok Cons.prems(2) unfolding repair_inv_def by blast
  from Cons.IH[of "rm\<lparr>rm_outgoing := b\<rparr>"] Cons.prems t b show ?case
    by (simp add: repair_inv_def)
qed (simp add: returns_def)

lemma markMessageReceived_inv [inv_intros]: "repair_inv rm \<Longrightarrow> repair_inv (markMessageReceived rm mid)"
  by (simp add: markMessageReceived_def repair_inv_def Let_def out_buf.remove_inv in_buf.remove_inv)

lemma markMessageReceived_ids:
  "outgoing_ids (rm_outgoing (markMessageReceived rm mid)) = outgoing_ids (rm_outgoing rm) - {mid}"
  "incoming_ids (rm_incoming (markMessageReceived rm mid)) = incoming_ids (rm_incoming rm) - {mid}"
  by (auto simp: markMessageReceived_def Let_def out_buf.remove_ids in_buf.remove_ids
      out_buf.has_iff in_buf.has_iff)

lemma markMessageReceived_fields [simp]:
  "config (markMessageReceived rm mid) = config rm"
  "participantId (markMessageReceived rm mid) = participantId rm"
  by (simp_all add: markMessageReceived_def Let_def)

lemma getRepairRequests_inv [inv_intros]:
  assumes "repair_inv rm" and "getRepairRequests rm n now = (rm', el)"
  shows "repair_inv rm'" and "config rm' = config rm" and "rm_incoming rm' = rm_incoming rm"
    and "outgoing_ids (rm_outgoing rm') = outgoing_ids (rm_outgoing rm)"
proof -
  obtain b where b: "getEligible (rm_outgoing rm) now n = (b, el)" "rm' = rm\<lparr>rm_outgoing := b\<rparr>"
    using assms(2) by (auto simp: getRepairRequests_def split: prod.splits)
  from getEligible_inv[OF _ b(1)] assms(1) b(2)
  show "repair_inv rm'" "config rm' = config rm" "rm_incoming rm' = rm_incoming rm"
    "outgoing_ids (rm_outgoing rm') = outgoing_ids (rm_outgoing rm)"
    by (simp_all add: repair_inv_def)
qed

lemma history_some_iff: "history_some (\<lambda>m. messageId m = mid) h \<longleftrightarrow> mid \<in> history_ids h"
  by (auto simp: history_some_def list_ex_iff history_ids_def)

lemma history_find_Some: "history_find (\<lambda>m. messageId m = mid) h = Some m \<Longrightarrow> mid \<in> history_ids h"
  by (auto simp: history_find_def history_ids_def find_Some_iff)

lemma history_find_None: "history_find (\<lambda>m. messageId m = mid) h = None \<longleftrightarrow> mid \<notin> history_ids h"
  by (auto simp: history_find_def history_ids_def find_None_iff)

lemma process_request_ok:
  assumes "config_ok (config rm)" and "repair_inv rm"
  shows "\<exists>rm'. process_request sha256 h now rm r = (rm', Inr ()) \<and> repair_inv rm'
    \<and> config rm' = config rm \<and> participantId rm' = participantId rm
    \<and> outgoing_ids (rm_outgoing rm') = outgoing_ids (rm_outgoing rm) - {he_messageId r}
    \<and> incoming_ids (rm_incoming rm') \<subseteq> insert (he_messageId r) (incoming_ids (rm_incoming rm))
    \<and> (he_messageId r \<in> incoming_ids (rm_incoming rm') \<longleftrightarrow>
         he_messageId r \<in> incoming_ids (rm_incoming rm)
         \<or> he_messageId r \<in> history_ids h
           \<and> (\<exists>sid. he_senderId r = Some sid \<and> isInResponseGroup sha256 rm sid (he_messageId r)))"
proof -
  let ?mid = "he_messageId r"
  let ?rm = "rm\<lparr>rm_outgoing := outgoing_remove (rm_outgoing rm) ?mid\<rparr>"
  have inv: "repair_inv ?rm" using assms(2) by (simp add: repair_inv_def out_buf.remove_inv)
  have group: "isInResponseGroup sha256 ?rm = isInResponseGroup sha256 rm"
    by (simp add: isInResponseGroup_def fun_eq_iff)
  show ?thesis
  proof (cases "?mid \<in> history_ids h \<and>
      (\<exists>sid. he_senderId r = Some sid \<and> isInResponseGroup sha256 rm sid ?mid)")
    case True
    then obtain sid where sid: "he_senderId r = Some sid" "isInResponseGroup sha256 rm sid ?mid"
      by blast
    from True have "history_find (\<lambda>m. messageId m = ?mid) h \<noteq> None"
      by (simp add: history_find_None)
    then obtain m where m: "history_find (\<lambda>m. messageId m = ?mid) h = Some m" by blast
    have "sid \<noteq> ''''" using sid(2) by (auto simp: isInResponseGroup_def)
    note sid = sid this
    obtain t where t: "calculateTResp sha256 ?rm sid ?mid now = Inr t"
      using calculateTResp_ok[of ?rm sha256 sid ?mid now] assms(1) by auto
    obtain b k where b: "incoming_add (rm_incoming ?rm) r t = (b, Inr k)" "incoming_inv b"
        "?mid \<in> incoming_ids b" "incoming_ids b \<subseteq> insert ?mid (incoming_ids (rm_incoming rm))"
      using in_buf.add_ok[of "rm_incoming ?rm" r t] inv by (auto simp: repair_inv_def)
    have "process_request sha256 h now rm r = (?rm\<lparr>rm_incoming := b\<rparr>, Inr ())"
      using m sid t b(1) by (simp add: process_request_def Let_def group returns_def)
    moreover have "repair_inv (?rm\<lparr>rm_incoming := b\<rparr>)" using inv b(2) by (simp add: repair_inv_def)
    ultimately show ?thesis using True b(3,4)
      by (intro exI[of _ "?rm\<lparr>rm_incoming := b\<rparr>"]) (simp add: out_buf.remove_ids)
  next
    case False
    then have "process_request sha256 h now rm r = returns ?rm ()"
      by (auto simp: process_request_def Let_def group dest: history_find_Some split: option.splits)
    with False inv show ?thesis by (auto simp: returns_def out_buf.remove_ids)
  qed
qed

lemma process_requests_ok:
  "config_ok (config rm) \<Longrightarrow> repair_inv rm \<Longrightarrow>
    \<exists>rm'. processIncomingRepairRequests sha256 rm rs h now = (rm', Inr ()) \<and> repair_inv rm'
      \<and> config rm' = config rm \<and> participantId rm' = participantId rm
      \<and> outgoing_ids (rm_outgoing rm') = outgoing_ids (rm_outgoing rm) - he_messageId ` set rs
      \<and> incoming_ids (rm_incoming rm') \<subseteq> incoming_ids (rm_incoming rm)
          \<union> (he_messageId ` set rs \<inter> history_ids h)"
proof (induction rs arbitrary: rm)
  case (Cons r rs)
  from process_request_ok[OF Cons.prems, of sha256 h now r] obtain rm1 where
    1: "process_request sha256 h now rm r = (rm1, Inr ())" "repair_inv rm1" "config rm1 = config rm"
      "participantId rm1 = participantId rm"
      "outgoing_ids (rm_outgoing rm1) = outgoing_ids (rm_outgoing rm) - {he_messageId r}"
      "incoming_ids (rm_incoming rm1) \<subseteq> insert (he_messageId r) (incoming_ids (rm_incoming rm))"
    and i: "he_messageId r \<in> incoming_ids (rm_incoming rm1) \<longrightarrow>
      he_messageId r \<in> incoming_ids (rm_incoming rm) \<or> he_messageId r \<in> history_ids h"
    by (elim exE conjE) blast
  from 1(6) i have 2: "incoming_ids (rm_incoming rm1) \<subseteq> incoming_ids (rm_incoming rm)
      \<union> (he_messageId ` set (r # rs) \<inter> history_ids h)" by auto
  from Cons.IH[of rm1] Cons.prems(1) 1(2,3) obtain rm2 where
    3: "processIncomingRepairRequests sha256 rm1 rs h now = (rm2, Inr ())" "repair_inv rm2"
      "config rm2 = config rm1" "participantId rm2 = participantId rm1"
      "outgoing_ids (rm_outgoing rm2) = outgoing_ids (rm_outgoing rm1) - he_messageId ` set rs"
      "incoming_ids (rm_incoming rm2) \<subseteq> incoming_ids (rm_incoming rm1)
          \<union> (he_messageId ` set rs \<inter> history_ids h)"
    by auto
  have "outgoing_ids (rm_outgoing rm2) = outgoing_ids (rm_outgoing rm) - he_messageId ` set (r # rs)"
    using 1(5) 3(5) by auto
  moreover have "incoming_ids (rm_incoming rm2) \<subseteq> incoming_ids (rm_incoming rm)
      \<union> (he_messageId ` set (r # rs) \<inter> history_ids h)"
    using 2 3(6) by auto
  ultimately show ?case using 1(1,3,4) 3(1-4) by simp
qed (simp add: returns_def)

lemma repair_sweepIncoming_ok:
  assumes "repair_inv rm" and "repair_sweepIncomingBuffer rm h now = (rm', ms)"
  shows "repair_inv rm'" and "config rm' = config rm" and "rm_outgoing rm' = rm_outgoing rm"
    and "participantId rm' = participantId rm"
    and "ms = List.map_filter (\<lambda>x. history_find (\<lambda>m. messageId m = in_id x) h)
           (filter (\<lambda>x. tResp x \<le> now) (in_items (rm_incoming rm)))"
    and "in_items (rm_incoming rm') = filter (\<lambda>x. now < tResp x) (in_items (rm_incoming rm))"
proof -
  have s: "sorted_by tResp (in_items (rm_incoming rm))"
    using assms(1) by (simp add: repair_inv_def incoming_inv_def buffer_ok_def)
  have e: "List.map_filter f (map g xs) = List.map_filter (\<lambda>x. f (g x)) xs" for f :: "history_entry \<Rightarrow> message option" and g :: "incoming_entry \<Rightarrow> history_entry" and xs
    by (induction xs) (auto simp: List.map_filter_def)
  from assms s have r: "rm' = rm\<lparr>rm_incoming := (rm_incoming rm)\<lparr>in_items :=
      filter (\<lambda>x. now < tResp x) (in_items (rm_incoming rm))\<rparr>\<rparr>"
    "ms = List.map_filter (\<lambda>x. history_find (\<lambda>m. messageId m = in_id x) h)
           (filter (\<lambda>x. tResp x \<le> now) (in_items (rm_incoming rm)))"
    by (auto simp: repair_sweepIncomingBuffer_def getReady_spec e)
  from assms(1) have "incoming_inv ((rm_incoming rm)\<lparr>in_items :=
      filter (\<lambda>x. now < tResp x) (in_items (rm_incoming rm))\<rparr>)"
    unfolding repair_inv_def incoming_inv_def by (simp add: buffer_ok_filter)
  with r assms(1) show "repair_inv rm'" by (simp add: repair_inv_def)
  from r show "config rm' = config rm" "rm_outgoing rm' = rm_outgoing rm"
    "participantId rm' = participantId rm"
    "ms = List.map_filter (\<lambda>x. history_find (\<lambda>m. messageId m = in_id x) h)
           (filter (\<lambda>x. tResp x \<le> now) (in_items (rm_incoming rm)))"
    "in_items (rm_incoming rm') = filter (\<lambda>x. now < tResp x) (in_items (rm_incoming rm))"
    by simp_all
qed

section \<open>Runs of the manager\<close>

datatype repair_op =
    MarkMissing "history_entry list" int
  | MarkReceived string
  | GetRequests nat int
  | ProcessRequests "history_entry list" history int
  | SweepIncoming history int
  | ClearBuffers
  | UpdateGroups int

fun repair_step :: "(bytes \<Rightarrow> bytes) \<Rightarrow> repair_manager \<Rightarrow> repair_op \<Rightarrow> (repair_manager, unit) call" where
  "repair_step sha256 rm (MarkMissing es now) = markDependenciesMissing sha256 rm es now"
| "repair_step sha256 rm (MarkReceived mid) = returns (markMessageReceived rm mid) ()"
| "repair_step sha256 rm (GetRequests n now) = returns (fst (getRepairRequests rm n now)) ()"
| "repair_step sha256 rm (ProcessRequests rs h now) = processIncomingRepairRequests sha256 rm rs h now"
| "repair_step sha256 rm (SweepIncoming h now) = returns (fst (repair_sweepIncomingBuffer rm h now)) ()"
| "repair_step sha256 rm ClearBuffers = returns (repair_clear rm) ()"
| "repair_step sha256 rm (UpdateGroups n) = updateResponseGroups rm n"

text \<open>A run goes on after an operation that throws, from the state it left.\<close>

fun repair_run :: "(bytes \<Rightarrow> bytes) \<Rightarrow> repair_manager \<Rightarrow> repair_op list \<Rightarrow> repair_manager" where
  "repair_run sha256 rm [] = rm"
| "repair_run sha256 rm (op # ops) = repair_run sha256 (fst (repair_step sha256 rm op)) ops"

lemma repair_step_ok:
  assumes "config_ok (config rm)" and "repair_inv rm"
  shows "config_ok (config (fst (repair_step sha256 rm op))) \<and> repair_inv (fst (repair_step sha256 rm op))
    \<and> bufferSize (config (fst (repair_step sha256 rm op))) = bufferSize (config rm)
    \<and> ((\<forall>n. op \<noteq> UpdateGroups n) \<longrightarrow> snd (repair_step sha256 rm op) = Inr ())"
proof (cases op)
  case (MarkMissing es now)
  with mark_missing_ok[OF assms, of sha256 es now] assms show ?thesis by auto
next
  case (ProcessRequests rs h now)
  with process_requests_ok[OF assms, of sha256 rs h now] assms show ?thesis by auto
next
  case (GetRequests n now)
  with getRepairRequests_inv[OF assms(2), of n now] assms(1) show ?thesis
    by (cases "getRepairRequests rm n now") auto
next
  case (SweepIncoming h now)
  with repair_sweepIncoming_ok(1,2)[OF assms(2), of h now] assms(1) show ?thesis
    by (cases "repair_sweepIncomingBuffer rm h now") auto
next
  case (MarkReceived mid)
  with assms markMessageReceived_inv[OF assms(2)] show ?thesis by simp
next
  case ClearBuffers
  with assms show ?thesis
    by (simp add: repair_clear_def repair_inv_def outgoing_inv_def incoming_inv_def outgoing_clear_def
        incoming_clear_def buffer_ok_def)
next
  case (UpdateGroups n)
  with assms show ?thesis
    by (auto simp: updateResponseGroups_def repair_inv_def config_ok_def Let_def)
qed

section \<open>Properties\<close>

text \<open>With a sane configuration a missing message is requested within the repair window, not before
  \<open>tMin\<close> and before \<open>tMax\<close> from now, and a response is due within \<open>tMax\<close>, whatever the hash;
  an empty window (\<open>tMin = tMax\<close>) makes the request time throw, as a zero \<open>tMax\<close> does for the
  response.\<close>

theorem repair_times_in_window:
  assumes "config_ok (config rm)"
  shows "(\<exists>t. calculateTReq sha256 rm mid now = Inr t \<and> now + tMin (config rm) \<le> t
            \<and> t < now + tMax (config rm))
       \<and> (\<exists>t. calculateTResp sha256 rm sid mid now = Inr t \<and> now \<le> t \<and> t < now + tMax (config rm))
       \<and> calculateTReq sha256 (rm\<lparr>config := (config rm)\<lparr>tMin := tMax (config rm)\<rparr>\<rparr>) mid now = Inl RangeError
       \<and> calculateTResp sha256 (rm\<lparr>config := (config rm)\<lparr>tMax := 0\<rparr>\<rparr>) sid mid now = Inl RangeError"
  using calculateTReq_ok[OF assms] calculateTResp_ok[OF assms]
  by (simp add: calculateTReq_def calculateTResp_def bigint_rem_def)

theorem repair_times_in_window_witness:
  "\<exists>t. calculateTReq (\<lambda>_. replicate 32 7) (repair_new ''alice'' DEFAULT_REPAIR_CONFIG) ''m'' 1000 = Inr t
     \<and> 31000 \<le> t \<and> t < 121000"
proof -
  have "config_ok (config (repair_new ''alice'' DEFAULT_REPAIR_CONFIG))"
    by (simp add: repair_new_def DEFAULT_REPAIR_CONFIG_def config_ok_def)
  from repair_times_in_window[OF this, of "\<lambda>_. replicate 32 7" "''m''" 1000]
  show ?thesis by (simp add: repair_new_def DEFAULT_REPAIR_CONFIG_def)
qed

text \<open>A received repair request always takes the message out of the own request buffer, and it is
  queued for an answer only when the message is in the history, its sender is given and this
  participant is in the response group of the message; nothing throws and the buffers stay ordered,
  duplicate-free and bounded.\<close>

theorem repair_request_handling:
  assumes "config_ok (config rm)" and "repair_inv rm"
  shows "\<exists>rm'. process_request sha256 h now rm r = (rm', Inr ()) \<and> repair_inv rm'
    \<and> outgoing_ids (rm_outgoing rm') = outgoing_ids (rm_outgoing rm) - {he_messageId r}
    \<and> (he_messageId r \<in> incoming_ids (rm_incoming rm') \<longleftrightarrow>
         he_messageId r \<in> incoming_ids (rm_incoming rm)
         \<or> he_messageId r \<in> history_ids h
           \<and> (\<exists>sid. he_senderId r = Some sid \<and> isInResponseGroup sha256 rm sid (he_messageId r)))"
  using process_request_ok[OF assms] by blast

theorem repair_request_handling_witness:
  "\<exists>rm'. process_request (\<lambda>_. replicate 32 7) ((new_history 5)\<lparr>items := [stamped 1 ''m'']\<rparr>) 1000
        (repair_new ''alice'' DEFAULT_REPAIR_CONFIG)
        ((sample_entry ''m'')\<lparr>he_senderId := Some ''bob''\<rparr>) = (rm', Inr ())
     \<and> ''m'' \<in> incoming_ids (rm_incoming rm')"
proof -
  have "config_ok (config (repair_new ''alice'' DEFAULT_REPAIR_CONFIG))"
    by (simp add: repair_new_def DEFAULT_REPAIR_CONFIG_def config_ok_def)
  moreover from this have "repair_inv (repair_new ''alice'' DEFAULT_REPAIR_CONFIG)"
    by (intro repair_new_inv) (simp add: repair_new_def)
  ultimately show ?thesis
    using repair_request_handling[of "repair_new ''alice'' DEFAULT_REPAIR_CONFIG" "\<lambda>_. replicate 32 7"
        "(new_history 5)\<lparr>items := [stamped 1 ''m'']\<rparr>" 1000 "(sample_entry ''m'')\<lparr>he_senderId := Some ''bob''\<rparr>"]
    by (auto simp: sample_entry_def history_ids_def stamped_def isInResponseGroup_def repair_new_def
        DEFAULT_REPAIR_CONFIG_def)
qed

text \<open>C29: Whatever operations are called in whatever order, the two repair buffers of a manager stay
  ordered by due time, without two entries of one message, and within the configured size.\<close>

theorem repair_run_invariant:
  assumes "config_ok cfg"
  shows "let rm = repair_run sha256 (repair_new pid cfg) ops in
    repair_inv rm \<and> length (out_items (rm_outgoing rm)) \<le> out_maxSize (rm_outgoing rm)
    \<and> distinct (map out_id (out_items (rm_outgoing rm))) \<and> sorted_by tReq (out_items (rm_outgoing rm))
    \<and> distinct (map in_id (in_items (rm_incoming rm))) \<and> sorted_by tResp (in_items (rm_incoming rm))"
proof -
  have "repair_inv (repair_run sha256 rm ops)" if "config_ok (config rm)" "repair_inv rm" for rm
    using that
  proof (induction ops arbitrary: rm)
    case (Cons op ops)
    from repair_step_ok[OF Cons.prems, of sha256 op]
    have "config_ok (config (fst (repair_step sha256 rm op)))" "repair_inv (fst (repair_step sha256 rm op))"
      by blast+
    from Cons.IH[OF this] show ?case by simp
  qed simp
  moreover have "config (repair_new pid cfg) = cfg" by (simp add: repair_new_def)
  ultimately have "repair_inv (repair_run sha256 (repair_new pid cfg) ops)"
    using assms repair_new_inv by simp
  then show ?thesis
    by (simp add: Let_def repair_inv_def outgoing_inv_def incoming_inv_def buffer_ok_def)
qed

theorem repair_run_invariant_witness:
  "let rm = repair_run (\<lambda>_. replicate 32 7) (repair_new ''alice'' DEFAULT_REPAIR_CONFIG)
      [MarkMissing [sample_entry ''a'', sample_entry ''b'', sample_entry ''a''] 5, MarkReceived ''b'']
   in distinct (map out_id (out_items (rm_outgoing rm))) \<and> config_ok DEFAULT_REPAIR_CONFIG"
proof -
  have c: "config_ok DEFAULT_REPAIR_CONFIG" by (simp add: DEFAULT_REPAIR_CONFIG_def config_ok_def)
  from repair_run_invariant[OF c] c show ?thesis by (simp only: Let_def simp_thms)
qed

end
