(* ===== verification/Message_Channel.thy ===== *)
theory Message_Channel
  imports Bloom Repair_Manager
begin

text \<open>
  \<open>packages/sds/src/message_channel/message_channel.ts\<close> with \<open>command_queue.ts\<close> and \<open>events.ts\<close>: a
  participant of a reliable channel. The state is the class' fields plus the list of events
  emitted so far. An operation takes the host functions, the clock and the state, and gives the new
  state with a result or an error; the state survives an error.

  \<^item> The host: the hash of \<open>@noble/hashes\<close>, the collation of the history and the bloom filter's hash.
  \<^item> A callback is a function from the message to what its promise settles to.
  \<^item> The clock is read once per synchronous stretch of code.
  \<^item> \<open>message.retrievalHint = ...\<close> in the send handler mutates an object that the outgoing buffer
    and, on a resend, the history hold: a message of this participant is identified by its id and
    its timestamp, which no two sends share.
\<close>

section \<open>Types\<close>

record host =
  h_sha256 :: "bytes \<Rightarrow> bytes"
  h_collate :: collation
  h_hashN :: hash_fun

type_synonym send_callback = "message \<Rightarrow> js_error + (bool \<times> bytes option)"
type_synonym bool_callback = "message \<Rightarrow> js_error + bool"

datatype task =
    Send bytes "send_callback option"
  | Receive message
  | SendEphemeral bytes "bool_callback option"

datatype command = CmdSend | CmdReceive | CmdSendEphemeral

fun task_command :: "task \<Rightarrow> command" where
  "task_command (Send p cb) = CmdSend"
| "task_command (Receive m) = CmdReceive"
| "task_command (SendEphemeral p cb) = CmdSendEphemeral"

datatype channel_event =
    OutMessageSent message
  | InMessageDelivered string
  | InMessageReceived message
  | OutMessageAcknowledged string
  | OutMessagePossiblyAcknowledged string nat
  | InMessageMissing "history_entry list"
  | OutSyncSent message
  | InSyncReceived message
  | InMessageLost "history_entry list"
  | TaskError command js_error
  | ErrorTask command js_error
  | RepairRequestSent "string list" string
  | RepairRequestReceived "string list" string
  | RepairResponseSent string

record channel =
  ch_channelId :: string
  ch_senderId :: string
  lamport :: nat
  bloom_filter :: bloom
  outgoingBuffer :: "message list"
  possibleAcks :: "string \<rightharpoonup> nat"
  incomingBuffer :: "message list"
  localHistory :: history
  timeReceived :: "string \<rightharpoonup> nat"
  causalHistorySize :: int
  possibleAcksThreshold :: int
  timeoutForLostMessagesMs :: "nat option"
  repairManager :: "repair_manager option"
  tasks :: "task list"
  emitted :: "channel_event list"

record channel_options =
  o_causalHistorySize :: "int option"
  o_timeoutForLostMessagesMs :: "nat option"
  o_possibleAcksThreshold :: "int option"
  o_enableRepair :: "bool option"
  o_repairConfig :: repair_config

definition MAX_REPAIR_REQUESTS_PER_MESSAGE :: nat where
  "MAX_REPAIR_REQUESTS_PER_MESSAGE = 3"

definition DEFAULT_CAUSAL_HISTORY_SIZE :: int where
  "DEFAULT_CAUSAL_HISTORY_SIZE = 200"

definition DEFAULT_POSSIBLE_ACKS_THRESHOLD :: int where
  "DEFAULT_POSSIBLE_ACKS_THRESHOLD = 2"

definition or_default :: "'a \<Rightarrow> 'a option \<Rightarrow> 'a" where
  "or_default d x = (case x of None \<Rightarrow> d | Some v \<Rightarrow> v)"

section \<open>Construction\<close>

definition channel_new ::
  "bloom_options \<Rightarrow> nat \<Rightarrow> string \<Rightarrow> string \<Rightarrow> channel_options \<Rightarrow> history \<Rightarrow> js_error + channel" where
  "channel_new bloomOptions now cid sid opts history =
     (case bloom_new bloomOptions of
        Inl e \<Rightarrow> Inl e
      | Inr bf \<Rightarrow> Inr
          \<lparr>ch_channelId = cid, ch_senderId = sid, lamport = now, bloom_filter = bf,
           outgoingBuffer = [], possibleAcks = Map.empty, incomingBuffer = [],
           localHistory = history, timeReceived = Map.empty,
           causalHistorySize = or_default DEFAULT_CAUSAL_HISTORY_SIZE (o_causalHistorySize opts),
           possibleAcksThreshold =
             or_default DEFAULT_POSSIBLE_ACKS_THRESHOLD (o_possibleAcksThreshold opts),
           timeoutForLostMessagesMs = o_timeoutForLostMessagesMs opts,
           repairManager = (if or_default True (o_enableRepair opts)
                            then Some (repair_new sid (o_repairConfig opts)) else None),
           tasks = [], emitted = []\<rparr>)"

definition getMessageId :: "host \<Rightarrow> bytes \<Rightarrow> string" where
  "getMessageId host payload = bytesToHex (h_sha256 host payload)"

definition safeSendEvent :: "channel \<Rightarrow> channel_event \<Rightarrow> channel" where
  "safeSendEvent c e = c\<lparr>emitted := emitted c @ [e]\<rparr>"

definition lamportTimestampIncrement :: "nat \<Rightarrow> nat \<Rightarrow> nat" where
  "lamportTimestampIncrement now t = (if now > t + 1 then now else t + 1)"

definition hasPendingRepairRequests :: "channel \<Rightarrow> nat \<Rightarrow> bool" where
  "hasPendingRepairRequests c now =
     (case repairManager c of None \<Rightarrow> False | Some rm \<Rightarrow> hasRequestsReady rm (int now))"

section \<open>Queueing\<close>

definition pushOutgoingMessage ::
  "channel \<Rightarrow> bytes \<Rightarrow> send_callback option \<Rightarrow> (channel, unit) call" where
  "pushOutgoingMessage c payload callback =
     (if payload = [] then throws c (JsError ''Only messages with valid payloads are allowed'')
      else returns (c\<lparr>tasks := tasks c @ [Send payload callback]\<rparr>) ())"

definition pushOutgoingEphemeralMessage :: "channel \<Rightarrow> bytes \<Rightarrow> bool_callback option \<Rightarrow> channel" where
  "pushOutgoingEphemeralMessage c payload callback =
     c\<lparr>tasks := tasks c @ [SendEphemeral payload callback]\<rparr>"

definition pushIncomingMessage :: "channel \<Rightarrow> message \<Rightarrow> bytes option \<Rightarrow> channel" where
  "pushIncomingMessage c m hint = c\<lparr>tasks := tasks c @ [Receive (m\<lparr>retrievalHint := hint\<rparr>)]\<rparr>"

section \<open>Availability and delivery\<close>

definition isMessageAvailable :: "channel \<Rightarrow> string \<Rightarrow> bool" where
  "isMessageAvailable c mid =
     (if history_some (\<lambda>m. messageId m = mid) (localHistory c) then True
      else list_ex (\<lambda>m. messageId m = mid) (incomingBuffer c))"

definition missingDependencies :: "channel \<Rightarrow> message \<Rightarrow> history_entry list" where
  "missingDependencies c m =
     filter (\<lambda>e. \<not> isMessageAvailable c (he_messageId e)) (causalHistory m)"

definition deliverMessage :: "host \<Rightarrow> channel \<Rightarrow> message \<Rightarrow> (channel, bool) call" where
  "deliverMessage host c m =
     (if \<not> isContentMessage m then returns c False
      else let c1 = (case lamportTimestamp m of
                       Some t \<Rightarrow> if t > lamport c then c\<lparr>lamport := t\<rparr> else c
                     | None \<Rightarrow> c)
           in case history_find (\<lambda>x. messageId x = messageId m) (localHistory c1) of
                Some _ \<Rightarrow> returns c1 True
              | None \<Rightarrow>
                  (case history_push (h_collate host) (localHistory c1) [m] of
                     (h, Inl e) \<Rightarrow> throws (c1\<lparr>localHistory := h\<rparr>) e
                   | (h, Inr _) \<Rightarrow> returns (c1\<lparr>localHistory := h\<rparr>) True))"

text \<open>\<open>if (isContentMessage(message) && this.deliverMessage(message)) emit InMessageDelivered\<close>.\<close>

definition deliver_and_emit :: "host \<Rightarrow> channel \<Rightarrow> message \<Rightarrow> (channel, unit) call" where
  "deliver_and_emit host c m =
     (if isContentMessage m
      then then_do (deliverMessage host c m) (\<lambda>c1 delivered.
        returns (if delivered then safeSendEvent c1 (InMessageDelivered (messageId m)) else c1) ())
      else returns c ())"

section \<open>Sweeps\<close>

text \<open>
  Whether a buffered message with missing dependencies has waited too long. The code tests the timeout
  and the reception time for truth, so a zero counts as absent.
\<close>

definition is_lost :: "nat \<Rightarrow> channel \<Rightarrow> message \<Rightarrow> bool" where
  "is_lost now c m \<longleftrightarrow>
     (case timeoutForLostMessagesMs c of
        None \<Rightarrow> False
      | Some timeout \<Rightarrow> timeout \<noteq> 0 \<and>
          (case timeReceived c (messageId m) of
             None \<Rightarrow> False
           | Some t \<Rightarrow> t \<noteq> 0 \<and> int now - int t > int timeout))"

text \<open>
  The loop of \<open>sweepIncomingBuffer\<close>: the messages still to visit, the new buffer and the missing
  entries gathered so far (a set of object references: entries of different messages are different
  objects). The old buffer stays in the state during the loop.
\<close>

fun sweep_loop ::
  "host \<Rightarrow> nat \<Rightarrow> message list \<Rightarrow> channel \<Rightarrow> message list \<Rightarrow> history_entry list \<Rightarrow>
   (channel, message list \<times> history_entry list) call" where
  "sweep_loop host now [] c buffer missing = returns c (buffer, missing)"
| "sweep_loop host now (m # ms) c buffer missing =
     (let deps = missingDependencies c m
      in if deps = []
         then then_do (deliver_and_emit host c m) (\<lambda>c1 _. sweep_loop host now ms c1 buffer missing)
         else if is_lost now c m
         then then_do (deliver_and_emit host (safeSendEvent c (InMessageLost deps)) m)
                (\<lambda>c1 _. sweep_loop host now ms c1 buffer missing)
         else sweep_loop host now ms c (buffer @ [m]) (missing @ deps))"

definition sweepIncomingBuffer :: "host \<Rightarrow> nat \<Rightarrow> channel \<Rightarrow> (channel, history_entry list) call" where
  "sweepIncomingBuffer host now c =
     then_do (sweep_loop host now (incomingBuffer c) c [] []) (\<lambda>c1 (buffer, missing).
       returns (safeSendEvent (c1\<lparr>incomingBuffer := buffer\<rparr>) (InMessageMissing missing)) missing)"

definition sweepOutgoingBuffer :: "channel \<Rightarrow> message list \<times> message list" where
  "sweepOutgoingBuffer c =
     foldl (\<lambda>(unacknowledged, possiblyAcknowledged) m.
         if possibleAcks c (messageId m) \<noteq> None
         then (unacknowledged, possiblyAcknowledged @ [m])
         else (unacknowledged @ [m], possiblyAcknowledged))
       ([], []) (outgoingBuffer c)"

fun rebroadcast :: "bool_callback \<Rightarrow> message list \<Rightarrow> channel \<Rightarrow> channel" where
  "rebroadcast callback [] c = c"
| "rebroadcast callback (m # ms) c =
     (case callback m of
        Inl e \<Rightarrow> rebroadcast callback ms c
      | Inr _ \<Rightarrow> rebroadcast callback ms (safeSendEvent c (RepairResponseSent (messageId m))))"

definition sweepRepairIncomingBuffer ::
  "nat \<Rightarrow> channel \<Rightarrow> bool_callback option \<Rightarrow> channel \<times> message list" where
  "sweepRepairIncomingBuffer now c callback =
     (let (c1, repairsToSend) =
        (case repairManager c of
           None \<Rightarrow> (c, [])
         | Some rm \<Rightarrow>
             (case repair_sweepIncomingBuffer rm (localHistory c) (int now) of
                (rm', ms) \<Rightarrow> (c\<lparr>repairManager := Some rm'\<rparr>, ms)))
      in ((case callback of None \<Rightarrow> c1 | Some f \<Rightarrow> rebroadcast f repairsToSend c1), repairsToSend))"

section \<open>Sending\<close>

definition take_repair_requests :: "nat \<Rightarrow> channel \<Rightarrow> channel \<times> history_entry list" where
  "take_repair_requests now c =
     (case repairManager c of
        None \<Rightarrow> (c, [])
      | Some rm \<Rightarrow>
          (case getRepairRequests rm MAX_REPAIR_REQUESTS_PER_MESSAGE (int now) of
             (rm', rs) \<Rightarrow> (c\<lparr>repairManager := Some rm'\<rparr>, rs)))"

definition recent_history :: "channel \<Rightarrow> history_entry list" where
  "recent_history c =
     map (\<lambda>m. \<lparr>he_messageId = messageId m, he_retrievalHint = retrievalHint m,
               he_senderId = Some (senderId m)\<rparr>)
       (history_slice (- causalHistorySize c) (localHistory c))"

definition pushOutgoingSyncMessage ::
  "nat \<Rightarrow> string \<Rightarrow> channel \<Rightarrow> bool_callback option \<Rightarrow> (channel, bool) call" where
  "pushOutgoingSyncMessage now random c0 callback =
     (let (c, repairRequests) =
            take_repair_requests now (c0\<lparr>lamport := lamportTimestampIncrement now (lamport c0)\<rparr>);
          message = SyncMessage (''sync-'' @ random) (ch_channelId c) (ch_senderId c)
            (recent_history c) (lamport c) (Some (bloom_toBytes (bloom_filter c))) repairRequests
      in if causalHistory message = [] \<and> repairRequests = [] then returns c False
         else case callback of
                None \<Rightarrow> returns c True
              | Some f \<Rightarrow>
                  (case f message of
                     Inl e \<Rightarrow> throws c e
                   | Inr _ \<Rightarrow>
                       let c1 = safeSendEvent c (OutSyncSent message);
                           c2 = (if repairRequests \<noteq> []
                                 then safeSendEvent c1 (RepairRequestSent
                                        (map he_messageId repairRequests) (messageId message))
                                 else c1)
                       in returns c2 True))"

text \<open>
  The send handler up to its \<open>await\<close>: the message to hand to the callback, found in the outgoing
  buffer (a retry) or new.
\<close>

definition push_outgoing_begin :: "host \<Rightarrow> nat \<Rightarrow> channel \<Rightarrow> bytes \<Rightarrow> (channel, message) call" where
  "push_outgoing_begin host now c0 payload =
     (let c = c0\<lparr>lamport := lamportTimestampIncrement now (lamport c0)\<rparr>;
          mid = getMessageId host payload
      in case find (\<lambda>m. messageId m = mid) (outgoingBuffer c) of
           Some m \<Rightarrow> returns c m
         | None \<Rightarrow>
             (let (c1, repairRequests) = take_repair_requests now c
              in case ContentMessage mid (ch_channelId c1) (ch_senderId c1) (recent_history c1)
                        (lamport c1) (Some (bloom_toBytes (bloom_filter c1))) payload repairRequests of
                   Inl e \<Rightarrow> throws c1 e
                 | Inr m \<Rightarrow> returns (c1\<lparr>outgoingBuffer := outgoingBuffer c1 @ [m]\<rparr>) m))"

definition same_object :: "message \<Rightarrow> message \<Rightarrow> bool" where
  "same_object a b \<longleftrightarrow> messageId a = messageId b \<and> senderId a = senderId b
     \<and> lamportTimestamp a = lamportTimestamp b"

definition set_hint :: "message \<Rightarrow> bytes option \<Rightarrow> channel \<Rightarrow> channel" where
  "set_hint m hint c =
     (let upd = map (\<lambda>x. if same_object x m then x\<lparr>retrievalHint := hint\<rparr> else x)
      in c\<lparr>outgoingBuffer := upd (outgoingBuffer c),
           localHistory := (localHistory c)\<lparr>items := upd (items (localHistory c))\<rparr>\<rparr>)"

text \<open>The send handler after the \<open>await\<close>, with what the callback's promise resolved to.\<close>

definition push_outgoing_finish ::
  "host \<Rightarrow> nat \<Rightarrow> channel \<Rightarrow> message \<Rightarrow> bool \<Rightarrow> bytes option \<Rightarrow> (channel, unit) call" where
  "push_outgoing_finish host now c m success hint =
     (if success \<and> isContentMessage m
      then let m1 = m\<lparr>retrievalHint := hint\<rparr>; c1 = set_hint m hint c
           in (case bloom_insert (h_hashN host) (bloom_filter c1) (messageId m) of
                 (bf, Inl e) \<Rightarrow> throws (c1\<lparr>bloom_filter := bf\<rparr>) e
               | (bf, Inr _) \<Rightarrow>
                   (case history_push (h_collate host) (localHistory c1) [m1] of
                      (h, Inl e) \<Rightarrow> throws (c1\<lparr>bloom_filter := bf, localHistory := h\<rparr>) e
                    | (h, Inr _) \<Rightarrow>
                        returns (safeSendEvent
                          (c1\<lparr>bloom_filter := bf, localHistory := h,
                              timeReceived := (timeReceived c1)(messageId m \<mapsto> now)\<rparr>)
                          (OutMessageSent m1)) ()))
      else returns c ())"

text \<open>\<open>now\<close> is the clock before the \<open>await\<close>, \<open>later\<close> the clock after it.\<close>

definition push_outgoing ::
  "host \<Rightarrow> nat \<Rightarrow> nat \<Rightarrow> channel \<Rightarrow> bytes \<Rightarrow> send_callback option \<Rightarrow> (channel, unit) call" where
  "push_outgoing host now later c payload callback =
     then_do (push_outgoing_begin host now c payload) (\<lambda>c1 m.
       case callback of
         None \<Rightarrow> returns c1 ()
       | Some f \<Rightarrow>
           (case f m of
              Inl e \<Rightarrow> throws c1 e
            | Inr (success, hint) \<Rightarrow> push_outgoing_finish host later c1 m success hint))"

definition push_outgoing_ephemeral ::
  "host \<Rightarrow> channel \<Rightarrow> bytes \<Rightarrow> bool_callback option \<Rightarrow> (channel, unit) call" where
  "push_outgoing_ephemeral host c payload callback =
     (case EphemeralMessage (getMessageId host payload) (ch_channelId c) (ch_senderId c) [] None
             payload [] of
        Inl e \<Rightarrow> throws c e
      | Inr m \<Rightarrow>
          (case callback of
             None \<Rightarrow> returns c ()
           | Some f \<Rightarrow> (case f m of Inl e \<Rightarrow> throws c e | Inr _ \<Rightarrow> returns c ())))"

section \<open>Acknowledgements\<close>

fun ack_by_history :: "history_entry list \<Rightarrow> channel \<Rightarrow> channel" where
  "ack_by_history [] c = c"
| "ack_by_history (e # es) c =
     (let (acked, kept) = partition (\<lambda>m. messageId m = he_messageId e) (outgoingBuffer c)
      in ack_by_history es
           (c\<lparr>outgoingBuffer := kept,
              emitted := emitted c @ map (\<lambda>m. OutMessageAcknowledged (messageId m)) acked\<rparr>))"

text \<open>
  The filter over the outgoing buffer with a received bloom filter: the messages still to visit and
  the ones kept so far. The buffer itself is replaced only when the whole loop has run.
\<close>

fun ack_by_bloom ::
  "hash_fun \<Rightarrow> bloom \<Rightarrow> message list \<Rightarrow> message list \<Rightarrow> channel \<Rightarrow> (channel, message list) call" where
  "ack_by_bloom hashN bf [] kept c = returns c kept"
| "ack_by_bloom hashN bf (m # ms) kept c =
     (case bloom_lookup hashN bf (messageId m) of
        Inl e \<Rightarrow> throws c e
      | Inr False \<Rightarrow> ack_by_bloom hashN bf ms (kept @ [m]) c
      | Inr True \<Rightarrow>
          (let mid = messageId m; count = or_default 0 (possibleAcks c mid) + 1
           in if int count < possibleAcksThreshold c
              then ack_by_bloom hashN bf ms (kept @ [m])
                     (safeSendEvent (c\<lparr>possibleAcks := (possibleAcks c)(mid \<mapsto> count)\<rparr>)
                        (OutMessagePossiblyAcknowledged mid count))
              else ack_by_bloom hashN bf ms kept
                     (safeSendEvent (c\<lparr>possibleAcks := (possibleAcks c)(mid := None)\<rparr>)
                        (OutMessageAcknowledged mid))))"

definition reviewAckStatus :: "host \<Rightarrow> channel \<Rightarrow> message \<Rightarrow> (channel, unit) call" where
  "reviewAckStatus host c m =
     (let c1 = ack_by_history (causalHistory m) c
      in case bloomFilter m of
           None \<Rightarrow> returns c1 ()
         | Some bs \<Rightarrow>
             (case bloom_fromBytes bs (options (bloom_filter c1)) of
                Inl e \<Rightarrow> throws c1 e
              | Inr bf \<Rightarrow>
                  then_do (ack_by_bloom (h_hashN host) bf (outgoingBuffer c1) [] c1)
                    (\<lambda>c2 kept. returns (c2\<lparr>outgoingBuffer := kept\<rparr>) ())))"

section \<open>Receiving\<close>

text \<open>The call of a method of the optional repair manager.\<close>

definition with_repair ::
  "(repair_manager \<Rightarrow> (repair_manager, unit) call) \<Rightarrow> channel \<Rightarrow> (channel, unit) call" where
  "with_repair f c =
     (case repairManager c of
        None \<Rightarrow> returns c ()
      | Some rm \<Rightarrow> (case f rm of (rm', r) \<Rightarrow> (c\<lparr>repairManager := Some rm'\<rparr>, r)))"

definition receive_repair_requests :: "host \<Rightarrow> nat \<Rightarrow> channel \<Rightarrow> message \<Rightarrow> (channel, unit) call" where
  "receive_repair_requests host now c m =
     (if repairRequest m = [] then returns c ()
      else with_repair (\<lambda>rm. processIncomingRepairRequests (h_sha256 host) rm (repairRequest m)
                              (localHistory c) (int now))
             (safeSendEvent c (RepairRequestReceived (map he_messageId (repairRequest m)) (senderId m))))"

definition filter_insert :: "host \<Rightarrow> channel \<Rightarrow> string \<Rightarrow> (channel, unit) call" where
  "filter_insert host c mid =
     (case bloom_insert (h_hashN host) (bloom_filter c) mid of (bf, r) \<Rightarrow> (c\<lparr>bloom_filter := bf\<rparr>, r))"

definition is_duplicate :: "channel \<Rightarrow> message \<Rightarrow> bool" where
  "is_duplicate c m \<longleftrightarrow>
     (case content m of None \<Rightarrow> False | Some x \<Rightarrow> x \<noteq> []) \<and> timeReceived c (messageId m) \<noteq> None"

text \<open>What is left to do once the message is known to be neither dropped nor ephemeral.\<close>

definition await_or_deliver :: "host \<Rightarrow> nat \<Rightarrow> channel \<Rightarrow> message \<Rightarrow> (channel, unit) call" where
  "await_or_deliver host now c m =
     (let missing = missingDependencies c m
      in if missing \<noteq> []
         then then_do (with_repair (\<lambda>rm. markDependenciesMissing (h_sha256 host) rm missing (int now))
                (c\<lparr>incomingBuffer := incomingBuffer c @ [m],
                   timeReceived := (timeReceived c)(messageId m \<mapsto> now)\<rparr>)) (\<lambda>c1 _.
              returns (safeSendEvent c1 (InMessageMissing missing)) ())
         else deliver_and_emit host c m)"

definition push_incoming :: "host \<Rightarrow> nat \<Rightarrow> channel \<Rightarrow> message \<Rightarrow> (channel, unit) call" where
  "push_incoming host now c m =
     (if channelId m \<noteq> ch_channelId c then returns c ()
      else if is_duplicate c m then returns c ()
      else if ch_senderId c = senderId m then returns c ()
      else if isEphemeralMessage m then returns c ()
      else if \<not> isSyncMessage m \<and> \<not> isContentMessage m then returns c ()
      else let c1 = safeSendEvent c (if isSyncMessage m then InSyncReceived m else InMessageReceived m)
           in then_do (with_repair (\<lambda>rm. returns (markMessageReceived rm (messageId m)) ()) c1) (\<lambda>c2 _.
              then_do (receive_repair_requests host now c2 m) (\<lambda>c3 _.
              then_do (reviewAckStatus host c3 m) (\<lambda>c4 _.
              then_do (if isContentMessage m then filter_insert host c4 (messageId m)
                       else returns c4 ()) (\<lambda>c5 _.
              await_or_deliver host now c5 m)))))"

section \<open>Tasks\<close>

definition run_handler :: "host \<Rightarrow> nat \<Rightarrow> nat \<Rightarrow> channel \<Rightarrow> task \<Rightarrow> (channel, unit) call" where
  "run_handler host now later c item =
     (case item of
        Send payload callback \<Rightarrow> push_outgoing host now later c payload callback
      | Receive m \<Rightarrow> push_incoming host now c m
      | SendEphemeral payload callback \<Rightarrow> push_outgoing_ephemeral host c payload callback)"

definition executeTask :: "host \<Rightarrow> nat \<Rightarrow> nat \<Rightarrow> channel \<Rightarrow> task \<Rightarrow> channel" where
  "executeTask host now later c item =
     (case run_handler host now later c item of
        (c1, Inr _) \<Rightarrow> c1
      | (c1, Inl e) \<Rightarrow>
          safeSendEvent (safeSendEvent c1 (TaskError (task_command item) e)) (ErrorTask (task_command item) e))"

section \<open>What every operation keeps\<close>

text \<open>
  No operation but the queueing ones touches the task queue or the configuration, the logical clock
  never goes back and no event is taken back.
\<close>

definition extends :: "channel \<Rightarrow> channel \<Rightarrow> bool" where
  "extends c c' \<longleftrightarrow> ch_channelId c' = ch_channelId c \<and> ch_senderId c' = ch_senderId c
     \<and> causalHistorySize c' = causalHistorySize c
     \<and> possibleAcksThreshold c' = possibleAcksThreshold c
     \<and> timeoutForLostMessagesMs c' = timeoutForLostMessagesMs c
     \<and> tasks c' = tasks c \<and> lamport c \<le> lamport c' \<and> (\<exists>es. emitted c' = emitted c @ es)"

lemma extends_refl [simp]: "extends c c"
  by (simp add: extends_def)

lemma extends_trans [trans]: "extends a b \<Longrightarrow> extends b c \<Longrightarrow> extends a c"
  by (auto simp: extends_def)

lemma extends_event [simp]: "extends c (safeSendEvent c e)"
  by (simp add: extends_def safeSendEvent_def)

lemma extends_update [simp]:
  "extends c (c\<lparr>bloom_filter := x1\<rparr>)" "extends c (c\<lparr>outgoingBuffer := x2\<rparr>)"
  "extends c (c\<lparr>possibleAcks := x3\<rparr>)" "extends c (c\<lparr>incomingBuffer := x4\<rparr>)"
  "extends c (c\<lparr>localHistory := x5\<rparr>)" "extends c (c\<lparr>timeReceived := x6\<rparr>)"
  "extends c (c\<lparr>repairManager := x7\<rparr>)" "extends c (c\<lparr>emitted := emitted c @ es\<rparr>)"
  by (simp_all add: extends_def)

lemma extends_then_do:
  "extends c (fst r) \<Longrightarrow> (\<And>c' a. r = (c', Inr a) \<Longrightarrow> extends c' (fst (f c' a))) \<Longrightarrow>
    extends c (fst (then_do r f))"
  by (cases r; cases "snd r") (auto intro: extends_trans)

lemma lamportTimestampIncrement_gt: "t < lamportTimestampIncrement now t"
  by (simp add: lamportTimestampIncrement_def)

lemma extends_clock [simp]: "lamport c \<le> t \<Longrightarrow> extends c (c\<lparr>lamport := t\<rparr>)"
  by (simp add: extends_def)

lemma deliver_and_emit_extends: "extends c (fst (deliver_and_emit host c m))"
proof -
  have "extends c (fst (deliverMessage host c m))"
    by (simp add: deliverMessage_def Let_def extends_def split: option.splits prod.splits sum.splits)
  then show ?thesis unfolding deliver_and_emit_def by (auto intro!: extends_then_do)
qed

lemma ack_by_history_extends: "extends c (ack_by_history es c)"
proof (induction es arbitrary: c)
  case (Cons e es)
  show ?case
    by (simp add: Let_def) (rule extends_trans[OF _ Cons.IH], simp add: extends_def)
qed simp

lemma ack_by_bloom_extends: "extends c (fst (ack_by_bloom hashN bf ms kept c))"
proof (induction ms arbitrary: kept c)
  case (Cons m ms)
  have e: "extends c (safeSendEvent (c\<lparr>possibleAcks := p\<rparr>) ev)" for p ev
    by (simp add: extends_def safeSendEvent_def)
  show ?case
    by (simp add: Let_def Cons.IH extends_trans[OF e Cons.IH] split: sum.split bool.split)
qed simp

lemma reviewAckStatus_extends: "extends c (fst (reviewAckStatus host c m))"
proof -
  let ?c = "ack_by_history (causalHistory m) c"
  have "extends ?c (fst (reviewAckStatus host c m))"
    unfolding reviewAckStatus_def Let_def
    by (simp add: ack_by_bloom_extends extends_then_do split: option.split sum.split)
  then show ?thesis by (rule extends_trans[OF ack_by_history_extends])
qed

lemma with_repair_extends: "extends c (fst (with_repair f c))"
  by (simp add: with_repair_def split: option.splits prod.splits)

lemma await_or_deliver_extends: "extends c (fst (await_or_deliver host now c m))"
proof -
  let ?c = "c\<lparr>incomingBuffer := incomingBuffer c @ [m], timeReceived := (timeReceived c)(messageId m \<mapsto> now)\<rparr>"
  have "extends c ?c" by (simp add: extends_def)
  then have "extends c (fst (with_repair f ?c))" for f
    by (rule extends_trans[OF _ with_repair_extends])
  then show ?thesis unfolding await_or_deliver_def Let_def
    by (auto simp: deliver_and_emit_extends intro!: extends_then_do)
qed

lemma receive_repair_requests_extends: "extends c (fst (receive_repair_requests host now c m))"
  unfolding receive_repair_requests_def
  by (simp add: extends_trans[OF extends_event with_repair_extends])

lemma filter_insert_extends: "extends c (fst (filter_insert host c mid))"
  by (simp add: filter_insert_def split: prod.splits)

lemma push_incoming_extends: "extends c (fst (push_incoming host now c m))"
  unfolding push_incoming_def Let_def
  by (auto intro!: extends_then_do await_or_deliver_extends reviewAckStatus_extends
      receive_repair_requests_extends filter_insert_extends
      extends_trans[OF extends_event with_repair_extends])

lemma take_repair_requests_extends: "extends c (fst (take_repair_requests now c))"
  by (simp add: take_repair_requests_def split: option.splits prod.splits)

lemma push_outgoing_begin_extends:
  "extends c (fst (push_outgoing_begin host now c p))"
  "lamport c < lamport (fst (push_outgoing_begin host now c p))"
proof -
  let ?c = "c\<lparr>lamport := lamportTimestampIncrement now (lamport c)\<rparr>"
  have "extends ?c (fst (push_outgoing_begin host now c p))"
    using take_repair_requests_extends[of ?c now]
    by (auto simp: push_outgoing_begin_def Let_def split: option.splits prod.splits sum.splits
        intro: extends_trans)
  moreover have "extends c ?c" "lamport c < lamport ?c"
    using lamportTimestampIncrement_gt[of "lamport c" now] by simp_all
  ultimately show "extends c (fst (push_outgoing_begin host now c p))"
    "lamport c < lamport (fst (push_outgoing_begin host now c p))"
    by (auto intro: extends_trans simp: extends_def)
qed

lemma push_outgoing_finish_extends: "extends c (fst (push_outgoing_finish host now c m s h))"
  by (simp add: push_outgoing_finish_def Let_def set_hint_def extends_def safeSendEvent_def
      split: prod.splits sum.splits)

lemma push_outgoing_extends:
  "extends c (fst (push_outgoing host now later c p cb))"
  "lamport c < lamport (fst (push_outgoing host now later c p cb))"
proof -
  obtain c1 r where b: "push_outgoing_begin host now c p = (c1, r)" by fastforce
  have "extends c1 (fst (push_outgoing host now later c p cb))"
    unfolding push_outgoing_def b
    by (cases r) (auto simp: push_outgoing_finish_extends split: option.splits sum.splits)
  with push_outgoing_begin_extends[of c host now p] b
  show "extends c (fst (push_outgoing host now later c p cb))"
    "lamport c < lamport (fst (push_outgoing host now later c p cb))"
    by (auto intro: extends_trans simp: extends_def)
qed

lemma push_outgoing_ephemeral_state: "fst (push_outgoing_ephemeral host c p cb) = c"
  by (simp add: push_outgoing_ephemeral_def split: option.splits sum.splits)

lemma executeTask_extends: "extends c (executeTask host now later c item)"
proof -
  have "extends c (fst (run_handler host now later c item))"
    by (cases item) (simp_all add: run_handler_def push_outgoing_extends push_incoming_extends
        push_outgoing_ephemeral_state)
  then show ?thesis
    by (cases "run_handler host now later c item"; cases "snd (run_handler host now later c item)")
      (auto simp: executeTask_def extends_def safeSendEvent_def)
qed

section \<open>The queue\<close>

text \<open>
  The loop of \<open>processTasks\<close>: every pass takes the oldest task. \<open>clock\<close> gives the clock readings and
  \<open>k\<close> counts the tasks run.
\<close>

function processTasks :: "host \<Rightarrow> (nat \<Rightarrow> nat) \<Rightarrow> nat \<Rightarrow> channel \<Rightarrow> channel" where
  "processTasks host clock k c =
     (case tasks c of
        [] \<Rightarrow> c
      | item # rest \<Rightarrow>
          processTasks host clock (Suc k)
            (executeTask host (clock (2 * k)) (clock (2 * k + 1)) (c\<lparr>tasks := rest\<rparr>) item))"
  by auto

termination
proof (relation "measure (\<lambda>(host, clock, k, c). length (tasks c))")
  fix host :: host and clock :: "nat \<Rightarrow> nat" and k :: nat and c :: channel and item rest
  assume "tasks c = item # rest"
  moreover have "tasks (executeTask host (clock (2 * k)) (clock (2 * k + 1)) (c\<lparr>tasks := rest\<rparr>) item)
      = rest"
    using executeTask_extends[of "c\<lparr>tasks := rest\<rparr>"] by (simp add: extends_def)
  ultimately show "((host, clock, Suc k,
      executeTask host (clock (2 * k)) (clock (2 * k + 1)) (c\<lparr>tasks := rest\<rparr>) item), host, clock, k, c)
      \<in> measure (\<lambda>(host, clock, k, c). length (tasks c))" by simp
qed simp

declare processTasks.simps [simp del]

end
