(* ===== verification/Channel_Invariant.thy ===== *)
theory Channel_Invariant
  imports Message_Channel "HOL-Library.Sublist"
begin

text \<open>
  The invariant of a message channel, with every operation of \<open>Message_Channel\<close> keeping it whether
  it returns or throws, and the properties of the channel that rest on it. The lemmas are proved
  for any host whose filter hash stays in range, and used for the host of the code, whose hash is
  the one of \<open>nim_hashn.mjs\<close>.
\<close>

section \<open>The invariant\<close>

definition in_filter :: "host \<Rightarrow> channel \<Rightarrow> string \<Rightarrow> bool" where
  "in_filter host c mid \<longleftrightarrow> bloom_lookup (h_hashN host) (bloom_filter c) mid = Inr True"

text \<open>The message has a timestamp, and a clock at \<open>l\<close> has reached it.\<close>

definition not_after :: "nat \<Rightarrow> message \<Rightarrow> bool" where
  "not_after l m \<longleftrightarrow> (case lamportTimestamp m of None \<Rightarrow> False | Some t \<Rightarrow> t \<le> l)"

lemma not_after_mono: "not_after l m \<Longrightarrow> l \<le> l' \<Longrightarrow> not_after l' m"
  by (auto simp: not_after_def split: option.splits)

definition outgoing_ok :: "channel \<Rightarrow> bool" where
  "outgoing_ok c \<longleftrightarrow> distinct (map messageId (outgoingBuffer c))
     \<and> (\<forall>m\<in>set (outgoingBuffer c). isContentMessage m \<and> senderId m = ch_senderId c
          \<and> channelId m = ch_channelId c \<and> not_after (lamport c) m)"

definition history_ok :: "host \<Rightarrow> channel \<Rightarrow> bool" where
  "history_ok host c \<longleftrightarrow> history_inv (localHistory c)
     \<and> (\<forall>m\<in>set (items (localHistory c)). not_after (lamport c) m \<and> in_filter host c (messageId m))"

definition incoming_ok :: "host \<Rightarrow> channel \<Rightarrow> bool" where
  "incoming_ok host c \<longleftrightarrow>
     (\<forall>m\<in>set (incomingBuffer c). senderId m \<noteq> ch_senderId c \<and> channelId m = ch_channelId c
        \<and> timeReceived c (messageId m) \<noteq> None
        \<and> (isSyncMessage m \<or> isContentMessage m \<and> in_filter host c (messageId m)))"

definition acks_ok :: "channel \<Rightarrow> bool" where
  "acks_ok c \<longleftrightarrow>
     (\<forall>mid n. possibleAcks c mid = Some n \<longrightarrow> 0 < n \<and> int n < possibleAcksThreshold c)"

definition repairs_ok :: "channel \<Rightarrow> bool" where
  "repairs_ok c \<longleftrightarrow>
     (case repairManager c of None \<Rightarrow> True | Some rm \<Rightarrow> repair_inv rm \<and> config_ok (config rm))"

definition channel_inv :: "host \<Rightarrow> channel \<Rightarrow> bool" where
  "channel_inv host c \<longleftrightarrow> default_filter_ok (bloom_filter c) \<and> outgoing_ok c \<and> history_ok host c
     \<and> incoming_ok host c \<and> acks_ok c \<and> repairs_ok c"

lemmas channel_defs = channel_inv_def outgoing_ok_def history_ok_def incoming_ok_def acks_ok_def
  repairs_ok_def in_filter_def

lemma inv_event [simp]: "channel_inv host (safeSendEvent c e) = channel_inv host c"
  by (simp add: channel_defs safeSendEvent_def)

lemma in_filter_event [simp]: "in_filter host (safeSendEvent c e) mid = in_filter host c mid"
  by (simp add: in_filter_def safeSendEvent_def)

lemma inv_emitted [simp]: "channel_inv host (c\<lparr>emitted := es\<rparr>) = channel_inv host c"
  by (simp add: channel_defs)

lemma inv_tasks [simp]: "channel_inv host (c\<lparr>tasks := ts\<rparr>) = channel_inv host c"
  by (simp add: channel_defs)

lemma inv_clock: "channel_inv host c \<Longrightarrow> lamport c \<le> t \<Longrightarrow> channel_inv host (c\<lparr>lamport := t\<rparr>)"
  by (auto simp: channel_defs intro: not_after_mono)

lemma inv_history_push:
  assumes "channel_inv host c" and "not_after (lamport c) m" and "in_filter host c (messageId m)"
  shows "channel_inv host (c\<lparr>localHistory := fst (history_push collate (localHistory c) [m])\<rparr>)"
proof -
  have "history_inv (fst (history_push collate (localHistory c) [m]))"
    using assms(1) by (intro history_push_inv) (simp add: channel_inv_def history_ok_def)
  moreover have "set (items (fst (history_push collate (localHistory c) [m])))
      \<subseteq> insert m (set (items (localHistory c)))"
    using history_push_set[of collate "localHistory c" "[m]"] by simp
  ultimately show ?thesis using assms
    by (simp add: channel_defs) (metis insertE subsetD)
qed

lemma with_repair_inv:
  assumes "channel_inv host c"
    and "\<And>rm. repair_inv rm \<Longrightarrow> config_ok (config rm) \<Longrightarrow>
      \<exists>rm'. f rm = (rm', Inr ()) \<and> repair_inv rm' \<and> config_ok (config rm')"
  shows "\<exists>r. with_repair f c = (c\<lparr>repairManager := r\<rparr>, Inr ()) \<and> channel_inv host (c\<lparr>repairManager := r\<rparr>)"
proof (cases "repairManager c")
  case None
  with assms(1) show ?thesis
    by (intro exI[of _ None]) (simp add: with_repair_def returns_def channel_defs)
next
  case (Some rm)
  with assms(1) have "repair_inv rm" "config_ok (config rm)"
    by (simp_all add: channel_inv_def repairs_ok_def)
  from assms(2)[OF this] obtain rm' where "f rm = (rm', Inr ())" "repair_inv rm'" "config_ok (config rm')"
    by blast
  with Some assms(1) show ?thesis
    by (intro exI[of _ "Some rm'"]) (simp add: with_repair_def channel_defs)
qed

lemma inv_incoming_subset:
  "channel_inv host c \<Longrightarrow> set buffer \<subseteq> set (incomingBuffer c) \<Longrightarrow> channel_inv host (c\<lparr>incomingBuffer := buffer\<rparr>)"
  by (auto simp: channel_defs)

lemma inv_outgoing_sublist:
  assumes "channel_inv host c" and "set buffer \<subseteq> set (outgoingBuffer c)" "distinct (map messageId buffer)"
  shows "channel_inv host (c\<lparr>outgoingBuffer := buffer\<rparr>)"
  using assms by (auto simp: channel_defs)

section \<open>Delivery and sweeping\<close>

lemma deliverMessage_inv:
  assumes "channel_inv host c" and "isContentMessage m" and "in_filter host c (messageId m)"
  shows "\<exists>c'. deliverMessage host c m = (c', Inr True) \<and> channel_inv host c' \<and> not_after (lamport c') m
    \<and> bloom_filter c' = bloom_filter c \<and> incomingBuffer c' = incomingBuffer c
    \<and> timeReceived c' = timeReceived c \<and> emitted c' = emitted c
    \<and> history_ids (localHistory c') \<subseteq> insert (messageId m) (history_ids (localHistory c))
    \<and> (length (items (localHistory c)) < maxLength (localHistory c) \<longrightarrow>
         history_ids (localHistory c') = insert (messageId m) (history_ids (localHistory c)))"
proof -
  obtain t where t: "lamportTimestamp m = Some t"
    using assms(2) by (auto simp: message_tests)
  define c1 where "c1 = (if t > lamport c then c\<lparr>lamport := t\<rparr> else c)"
  have c1: "channel_inv host c1" "not_after (lamport c1) m" "in_filter host c1 (messageId m)"
    using assms inv_clock[OF assms(1)] t by (auto simp: c1_def not_after_def in_filter_def)
  have same: "bloom_filter c1 = bloom_filter c" "incomingBuffer c1 = incomingBuffer c"
    "timeReceived c1 = timeReceived c" "emitted c1 = emitted c" "localHistory c1 = localHistory c"
    by (simp_all add: c1_def)
  show ?thesis
  proof (cases "history_find (\<lambda>x. messageId x = messageId m) (localHistory c1)")
    case None
    obtain h n where h: "history_push (h_collate host) (localHistory c1) [m] = (h, Inr n)"
      using mem_history.push_one[OF assms(2)] by blast
    with None t assms(2) have "deliverMessage host c m = (c1\<lparr>localHistory := h\<rparr>, Inr True)"
      by (simp add: deliverMessage_def c1_def[symmetric] returns_def)
    with inv_history_push[OF c1, of "h_collate host"] h c1(2) same mem_history.push_one_subset[OF h]
      mem_history.push_one_ids[OF assms(2) _ h] show ?thesis by simp
  next
    case (Some x)
    with t assms(2) have "deliverMessage host c m = (c1, Inr True)"
      by (simp add: deliverMessage_def c1_def[symmetric] returns_def)
    with c1 same history_find_Some[OF Some] show ?thesis by auto
  qed
qed

lemma deliver_and_emit_inv:
  assumes "channel_inv host c" and "isSyncMessage m \<or> isContentMessage m \<and> in_filter host c (messageId m)"
  shows "\<exists>c'. deliver_and_emit host c m = (c', Inr ()) \<and> channel_inv host c'
    \<and> bloom_filter c' = bloom_filter c \<and> incomingBuffer c' = incomingBuffer c
    \<and> timeReceived c' = timeReceived c
    \<and> emitted c' = emitted c @ (if isContentMessage m then [InMessageDelivered (messageId m)] else [])
    \<and> (isContentMessage m \<longrightarrow> not_after (lamport c') m)
    \<and> history_ids (localHistory c') \<subseteq> insert (messageId m) (history_ids (localHistory c))
    \<and> (isContentMessage m \<and> length (items (localHistory c)) < maxLength (localHistory c) \<longrightarrow>
         history_ids (localHistory c') = insert (messageId m) (history_ids (localHistory c)))"
proof (cases "isContentMessage m")
  case True
  with assms(2) have "in_filter host c (messageId m)" by (auto dest: content_not_sync)
  from deliverMessage_inv[OF assms(1) True this] True show ?thesis
    by (auto simp: deliver_and_emit_def returns_def safeSendEvent_def)
next
  case False
  with assms(1) show ?thesis by (simp add: deliver_and_emit_def returns_def) blast
qed

text \<open>One pass over the incoming buffer: the sublist that is kept, the missing entries it reports and
  the events.\<close>

definition sweep_result ::
  "host \<Rightarrow> nat \<Rightarrow> channel \<Rightarrow> message list \<Rightarrow> channel \<Rightarrow> message list \<Rightarrow> history_entry list \<Rightarrow> bool" where
  "sweep_result host now c ms c' buf mis \<longleftrightarrow>
     channel_inv host c' \<and> incomingBuffer c' = incomingBuffer c \<and> subseq buf ms
     \<and> (\<forall>m\<in>set buf. \<not> is_lost now c m)
     \<and> (\<exists>es. emitted c' = emitted c @ es
          \<and> (\<forall>m\<in>set ms. m \<notin> set buf \<and> isContentMessage m \<longrightarrow> InMessageDelivered (messageId m) \<in> set es))
     \<and> (\<forall>m\<in>set buf. \<exists>e\<in>set (causalHistory m). e \<in> set mis)
     \<and> (\<forall>e\<in>set mis. he_messageId e \<notin> messageId ` set (incomingBuffer c))"

lemma missingDependencies_incoming:
  "e \<in> set (missingDependencies c m) \<Longrightarrow> he_messageId e \<notin> messageId ` set (incomingBuffer c)"
  by (auto simp: missingDependencies_def isMessageAvailable_def list_ex_iff split: if_splits)

lemma is_lost_cong:
  "timeoutForLostMessagesMs c' = timeoutForLostMessagesMs c \<Longrightarrow> timeReceived c' = timeReceived c \<Longrightarrow>
    is_lost now c' = is_lost now c"
  by (rule ext) (simp add: is_lost_def cong: option.case_cong)

lemma is_lost_event [simp]: "is_lost now (safeSendEvent c e) = is_lost now c"
  by (rule is_lost_cong) (simp_all add: safeSendEvent_def)

lemma sweep_result_keep:
  assumes "sweep_result host now c ms c' buf mis" and "missingDependencies c m \<noteq> []" "\<not> is_lost now c m"
  shows "sweep_result host now c (m # ms) c' (m # buf) (missingDependencies c m @ mis)"
proof -
  obtain e where "e \<in> set (missingDependencies c m)" using assms(2) by (metis ex_in_conv set_empty)
  moreover from this have "e \<in> set (causalHistory m)" by (simp add: missingDependencies_def)
  ultimately show ?thesis using assms(1,3) missingDependencies_incoming[of _ c m]
    by (auto simp: sweep_result_def)
qed

lemma sweep_result_deliver:
  assumes "sweep_result host now c1 ms c' buf mis" and "incomingBuffer c1 = incomingBuffer c"
    and "is_lost now c1 = is_lost now c"
    and "emitted c1 = emitted c @ es @ (if isContentMessage m then [InMessageDelivered (messageId m)] else [])"
  shows "sweep_result host now c (m # ms) c' buf mis"
  using assms by (auto simp: sweep_result_def)

lemma sweep_loop_spec:
  "channel_inv host c \<Longrightarrow> set ms \<subseteq> set (incomingBuffer c) \<Longrightarrow>
   \<exists>c' buf mis. sweep_loop host now ms c b0 m0 = (c', Inr (b0 @ buf, m0 @ mis))
     \<and> sweep_result host now c ms c' buf mis"
proof (induction ms arbitrary: c b0 m0)
  case Nil
  then show ?case by (auto simp: returns_def sweep_result_def)
next
  case (Cons m ms)
  have m: "isSyncMessage m \<or> isContentMessage m \<and> in_filter host c (messageId m)"
    using Cons.prems by (auto simp: channel_inv_def incoming_ok_def)
  have deliver: "\<exists>c' buf mis. then_do (deliver_and_emit host c0 m)
        (\<lambda>c1 _. sweep_loop host now ms c1 b0 m0) = (c', Inr (b0 @ buf, m0 @ mis))
      \<and> sweep_result host now c (m # ms) c' buf mis"
    if c0: "channel_inv host c0" "bloom_filter c0 = bloom_filter c" "incomingBuffer c0 = incomingBuffer c"
      "is_lost now c0 = is_lost now c" "emitted c0 = emitted c @ es" for c0 es
  proof -
    have "isSyncMessage m \<or> isContentMessage m \<and> in_filter host c0 (messageId m)"
      using m c0(2) by (simp add: in_filter_def)
    from deliver_and_emit_inv[OF c0(1) this] c0 obtain c1 where
      c1: "deliver_and_emit host c0 m = (c1, Inr ())" "channel_inv host c1"
        "incomingBuffer c1 = incomingBuffer c"
        "emitted c1 = emitted c @ es @ (if isContentMessage m then [InMessageDelivered (messageId m)] else [])"
        "timeReceived c1 = timeReceived c0"
      by auto
    have "extends c0 c1" using deliver_and_emit_extends[of c0 host m] c1(1) by simp
    then have "is_lost now c1 = is_lost now c"
      using is_lost_cong[of c1 c0 now] c1(5) c0(4) by (simp add: extends_def)
    note c1 = c1(1-4) this
    have "set ms \<subseteq> set (incomingBuffer c1)" using Cons.prems c1(3) by simp
    from Cons.IH[OF c1(2) this] obtain c' buf mis where
      "sweep_loop host now ms c1 b0 m0 = (c', Inr (b0 @ buf, m0 @ mis))"
      "sweep_result host now c1 ms c' buf mis" by blast
    with c1 sweep_result_deliver[of host now c1 ms c' buf mis c es m] show ?thesis by simp
  qed
  have keep: "\<exists>c' buf mis. sweep_loop host now ms c (b0 @ [m]) (m0 @ missingDependencies c m)
        = (c', Inr (b0 @ buf, m0 @ mis)) \<and> sweep_result host now c (m # ms) c' buf mis"
    if "missingDependencies c m \<noteq> []" "\<not> is_lost now c m"
  proof -
    have "set ms \<subseteq> set (incomingBuffer c)" using Cons.prems by simp
    from Cons.IH[OF Cons.prems(1) this] obtain c' buf mis where
      "sweep_loop host now ms c (b0 @ [m]) (m0 @ missingDependencies c m)
        = (c', Inr ((b0 @ [m]) @ buf, (m0 @ missingDependencies c m) @ mis))"
      "sweep_result host now c ms c' buf mis" by blast
    with sweep_result_keep[OF _ that] show ?thesis by fastforce
  qed
  have "\<exists>c' buf mis. then_do (deliver_and_emit host (safeSendEvent c e) m)
        (\<lambda>c1 _. sweep_loop host now ms c1 b0 m0) = (c', Inr (b0 @ buf, m0 @ mis))
      \<and> sweep_result host now c (m # ms) c' buf mis" for e
    using Cons.prems(1) by (intro deliver[of _ "[e]"]) (simp_all, simp_all add: safeSendEvent_def)
  moreover have "\<exists>c' buf mis. then_do (deliver_and_emit host c m)
        (\<lambda>c1 _. sweep_loop host now ms c1 b0 m0) = (c', Inr (b0 @ buf, m0 @ mis))
      \<and> sweep_result host now c (m # ms) c' buf mis"
    using Cons.prems(1) by (intro deliver[of _ "[]"]) simp_all
  ultimately show ?case using keep
    by (simp only: sweep_loop.simps Let_def split: if_split) blast
qed

lemma sweepIncomingBuffer_spec:
  assumes "channel_inv host c"
  shows "\<exists>c' c1 mis. sweepIncomingBuffer host now c = (c', Inr mis) \<and> channel_inv host c'
    \<and> sweep_result host now c (incomingBuffer c) c1 (incomingBuffer c') mis
    \<and> emitted c' = emitted c1 @ [InMessageMissing mis]"
proof -
  from sweep_loop_spec[OF assms subset_refl, of now "[]" "[]"] obtain c1 buf mis where
    "sweep_loop host now (incomingBuffer c) c [] [] = (c1, Inr (buf, mis))"
    and r: "sweep_result host now c (incomingBuffer c) c1 buf mis" by auto
  then have "sweepIncomingBuffer host now c
      = (safeSendEvent (c1\<lparr>incomingBuffer := buf\<rparr>) (InMessageMissing mis), Inr mis)"
    by (simp add: sweepIncomingBuffer_def returns_def)
  moreover have "channel_inv host (c1\<lparr>incomingBuffer := buf\<rparr>)"
  proof (rule inv_incoming_subset)
    show "channel_inv host c1" using r by (simp add: sweep_result_def)
    show "set buf \<subseteq> set (incomingBuffer c1)" using r
      by (auto simp: sweep_result_def elim: list_emb_set)
  qed
  moreover have "incomingBuffer (safeSendEvent (c1\<lparr>incomingBuffer := buf\<rparr>) e) = buf"
    "emitted (safeSendEvent (c1\<lparr>incomingBuffer := buf\<rparr>) e) = emitted c1 @ [e]" for e
    by (simp_all add: safeSendEvent_def)
  ultimately show ?thesis using r
    by (intro exI[of _ "safeSendEvent (c1\<lparr>incomingBuffer := buf\<rparr>) (InMessageMissing mis)"]
        exI[of _ c1] exI[of _ mis]) simp
qed

lemma sweepRepair_spec:
  assumes "channel_inv host c"
  shows "channel_inv host (fst (sweepRepairIncomingBuffer now c cb))
    \<and> extends c (fst (sweepRepairIncomingBuffer now c cb))"
proof -
  have r: "channel_inv host (rebroadcast f ms c0) \<and> extends c0 (rebroadcast f ms c0)"
    if "channel_inv host c0" for f ms c0
    using that
  proof (induction ms arbitrary: c0)
    case (Cons m ms)
    from Cons.IH[of c0] Cons.IH[of "safeSendEvent c0 (RepairResponseSent (messageId m))"] Cons.prems
    show ?case by (auto split: sum.split intro: extends_trans[OF extends_event])
  qed simp
  show ?thesis
  proof (cases "repairManager c")
    case None
    with assms r show ?thesis by (simp add: sweepRepairIncomingBuffer_def split: option.split)
  next
    case (Some rm)
    obtain rm' ms where s: "repair_sweepIncomingBuffer rm (localHistory c) (int now) = (rm', ms)"
      by fastforce
    have "repair_inv rm" using assms Some by (simp add: channel_inv_def repairs_ok_def)
    from repair_sweepIncoming_ok(1,2)[OF this s] assms Some
    have "channel_inv host (c\<lparr>repairManager := Some rm'\<rparr>)" by (simp add: channel_defs)
    with Some s r[OF this] show ?thesis
      by (auto simp: sweepRepairIncomingBuffer_def split: option.split
          intro: extends_trans[of c "c\<lparr>repairManager := Some rm'\<rparr>"])
  qed
qed

lemma sweepOutgoing_partition:
  "sweepOutgoingBuffer c =
     (filter (\<lambda>m. possibleAcks c (messageId m) = None) (outgoingBuffer c),
      filter (\<lambda>m. possibleAcks c (messageId m) \<noteq> None) (outgoingBuffer c))"
proof -
  have "foldl (\<lambda>(u, p) m. if possibleAcks c (messageId m) \<noteq> None then (u, p @ [m]) else (u @ [m], p))
      (u0, p0) ms = (u0 @ filter (\<lambda>m. possibleAcks c (messageId m) = None) ms,
        p0 @ filter (\<lambda>m. possibleAcks c (messageId m) \<noteq> None) ms)" for u0 p0 ms
    by (induction ms arbitrary: u0 p0) auto
  from this[of "[]" "[]" "outgoingBuffer c"] show ?thesis by (simp add: sweepOutgoingBuffer_def)
qed

section \<open>Sending\<close>

lemma take_repair_requests_inv:
  "channel_inv host c \<Longrightarrow> take_repair_requests now c = (c', rs) \<Longrightarrow>
    channel_inv host c' \<and> (\<exists>r. c' = c\<lparr>repairManager := r\<rparr>)"
proof (cases "repairManager c")
  case None
  then show "channel_inv host c \<Longrightarrow> take_repair_requests now c = (c', rs) \<Longrightarrow> ?thesis"
    by (auto simp: take_repair_requests_def intro: exI[of _ None])
next
  case (Some rm)
  assume c: "channel_inv host c" and t: "take_repair_requests now c = (c', rs)"
  obtain rm' el where g: "getRepairRequests rm MAX_REPAIR_REQUESTS_PER_MESSAGE (int now) = (rm', el)"
    by fastforce
  have "repair_inv rm" using c Some by (simp add: channel_inv_def repairs_ok_def)
  from getRepairRequests_inv(1,2)[OF this g] c Some t g show ?thesis
    by (auto simp: take_repair_requests_def channel_defs)
qed

lemma pushOutgoingSyncMessage_inv:
  assumes "channel_inv host c"
  shows "channel_inv host (fst (pushOutgoingSyncMessage now random c cb))"
proof -
  let ?c = "c\<lparr>lamport := lamportTimestampIncrement now (lamport c)\<rparr>"
  have c: "channel_inv host ?c"
    using assms lamportTimestampIncrement_gt[of "lamport c" now] by (intro inv_clock) auto
  obtain c1 rs where t: "take_repair_requests now ?c = (c1, rs)" by fastforce
  from take_repair_requests_inv[OF c t] have "channel_inv host c1" by blast
  with t show ?thesis
    by (simp add: pushOutgoingSyncMessage_def Let_def split: option.split sum.split)
qed

lemma push_outgoing_begin_inv:
  assumes "channel_inv host c"
  shows "channel_inv host (fst (push_outgoing_begin host now c p))"
    and "push_outgoing_begin host now c p = (c', Inr m) \<Longrightarrow>
      isContentMessage m \<and> not_after (lamport c') m \<and> messageId m = getMessageId host p
      \<and> m \<in> set (outgoingBuffer c')"
proof -
  let ?c = "c\<lparr>lamport := lamportTimestampIncrement now (lamport c)\<rparr>" and ?mid = "getMessageId host p"
  have c: "channel_inv host ?c"
    using assms lamportTimestampIncrement_gt[of "lamport c" now] by (intro inv_clock) auto
  have "channel_inv host (fst (push_outgoing_begin host now c p))
    \<and> (push_outgoing_begin host now c p = (c', Inr m) \<longrightarrow>
      isContentMessage m \<and> not_after (lamport c') m \<and> messageId m = ?mid \<and> m \<in> set (outgoingBuffer c'))"
  proof (cases "find (\<lambda>m. messageId m = ?mid) (outgoingBuffer c)")
    case (Some x)
    then have "x \<in> set (outgoingBuffer c)" "messageId x = ?mid" by (auto simp: find_Some_iff)
    with Some c show ?thesis
      by (auto simp: push_outgoing_begin_def Let_def channel_inv_def outgoing_ok_def)
  next
    case None
    then have fresh: "?mid \<notin> messageId ` set (outgoingBuffer c)" by (auto simp: find_None_iff)
    obtain c1 rs where t: "take_repair_requests now ?c = (c1, rs)" by fastforce
    from take_repair_requests_inv[OF c t] obtain r where c1: "channel_inv host c1"
      "c1 = ?c\<lparr>repairManager := r\<rparr>" by blast
    show ?thesis
    proof (cases "ContentMessage ?mid (ch_channelId c1) (ch_senderId c1) (recent_history c1) (lamport c1)
        (Some (bloom_toBytes (bloom_filter c1))) p rs")
      case (Inl e)
      with None t c1(1) show ?thesis by (auto simp: push_outgoing_begin_def Let_def)
    next
      case (Inr x)
      from ContentMessage_Inr[OF Inr] have x: "isContentMessage x" "messageId x = ?mid"
        "senderId x = ch_senderId c1" "channelId x = ch_channelId c1" "lamportTimestamp x = Some (lamport c1)"
        by auto
      then have n: "not_after (lamport c1) x" by (simp add: not_after_def)
      have "outgoingBuffer c1 = outgoingBuffer c" using c1(2) by simp
      with fresh x n c1(1) have "channel_inv host (c1\<lparr>outgoingBuffer := outgoingBuffer c1 @ [x]\<rparr>)"
        by (auto simp: channel_defs)
      with None t Inr x n show ?thesis by (auto simp: push_outgoing_begin_def Let_def)
    qed
  qed
  then show "channel_inv host (fst (push_outgoing_begin host now c p))"
    "push_outgoing_begin host now c p = (c', Inr m) \<Longrightarrow>
      isContentMessage m \<and> not_after (lamport c') m \<and> messageId m = ?mid \<and> m \<in> set (outgoingBuffer c')"
    by blast+
qed

lemma set_hint_inv:
  assumes "channel_inv host c"
  shows "channel_inv host (set_hint m hint c)"
proof -
  define upd where "upd = (\<lambda>x. if same_object x m then x\<lparr>retrievalHint := hint\<rparr> else x)"
  have upd: "messageId (upd x) = messageId x" "senderId (upd x) = senderId x"
    "channelId (upd x) = channelId x" "isContentMessage (upd x) = isContentMessage x"
    "not_after l (upd x) = not_after l x" for x l
    by (simp_all add: upd_def message_tests not_after_def)
  then have "map messageId (map upd xs) = map messageId xs" for xs by simp
  with assms upd show ?thesis
    by (simp add: set_hint_def upd_def[symmetric] Let_def channel_defs history_inv_def comp_def)
qed

section \<open>Acknowledgements\<close>

lemma partition_kept: "snd (partition P xs) = filter (\<lambda>x. \<not> P x) xs"
  by (simp add: comp_def)

lemma ack_by_history_spec:
  "channel_inv host c \<Longrightarrow> channel_inv host (ack_by_history es c)
    \<and> outgoingBuffer (ack_by_history es c) =
        filter (\<lambda>m. messageId m \<notin> he_messageId ` set es) (outgoingBuffer c)
    \<and> possibleAcks (ack_by_history es c) = possibleAcks c
    \<and> bloom_filter (ack_by_history es c) = bloom_filter c
    \<and> (\<exists>ev. emitted (ack_by_history es c) = emitted c @ ev
         \<and> (\<forall>m\<in>set (outgoingBuffer c). messageId m \<in> he_messageId ` set es \<longrightarrow>
              OutMessageAcknowledged (messageId m) \<in> set ev))"
proof (induction es arbitrary: c)
  case (Cons e es)
  define c1 where "c1 = c\<lparr>outgoingBuffer := filter (\<lambda>m. messageId m \<noteq> he_messageId e) (outgoingBuffer c),
    emitted := emitted c @ map (\<lambda>m. OutMessageAcknowledged (messageId m))
      (filter (\<lambda>m. messageId m = he_messageId e) (outgoingBuffer c))\<rparr>"
  have step: "ack_by_history (e # es) c = ack_by_history es c1"
    by (simp add: c1_def comp_def)
  have "channel_inv host (c\<lparr>outgoingBuffer := filter (\<lambda>m. messageId m \<noteq> he_messageId e) (outgoingBuffer c)\<rparr>)"
    using Cons.prems by (intro inv_outgoing_sublist) (auto simp: channel_inv_def outgoing_ok_def distinct_map_filter)
  then have "channel_inv host c1" by (simp add: c1_def)
  note IH = Cons.IH[OF this]
  from IH obtain ev where ev: "emitted (ack_by_history es c1) = emitted c1 @ ev"
    "\<And>m. m \<in> set (outgoingBuffer c1) \<Longrightarrow> messageId m \<in> he_messageId ` set es \<Longrightarrow>
      OutMessageAcknowledged (messageId m) \<in> set ev" by blast
  define new where "new = map (\<lambda>m. OutMessageAcknowledged (messageId m))
    (filter (\<lambda>m. messageId m = he_messageId e) (outgoingBuffer c)) @ ev"
  have "emitted (ack_by_history es c1) = emitted c @ new" unfolding ev(1) by (simp add: c1_def new_def)
  moreover have "OutMessageAcknowledged (messageId m) \<in> set new"
    if "m \<in> set (outgoingBuffer c)" "messageId m \<in> he_messageId ` set (e # es)" for m
  proof (cases "messageId m = he_messageId e")
    case True
    then show ?thesis using that(1) by (auto simp: new_def image_iff)
  next
    case False
    with that ev(2)[of m] show ?thesis by (auto simp: c1_def new_def)
  qed
  moreover have "filter (\<lambda>m. messageId m \<notin> he_messageId ` set es) (outgoingBuffer c1)
      = filter (\<lambda>m. messageId m \<notin> he_messageId ` set (e # es)) (outgoingBuffer c)"
    by (auto simp: c1_def intro!: filter_cong)
  ultimately have
    "\<exists>new. emitted (ack_by_history es c1) = emitted c @ new \<and> (\<forall>m\<in>set (outgoingBuffer c).
        messageId m \<in> he_messageId ` set (e # es) \<longrightarrow> OutMessageAcknowledged (messageId m) \<in> set new)"
    and "filter (\<lambda>m. messageId m \<notin> he_messageId ` set es) (outgoingBuffer c1)
      = filter (\<lambda>m. messageId m \<notin> he_messageId ` set (e # es)) (outgoingBuffer c)" by blast+
  moreover have "possibleAcks c1 = possibleAcks c" "bloom_filter c1 = bloom_filter c"
    by (simp_all add: c1_def)
  ultimately show ?case unfolding step using IH by (simp only: simp_thms)
qed simp

text \<open>What one received filter does to the count of a message that is still unacknowledged.\<close>

definition ack_count :: "channel \<Rightarrow> message \<Rightarrow> nat" where
  "ack_count c m = or_default 0 (possibleAcks c (messageId m)) + 1"

definition bloom_hit :: "hash_fun \<Rightarrow> bloom \<Rightarrow> message \<Rightarrow> bool" where
  "bloom_hit hashN bf m \<longleftrightarrow> bloom_lookup hashN bf (messageId m) = Inr True"

definition acked_by :: "hash_fun \<Rightarrow> bloom \<Rightarrow> channel \<Rightarrow> message \<Rightarrow> bool" where
  "acked_by hashN bf c m \<longleftrightarrow> bloom_hit hashN bf m \<and> possibleAcksThreshold c \<le> int (ack_count c m)"

definition review_result :: "hash_fun \<Rightarrow> bloom \<Rightarrow> channel \<Rightarrow> message list \<Rightarrow> (string \<rightharpoonup> nat) \<Rightarrow> channel_event list \<Rightarrow> bool" where
  "review_result hashN bf c ms p es \<longleftrightarrow>
     (\<forall>x. x \<notin> messageId ` set ms \<longrightarrow> p x = possibleAcks c x)
     \<and> (\<forall>m\<in>set ms. p (messageId m) =
          (if acked_by hashN bf c m then None
           else if bloom_hit hashN bf m then Some (ack_count c m) else possibleAcks c (messageId m)))
     \<and> (\<forall>m\<in>set ms. acked_by hashN bf c m \<longrightarrow> OutMessageAcknowledged (messageId m) \<in> set es)
     \<and> (\<forall>m\<in>set ms. bloom_hit hashN bf m \<and> \<not> acked_by hashN bf c m \<longrightarrow>
          OutMessagePossiblyAcknowledged (messageId m) (ack_count c m) \<in> set es)"

lemma ack_by_bloom_spec:
  assumes total: "\<And>x e. bloom_lookup hashN bf x \<noteq> Inl e"
  shows "distinct (map messageId ms) \<Longrightarrow>
    \<exists>p es. ack_by_bloom hashN bf ms kept c =
        (c\<lparr>possibleAcks := p, emitted := emitted c @ es\<rparr>, Inr (kept @ filter (\<lambda>m. \<not> acked_by hashN bf c m) ms))
      \<and> review_result hashN bf c ms p es"
proof (induction ms arbitrary: kept c)
  case Nil
  then show ?case
    by (intro exI[of _ "possibleAcks c"] exI[of _ "[]"]) (simp add: returns_def review_result_def)
next
  case (Cons m ms)
  let ?mid = "messageId m" and ?n = "ack_count c m"
  have m: "?mid \<notin> messageId ` set ms" and d: "distinct (map messageId ms)" using Cons.prems by auto
  define p1 where "p1 = (if acked_by hashN bf c m then (possibleAcks c)(?mid := None)
    else if bloom_hit hashN bf m then (possibleAcks c)(?mid \<mapsto> ?n) else possibleAcks c)"
  define es1 where "es1 = (if acked_by hashN bf c m then [OutMessageAcknowledged ?mid]
    else if bloom_hit hashN bf m then [OutMessagePossiblyAcknowledged ?mid ?n] else [])"
  define c1 where "c1 = c\<lparr>possibleAcks := p1, emitted := emitted c @ es1\<rparr>"
  define kept1 where "kept1 = kept @ filter (\<lambda>m. \<not> acked_by hashN bf c m) [m]"
  have step: "ack_by_bloom hashN bf (m # ms) kept c = ack_by_bloom hashN bf ms kept1 c1"
  proof (cases "bloom_lookup hashN bf ?mid")
    case (Inl e)
    with total show ?thesis by blast
  next
    case (Inr b)
    then show ?thesis
      by (cases b) (auto simp: c1_def kept1_def p1_def es1_def acked_by_def bloom_hit_def ack_count_def
          safeSendEvent_def Let_def)
  qed
  have same: "ack_count c1 x = ack_count c x" "acked_by hashN bf c1 x = acked_by hashN bf c x"
    "possibleAcks c1 (messageId x) = possibleAcks c (messageId x)" if "x \<in> set ms" for x
  proof -
    have "messageId x \<noteq> ?mid" using m that by (metis imageI)
    then have "possibleAcks c1 (messageId x) = possibleAcks c (messageId x)"
      by (auto simp: c1_def p1_def)
    then show "possibleAcks c1 (messageId x) = possibleAcks c (messageId x)"
      "ack_count c1 x = ack_count c x" "acked_by hashN bf c1 x = acked_by hashN bf c x"
      by (simp_all add: ack_count_def acked_by_def) (simp add: c1_def)
  qed
  from Cons.IH[OF d, of kept1 c1] obtain p es where
    p: "ack_by_bloom hashN bf ms kept1 c1 = (c1\<lparr>possibleAcks := p, emitted := emitted c1 @ es\<rparr>,
        Inr (kept1 @ filter (\<lambda>m. \<not> acked_by hashN bf c1 m) ms))"
    and r: "review_result hashN bf c1 ms p es" by blast
  have "filter (\<lambda>m. \<not> acked_by hashN bf c1 m) ms = filter (\<lambda>m. \<not> acked_by hashN bf c m) ms"
    using same(2) by (intro filter_cong) auto
  then have "ack_by_bloom hashN bf (m # ms) kept c = (c\<lparr>possibleAcks := p, emitted := emitted c @ es1 @ es\<rparr>,
      Inr (kept @ filter (\<lambda>m. \<not> acked_by hashN bf c m) (m # ms)))"
    unfolding step p by (simp add: c1_def kept1_def)
  moreover have "p ?mid = p1 ?mid" using r m by (simp add: review_result_def c1_def)
  then have "review_result hashN bf c (m # ms) p (es1 @ es)"
    using r same m by (auto simp: review_result_def) (auto simp: p1_def es1_def c1_def)
  ultimately show ?case by blast
qed

lemma review_result_acks_ok:
  assumes "review_result hashN bf c ms p es" and "acks_ok c"
  shows "acks_ok (c\<lparr>possibleAcks := p\<rparr>)"
proof -
  have "0 < n \<and> int n < possibleAcksThreshold c" if n: "p x = Some n" for x n
  proof (cases "x \<in> messageId ` set ms")
    case True
    then obtain m where "m \<in> set ms" "x = messageId m" by blast
    with assms n show ?thesis
      by (auto simp: review_result_def acks_ok_def acked_by_def ack_count_def split: if_splits)
  next
    case False
    with assms n show ?thesis by (auto simp: review_result_def acks_ok_def)
  qed
  then show ?thesis by (simp add: acks_ok_def)
qed

section \<open>Hosts\<close>

text \<open>A host whose filter hash stays within the default filter.\<close>

locale channel_host = bloom_hash "h_hashN host" 10 150000 for host :: host
begin

lemma lookup_total: "default_filter_ok bf \<Longrightarrow> bloom_lookup (h_hashN host) bf x \<noteq> Inl e"
  using computeHashes_ok[of bf x] lookup_iff[of bf x] by (auto simp: default_filter_ok_def)

lemma filter_insert_inv:
  assumes "channel_inv host c"
  shows "\<exists>bf. bloom_insert (h_hashN host) (bloom_filter c) mid = (bf, Inr ())
    \<and> filter_insert host c mid = (c\<lparr>bloom_filter := bf\<rparr>, Inr ())
    \<and> channel_inv host (c\<lparr>bloom_filter := bf\<rparr>) \<and> in_filter host (c\<lparr>bloom_filter := bf\<rparr>) mid"
proof -
  have "bloom_wf (bloom_filter c)" "kHashes (bloom_filter c) = 10" "totalBits (bloom_filter c) = 150000"
    using assms by (simp_all add: channel_inv_def default_filter_ok_def)
  from insert_lookup[OF this, of mid] obtain bf where
    bf: "bloom_insert (h_hashN host) (bloom_filter c) mid = (bf, Inr ())" "bloom_wf bf" "kHashes bf = 10"
      "totalBits bf = 150000" "options bf = options (bloom_filter c)"
      "errorRate bf = errorRate (bloom_filter c)"
      "bloom_lookup (h_hashN host) bf mid = Inr True"
    and mono: "\<And>x. bloom_lookup (h_hashN host) (bloom_filter c) x = Inr True \<Longrightarrow>
      bloom_lookup (h_hashN host) bf x = Inr True" by blast
  have "channel_inv host (c\<lparr>bloom_filter := bf\<rparr>)"
    using assms bf(2-6) mono by (auto simp: channel_defs default_filter_ok_def)
  with bf(1,7) show ?thesis by (auto simp: filter_insert_def in_filter_def)
qed

text \<open>The review never throws on a filter of the right size, and on a shorter one it throws after
  the acknowledgements by causal history.\<close>

lemma reviewAckStatus_inv:
  assumes "channel_inv host c"
  shows "channel_inv host (fst (reviewAckStatus host c m))"
    and "snd (reviewAckStatus host c m) =
      (case bloomFilter m of None \<Rightarrow> Inr ()
       | Some bs \<Rightarrow> if 18752 \<le> length bs then Inr () else Inl RangeError)"
proof -
  let ?c = "ack_by_history (causalHistory m) c"
  have c: "channel_inv host ?c" using ack_by_history_spec[OF assms] by blast
  have "channel_inv host (fst (reviewAckStatus host c m)) \<and> snd (reviewAckStatus host c m) =
      (case bloomFilter m of None \<Rightarrow> Inr ()
       | Some bs \<Rightarrow> if 18752 \<le> length bs then Inr () else Inl RangeError)"
  proof (cases "bloomFilter m")
    case None
    with c show ?thesis by (simp add: reviewAckStatus_def Let_def)
  next
    case (Some bs)
    have opts: "options (bloom_filter ?c) = DEFAULT_BLOOM_FILTER_OPTIONS"
      using c by (simp add: channel_inv_def default_filter_ok_def)
    show ?thesis
    proof (cases "18752 \<le> length bs")
      case True
      then obtain bf where bf: "bloom_fromBytes bs DEFAULT_BLOOM_FILTER_OPTIONS = Inr bf"
        using fromBytes_default_iff by blast
      have total: "bloom_lookup (h_hashN host) bf x \<noteq> Inl e" for x e
        by (rule lookup_total) (rule fromBytes_default[OF bf])
      have d: "distinct (map messageId (outgoingBuffer ?c))"
        using c by (simp add: channel_inv_def outgoing_ok_def)
      obtain p es where p: "ack_by_bloom (h_hashN host) bf (outgoingBuffer ?c) [] ?c =
          (?c\<lparr>possibleAcks := p, emitted := emitted ?c @ es\<rparr>,
           Inr (filter (\<lambda>m. \<not> acked_by (h_hashN host) bf ?c m) (outgoingBuffer ?c)))"
        and r: "review_result (h_hashN host) bf ?c (outgoingBuffer ?c) p es"
        using ack_by_bloom_spec[OF total d, of "[]" ?c] by auto
      have "acks_ok (?c\<lparr>possibleAcks := p\<rparr>)"
        using review_result_acks_ok[OF r] c by (simp add: channel_inv_def)
      with c d have "channel_inv host (?c\<lparr>possibleAcks := p, outgoingBuffer :=
          filter (\<lambda>m. \<not> acked_by (h_hashN host) bf ?c m) (outgoingBuffer ?c)\<rparr>)"
        by (auto simp: channel_defs distinct_map_filter)
      then have "channel_inv host (?c\<lparr>possibleAcks := p, emitted := emitted ?c @ es, outgoingBuffer :=
          filter (\<lambda>m. \<not> acked_by (h_hashN host) bf ?c m) (outgoingBuffer ?c)\<rparr>)"
        by (simp add: channel_defs)
      with Some True bf p opts show ?thesis by (simp add: reviewAckStatus_def Let_def)
    next
      case False
      obtain bf where "bloom_new DEFAULT_BLOOM_FILTER_OPTIONS = Inr bf" "length (data bf) = 2344"
        using default_filter_new by blast
      with False have "bloom_fromBytes bs DEFAULT_BLOOM_FILTER_OPTIONS = Inl RangeError"
        by (intro fromBytes_short) auto
      with Some False opts c show ?thesis by (simp add: reviewAckStatus_def Let_def)
    qed
  qed
  then show "channel_inv host (fst (reviewAckStatus host c m))"
    "snd (reviewAckStatus host c m) =
      (case bloomFilter m of None \<Rightarrow> Inr ()
       | Some bs \<Rightarrow> if 18752 \<le> length bs then Inr () else Inl RangeError)" by blast+
qed

end

section \<open>Every task keeps the invariant\<close>

lemma hint_simps [simp]:
  "isContentMessage (m\<lparr>retrievalHint := h\<rparr>) = isContentMessage m"
  "not_after l (m\<lparr>retrievalHint := h\<rparr>) = not_after l m"
  by (simp_all add: message_tests not_after_def)

lemma set_hint_fields [simp]:
  "lamport (set_hint m h c) = lamport c" "bloom_filter (set_hint m h c) = bloom_filter c"
  by (simp_all add: set_hint_def Let_def)

lemma inv_time: "channel_inv host c \<Longrightarrow> channel_inv host (c\<lparr>timeReceived := (timeReceived c)(x \<mapsto> t)\<rparr>)"
  by (auto simp: channel_defs)

lemma receive_repair_requests_inv:
  assumes "channel_inv host c"
  shows "\<exists>c'. receive_repair_requests host now c m = (c', Inr ()) \<and> channel_inv host c'"
proof -
  let ?c = "safeSendEvent c (RepairRequestReceived (map he_messageId (repairRequest m)) (senderId m))"
  let ?f = "\<lambda>rm. processIncomingRepairRequests (h_sha256 host) rm (repairRequest m) (localHistory c) (int now)"
  have "\<exists>r. with_repair ?f ?c = (?c\<lparr>repairManager := r\<rparr>, Inr ()) \<and> channel_inv host (?c\<lparr>repairManager := r\<rparr>)"
  proof (rule with_repair_inv)
    fix rm assume "repair_inv rm" "config_ok (config rm)"
    with process_requests_ok[OF this(2,1), of "h_sha256 host" "repairRequest m" "localHistory c" "int now"]
    show "\<exists>rm'. ?f rm = (rm', Inr ()) \<and> repair_inv rm' \<and> config_ok (config rm')" by auto
  qed (use assms in simp)
  with assms show ?thesis by (auto simp: receive_repair_requests_def returns_def)
qed

lemma mark_received_inv:
  assumes "channel_inv host c"
  shows "\<exists>r. with_repair (\<lambda>rm. returns (markMessageReceived rm mid) ()) c = (c\<lparr>repairManager := r\<rparr>, Inr ())
    \<and> channel_inv host (c\<lparr>repairManager := r\<rparr>)"
  by (rule with_repair_inv[OF assms]) (auto simp: returns_def intro: markMessageReceived_inv)

lemma await_or_deliver_inv:
  assumes "channel_inv host c" and "senderId m \<noteq> ch_senderId c" "channelId m = ch_channelId c"
    and "isSyncMessage m \<or> isContentMessage m \<and> in_filter host c (messageId m)"
  shows "\<exists>c'. await_or_deliver host now c m = (c', Inr ()) \<and> channel_inv host c'"
proof (cases "missingDependencies c m = []")
  case True
  with deliver_and_emit_inv[OF assms(1,4)] show ?thesis by (auto simp: await_or_deliver_def)
next
  case False
  let ?c = "c\<lparr>incomingBuffer := incomingBuffer c @ [m], timeReceived := (timeReceived c)(messageId m \<mapsto> now)\<rparr>"
  have c: "channel_inv host ?c" using assms by (auto simp: channel_defs)
  let ?f = "\<lambda>rm. markDependenciesMissing (h_sha256 host) rm (missingDependencies c m) (int now)"
  have "\<exists>r. with_repair ?f ?c = (?c\<lparr>repairManager := r\<rparr>, Inr ()) \<and> channel_inv host (?c\<lparr>repairManager := r\<rparr>)"
  proof (rule with_repair_inv[OF c])
    fix rm assume "repair_inv rm" "config_ok (config rm)"
    with mark_missing_ok[OF this(2,1), of "h_sha256 host" "missingDependencies c m" "int now"]
    show "\<exists>rm'. ?f rm = (rm', Inr ()) \<and> repair_inv rm' \<and> config_ok (config rm')" by auto
  qed
  then obtain r where "with_repair ?f ?c = (?c\<lparr>repairManager := r\<rparr>, Inr ())"
    and "channel_inv host (?c\<lparr>repairManager := r\<rparr>)" by blast
  with False show ?thesis by (simp add: await_or_deliver_def returns_def Let_def)
qed

text \<open>Why a received message is dropped without a trace.\<close>

definition dropped :: "channel \<Rightarrow> message \<Rightarrow> bool" where
  "dropped c m \<longleftrightarrow> channelId m \<noteq> ch_channelId c \<or> is_duplicate c m \<or> senderId m = ch_senderId c
     \<or> \<not> isSyncMessage m \<and> \<not> isContentMessage m"

lemma dropped_kinds: "isSyncMessage m \<or> isContentMessage m \<Longrightarrow> \<not> isEphemeralMessage m"
  by (auto simp: message_tests)

definition received_event :: "message \<Rightarrow> channel_event" where
  "received_event m = (if isSyncMessage m then InSyncReceived m else InMessageReceived m)"

definition filter_too_short :: "message \<Rightarrow> bool" where
  "filter_too_short m \<longleftrightarrow> (case bloomFilter m of None \<Rightarrow> False | Some bs \<Rightarrow> length bs < 18752)"

definition same_log :: "channel \<Rightarrow> channel \<Rightarrow> bool" where
  "same_log c c' \<longleftrightarrow> localHistory c' = localHistory c \<and> incomingBuffer c' = incomingBuffer c
     \<and> timeReceived c' = timeReceived c \<and> bloom_filter c' = bloom_filter c \<and> lamport c' = lamport c"

lemma with_repair_log: "same_log c (fst (with_repair f c))"
  by (simp add: with_repair_def same_log_def split: option.splits prod.splits)

lemma receive_repair_requests_log: "same_log c (fst (receive_repair_requests host now c m))"
  using with_repair_log[of "safeSendEvent c (RepairRequestReceived (map he_messageId (repairRequest m)) (senderId m))"]
  by (simp add: receive_repair_requests_def same_log_def) (simp add: safeSendEvent_def)

lemma ack_by_history_log: "same_log c (ack_by_history es c)"
  by (induction es arbitrary: c) (simp_all add: same_log_def)

lemma ack_by_bloom_log: "same_log c (fst (ack_by_bloom hashN bf ms kept c))"
  by (induction ms arbitrary: kept c)
    (simp_all add: same_log_def Let_def safeSendEvent_def split: sum.split bool.split)

lemma reviewAckStatus_log: "same_log c (fst (reviewAckStatus host c m))"
proof -
  let ?c = "ack_by_history (causalHistory m) c"
  have "same_log ?c (fst (reviewAckStatus host c m))"
  proof (cases "bloomFilter m")
    case (Some bs)
    show ?thesis
    proof (cases "bloom_fromBytes bs (options (bloom_filter ?c))")
      case (Inr bf)
      obtain c2 r where "ack_by_bloom (h_hashN host) bf (outgoingBuffer ?c) [] ?c = (c2, r)" by fastforce
      with Some Inr ack_by_bloom_log[of ?c "h_hashN host" bf "outgoingBuffer ?c" "[]"] show ?thesis
        by (cases r) (simp_all add: reviewAckStatus_def same_log_def Let_def)
    qed (use Some in \<open>simp add: reviewAckStatus_def same_log_def Let_def\<close>)
  qed (simp add: reviewAckStatus_def same_log_def Let_def)
  with ack_by_history_log[of c "causalHistory m"] show ?thesis by (simp add: same_log_def)
qed

context channel_host
begin

lemma push_outgoing_finish_inv:
  assumes "channel_inv host c" and "isContentMessage m" and "not_after (lamport c) m"
  shows "\<exists>c'. push_outgoing_finish host now c m success hint = (c', Inr ()) \<and> channel_inv host c'
    \<and> (success \<longrightarrow> in_filter host c' (messageId m) \<and> timeReceived c' (messageId m) = Some now
         \<and> last (emitted c') = OutMessageSent (m\<lparr>retrievalHint := hint\<rparr>))"
proof (cases success)
  case True
  let ?m = "m\<lparr>retrievalHint := hint\<rparr>" and ?c = "set_hint m hint c"
  have c: "channel_inv host ?c" using assms(1) by (rule set_hint_inv)
  from filter_insert_inv[OF c, of "messageId m"] obtain bf where
    bf: "bloom_insert (h_hashN host) (bloom_filter c) (messageId m) = (bf, Inr ())"
    and c1: "channel_inv host (?c\<lparr>bloom_filter := bf\<rparr>)" "in_filter host (?c\<lparr>bloom_filter := bf\<rparr>) (messageId m)"
    by auto
  obtain h n where h: "history_push (h_collate host) (localHistory ?c) [?m] = (h, Inr n)"
    using mem_history.push_one[of ?m "h_collate host" "localHistory ?c"] assms(2) by auto
  have "channel_inv host (?c\<lparr>bloom_filter := bf, localHistory := h\<rparr>)"
    using inv_history_push[of host "?c\<lparr>bloom_filter := bf\<rparr>" ?m "h_collate host"] c1 h assms(3) by simp
  from inv_time[OF this, of "messageId m" now] c1(2) show ?thesis
    using True assms(2) bf h
    by (simp add: push_outgoing_finish_def Let_def returns_def)
      (simp add: safeSendEvent_def in_filter_def)
qed (use assms in \<open>simp add: push_outgoing_finish_def returns_def\<close>)

lemma push_outgoing_inv:
  assumes "channel_inv host c"
  shows "channel_inv host (fst (push_outgoing host now later c p cb))"
proof -
  obtain c1 r where b: "push_outgoing_begin host now c p = (c1, r)" by fastforce
  have c1: "channel_inv host c1" using push_outgoing_begin_inv(1)[OF assms, of now p] b by simp
  show ?thesis
  proof (cases r)
    case (Inr m)
    with push_outgoing_begin_inv(2)[OF assms] b
    have m: "isContentMessage m" "not_after (lamport c1) m" by blast+
    have "channel_inv host (fst (push_outgoing_finish host later c1 m s h))" for s h
      using push_outgoing_finish_inv[OF c1 m, of later s h] by auto
    with b Inr c1 show ?thesis
      by (auto simp: push_outgoing_def split: option.splits sum.splits)
  qed (use b c1 in \<open>simp add: push_outgoing_def\<close>)
qed

text \<open>
  A message that is not dropped: either its bloom filter is too short, and the call throws in the
  review of acknowledgements, or the message reaches \<open>await_or_deliver\<close> in a state with the same
  history and buffer.
\<close>

lemma push_incoming_accepted:
  assumes "channel_inv host c" and "\<not> dropped c m"
  shows "if filter_too_short m
    then \<exists>c4. push_incoming host now c m = (c4, Inl RangeError) \<and> channel_inv host c4 \<and> same_log c c4
      \<and> (\<exists>es. emitted c4 = emitted c @ received_event m # es)
    else \<exists>c5. push_incoming host now c m = await_or_deliver host now c5 m \<and> channel_inv host c5
      \<and> extends c c5 \<and> same_log c (c5\<lparr>bloom_filter := bloom_filter c\<rparr>)
      \<and> (isContentMessage m \<longrightarrow> in_filter host c5 (messageId m))
      \<and> (\<exists>es. emitted c5 = emitted c @ received_event m # es)"
proof -
  define c1 where "c1 = safeSendEvent c (received_event m)"
  have c1: "channel_inv host c1" "same_log c c1" "emitted c1 = emitted c @ [received_event m]"
    using assms(1) by (simp_all add: c1_def same_log_def) (simp_all add: safeSendEvent_def)
  obtain r where c2: "with_repair (\<lambda>rm. returns (markMessageReceived rm (messageId m)) ()) c1
      = (c1\<lparr>repairManager := r\<rparr>, Inr ())" "channel_inv host (c1\<lparr>repairManager := r\<rparr>)"
    using mark_received_inv[OF c1(1), of "messageId m"] by blast
  let ?c2 = "c1\<lparr>repairManager := r\<rparr>"
  from receive_repair_requests_inv[OF c2(2)] obtain c3 where
    c3: "receive_repair_requests host now ?c2 m = (c3, Inr ())" "channel_inv host c3" by blast
  obtain c4 r4 where c4: "reviewAckStatus host c3 m = (c4, r4)" by fastforce
  have inv4: "channel_inv host c4" and r4: "r4 = (if filter_too_short m then Inl RangeError else Inr ())"
    using reviewAckStatus_inv[OF c3(2), of m] c4
    by (auto simp: filter_too_short_def split: option.splits)
  have ext: "extends c1 c4"
    using receive_repair_requests_extends[of ?c2 host now m] reviewAckStatus_extends[of c3 host m]
      c3(1) c4 extends_update(7)[of c1 r] by (metis extends_trans fst_conv)
  have ext': "extends c c4" by (rule extends_trans[OF _ ext]) (simp add: c1_def)
  have log: "same_log c c4"
    using c1(2) receive_repair_requests_log[of ?c2 host now m] reviewAckStatus_log[of c3 host m] c3(1) c4
    by (simp add: same_log_def)
  have ev: "\<exists>es. emitted c4 = emitted c @ received_event m # es"
    using ext c1(3) by (auto simp: extends_def)
  have step: "push_incoming host now c m = then_do (c4, r4) (\<lambda>c4 _.
      then_do (if isContentMessage m then filter_insert host c4 (messageId m) else returns c4 ())
        (\<lambda>c5 _. await_or_deliver host now c5 m))"
    using assms(2) dropped_kinds[of m] c2(1) c3(1) c4
    by (auto simp: push_incoming_def c1_def dropped_def received_event_def Let_def)
  show ?thesis
  proof (cases "filter_too_short m")
    case True
    with step r4 inv4 log ev show ?thesis by simp
  next
    case False
    obtain bf where bf: "filter_insert host c4 (messageId m) = (c4\<lparr>bloom_filter := bf\<rparr>, Inr ())"
      "channel_inv host (c4\<lparr>bloom_filter := bf\<rparr>)" "in_filter host (c4\<lparr>bloom_filter := bf\<rparr>) (messageId m)"
      using filter_insert_inv[OF inv4, of "messageId m"] by blast
    define c5 where "c5 = (if isContentMessage m then c4\<lparr>bloom_filter := bf\<rparr> else c4)"
    have "push_incoming host now c m = await_or_deliver host now c5 m"
      using False r4 step bf(1) by (simp add: c5_def)
    moreover have "channel_inv host c5" "emitted c5 = emitted c4" "extends c4 c5"
      using inv4 bf(2) by (simp_all add: c5_def)
    moreover have "same_log c (c5\<lparr>bloom_filter := bloom_filter c\<rparr>)"
      using log by (simp add: c5_def same_log_def)
    ultimately show ?thesis using False ev ext' bf(3) extends_trans[OF ext'] by (auto simp: c5_def)
  qed
qed

lemma push_incoming_dropped: "dropped c m \<Longrightarrow> push_incoming host now c m = (c, Inr ())"
  using dropped_kinds[of m] by (auto simp: dropped_def push_incoming_def returns_def)

lemma push_incoming_inv:
  assumes "channel_inv host c"
  shows "channel_inv host (fst (push_incoming host now c m))"
proof (cases "dropped c m")
  case True
  with assms push_incoming_dropped show ?thesis by simp
next
  case False
  note A = push_incoming_accepted[OF assms False, of now]
  show ?thesis
  proof (cases "filter_too_short m")
    case True
    with A show ?thesis by auto
  next
    case s: False
    with A obtain c5 where c5: "push_incoming host now c m = await_or_deliver host now c5 m"
      "channel_inv host c5" "extends c c5" "isContentMessage m \<longrightarrow> in_filter host c5 (messageId m)"
      by auto
    have "senderId m \<noteq> ch_senderId c5" "channelId m = ch_channelId c5"
      "isSyncMessage m \<or> isContentMessage m \<and> in_filter host c5 (messageId m)"
      using c5(3,4) False by (auto simp: dropped_def extends_def)
    from await_or_deliver_inv[OF c5(2) this, of now] c5(1) show ?thesis by auto
  qed
qed

lemma executeTask_inv: "channel_inv host c \<Longrightarrow> channel_inv host (executeTask host now later c item)"
proof -
  assume c: "channel_inv host c"
  then have "channel_inv host (fst (run_handler host now later c item))"
    by (cases item) (simp_all add: run_handler_def push_outgoing_inv push_incoming_inv
        push_outgoing_ephemeral_state)
  then show ?thesis by (auto simp: executeTask_def split: prod.splits sum.splits)
qed

end

end
