(* ===== verification/Channel_Properties.thy ===== *)
theory Channel_Properties
  imports Channel_Invariant
begin

text \<open>
  Runs of a message channel and the properties of the protocol: what is sent, what is dropped, when a
  message is delivered, how acknowledgements travel through causal histories and bloom filters, and
  how the task queue is drained.
\<close>

section \<open>The host of the code\<close>

definition js_host :: "(bytes \<Rightarrow> bytes) \<Rightarrow> collation \<Rightarrow> host" where
  "js_host sha256 collate = \<lparr>h_sha256 = sha256, h_collate = collate, h_hashN = nim_hashN\<rparr>"

interpretation js: channel_host "js_host sha256 collate" for sha256 collate
  by (unfold_locales) (simp add: js_host_def default_hash.hash_in_range)

section \<open>Runs\<close>

text \<open>The calls a client makes, each with the clock readings it sees.\<close>

datatype channel_op =
    PushOutgoing bytes "send_callback option"
  | PushEphemeral bytes "bool_callback option"
  | PushIncoming message "bytes option"
  | ProcessTasks "nat \<Rightarrow> nat"
  | SweepIncomingBuffer nat
  | SweepRepairIncoming nat "bool_callback option"
  | PushSync nat string "bool_callback option"

fun channel_step :: "host \<Rightarrow> channel \<Rightarrow> channel_op \<Rightarrow> channel" where
  "channel_step host c (PushOutgoing p cb) = fst (pushOutgoingMessage c p cb)"
| "channel_step host c (PushEphemeral p cb) = pushOutgoingEphemeralMessage c p cb"
| "channel_step host c (PushIncoming m h) = pushIncomingMessage c m h"
| "channel_step host c (ProcessTasks clock) = processTasks host clock 0 c"
| "channel_step host c (SweepIncomingBuffer now) = fst (sweepIncomingBuffer host now c)"
| "channel_step host c (SweepRepairIncoming now cb) = fst (sweepRepairIncomingBuffer now c cb)"
| "channel_step host c (PushSync now random cb) = fst (pushOutgoingSyncMessage now random c cb)"

fun channel_run :: "host \<Rightarrow> channel \<Rightarrow> channel_op list \<Rightarrow> channel" where
  "channel_run host c [] = c"
| "channel_run host c (op # ops) = channel_run host (channel_step host c op) ops"

lemma channel_new_inv:
  assumes "config_ok (o_repairConfig opts)"
  shows "\<exists>c. channel_new DEFAULT_BLOOM_FILTER_OPTIONS now cid sid opts (new_history n) = Inr c
    \<and> channel_inv host c \<and> lamport c = now \<and> emitted c = [] \<and> ch_channelId c = cid
    \<and> ch_senderId c = sid \<and> incomingBuffer c = [] \<and> outgoingBuffer c = []
    \<and> localHistory c = new_history n \<and> timeReceived c = Map.empty \<and> possibleAcks c = Map.empty
    \<and> tasks c = [] \<and> timeoutForLostMessagesMs c = o_timeoutForLostMessagesMs opts
    \<and> possibleAcksThreshold c = or_default 2 (o_possibleAcksThreshold opts)
    \<and> causalHistorySize c = or_default 200 (o_causalHistorySize opts)
    \<and> repairManager c = (if or_default True (o_enableRepair opts)
         then Some (repair_new sid (o_repairConfig opts)) else None)"
proof -
  obtain bf where "bloom_new DEFAULT_BLOOM_FILTER_OPTIONS = Inr bf" "default_filter_ok bf"
    using default_filter_new by blast
  with assms show ?thesis
    by (simp add: channel_new_def channel_defs new_history_def history_inv_def repair_new_inv)
      (simp add: repair_new_def DEFAULT_CAUSAL_HISTORY_SIZE_def DEFAULT_POSSIBLE_ACKS_THRESHOLD_def)
qed

context channel_host
begin

lemma processTasks_inv: "channel_inv host c \<Longrightarrow> channel_inv host (processTasks host clock k c)"
proof (induction "tasks c" arbitrary: c k)
  case Nil
  then show ?case by (simp add: processTasks.simps)
next
  case (Cons item rest)
  let ?c = "executeTask host (clock (2 * k)) (clock (2 * k + 1)) (c\<lparr>tasks := rest\<rparr>) item"
  have "rest = tasks ?c" using executeTask_extends[of "c\<lparr>tasks := rest\<rparr>"] by (simp add: extends_def)
  moreover have "channel_inv host ?c" using Cons.prems by (intro executeTask_inv) simp
  ultimately have "channel_inv host (processTasks host clock (Suc k) ?c)" by (rule Cons.hyps(1))
  then show ?case by (subst processTasks.simps) (simp add: Cons.hyps(2)[symmetric])
qed

lemma channel_step_inv: "channel_inv host c \<Longrightarrow> channel_inv host (channel_step host c op)"
proof (induction op)
  case (PushOutgoing p cb)
  then show ?case by (simp add: pushOutgoingMessage_def)
next
  case (PushEphemeral p cb)
  then show ?case by (simp add: pushOutgoingEphemeralMessage_def)
next
  case (PushIncoming m h)
  then show ?case by (simp add: pushIncomingMessage_def)
next
  case (ProcessTasks clock)
  then show ?case by (simp add: processTasks_inv)
next
  case (SweepIncomingBuffer now)
  from sweepIncomingBuffer_spec[OF this, of now] show ?case by auto
next
  case (SweepRepairIncoming now cb)
  then show ?case by (simp add: sweepRepair_spec)
next
  case (PushSync now random cb)
  from pushOutgoingSyncMessage_inv[OF this] show ?case by simp
qed

lemma channel_run_inv: "channel_inv host c \<Longrightarrow> channel_inv host (channel_run host c ops)"
  by (induction ops arbitrary: c) (auto intro: channel_step_inv)

end

section \<open>Properties\<close>

text \<open>C1: A new channel, whatever calls the client makes on it in whatever order, with callbacks that
  succeed, fail or throw, keeps its invariant: the outgoing buffer holds own content messages with
  distinct ids; the history is bounded, holds content messages with distinct ids, and each of them
  is found in the bloom filter the channel sends; the incoming buffer holds messages of other
  participants on this channel, the content messages among them in the filter too; no timestamp of
  the outgoing buffer or the history is ahead of the logical clock; the counts of possible
  acknowledgements lie below the threshold; and the repair buffers are well formed.\<close>

theorem channel_run_invariant:
  assumes "config_ok (o_repairConfig opts)"
  shows "\<exists>c0. channel_new DEFAULT_BLOOM_FILTER_OPTIONS now cid sid opts (new_history n) = Inr c0
    \<and> channel_inv (js_host sha256 collate) (channel_run (js_host sha256 collate) c0 ops)"
  using channel_new_inv[OF assms] js.channel_run_inv by blast

definition default_options :: channel_options where
  "default_options = \<lparr>o_causalHistorySize = None, o_timeoutForLostMessagesMs = None,
     o_possibleAcksThreshold = None, o_enableRepair = None, o_repairConfig = DEFAULT_REPAIR_CONFIG\<rparr>"

lemma default_config_ok: "config_ok (o_repairConfig default_options)"
  by (simp add: default_options_def DEFAULT_REPAIR_CONFIG_def config_ok_def)

theorem channel_run_invariant_witness:
  "\<exists>c0. channel_new DEFAULT_BLOOM_FILTER_OPTIONS 1000 ''c'' ''alice'' default_options (new_history 10000)
       = Inr c0
     \<and> channel_inv (js_host (\<lambda>_. replicate 32 7) codeunit_compare)
         (channel_run (js_host (\<lambda>_. replicate 32 7) codeunit_compare) c0
           [PushOutgoing [1] (Some (\<lambda>_. Inr (True, None))), ProcessTasks (\<lambda>k. 2000 + k),
            PushIncoming (stamped 3000 ''m'') None, ProcessTasks (\<lambda>k. 4000 + k), SweepIncomingBuffer 5000])"
  using channel_run_invariant[OF default_config_ok] by blast

section \<open>Receiving\<close>

context channel_host
begin

lemma receive_ok:
  assumes "channel_inv host c" and "\<not> dropped c m" and "\<not> filter_too_short m"
  shows "\<exists>c' es. push_incoming host now c m = (c', Inr ()) \<and> channel_inv host c'
    \<and> emitted c' = emitted c @ received_event m # es
    \<and> (isContentMessage m \<longrightarrow> in_filter host c' (messageId m))
    \<and> (if missingDependencies c m = []
       then incomingBuffer c' = incomingBuffer c \<and> timeReceived c' = timeReceived c
         \<and> (isContentMessage m \<longrightarrow> InMessageDelivered (messageId m) \<in> set es \<and> not_after (lamport c') m
              \<and> (length (items (localHistory c)) < maxLength (localHistory c) \<longrightarrow>
                   history_ids (localHistory c') = insert (messageId m) (history_ids (localHistory c))))
         \<and> history_ids (localHistory c') \<subseteq> insert (messageId m) (history_ids (localHistory c))
       else incomingBuffer c' = incomingBuffer c @ [m] \<and> localHistory c' = localHistory c
         \<and> lamport c' = lamport c \<and> timeReceived c' = (timeReceived c)(messageId m \<mapsto> now)
         \<and> last es = InMessageMissing (missingDependencies c m))"
proof -
  from push_incoming_accepted[OF assms(1,2), of now] assms(3) obtain c5 es where
    c5: "push_incoming host now c m = await_or_deliver host now c5 m" "channel_inv host c5"
      "extends c c5" "same_log c (c5\<lparr>bloom_filter := bloom_filter c\<rparr>)"
      "isContentMessage m \<longrightarrow> in_filter host c5 (messageId m)"
      "emitted c5 = emitted c @ received_event m # es" by auto
  have missing: "missingDependencies c5 m = missingDependencies c m"
    using c5(4) by (simp add: missingDependencies_def isMessageAvailable_def same_log_def)
  have ids: "senderId m \<noteq> ch_senderId c5" "channelId m = ch_channelId c5"
    using c5(3) assms(2) by (auto simp: dropped_def extends_def)
  have kind: "isSyncMessage m \<or> isContentMessage m \<and> in_filter host c5 (messageId m)"
    using c5(5) assms(2) by (auto simp: dropped_def)
  show ?thesis
  proof (cases "missingDependencies c m = []")
    case True
    from deliver_and_emit_inv[OF c5(2) kind] obtain c6 where
      c6: "deliver_and_emit host c5 m = (c6, Inr ())" "channel_inv host c6"
        "bloom_filter c6 = bloom_filter c5" "incomingBuffer c6 = incomingBuffer c5"
        "timeReceived c6 = timeReceived c5"
        "emitted c6 = emitted c5 @ (if isContentMessage m then [InMessageDelivered (messageId m)] else [])"
        "isContentMessage m \<longrightarrow> not_after (lamport c6) m"
        "history_ids (localHistory c6) \<subseteq> insert (messageId m) (history_ids (localHistory c5))"
        "isContentMessage m \<and> length (items (localHistory c5)) < maxLength (localHistory c5) \<longrightarrow>
         history_ids (localHistory c6) = insert (messageId m) (history_ids (localHistory c5))" by blast
    with True c5 missing show ?thesis
      by (auto simp: await_or_deliver_def same_log_def in_filter_def)
  next
    case False
    from await_or_deliver_inv[OF c5(2) ids kind] obtain c6 where
      c6: "await_or_deliver host now c5 m = (c6, Inr ())" "channel_inv host c6" by blast
    let ?w = "c5\<lparr>incomingBuffer := incomingBuffer c5 @ [m], timeReceived := (timeReceived c5)(messageId m \<mapsto> now)\<rparr>"
    let ?f = "\<lambda>rm. markDependenciesMissing (h_sha256 host) rm (missingDependencies c m) (int now)"
    obtain c7 r where w: "with_repair ?f ?w = (c7, r)" by fastforce
    then have c6': "c6 = safeSendEvent c7 (InMessageMissing (missingDependencies c m))"
      using c6(1) False missing by (cases r) (simp_all add: await_or_deliver_def returns_def Let_def)
    have "same_log ?w c7" "extends ?w c7"
      using with_repair_log[of ?w ?f] with_repair_extends[of ?w ?f] w by simp_all
    then have "same_log ?w c6" "\<exists>es. emitted c7 = emitted c5 @ es"
      using c6' by (simp_all add: same_log_def extends_def) (simp_all add: safeSendEvent_def)
    with c6 c5 False c6' show ?thesis
      by (auto simp: same_log_def in_filter_def safeSendEvent_def)
  qed
qed

end

text \<open>A message for another channel, one of the participant itself, an ephemeral one and a content
  message whose id has a reception time are dropped without a trace; any other message is announced,
  and the call throws exactly when the message carries a bloom filter shorter than 18752 bytes.\<close>

theorem received_or_dropped:
  assumes "channel_inv (js_host sha256 collate) c"
  shows "(if dropped c m then push_incoming (js_host sha256 collate) now c m = (c, Inr ())
    else \<exists>c' es. push_incoming (js_host sha256 collate) now c m =
           (c', if filter_too_short m then Inl RangeError else Inr ())
         \<and> emitted c' = emitted c @ received_event m # es)"
proof (cases "dropped c m \<or> \<not> filter_too_short m")
  case True
  with js.push_incoming_dropped js.receive_ok[OF assms, of m now] show ?thesis by auto
next
  case False
  with js.push_incoming_accepted[OF assms, of m now] show ?thesis by auto
qed

text \<open>C2: A received message whose dependencies are all available is delivered at once: the clock
  reaches its timestamp, its id enters the bloom filter and, while there is room, the history gains
  exactly this id. A message with missing dependencies waits at the end of the incoming buffer with
  its reception time, the missing entries are reported, and neither the history nor the clock
  changes.\<close>

theorem receive_delivers_or_waits:
  assumes "channel_inv (js_host sha256 collate) c" and "\<not> dropped c m" and "\<not> filter_too_short m"
    and "isContentMessage m"
  shows "\<exists>c' es. push_incoming (js_host sha256 collate) now c m = (c', Inr ())
    \<and> emitted c' = emitted c @ InMessageReceived m # es
    \<and> in_filter (js_host sha256 collate) c' (messageId m)
    \<and> (if missingDependencies c m = []
       then incomingBuffer c' = incomingBuffer c \<and> InMessageDelivered (messageId m) \<in> set es
         \<and> not_after (lamport c') m
         \<and> (length (items (localHistory c)) < maxLength (localHistory c) \<longrightarrow>
              history_ids (localHistory c') = insert (messageId m) (history_ids (localHistory c)))
       else incomingBuffer c' = incomingBuffer c @ [m] \<and> localHistory c' = localHistory c
         \<and> lamport c' = lamport c \<and> timeReceived c' (messageId m) = Some now
         \<and> last es = InMessageMissing (missingDependencies c m))"
proof -
  have "received_event m = InMessageReceived m"
    using assms(4) content_not_sync[of m] by (simp add: received_event_def)
  with js.receive_ok[OF assms(1-3), of now] assms(4) obtain c' es where
    "push_incoming (js_host sha256 collate) now c m = (c', Inr ())"
    "emitted c' = emitted c @ InMessageReceived m # es"
    "in_filter (js_host sha256 collate) c' (messageId m)"
    "if missingDependencies c m = []
     then incomingBuffer c' = incomingBuffer c \<and> InMessageDelivered (messageId m) \<in> set es
       \<and> not_after (lamport c') m
       \<and> (length (items (localHistory c)) < maxLength (localHistory c) \<longrightarrow>
            history_ids (localHistory c') = insert (messageId m) (history_ids (localHistory c)))
     else incomingBuffer c' = incomingBuffer c @ [m] \<and> localHistory c' = localHistory c
       \<and> lamport c' = lamport c \<and> timeReceived c' (messageId m) = Some now
       \<and> last es = InMessageMissing (missingDependencies c m)"
    by (auto split: if_splits)
  then show ?thesis by blast
qed

text \<open>Delivery is not causal: a dependency counts as available while it only waits in the incoming
  buffer, so a message is delivered although a message it depends on is not, and is not in the
  history afterwards either.\<close>

theorem delivered_before_dependency:
  assumes "channel_inv (js_host sha256 collate) c" and "\<not> dropped c m" and "\<not> filter_too_short m"
    and "isContentMessage m" and "e \<in> set (causalHistory m)" and "he_messageId e \<noteq> messageId m"
    and "he_messageId e \<notin> history_ids (localHistory c)"
    and "\<forall>x\<in>set (causalHistory m). he_messageId x \<in> messageId ` set (incomingBuffer c)"
  shows "\<exists>c' es. push_incoming (js_host sha256 collate) now c m = (c', Inr ())
    \<and> emitted c' = emitted c @ es \<and> InMessageDelivered (messageId m) \<in> set es
    \<and> he_messageId e \<notin> history_ids (localHistory c')"
proof -
  have "missingDependencies c m = []"
    using assms(8)
    by (fastforce simp: missingDependencies_def isMessageAvailable_def list_ex_iff filter_empty_conv image_iff)
  with js.receive_ok[OF assms(1-3), of now] assms(4,6,7) show ?thesis by fastforce
qed

text \<open>The channel of the examples: participant ''alice'' on channel ''c'', default options.\<close>

lemma alice:
  obtains c where "channel_new DEFAULT_BLOOM_FILTER_OPTIONS 1000 ''c'' ''alice'' default_options (new_history 5) = Inr c"
    "channel_inv host c" "ch_channelId c = ''c''" "ch_senderId c = ''alice''" "incomingBuffer c = []"
    "outgoingBuffer c = []" "localHistory c = new_history 5" "timeReceived c = Map.empty"
    "possibleAcks c = Map.empty" "lamport c = 1000" "emitted c = []" "possibleAcksThreshold c = 2"
    "tasks c = []" "timeoutForLostMessagesMs c = None" "causalHistorySize c = 200"
  using channel_new_inv[OF default_config_ok, of 1000 "''c''" "''alice''" 5 host]
  by (auto simp: default_options_def or_default_def)

lemma stamped_kind [simp]:
  "isContentMessage ((stamped t i)\<lparr>causalHistory := es, bloomFilter := bs\<rparr>)"
  "isContentMessage (stamped t i)" "isContentMessage ((stamped t i)\<lparr>causalHistory := es\<rparr>)"
  "\<not> filter_too_short (stamped t i)" "\<not> filter_too_short ((stamped t i)\<lparr>causalHistory := es\<rparr>)"
  by (simp_all add: stamped_def message_tests filter_too_short_def)

lemma stamped_dropped:
  "ch_channelId c = ''c'' \<Longrightarrow> ch_senderId c = ''alice'' \<Longrightarrow> timeReceived c i = None \<Longrightarrow>
    \<not> dropped c ((stamped t i)\<lparr>causalHistory := es\<rparr>)"
  using stamped_kind(3)[of es t i]
  by (simp add: dropped_def is_duplicate_def) (simp add: stamped_def)

lemma stamped_no_history [simp]: "(stamped t i)\<lparr>causalHistory := []\<rparr> = stamped t i"
  by (simp add: stamped_def)

lemma stamped_fields [simp]:
  "messageId (stamped t i) = i" "causalHistory (stamped t i) = []" "lamportTimestamp (stamped t i) = Some t"
  by (simp_all add: stamped_def)

theorem received_or_dropped_witness:
  "\<exists>c c' es. channel_new DEFAULT_BLOOM_FILTER_OPTIONS 1000 ''c'' ''alice'' default_options (new_history 5) = Inr c
     \<and> push_incoming (js_host (\<lambda>_. []) codeunit_compare) 7 c (stamped 5 ''m'') = (c', Inr ())
     \<and> emitted c' = received_event (stamped 5 ''m'') # es"
proof -
  obtain c where c: "channel_new DEFAULT_BLOOM_FILTER_OPTIONS 1000 ''c'' ''alice'' default_options (new_history 5) = Inr c"
    "channel_inv (js_host (\<lambda>_. []) codeunit_compare) c" "ch_channelId c = ''c''" "ch_senderId c = ''alice''"
    "timeReceived c = Map.empty" "emitted c = []" by (rule alice)
  have "\<not> dropped c (stamped 5 ''m'')" using c stamped_dropped[of c "''m''" "[]" 5] by simp
  with received_or_dropped[OF c(2), of "stamped 5 ''m''" 7] c show ?thesis by auto
qed

theorem receive_delivers_or_waits_witness:
  "\<exists>c c' es. channel_new DEFAULT_BLOOM_FILTER_OPTIONS 1000 ''c'' ''alice'' default_options (new_history 5) = Inr c
     \<and> push_incoming (js_host (\<lambda>_. []) codeunit_compare) 7 c (stamped 5 ''m'') = (c', Inr ())
     \<and> emitted c' = InMessageReceived (stamped 5 ''m'') # es \<and> InMessageDelivered ''m'' \<in> set es
     \<and> history_ids (localHistory c') = {''m''}"
proof -
  obtain c where c: "channel_new DEFAULT_BLOOM_FILTER_OPTIONS 1000 ''c'' ''alice'' default_options (new_history 5) = Inr c"
    "channel_inv (js_host (\<lambda>_. []) codeunit_compare) c" "ch_channelId c = ''c''" "ch_senderId c = ''alice''"
    "timeReceived c = Map.empty" "emitted c = []" "localHistory c = new_history 5" by (rule alice)
  have "\<not> dropped c (stamped 5 ''m'')" using c stamped_dropped[of c "''m''" "[]" 5] by simp
  moreover have "missingDependencies c (stamped 5 ''m'') = []" by (simp add: missingDependencies_def)
  ultimately show ?thesis
    using receive_delivers_or_waits[OF c(2), of "stamped 5 ''m''" 7] c
    by (auto simp: new_history_def history_ids_def)
qed

theorem delivered_before_dependency_witness:
  "\<exists>c c' es. channel_inv (js_host (\<lambda>_. []) codeunit_compare) c
     \<and> push_incoming (js_host (\<lambda>_. []) codeunit_compare) 8 c
          ((stamped 6 ''m'')\<lparr>causalHistory := [sample_entry ''d'']\<rparr>) = (c', Inr ())
     \<and> InMessageDelivered ''m'' \<in> set (emitted c') \<and> ''d'' \<notin> history_ids (localHistory c')"
proof -
  let ?host = "js_host (\<lambda>_. []) codeunit_compare"
  let ?d = "(stamped 5 ''d'')\<lparr>causalHistory := [sample_entry ''x'']\<rparr>"
  let ?m = "(stamped 6 ''m'')\<lparr>causalHistory := [sample_entry ''d'']\<rparr>"
  obtain c where c: "channel_inv ?host c" "ch_channelId c = ''c''" "ch_senderId c = ''alice''"
    "timeReceived c = Map.empty" "localHistory c = new_history 5" "incomingBuffer c = []" by (rule alice)
  have "missingDependencies c ?d \<noteq> []"
    using c by (simp add: missingDependencies_def isMessageAvailable_def history_some_def new_history_def)
  moreover have "\<not> dropped c ?d" using c by (intro stamped_dropped) auto
  ultimately obtain c1 where c1: "push_incoming ?host 7 c ?d = (c1, Inr ())" "channel_inv ?host c1"
      "incomingBuffer c1 = [?d]" "localHistory c1 = new_history 5" "timeReceived c1 = [''d'' \<mapsto> 7]"
    using js.receive_ok[OF c(1), of ?d 7] c by auto
  have "extends c c1" using push_incoming_extends[of c ?host 7 ?d] c1(1) by simp
  with c1(5) c(2,3) have "\<not> dropped c1 ?m" by (intro stamped_dropped) (auto simp: extends_def)
  with delivered_before_dependency[OF c1(2), of ?m "sample_entry ''d''" 8] c1
  have "\<exists>c' es. push_incoming ?host 8 c1 ?m = (c', Inr ())
    \<and> emitted c' = emitted c1 @ es \<and> InMessageDelivered (messageId ?m) \<in> set es
    \<and> he_messageId (sample_entry ''d'') \<notin> history_ids (localHistory c')"
    by (simp add: sample_entry_def history_ids_def new_history_def)
  with c1(2) show ?thesis by (auto simp: sample_entry_def)
qed

section \<open>Receiving: failures\<close>

text \<open>A message that was delivered at once is not remembered as received: when it arrives a second
  time it is announced and delivered again.\<close>

theorem duplicate_delivered_twice:
  assumes "channel_inv (js_host sha256 collate) c" and "\<not> dropped c m" and "\<not> filter_too_short m"
    and "isContentMessage m" and "missingDependencies c m = []"
    and "length (items (localHistory c)) < maxLength (localHistory c)"
  shows "\<exists>c1 c2 es1 es2. push_incoming (js_host sha256 collate) now c m = (c1, Inr ())
    \<and> push_incoming (js_host sha256 collate) later c1 m = (c2, Inr ())
    \<and> emitted c1 = emitted c @ es1 \<and> emitted c2 = emitted c1 @ es2
    \<and> InMessageDelivered (messageId m) \<in> set es1 \<and> InMessageDelivered (messageId m) \<in> set es2"
proof -
  let ?host = "js_host sha256 collate"
  from js.receive_ok[OF assms(1-3), of now] assms(4-6) obtain c1 es1 where
    c1: "push_incoming ?host now c m = (c1, Inr ())" "channel_inv ?host c1"
      "emitted c1 = emitted c @ received_event m # es1" "InMessageDelivered (messageId m) \<in> set es1"
      "incomingBuffer c1 = incomingBuffer c" "timeReceived c1 = timeReceived c"
      "history_ids (localHistory c1) = insert (messageId m) (history_ids (localHistory c))" by auto
  have "extends c c1" using push_incoming_extends[of c ?host now m] c1(1) by simp
  with assms(2) c1(6) have d: "\<not> dropped c1 m" by (simp add: dropped_def is_duplicate_def extends_def)
  have "history_some (\<lambda>x. messageId x = i) (localHistory c1)"
    if "history_some (\<lambda>x. messageId x = i) (localHistory c)" for i
    using that c1(7) by (simp add: history_some_iff)
  with assms(5) c1(5) have "missingDependencies c1 m = []"
    by (auto simp: missingDependencies_def isMessageAvailable_def filter_empty_conv split: if_splits)
  with js.receive_ok[OF c1(2) d assms(3), of later] assms(4) obtain c2 es2 where
    "push_incoming ?host later c1 m = (c2, Inr ())" "emitted c2 = emitted c1 @ received_event m # es2"
    "InMessageDelivered (messageId m) \<in> set es2" by auto
  with c1 show ?thesis by (intro exI conjI) (assumption | simp)+
qed

theorem duplicate_delivered_twice_witness:
  "\<exists>c c1 c2 es2. channel_inv (js_host (\<lambda>_. []) codeunit_compare) c
     \<and> push_incoming (js_host (\<lambda>_. []) codeunit_compare) 7 c (stamped 5 ''m'') = (c1, Inr ())
     \<and> push_incoming (js_host (\<lambda>_. []) codeunit_compare) 8 c1 (stamped 5 ''m'') = (c2, Inr ())
     \<and> InMessageDelivered ''m'' \<in> set (emitted c1) \<and> InMessageDelivered ''m'' \<in> set es2
     \<and> emitted c2 = emitted c1 @ es2"
proof -
  obtain c where c: "channel_inv (js_host (\<lambda>_. []) codeunit_compare) c" "ch_channelId c = ''c''"
    "ch_senderId c = ''alice''" "timeReceived c = Map.empty" "emitted c = []" "localHistory c = new_history 5"
    by (rule alice)
  have "\<not> dropped c (stamped 5 ''m'')" using c stamped_dropped[of c "''m''" "[]" 5] by simp
  moreover have "missingDependencies c (stamped 5 ''m'') = []" by (simp add: missingDependencies_def)
  ultimately obtain c1 c2 es1 es2 where
    "push_incoming (js_host (\<lambda>_. []) codeunit_compare) 7 c (stamped 5 ''m'') = (c1, Inr ())"
    "push_incoming (js_host (\<lambda>_. []) codeunit_compare) 8 c1 (stamped 5 ''m'') = (c2, Inr ())"
    "emitted c1 = es1" "emitted c2 = emitted c1 @ es2"
    "InMessageDelivered ''m'' \<in> set es1" "InMessageDelivered ''m'' \<in> set es2"
    using duplicate_delivered_twice[OF c(1), of "stamped 5 ''m''" 7 8] c by (auto simp: new_history_def)
  with c(1) show ?thesis by blast
qed

text \<open>A message whose bloom filter is too short for the default filter is announced and then lost:
  its task ends in a task error, and history, incoming buffer, own filter and reception times are as
  if it had not arrived.\<close>

theorem short_filter_loses_message:
  assumes "channel_inv (js_host sha256 collate) c" and "\<not> dropped c m" and "filter_too_short m"
  shows "same_log c (executeTask (js_host sha256 collate) now later c (Receive m))
    \<and> (\<exists>es. emitted (executeTask (js_host sha256 collate) now later c (Receive m)) =
          emitted c @ received_event m # es @ [TaskError CmdReceive RangeError, ErrorTask CmdReceive RangeError])"
proof -
  from js.push_incoming_accepted[OF assms(1,2), of now] assms(3) obtain c4 es where
    "push_incoming (js_host sha256 collate) now c m = (c4, Inl RangeError)" "same_log c c4"
    "emitted c4 = emitted c @ received_event m # es" by auto
  then show ?thesis
    by (auto simp: executeTask_def run_handler_def safeSendEvent_def same_log_def)
qed

theorem short_filter_loses_message_witness:
  "\<exists>c. channel_inv (js_host (\<lambda>_. []) codeunit_compare) c
     \<and> same_log c (executeTask (js_host (\<lambda>_. []) codeunit_compare) 7 8 c
          (Receive ((stamped 5 ''m'')\<lparr>bloomFilter := Some [0]\<rparr>)))"
proof -
  obtain c where c: "channel_inv (js_host (\<lambda>_. []) codeunit_compare) c" "ch_channelId c = ''c''"
    "ch_senderId c = ''alice''" "timeReceived c = Map.empty" by (rule alice)
  have "\<not> dropped c ((stamped 5 ''m'')\<lparr>bloomFilter := Some [0]\<rparr>)"
    using c by (simp add: dropped_def is_duplicate_def) (simp add: stamped_def message_tests)
  moreover have "filter_too_short ((stamped 5 ''m'')\<lparr>bloomFilter := Some [0]\<rparr>)"
    by (simp add: filter_too_short_def)
  ultimately show ?thesis using short_filter_loses_message[OF c(1)] c(1) by blast
qed

section \<open>Acknowledgements\<close>

context channel_host
begin

lemma review_with_filter:
  assumes "channel_inv host c" and "default_filter_ok bf" and "bloomFilter m = Some (bloom_toBytes bf)"
  shows "\<exists>c' es. reviewAckStatus host c m = (c', Inr ()) \<and> channel_inv host c'
    \<and> emitted c' = emitted c @ es
    \<and> outgoingBuffer c' = filter (\<lambda>x. messageId x \<notin> he_messageId ` set (causalHistory m)
          \<and> \<not> acked_by (h_hashN host) bf c x) (outgoingBuffer c)
    \<and> (\<forall>x\<in>set (outgoingBuffer c).
         if messageId x \<in> he_messageId ` set (causalHistory m)
         then OutMessageAcknowledged (messageId x) \<in> set es
         else if acked_by (h_hashN host) bf c x
         then OutMessageAcknowledged (messageId x) \<in> set es \<and> possibleAcks c' (messageId x) = None
         else possibleAcks c' (messageId x) =
           (if bloom_hit (h_hashN host) bf x then Some (ack_count c x) else possibleAcks c (messageId x)))"
proof -
  let ?ids = "he_messageId ` set (causalHistory m)"
  define c1 where "c1 = ack_by_history (causalHistory m) c"
  note h = ack_by_history_spec[OF assms(1), of "causalHistory m", folded c1_def]
  have c1: "channel_inv host c1" "outgoingBuffer c1 = filter (\<lambda>x. messageId x \<notin> ?ids) (outgoingBuffer c)"
    "possibleAcks c1 = possibleAcks c" using h by auto
  have thr: "possibleAcksThreshold c1 = possibleAcksThreshold c"
    using ack_by_history_extends[of c "causalHistory m"] by (simp add: c1_def extends_def)
  have same: "ack_count c1 = ack_count c" "acked_by (h_hashN host) bf c1 = acked_by (h_hashN host) bf c"
    using c1(3) thr by (simp_all add: fun_eq_iff ack_count_def acked_by_def)
  have opts: "options (bloom_filter c1) = DEFAULT_BLOOM_FILTER_OPTIONS"
    using c1(1) by (simp add: channel_inv_def default_filter_ok_def)
  have bf: "bloom_fromBytes (bloom_toBytes bf) DEFAULT_BLOOM_FILTER_OPTIONS = Inr bf"
    by (rule fromBytes_toBytes) (rule default_filter_sized[OF assms(2)])
  have d: "distinct (map messageId (outgoingBuffer c1))"
    using c1(1) by (simp add: channel_inv_def outgoing_ok_def)
  obtain p es where p: "ack_by_bloom (h_hashN host) bf (outgoingBuffer c1) [] c1 =
      (c1\<lparr>possibleAcks := p, emitted := emitted c1 @ es\<rparr>,
       Inr (filter (\<lambda>m. \<not> acked_by (h_hashN host) bf c1 m) (outgoingBuffer c1)))"
    and r: "review_result (h_hashN host) bf c1 (outgoingBuffer c1) p es"
    using ack_by_bloom_spec[OF lookup_total[OF assms(2)] d, of "[]" c1] by auto
  obtain es0 where es0: "emitted c1 = emitted c @ es0"
    "\<And>x. x \<in> set (outgoingBuffer c) \<Longrightarrow> messageId x \<in> ?ids \<Longrightarrow> OutMessageAcknowledged (messageId x) \<in> set es0"
    using h by blast
  let ?c' = "c1\<lparr>possibleAcks := p, emitted := emitted c1 @ es,
    outgoingBuffer := filter (\<lambda>m. \<not> acked_by (h_hashN host) bf c m) (outgoingBuffer c1)\<rparr>"
  have "reviewAckStatus host c m = (?c', Inr ())"
    using p assms(3) bf opts same(2) by (simp add: reviewAckStatus_def Let_def c1_def[symmetric] returns_def)
  moreover have "channel_inv host ?c'"
    using reviewAckStatus_inv(1)[OF assms(1), of m] calculation by simp
  moreover have "emitted ?c' = emitted c @ es0 @ es" by (simp add: es0(1))
  moreover have "outgoingBuffer ?c' = filter (\<lambda>x. messageId x \<notin> ?ids \<and> \<not> acked_by (h_hashN host) bf c x)
      (outgoingBuffer c)" by (simp add: c1(2) conj_commute)
  moreover have "if messageId x \<in> ?ids then OutMessageAcknowledged (messageId x) \<in> set (es0 @ es)
      else if acked_by (h_hashN host) bf c x
      then OutMessageAcknowledged (messageId x) \<in> set (es0 @ es) \<and> possibleAcks ?c' (messageId x) = None
      else possibleAcks ?c' (messageId x) =
        (if bloom_hit (h_hashN host) bf x then Some (ack_count c x) else possibleAcks c (messageId x))"
    if "x \<in> set (outgoingBuffer c)" for x
    using es0(2)[OF that] r that same c1(2,3) by (auto simp: review_result_def)
  ultimately show ?thesis by blast
qed

end

text \<open>Reviewing the same message (a participant's filter only grows) several times.\<close>

fun review_times :: "host \<Rightarrow> message \<Rightarrow> nat \<Rightarrow> channel \<Rightarrow> channel" where
  "review_times host s 0 c = c"
| "review_times host s (Suc n) c = fst (reviewAckStatus host (review_times host s n c) s)"

context channel_host
begin

lemma history_in_filter: "channel_inv host a \<Longrightarrow> i \<in> history_ids (localHistory a) \<Longrightarrow> in_filter host a i"
  by (auto simp: channel_inv_def history_ok_def history_ids_def)

lemma review_times_counts:
  assumes "channel_inv host b" and "x \<in> set (outgoingBuffer b)" and "default_filter_ok bf"
    and "bloomFilter s = Some (bloom_toBytes bf)" and "bloom_hit (h_hashN host) bf x"
  shows "channel_inv host (review_times host s n b) \<and> extends b (review_times host s n b)
    \<and> (if x \<in> set (outgoingBuffer (review_times host s n b))
       then n \<le> or_default 0 (possibleAcks (review_times host s n b) (messageId x))
       else OutMessageAcknowledged (messageId x) \<in> set (emitted (review_times host s n b)))"
proof (induction n)
  case 0
  with assms(1,2) show ?case by simp
next
  case (Suc n)
  let ?c = "review_times host s n b"
  from Suc have c: "channel_inv host ?c" "extends b ?c" by blast+
  from review_with_filter[OF c(1) assms(3,4)] obtain c' es where
    c': "reviewAckStatus host ?c s = (c', Inr ())" "channel_inv host c'" "emitted c' = emitted ?c @ es"
      "outgoingBuffer c' = filter (\<lambda>x. messageId x \<notin> he_messageId ` set (causalHistory s)
          \<and> \<not> acked_by (h_hashN host) bf ?c x) (outgoingBuffer ?c)"
    and each: "\<forall>x\<in>set (outgoingBuffer ?c).
         if messageId x \<in> he_messageId ` set (causalHistory s)
         then OutMessageAcknowledged (messageId x) \<in> set es
         else if acked_by (h_hashN host) bf ?c x
         then OutMessageAcknowledged (messageId x) \<in> set es \<and> possibleAcks c' (messageId x) = None
         else possibleAcks c' (messageId x) =
           (if bloom_hit (h_hashN host) bf x then Some (ack_count ?c x) else possibleAcks ?c (messageId x))"
    by blast
  have step: "review_times host s (Suc n) b = c'" using c'(1) by simp
  have "extends b c'" using extends_trans[OF c(2) reviewAckStatus_extends[of ?c host s]] c'(1) by simp
  moreover have "if x \<in> set (outgoingBuffer c') then Suc n \<le> or_default 0 (possibleAcks c' (messageId x))
      else OutMessageAcknowledged (messageId x) \<in> set (emitted c')"
  proof (cases "x \<in> set (outgoingBuffer ?c)")
    case True
    with Suc have "n \<le> or_default 0 (possibleAcks ?c (messageId x))" by simp
    with each[rule_format, OF True] True c'(3,4) assms(5) show ?thesis
      by (auto simp: ack_count_def or_default_def split: if_splits)
  next
    case False
    with Suc have "OutMessageAcknowledged (messageId x) \<in> set (emitted ?c)" by simp
    with False c'(3,4) show ?thesis by simp
  qed
  ultimately show ?case unfolding step using c'(2) by blast
qed

lemma review_until_acked:
  assumes "channel_inv host b" and "x \<in> set (outgoingBuffer b)" and "default_filter_ok bf"
    and "bloomFilter s = Some (bloom_toBytes bf)" and "bloom_hit (h_hashN host) bf x"
    and "0 < n" and "possibleAcksThreshold b \<le> int n"
  shows "x \<notin> set (outgoingBuffer (review_times host s n b))
    \<and> OutMessageAcknowledged (messageId x) \<in> set (emitted (review_times host s n b))"
proof -
  let ?c = "review_times host s n b"
  note r = review_times_counts[OF assms(1-5), of n]
  have "x \<notin> set (outgoingBuffer ?c)"
  proof
    assume "x \<in> set (outgoingBuffer ?c)"
    with r assms(6) obtain k where k: "possibleAcks ?c (messageId x) = Some k" "n \<le> k"
      by (cases "possibleAcks ?c (messageId x)") (auto simp: or_default_def)
    have "acks_ok ?c" "possibleAcksThreshold ?c = possibleAcksThreshold b"
      using r by (simp_all add: channel_inv_def extends_def)
    with k(1) have "int k < possibleAcksThreshold b" by (auto simp: acks_ok_def)
    with k(2) assms(7) show False by linarith
  qed
  with r show ?thesis by simp
qed

end

text \<open>C16: A received message removes from the outgoing buffer the messages its causal history names and,
  among those its bloom filter contains, the ones whose count of possible acknowledgements reaches
  the threshold, each with an event; a contained message below the threshold has its count raised by
  one, and every other message and count stays.\<close>

theorem review_acknowledges:
  assumes "channel_inv (js_host sha256 collate) c" and "default_filter_ok bf"
    and "bloomFilter m = Some (bloom_toBytes bf)"
  shows "\<exists>c' es. reviewAckStatus (js_host sha256 collate) c m = (c', Inr ())
    \<and> emitted c' = emitted c @ es
    \<and> outgoingBuffer c' = filter (\<lambda>x. messageId x \<notin> he_messageId ` set (causalHistory m)
          \<and> \<not> acked_by nim_hashN bf c x) (outgoingBuffer c)
    \<and> (\<forall>x\<in>set (outgoingBuffer c).
         if messageId x \<in> he_messageId ` set (causalHistory m)
         then OutMessageAcknowledged (messageId x) \<in> set es
         else if acked_by nim_hashN bf c x
         then OutMessageAcknowledged (messageId x) \<in> set es \<and> possibleAcks c' (messageId x) = None
         else possibleAcks c' (messageId x) =
           (if bloom_hit nim_hashN bf x then Some (ack_count c x) else possibleAcks c (messageId x)))"
proof -
  have "h_hashN (js_host sha256 collate) = nim_hashN" by (simp add: js_host_def)
  with js.review_with_filter[OF assms] show ?thesis by fastforce
qed


section \<open>Sending\<close>

lemma take_repair_requests_state:
  "\<exists>r. fst (take_repair_requests now c) = c\<lparr>repairManager := r\<rparr>"
  by (cases "repairManager c")
    (auto simp: take_repair_requests_def split: prod.splits intro: exI[of _ None])

lemma send_new:
  assumes "p \<noteq> []" and "getMessageId host p \<notin> messageId ` set (outgoingBuffer c)"
  shows "\<exists>c1 m. push_outgoing_begin host now c p = (c1, Inr m)
    \<and> outgoingBuffer c1 = outgoingBuffer c @ [m] \<and> localHistory c1 = localHistory c
    \<and> emitted c1 = emitted c \<and> bloom_filter c1 = bloom_filter c
    \<and> lamport c1 = lamportTimestampIncrement now (lamport c)
    \<and> isContentMessage m \<and> messageId m = getMessageId host p \<and> content m = Some p
    \<and> senderId m = ch_senderId c \<and> channelId m = ch_channelId c
    \<and> lamportTimestamp m = Some (lamport c1) \<and> causalHistory m = recent_history c
    \<and> bloomFilter m = Some (bloom_toBytes (bloom_filter c)) \<and> retrievalHint m = None"
proof -
  let ?c = "c\<lparr>lamport := lamportTimestampIncrement now (lamport c)\<rparr>" and ?mid = "getMessageId host p"
  have none: "find (\<lambda>m. messageId m = ?mid) (outgoingBuffer c) = None"
    using assms(2) by (simp add: find_key_None)
  obtain r rs where t: "take_repair_requests now ?c = (?c\<lparr>repairManager := r\<rparr>, rs)"
    using take_repair_requests_state[of now ?c] by (metis prod.collapse)
  obtain m where m: "ContentMessage ?mid (ch_channelId c) (ch_senderId c) (recent_history c)
      (lamportTimestampIncrement now (lamport c)) (Some (bloom_toBytes (bloom_filter c))) p rs = Inr m"
    using assms(1) by (simp add: ContentMessage_def)
  have "recent_history (?c\<lparr>repairManager := r\<rparr>) = recent_history c" by (simp add: recent_history_def)
  with none t m ContentMessage_Inr[OF m] show ?thesis
    by (simp add: push_outgoing_begin_def Let_def returns_def)
qed

lemma send_again:
  assumes "channel_inv host c" and "x \<in> set (outgoingBuffer c)" and "messageId x = getMessageId host p"
  shows "push_outgoing_begin host now c p =
    (c\<lparr>lamport := lamportTimestampIncrement now (lamport c)\<rparr>, Inr x)"
proof -
  have "distinct (map messageId (outgoingBuffer c))" using assms(1) by (simp add: channel_inv_def outgoing_ok_def)
  with assms(2,3) have "find (\<lambda>m. messageId m = getMessageId host p) (outgoingBuffer c) = Some x"
    by (intro find_key_distinct)
  then show ?thesis by (simp add: push_outgoing_begin_def Let_def returns_def)
qed



lemma alice_sent:
  obtains c x where "channel_inv (js_host (\<lambda>_. [7]) codeunit_compare) c" "outgoingBuffer c = [x]"
    "messageId x = ''07''" "possibleAcksThreshold c = 2" "possibleAcks c = Map.empty"
    "ch_channelId c = ''c''" "ch_senderId c = ''alice''" "localHistory c = new_history 5"
    "timeReceived c = Map.empty" "default_filter_ok (bloom_filter c)" "isContentMessage x"
    "not_after (lamport c) x" "emitted c = []"
proof -
  let ?host = "js_host (\<lambda>_. [7]) codeunit_compare"
  obtain c where c: "channel_inv ?host c" "outgoingBuffer c = []" "possibleAcksThreshold c = 2"
    "possibleAcks c = Map.empty" "ch_channelId c = ''c''" "ch_senderId c = ''alice''"
    "localHistory c = new_history 5" "timeReceived c = Map.empty" "emitted c = []" by (rule alice)
  from send_new[of "[1]" ?host c 900] c(2) obtain c1 m where
    m: "push_outgoing_begin ?host 900 c [1] = (c1, Inr m)" "outgoingBuffer c1 = [m]"
      "messageId m = getMessageId ?host [1]" "localHistory c1 = localHistory c" "emitted c1 = emitted c"
      "isContentMessage m" by auto
  have inv: "channel_inv ?host c1" using push_outgoing_begin_inv(1)[OF c(1), of 900 "[1]"] m(1) by simp
  have ext: "extends c c1" using push_outgoing_begin_extends(1)[of c ?host 900 "[1]"] m(1) by simp
  have "getMessageId ?host [1] = ''07''"
    by (simp add: getMessageId_def js_host_def hex_digit_def char_of_def bit_iff_odd)
  moreover have "timeReceived c1 = Map.empty \<and> possibleAcks c1 = Map.empty"
    using m(1) c(2,4,8) by (auto simp: push_outgoing_begin_def take_repair_requests_def Let_def
        split: option.splits prod.splits sum.splits)
  ultimately show thesis using inv ext m c that[of c1 m]
    by (auto simp: extends_def channel_inv_def outgoing_ok_def)
qed

text \<open>What the callback decides. If its promise rejects, the task fails with that error; if it resolves
  without success, nothing more happens; in both cases the message stays in the outgoing buffer, ready
  for a resend, and is in neither the history nor the events. On success its id is in the bloom
  filter, has a reception time (so an echo is dropped), enters the history while there is room, and
  the message with its retrieval hint is announced.\<close>

theorem send_outcome:
  assumes "channel_inv (js_host sha256 collate) c"
    and "push_outgoing_begin (js_host sha256 collate) now c p = (c1, Inr m)"
  shows "m \<in> set (outgoingBuffer c1) \<and>
    (case f m of
       Inl e \<Rightarrow> push_outgoing (js_host sha256 collate) now later c p (Some f) = (c1, Inl e)
     | Inr (False, hint) \<Rightarrow> push_outgoing (js_host sha256 collate) now later c p (Some f) = (c1, Inr ())
     | Inr (True, hint) \<Rightarrow>
         (\<exists>c2. push_outgoing (js_host sha256 collate) now later c p (Some f) = (c2, Inr ())
            \<and> in_filter (js_host sha256 collate) c2 (messageId m)
            \<and> timeReceived c2 (messageId m) = Some later
            \<and> last (emitted c2) = OutMessageSent (m\<lparr>retrievalHint := hint\<rparr>)
            \<and> map messageId (outgoingBuffer c2) = map messageId (outgoingBuffer c1)))"
proof -
  let ?host = "js_host sha256 collate"
  have c1: "channel_inv ?host c1" using push_outgoing_begin_inv(1)[OF assms(1), of now p] assms(2) by simp
  from push_outgoing_begin_inv(2)[OF assms] have m: "isContentMessage m" "not_after (lamport c1) m"
    "m \<in> set (outgoingBuffer c1)" by blast+
  have buf: "map messageId (outgoingBuffer (fst (push_outgoing_finish ?host later c1 m s h)))
      = map messageId (outgoingBuffer c1)" for s h
    by (simp add: push_outgoing_finish_def set_hint_def Let_def safeSendEvent_def comp_def if_distrib
        split: prod.splits sum.splits)
  have "\<exists>c2. push_outgoing_finish ?host later c1 m True h = (c2, Inr ())
      \<and> in_filter ?host c2 (messageId m) \<and> timeReceived c2 (messageId m) = Some later
      \<and> last (emitted c2) = OutMessageSent (m\<lparr>retrievalHint := h\<rparr>)
      \<and> map messageId (outgoingBuffer c2) = map messageId (outgoingBuffer c1)" for h
    using js.push_outgoing_finish_inv[OF c1 m(1,2), of later True h] buf[of True h] by auto
  moreover have "push_outgoing_finish ?host later c1 m False h = (c1, Inr ())" for h
    by (simp add: push_outgoing_finish_def returns_def)
  ultimately show ?thesis using m(3) assms(2)
    by (auto simp: push_outgoing_def split: sum.split bool.split)
qed

text \<open>A payload that is still unacknowledged is not turned into a second message: the callback gets
  the message of the outgoing buffer again, with its timestamp, causal history and repair requests, and
  the only trace in the state is the clock.\<close>

theorem resend_same_message:
  assumes "channel_inv host c" and "x \<in> set (outgoingBuffer c)" and "messageId x = getMessageId host p"
  shows "push_outgoing_begin host now c p =
    (c\<lparr>lamport := lamportTimestampIncrement now (lamport c)\<rparr>, Inr x)"
  using send_again[OF assms] .

theorem resend_same_message_witness:
  "\<exists>c x. channel_inv (js_host (\<lambda>_. [7]) codeunit_compare) c \<and> outgoingBuffer c = [x]
     \<and> snd (push_outgoing_begin (js_host (\<lambda>_. [7]) codeunit_compare) 2000 c [1]) = Inr x"
proof -
  obtain c x where c: "channel_inv (js_host (\<lambda>_. [7]) codeunit_compare) c" "outgoingBuffer c = [x]"
    "messageId x = ''07''" by (rule alice_sent)
  have "messageId x = getMessageId (js_host (\<lambda>_. [7]) codeunit_compare) [1]"
    using c(3) by (simp add: getMessageId_def js_host_def hex_digit_def char_of_def bit_iff_odd)
  from resend_same_message[OF c(1) _ this] c show ?thesis by auto
qed

theorem send_outcome_witness:
  "\<exists>c c2 m. channel_inv (js_host (\<lambda>_. [7]) codeunit_compare) c
     \<and> push_outgoing (js_host (\<lambda>_. [7]) codeunit_compare) 900 950 c [1] (Some (\<lambda>_. Inr (True, Some [9])))
         = (c2, Inr ())
     \<and> timeReceived c2 (messageId m) = Some 950
     \<and> last (emitted c2) = OutMessageSent (m\<lparr>retrievalHint := Some [9]\<rparr>)"
proof -
  obtain c where c: "channel_inv (js_host (\<lambda>_. [7]) codeunit_compare) c" "outgoingBuffer c = []"
    by (rule alice)
  from send_new[of "[1]" "js_host (\<lambda>_. [7]) codeunit_compare" c 900] c(2) obtain c1 m where
    "push_outgoing_begin (js_host (\<lambda>_. [7]) codeunit_compare) 900 c [1] = (c1, Inr m)" by auto
  from send_outcome[OF c(1) this, of 950 "\<lambda>_. Inr (True, Some [9])"] c(1) show ?thesis by auto
qed

theorem review_acknowledges_witness:
  "\<exists>c c' x bf. channel_inv (js_host (\<lambda>_. [7]) codeunit_compare) c \<and> outgoingBuffer c = [x]
     \<and> reviewAckStatus (js_host (\<lambda>_. [7]) codeunit_compare) c
          ((stamped 5 ''m'')\<lparr>causalHistory := [sample_entry ''07''], bloomFilter := Some (bloom_toBytes bf)\<rparr>)
        = (c', Inr ())
     \<and> outgoingBuffer c' = []"
proof -
  obtain c x where c: "channel_inv (js_host (\<lambda>_. [7]) codeunit_compare) c" "outgoingBuffer c = [x]"
    "messageId x = ''07''" "default_filter_ok (bloom_filter c)" by (rule alice_sent)
  let ?m = "(stamped 5 ''m'')\<lparr>causalHistory := [sample_entry ''07''],
    bloomFilter := Some (bloom_toBytes (bloom_filter c))\<rparr>"
  have "bloomFilter ?m = Some (bloom_toBytes (bloom_filter c))" by simp
  from review_acknowledges[OF c(1,4) this] c(1-3) show ?thesis by (auto simp: sample_entry_def)
qed


section \<open>Sweeping, syncing and the queue\<close>



text \<open>With something in the history a sync message is sent whatever the callback resolves to, also when it
  resolves to a failure: it is stamped after everything before it, names the most recent messages of the history
  and carries the bloom filter, and it enters neither the outgoing buffer nor the filter nor the
  history. With an empty history and no repair manager nothing is sent, yet the clock advances.\<close>

theorem sync_message:
  assumes "0 < causalHistorySize c"
  shows "if items (localHistory c) \<noteq> []
    then \<exists>c' m es. pushOutgoingSyncMessage now random c (Some (\<lambda>_. Inr success)) = (c', Inr True)
      \<and> emitted c' = emitted c @ OutSyncSent m # es
      \<and> same_log c (c'\<lparr>lamport := lamport c\<rparr>) \<and> outgoingBuffer c' = outgoingBuffer c
      \<and> isSyncMessage m \<and> lamportTimestamp m = Some (lamport c') \<and> lamport c < lamport c' \<and> now \<le> lamport c'
      \<and> causalHistory m \<noteq> [] \<and> map he_messageId (causalHistory m) =
          map messageId (js_slice_from (- causalHistorySize c) (items (localHistory c)))
      \<and> bloomFilter m = Some (bloom_toBytes (bloom_filter c))
    else repairManager c = None \<longrightarrow>
      pushOutgoingSyncMessage now random c cb =
        (c\<lparr>lamport := lamportTimestampIncrement now (lamport c)\<rparr>, Inr False)"
proof -
  let ?c = "c\<lparr>lamport := lamportTimestampIncrement now (lamport c)\<rparr>"
  obtain r rs where t: "take_repair_requests now ?c = (?c\<lparr>repairManager := r\<rparr>, rs)"
    using take_repair_requests_state[of now ?c] by (metis prod.collapse)
  have h: "recent_history (?c\<lparr>repairManager := r\<rparr>) = recent_history c" by (simp add: recent_history_def)
  have slice: "js_slice_from (- causalHistorySize c) xs \<noteq> []" if "xs \<noteq> []" for xs :: "message list"
    using length_js_slice_from_neg[of "nat (causalHistorySize c)" xs] assms that
    by (auto simp: min_def split: if_splits)
  have l: "lamport c < lamportTimestampIncrement now (lamport c)"
    "now \<le> lamportTimestampIncrement now (lamport c)" by (simp_all add: lamportTimestampIncrement_def)
  show ?thesis
  proof (cases "items (localHistory c) = []")
    case True
    then show ?thesis
      by (simp add: pushOutgoingSyncMessage_def take_repair_requests_def SyncMessage_def
          recent_history_def history_slice_def js_slice_from_def returns_def)
  next
    case False
    with slice have "recent_history c \<noteq> []" by (simp add: recent_history_def history_slice_def)
    with False t h l slice[OF False] show ?thesis
      by (auto simp: pushOutgoingSyncMessage_def Let_def returns_def same_log_def)
        (auto simp: safeSendEvent_def SyncMessage_def recent_history_def history_slice_def message_tests)
  qed
qed

theorem sync_message_witness:
  "\<exists>c c' m es. channel_inv (js_host (\<lambda>_. []) codeunit_compare) c
     \<and> pushOutgoingSyncMessage 9 ''r'' c (Some (\<lambda>_. Inr False)) = (c', Inr True)
     \<and> emitted c' = emitted c @ OutSyncSent m # es \<and> causalHistory m \<noteq> []"
proof -
  let ?host = "js_host (\<lambda>_. []) codeunit_compare"
  obtain c where c: "channel_inv ?host c" "ch_channelId c = ''c''" "ch_senderId c = ''alice''"
    "timeReceived c = Map.empty" "localHistory c = new_history 5" "causalHistorySize c = 200" by (rule alice)
  have "\<not> dropped c (stamped 5 ''m'')" using c stamped_dropped[of c "''m''" "[]" 5] by simp
  moreover have "missingDependencies c (stamped 5 ''m'') = []" by (simp add: missingDependencies_def)
  ultimately obtain c1 where c1: "push_incoming ?host 7 c (stamped 5 ''m'') = (c1, Inr ())"
    "channel_inv ?host c1" "''m'' \<in> history_ids (localHistory c1)"
    using js.receive_ok[OF c(1), of "stamped 5 ''m''" 7] c(5) by (auto simp: new_history_def)
  have "causalHistorySize c1 = 200"
    using push_incoming_extends[of c ?host 7 "stamped 5 ''m''"] c1(1) c(6) by (simp add: extends_def)
  moreover have "items (localHistory c1) \<noteq> []" using c1(3) by (auto simp: history_ids_def)
  moreover have "0 < causalHistorySize c1 \<Longrightarrow> items (localHistory c1) \<noteq> [] \<Longrightarrow> \<exists>c' m es.
      pushOutgoingSyncMessage 9 ''r'' c1 (Some (\<lambda>_. Inr False)) = (c', Inr True)
      \<and> emitted c' = emitted c1 @ OutSyncSent m # es \<and> causalHistory m \<noteq> []"
    using sync_message[of c1 9 "''r''" False None] by (simp only: if_True not_False_eq_True simp_thms) blast
  ultimately show ?thesis using c1(2) by auto
qed

definition sends :: "task list \<Rightarrow> nat" where
  "sends ts = length (filter (\<lambda>t. task_command t = CmdSend) ts)"

lemma executeTask_lamport:
  "lamport c + sends [item] \<le> lamport (executeTask host now later c item)"
proof (cases item)
  case (Send p cb)
  have "lamport c < lamport (fst (run_handler host now later c item))"
    using push_outgoing_extends(2)[of c host now later p cb] Send by (simp add: run_handler_def)
  then show ?thesis using Send
    by (cases "run_handler host now later c item"; cases "snd (run_handler host now later c item)")
      (auto simp: executeTask_def sends_def safeSendEvent_def)
next
  case (Receive m)
  then show ?thesis using executeTask_extends[of c host now later item] by (simp add: extends_def sends_def)
next
  case (SendEphemeral p cb)
  then show ?thesis using executeTask_extends[of c host now later item] by (simp add: extends_def sends_def)
qed


end
