(* ===== verification/Timers.thy ===== *)
theory Timers
  imports Prelude Complex_Main
begin

text \<open>
  \<open>setTimeout\<close>, \<open>setInterval\<close> and their \<open>clear\<close> functions, as the SDK components use them: a timer
  gets a fresh handle, clearing an unknown handle does nothing, and the live timers are a map from
  handles to what the timer is for. A component keeps the handle of a timer in an optional field, its
  slot; the library lemmas are about a slot that owns the timers of its kind. Handles are truthy, so
  the code's tests \<open>if (this.interval)\<close> ask whether the slot is filled.
\<close>

record 'k timers =
  next_handle :: nat
  live :: "nat \<rightharpoonup> 'k"

definition no_timers :: "'k timers" where
  "no_timers = \<lparr>next_handle = 1, live = Map.empty\<rparr>"

definition set_timer :: "'k \<Rightarrow> 'k timers \<Rightarrow> 'k timers \<times> nat" where
  "set_timer k t = (t\<lparr>next_handle := next_handle t + 1, live := (live t)(next_handle t \<mapsto> k)\<rparr>, next_handle t)"

definition clear_timer :: "nat \<Rightarrow> 'k timers \<Rightarrow> 'k timers" where
  "clear_timer h t = t\<lparr>live := (live t)(h := None)\<rparr>"

definition clear_slot :: "nat option \<Rightarrow> 'k timers \<Rightarrow> 'k timers" where
  "clear_slot slot t = (case slot of None \<Rightarrow> t | Some h \<Rightarrow> clear_timer h t)"

definition timers_ok :: "'k timers \<Rightarrow> bool" where
  "timers_ok t \<longleftrightarrow> (\<forall>h. live t h \<noteq> None \<longrightarrow> h < next_handle t)"

text \<open>The slot holds the handle of the only live timer whose kind satisfies \<open>P\<close>, if there is one.\<close>

definition owns :: "('k \<Rightarrow> bool) \<Rightarrow> nat option \<Rightarrow> (nat \<rightharpoonup> 'k) \<Rightarrow> bool" where
  "owns P slot lv \<longleftrightarrow> {h. \<exists>k. lv h = Some k \<and> P k} = set_option slot"

locale timer_service =
  fixes set_t :: "'k \<Rightarrow> 't \<Rightarrow> 't \<times> nat"
    and clear_t :: "nat \<Rightarrow> 't \<Rightarrow> 't"
    and lv :: "'t \<Rightarrow> nat \<rightharpoonup> 'k"
    and ok :: "'t \<Rightarrow> bool"
  assumes set_spec: "ok t \<Longrightarrow> set_t k t = (t', h) \<Longrightarrow> ok t' \<and> lv t h = None \<and> lv t' = (lv t)(h \<mapsto> k)"
    and clear_spec: "ok t \<Longrightarrow> ok (clear_t h t) \<and> lv (clear_t h t) = (lv t)(h := None)"
begin

lemma owns_set:
  assumes "ok t" and "owns P None (lv t)" and "P k" and "set_t k t = (t', h)"
  shows "owns P (Some h) (lv t')"
  using set_spec[OF assms(1,4)] assms(2,3) by (auto simp: owns_def split: if_splits)

lemma owns_set_other:
  assumes "ok t" and "owns P slot (lv t)" and "\<not> P k" and "set_t k t = (t', h)"
  shows "owns P slot (lv t')"
proof -
  from set_spec[OF assms(1,4)] have "{x. \<exists>y. lv t' x = Some y \<and> P y} = {x. \<exists>y. lv t x = Some y \<and> P y}"
    using assms(3) by (auto split: if_splits)
  with assms(2) show ?thesis by (simp add: owns_def)
qed

lemma owns_clear:
  assumes "ok t" and "owns P (Some h) (lv t)"
  shows "owns P None (lv (clear_t h t))"
  using clear_spec[OF assms(1), of h] assms(2) by (auto simp: owns_def split: if_splits)

lemma owns_clear_other:
  assumes "ok t" and "owns P slot (lv t)" and "\<And>k. lv t h = Some k \<Longrightarrow> \<not> P k"
  shows "owns P slot (lv (clear_t h t))"
proof -
  from clear_spec[OF assms(1), of h]
  have "{x. \<exists>y. lv (clear_t h t) x = Some y \<and> P y} = {x. \<exists>y. lv t x = Some y \<and> P y}"
    using assms(3) by (auto split: if_splits)
  with assms(2) show ?thesis by (simp add: owns_def)
qed

end

interpretation js_timers: timer_service set_timer clear_timer live timers_ok
proof
  show "timers_ok t' \<and> live t h = None \<and> live t' = (live t)(h \<mapsto> k)"
    if "timers_ok t" "set_timer k t = (t', h)" for k :: 'a and t t' h
  proof -
    have "h = next_handle t" "t' = t\<lparr>next_handle := next_handle t + 1, live := (live t)(next_handle t \<mapsto> k)\<rparr>"
      using that(2) by (auto simp: set_timer_def)
    with that(1) show ?thesis by (auto simp: timers_ok_def less_Suc_eq)
  qed
  show "timers_ok (clear_timer h t) \<and> live (clear_timer h t) = (live t)(h := None)"
    if "timers_ok t" for h and t :: "'a timers"
    using that by (simp add: clear_timer_def timers_ok_def)
qed

lemma owns_cleared: "owns P (Some h) l \<Longrightarrow> owns P None (l(h := None))"
  by (auto simp: owns_def split: if_splits)

lemma clear_slot_ok: "timers_ok t \<Longrightarrow> timers_ok (clear_slot slot t)"
  by (auto simp: clear_slot_def js_timers.clear_spec split: option.split)

lemma owns_clear_slot:
  "timers_ok t \<Longrightarrow> owns P slot (live t) \<Longrightarrow> owns P None (live (clear_slot slot t))"
  by (auto simp: clear_slot_def split: option.split intro: js_timers.owns_clear)

lemma owns_None: "owns P None lv \<longleftrightarrow> (\<forall>h k. lv h = Some k \<longrightarrow> \<not> P k)"
  by (auto simp: owns_def)

lemma owns_Some: "owns P (Some h) lv \<Longrightarrow> \<exists>k. lv h = Some k \<and> P k"
  by (auto simp: owns_def)

lemma owns_clear_slot_other:
  assumes "timers_ok t" and "owns P slot (live t)" and "owns Q slot' (live t)"
    and "\<And>k. Q k \<Longrightarrow> \<not> P k"
  shows "owns P slot (live (clear_slot slot' t))"
proof (cases slot')
  case (Some h)
  with owns_Some assms(3) obtain k where "live t h = Some k" "Q k" by blast
  then have "owns P slot (live (clear_timer h t))"
    using assms(4) by (intro js_timers.owns_clear_other[OF assms(1,2)]) auto
  with Some show ?thesis by (simp add: clear_slot_def)
qed (use assms in \<open>simp add: clear_slot_def\<close>)

end
