(* ===== verification/Retry.thy ===== *)
theory Retry
  imports Timers
begin

text \<open>
  \<open>packages/sdk/src/reliable_channel/retry_manager.ts\<close>: timed retries of an action until told to stop or
  out of attempts. The action is a value of type \<open>'p\<close> (the payload the channel sends again); a retry
  timer carries the id, the action and the number of attempts made before it.
\<close>

datatype 'p timer_kind =
    SweepIncomingTimer
  | SweepRepairTimer
  | ProcessTaskTimer
  | SyncTimer real
  | RetrieveTimer
  | RetryTimer string 'p nat

fun is_retry :: "'p timer_kind \<Rightarrow> bool" where
  "is_retry (RetryTimer i p n) = True"
| "is_retry k = False"

record retry_manager =
  retryIntervalMs :: int
  maxRetryNumber :: int
  timeouts :: "(string \<times> nat) list"

type_synonym 'p retry_state = "retry_manager \<times> 'p timer_kind timers"

definition retry_new :: "int \<Rightarrow> int \<Rightarrow> js_error + retry_manager" where
  "retry_new intervalMs maxRetry =
     (if intervalMs \<le> 0 \<or> maxRetry \<le> 0
      then Inl (JsError ''Invalid retryIntervalMs or maxRetryNumber values'')
      else Inr \<lparr>retryIntervalMs = intervalMs, maxRetryNumber = maxRetry, timeouts = []\<rparr>)"

text \<open>\<open>this.timeouts.get(id)\<close>\<close>

definition handle_of :: "retry_manager \<Rightarrow> string \<Rightarrow> nat option" where
  "handle_of rm i = map_of (timeouts rm) i"

fun stopRetries :: "string \<Rightarrow> 'p retry_state \<Rightarrow> 'p retry_state" where
  "stopRetries i (rm, t) =
     (case handle_of rm i of
        None \<Rightarrow> (rm, t)
      | Some h \<Rightarrow> (rm\<lparr>timeouts := AList.delete i (timeouts rm)\<rparr>, clear_timer h t))"

definition clear_all :: "nat list \<Rightarrow> 'p timer_kind timers \<Rightarrow> 'p timer_kind timers" where
  "clear_all hs t = fold clear_timer hs t"

fun stopAllRetries :: "'p retry_state \<Rightarrow> 'p retry_state" where
  "stopAllRetries (rm, t) = (rm\<lparr>timeouts := []\<rparr>, clear_all (map snd (timeouts rm)) t)"

text \<open>\<open>stop\<close> clears the timers and keeps the entries.\<close>

fun retry_stop :: "'p retry_state \<Rightarrow> 'p retry_state" where
  "retry_stop (rm, t) = (rm, clear_all (map snd (timeouts rm)) t)"

definition retry :: "string \<Rightarrow> 'p \<Rightarrow> nat \<Rightarrow> 'p retry_state \<Rightarrow> 'p retry_state" where
  "retry i p attemptNumber s =
     (case stopRetries i s of (rm, t) \<Rightarrow>
        if int attemptNumber < maxRetryNumber rm
        then (case set_timer (RetryTimer i p attemptNumber) t of
                (t', h) \<Rightarrow> (rm\<lparr>timeouts := AList.update i h (timeouts rm)\<rparr>, t'))
        else (rm, t))"

definition startRetries :: "string \<Rightarrow> 'p \<Rightarrow> 'p retry_state \<Rightarrow> 'p retry_state" where
  "startRetries i p s = retry i p 0 s"

text \<open>
  A retry timer fires: it is no longer live, the action runs (with its effect \<open>act\<close> on the state,
  the callback of the code) and the next retry is scheduled.
\<close>

definition fire_retry :: "('p retry_state \<Rightarrow> 'p retry_state) \<Rightarrow> nat \<Rightarrow> 'p retry_state \<Rightarrow> 'p retry_state" where
  "fire_retry act h s =
     (case live (snd s) h of
        Some (RetryTimer i p n) \<Rightarrow> retry i p (Suc n) (act (fst s, clear_timer h (snd s)))
      | _ \<Rightarrow> s)"

section \<open>Invariant\<close>

text \<open>Every live retry timer is the one registered under its id.\<close>

definition retry_inv :: "'p retry_state \<Rightarrow> bool" where
  "retry_inv s \<longleftrightarrow> timers_ok (snd s) \<and> distinct (map fst (timeouts (fst s)))
     \<and> (\<forall>h i p n. live (snd s) h = Some (RetryTimer i p n) \<longrightarrow>
          handle_of (fst s) i = Some h \<and> int n < maxRetryNumber (fst s))
     \<and> (\<forall>i h. handle_of (fst s) i = Some h \<longrightarrow> (\<exists>p n. live (snd s) h = Some (RetryTimer i p n)))"

definition retrying :: "'p retry_state \<Rightarrow> string set" where
  "retrying s = {i. \<exists>h p n. live (snd s) h = Some (RetryTimer i p n)}"

lemma live_clear [simp]: "live (clear_timer h t) = (live t)(h := None)"
  by (simp add: clear_timer_def)

lemma clear_all_live: "live (clear_all hs t) h = (if h \<in> set hs then None else live t h)"
  unfolding clear_all_def by (induction hs arbitrary: t) auto

lemma clear_all_ok: "timers_ok t \<Longrightarrow> timers_ok (clear_all hs t)"
  by (simp add: timers_ok_def clear_all_def) (induction hs arbitrary: t, auto simp: clear_timer_def)

lemma stopRetries_max [simp]: "maxRetryNumber (fst (stopRetries i s)) = maxRetryNumber (fst s)"
  by (cases s) (simp split: option.split)

lemma handle_of_update: "handle_of (rm\<lparr>timeouts := AList.update i h xs\<rparr>) = (handle_of (rm\<lparr>timeouts := xs\<rparr>))(i \<mapsto> h)"
  by (simp add: handle_of_def fun_eq_iff update_conv)

lemma stopRetries_timeouts:
  "handle_of (fst (stopRetries i s)) = (handle_of (fst s))(i := None)"
  by (cases s) (auto simp: handle_of_def delete_conv fun_eq_iff split: option.split)

lemma stopRetries_live:
  "live (snd (stopRetries i s)) = (case handle_of (fst s) i of
     None \<Rightarrow> live (snd s) | Some h \<Rightarrow> (live (snd s))(h := None))"
  by (cases s) (simp split: option.split)

lemma stopRetries_ok: "timers_ok (snd s) \<Longrightarrow> timers_ok (snd (stopRetries i s))"
  by (cases s) (auto simp: js_timers.clear_spec split: option.split)

lemma stopRetries_distinct:
  "distinct (map fst (timeouts (fst s))) \<Longrightarrow> distinct (map fst (timeouts (fst (stopRetries i s))))"
  by (cases s) (auto simp: distinct_delete split: option.split)

lemma stopRetries_inv:
  assumes "retry_inv s"
  shows "retry_inv (stopRetries i s)"
proof -
  let ?m = "handle_of (fst s)" and ?l = "live (snd s)"
  have reg: "?l h = Some (RetryTimer j p n) \<Longrightarrow> ?m j = Some h \<and> int n < maxRetryNumber (fst s)"
    and live: "?m j = Some h \<Longrightarrow> \<exists>p n. ?l h = Some (RetryTimer j p n)" for h j p n
    using assms by (auto simp: retry_inv_def)
  have "handle_of (fst (stopRetries i s)) j = Some h \<and> int n < maxRetryNumber (fst s)"
    if "live (snd (stopRetries i s)) h = Some (RetryTimer j p n)" for h j p n
    using that reg[of h j p n]
    by (cases "?m i") (auto simp: stopRetries_live stopRetries_timeouts split: if_splits)
  moreover have "\<exists>p n. live (snd (stopRetries i s)) h = Some (RetryTimer j p n)"
    if "handle_of (fst (stopRetries i s)) j = Some h" for h j
    using that live[of j h] live[of i h]
    by (cases "?m i") (auto simp: stopRetries_live stopRetries_timeouts split: if_splits)
  ultimately show ?thesis
    using assms stopRetries_ok[of s i] stopRetries_distinct[of s i] by (simp add: retry_inv_def)
qed

lemma stopRetries_retrying:
  assumes "retry_inv s"
  shows "retrying (stopRetries i s) = retrying s - {i}"
proof -
  have reg: "live (snd s) h = Some (RetryTimer j p n) \<Longrightarrow> handle_of (fst s) j = Some h"
    and lv: "handle_of (fst s) j = Some h \<Longrightarrow> \<exists>p n. live (snd s) h = Some (RetryTimer j p n)" for h j p n
    using assms by (auto simp: retry_inv_def)
  have "(\<exists>p n. live (snd (stopRetries i s)) h = Some (RetryTimer j p n)) \<longleftrightarrow>
      j \<noteq> i \<and> (\<exists>p n. live (snd s) h = Some (RetryTimer j p n))" for h j
    using reg[of h j] reg[of h i] lv[of i h]
    by (cases "handle_of (fst s) i") (auto simp: stopRetries_live)
  then show ?thesis by (auto simp: retrying_def)
qed

lemma retry_eq:
  "retry i p n s = (case stopRetries i s of (rm, t) \<Rightarrow>
     if int n < maxRetryNumber rm
     then (rm\<lparr>timeouts := AList.update i (next_handle t) (timeouts rm)\<rparr>,
           t\<lparr>next_handle := next_handle t + 1, live := (live t)(next_handle t \<mapsto> RetryTimer i p n)\<rparr>)
     else (rm, t))"
  by (simp add: retry_def set_timer_def split: prod.split)

lemma retry_inv:
  assumes "retry_inv s"
  shows "retry_inv (retry i p n s)"
    and "retrying (retry i p n s) = retrying s - {i} \<union> (if int n < maxRetryNumber (fst s) then {i} else {})"
    and "maxRetryNumber (fst (retry i p n s)) = maxRetryNumber (fst s)"
proof -
  obtain rm t where st: "stopRetries i s = (rm, t)" by fastforce
  have inv: "retry_inv (rm, t)" using stopRetries_inv[OF assms, of i] st by simp
  have ret: "retrying (rm, t) = retrying s - {i}" using stopRetries_retrying[OF assms, of i] st by simp
  have mx: "maxRetryNumber rm = maxRetryNumber (fst s)" using stopRetries_max[of i s] st by simp
  let ?rm = "rm\<lparr>timeouts := AList.update i (next_handle t) (timeouts rm)\<rparr>"
  let ?t = "t\<lparr>next_handle := next_handle t + 1, live := (live t)(next_handle t \<mapsto> RetryTimer i p n)\<rparr>"
  have none: "handle_of rm i = None" using stopRetries_timeouts[of i s] st by simp
  have fresh: "live t (next_handle t) = None" and t: "timers_ok ?t"
    using inv by (auto simp: retry_inv_def timers_ok_def less_Suc_eq)
  have reg: "live t h = Some (RetryTimer j q m) \<Longrightarrow> handle_of rm j = Some h \<and> int m < maxRetryNumber rm"
    and lv: "handle_of rm j = Some h \<Longrightarrow> \<exists>q m. live t h = Some (RetryTimer j q m)" for h j q m
    using inv by (auto simp: retry_inv_def)
  have "retry_inv (?rm, ?t)" if "int n < maxRetryNumber rm"
  proof -
    have "handle_of ?rm j = Some h \<and> int m < maxRetryNumber rm"
      if "live ?t h = Some (RetryTimer j q m)" for h j q m
      using that reg[of h j q m] none \<open>int n < maxRetryNumber rm\<close>
      by (auto simp: handle_of_update split: if_splits)
    moreover have "\<exists>q m. live ?t h = Some (RetryTimer j q m)" if "handle_of ?rm j = Some h" for j h
      using that lv[of j h] fresh by (auto simp: handle_of_update split: if_splits)
    ultimately show ?thesis using inv t by (simp add: retry_inv_def distinct_update)
  qed
  moreover have "retrying (?rm, ?t) = insert i (retrying (rm, t))"
    using fresh by (auto simp: retrying_def split: if_splits) (metis option.distinct(1))
  ultimately have "retry_inv (retry i p n s) \<and> retrying (retry i p n s) =
      retrying s - {i} \<union> (if int n < maxRetryNumber (fst s) then {i} else {})"
    using inv ret mx by (simp add: retry_eq st)
  then show "retry_inv (retry i p n s)"
    "retrying (retry i p n s) = retrying s - {i} \<union> (if int n < maxRetryNumber (fst s) then {i} else {})"
    by blast+
  show "maxRetryNumber (fst (retry i p n s)) = maxRetryNumber (fst s)"
    by (simp add: retry_eq st mx)
qed

section \<open>Firing\<close>

lemma stopRetries_cleared:
  "handle_of rm i = Some h \<Longrightarrow> stopRetries i (rm, clear_timer h t) = stopRetries i (rm, t)"
  by (simp add: clear_timer_def)

lemma stopRetries_idem: "stopRetries i (stopRetries i s) = stopRetries i s"
  using stopRetries_timeouts[of i s] by (cases "stopRetries i s") simp

lemma retry_cleared:
  "handle_of rm i = Some h \<Longrightarrow> retry i p n (rm, clear_timer h t) = retry i p n (rm, t)"
  by (simp only: retry_def stopRetries_cleared)

lemma retry_stopped: "retry i p n (stopRetries i s) = retry i p n s"
  by (simp only: retry_def stopRetries_idem)

lemma registered: "retry_inv s \<Longrightarrow> live (snd s) h = Some (RetryTimer i p n) \<Longrightarrow> handle_of (fst s) i = Some h"
  by (auto simp: retry_inv_def)

lemma fire_retry_plain:
  assumes "retry_inv s" and "live (snd s) h = Some (RetryTimer i p n)"
  shows "fire_retry (\<lambda>x. x) h s = retry i p (Suc n) s"
    and "fire_retry (stopRetries i) h s = retry i p (Suc n) s"
  using registered[OF assms] assms(2) retry_cleared[of "fst s" i h p "Suc n" "snd s"]
  by (simp_all add: fire_retry_def retry_stopped stopRetries_cleared del: stopRetries.simps)

text \<open>The timer of an id fires, with an action that leaves the manager alone.\<close>

definition fire_of :: "string \<Rightarrow> 'p retry_state \<Rightarrow> 'p retry_state" where
  "fire_of i s = (case handle_of (fst s) i of None \<Rightarrow> s | Some h \<Rightarrow> fire_retry (\<lambda>x. x) h s)"

fun fires :: "string \<Rightarrow> nat \<Rightarrow> 'p retry_state \<Rightarrow> 'p retry_state" where
  "fires i 0 s = s"
| "fires i (Suc k) s = fire_of i (fires i k s)"

definition at_attempt :: "string \<Rightarrow> 'p \<Rightarrow> nat \<Rightarrow> 'p retry_state \<Rightarrow> bool" where
  "at_attempt i p n s \<longleftrightarrow>
     (case handle_of (fst s) i of
        Some h \<Rightarrow> live (snd s) h = Some (RetryTimer i p n) \<and> int n < maxRetryNumber (fst s)
      | None \<Rightarrow> maxRetryNumber (fst s) \<le> int n)"

lemma at_attempt_retry: "retry_inv s \<Longrightarrow> at_attempt i p n (retry i p n s)"
proof -
  assume s: "retry_inv s"
  obtain rm t where st: "stopRetries i s = (rm, t)" by fastforce
  have "handle_of rm i = None" using stopRetries_timeouts[of i s] st by simp
  then show ?thesis by (auto simp: retry_eq st at_attempt_def handle_of_update)
qed

lemma fires_attempt:
  "retry_inv s \<Longrightarrow> retry_inv (fires i k (startRetries i p s)) \<and> at_attempt i p k (fires i k (startRetries i p s))
    \<and> maxRetryNumber (fst (fires i k (startRetries i p s))) = maxRetryNumber (fst s)"
proof (induction k)
  case 0
  then show ?case by (simp add: startRetries_def retry_inv at_attempt_retry)
next
  case (Suc k)
  let ?s = "fires i k (startRetries i p s)"
  have s: "retry_inv ?s" "at_attempt i p k ?s" "maxRetryNumber (fst ?s) = maxRetryNumber (fst s)"
    using Suc by simp_all
  show ?case
  proof (cases "handle_of (fst ?s) i")
    case None
    with s show ?thesis by (simp add: fire_of_def at_attempt_def)
  next
    case (Some h)
    with s(2) have "live (snd ?s) h = Some (RetryTimer i p k)" by (simp add: at_attempt_def)
    from fire_retry_plain(1)[OF s(1) this] Some
    have "fires i (Suc k) (startRetries i p s) = retry i p (Suc k) ?s" by (simp add: fire_of_def)
    then show ?thesis using retry_inv[OF s(1)] at_attempt_retry[OF s(1)] s(3) by (simp only:)
  qed
qed

section \<open>Properties\<close>

text \<open>A message is retried exactly as often as configured: after \<open>k\<close> firings the timer of the id is
  armed for attempt \<open>k\<close> while \<open>k\<close> is below the maximum, and there is none from then on; there is
  never more than one timer per id.\<close>

theorem retries_exactly_max:
  assumes "retry_inv s"
  shows "let s' = fires i k (startRetries i p s) in
    retry_inv s' \<and>
    (if int k < maxRetryNumber (fst s)
     then \<exists>h. handle_of (fst s') i = Some h \<and> live (snd s') h = Some (RetryTimer i p k)
     else i \<notin> retrying s')"
proof -
  let ?s = "fires i k (startRetries i p s)"
  note f = fires_attempt[OF assms, of i k p]
  have "i \<notin> retrying ?s" if "handle_of (fst ?s) i = None"
    using that f registered[of ?s] by (auto simp: retrying_def)
  with f show ?thesis by (auto simp: Let_def at_attempt_def split: option.splits)
qed

definition no_retries :: "retry_manager \<times> bytes timer_kind timers" where
  "no_retries = (\<lparr>retryIntervalMs = 30000, maxRetryNumber = 2, timeouts = []\<rparr>, no_timers)"

lemma no_retries_inv: "retry_inv no_retries"
  by (simp add: no_retries_def retry_inv_def no_timers_def timers_ok_def handle_of_def)

theorem retries_exactly_max_witness:
  "''m'' \<notin> retrying (fires ''m'' 2 (startRetries ''m'' [1] no_retries))
   \<and> (\<exists>h. live (snd (fires ''m'' 1 (startRetries ''m'' [1] no_retries))) h = Some (RetryTimer ''m'' [1] 1))"
  using retries_exactly_max[OF no_retries_inv, of "''m''" 2 "[1]"]
    retries_exactly_max[OF no_retries_inv, of "''m''" 1 "[1]"]
  by (auto simp: Let_def no_retries_def)

text \<open>Stopping the retries of a message disarms its timer and leaves the other messages alone; but a
  stop that happens while the retry itself runs is lost: the manager registers the next attempt
  afterwards.\<close>

theorem stop_retries:
  assumes "retry_inv s"
  shows "retrying (stopRetries i s) = retrying s - {i}
    \<and> (live (snd s) h = Some (RetryTimer i p n) \<and> int (Suc n) < maxRetryNumber (fst s) \<longrightarrow>
         i \<in> retrying (fire_retry (stopRetries i) h s))"
  using stopRetries_retrying[OF assms] fire_retry_plain(2)[OF assms, of h i p n] retry_inv(2)[OF assms, of i p "Suc n"]
  by auto

theorem stop_retries_witness:
  "\<exists>h. live (snd (startRetries ''m'' [1] no_retries)) h = Some (RetryTimer ''m'' [1] 0)
     \<and> ''m'' \<in> retrying (fire_retry (stopRetries ''m'') h (startRetries ''m'' [1] no_retries))
     \<and> ''m'' \<notin> retrying (stopRetries ''m'' (startRetries ''m'' [1] no_retries))"
proof -
  have inv: "retry_inv (startRetries ''m'' [1] no_retries)"
    by (simp add: startRetries_def retry_inv(1)[OF no_retries_inv])
  obtain h where h: "live (snd (startRetries ''m'' [1] no_retries)) h = Some (RetryTimer ''m'' [1] 0)"
    by (simp add: startRetries_def retry_eq no_retries_def no_timers_def handle_of_def)
  moreover have "maxRetryNumber (fst (startRetries ''m'' [1] no_retries)) = 2"
    by (simp add: startRetries_def retry_inv(3)[OF no_retries_inv]) (simp add: no_retries_def)
  ultimately show ?thesis using stop_retries[OF inv, of "''m''" h "[1]" 0] by auto
qed

end
