(* ===== verification/Random_Timeout.thy ===== *)
theory Random_Timeout
  imports Retry
begin

text \<open>
  \<open>packages/sdk/src/reliable_channel/random_timeout.ts\<close>: a timer with a random delay that rearms
  itself. \<open>Math.random()\<close> is the argument \<open>random\<close>; numbers are reals. The timers are those of the
  channel, of type \<open>'p timer_kind timers\<close>.
\<close>

record random_timeout =
  rt_timeout :: "nat option"
  maxIntervalMs :: real
  multiplierOnCall :: real

text \<open>Real numbers are finite, so only the sign is left of the constructor's checks.\<close>

definition random_timeout_new :: "real \<Rightarrow> real \<Rightarrow> js_error + random_timeout" where
  "random_timeout_new interval multiplier =
     (if interval < 0 then Inl (JsError ''maxIntervalMs must be a non-negative finite number'')
      else Inr \<lparr>rt_timeout = None, maxIntervalMs = interval, multiplierOnCall = multiplier\<rparr>)"

definition rt_stop :: "random_timeout \<times> 'p timer_kind timers \<Rightarrow> random_timeout \<times> 'p timer_kind timers" where
  "rt_stop s = (case s of (rt, t) \<Rightarrow>
     (case rt_timeout rt of
        None \<Rightarrow> (rt, t)
      | Some h \<Rightarrow> (rt\<lparr>rt_timeout := None\<rparr>, clear_timer h t)))"

definition rt_restart ::
  "real \<Rightarrow> real \<Rightarrow> random_timeout \<times> 'p timer_kind timers \<Rightarrow> random_timeout \<times> 'p timer_kind timers" where
  "rt_restart random multiplier s =
     (case rt_stop s of (rt, t) \<Rightarrow>
        if maxIntervalMs rt \<noteq> 0
        then (case set_timer (SyncTimer (random * maxIntervalMs rt * multiplier)) t of
                (t', h) \<Rightarrow> (rt\<lparr>rt_timeout := Some h\<rparr>, t'))
        else (rt, t))"

text \<open>The timer fires: the callback runs (\<open>act\<close>), whatever it throws is logged, then the timer is rearmed.\<close>

definition rt_fire ::
  "real \<Rightarrow> (random_timeout \<times> 'p timer_kind timers \<Rightarrow> random_timeout \<times> 'p timer_kind timers) \<Rightarrow> nat \<Rightarrow>
   random_timeout \<times> 'p timer_kind timers \<Rightarrow> random_timeout \<times> 'p timer_kind timers" where
  "rt_fire random act h s =
     (case s of (rt, t) \<Rightarrow>
        (case live t h of
           Some (SyncTimer d) \<Rightarrow>
             (case act (rt, clear_timer h t) of
                (rt', t') \<Rightarrow> rt_restart random (multiplierOnCall rt') (rt', t'))
         | _ \<Rightarrow> s))"

fun is_sync :: "'p timer_kind \<Rightarrow> bool" where
  "is_sync (SyncTimer d) = True"
| "is_sync k = False"

definition rt_inv :: "random_timeout \<times> 'p timer_kind timers \<Rightarrow> bool" where
  "rt_inv s \<longleftrightarrow> (case s of (rt, t) \<Rightarrow>
     timers_ok t \<and> 0 \<le> maxIntervalMs rt \<and> owns is_sync (rt_timeout rt) (live t))"

lemma rt_stop_inv: "rt_inv s \<Longrightarrow> rt_inv (rt_stop s)"
  by (cases s; cases "rt_timeout (fst s)")
    (auto simp: rt_inv_def rt_stop_def owns_cleared js_timers.clear_spec)

lemma rt_stop_fields:
  "rt_timeout (fst (rt_stop s)) = None" "maxIntervalMs (fst (rt_stop s)) = maxIntervalMs (fst s)"
  "multiplierOnCall (fst (rt_stop s)) = multiplierOnCall (fst s)"
  by (cases s; cases "rt_timeout (fst s)"; simp add: rt_stop_def)+

lemma rt_restart_inv:
  assumes "rt_inv s"
  shows "rt_inv (rt_restart random multiplier s)"
proof -
  obtain rt t where st: "rt_stop s = (rt, t)" by fastforce
  have inv: "rt_inv (rt, t)" and none: "rt_timeout rt = None"
    using rt_stop_inv[OF assms] rt_stop_fields(1)[of s] st by simp_all
  obtain t' h where set: "set_timer (SyncTimer (random * maxIntervalMs rt * multiplier)) t = (t', h)"
    by fastforce
  have "timers_ok t" "owns is_sync None (live t)" using inv none by (simp_all add: rt_inv_def)
  with js_timers.owns_set[OF this _ set] js_timers.set_spec[OF _ set] inv show ?thesis
    by (simp add: rt_restart_def st set rt_inv_def)
qed

lemma rt_restart_delay:
  assumes "maxIntervalMs (fst s) \<noteq> 0"
  shows "\<exists>h. rt_timeout (fst (rt_restart random multiplier s)) = Some h
    \<and> live (snd (rt_restart random multiplier s)) h
        = Some (SyncTimer (random * maxIntervalMs (fst s) * multiplier))"
  using assms rt_stop_fields(2)[of s]
  by (cases "rt_stop s") (auto simp: rt_restart_def set_timer_def)

section \<open>Properties\<close>

text \<open>Restarting leaves exactly one sync timer, the one in the slot, due within the maximal interval
  times the multiplier; with a zero interval there is none. When it fires it rearms itself with the
  call multiplier, even if the callback stopped it.\<close>

theorem random_timeout_restarts:
  assumes "rt_inv s" and "0 \<le> random" and "random < 1" and "0 < multiplier"
    and "maxIntervalMs (fst s) \<noteq> 0"
  shows "\<exists>h d. rt_timeout (fst (rt_restart random multiplier s)) = Some h
    \<and> {x. \<exists>k. live (snd (rt_restart random multiplier s)) x = Some k \<and> is_sync k} = {h}
    \<and> live (snd (rt_restart random multiplier s)) h = Some (SyncTimer d)
    \<and> 0 \<le> d \<and> d < maxIntervalMs (fst s) * multiplier
    \<and> (\<exists>h'. rt_timeout (fst (rt_fire random rt_stop h (rt_restart random multiplier s))) = Some h')"
proof -
  let ?s = "rt_restart random multiplier s" and ?d = "random * maxIntervalMs (fst s) * multiplier"
  have pos: "0 < maxIntervalMs (fst s) * multiplier"
    using assms by (cases s) (simp add: rt_inv_def)
  then have "?d < 1 * (maxIntervalMs (fst s) * multiplier)" "0 \<le> ?d"
    using assms(2,3) mult_strict_right_mono[OF assms(3) pos] by (simp_all add: mult.assoc)
  moreover obtain h where h: "rt_timeout (fst ?s) = Some h" "live (snd ?s) h = Some (SyncTimer ?d)"
    using rt_restart_delay[OF assms(5)] by blast
  moreover have "{x. \<exists>k. live (snd ?s) x = Some k \<and> is_sync k} = {h}"
    using rt_restart_inv[OF assms(1), of random multiplier] h(1)
    by (cases ?s) (simp add: rt_inv_def owns_def)
  moreover have "maxIntervalMs (fst ?s) = maxIntervalMs (fst s)"
    using rt_stop_fields(2)[of s] by (cases "rt_stop s") (simp add: rt_restart_def split: prod.split)
  then have "\<exists>h'. rt_timeout (fst (rt_fire random rt_stop h ?s)) = Some h'"
    using h assms(5) rt_stop_fields(2)[of "(fst ?s, clear_timer h (snd ?s))"]
      rt_restart_delay[of "rt_stop (fst ?s, clear_timer h (snd ?s))" random]
    by (cases ?s; cases "rt_stop (fst ?s, clear_timer h (snd ?s))") (auto simp: rt_fire_def)
  ultimately show ?thesis by (intro exI[of _ h] exI[of _ ?d]) simp
qed

theorem random_timeout_restarts_witness:
  "\<exists>h d. live (snd (rt_restart (1 / 2) 2 (\<lparr>rt_timeout = None, maxIntervalMs = 30000, multiplierOnCall = 2\<rparr>,
        no_timers :: bytes timer_kind timers))) h = Some (SyncTimer d) \<and> d < 60000"
proof -
  let ?s = "(\<lparr>rt_timeout = None, maxIntervalMs = 30000, multiplierOnCall = 2\<rparr>, no_timers :: bytes timer_kind timers)"
  have "rt_inv ?s" by (simp add: rt_inv_def timers_ok_def no_timers_def owns_def)
  from random_timeout_restarts[OF this, of "1 / 2" 2] show ?thesis by auto
qed

end
