(* ===== verification/Missing_Retriever.thy ===== *)
theory Missing_Retriever
  imports Retry
begin

text \<open>
  \<open>packages/sdk/src/reliable_channel/missing_message_retriever.ts\<close>: the messages known to be missing,
  with their retrieval hints, asked from a store on an interval. The query generator is given by the
  client; its result is the list of the messages it yields (\<open>None\<close> for an undefined one), cut at
  the first failure, which is logged and swallowed.
\<close>

definition DEFAULT_RETRIEVE_FREQUENCY_MS :: int where
  "DEFAULT_RETRIEVE_FREQUENCY_MS = 10 * 1000"

record retriever =
  retrieveInterval :: "nat option"
  missingHints :: "(string \<times> bytes) list"
  activeQuery :: bool
  abortable :: bool
  retrieveFrequencyMs :: int

definition retriever_new :: "int option \<Rightarrow> retriever" where
  "retriever_new frequency =
     \<lparr>retrieveInterval = None, missingHints = [], activeQuery = False, abortable = False,
      retrieveFrequencyMs = (case frequency of None \<Rightarrow> DEFAULT_RETRIEVE_FREQUENCY_MS | Some f \<Rightarrow> f)\<rparr>"

type_synonym 'p retriever_state = "retriever \<times> 'p timer_kind timers"

definition clear_retrieve :: "'p retriever_state \<Rightarrow> 'p retriever_state" where
  "clear_retrieve s = (case s of (r, t) \<Rightarrow>
     (case retrieveInterval r of
        None \<Rightarrow> (r, t)
      | Some h \<Rightarrow> (r\<lparr>retrieveInterval := None\<rparr>, clear_timer h t)))"

definition retriever_start :: "'p retriever_state \<Rightarrow> 'p retriever_state" where
  "retriever_start s =
     (case clear_retrieve s of (r, t) \<Rightarrow>
        let r1 = r\<lparr>abortable := True\<rparr>
        in if retrieveFrequencyMs r1 \<noteq> 0
           then (case set_timer RetrieveTimer t of (t', h) \<Rightarrow> (r1\<lparr>retrieveInterval := Some h\<rparr>, t'))
           else (r1, t))"

text \<open>\<open>stop\<close> aborts and waits for the query it knows of, then forgets the missing messages.\<close>

definition retriever_stop :: "'p retriever_state \<Rightarrow> 'p retriever_state" where
  "retriever_stop s =
     (case clear_retrieve s of (r, t) \<Rightarrow>
        (r\<lparr>abortable := False, activeQuery := False, missingHints := []\<rparr>, t))"

definition addMissingMessage :: "string \<Rightarrow> bytes \<Rightarrow> retriever \<Rightarrow> retriever" where
  "addMissingMessage mid hint r =
     (if map_of (missingHints r) mid = None then r\<lparr>missingHints := AList.update mid hint (missingHints r)\<rparr>
      else r)"

definition removeMissingMessage :: "string \<Rightarrow> retriever \<Rightarrow> retriever" where
  "removeMissingMessage mid r =
     (if map_of (missingHints r) mid \<noteq> None then r\<lparr>missingHints := AList.delete mid (missingHints r)\<rparr> else r)"

text \<open>
  One query: the hashes asked for, the messages the generator yields for them and, for each defined
  message, the callback, which acts on the client's state \<open>'c\<close>.
\<close>

definition retrieveMissingMessage ::
  "(bytes list \<Rightarrow> 'm option list) \<Rightarrow> ('m \<Rightarrow> 'c \<Rightarrow> 'c) \<Rightarrow> retriever \<Rightarrow> 'c \<Rightarrow> 'c" where
  "retrieveMissingMessage query onRetrieved r c =
     (if missingHints r = [] then c
      else fold (\<lambda>m c. case m of None \<Rightarrow> c | Some x \<Rightarrow> onRetrieved x c)
             (query (map snd (missingHints r))) c)"

fun is_retrieve :: "'p timer_kind \<Rightarrow> bool" where
  "is_retrieve RetrieveTimer = True"
| "is_retrieve k = False"

definition retriever_inv :: "'p retriever_state \<Rightarrow> bool" where
  "retriever_inv s \<longleftrightarrow> (case s of (r, t) \<Rightarrow> timers_ok t \<and> distinct (map fst (missingHints r))
     \<and> owns is_retrieve (retrieveInterval r) (live t))"

lemma clear_retrieve_inv: "retriever_inv s \<Longrightarrow> retriever_inv (clear_retrieve s)"
  by (cases s; cases "retrieveInterval (fst s)")
    (auto simp: retriever_inv_def clear_retrieve_def owns_cleared js_timers.clear_spec)

lemma clear_retrieve_slot: "retrieveInterval (fst (clear_retrieve s)) = None"
  by (cases s; cases "retrieveInterval (fst s)") (simp_all add: clear_retrieve_def)

lemma retriever_start_inv:
  assumes "retriever_inv s"
  shows "retriever_inv (retriever_start s)"
proof -
  obtain r t where c: "clear_retrieve s = (r, t)" by fastforce
  have inv: "retriever_inv (r, t)" and none: "retrieveInterval r = None"
    using clear_retrieve_inv[OF assms] clear_retrieve_slot[of s] c by simp_all
  obtain t' h where set: "set_timer RetrieveTimer t = (t', h)" by fastforce
  have "timers_ok t" "owns is_retrieve None (live t)" using inv none by (simp_all add: retriever_inv_def)
  with js_timers.owns_set[OF this _ set] js_timers.set_spec[OF _ set] inv show ?thesis
    by (simp add: retriever_start_def c set retriever_inv_def Let_def)
qed

lemma retriever_stop_inv: "retriever_inv s \<Longrightarrow> retriever_inv (retriever_stop s)"
  using clear_retrieve_inv[of s] by (cases "clear_retrieve s") (simp add: retriever_stop_def retriever_inv_def)

lemma missing_updates_inv:
  "retriever_inv (r, t) \<Longrightarrow> retriever_inv (addMissingMessage mid hint r, t)"
  "retriever_inv (r, t) \<Longrightarrow> retriever_inv (removeMissingMessage mid r, t)"
  by (simp_all add: retriever_inv_def addMissingMessage_def removeMissingMessage_def distinct_update distinct_delete)

end
