(* ===== verification/Sync_Status.thy ===== *)
theory Sync_Status
  imports Prelude
begin

text \<open>
  \<open>packages/sdk/src/reliable_channel/sync_status.ts\<close>: which messages of a channel were received, are
  missing or lost. A change schedules one event on the next microtask; \<open>run_microtask\<close> is that
  microtask. The three sets are lists without duplicates, in insertion order.
\<close>

datatype status_event =
    Synced nat nat nat
  | Syncing nat nat nat

record sync_status =
  receivedMessages :: "string list"
  missingMessages :: "string list"
  lostMessages :: "string list"
  sendScheduled :: bool
  cleaned :: bool
  status_events :: "status_event list"

definition sync_status_new :: sync_status where
  "sync_status_new = \<lparr>receivedMessages = [], missingMessages = [], lostMessages = [],
     sendScheduled = False, cleaned = False, status_events = []\<rparr>"

definition cleanUp :: "sync_status \<Rightarrow> sync_status" where
  "cleanUp s = s\<lparr>cleaned := True, receivedMessages := [], missingMessages := [], lostMessages := []\<rparr>"

definition scheduleSend :: "sync_status \<Rightarrow> sync_status" where
  "scheduleSend s = (if \<not> sendScheduled s then s\<lparr>sendScheduled := True\<rparr> else s)"

definition safeSend :: "sync_status \<Rightarrow> sync_status" where
  "safeSend s =
     (if cleaned s then s
      else let received = length (receivedMessages s); missing = length (missingMessages s);
               lost = length (lostMessages s)
           in s\<lparr>status_events := status_events s @
                [if missing = 0 then Synced received missing lost else Syncing received missing lost]\<rparr>)"

definition run_microtask :: "sync_status \<Rightarrow> sync_status" where
  "run_microtask s = (if sendScheduled s then safeSend (s\<lparr>sendScheduled := False\<rparr>) else s)"

definition receive_id :: "string \<Rightarrow> sync_status \<Rightarrow> sync_status" where
  "receive_id mid s = s\<lparr>missingMessages := js_set_delete mid (missingMessages s),
                        lostMessages := js_set_delete mid (lostMessages s),
                        receivedMessages := js_set_add mid (receivedMessages s)\<rparr>"

definition onMessagesReceived :: "string list \<Rightarrow> sync_status \<Rightarrow> sync_status" where
  "onMessagesReceived ids s = scheduleSend (fold receive_id ids s)"

definition miss_id :: "string \<Rightarrow> sync_status \<Rightarrow> sync_status" where
  "miss_id mid s =
     (if mid \<notin> set (receivedMessages s) \<and> mid \<notin> set (lostMessages s)
      then s\<lparr>missingMessages := js_set_add mid (missingMessages s)\<rparr> else s)"

definition onMessagesMissing :: "string list \<Rightarrow> sync_status \<Rightarrow> sync_status" where
  "onMessagesMissing ids s = scheduleSend (fold miss_id ids s)"

definition lose_id :: "string \<Rightarrow> sync_status \<Rightarrow> sync_status" where
  "lose_id mid s = s\<lparr>missingMessages := js_set_delete mid (missingMessages s),
                     lostMessages := js_set_add mid (lostMessages s)\<rparr>"

definition onMessagesLost :: "string list \<Rightarrow> sync_status \<Rightarrow> sync_status" where
  "onMessagesLost ids s = scheduleSend (fold lose_id ids s)"

section \<open>Runs\<close>

datatype status_op =
    Received "string list"
  | Missing "string list"
  | Lost "string list"
  | CleanUp
  | Microtask

fun status_step :: "status_op \<Rightarrow> sync_status \<Rightarrow> sync_status" where
  "status_step (Received ids) s = onMessagesReceived ids s"
| "status_step (Missing ids) s = onMessagesMissing ids s"
| "status_step (Lost ids) s = onMessagesLost ids s"
| "status_step CleanUp s = cleanUp s"
| "status_step Microtask s = run_microtask s"

definition status_run :: "status_op list \<Rightarrow> sync_status \<Rightarrow> sync_status" where
  "status_run ops s = fold status_step ops s"

definition status_inv :: "sync_status \<Rightarrow> bool" where
  "status_inv s \<longleftrightarrow> set (missingMessages s) \<inter> (set (receivedMessages s) \<union> set (lostMessages s)) = {}
     \<and> distinct (receivedMessages s) \<and> distinct (missingMessages s) \<and> distinct (lostMessages s)"

lemma fold_inv: "(\<And>x s. P s \<Longrightarrow> P (f x s)) \<Longrightarrow> P s \<Longrightarrow> P (fold f xs s)"
  by (induction xs arbitrary: s) auto

lemma scheduleSend_fields [simp]:
  "receivedMessages (scheduleSend s) = receivedMessages s" "missingMessages (scheduleSend s) = missingMessages s"
  "lostMessages (scheduleSend s) = lostMessages s" "cleaned (scheduleSend s) = cleaned s"
  "status_events (scheduleSend s) = status_events s" "sendScheduled (scheduleSend s)"
  by (simp_all add: scheduleSend_def)

lemma safeSend_fields [simp]:
  "receivedMessages (safeSend s) = receivedMessages s" "missingMessages (safeSend s) = missingMessages s"
  "lostMessages (safeSend s) = lostMessages s" "cleaned (safeSend s) = cleaned s"
  "sendScheduled (safeSend s) = sendScheduled s"
  by (simp_all add: safeSend_def Let_def)

lemma status_step_inv: "status_inv s \<Longrightarrow> status_inv (status_step op s)"
proof (cases op)
  case (Received ids)
  assume "status_inv s"
  then have "status_inv (fold receive_id ids s)"
    by (rule fold_inv[rotated]) (auto simp: status_inv_def receive_id_def distinct_js_set_delete)
  with Received show ?thesis by (simp add: onMessagesReceived_def status_inv_def)
next
  case (Missing ids)
  assume "status_inv s"
  then have "status_inv (fold miss_id ids s)"
    by (rule fold_inv[rotated]) (auto simp: status_inv_def miss_id_def)
  with Missing show ?thesis by (simp add: onMessagesMissing_def status_inv_def)
next
  case (Lost ids)
  assume "status_inv s"
  then have "status_inv (fold lose_id ids s)"
    by (rule fold_inv[rotated]) (auto simp: status_inv_def lose_id_def distinct_js_set_delete)
  with Lost show ?thesis by (simp add: onMessagesLost_def status_inv_def)
qed (auto simp: status_inv_def cleanUp_def run_microtask_def)

lemma status_run_inv: "status_inv s \<Longrightarrow> status_inv (status_run ops s)"
  unfolding status_run_def by (rule fold_inv) (simp_all add: status_step_inv)

text \<open>A batch of notices: any calls but a clean-up, before the microtask runs.\<close>

definition notice :: "status_op \<Rightarrow> bool" where
  "notice op \<longleftrightarrow> (case op of CleanUp \<Rightarrow> False | Microtask \<Rightarrow> False | _ \<Rightarrow> True)"

lemma notice_step:
  assumes "notice op"
  shows "status_events (status_step op s) = status_events s" "cleaned (status_step op s) = cleaned s"
    "sendScheduled (status_step op s)"
proof -
  have "status_events (fold receive_id ids s) = status_events s \<and> cleaned (fold receive_id ids s) = cleaned s"
    for ids by (induction ids arbitrary: s) (simp_all add: receive_id_def)
  moreover have "status_events (fold miss_id ids s) = status_events s \<and> cleaned (fold miss_id ids s) = cleaned s"
    for ids by (induction ids arbitrary: s) (simp_all add: miss_id_def)
  moreover have "status_events (fold lose_id ids s) = status_events s \<and> cleaned (fold lose_id ids s) = cleaned s"
    for ids by (induction ids arbitrary: s) (simp_all add: lose_id_def)
  ultimately show "status_events (status_step op s) = status_events s" "cleaned (status_step op s) = cleaned s"
    "sendScheduled (status_step op s)"
    using assms
    by (cases op; simp add: notice_def onMessagesReceived_def onMessagesMissing_def onMessagesLost_def)+
qed

lemma notice_run:
  "\<forall>op\<in>set ops. notice op \<Longrightarrow> ops \<noteq> [] \<Longrightarrow>
    status_events (status_run ops s) = status_events s \<and> cleaned (status_run ops s) = cleaned s
    \<and> sendScheduled (status_run ops s)"
proof (induction ops arbitrary: s)
  case (Cons op ops)
  show ?case
  proof (cases "ops = []")
    case True
    with Cons.prems notice_step[of op s] show ?thesis by (simp add: status_run_def)
  next
    case False
    with Cons.IH[of "status_step op s"] Cons.prems notice_step[of op s] show ?thesis
      by (simp add: status_run_def)
  qed
qed simp

lemma cleaned_step: "cleaned s \<Longrightarrow> cleaned (status_step op s) \<and> status_events (status_step op s) = status_events s"
  using notice_step[of op s]
  by (cases "notice op") (auto simp: notice_def cleanUp_def run_microtask_def safeSend_def split: status_op.splits)

section \<open>Properties\<close>

text \<open>Whatever is reported in whatever order, no message counts as missing and as received or lost at
  the same time, and no message counts twice in one of the three sets.\<close>

theorem sync_status_consistent:
  "let s = status_run ops sync_status_new in
    set (missingMessages s) \<inter> (set (receivedMessages s) \<union> set (lostMessages s)) = {}
    \<and> distinct (receivedMessages s) \<and> distinct (missingMessages s) \<and> distinct (lostMessages s)"
proof -
  have "status_inv sync_status_new" by (simp add: status_inv_def sync_status_new_def)
  from status_run_inv[OF this, of ops] show ?thesis by (simp add: status_inv_def Let_def)
qed

text \<open>A batch of notices leads to exactly one event, on the microtask: synced if nothing is missing
  and syncing otherwise, with the sizes of the sets. After a clean-up there is never an event again,
  whatever is reported: the flag is not reset.\<close>

theorem sync_status_events:
  assumes "list_all notice ops" and "ops \<noteq> []"
  shows "let s' = status_run (ops @ [Microtask]) s in
    (if cleaned s
     then status_events (status_run any s) = status_events s
     else status_events s' = status_events s @
       [(if missingMessages s' = [] then Synced else Syncing)
          (length (receivedMessages s')) (length (missingMessages s')) (length (lostMessages s'))])"
proof -
  let ?b = "status_run ops s"
  have n: "status_events ?b = status_events s" "cleaned ?b = cleaned s" "sendScheduled ?b"
    using notice_run[of ops s] assms by (auto simp: list_all_iff)
  have e: "status_run (ops @ [Microtask]) s = run_microtask ?b" by (simp add: status_run_def)
  have silent: "cleaned s \<Longrightarrow> status_events (status_run any s) = status_events s"
    unfolding status_run_def
    using fold_inv[of "\<lambda>s'. cleaned s' \<and> status_events s' = status_events s" status_step s any] cleaned_step
    by auto
  show ?thesis
  proof (cases "cleaned s")
    case True
    with silent show ?thesis by (simp add: Let_def)
  next
    case False
    with n show ?thesis unfolding e by (simp add: run_microtask_def safeSend_def Let_def)
  qed
qed

theorem sync_status_events_witness:
  "status_events (status_run ([Missing [''a'', ''b''], Received [''a'']] @ [Microtask]) sync_status_new)
     = [Syncing 1 1 0]
   \<and> status_events (status_run [Missing [''a''], Microtask] (cleanUp sync_status_new)) = []"
proof -
  have "list_all notice [Missing [''a'', ''b''], Received [''a'']]"
    by (simp add: notice_def)
  note e = sync_status_events[OF this, of sync_status_new "[]"]
  have "status_run ([Missing [''a'', ''b''], Received [''a'']] @ [Microtask]) sync_status_new
      = \<lparr>receivedMessages = [''a''], missingMessages = [''b''], lostMessages = [], sendScheduled = False,
         cleaned = False, status_events = [Syncing 1 1 0]\<rparr>"
    by (simp add: status_run_def sync_status_new_def onMessagesMissing_def onMessagesReceived_def
        miss_id_def receive_id_def scheduleSend_def run_microtask_def safeSend_def js_set_add_def
        js_set_delete_def)
  moreover have "status_events (status_run [Missing [''a''], Microtask] (cleanUp sync_status_new)) = []"
    using sync_status_events[of "[Missing [''a'']]" "cleanUp sync_status_new" "[Missing [''a''], Microtask]"]
    by (simp add: notice_def cleanUp_def sync_status_new_def)
  ultimately show ?thesis using e by simp
qed

end
