(* ===== verification/Query_On_Connect.thy ===== *)
theory Query_On_Connect
  imports Prelude
begin

text \<open>
  \<open>packages/sdk/src/query_on_connect/query_on_connect.ts\<close>: a store query over a time range on every
  connection to a store node that may have messages we missed. Times are milliseconds. The query
  generator belongs to the client: one run of it is the pages it yields before it ends or fails, a
  message that cannot be decoded being \<open>None\<close> and a page whose decoding fails ending the run.
\<close>

datatype health_status = Unhealthy | MinimallyHealthy | SufficientlyHealthy

record 'm query_run =
  qr_pages :: "'m option list list"
  qr_failed :: bool

record 'm query_on_connect =
  lastSuccessfulQuery :: int
  lastTimeOffline :: int
  forceQueryThresholdMs :: int
  isStarted :: bool
  qc_abortable :: bool
  bound_handlers :: bool
  dispatched :: "'m list list"

definition DEFAULT_FORCE_QUERY_THRESHOLD_MS :: int where
  "DEFAULT_FORCE_QUERY_THRESHOLD_MS = 5 * 60 * 1000"

definition MAX_TIME_RANGE_QUERY_MS :: int where
  "MAX_TIME_RANGE_QUERY_MS = 30 * 24 * 60 * 60 * 1000"

definition query_on_connect_new :: "int option \<Rightarrow> 'm query_on_connect" where
  "query_on_connect_new threshold =
     \<lparr>lastSuccessfulQuery = 0, lastTimeOffline = 0,
      forceQueryThresholdMs = (case threshold of None \<Rightarrow> DEFAULT_FORCE_QUERY_THRESHOLD_MS | Some t \<Rightarrow> t),
      isStarted = False, qc_abortable = False, bound_handlers = False, dispatched = []\<rparr>"

definition query_start :: "'m query_on_connect \<Rightarrow> 'm query_on_connect" where
  "query_start q = (if isStarted q then q else q\<lparr>isStarted := True, qc_abortable := True, bound_handlers := True\<rparr>)"

text \<open>No query is running when \<open>stop\<close> returns: it aborts and waits for the one it knows of.\<close>

definition query_stop :: "'m query_on_connect \<Rightarrow> 'm query_on_connect" where
  "query_stop q =
     (if \<not> isStarted q then q else q\<lparr>isStarted := False, qc_abortable := False, bound_handlers := False\<rparr>)"

definition calculateTimeRange :: "int \<Rightarrow> int \<Rightarrow> int \<Rightarrow> int \<times> int" where
  "calculateTimeRange now lastQuery maxRange = (let timeRange = min (now - lastQuery) maxRange in (now - timeRange, now))"

definition queryTimeRange :: "int \<Rightarrow> 'm query_on_connect \<Rightarrow> int \<times> int" where
  "queryTimeRange now q = calculateTimeRange now (lastSuccessfulQuery q) MAX_TIME_RANGE_QUERY_MS"

text \<open>The loop over the pages: dispatch the decoded messages of a page, stop after a page with a match.\<close>

definition decoded_page :: "'m option list \<Rightarrow> 'm list" where
  "decoded_page page = map the (filter (\<lambda>m. m \<noteq> None) page)"

fun query_pages :: "('m \<Rightarrow> bool) \<Rightarrow> 'm option list list \<Rightarrow> bool \<Rightarrow> 'm list list \<times> bool" where
  "query_pages stopIfTrue [] failed = ([], \<not> failed)"
| "query_pages stopIfTrue (page # pages) failed =
     (let messages = decoded_page page
      in if list_ex stopIfTrue messages then ([messages], True)
         else (case query_pages stopIfTrue pages failed of (ds, ok) \<Rightarrow> (messages # ds, ok)))"

text \<open>\<open>later\<close> is the clock when the loop is over.\<close>

definition qc_query ::
  "('m \<Rightarrow> bool) \<Rightarrow> (int \<times> int \<Rightarrow> 'm query_run) \<Rightarrow> int \<Rightarrow> int \<Rightarrow> 'm query_on_connect \<Rightarrow> 'm query_on_connect" where
  "qc_query stopIfTrue generator now later q =
     (let run = generator (queryTimeRange now q);
          (ds, ok) = query_pages stopIfTrue (qr_pages run) (qr_failed run);
          q1 = q\<lparr>dispatched := dispatched q @ ds\<rparr>
      in if ok then q1\<lparr>lastSuccessfulQuery := later\<rparr> else q1)"

definition query_due :: "int \<Rightarrow> 'm query_on_connect \<Rightarrow> bool" where
  "query_due now q \<longleftrightarrow> lastSuccessfulQuery q = 0 \<or> lastTimeOffline q > lastSuccessfulQuery q
     \<or> now - lastSuccessfulQuery q > forceQueryThresholdMs q"

definition maybeQuery ::
  "('m \<Rightarrow> bool) \<Rightarrow> (int \<times> int \<Rightarrow> 'm query_run) \<Rightarrow> int \<Rightarrow> int \<Rightarrow> 'm query_on_connect \<Rightarrow> 'm query_on_connect" where
  "maybeQuery stopIfTrue generator now later q =
     (if query_due now q then qc_query stopIfTrue generator now later q else q)"

text \<open>The two listeners, which act only while they are bound.\<close>

definition on_store_connect ::
  "('m \<Rightarrow> bool) \<Rightarrow> (int \<times> int \<Rightarrow> 'm query_run) \<Rightarrow> int \<Rightarrow> int \<Rightarrow> 'm query_on_connect \<Rightarrow> 'm query_on_connect" where
  "on_store_connect stopIfTrue generator now later q =
     (if bound_handlers q then maybeQuery stopIfTrue generator now later q else q)"

definition updateLastOfflineDate :: "health_status \<Rightarrow> int \<Rightarrow> 'm query_on_connect \<Rightarrow> 'm query_on_connect" where
  "updateLastOfflineDate status now q = (if status = Unhealthy then q\<lparr>lastTimeOffline := now\<rparr> else q)"

definition on_health :: "health_status \<Rightarrow> int \<Rightarrow> 'm query_on_connect \<Rightarrow> 'm query_on_connect" where
  "on_health status now q = (if bound_handlers q then updateLastOfflineDate status now q else q)"

section \<open>What is dispatched\<close>

lemma query_pages_prefix:
  "fst (query_pages P pages failed) = map decoded_page
     (take (length (fst (query_pages P pages failed))) pages)"
  by (induction pages) (auto simp: Let_def split: prod.split)

lemma query_pages_before_stop:
  "i + 1 < length (fst (query_pages P pages failed)) \<Longrightarrow> \<not> list_ex P (fst (query_pages P pages failed) ! i)"
proof (induction pages arbitrary: i)
  case (Cons page pages)
  then show ?case
    by (cases i) (auto simp: Let_def split: prod.split_asm if_splits prod.split)
qed simp

lemma query_pages_end:
  "snd (query_pages P pages failed) \<longleftrightarrow> \<not> failed \<or>
     (\<exists>ms\<in>set (fst (query_pages P pages failed)). list_ex P ms)"
  by (induction pages) (auto simp: Let_def split: prod.split)

section \<open>Properties\<close>

text \<open>A query that succeeds moves the start of the next one to the moment it ended, not to the end
  of the range it asked for; so the next query starts where this one ended or 30 days back, and the
  messages stored while a query was running are in no later range. A query that fails moves nothing,
  and the next range contains everything the failed one had not reached within the 30 days.\<close>

theorem query_ranges_gap:
  assumes "0 < now" and "now < later" and "later \<le> now'"
    and "snd (query_pages stopIfTrue (qr_pages (generator (queryTimeRange now q)))
               (qr_failed (generator (queryTimeRange now q)))) = ok"
  shows "let q' = qc_query stopIfTrue generator now later q in
     snd (queryTimeRange now q) = now \<and> snd (queryTimeRange now' q') = now'
     \<and> (if ok
        then fst (queryTimeRange now' q') = max later (now' - MAX_TIME_RANGE_QUERY_MS)
          \<and> (\<forall>t. now < t \<and> t < later \<longrightarrow>
               (\<forall>now''\<ge>now'. t < fst (queryTimeRange now'' q')) \<and> snd (queryTimeRange now q) < t)
        else fst (queryTimeRange now' q')
          = max (lastSuccessfulQuery q) (now' - MAX_TIME_RANGE_QUERY_MS))"
  using assms
  by (auto simp: qc_query_def queryTimeRange_def calculateTimeRange_def Let_def split: prod.split)

theorem query_ranges_gap_witness:
  "fst (queryTimeRange 9000 (qc_query (\<lambda>m :: nat. False) (\<lambda>r. \<lparr>qr_pages = [[Some 1, None]], qr_failed = False\<rparr>)
      5000 7000 (query_on_connect_new None))) = 7000"
proof -
  let ?g = "\<lambda>r :: int \<times> int. \<lparr>qr_pages = [[Some (1 :: nat), None]], qr_failed = False\<rparr>"
  have "snd (query_pages (\<lambda>m. False) (qr_pages (?g r)) (qr_failed (?g r))) = True" for r by (simp add: Let_def)
  from query_ranges_gap[OF _ _ _ this, of 5000 7000 9000] show ?thesis
    by (simp add: MAX_TIME_RANGE_QUERY_MS_def Let_def)
qed

text \<open>On a connection to a store node a started service queries exactly when no query has succeeded,
  or it was unhealthy since, or the threshold has passed; it then dispatches the decoded messages of
  the pages in order up to the first page that holds a match, and none of the pages after it.\<close>

theorem query_on_store_connect:
  assumes "bound_handlers q" and "query_due now q"
  shows "\<exists>n. let pages = qr_pages (generator (queryTimeRange now q));
             ds = map decoded_page (take n pages)
         in n \<le> length pages
          \<and> dispatched (on_store_connect stopIfTrue generator now later q) = dispatched q @ ds
          \<and> (\<forall>i. i + 1 < n \<longrightarrow> \<not> list_ex stopIfTrue (ds ! i))
          \<and> (n < length pages \<longrightarrow> 0 < n \<and> list_ex stopIfTrue (ds ! (n - 1)))"
proof -
  let ?run = "generator (queryTimeRange now q)"
  let ?r = "query_pages stopIfTrue (qr_pages ?run) (qr_failed ?run)"
  let ?ds = "fst ?r"
  have len: "length ?ds \<le> length (qr_pages ?run)"
    by (subst query_pages_prefix) simp
  have last: "length (fst (query_pages P ps f)) < length ps \<longrightarrow>
      0 < length (fst (query_pages P ps f)) \<and>
      list_ex P (fst (query_pages P ps f) ! (length (fst (query_pages P ps f)) - 1))" for P :: "'a \<Rightarrow> bool" and ps f
    by (induction ps) (auto simp: Let_def split: prod.split)
  have d: "dispatched (on_store_connect stopIfTrue generator now later q) = dispatched q @ ?ds"
    using assms by (simp add: on_store_connect_def maybeQuery_def qc_query_def Let_def split: prod.split)
  have eq: "map decoded_page (take (length ?ds) (qr_pages ?run)) = ?ds"
    by (rule query_pages_prefix[symmetric])
  show ?thesis
    using len last[of stopIfTrue "qr_pages ?run" "qr_failed ?run"] d
      query_pages_before_stop[of _ stopIfTrue "qr_pages ?run" "qr_failed ?run"]
    by (intro exI[of _ "length ?ds"]) (simp add: Let_def eq)
qed

theorem query_on_store_connect_witness:
  "\<exists>n\<le>2. dispatched (on_store_connect (\<lambda>m :: nat. m = 2) (\<lambda>r. \<lparr>qr_pages = [[Some 1, None], [Some 2]], qr_failed = False\<rparr>)
      5000 7000 (query_start (query_on_connect_new None)))
     = map decoded_page (take n [[Some 1, None], [Some 2]])"
proof -
  let ?q = "query_start (query_on_connect_new None) :: nat query_on_connect"
  have "bound_handlers ?q" "query_due 5000 ?q" "dispatched ?q = []"
    by (simp_all add: query_start_def query_on_connect_new_def query_due_def)
  with query_on_store_connect[OF this(1,2), of "\<lambda>r. \<lparr>qr_pages = [[Some 1, None], [Some 2]], qr_failed = False\<rparr>"
      "\<lambda>m. m = 2" 7000]
  show ?thesis by (simp add: Let_def) (metis One_nat_def Suc_1)
qed

end
