(* ===== verification/Message_Hash.thy ===== *)
theory Message_Hash
  imports Repair_Manager
begin

text \<open>
  \<open>packages/core/src/lib/message_hash/message_hash.ts\<close>: the deterministic hash of a Waku message. The
  hash function of \<open>@noble/hashes\<close> is a parameter. A timestamp is a bigint of nanoseconds or a number
  or \<open>Date\<close> of milliseconds; a number is an integer here (\<open>BigInt\<close> refuses fractions).
\<close>

datatype timestamp =
    TsBigint int
  | TsNumber int
  | TsDate int

record waku_message =
  wm_payload :: bytes
  wm_contentTopic :: string
  wm_meta :: "bytes option"
  wm_timestamp :: "timestamp option"

text \<open>A zero number and a zero bigint are falsy, a \<open>Date\<close> never is.\<close>

definition tryConvertTimestampToBytes :: "timestamp option \<Rightarrow> bytes option" where
  "tryConvertTimestampToBytes ts =
     (case ts of
        None \<Rightarrow> None
      | Some (TsBigint n) \<Rightarrow> if n = 0 then None else Some (numberToBytes_bigint n)
      | Some (TsNumber n) \<Rightarrow> if n = 0 then None else Some (numberToBytes_bigint (n * 1000000))
      | Some (TsDate n) \<Rightarrow> Some (numberToBytes_bigint (n * 1000000)))"

definition is_defined :: "'a option \<Rightarrow> bool" where
  "is_defined x \<longleftrightarrow> x \<noteq> None"

definition messageHash :: "(bytes \<Rightarrow> bytes) \<Rightarrow> string \<Rightarrow> waku_message \<Rightarrow> js_error + bytes" where
  "messageHash sha256 pubsubTopic m =
     (let parts = [Some (utf8_encode pubsubTopic), Some (wm_payload m), Some (utf8_encode (wm_contentTopic m)),
                   wm_meta m, tryConvertTimestampToBytes (wm_timestamp m)]
      in case bytes_concat (map the (filter is_defined parts)) None of
           Inl e \<Rightarrow> Inl e
         | Inr bs \<Rightarrow> Inr (sha256 bs))"

definition messageHashStr :: "(bytes \<Rightarrow> bytes) \<Rightarrow> string \<Rightarrow> waku_message \<Rightarrow> js_error + string" where
  "messageHashStr sha256 pubsubTopic m =
     (case messageHash sha256 pubsubTopic m of Inl e \<Rightarrow> Inl e | Inr h \<Rightarrow> Inr (bytesToHex h))"

definition opt_bytes :: "bytes option \<Rightarrow> bytes" where
  "opt_bytes x = (case x of None \<Rightarrow> [] | Some b \<Rightarrow> b)"

lemma messageHash_eq:
  "messageHash sha256 pubsubTopic m = Inr (sha256 (utf8_encode pubsubTopic @ wm_payload m
     @ utf8_encode (wm_contentTopic m) @ opt_bytes (wm_meta m)
     @ opt_bytes (tryConvertTimestampToBytes (wm_timestamp m))))"
  by (cases "wm_meta m"; cases "tryConvertTimestampToBytes (wm_timestamp m)")
    (simp_all add: messageHash_def is_defined_def bytes_concat_None opt_bytes_def)

lemma numberToBytes_bigint_inject:
  assumes "numberToBytes_bigint a = numberToBytes_bigint b"
  shows "a mod 2 ^ 64 = b mod 2 ^ 64"
  using assms numberToBytes_bigint_value[of a] numberToBytes_bigint_value[of b] by simp

text \<open>The hash is that of the concatenation of topic, payload, content topic, metadata and timestamp,
  without separators. Two messages on the same topics with the same metadata and present 64-bit
  timestamps have the same hash under every hash function only if payload and timestamp agree; but
  moving a byte from the payload to the topic never changes the hash.\<close>

theorem messageHash_identifies:
  assumes "wm_contentTopic m = wm_contentTopic m'" and "wm_meta m = wm_meta m'"
    and "wm_timestamp m = Some (TsBigint t)" and "wm_timestamp m' = Some (TsBigint t')"
    and "0 < t" "t < 2 ^ 64" "0 < t'" "t' < 2 ^ 64"
  shows "((\<forall>sha256. messageHash sha256 topic m = messageHash sha256 topic m') \<longleftrightarrow>
            wm_payload m = wm_payload m' \<and> t = t')
    \<and> messageHash sha256 (topic @ ''b'') m = messageHash sha256 topic (m\<lparr>wm_payload := 98 # wm_payload m\<rparr>)"
proof -
  let ?c = "utf8_encode (wm_contentTopic m') @ opt_bytes (wm_meta m')"
  have ts: "opt_bytes (tryConvertTimestampToBytes (Some (TsBigint n))) = numberToBytes_bigint n" if "0 < n" for n
    using that by (simp add: tryConvertTimestampToBytes_def opt_bytes_def)
  have eq: "messageHash h topic x = Inr (h (utf8_encode topic @ (wm_payload x @ ?c) @ numberToBytes_bigint n))"
    if "wm_contentTopic x = wm_contentTopic m'" "wm_meta x = wm_meta m'" "wm_timestamp x = Some (TsBigint n)"
      "0 < n" for x n h
    using that ts by (simp add: messageHash_eq)
  have "wm_payload m = wm_payload m' \<and> t = t'"
    if "\<forall>sha256. messageHash sha256 topic m = messageHash sha256 topic m'"
  proof -
    have "(wm_payload m @ ?c) @ numberToBytes_bigint t = (wm_payload m' @ ?c) @ numberToBytes_bigint t'"
      using that[rule_format, of "\<lambda>x. x"] eq[of m t "\<lambda>x. x"] eq[of m' t' "\<lambda>x. x"] assms by simp
    moreover have "length (numberToBytes_bigint t) = length (numberToBytes_bigint t')"
      by (simp add: numberToBytes_bigint_def)
    ultimately have "wm_payload m @ ?c = wm_payload m' @ ?c" "numberToBytes_bigint t = numberToBytes_bigint t'"
      by (metis append_eq_append_conv)+
    moreover from this(2) have "t = t'"
      using numberToBytes_bigint_inject[of t t'] assms(5-8) by simp
    ultimately show ?thesis by simp
  qed
  moreover have "messageHash h topic m = messageHash h topic m'" if "wm_payload m = wm_payload m'" "t = t'" for h
    using that eq[of m t h] eq[of m' t' h] assms by simp
  moreover have "utf8_encode (topic @ ''b'') = utf8_encode topic @ [98]" by (simp add: utf8_encode_def)
  ultimately show ?thesis by (auto simp: messageHash_eq)
qed

theorem messageHash_identifies_witness:
  "\<exists>m m'. wm_payload m = [1] \<and> wm_payload m' = [2]
     \<and> \<not> (\<forall>sha256. messageHash sha256 ''/waku/2/rs/1/0'' m = messageHash sha256 ''/waku/2/rs/1/0'' m')"
proof -
  let ?m = "\<lparr>wm_payload = [1], wm_contentTopic = ''/a/1/b/proto'', wm_meta = None, wm_timestamp = Some (TsBigint 5)\<rparr>"
  let ?m' = "\<lparr>wm_payload = [2], wm_contentTopic = ''/a/1/b/proto'', wm_meta = None, wm_timestamp = Some (TsBigint 5)\<rparr>"
  have "\<not> (\<forall>sha256. messageHash sha256 ''/waku/2/rs/1/0'' ?m = messageHash sha256 ''/waku/2/rs/1/0'' ?m')"
    using messageHash_identifies[of ?m ?m' 5 5 "''/waku/2/rs/1/0''" "\<lambda>x. x"] by simp
  then show ?thesis by (intro exI[of _ ?m] exI[of _ ?m']) simp
qed

end
