(* ===== verification/Reliable_Channel.thy ===== *)
theory Reliable_Channel
  imports Channel_Properties Random_Timeout Missing_Retriever Sync_Status Query_On_Connect Message_Hash
begin

text \<open>
  \<open>packages/sdk/src/reliable_channel/reliable_channel.ts\<close> with \<open>events.ts\<close>: a message channel driven by
  timers and wired to a Waku node. The state is the class' fields, the timers they hold and the events
  dispatched to the client.

  \<^item> What belongs to others is in the environment \<open>rc_env\<close> of a call: the host functions, the protobuf
    codec, the encoder, the node's protocols and their answers, the clock and the random numbers.
    Each call may see another environment.
  \<^item> A call, a firing timer or an incoming message runs to its end before the next; where the code's
    synchronous part orders effects differently from the end of a promise, the model follows the code
    (see \<open>rc_fire\<close>).
  \<^item> The listeners of the message channel's events run in the order of the events.
\<close>

section \<open>Types\<close>

datatype light_push_error =
    GENERIC_FAIL | DECODE_FAILED | NO_PEER_AVAILABLE | NO_STREAM_AVAILABLE | NO_RESPONSE | STREAM_ABORTED
  | ENCODE_FAILED | EMPTY_PAYLOAD | SIZE_TOO_BIG | TOPIC_NOT_CONFIGURED | RLN_PROOF_GENERATION
  | REMOTE_PEER_REJECTED | BAD_REQUEST | PAYLOAD_TOO_LARGE | INVALID_MESSAGE | UNSUPPORTED_TOPIC
  | TOO_MANY_REQUESTS | INTERNAL_ERROR | UNAVAILABLE | NO_RLN_PROOF | NO_PEERS

datatype retrieval_strategy = Both | SdsROnly | StoreOnly | NoRetrieval

datatype send_error = NotStarted | NotEncoded | LightPush light_push_error

record decoded_message =
  dm_payload :: bytes
  dm_hash :: bytes
  dm_hashStr :: string
  dm_version :: "int option"
  dm_contentTopic :: string
  dm_pubsubTopic :: string
  dm_timestamp :: "int option"
  dm_rateLimitProof :: "bytes option"
  dm_ephemeral :: "bool option"
  dm_meta :: "bytes option"

datatype rc_event =
    SendingMessage string
  | MessageSent string
  | MessagePossiblyAcknowledged string nat
  | MessageAcknowledged string
  | SendingMessageIrrecoverableError string send_error
  | MessageReceived decoded_message

record rc_env =
  re_host :: host
  re_encode :: "message \<Rightarrow> bytes"
  re_decode :: "bytes \<Rightarrow> message option"
  re_toProtoObj :: "bytes \<Rightarrow> js_error + waku_message option"
  re_pubsubTopic :: string
  re_send :: "bytes \<Rightarrow> js_error + light_push_error list"
  re_subscribe :: "js_error + bool"
  re_unsubscribe :: "js_error + bool"
  re_query :: "bytes list \<Rightarrow> decoded_message option list"
  re_clock :: "nat \<Rightarrow> nat"
  re_random :: "nat \<Rightarrow> real"
  re_syncId :: string

record rc_node =
  has_lightPush :: bool
  has_relay :: bool
  has_filter :: bool
  has_store :: bool
  has_peerEvents :: bool

record rc_options =
  ro_channel :: channel_options
  ro_syncMinIntervalMs :: "real option"
  ro_retryIntervalMs :: "int option"
  ro_maxRetryAttempts :: "int option"
  ro_retrieveFrequencyMs :: "int option"
  ro_sweepInBufIntervalMs :: "nat option"
  ro_queryOnConnect :: "bool option"
  ro_autoStart :: "bool option"
  ro_processTaskMinElapseMs :: "nat option"
  ro_retrievalStrategy :: "retrieval_strategy option"

record reliable_channel =
  rc_channel :: channel
  rc_strategy :: retrieval_strategy
  rc_canRetrieve :: bool
  rc_timers :: "bytes timer_kind timers"
  syncRandomTimeout :: random_timeout
  sweepInBufInterval :: "nat option"
  sweepInBufIntervalMs :: nat
  sweepRepairInterval :: "nat option"
  processTaskTimeout :: "nat option"
  processTaskMinElapseMs :: nat
  retryManager :: "retry_manager option"
  missingMessageRetriever :: "retriever option"
  queryOnConnect :: "decoded_message query_on_connect option"
  internalSyncStatus :: sync_status
  rc_started :: bool
  rc_listening :: bool
  rc_events :: "rc_event list"

definition DEFAULT_SYNC_MIN_INTERVAL_MS :: real where
  "DEFAULT_SYNC_MIN_INTERVAL_MS = 30 * 1000"

definition SYNC_INTERVAL_REPAIR_MULTIPLIER :: real where
  "SYNC_INTERVAL_REPAIR_MULTIPLIER = 3 / 10"

definition DEFAULT_RETRY_INTERVAL_MS :: int where
  "DEFAULT_RETRY_INTERVAL_MS = 30 * 1000"

definition DEFAULT_MAX_RETRY_ATTEMPTS :: int where
  "DEFAULT_MAX_RETRY_ATTEMPTS = 10"

definition DEFAULT_SWEEP_IN_BUF_INTERVAL_MS :: nat where
  "DEFAULT_SWEEP_IN_BUF_INTERVAL_MS = 5 * 1000"

definition DEFAULT_PROCESS_TASK_MIN_ELAPSE_MS :: nat where
  "DEFAULT_PROCESS_TASK_MIN_ELAPSE_MS = 1000"

definition IRRECOVERABLE_SENDING_ERRORS :: "light_push_error list" where
  "IRRECOVERABLE_SENDING_ERRORS = [ENCODE_FAILED, EMPTY_PAYLOAD, SIZE_TOO_BIG, RLN_PROOF_GENERATION]"

definition strategy_uses_store :: "retrieval_strategy \<Rightarrow> bool" where
  "strategy_uses_store s \<longleftrightarrow> (s = Both \<or> s = StoreOnly)"

definition strategy_uses_sdsr :: "retrieval_strategy \<Rightarrow> bool" where
  "strategy_uses_sdsr s \<longleftrightarrow> (s = Both \<or> s = SdsROnly)"

definition shouldUseStore :: "reliable_channel \<Rightarrow> bool" where
  "shouldUseStore rc = strategy_uses_store (rc_strategy rc)"

definition shouldUseSdsR :: "reliable_channel \<Rightarrow> bool" where
  "shouldUseSdsR rc = strategy_uses_sdsr (rc_strategy rc)"

section \<open>Construction\<close>

definition rc_new :: "rc_node \<Rightarrow> channel \<Rightarrow> retrieval_strategy \<Rightarrow> rc_options \<Rightarrow> js_error + reliable_channel" where
  "rc_new node c strategy opts =
     (if \<not> has_lightPush node \<and> \<not> has_relay node
      then Inl (JsError ''No protocol available to send messages'')
      else if \<not> has_filter node
      then (if has_relay node then Inl (JsError ''Not implemented'')
            else Inl (JsError ''No protocol available to receive messages''))
      else case random_timeout_new (or_default DEFAULT_SYNC_MIN_INTERVAL_MS (ro_syncMinIntervalMs opts)) 2 of
        Inl e \<Rightarrow> Inl e
      | Inr rt \<Rightarrow>
          (let retryIntervalMs = or_default DEFAULT_RETRY_INTERVAL_MS (ro_retryIntervalMs opts);
               maxRetryAttempts = or_default DEFAULT_MAX_RETRY_ATTEMPTS (ro_maxRetryAttempts opts)
           in case (if retryIntervalMs \<noteq> 0 \<and> maxRetryAttempts \<noteq> 0
                    then map_sum id Some (retry_new retryIntervalMs maxRetryAttempts) else Inr None) of
                Inl e \<Rightarrow> Inl e
              | Inr rm \<Rightarrow> Inr
                  \<lparr>rc_channel = c, rc_strategy = strategy, rc_canRetrieve = has_store node,
                   rc_timers = no_timers, syncRandomTimeout = rt, sweepInBufInterval = None,
                   sweepInBufIntervalMs = or_default DEFAULT_SWEEP_IN_BUF_INTERVAL_MS (ro_sweepInBufIntervalMs opts),
                   sweepRepairInterval = None, processTaskTimeout = None,
                   processTaskMinElapseMs =
                     or_default DEFAULT_PROCESS_TASK_MIN_ELAPSE_MS (ro_processTaskMinElapseMs opts),
                   retryManager = rm,
                   missingMessageRetriever =
                     (if has_store node \<and> strategy_uses_store strategy
                      then Some (retriever_new (ro_retrieveFrequencyMs opts)) else None),
                   queryOnConnect =
                     (if has_store node \<and> has_peerEvents node \<and> or_default True (ro_queryOnConnect opts)
                      then Some (query_on_connect_new None) else None),
                   internalSyncStatus = sync_status_new, rc_started = False, rc_listening = False,
                   rc_events = []\<rparr>))"

section \<open>Timers\<close>

definition with_sync ::
  "(random_timeout \<times> bytes timer_kind timers \<Rightarrow> random_timeout \<times> bytes timer_kind timers) \<Rightarrow>
   reliable_channel \<Rightarrow> reliable_channel" where
  "with_sync f rc = (case f (syncRandomTimeout rc, rc_timers rc) of
     (rt, t) \<Rightarrow> rc\<lparr>syncRandomTimeout := rt, rc_timers := t\<rparr>)"

text \<open>\<open>this.retryManager?.f()\<close> and \<open>this.missingMessageRetriever?.f()\<close>\<close>

definition with_retry ::
  "(bytes retry_state \<Rightarrow> bytes retry_state) \<Rightarrow> reliable_channel \<Rightarrow> reliable_channel" where
  "with_retry f rc = (case retryManager rc of
     None \<Rightarrow> rc
   | Some rm \<Rightarrow> (case f (rm, rc_timers rc) of (rm', t) \<Rightarrow> rc\<lparr>retryManager := Some rm', rc_timers := t\<rparr>))"

definition with_retriever ::
  "(bytes retriever_state \<Rightarrow> bytes retriever_state) \<Rightarrow> reliable_channel \<Rightarrow> reliable_channel" where
  "with_retriever f rc = (case missingMessageRetriever rc of
     None \<Rightarrow> rc
   | Some r \<Rightarrow> (case f (r, rc_timers rc) of (r', t) \<Rightarrow> rc\<lparr>missingMessageRetriever := Some r', rc_timers := t\<rparr>))"

definition rc_emit :: "rc_event \<Rightarrow> reliable_channel \<Rightarrow> reliable_channel" where
  "rc_emit e rc = rc\<lparr>rc_events := rc_events rc @ [e]\<rparr>"

text \<open>\<open>pending\<close> is what \<open>hasPendingRepairRequests\<close> answers at the time of the call.\<close>

definition restartSync :: "real \<Rightarrow> bool \<Rightarrow> real \<Rightarrow> reliable_channel \<Rightarrow> reliable_channel" where
  "restartSync random pending multiplier rc =
     (let effective = (if shouldUseSdsR rc \<and> pending
                       then multiplier * SYNC_INTERVAL_REPAIR_MULTIPLIER else multiplier)
      in with_sync (rt_restart random effective) rc)"

definition stopSync :: "reliable_channel \<Rightarrow> reliable_channel" where
  "stopSync rc = with_sync rt_stop rc"

definition stopSweepIncomingBufferLoop :: "reliable_channel \<Rightarrow> reliable_channel" where
  "stopSweepIncomingBufferLoop rc =
     (case sweepInBufInterval rc of
        None \<Rightarrow> rc
      | Some h \<Rightarrow> rc\<lparr>rc_timers := clear_timer h (rc_timers rc), sweepInBufInterval := None\<rparr>)"

definition startSweepIncomingBufferLoop :: "reliable_channel \<Rightarrow> reliable_channel" where
  "startSweepIncomingBufferLoop rc0 =
     (let rc = stopSweepIncomingBufferLoop rc0
      in case set_timer SweepIncomingTimer (rc_timers rc) of
           (t, h) \<Rightarrow> rc\<lparr>rc_timers := t, sweepInBufInterval := Some h\<rparr>)"

text \<open>The code clears the repair timer and then forgets the other loop's handle, keeping its own.\<close>

definition stopRepairSweepLoop :: "reliable_channel \<Rightarrow> reliable_channel" where
  "stopRepairSweepLoop rc =
     (case sweepRepairInterval rc of
        None \<Rightarrow> rc
      | Some h \<Rightarrow> rc\<lparr>rc_timers := clear_timer h (rc_timers rc), sweepInBufInterval := None\<rparr>)"

definition startRepairSweepLoop :: "reliable_channel \<Rightarrow> reliable_channel" where
  "startRepairSweepLoop rc0 =
     (if \<not> shouldUseSdsR rc0 then rc0
      else let rc = stopRepairSweepLoop rc0
           in case set_timer SweepRepairTimer (rc_timers rc) of
                (t, h) \<Rightarrow> rc\<lparr>rc_timers := t, sweepRepairInterval := Some h\<rparr>)"

definition queueProcessTasks :: "reliable_channel \<Rightarrow> reliable_channel" where
  "queueProcessTasks rc =
     (if \<not> rc_started rc then rc
      else if processTaskTimeout rc = None
      then (case set_timer ProcessTaskTimer (rc_timers rc) of
              (t, h) \<Rightarrow> rc\<lparr>rc_timers := t, processTaskTimeout := Some h\<rparr>)
      else rc)"

definition clearProcessTasks :: "reliable_channel \<Rightarrow> reliable_channel" where
  "clearProcessTasks rc =
     (case processTaskTimeout rc of
        None \<Rightarrow> rc
      | Some h \<Rightarrow> rc\<lparr>rc_timers := clear_timer h (rc_timers rc), processTaskTimeout := None\<rparr>)"

section \<open>Listeners\<close>

definition note_missing :: "history_entry \<Rightarrow> reliable_channel \<Rightarrow> reliable_channel" where
  "note_missing e rc =
     (case he_retrievalHint e of
        None \<Rightarrow> rc
      | Some hint \<Rightarrow> with_retriever (\<lambda>(r, t). (addMissingMessage (he_messageId e) hint r, t)) rc)"

definition with_status :: "(sync_status \<Rightarrow> sync_status) \<Rightarrow> reliable_channel \<Rightarrow> reliable_channel" where
  "with_status f rc = rc\<lparr>internalSyncStatus := f (internalSyncStatus rc)\<rparr>"

fun listen :: "host \<Rightarrow> real \<Rightarrow> bool \<Rightarrow> channel_event \<Rightarrow> reliable_channel \<Rightarrow> reliable_channel" where
  "listen host random pending (OutMessageSent m) rc =
     (if isContentMessage m
      then restartSync random pending 1 (rc_emit (MessageSent (getMessageId host (the (content m)))) rc)
      else rc)"
| "listen host random pending (OutMessageAcknowledged mid) rc =
     (if mid \<noteq> '''' then with_retry (stopRetries mid) (rc_emit (MessageAcknowledged mid) rc) else rc)"
| "listen host random pending (OutMessagePossiblyAcknowledged mid n) rc =
     rc_emit (MessagePossiblyAcknowledged mid n) rc"
| "listen host random pending (InSyncReceived m) rc = restartSync random pending 1 rc"
| "listen host random pending (InMessageReceived m) rc =
     (let rc1 = with_status (onMessagesReceived [messageId m]) rc
      in if isContentMessage m then restartSync random pending (1 / 2) rc1 else rc1)"
| "listen host random pending (InMessageMissing es) rc =
     fold note_missing es (with_status (onMessagesMissing (map he_messageId es)) rc)"
| "listen host random pending (InMessageLost es) rc =
     with_status (onMessagesLost (map he_messageId es)) rc"
| "listen host random pending e rc = rc"

text \<open>The listeners are on the message channel between \<open>setupEventListeners\<close> and \<open>removeAllEventListeners\<close>.\<close>

definition dispatch :: "host \<Rightarrow> real \<Rightarrow> bool \<Rightarrow> channel_event list \<Rightarrow> reliable_channel \<Rightarrow> reliable_channel" where
  "dispatch host random pending es rc =
     (if rc_listening rc then fold (listen host random pending) es rc else rc)"

definition new_events :: "channel \<Rightarrow> channel \<Rightarrow> channel_event list" where
  "new_events c c' = drop (length (emitted c)) (emitted c')"

section \<open>Sending\<close>

text \<open>The callback of \<open>_wrapAndSend\<close>: the events it dispatches and what its promise settles to.\<close>

definition wrap_callback ::
  "rc_env \<Rightarrow> bytes \<Rightarrow> message \<Rightarrow> rc_event list \<times> (js_error + (bool \<times> bytes option))" where
  "wrap_callback env payload m =
     (let sdsPayload = Message_encode (re_encode env) m;
          mid = getMessageId (re_host env) payload
      in case re_toProtoObj env sdsPayload of
           Inl e \<Rightarrow> ([], Inl e)
         | Inr None \<Rightarrow> ([SendingMessageIrrecoverableError mid NotEncoded], Inr (False, None))
         | Inr (Some protoMessage) \<Rightarrow>
             (case messageHash (h_sha256 (re_host env)) (re_pubsubTopic env) protoMessage of
                Inl e \<Rightarrow> ([], Inl e)
              | Inr hint \<Rightarrow>
                  (case re_send env sdsPayload of
                     Inl e \<Rightarrow> ([SendingMessage mid], Inl e)
                   | Inr failures \<Rightarrow>
                       (case find (\<lambda>e. e \<in> set IRRECOVERABLE_SENDING_ERRORS) failures of
                          Some e \<Rightarrow> ([SendingMessage mid, SendingMessageIrrecoverableError mid (LightPush e)],
                                     Inr (False, Some hint))
                        | None \<Rightarrow> ([SendingMessage mid], Inr (True, Some hint))))))"

text \<open>
  One task of the message channel: its callback's events come first (the channel's own follow the
  \<open>await\<close>), then the listeners see the events the channel emitted. A received message is announced
  before the channel looks at its repair requests, a sent one after everything else: that is where
  the listener reads the pending repairs.
\<close>

definition task_events :: "rc_env \<Rightarrow> nat \<Rightarrow> channel \<Rightarrow> task \<Rightarrow> rc_event list" where
  "task_events env k c item =
     (case item of
        Send payload (Some cb) \<Rightarrow>
          (case push_outgoing_begin (re_host env) (re_clock env (2 * k)) c payload of
             (_, Inr m) \<Rightarrow> fst (wrap_callback env payload m)
           | _ \<Rightarrow> [])
      | _ \<Rightarrow> [])"

definition task_pending :: "rc_env \<Rightarrow> nat \<Rightarrow> channel \<Rightarrow> channel \<Rightarrow> task \<Rightarrow> bool" where
  "task_pending env k c c' item =
     (case item of
        Receive m \<Rightarrow> hasPendingRepairRequests c (re_clock env (2 * k))
      | _ \<Rightarrow> hasPendingRepairRequests c' (re_clock env (2 * k + 1)))"

definition rc_task :: "rc_env \<Rightarrow> nat \<Rightarrow> task \<Rightarrow> reliable_channel \<Rightarrow> reliable_channel" where
  "rc_task env k item rc =
     (let c = rc_channel rc;
          c' = executeTask (re_host env) (re_clock env (2 * k)) (re_clock env (2 * k + 1)) c item
      in dispatch (re_host env) (re_random env k) (task_pending env k c c' item) (new_events c c')
           (rc\<lparr>rc_channel := c', rc_events := rc_events rc @ task_events env k c item\<rparr>))"

lemma with_sync_channel [simp]: "rc_channel (with_sync f rc) = rc_channel rc"
  and with_retry_channel [simp]: "rc_channel (with_retry g rc) = rc_channel rc"
  and with_retriever_channel [simp]: "rc_channel (with_retriever h rc) = rc_channel rc"
  and with_status_channel [simp]: "rc_channel (with_status i rc) = rc_channel rc"
  and rc_emit_channel [simp]: "rc_channel (rc_emit e rc) = rc_channel rc"
  by (simp_all add: with_sync_def with_retry_def with_retriever_def with_status_def rc_emit_def
      split: option.split prod.split)

lemma note_missing_channel [simp]: "rc_channel (note_missing e rc) = rc_channel rc"
  by (simp add: note_missing_def split: option.split)

lemma fold_keep: "(\<And>x s. f (g x s) = f s) \<Longrightarrow> f (fold g xs s) = f s"
  by (induction xs arbitrary: s) auto

lemma restartSync_channel [simp]: "rc_channel (restartSync random pending multiplier rc) = rc_channel rc"
  by (simp add: restartSync_def Let_def)

lemma listen_channel [simp]: "rc_channel (listen host random pending e rc) = rc_channel rc"
  by (cases e) (simp_all add: Let_def fold_keep)

lemma dispatch_channel [simp]: "rc_channel (dispatch host random pending es rc) = rc_channel rc"
  by (simp add: dispatch_def fold_keep)

lemma rc_task_channel [simp]:
  "rc_channel (rc_task env k item rc)
     = executeTask (re_host env) (re_clock env (2 * k)) (re_clock env (2 * k + 1)) (rc_channel rc) item"
  by (simp add: rc_task_def Let_def)

text \<open>The channel's \<open>processTasks\<close> with the callbacks' events and the listeners at work.\<close>

function rc_processTasks :: "rc_env \<Rightarrow> nat \<Rightarrow> reliable_channel \<Rightarrow> reliable_channel" where
  "rc_processTasks env k rc =
     (case tasks (rc_channel rc) of
        [] \<Rightarrow> rc
      | item # rest \<Rightarrow>
          rc_processTasks env (Suc k) (rc_task env k item (rc\<lparr>rc_channel := (rc_channel rc)\<lparr>tasks := rest\<rparr>\<rparr>)))"
  by auto

termination
proof (relation "measure (\<lambda>(env, k, rc). length (tasks (rc_channel rc)))")
  fix env :: rc_env and k :: nat and rc :: reliable_channel and item rest
  assume "tasks (rc_channel rc) = item # rest"
  moreover have "tasks (executeTask host now later ((rc_channel rc)\<lparr>tasks := rest\<rparr>) item) = rest"
    for host now later
    using executeTask_extends[of "(rc_channel rc)\<lparr>tasks := rest\<rparr>"] by (simp add: extends_def)
  ultimately show "((env, Suc k, rc_task env k item (rc\<lparr>rc_channel := (rc_channel rc)\<lparr>tasks := rest\<rparr>\<rparr>)), env, k, rc)
      \<in> measure (\<lambda>(env, k, rc). length (tasks (rc_channel rc)))" by simp
qed simp

declare rc_processTasks.simps [simp del]

text \<open>\<open>_wrapAndSend\<close>: the outgoing buffer's sweep at its end only computes.\<close>

definition rc_push :: "rc_env \<Rightarrow> bytes \<Rightarrow> reliable_channel \<Rightarrow> (reliable_channel, unit) call" where
  "rc_push env payload rc =
     (case pushOutgoingMessage (rc_channel rc) payload (Some (\<lambda>m. snd (wrap_callback env payload m))) of
        (c, r) \<Rightarrow> (rc\<lparr>rc_channel := c\<rparr>, r))"

definition wrapAndSend :: "rc_env \<Rightarrow> bytes \<Rightarrow> reliable_channel \<Rightarrow> (reliable_channel, unit) call" where
  "wrapAndSend env payload rc =
     then_do (rc_push env payload rc) (\<lambda>rc1 _. returns (rc_processTasks env 0 rc1) ())"

definition rc_send :: "rc_env \<Rightarrow> bytes \<Rightarrow> reliable_channel \<Rightarrow> (reliable_channel, string) call" where
  "rc_send env payload rc =
     (let mid = getMessageId (re_host env) payload;
          rc1 = (if rc_started rc then rc else rc_emit (SendingMessageIrrecoverableError mid NotStarted) rc);
          rc2 = with_retry (startRetries mid payload) rc1
      in then_do (wrapAndSend env payload rc2) (\<lambda>rc3 _. returns rc3 mid))"

section \<open>Receiving\<close>

definition processIncomingMessage :: "rc_env \<Rightarrow> decoded_message \<Rightarrow> reliable_channel \<Rightarrow> reliable_channel" where
  "processIncomingMessage env msg rc =
     (case Message_decode (re_decode env) (dm_payload msg) of
        None \<Rightarrow> rc
      | Some m \<Rightarrow>
          if channelId m \<noteq> ch_channelId (rc_channel rc) then rc
          else let rc1 = rc\<lparr>rc_channel := pushIncomingMessage (rc_channel rc) m (Some (dm_hash msg))\<rparr>;
                   rc2 = with_retriever (\<lambda>(r, t). (removeMissingMessage (messageId m) r, t)) rc1;
                   rc3 = (case content m of
                            Some (b # bs) \<Rightarrow> rc_emit (MessageReceived (msg\<lparr>dm_payload := b # bs\<rparr>)) rc2
                          | _ \<Rightarrow> rc2)
               in queueProcessTasks rc3)"

definition processIncomingMessages :: "rc_env \<Rightarrow> decoded_message list \<Rightarrow> reliable_channel \<Rightarrow> reliable_channel" where
  "processIncomingMessages env msgs rc = fold (processIncomingMessage env) msgs rc"

text \<open>The filter's callback.\<close>

definition on_filter_message :: "rc_env \<Rightarrow> decoded_message \<Rightarrow> reliable_channel \<Rightarrow> reliable_channel" where
  "on_filter_message env msg rc = (if \<not> rc_started rc then rc else processIncomingMessage env msg rc)"

definition isChannelMessageWithCausalHistory :: "rc_env \<Rightarrow> reliable_channel \<Rightarrow> decoded_message \<Rightarrow> bool" where
  "isChannelMessageWithCausalHistory env rc msg \<longleftrightarrow>
     (case Message_decode (re_decode env) (dm_payload msg) of
        None \<Rightarrow> False
      | Some m \<Rightarrow> channelId m = ch_channelId (rc_channel rc) \<and> causalHistory m \<noteq> [])"

text \<open>
  A store node connects: the query service runs its query (\<open>generator\<close> is the node's) and every
  page it dispatches is processed, while the listener of the pages is on the service.
\<close>

definition rc_store_connect ::
  "rc_env \<Rightarrow> (int \<times> int \<Rightarrow> decoded_message query_run) \<Rightarrow> reliable_channel \<Rightarrow> reliable_channel" where
  "rc_store_connect env generator rc =
     (case queryOnConnect rc of
        None \<Rightarrow> rc
      | Some q \<Rightarrow>
          (let q' = on_store_connect (isChannelMessageWithCausalHistory env rc) generator
                      (int (re_clock env 0)) (int (re_clock env 1)) q;
               pages = drop (length (dispatched q)) (dispatched q');
               rc1 = rc\<lparr>queryOnConnect := Some q'\<rparr>
           in if rc_listening rc then fold (processIncomingMessages env) pages rc1 else rc1))"

section \<open>Start and stop\<close>

text \<open>\<open>start\<close> returns what the subscription returns; the channel stays started when it fails.\<close>

definition rc_start :: "rc_env \<Rightarrow> reliable_channel \<Rightarrow> (reliable_channel, bool) call" where
  "rc_start env rc =
     (if rc_started rc then returns rc True
      else let rc1 = rc\<lparr>rc_started := True, rc_listening := True\<rparr>;
               rc2 = restartSync (re_random env 0)
                       (hasPendingRepairRequests (rc_channel rc1) (re_clock env 0)) 1 rc1;
               rc3 = startRepairSweepLoop (startSweepIncomingBufferLoop rc2);
               rc4 = (if rc_canRetrieve rc3
                      then (with_retriever retriever_start rc3)\<lparr>queryOnConnect := map_option query_start (queryOnConnect rc3)\<rparr>
                      else rc3)
           in (rc4, re_subscribe env))"

definition rc_stop :: "rc_env \<Rightarrow> reliable_channel \<Rightarrow> (reliable_channel, unit) call" where
  "rc_stop env rc =
     (if \<not> rc_started rc then returns rc ()
      else let rc1 = stopSync (rc\<lparr>rc_started := False, rc_listening := False\<rparr>);
               rc2 = clearProcessTasks (stopRepairSweepLoop (stopSweepIncomingBufferLoop rc1));
               rc3 = (with_retriever retriever_stop rc2)\<lparr>queryOnConnect := map_option query_stop (queryOnConnect rc2)\<rparr>;
               rc4 = with_retry stopAllRetries rc3
           in case re_unsubscribe env of
                Inl e \<Rightarrow> throws rc4 e
              | Inr _ \<Rightarrow> returns (with_status cleanUp rc4) ())"

definition rc_create ::
  "rc_env \<Rightarrow> rc_node \<Rightarrow> string \<Rightarrow> string \<Rightarrow> rc_options \<Rightarrow> js_error + reliable_channel" where
  "rc_create env node cid sid opts =
     (let strategy = or_default Both (ro_retrievalStrategy opts);
          channelOptions = (ro_channel opts)\<lparr>o_enableRepair := Some (strategy_uses_sdsr strategy)\<rparr>
      in case channel_new DEFAULT_BLOOM_FILTER_OPTIONS (re_clock env 0) cid sid channelOptions
                (new_history DEFAULT_MAX_LENGTH) of
           Inl e \<Rightarrow> Inl e
         | Inr c \<Rightarrow>
             (case rc_new node c strategy opts of
                Inl e \<Rightarrow> Inl e
              | Inr rc \<Rightarrow>
                  if or_default True (ro_autoStart opts)
                  then (case rc_start env rc of (rc', Inl e) \<Rightarrow> Inl e | (rc', Inr _) \<Rightarrow> Inr rc')
                  else Inr rc))"

section \<open>Timers firing\<close>

definition send_ok :: "rc_env \<Rightarrow> message \<Rightarrow> js_error + bool" where
  "send_ok env m =
     (case re_send env (Message_encode (re_encode env) m) of
        Inl e \<Rightarrow> Inl e
      | Inr failures \<Rightarrow> Inr (failures = []))"

definition sendSyncMessage :: "rc_env \<Rightarrow> reliable_channel \<Rightarrow> (reliable_channel, unit) call" where
  "sendSyncMessage env rc =
     (if \<not> rc_started rc then throws rc (JsError ''Message Channel must be started'')
      else let c = rc_channel rc
           in case pushOutgoingSyncMessage (re_clock env 0) (re_syncId env) c (Some (send_ok env)) of
                (c', Inl e) \<Rightarrow> throws (rc\<lparr>rc_channel := c'\<rparr>) e
              | (c', Inr _) \<Rightarrow>
                  returns (rc_processTasks env 1
                    (dispatch (re_host env) 0 False (new_events c c') (rc\<lparr>rc_channel := c'\<rparr>))) ())"

definition sweep_incoming :: "rc_env \<Rightarrow> reliable_channel \<Rightarrow> reliable_channel" where
  "sweep_incoming env rc =
     (let c = rc_channel rc; c' = fst (sweepIncomingBuffer (re_host env) (re_clock env 0) c)
      in dispatch (re_host env) 0 False (new_events c c') (rc\<lparr>rc_channel := c'\<rparr>))"

definition sweep_repair :: "rc_env \<Rightarrow> reliable_channel \<Rightarrow> reliable_channel" where
  "sweep_repair env rc =
     (let c = rc_channel rc; c' = fst (sweepRepairIncomingBuffer (re_clock env 0) c (Some (send_ok env)))
      in dispatch (re_host env) 0 False (new_events c c') (rc\<lparr>rc_channel := c'\<rparr>))"

text \<open>
  The retry timer: \<open>_wrapAndSend\<close> runs the first task of the queue before it awaits, then the retry
  manager arms the next attempt, then the rest of the queue runs. An empty payload throws out of the
  timer, with no further attempt.
\<close>

definition fire_send ::
  "rc_env \<Rightarrow> string \<Rightarrow> bytes \<Rightarrow> nat \<Rightarrow> reliable_channel \<Rightarrow> (reliable_channel, unit) call" where
  "fire_send env i payload n rc =
     then_do (rc_push env payload rc) (\<lambda>rc1 _.
       let rc2 = (case tasks (rc_channel rc1) of
                    [] \<Rightarrow> rc1
                  | item # rest \<Rightarrow> rc_task env 0 item (rc1\<lparr>rc_channel := (rc_channel rc1)\<lparr>tasks := rest\<rparr>\<rparr>))
       in returns (rc_processTasks env 1 (with_retry (Retry.retry i payload (Suc n)) rc2)) ())"

text \<open>
  A live timer fires. A sync timer is rearmed while the promise of its callback is pending, so what the
  callback does to the timer after its first \<open>await\<close> comes later; its rejection is nobody's.
\<close>

definition rc_fire :: "rc_env \<Rightarrow> nat \<Rightarrow> reliable_channel \<Rightarrow> (reliable_channel, unit) call" where
  "rc_fire env h rc =
     (case live (rc_timers rc) h of
        None \<Rightarrow> returns rc ()
      | Some SweepIncomingTimer \<Rightarrow> returns (sweep_incoming env rc) ()
      | Some SweepRepairTimer \<Rightarrow> returns (sweep_repair env rc) ()
      | Some RetrieveTimer \<Rightarrow>
          returns (case missingMessageRetriever rc of
                     None \<Rightarrow> rc
                   | Some r \<Rightarrow> retrieveMissingMessage (re_query env) (processIncomingMessage env) r rc) ()
      | Some ProcessTaskTimer \<Rightarrow>
          returns (rc_processTasks env 0 (clearProcessTasks (rc\<lparr>rc_timers := clear_timer h (rc_timers rc)\<rparr>))) ()
      | Some (SyncTimer d) \<Rightarrow>
          sendSyncMessage env
            (with_sync (\<lambda>s. rt_restart (re_random env 0) (multiplierOnCall (fst s)) s)
              (rc\<lparr>rc_timers := clear_timer h (rc_timers rc)\<rparr>))
      | Some (RetryTimer i payload n) \<Rightarrow>
          fire_send env i payload n (rc\<lparr>rc_timers := clear_timer h (rc_timers rc)\<rparr>))"

section \<open>Runs\<close>

datatype rc_op =
    RcStart
  | RcStop
  | RcSend bytes
  | RcFilterMessage decoded_message
  | RcStoreConnect "int \<times> int \<Rightarrow> decoded_message query_run"
  | RcHealth health_status
  | RcFire nat
  | RcMicrotask

fun rc_step :: "rc_env \<Rightarrow> rc_op \<Rightarrow> reliable_channel \<Rightarrow> reliable_channel" where
  "rc_step env RcStart rc = fst (rc_start env rc)"
| "rc_step env RcStop rc = fst (rc_stop env rc)"
| "rc_step env (RcSend payload) rc = fst (rc_send env payload rc)"
| "rc_step env (RcFilterMessage msg) rc = on_filter_message env msg rc"
| "rc_step env (RcStoreConnect generator) rc = rc_store_connect env generator rc"
| "rc_step env (RcHealth status) rc =
     rc\<lparr>queryOnConnect := map_option (on_health status (int (re_clock env 0))) (queryOnConnect rc)\<rparr>"
| "rc_step env (RcFire h) rc = fst (rc_fire env h rc)"
| "rc_step env RcMicrotask rc = with_status run_microtask rc"

definition rc_run :: "(rc_env \<times> rc_op) list \<Rightarrow> reliable_channel \<Rightarrow> reliable_channel" where
  "rc_run ops rc = fold (\<lambda>(env, op). rc_step env op) ops rc"

end
