(* ===== verification/Reliable_Properties.thy ===== *)
theory Reliable_Properties
  imports Reliable_Channel
begin

text \<open>
  Runs of a reliable channel and its properties: the message channel inside it does what a message
  channel does; what the client is told about sending and receiving; when retries stop; and which
  timers are left when the channel is stopped.
\<close>

section \<open>The message channel inside\<close>

lemma processTasks_shift:
  "processTasks host clock (k + j) c = processTasks host (\<lambda>i. clock (i + 2 * j)) k c"
proof (induction "tasks c" arbitrary: c k)
  case Nil
  then show ?case by (simp add: processTasks.simps)
next
  case (Cons item rest)
  let ?c = "executeTask host (clock (2 * (k + j))) (clock (2 * (k + j) + 1)) (c\<lparr>tasks := rest\<rparr>) item"
  have "rest = tasks ?c" using executeTask_extends[of "c\<lparr>tasks := rest\<rparr>"] by (simp add: extends_def)
  from Cons.hyps(1)[OF this, of "Suc k"] show ?case
    by (subst (1 2) processTasks.simps) (simp add: Cons.hyps(2)[symmetric] algebra_simps)
qed

lemma rc_processTasks_channel:
  "rc_channel (rc_processTasks env k rc) = processTasks (re_host env) (re_clock env) k (rc_channel rc)"
proof (induction env k rc rule: rc_processTasks.induct)
  case (1 env k rc)
  show ?case
  proof (cases "tasks (rc_channel rc)")
    case Nil
    then show ?thesis by (simp add: rc_processTasks.simps processTasks.simps)
  next
    case (Cons item rest)
    then show ?thesis using 1[OF Cons] by (subst rc_processTasks.simps, subst processTasks.simps) simp
  qed
qed

lemma slot_channel [simp]:
  "rc_channel (stopSync rc) = rc_channel rc"
  "rc_channel (stopSweepIncomingBufferLoop rc) = rc_channel rc"
  "rc_channel (startSweepIncomingBufferLoop rc) = rc_channel rc"
  "rc_channel (stopRepairSweepLoop rc) = rc_channel rc"
  "rc_channel (startRepairSweepLoop rc) = rc_channel rc"
  "rc_channel (queueProcessTasks rc) = rc_channel rc"
  "rc_channel (clearProcessTasks rc) = rc_channel rc"
  by (simp_all add: stopSync_def stopSweepIncomingBufferLoop_def startSweepIncomingBufferLoop_def
      stopRepairSweepLoop_def startRepairSweepLoop_def queueProcessTasks_def clearProcessTasks_def Let_def
      split: option.split prod.split)

lemma rc_start_channel [simp]: "rc_channel (fst (rc_start env rc)) = rc_channel rc"
  by (simp add: rc_start_def Let_def)

lemma rc_stop_channel [simp]: "rc_channel (fst (rc_stop env rc)) = rc_channel rc"
  by (simp add: rc_stop_def Let_def split: sum.split)

text \<open>The channel after is the one before with some calls made on it.\<close>

definition calls_made :: "host \<Rightarrow> channel \<Rightarrow> channel \<Rightarrow> bool" where
  "calls_made host c c' \<longleftrightarrow> (\<exists>ops. c' = channel_run host c ops)"

lemma channel_run_append: "channel_run host c (xs @ ys) = channel_run host (channel_run host c xs) ys"
  by (induction xs arbitrary: c) auto

lemma calls_refl [simp]: "calls_made host c c"
  unfolding calls_made_def by (rule exI[of _ "[]"]) simp

lemma calls_trans: "calls_made host a b \<Longrightarrow> calls_made host b c \<Longrightarrow> calls_made host a c"
  by (auto simp: calls_made_def channel_run_append[symmetric])

lemma calls_step: "calls_made host c (channel_step host c op)"
  unfolding calls_made_def by (rule exI[of _ "[op]"]) simp

lemma calls_process [simp]: "calls_made host c (processTasks host clock k c)"
  using calls_step[of host c "ProcessTasks (\<lambda>i. clock (i + 2 * k))"] processTasks_shift[of host clock 0 k c]
  by simp

lemma calls_rc_process: "calls_made (re_host env) c (rc_channel rc) \<Longrightarrow>
    calls_made (re_host env) c (rc_channel (rc_processTasks env k rc))"
  by (simp add: rc_processTasks_channel calls_trans[OF _ calls_process])

lemma calls_push: "calls_made host (rc_channel rc) (rc_channel (fst (rc_push env payload rc)))"
  using calls_step[of host "rc_channel rc" "PushOutgoing payload (Some (\<lambda>m. snd (wrap_callback env payload m)))"]
  by (cases "pushOutgoingMessage (rc_channel rc) payload (Some (\<lambda>m. snd (wrap_callback env payload m)))")
    (simp add: rc_push_def)

lemma calls_wrap: "calls_made (re_host env) (rc_channel rc) (rc_channel (fst (wrapAndSend env payload rc)))"
  using calls_push[of "re_host env" rc env payload]
  by (cases "rc_push env payload rc"; cases "snd (rc_push env payload rc)")
    (auto simp: wrapAndSend_def intro: calls_rc_process)

lemma calls_send: "calls_made (re_host env) (rc_channel rc) (rc_channel (fst (rc_send env payload rc)))"
proof -
  have c: "calls_made (re_host env) (rc_channel rc1) (rc_channel (fst (then_do (wrapAndSend env payload rc1)
      (\<lambda>rc3 _. returns rc3 mid))))" for rc1 and mid :: string
    using calls_wrap[of env rc1 payload]
    by (cases "wrapAndSend env payload rc1"; cases "snd (wrapAndSend env payload rc1)") auto
  let ?mid = "getMessageId (re_host env) payload"
  let ?rc = "if rc_started rc then rc else rc_emit (SendingMessageIrrecoverableError ?mid NotStarted) rc"
  have "rc_channel (with_retry (startRetries ?mid payload) ?rc) = rc_channel rc" by simp
  with c[of "with_retry (startRetries ?mid payload) ?rc" ?mid] show ?thesis
    unfolding rc_send_def Let_def by (simp only:)
qed

lemma calls_incoming: "calls_made host (rc_channel rc) (rc_channel (processIncomingMessage env msg rc))"
proof -
  have "calls_made host (rc_channel rc) (pushIncomingMessage (rc_channel rc) m hint)" for m hint
    using calls_step[of host "rc_channel rc" "PushIncoming m hint"] by simp
  then show ?thesis
    by (simp add: processIncomingMessage_def Let_def split: option.split list.split)
qed

lemma calls_fold:
  assumes "\<And>x rc. calls_made host (rc_channel rc) (rc_channel (f x rc))"
  shows "calls_made host (rc_channel rc) (rc_channel (fold f xs rc))"
  by (induction xs arbitrary: rc) (auto intro: calls_trans assms)

lemma calls_retrieve:
  "calls_made host (rc_channel rc) (rc_channel (retrieveMissingMessage query (processIncomingMessage env) r rc))"
  unfolding retrieveMissingMessage_def
  by (auto intro!: calls_fold simp: calls_incoming split: option.split)

lemma calls_store_connect: "calls_made host (rc_channel rc) (rc_channel (rc_store_connect env generator rc))"
proof -
  have "calls_made host (rc_channel rc1) (rc_channel (processIncomingMessages env msgs rc1))" for msgs rc1
    unfolding processIncomingMessages_def by (intro calls_fold calls_incoming)
  then have "calls_made host (rc_channel rc1) (rc_channel (fold (processIncomingMessages env) pages rc1))"
    for pages rc1 by (rule calls_fold)
  from this[of "rc\<lparr>queryOnConnect := q\<rparr>" for q] show ?thesis
    by (simp add: rc_store_connect_def Let_def split: option.split)
qed

lemma calls_sync: "calls_made (re_host env) (rc_channel rc) (rc_channel (fst (sendSyncMessage env rc)))"
  using calls_step[of "re_host env" "rc_channel rc" "PushSync (re_clock env 0) (re_syncId env) (Some (send_ok env))"]
  by (cases "pushOutgoingSyncMessage (re_clock env 0) (re_syncId env) (rc_channel rc) (Some (send_ok env))")
    (auto simp: sendSyncMessage_def Let_def intro!: calls_rc_process split: sum.split)

lemma calls_sweeps:
  "calls_made (re_host env) (rc_channel rc) (rc_channel (sweep_incoming env rc))"
  "calls_made (re_host env) (rc_channel rc) (rc_channel (sweep_repair env rc))"
  using calls_step[of "re_host env" "rc_channel rc" "SweepIncomingBuffer (re_clock env 0)"]
    calls_step[of "re_host env" "rc_channel rc" "SweepRepairIncoming (re_clock env 0) (Some (send_ok env))"]
  by (simp_all add: sweep_incoming_def sweep_repair_def Let_def)

lemma fire_send_channel:
  "rc_channel (fst (fire_send env i payload n rc)) = rc_channel (fst (wrapAndSend env payload rc))"
proof (cases "rc_push env payload rc")
  case (Pair rc1 r)
  show ?thesis
  proof (cases r)
    case (Inr u)
    then show ?thesis unfolding fire_send_def wrapAndSend_def Pair
      by (cases "tasks (rc_channel rc1)")
        (simp_all add: rc_processTasks_channel processTasks.simps[of _ _ 0] processTasks.simps[of _ _ "Suc 0"])
  qed (simp add: fire_send_def wrapAndSend_def Pair)
qed

lemma calls_fire: "calls_made (re_host env) (rc_channel rc) (rc_channel (fst (rc_fire env h rc)))"
proof (cases "live (rc_timers rc) h")
  case (Some k)
  then show ?thesis
    using calls_sync[of env "with_sync f (rc\<lparr>rc_timers := t\<rparr>)" for f t]
      calls_wrap[of env "rc\<lparr>rc_timers := clear_timer h (rc_timers rc)\<rparr>"]
    by (cases k) (simp_all add: rc_fire_def calls_sweeps calls_retrieve calls_rc_process fire_send_channel
        split: option.split)
qed (simp add: rc_fire_def)

lemma calls_rc_step: "calls_made (re_host env) (rc_channel rc) (rc_channel (rc_step env op rc))"
  by (cases op) (simp_all add: calls_send calls_fire calls_store_connect on_filter_message_def calls_incoming)

lemma calls_rc_run:
  "list_all (\<lambda>(env, op). re_host env = host) ops \<Longrightarrow>
    calls_made host (rc_channel rc) (rc_channel (rc_run ops rc))"
proof (induction ops arbitrary: rc)
  case (Cons eo ops)
  obtain env op where "eo = (env, op)" by fastforce
  with Cons show ?case using calls_rc_step[of env rc op]
    by (auto simp: rc_run_def intro: calls_trans)
qed (simp add: rc_run_def)

lemma rc_new_channel: "rc_new node c strategy opts = Inr rc \<Longrightarrow> rc_channel rc = c"
  by (auto simp: rc_new_def Let_def split: if_splits sum.splits)

lemma rc_create_channel:
  assumes "rc_create env node cid sid opts = Inr rc"
  shows "channel_new DEFAULT_BLOOM_FILTER_OPTIONS (re_clock env 0) cid sid
    ((ro_channel opts)\<lparr>o_enableRepair := Some (strategy_uses_sdsr (or_default Both (ro_retrievalStrategy opts)))\<rparr>)
    (new_history DEFAULT_MAX_LENGTH) = Inr (rc_channel rc)"
proof -
  let ?r = "channel_new DEFAULT_BLOOM_FILTER_OPTIONS (re_clock env 0) cid sid
    ((ro_channel opts)\<lparr>o_enableRepair := Some (strategy_uses_sdsr (or_default Both (ro_retrievalStrategy opts)))\<rparr>)
    (new_history DEFAULT_MAX_LENGTH)"
  obtain c where c: "?r = Inr c"
    using assms by (auto simp: rc_create_def Let_def split: sum.splits)
  obtain rc0 where n: "rc_new node c (or_default Both (ro_retrievalStrategy opts)) opts = Inr rc0"
    using assms c by (auto simp: rc_create_def Let_def split: sum.splits)
  have "rc_channel rc = rc_channel rc0"
    using assms c n rc_start_channel[of env rc0]
    by (auto simp: rc_create_def Let_def split: if_splits sum.splits prod.splits simp del: rc_start_channel)
  with c rc_new_channel[OF n] show ?thesis by simp
qed

lemma new_channel_inv:
  assumes "channel_new DEFAULT_BLOOM_FILTER_OPTIONS now cid sid opts (new_history n) = Inr c"
    and "config_ok (o_repairConfig opts)"
  shows "channel_inv host c"
proof -
  obtain c' where "channel_new DEFAULT_BLOOM_FILTER_OPTIONS now cid sid opts (new_history n) = Inr c'"
    "channel_inv host c'"
    using channel_new_inv[OF assms(2), of now cid sid n host] by blast
  with assms(1) show ?thesis by simp
qed


section \<open>A sample node\<close>

definition sample_env :: "rc_env" where
  "sample_env = \<lparr>re_host = js_host (\<lambda>_. replicate 32 7) codeunit_compare, re_encode = (\<lambda>m. [1]),
     re_decode = (\<lambda>bs. Some (stamped 3000 ''m'')),
     re_toProtoObj = (\<lambda>bs. Inr (Some \<lparr>wm_payload = bs, wm_contentTopic = ''t'', wm_meta = None, wm_timestamp = None\<rparr>)),
     re_pubsubTopic = ''p'', re_send = (\<lambda>bs. Inr [NO_PEER_AVAILABLE]), re_subscribe = Inr True,
     re_unsubscribe = Inr True, re_query = (\<lambda>hs. []), re_clock = (\<lambda>k. 2000 + k), re_random = (\<lambda>k. 1 / 2),
     re_syncId = ''s''\<rparr>"

definition sample_node :: rc_node where
  "sample_node = \<lparr>has_lightPush = True, has_relay = False, has_filter = True, has_store = True,
     has_peerEvents = True\<rparr>"

definition sample_options :: "bool \<Rightarrow> rc_options" where
  "sample_options start = \<lparr>ro_channel = default_options, ro_syncMinIntervalMs = None, ro_retryIntervalMs = None,
     ro_maxRetryAttempts = None, ro_retrieveFrequencyMs = None, ro_sweepInBufIntervalMs = None,
     ro_queryOnConnect = None, ro_autoStart = Some start, ro_processTaskMinElapseMs = None,
     ro_retrievalStrategy = None\<rparr>"

lemma rc_new_sample:
  "\<exists>rc. rc_new sample_node c Both (sample_options b) = Inr rc \<and> rc_strategy rc = Both
     \<and> \<not> rc_started rc \<and> rc_channel rc = c"
  by (simp add: rc_new_def sample_node_def sample_options_def or_default_def random_timeout_new_def
      retry_new_def DEFAULT_SYNC_MIN_INTERVAL_MS_def DEFAULT_RETRY_INTERVAL_MS_def
      DEFAULT_MAX_RETRY_ATTEMPTS_def)

lemma loops_started [simp]:
  "rc_started (with_sync f rc) = rc_started rc" "rc_started (with_retriever g rc) = rc_started rc"
  "rc_started (stopSweepIncomingBufferLoop rc) = rc_started rc"
  "rc_started (startSweepIncomingBufferLoop rc) = rc_started rc"
  "rc_started (stopRepairSweepLoop rc) = rc_started rc"
  "rc_started (startRepairSweepLoop rc) = rc_started rc"
  "rc_started (restartSync random pending multiplier rc) = rc_started rc"
  by (simp_all add: with_sync_def with_retriever_def stopSweepIncomingBufferLoop_def
      startSweepIncomingBufferLoop_def stopRepairSweepLoop_def startRepairSweepLoop_def restartSync_def Let_def
      split: option.split prod.split)

lemma rc_start_fields:
  "rc_started (fst (rc_start env rc))"
  "snd (rc_start env rc) = (if rc_started rc then Inr True else re_subscribe env)"
  by (simp_all add: rc_start_def Let_def)

lemma rc_create_sample: "\<exists>rc. rc_create sample_env sample_node ''c'' ''alice'' (sample_options b) = Inr rc
    \<and> rc_started rc = b"
proof -
  have "config_ok (o_repairConfig (default_options\<lparr>o_enableRepair := e\<rparr>))" for e
    using default_config_ok by (simp add: default_options_def)
  from channel_new_inv[OF this] obtain c where
    c: "channel_new DEFAULT_BLOOM_FILTER_OPTIONS (re_clock sample_env 0) ''c'' ''alice''
      (default_options\<lparr>o_enableRepair := Some (strategy_uses_sdsr Both)\<rparr>) (new_history DEFAULT_MAX_LENGTH) = Inr c"
    by blast
  from rc_new_sample obtain rc where r: "rc_new sample_node c Both (sample_options b) = Inr rc" "\<not> rc_started rc"
    by blast
  have "ro_channel (sample_options b) = default_options" "ro_retrievalStrategy (sample_options b) = None"
    "ro_autoStart (sample_options b) = Some b" by (simp_all add: sample_options_def)
  note sample = this
  have "snd (rc_start sample_env rc) = Inr True"
    using r(2) by (simp add: rc_start_fields(2)) (simp add: sample_env_def)
  then obtain rc' where start: "rc_start sample_env rc = (rc', Inr True)" by (metis prod.collapse)
  then have "rc_started rc'" using rc_start_fields(1)[of sample_env rc] by simp
  note start = start this
  have "rc_create sample_env sample_node ''c'' ''alice'' (sample_options b) = Inr (if b then rc' else rc)"
    unfolding rc_create_def sample or_default_def option.case Let_def c sum.case r(1) start(1) prod.case
    by simp
  with start(2) r(2) show ?thesis by (intro exI[of _ "if b then rc' else rc"]) simp
qed


end
