(* ===== verification/Reliable_Timers.thy ===== *)
theory Reliable_Timers
  imports Reliable_Properties
begin

text \<open>
  The timers of a reliable channel: every component keeps its slot in step with the timers of its kind,
  whatever the channel does between a start and a stop, and only the starts and stops touch the two
  sweep loops.
\<close>

section \<open>Timers of some kinds are untouched\<close>

definition same_kinds :: "('k \<Rightarrow> bool) \<Rightarrow> 'k timers \<Rightarrow> 'k timers \<Rightarrow> bool" where
  "same_kinds P t t' \<longleftrightarrow> timers_ok t' \<and> next_handle t \<le> next_handle t'
     \<and> (\<forall>h k. P k \<longrightarrow> (live t' h = Some k \<longleftrightarrow> live t h = Some k))
     \<and> (\<forall>h<next_handle t. live t' h \<noteq> None \<longrightarrow> live t' h = live t h)"

lemma same_refl: "timers_ok t \<Longrightarrow> same_kinds P t t"
  by (simp add: same_kinds_def)

lemma same_trans: "same_kinds P a b \<Longrightarrow> same_kinds P b c \<Longrightarrow> same_kinds P a c"
  unfolding same_kinds_def by (metis (no_types, lifting) order.trans order_less_le_trans)

lemma same_mono: "same_kinds P t t' \<Longrightarrow> (\<And>k. Q k \<Longrightarrow> P k) \<Longrightarrow> same_kinds Q t t'"
  by (simp add: same_kinds_def)

lemma same_ok: "same_kinds P t t' \<Longrightarrow> timers_ok t'"
  by (simp add: same_kinds_def)

lemma owns_same: "same_kinds P t t' \<Longrightarrow> owns P slot (live t') = owns P slot (live t)"
proof -
  assume "same_kinds P t t'"
  then have "{h. \<exists>k. live t' h = Some k \<and> P k} = {h. \<exists>k. live t h = Some k \<and> P k}"
    unfolding same_kinds_def by blast
  then show ?thesis by (simp add: owns_def)
qed

lemma set_timer_same:
  assumes "timers_ok t" and "set_timer k t = (t', h)" and "\<not> P k"
  shows "same_kinds P t t'"
proof -
  have "h = next_handle t" "next_handle t' = next_handle t + 1" using assms(2) by (auto simp: set_timer_def)
  with js_timers.set_spec[OF assms(1,2)] assms(3) show ?thesis by (auto simp: same_kinds_def)
qed

lemma clear_timer_same:
  "timers_ok t \<Longrightarrow> (\<And>k. live t h = Some k \<Longrightarrow> \<not> P k) \<Longrightarrow> same_kinds P t (clear_timer h t)"
  using js_timers.clear_spec[of t h] by (auto simp: same_kinds_def clear_timer_def)

section \<open>The components touch their own timers only\<close>

lemma rt_stop_same:
  assumes "rt_inv s"
  shows "same_kinds (\<lambda>k. \<not> is_sync k) (snd s) (snd (rt_stop s))"
proof (cases "rt_timeout (fst s)")
  case None
  with assms show ?thesis by (cases s) (simp add: rt_stop_def rt_inv_def same_refl)
next
  case (Some h)
  with assms have "owns is_sync (Some h) (live (snd s))" "timers_ok (snd s)"
    by (cases s; simp add: rt_inv_def)+
  moreover from owns_Some[OF this(1)] obtain k where "live (snd s) h = Some k" "is_sync k" by blast
  ultimately show ?thesis using Some clear_timer_same[of "snd s" h "\<lambda>k. \<not> is_sync k"]
    by (cases s) (simp add: rt_stop_def)
qed

lemma rt_restart_same:
  assumes "rt_inv s"
  shows "same_kinds (\<lambda>k. \<not> is_sync k) (snd s) (snd (rt_restart random multiplier s))"
proof -
  obtain rt t where st: "rt_stop s = (rt, t)" by fastforce
  have stop: "same_kinds (\<lambda>k. \<not> is_sync k) (snd s) t"
    using rt_stop_same[OF assms] st by simp
  have "timers_ok t" using rt_stop_inv[OF assms] st by (simp add: rt_inv_def)
  then have "set_timer (SyncTimer d) t = (t', h) \<Longrightarrow> same_kinds (\<lambda>k. \<not> is_sync k) t t'" for d t' h
    using set_timer_same[of t "SyncTimer d" t' h "\<lambda>k. \<not> is_sync k"] by simp
  then show ?thesis using stop by (auto simp: rt_restart_def st split: prod.split intro: same_trans)
qed

lemma clear_retrieve_same:
  assumes "retriever_inv s"
  shows "same_kinds (\<lambda>k. \<not> is_retrieve k) (snd s) (snd (clear_retrieve s))"
proof (cases "retrieveInterval (fst s)")
  case None
  with assms show ?thesis by (cases s) (simp add: clear_retrieve_def retriever_inv_def same_refl)
next
  case (Some h)
  with assms have "owns is_retrieve (Some h) (live (snd s))" "timers_ok (snd s)"
    by (cases s; simp add: retriever_inv_def)+
  moreover from owns_Some[OF this(1)] obtain k where "live (snd s) h = Some k" "is_retrieve k" by blast
  ultimately show ?thesis using Some clear_timer_same[of "snd s" h "\<lambda>k. \<not> is_retrieve k"]
    by (cases s) (simp add: clear_retrieve_def)
qed

lemma retriever_same:
  assumes "retriever_inv s"
  shows "same_kinds (\<lambda>k. \<not> is_retrieve k) (snd s) (snd (retriever_start s))"
    and "same_kinds (\<lambda>k. \<not> is_retrieve k) (snd s) (snd (retriever_stop s))"
proof -
  obtain r t where c: "clear_retrieve s = (r, t)" by fastforce
  have same: "same_kinds (\<lambda>k. \<not> is_retrieve k) (snd s) t" using clear_retrieve_same[OF assms] c by simp
  have "timers_ok t" using clear_retrieve_inv[OF assms] c by (simp add: retriever_inv_def)
  then have "set_timer RetrieveTimer t = (t', h) \<Longrightarrow> same_kinds (\<lambda>k. \<not> is_retrieve k) t t'" for t' h
    using set_timer_same[of t RetrieveTimer t' h "\<lambda>k. \<not> is_retrieve k"] by simp
  with same show "same_kinds (\<lambda>k. \<not> is_retrieve k) (snd s) (snd (retriever_start s))"
    by (auto simp: retriever_start_def c Let_def split: prod.split intro: same_trans)
  from same show "same_kinds (\<lambda>k. \<not> is_retrieve k) (snd s) (snd (retriever_stop s))"
    by (simp add: retriever_stop_def c)
qed

text \<open>
  While a retry timer runs, its id is still registered: \<open>settle\<close> removes that entry, and the invariant of
  the retry manager holds of the settled state.
\<close>

definition settle :: "string option \<Rightarrow> 'p retry_state \<Rightarrow> 'p retry_state" where
  "settle w s = (case w of None \<Rightarrow> s | Some i \<Rightarrow> stopRetries i s)"

definition registered_live :: "'p retry_state \<Rightarrow> bool" where
  "registered_live s \<longleftrightarrow> timers_ok (snd s) \<and>
     (\<forall>i h. handle_of (fst s) i = Some h \<longrightarrow> h < next_handle (snd s) \<and>
        (\<forall>k. live (snd s) h = Some k \<longrightarrow> is_retry k))"

lemma retry_inv_registered: "retry_inv s \<Longrightarrow> registered_live s"
  unfolding retry_inv_def registered_live_def timers_ok_def
  by (metis is_retry.simps(1) option.distinct(1) option.inject)

lemma stopRetries_same:
  assumes "registered_live s"
  shows "same_kinds (\<lambda>k. \<not> is_retry k) (snd s) (snd (stopRetries i s))"
proof (cases "handle_of (fst s) i")
  case None
  with assms show ?thesis by (cases s) (simp add: registered_live_def same_refl)
next
  case (Some h)
  then show ?thesis using assms clear_timer_same[of "snd s" h "\<lambda>k. \<not> is_retry k"]
    by (cases s) (simp add: registered_live_def)
qed

lemma stopRetries_next [simp]: "next_handle (snd (stopRetries i s)) = next_handle (snd s)"
  by (cases s) (simp add: clear_timer_def split: option.split)

lemma stopRetries_registered: "registered_live s \<Longrightarrow> registered_live (stopRetries i s)"
  using stopRetries_ok[of s i]
  by (auto simp: registered_live_def stopRetries_timeouts stopRetries_live split: option.splits if_splits)

lemma retry_same:
  assumes "registered_live s"
  shows "same_kinds (\<lambda>k. \<not> is_retry k) (snd s) (snd (Retry.retry i p n s))"
proof -
  obtain rm t where st: "stopRetries i s = (rm, t)" by fastforce
  have same: "same_kinds (\<lambda>k. \<not> is_retry k) (snd s) t" using stopRetries_same[OF assms, of i] st by simp
  have "timers_ok t" using stopRetries_registered[OF assms, of i] st by (simp add: registered_live_def)
  then have "set_timer (RetryTimer i p n) t = (t', h) \<Longrightarrow> same_kinds (\<lambda>k. \<not> is_retry k) t t'" for t' h
    using set_timer_same[of t "RetryTimer i p n" t' h "\<lambda>k. \<not> is_retry k"] by simp
  with same show ?thesis by (auto simp: Retry.retry_def st split: prod.split intro: same_trans)
qed

text \<open>Timers of other kinds come and go: the registered handles keep what they had.\<close>

lemma registered_other:
  assumes "same_kinds is_retry t t'" and "registered_live (rm, t)"
  shows "registered_live (rm, t')"
proof -
  have "h < next_handle t' \<and> (\<forall>k. live t' h = Some k \<longrightarrow> is_retry k)" if "handle_of rm i = Some h" for i h
  proof -
    have h: "h < next_handle t" "\<And>k. live t h = Some k \<Longrightarrow> is_retry k"
      using assms(2) that by (auto simp: registered_live_def)
    moreover have "live t' h \<noteq> None \<longrightarrow> live t' h = live t h" "next_handle t \<le> next_handle t'"
      using assms(1) h(1) by (auto simp: same_kinds_def)
    ultimately show ?thesis by auto
  qed
  with same_ok[OF assms(1)] show ?thesis by (simp add: registered_live_def)
qed

lemma retry_inv_other:
  assumes "\<And>h k. is_retry k \<Longrightarrow> (live t' h = Some k) = (live t h = Some k)" and "timers_ok t'"
    and "retry_inv (rm, t)"
  shows "retry_inv (rm, t')"
proof -
  have "(live t' h = Some (RetryTimer i p n)) = (live t h = Some (RetryTimer i p n))" for h i p n
    by (rule assms(1)) simp
  with assms(2,3) show ?thesis by (simp add: retry_inv_def)
qed

lemma settle_other:
  assumes "same_kinds is_retry t t'" and "retry_inv (settle w (rm, t))"
  shows "retry_inv (settle w (rm, t'))"
proof (cases w)
  case None
  with assms show ?thesis by (auto simp: settle_def same_kinds_def intro: retry_inv_other)
next
  case (Some i)
  show ?thesis
  proof (cases "handle_of rm i")
    case None
    with Some assms show ?thesis by (auto simp: settle_def same_kinds_def intro: retry_inv_other)
  next
    case h: (Some h)
    have "timers_ok (clear_timer h t')" using same_ok[OF assms(1)] js_timers.clear_spec by blast
    then have "retry_inv (rm', clear_timer h t) \<Longrightarrow> retry_inv (rm', clear_timer h t')" for rm'
      using assms(1) by (intro retry_inv_other[of "clear_timer h t'" "clear_timer h t"]) (auto simp: same_kinds_def)
    with Some h assms(2) show ?thesis by (simp add: settle_def)
  qed
qed

lemma delete_commute: "AList.delete i (AList.delete j xs) = AList.delete j (AList.delete i xs)"
  by (induction xs) auto

lemma clear_commute: "clear_timer h (clear_timer h' t) = clear_timer h' (clear_timer h t)"
  by (simp add: clear_timer_def fun_upd_twist) (cases "h = h'", simp_all add: fun_upd_twist)

lemma stopRetries_commute: "stopRetries i (stopRetries j s) = stopRetries j (stopRetries i s)"
  by (cases s; cases "i = j")
    (auto simp: handle_of_def delete_conv delete_commute clear_commute split: option.split)

lemma settle_stop: "retry_inv (settle w s) \<Longrightarrow> retry_inv (settle w (stopRetries j s))"
  by (cases w) (simp_all add: settle_def stopRetries_inv stopRetries_commute[of _ j])

lemma settle_retry: "retry_inv (settle w s) \<Longrightarrow> w = None \<or> w = Some i \<Longrightarrow> retry_inv (Retry.retry i p n s)"
  using Retry.retry_inv(1)[of "settle w s" i p n] by (auto simp: settle_def retry_stopped)

section \<open>The invariant\<close>

fun is_process :: "'p timer_kind \<Rightarrow> bool" where
  "is_process ProcessTaskTimer = True"
| "is_process k = False"

fun is_sweep :: "'p timer_kind \<Rightarrow> bool" where
  "is_sweep SweepIncomingTimer = True"
| "is_sweep SweepRepairTimer = True"
| "is_sweep k = False"

definition payloads_ok :: "bytes timer_kind timers \<Rightarrow> bool" where
  "payloads_ok t \<longleftrightarrow> (\<forall>h i p n. live t h = Some (RetryTimer i p n) \<longrightarrow> p \<noteq> [])"

definition retriever_part :: "retriever option \<Rightarrow> bytes timer_kind timers \<Rightarrow> bool" where
  "retriever_part r t \<longleftrightarrow>
     (case r of None \<Rightarrow> owns is_retrieve None (live t) | Some r \<Rightarrow> retriever_inv (r, t))"

definition retry_part :: "string option \<Rightarrow> retry_manager option \<Rightarrow> bytes timer_kind timers \<Rightarrow> bool" where
  "retry_part w rm t \<longleftrightarrow> payloads_ok t \<and>
     (case rm of None \<Rightarrow> owns is_retry None (live t)
      | Some rm \<Rightarrow> registered_live (rm, t) \<and> retry_inv (settle w (rm, t)))"

text \<open>\<open>w\<close> is the id whose retry timer is running, if one is.\<close>

definition timers_inv :: "string option \<Rightarrow> reliable_channel \<Rightarrow> bool" where
  "timers_inv w rc \<longleftrightarrow> rt_inv (syncRandomTimeout rc, rc_timers rc)
     \<and> retriever_part (missingMessageRetriever rc) (rc_timers rc)
     \<and> retry_part w (retryManager rc) (rc_timers rc)
     \<and> owns is_process (processTaskTimeout rc) (live (rc_timers rc))"

definition sweeps_same :: "reliable_channel \<Rightarrow> reliable_channel \<Rightarrow> bool" where
  "sweeps_same rc rc' \<longleftrightarrow> rc_strategy rc' = rc_strategy rc \<and> rc_started rc' = rc_started rc
     \<and> rc_listening rc' = rc_listening rc \<and> rc_canRetrieve rc' = rc_canRetrieve rc
     \<and> sweepInBufInterval rc' = sweepInBufInterval rc \<and> sweepRepairInterval rc' = sweepRepairInterval rc
     \<and> same_kinds is_sweep (rc_timers rc) (rc_timers rc')"

definition kept :: "string option \<Rightarrow> reliable_channel \<Rightarrow> reliable_channel \<Rightarrow> bool" where
  "kept w rc rc' \<longleftrightarrow> (timers_inv w rc \<longrightarrow> timers_inv w rc' \<and> sweeps_same rc rc')"

lemma timers_inv_ok: "timers_inv w rc \<Longrightarrow> timers_ok (rc_timers rc)"
  by (simp add: timers_inv_def rt_inv_def)

lemma rt_inv_other: "same_kinds is_sync t t' \<Longrightarrow> rt_inv (rt, t) \<Longrightarrow> rt_inv (rt, t')"
  by (simp add: rt_inv_def same_ok owns_same)

lemma retriever_part_other: "same_kinds is_retrieve t t' \<Longrightarrow> retriever_part r t \<Longrightarrow> retriever_part r t'"
  by (auto simp: retriever_part_def retriever_inv_def same_ok owns_same split: option.splits)

lemma payloads_other: "same_kinds is_retry t t' \<Longrightarrow> payloads_ok t \<Longrightarrow> payloads_ok t'"
  unfolding payloads_ok_def same_kinds_def by (metis is_retry.simps(1))

lemma retry_part_other:
  assumes "same_kinds is_retry t t'" and "retry_part w rm t"
  shows "retry_part w rm t'"
  using assms(2) registered_other[OF assms(1)] settle_other[OF assms(1)] payloads_other[OF assms(1)]
  by (auto simp: retry_part_def owns_same[OF assms(1)] split: option.splits)

lemma kept_refl [simp]: "kept w rc rc"
  by (auto simp: kept_def sweeps_same_def intro: same_refl timers_inv_ok)

lemma sweeps_trans: "sweeps_same a b \<Longrightarrow> sweeps_same b c \<Longrightarrow> sweeps_same a c"
  by (auto simp: sweeps_same_def intro: same_trans)

lemma kept_trans: "kept w a b \<Longrightarrow> kept w b c \<Longrightarrow> kept w a c"
  by (auto simp: kept_def intro: sweeps_trans)

lemma kept_fold: "(\<And>x rc. kept w rc (f x rc)) \<Longrightarrow> kept w rc (fold f xs rc)"
  by (induction xs arbitrary: rc) (auto intro: kept_trans)

lemma kept_fields [simp]:
  "kept w rc (rc\<lparr>rc_channel := c\<rparr>)" "kept w rc (rc\<lparr>rc_events := es\<rparr>)"
  "kept w rc (rc\<lparr>internalSyncStatus := s\<rparr>)" "kept w rc (rc\<lparr>queryOnConnect := q\<rparr>)"
  "kept w rc (rc\<lparr>rc_channel := c, rc_events := es\<rparr>)"
  by (auto simp: kept_def timers_inv_def sweeps_same_def rt_inv_def intro: same_refl)

lemma kept_with_sync:
  assumes "\<And>s. rt_inv s \<Longrightarrow> rt_inv (f s) \<and> same_kinds (\<lambda>k. \<not> is_sync k) (snd s) (snd (f s))"
  shows "kept w rc (with_sync f rc)"
proof -
  obtain rt t where f: "f (syncRandomTimeout rc, rc_timers rc) = (rt, t)" by fastforce
  {
    assume inv: "timers_inv w rc"
    then have s: "rt_inv (rt, t)" "same_kinds (\<lambda>k. \<not> is_sync k) (rc_timers rc) t"
      using assms[of "(syncRandomTimeout rc, rc_timers rc)"] f by (simp_all add: timers_inv_def)
    have "\<not> is_sync k" if "is_retrieve k \<or> is_retry k \<or> is_process k \<or> is_sweep k" for k :: "bytes timer_kind"
      using that by (cases k) auto
    with same_mono[OF s(2)] have "same_kinds is_retrieve (rc_timers rc) t" "same_kinds is_retry (rc_timers rc) t"
      "same_kinds is_process (rc_timers rc) t" "same_kinds is_sweep (rc_timers rc) t" by blast+
    with inv s(1) have "timers_inv w (with_sync f rc) \<and> sweeps_same rc (with_sync f rc)"
      by (simp add: with_sync_def f timers_inv_def sweeps_same_def retriever_part_other[of "rc_timers rc"]
          retry_part_other[of "rc_timers rc"] owns_same[of is_process "rc_timers rc"])
  }
  then show ?thesis by (simp add: kept_def)
qed

lemma kept_restart [simp]: "kept w rc (restartSync random pending multiplier rc)"
  unfolding restartSync_def Let_def by (intro kept_with_sync) (simp add: rt_restart_inv rt_restart_same)

lemma kept_stopSync [simp]: "kept w rc (stopSync rc)"
  unfolding stopSync_def by (intro kept_with_sync) (simp add: rt_stop_inv rt_stop_same)

lemma kept_with_retriever:
  assumes "\<And>s. retriever_inv s \<Longrightarrow> retriever_inv (f s) \<and> same_kinds (\<lambda>k. \<not> is_retrieve k) (snd s) (snd (f s))"
  shows "kept w rc (with_retriever f rc)"
proof (cases "missingMessageRetriever rc")
  case (Some r)
  obtain r' t where f: "f (r, rc_timers rc) = (r', t)" by fastforce
  {
    assume inv: "timers_inv w rc"
    then have s: "retriever_inv (r', t)" "same_kinds (\<lambda>k. \<not> is_retrieve k) (rc_timers rc) t"
      using assms[of "(r, rc_timers rc)"] f Some by (simp_all add: timers_inv_def retriever_part_def)
    have "\<not> is_retrieve k" if "is_sync k \<or> is_retry k \<or> is_process k \<or> is_sweep k" for k :: "bytes timer_kind"
      using that by (cases k) auto
    with same_mono[OF s(2)] have "same_kinds is_sync (rc_timers rc) t" "same_kinds is_retry (rc_timers rc) t"
      "same_kinds is_process (rc_timers rc) t" "same_kinds is_sweep (rc_timers rc) t" by blast+
    with inv s(1) Some have "timers_inv w (with_retriever f rc) \<and> sweeps_same rc (with_retriever f rc)"
      by (simp add: with_retriever_def f timers_inv_def sweeps_same_def retriever_part_def
          rt_inv_other[of "rc_timers rc"] retry_part_other[of "rc_timers rc"] owns_same[of is_process "rc_timers rc"])
  }
  then show ?thesis by (simp add: kept_def)
qed (simp add: with_retriever_def)

text \<open>The retry manager, with the id of the running retry before and after.\<close>

lemma with_retry_inv:
  assumes "timers_inv w rc"
    and "\<And>s. registered_live s \<Longrightarrow> retry_inv (settle w s) \<Longrightarrow> payloads_ok (snd s) \<Longrightarrow>
      registered_live (f s) \<and> retry_inv (settle w' (f s)) \<and> payloads_ok (snd (f s))
      \<and> same_kinds (\<lambda>k. \<not> is_retry k) (snd s) (snd (f s))"
  shows "timers_inv w' (with_retry f rc) \<and> sweeps_same rc (with_retry f rc)"
proof (cases "retryManager rc")
  case None
  moreover have "sweeps_same rc rc" using same_refl[OF timers_inv_ok[OF assms(1)]] by (simp add: sweeps_same_def)
  ultimately show ?thesis using assms(1) by (simp add: with_retry_def timers_inv_def retry_part_def)
next
  case (Some rm)
  obtain rm' t where f: "f (rm, rc_timers rc) = (rm', t)" by fastforce
  have s: "registered_live (rm', t)" "retry_inv (settle w' (rm', t))" "payloads_ok t"
    "same_kinds (\<lambda>k. \<not> is_retry k) (rc_timers rc) t"
    using assms(2)[of "(rm, rc_timers rc)"] assms(1) f Some by (simp_all add: timers_inv_def retry_part_def)
  have "\<not> is_retry k" if "is_sync k \<or> is_retrieve k \<or> is_process k \<or> is_sweep k" for k :: "bytes timer_kind"
    using that by (cases k) auto
  with same_mono[OF s(4)] have "same_kinds is_sync (rc_timers rc) t" "same_kinds is_retrieve (rc_timers rc) t"
    "same_kinds is_process (rc_timers rc) t" "same_kinds is_sweep (rc_timers rc) t" by blast+
  with assms(1) s(1-3) Some show ?thesis
    by (simp add: with_retry_def f timers_inv_def sweeps_same_def retry_part_def
        rt_inv_other[of "rc_timers rc"] retriever_part_other[of "rc_timers rc"] owns_same[of is_process "rc_timers rc"])
qed

lemma stop_payloads: "payloads_ok (snd s) \<Longrightarrow> payloads_ok (snd (stopRetries i s))"
  by (auto simp: payloads_ok_def stopRetries_live split: option.splits if_splits)

lemma retry_payloads:
  assumes "payloads_ok (snd s)" and "p \<noteq> []"
  shows "payloads_ok (snd (Retry.retry i p n s))"
proof -
  obtain rm t where "stopRetries i s = (rm, t)" by fastforce
  with stop_payloads[OF assms(1), of i] assms(2) show ?thesis
    by (auto simp: retry_eq payloads_ok_def)
qed

lemma retry_registered:
  assumes "registered_live s"
  shows "registered_live (Retry.retry i p n s)"
proof -
  obtain rm t where "stopRetries i s = (rm, t)" by fastforce
  with stopRetries_registered[OF assms, of i] show ?thesis
    by (auto simp: retry_eq registered_live_def handle_of_update timers_ok_def less_Suc_eq
        split: if_splits)
qed

lemma kept_stopRetries [simp]: "kept w rc (with_retry (stopRetries i) rc)"
proof -
  have "timers_inv w (with_retry (stopRetries i) rc) \<and> sweeps_same rc (with_retry (stopRetries i) rc)"
    if "timers_inv w rc"
    by (rule with_retry_inv[OF that]) (simp add: stopRetries_registered settle_stop stop_payloads stopRetries_same)
  then show ?thesis by (simp add: kept_def)
qed

lemma kept_startRetries: "p \<noteq> [] \<Longrightarrow> kept None rc (with_retry (startRetries i p) rc)"
proof -
  assume p: "p \<noteq> []"
  have "timers_inv None (with_retry (startRetries i p) rc) \<and> sweeps_same rc (with_retry (startRetries i p) rc)"
    if "timers_inv None rc"
    using p settle_retry[of None _ i] by (intro with_retry_inv[OF that])
      (simp add: startRetries_def retry_registered retry_payloads retry_same settle_def)
  then show ?thesis by (simp add: kept_def)
qed

lemma rearm_settles:
  assumes "timers_inv (Some i) rc" and "p \<noteq> []"
  shows "timers_inv None (with_retry (Retry.retry i p n) rc) \<and> sweeps_same rc (with_retry (Retry.retry i p n) rc)"
  using assms(2) settle_retry[of "Some i" _ i]
  by (intro with_retry_inv[OF assms(1)]) (simp add: retry_registered retry_payloads retry_same settle_def)

lemma process_slot_inv:
  assumes "timers_inv w rc" and "same_kinds (\<lambda>k. \<not> is_process k) (rc_timers rc) t" and "owns is_process slot (live t)"
  shows "timers_inv w (rc\<lparr>rc_timers := t, processTaskTimeout := slot\<rparr>)
    \<and> sweeps_same rc (rc\<lparr>rc_timers := t, processTaskTimeout := slot\<rparr>)"
proof -
  have "\<not> is_process k" if "is_sync k \<or> is_retrieve k \<or> is_retry k \<or> is_sweep k" for k :: "bytes timer_kind"
    using that by (cases k) auto
  with same_mono[OF assms(2)] have "same_kinds is_sync (rc_timers rc) t" "same_kinds is_retrieve (rc_timers rc) t"
    "same_kinds is_retry (rc_timers rc) t" "same_kinds is_sweep (rc_timers rc) t" by blast+
  with assms(1,3) show ?thesis
    by (simp add: timers_inv_def sweeps_same_def rt_inv_other[of "rc_timers rc"]
        retriever_part_other[of "rc_timers rc"] retry_part_other[of "rc_timers rc"])
qed

lemma kept_queue [simp]: "kept w rc (queueProcessTasks rc)"
proof -
  {
    assume inv: "timers_inv w rc" and none: "processTaskTimeout rc = None"
    obtain t h where set: "set_timer ProcessTaskTimer (rc_timers rc) = (t, h)" by fastforce
    note ok = timers_inv_ok[OF inv]
    have "same_kinds (\<lambda>k. \<not> is_process k) (rc_timers rc) t"
      using set_timer_same[OF ok set, of "\<lambda>k. \<not> is_process k"] by simp
    moreover have "owns is_process (Some h) (live t)"
      using js_timers.owns_set[OF ok _ _ set, of is_process] inv none by (simp add: timers_inv_def)
    ultimately have "timers_inv w (rc\<lparr>rc_timers := t, processTaskTimeout := Some h\<rparr>)
        \<and> sweeps_same rc (rc\<lparr>rc_timers := t, processTaskTimeout := Some h\<rparr>)"
      by (rule process_slot_inv[OF inv])
    then have "timers_inv w (queueProcessTasks rc) \<and> sweeps_same rc (queueProcessTasks rc)" if "rc_started rc"
      using that none set by (simp add: queueProcessTasks_def)
  }
  moreover have "queueProcessTasks rc = rc" if "\<not> (rc_started rc \<and> processTaskTimeout rc = None)"
    using that by (auto simp: queueProcessTasks_def)
  ultimately show ?thesis
    by (cases "rc_started rc \<and> processTaskTimeout rc = None") (auto simp: kept_def kept_refl[unfolded kept_def])
qed

lemma kept_clearProcess [simp]: "kept w rc (clearProcessTasks rc)"
proof (cases "processTaskTimeout rc")
  case (Some h)
  {
    assume inv: "timers_inv w rc"
    note ok = timers_inv_ok[OF inv]
    have owns: "owns is_process (Some h) (live (rc_timers rc))" using inv Some by (simp add: timers_inv_def)
    from owns_Some[OF this] obtain k where "live (rc_timers rc) h = Some k" "is_process k" by blast
    then have "same_kinds (\<lambda>k. \<not> is_process k) (rc_timers rc) (clear_timer h (rc_timers rc))"
      by (intro clear_timer_same[OF ok]) simp
    from process_slot_inv[OF inv this js_timers.owns_clear[OF ok owns]]
    have "timers_inv w (clearProcessTasks rc) \<and> sweeps_same rc (clearProcessTasks rc)"
      using Some by (simp add: clearProcessTasks_def)
  }
  then show ?thesis by (simp add: kept_def)
qed (simp add: clearProcessTasks_def)

section \<open>Every operation between a start and a stop\<close>

lemma kept_emit [simp]: "kept w rc (rc_emit e rc)" and kept_status [simp]: "kept w rc (with_status f rc)"
  by (simp_all add: rc_emit_def with_status_def)

lemma kept_retriever_updates [simp]:
  "kept w rc (with_retriever (\<lambda>(r, t). (addMissingMessage mid hint r, t)) rc)"
  "kept w rc (with_retriever (\<lambda>(r, t). (removeMissingMessage mid r, t)) rc)"
  by (rule kept_with_retriever, auto simp: missing_updates_inv retriever_inv_def intro: same_refl,
      auto simp: addMissingMessage_def removeMissingMessage_def distinct_update distinct_delete)+

lemma kept_note [simp]: "kept w rc (note_missing e rc)"
  by (simp add: note_missing_def split: option.split)

lemma kept_listen [simp]: "kept w rc (listen host random pending e rc)"
proof -
  have "kept w rc (restartSync random pending m (rc_emit e rc))"
    "kept w rc (with_retry (stopRetries i) (rc_emit e rc))"
    "kept w rc (restartSync random pending m (with_status f rc))"
    "kept w rc (fold note_missing es (with_status f rc))" for m e i f es
    by (rule kept_trans[OF kept_emit kept_restart] kept_trans[OF kept_emit kept_stopRetries]
        kept_trans[OF kept_status kept_restart] kept_trans[OF kept_status kept_fold], simp?)+
  then show ?thesis by (cases e) (simp_all add: Let_def)
qed

lemma kept_dispatch [simp]: "kept w rc (dispatch host random pending es rc)"
  by (simp add: dispatch_def kept_fold)

lemma kept_task [simp]: "kept w rc (rc_task env k item rc)"
  unfolding rc_task_def Let_def by (rule kept_trans[OF _ kept_dispatch]) simp

lemma kept_process [simp]: "kept w rc (rc_processTasks env k rc)"
proof (induction env k rc rule: rc_processTasks.induct)
  case (1 env k rc)
  show ?case
  proof (cases "tasks (rc_channel rc)")
    case Nil
    then show ?thesis by (simp add: rc_processTasks.simps)
  next
    case (Cons item rest)
    have "kept w rc (rc\<lparr>rc_channel := (rc_channel rc)\<lparr>tasks := rest\<rparr>\<rparr>)" by simp
    from kept_trans[OF this kept_trans[OF kept_task 1[OF Cons]]] Cons show ?thesis
      by (subst rc_processTasks.simps) simp
  qed
qed

lemma kept_push [simp]: "kept w rc (fst (rc_push env payload rc))"
  by (simp add: rc_push_def split: prod.split)

lemma kept_wrap [simp]: "kept w rc (fst (wrapAndSend env payload rc))"
  using kept_push[of w rc env payload]
  by (cases "rc_push env payload rc"; cases "snd (rc_push env payload rc)")
    (auto simp: wrapAndSend_def intro: kept_trans)

lemma kept_send:
  assumes "payload \<noteq> []"
  shows "kept None rc (fst (rc_send env payload rc))"
proof -
  let ?mid = "getMessageId (re_host env) payload"
  let ?rc = "if rc_started rc then rc else rc_emit (SendingMessageIrrecoverableError ?mid NotStarted) rc"
  let ?rc2 = "with_retry (startRetries ?mid payload) ?rc"
  have "kept None rc ?rc" by simp
  from kept_trans[OF this kept_startRetries[OF assms]] have start: "kept None rc ?rc2" .
  have "fst (rc_send env payload rc) = fst (wrapAndSend env payload ?rc2)"
    unfolding rc_send_def Let_def
    by (cases "wrapAndSend env payload ?rc2"; cases "snd (wrapAndSend env payload ?rc2)") simp_all
  with kept_trans[OF start kept_wrap] show ?thesis by simp
qed

lemma kept_incoming [simp]: "kept w rc (processIncomingMessage env msg rc)"
proof -
  have push: "kept w rc (with_retriever (\<lambda>(r, t). (removeMissingMessage mid r, t)) (rc\<lparr>rc_channel := c\<rparr>))"
    for mid c by (rule kept_trans[OF kept_fields(1) kept_retriever_updates(2)])
  show ?thesis
    by (auto simp: processIncomingMessage_def Let_def intro: kept_trans push
        intro!: kept_trans[OF _ kept_queue] kept_trans[OF push kept_emit] split: option.split list.split)
qed

lemma kept_retrieve [simp]:
  "kept w rc (retrieveMissingMessage query (processIncomingMessage env) r rc)"
  by (auto simp: retrieveMissingMessage_def intro!: kept_fold split: option.split)

lemma kept_store_connect [simp]: "kept w rc (rc_store_connect env generator rc)"
proof -
  have "kept w rc1 (fold (processIncomingMessages env) pages rc1)" for rc1 pages
    by (intro kept_fold) (simp add: processIncomingMessages_def kept_fold)
  then show ?thesis
    by (auto simp: rc_store_connect_def Let_def intro: kept_trans[OF kept_fields(4)] split: option.split)
qed

lemma kept_sync [simp]: "kept w rc (fst (sendSyncMessage env rc))"
  by (cases "pushOutgoingSyncMessage (re_clock env 0) (re_syncId env) (rc_channel rc) (Some (send_ok env))")
    (auto simp: sendSyncMessage_def Let_def split: sum.split
      intro!: kept_trans[OF _ kept_process] kept_trans[OF _ kept_dispatch])

lemma kept_sweeps [simp]: "kept w rc (sweep_incoming env rc)" "kept w rc (sweep_repair env rc)"
  by (auto simp: sweep_incoming_def sweep_repair_def Let_def intro!: kept_trans[OF _ kept_dispatch])

section \<open>A firing timer\<close>

lemma clear_twice [simp]: "clear_timer h (clear_timer h t) = clear_timer h t"
  by (simp add: clear_timer_def)

lemma clear_timer_next: "next_handle (clear_timer h t) = next_handle t"
  by (simp add: clear_timer_def)

lemma clear_running_retry:
  assumes "timers_inv None rc" and "live (rc_timers rc) h = Some (RetryTimer i p n)"
  shows "timers_inv (Some i) (rc\<lparr>rc_timers := clear_timer h (rc_timers rc)\<rparr>)
    \<and> sweeps_same rc (rc\<lparr>rc_timers := clear_timer h (rc_timers rc)\<rparr>) \<and> p \<noteq> []"
proof -
  let ?t = "rc_timers rc"
  have "same_kinds (\<lambda>k. \<not> is_retry k) ?t (clear_timer h ?t)"
    using assms(2) by (intro clear_timer_same[OF timers_inv_ok[OF assms(1)]]) simp
  moreover have "\<not> is_retry k" if "is_sync k \<or> is_retrieve k \<or> is_process k \<or> is_sweep k" for k :: "bytes timer_kind"
    using that by (cases k) auto
  ultimately have other: "same_kinds is_sync ?t (clear_timer h ?t)" "same_kinds is_retrieve ?t (clear_timer h ?t)"
    "same_kinds is_process ?t (clear_timer h ?t)" "same_kinds is_sweep ?t (clear_timer h ?t)"
    using same_mono by blast+
  have pay: "payloads_ok ?t" using assms(1) by (simp add: timers_inv_def retry_part_def)
  have retry: "retry_part (Some i) (retryManager rc) (clear_timer h ?t)"
  proof (cases "retryManager rc")
    case None
    then have "owns is_retry None (live ?t)" using assms(1) by (simp add: timers_inv_def retry_part_def)
    with assms(2) have "\<not> is_retry (RetryTimer i p n :: bytes timer_kind)" unfolding owns_None by blast
    then show ?thesis by simp
  next
    case (Some rm)
    then have inv: "retry_inv (rm, ?t)" using assms(1) by (simp add: timers_inv_def retry_part_def settle_def)
    have "handle_of rm i = Some h" using registered[OF inv, of h i p n] assms(2) by simp
    then have "settle (Some i) (rm, clear_timer h ?t) = stopRetries i (rm, ?t)"
      by (simp add: settle_def stopRetries_cleared del: stopRetries.simps)
    then have "retry_inv (settle (Some i) (rm, clear_timer h ?t))" using stopRetries_inv[OF inv] by simp
    moreover have "registered_live (rm, clear_timer h ?t)"
      using retry_inv_registered[OF inv] js_timers.clear_spec[of ?t h]
      by (auto simp: registered_live_def clear_timer_next)
    ultimately show ?thesis using pay Some by (simp add: retry_part_def payloads_ok_def)
  qed
  moreover have "p \<noteq> []" using pay assms(2) by (auto simp: payloads_ok_def)
  ultimately show ?thesis using assms(1) other retry
    by (simp add: timers_inv_def sweeps_same_def rt_inv_other[of ?t] retriever_part_other[of ?t]
        owns_same[of is_process ?t] del: live_clear)
qed

lemma fire_send_kept:
  assumes "timers_inv None rc" and "live (rc_timers rc) h = Some (RetryTimer i p n)"
  shows "timers_inv None (fst (fire_send env i p n (rc\<lparr>rc_timers := clear_timer h (rc_timers rc)\<rparr>)))
    \<and> sweeps_same rc (fst (fire_send env i p n (rc\<lparr>rc_timers := clear_timer h (rc_timers rc)\<rparr>)))"
proof -
  let ?rc0 = "rc\<lparr>rc_timers := clear_timer h (rc_timers rc)\<rparr>"
  note cleared = clear_running_retry[OF assms]
  obtain rc1 where push: "rc_push env p ?rc0 = (rc1, Inr ())"
    using cleared by (simp add: rc_push_def pushOutgoingMessage_def returns_def)
  define rc2 where "rc2 = (case tasks (rc_channel rc1) of [] \<Rightarrow> rc1
    | item # rest \<Rightarrow> rc_task env 0 item (rc1\<lparr>rc_channel := (rc_channel rc1)\<lparr>tasks := rest\<rparr>\<rparr>))"
  have "kept (Some i) ?rc0 rc1" using kept_push[of "Some i" ?rc0 env p] push by simp
  moreover have "kept (Some i) rc1 rc2"
    unfolding rc2_def by (auto split: list.split intro: kept_trans[OF kept_fields(1) kept_task])
  ultimately have "kept (Some i) ?rc0 rc2" by (rule kept_trans)
  with cleared have two: "timers_inv (Some i) rc2" "sweeps_same rc rc2"
    by (auto simp: kept_def intro: sweeps_trans)
  have p: "p \<noteq> []" using cleared by simp
  let ?rc3 = "with_retry (Retry.retry i p (Suc n)) rc2"
  from rearm_settles[OF two(1) p] two(2)
  have "timers_inv None ?rc3" "sweeps_same rc ?rc3" by (auto intro: sweeps_trans)
  with kept_process[of None ?rc3 env 1]
  have "timers_inv None (rc_processTasks env 1 ?rc3)" "sweeps_same rc (rc_processTasks env 1 ?rc3)"
    by (auto simp: kept_def intro: sweeps_trans)
  moreover have "fst (fire_send env i p n ?rc0) = rc_processTasks env 1 ?rc3"
    by (simp add: fire_send_def push rc2_def)
  ultimately show ?thesis by simp
qed

lemma rearm_sync:
  assumes "timers_inv w rc" and "live (rc_timers rc) h = Some (SyncTimer d)"
  shows "with_sync (\<lambda>s. rt_restart random (multiplierOnCall (fst s)) s) (rc\<lparr>rc_timers := clear_timer h (rc_timers rc)\<rparr>)
    = with_sync (\<lambda>s. rt_restart random (multiplierOnCall (fst s)) s) rc"
proof -
  have "rt_timeout (syncRandomTimeout rc) = Some h"
    using assms by (auto simp: timers_inv_def rt_inv_def owns_def set_eq_iff split: option.splits)
  then show ?thesis by (simp add: with_sync_def rt_restart_def rt_stop_def split: prod.split)
qed

lemma clear_process_fired:
  assumes "timers_inv w rc" and "live (rc_timers rc) h = Some ProcessTaskTimer"
  shows "clearProcessTasks (rc\<lparr>rc_timers := clear_timer h (rc_timers rc)\<rparr>) = clearProcessTasks rc"
proof -
  have "h \<in> set_option (processTaskTimeout rc)"
    using assms by (auto simp: timers_inv_def owns_def)
  then show ?thesis by (auto simp: clearProcessTasks_def split: option.split elim: option.set_cases)
qed

lemma kept_fire: "kept None rc (fst (rc_fire env h rc))"
proof -
  {
    assume inv: "timers_inv None rc"
    have "timers_inv None (fst (rc_fire env h rc)) \<and> sweeps_same rc (fst (rc_fire env h rc))"
    proof (cases "live (rc_timers rc) h")
      case None
      with inv kept_refl[of None rc] show ?thesis unfolding kept_def by (simp add: rc_fire_def)
    next
      case (Some k)
      show ?thesis
      proof (cases k)
        case (SyncTimer d)
        let ?f = "\<lambda>s. rt_restart (re_random env 0) (multiplierOnCall (fst s)) s"
        have "kept None rc (with_sync ?f rc)" by (intro kept_with_sync) (simp add: rt_restart_inv rt_restart_same)
        from kept_trans[OF this kept_sync] inv Some SyncTimer rearm_sync[of None rc h d]
        show ?thesis by (simp add: rc_fire_def kept_def)
      next
        case ProcessTaskTimer
        from kept_trans[OF kept_clearProcess kept_process] inv Some ProcessTaskTimer clear_process_fired[of None rc h]
        show ?thesis by (simp add: rc_fire_def kept_def)
      next
        case (RetryTimer i p n)
        with fire_send_kept[OF inv] Some show ?thesis by (simp add: rc_fire_def)
      next
        case RetrieveTimer
        have "kept None rc (case missingMessageRetriever rc of None \<Rightarrow> rc
            | Some r \<Rightarrow> retrieveMissingMessage (re_query env) (processIncomingMessage env) r rc)"
          by (simp split: option.split)
        with inv Some RetrieveTimer show ?thesis by (simp add: rc_fire_def kept_def)
      qed (use inv Some kept_sweeps[of None rc env] in \<open>simp_all add: rc_fire_def kept_def\<close>)
    qed
  }
  then show ?thesis by (simp add: kept_def)
qed

text \<open>Everything but starting, stopping and sending nothing.\<close>

fun activity :: "rc_op \<Rightarrow> bool" where
  "activity RcStart = False"
| "activity RcStop = False"
| "activity (RcSend payload) = (payload \<noteq> [])"
| "activity op = True"

lemma kept_step: "activity op \<Longrightarrow> kept None rc (rc_step env op rc)"
  by (cases op) (simp_all add: kept_send kept_fire on_filter_message_def)

lemma kept_run: "list_all (\<lambda>(env, op). activity op) ops \<Longrightarrow> kept None rc (rc_run ops rc)"
  by (induction ops arbitrary: rc) (auto simp: rc_run_def intro: kept_trans kept_step)

section \<open>The sweep loops\<close>

definition sweepers :: "reliable_channel \<Rightarrow> nat set" where
  "sweepers rc = {h. live (rc_timers rc) h = Some SweepIncomingTimer}"

definition repairers :: "reliable_channel \<Rightarrow> nat set" where
  "repairers rc = {h. live (rc_timers rc) h = Some SweepRepairTimer}"

text \<open>\<open>n\<close> sweep timers are live that no field knows of.\<close>

definition loops :: "nat \<Rightarrow> reliable_channel \<Rightarrow> bool" where
  "loops n rc \<longleftrightarrow> timers_inv None rc \<and> finite (sweepers rc)
     \<and> set_option (sweepInBufInterval rc) \<subseteq> sweepers rc
     \<and> card (sweepers rc - set_option (sweepInBufInterval rc)) = n
     \<and> repairers rc \<subseteq> set_option (sweepRepairInterval rc)
     \<and> (\<forall>h. sweepRepairInterval rc = Some h \<longrightarrow> h < next_handle (rc_timers rc) \<and>
          (\<forall>k. live (rc_timers rc) h = Some k \<longrightarrow> k = SweepRepairTimer))"

lemma sweepers_same: "sweeps_same rc rc' \<Longrightarrow> sweepers rc' = sweepers rc \<and> repairers rc' = repairers rc"
  by (auto simp: sweeps_same_def same_kinds_def sweepers_def repairers_def)

lemma loops_same:
  assumes "loops n rc" and "timers_inv None rc'" and "sweeps_same rc rc'"
  shows "loops n rc'"
proof -
  have "h < next_handle (rc_timers rc') \<and> (\<forall>k. live (rc_timers rc') h = Some k \<longrightarrow> k = SweepRepairTimer)"
    if "sweepRepairInterval rc' = Some h" for h
  proof -
    have "sweepRepairInterval rc = Some h" using assms(3) that by (simp add: sweeps_same_def)
    with assms(1) have h: "h < next_handle (rc_timers rc)"
      "\<And>k. live (rc_timers rc) h = Some k \<Longrightarrow> k = SweepRepairTimer"
      by (simp_all add: loops_def)
    moreover have "live (rc_timers rc') h \<noteq> None \<longrightarrow> live (rc_timers rc') h = live (rc_timers rc) h"
      "next_handle (rc_timers rc) \<le> next_handle (rc_timers rc')"
      using assms(3) h(1) by (auto simp: sweeps_same_def same_kinds_def)
    ultimately show ?thesis by auto
  qed
  with assms sweepers_same[OF assms(3)] show ?thesis by (simp add: loops_def sweeps_same_def)
qed

lemma loops_kept: "loops n rc \<Longrightarrow> kept None rc rc' \<Longrightarrow> loops n rc' \<and> sweeps_same rc rc'"
proof -
  assume l: "loops n rc" and k: "kept None rc rc'"
  have "timers_inv None rc" using l by (simp add: loops_def)
  with k have "timers_inv None rc'" "sweeps_same rc rc'" by (simp_all add: kept_def)
  with loops_same[OF l this] show "loops n rc' \<and> sweeps_same rc rc'" by simp
qed

text \<open>The loops' own operations keep the other components' timers.\<close>

lemma sweep_slots_inv:
  assumes "timers_inv w rc" and "same_kinds (\<lambda>k. \<not> is_sweep k) (rc_timers rc) t"
  shows "timers_inv w (rc\<lparr>rc_timers := t, sweepInBufInterval := a\<rparr>)"
    and "timers_inv w (rc\<lparr>rc_timers := t, sweepRepairInterval := b\<rparr>)"
proof -
  have "\<not> is_sweep k" if "is_sync k \<or> is_retrieve k \<or> is_retry k \<or> is_process k" for k :: "bytes timer_kind"
    using that by (cases k) auto
  with same_mono[OF assms(2)] have "same_kinds is_sync (rc_timers rc) t" "same_kinds is_retrieve (rc_timers rc) t"
    "same_kinds is_retry (rc_timers rc) t" "same_kinds is_process (rc_timers rc) t" by blast+
  with assms(1) show "timers_inv w (rc\<lparr>rc_timers := t, sweepInBufInterval := a\<rparr>)"
    "timers_inv w (rc\<lparr>rc_timers := t, sweepRepairInterval := b\<rparr>)"
    by (simp_all add: timers_inv_def rt_inv_other[of "rc_timers rc"] retriever_part_other[of "rc_timers rc"]
        retry_part_other[of "rc_timers rc"] owns_same[of is_process "rc_timers rc"])
qed

lemma loops_stop_incoming:
  assumes "loops n rc"
  shows "loops n (stopSweepIncomingBufferLoop rc) \<and> sweepInBufInterval (stopSweepIncomingBufferLoop rc) = None"
proof (cases "sweepInBufInterval rc")
  case None
  with assms show ?thesis by (simp add: stopSweepIncomingBufferLoop_def)
next
  case (Some h)
  let ?t = "clear_timer h (rc_timers rc)"
  have l: "live (rc_timers rc) h = Some SweepIncomingTimer" using assms Some by (auto simp: loops_def sweepers_def)
  have ok: "timers_ok (rc_timers rc)" using assms timers_inv_ok by (auto simp: loops_def)
  have "same_kinds (\<lambda>k. \<not> is_sweep k) (rc_timers rc) ?t" by (rule clear_timer_same[OF ok]) (simp add: l)
  with assms have "timers_inv None (rc\<lparr>rc_timers := ?t, sweepInBufInterval := None\<rparr>)"
    by (intro sweep_slots_inv) (simp_all add: loops_def)
  moreover have "sweepers (rc\<lparr>rc_timers := ?t, sweepInBufInterval := None\<rparr>) = sweepers rc - {h}"
    "repairers (rc\<lparr>rc_timers := ?t, sweepInBufInterval := None\<rparr>) = repairers rc"
    using l by (auto simp: sweepers_def repairers_def)
  ultimately show ?thesis using assms Some
    by (simp add: loops_def stopSweepIncomingBufferLoop_def clear_timer_next)
qed

lemma loops_start_incoming:
  assumes "loops n rc"
  shows "loops n (startSweepIncomingBufferLoop rc) \<and> sweepInBufInterval (startSweepIncomingBufferLoop rc) \<noteq> None
    \<and> sweepRepairInterval (startSweepIncomingBufferLoop rc) = sweepRepairInterval rc"
proof -
  let ?rc = "stopSweepIncomingBufferLoop rc"
  have stop: "loops n ?rc" "sweepInBufInterval ?rc = None" using loops_stop_incoming[OF assms] by simp_all
  have "sweepRepairInterval ?rc = sweepRepairInterval rc"
    by (simp add: stopSweepIncomingBufferLoop_def split: option.split)
  note stop = stop this
  have ok: "timers_ok (rc_timers ?rc)" using stop(1) timers_inv_ok by (auto simp: loops_def)
  obtain t h where set: "set_timer SweepIncomingTimer (rc_timers ?rc) = (t, h)" by fastforce
  let ?rc' = "?rc\<lparr>rc_timers := t, sweepInBufInterval := Some h\<rparr>"
  note new = js_timers.set_spec[OF ok set]
  have next_h: "h = next_handle (rc_timers ?rc)" "next_handle t = next_handle (rc_timers ?rc) + 1"
    using set by (auto simp: set_timer_def)
  have "same_kinds (\<lambda>k. \<not> is_sweep k) (rc_timers ?rc) t" using set_timer_same[OF ok set, of "\<lambda>k. \<not> is_sweep k"] by simp
  with stop(1) have "timers_inv None ?rc'" by (intro sweep_slots_inv) (simp_all add: loops_def)
  moreover have "sweepers ?rc' = insert h (sweepers ?rc)" "h \<notin> sweepers ?rc" "repairers ?rc' = repairers ?rc"
    using new by (auto simp: sweepers_def repairers_def split: if_splits)
  moreover have "k = SweepRepairTimer" if "sweepRepairInterval ?rc = Some x" "live t x = Some k" for x k
    using stop(1) that new next_h by (auto simp: loops_def split: if_splits)
  moreover have "x < next_handle t" if "sweepRepairInterval ?rc = Some x" for x
    using stop(1) that next_h by (auto simp: loops_def)
  ultimately have "loops n ?rc'" using stop(1,2) by (simp add: loops_def)
  then show ?thesis using stop(3) by (simp add: startSweepIncomingBufferLoop_def set Let_def)
qed

text \<open>Stopping the repair loop forgets the handle of the other loop, whose timer stays.\<close>

lemma loops_stop_repair:
  assumes "loops n rc"
  shows "loops (n + (if sweepRepairInterval rc \<noteq> None \<and> sweepInBufInterval rc \<noteq> None then 1 else 0))
      (stopRepairSweepLoop rc)
    \<and> repairers (stopRepairSweepLoop rc) = {}
    \<and> sweepInBufInterval (stopRepairSweepLoop rc) = (if sweepRepairInterval rc = None then sweepInBufInterval rc else None)
    \<and> sweepRepairInterval (stopRepairSweepLoop rc) = sweepRepairInterval rc"
proof (cases "sweepRepairInterval rc")
  case None
  with assms show ?thesis by (simp add: stopRepairSweepLoop_def loops_def)
next
  case (Some h)
  let ?t = "clear_timer h (rc_timers rc)" and ?rc = "rc\<lparr>rc_timers := clear_timer h (rc_timers rc), sweepInBufInterval := None\<rparr>"
  have l: "\<And>k. live (rc_timers rc) h = Some k \<Longrightarrow> k = SweepRepairTimer" using assms Some by (auto simp: loops_def)
  have ok: "timers_ok (rc_timers rc)" using assms timers_inv_ok by (auto simp: loops_def)
  have "same_kinds (\<lambda>k. \<not> is_sweep k) (rc_timers rc) ?t" by (rule clear_timer_same[OF ok]) (auto dest: l)
  with assms have "timers_inv None ?rc" by (intro sweep_slots_inv) (simp_all add: loops_def)
  moreover have "sweepers ?rc = sweepers rc" "repairers ?rc = {}"
    using l assms Some by (auto simp: sweepers_def repairers_def loops_def)
  moreover have "card (sweepers rc) = n + (if sweepInBufInterval rc \<noteq> None then 1 else 0)"
    using assms card_Suc_Diff1[of "sweepers rc" "the (sweepInBufInterval rc)"]
    by (cases "sweepInBufInterval rc") (simp_all add: loops_def)
  ultimately show ?thesis using assms Some
    by (simp add: loops_def stopRepairSweepLoop_def clear_timer_next)
qed

lemma loops_start_repair:
  assumes "loops n rc"
  shows "loops (n + (if shouldUseSdsR rc \<and> sweepRepairInterval rc \<noteq> None \<and> sweepInBufInterval rc \<noteq> None then 1 else 0))
      (startRepairSweepLoop rc)
    \<and> (sweepRepairInterval (startRepairSweepLoop rc) \<noteq> None \<longleftrightarrow> shouldUseSdsR rc \<or> sweepRepairInterval rc \<noteq> None)"
proof (cases "shouldUseSdsR rc")
  case True
  let ?rc = "stopRepairSweepLoop rc"
  let ?n = "n + (if sweepRepairInterval rc \<noteq> None \<and> sweepInBufInterval rc \<noteq> None then 1 else 0)"
  have stop: "loops ?n ?rc" "repairers ?rc = {}" using loops_stop_repair[OF assms] by simp_all
  have ok: "timers_ok (rc_timers ?rc)" using stop(1) timers_inv_ok by (auto simp: loops_def)
  obtain t h where set: "set_timer SweepRepairTimer (rc_timers ?rc) = (t, h)" by fastforce
  let ?rc' = "?rc\<lparr>rc_timers := t, sweepRepairInterval := Some h\<rparr>"
  note new = js_timers.set_spec[OF ok set]
  have next_h: "h = next_handle (rc_timers ?rc)" "next_handle t = next_handle (rc_timers ?rc) + 1"
    using set by (auto simp: set_timer_def)
  have "same_kinds (\<lambda>k. \<not> is_sweep k) (rc_timers ?rc) t" using set_timer_same[OF ok set, of "\<lambda>k. \<not> is_sweep k"] by simp
  with stop(1) have "timers_inv None ?rc'" by (intro sweep_slots_inv) (simp_all add: loops_def)
  moreover have "sweepers ?rc' = sweepers ?rc" "repairers ?rc' = {h}"
    using new stop(2) by (auto simp: sweepers_def repairers_def split: if_splits)
  ultimately have "loops ?n ?rc'" using stop(1) new next_h by (simp add: loops_def)
  then show ?thesis using True by (simp add: startRepairSweepLoop_def set Let_def)
qed (use assms in \<open>simp add: startRepairSweepLoop_def\<close>)

section \<open>Starting and stopping\<close>

lemma strategy_simps [simp]:
  "rc_strategy (with_sync f rc) = rc_strategy rc" "rc_strategy (with_retriever g rc) = rc_strategy rc"
  "rc_strategy (with_retry k rc) = rc_strategy rc" "rc_strategy (with_status m rc) = rc_strategy rc"
  "rc_strategy (stopSweepIncomingBufferLoop rc) = rc_strategy rc"
  "rc_strategy (startSweepIncomingBufferLoop rc) = rc_strategy rc"
  "rc_strategy (stopRepairSweepLoop rc) = rc_strategy rc"
  "rc_strategy (startRepairSweepLoop rc) = rc_strategy rc"
  "rc_strategy (clearProcessTasks rc) = rc_strategy rc"
  by (simp_all add: with_sync_def with_retriever_def with_retry_def with_status_def stopSweepIncomingBufferLoop_def
      startSweepIncomingBufferLoop_def stopRepairSweepLoop_def startRepairSweepLoop_def clearProcessTasks_def Let_def
      split: option.split prod.split)

lemma sync_simps [simp]:
  "syncRandomTimeout (with_retriever g rc) = syncRandomTimeout rc"
  "syncRandomTimeout (with_retry k rc) = syncRandomTimeout rc"
  "syncRandomTimeout (with_status m rc) = syncRandomTimeout rc"
  "syncRandomTimeout (stopSweepIncomingBufferLoop rc) = syncRandomTimeout rc"
  "syncRandomTimeout (stopRepairSweepLoop rc) = syncRandomTimeout rc"
  "syncRandomTimeout (clearProcessTasks rc) = syncRandomTimeout rc"
  by (simp_all add: with_retriever_def with_retry_def with_status_def stopSweepIncomingBufferLoop_def
      stopRepairSweepLoop_def clearProcessTasks_def split: option.split prod.split)

lemma process_slot_simps [simp]:
  "processTaskTimeout (with_retriever g rc) = processTaskTimeout rc"
  "processTaskTimeout (with_retry k rc) = processTaskTimeout rc"
  "processTaskTimeout (with_status m rc) = processTaskTimeout rc"
  "processTaskTimeout (clearProcessTasks rc) = None"
  by (simp_all add: with_retriever_def with_retry_def with_status_def clearProcessTasks_def
      split: option.split prod.split)

lemma stopSync_slot [simp]: "rt_timeout (syncRandomTimeout (stopSync rc)) = None"
  using rt_stop_fields(1)[of "(syncRandomTimeout rc, rc_timers rc)"]
  by (cases "rt_stop (syncRandomTimeout rc, rc_timers rc)") (simp add: stopSync_def with_sync_def)

lemma loops_flags [simp]:
  "loops n (rc\<lparr>rc_started := a, rc_listening := b\<rparr>) = loops n rc"
  by (simp add: loops_def timers_inv_def sweepers_def repairers_def)

lemma loops_start:
  assumes "loops n rc" and "\<not> rc_started rc"
  shows "loops (n + (if shouldUseSdsR rc \<and> sweepRepairInterval rc \<noteq> None then 1 else 0)) (fst (rc_start env rc))
    \<and> rc_strategy (fst (rc_start env rc)) = rc_strategy rc \<and> rc_started (fst (rc_start env rc))
    \<and> (sweepRepairInterval (fst (rc_start env rc)) \<noteq> None \<longleftrightarrow> shouldUseSdsR rc \<or> sweepRepairInterval rc \<noteq> None)"
proof -
  let ?n = "n + (if shouldUseSdsR rc \<and> sweepRepairInterval rc \<noteq> None then 1 else 0)"
  define rc1 where "rc1 = rc\<lparr>rc_started := True, rc_listening := True\<rparr>"
  define rc2 where "rc2 = restartSync (re_random env 0) (hasPendingRepairRequests (rc_channel rc1) (re_clock env 0)) 1 rc1"
  define rc3 where "rc3 = startRepairSweepLoop (startSweepIncomingBufferLoop rc2)"
  define rc4 where "rc4 = (if rc_canRetrieve rc3
    then (with_retriever retriever_start rc3)\<lparr>queryOnConnect := map_option query_start (queryOnConnect rc3)\<rparr> else rc3)"
  have start: "fst (rc_start env rc) = rc4"
    using assms(2) unfolding rc_start_def rc1_def rc2_def rc3_def rc4_def Let_def by simp
  have one: "loops n rc1" using assms(1) by (simp add: rc1_def)
  have "kept None rc1 rc2" unfolding rc2_def by simp
  with loops_kept[OF one] have two: "loops n rc2" "sweeps_same rc1 rc2" by blast+
  have same: "rc_strategy rc2 = rc_strategy rc" "sweepRepairInterval rc2 = sweepRepairInterval rc"
    using two(2) by (simp_all add: sweeps_same_def rc1_def)
  have sdsr: "shouldUseSdsR (startSweepIncomingBufferLoop rc2) = shouldUseSdsR rc"
    using same(1) by (simp add: shouldUseSdsR_def)
  from loops_start_incoming[OF two(1)] same(2) have incoming: "loops n (startSweepIncomingBufferLoop rc2)"
    "sweepInBufInterval (startSweepIncomingBufferLoop rc2) \<noteq> None"
    "sweepRepairInterval (startSweepIncomingBufferLoop rc2) = sweepRepairInterval rc" by simp_all
  from loops_start_repair[OF incoming(1)] incoming(2,3) sdsr have three: "loops ?n rc3"
    "sweepRepairInterval rc3 \<noteq> None \<longleftrightarrow> shouldUseSdsR rc \<or> sweepRepairInterval rc \<noteq> None"
    by (simp_all add: rc3_def)
  have "kept None rc3 (with_retriever retriever_start rc3)"
    by (rule kept_with_retriever) (simp add: retriever_start_inv retriever_same)
  from kept_trans[OF this kept_fields(4)] have "kept None rc3 rc4" by (simp add: rc4_def)
  with loops_kept[OF three(1)] have four: "loops ?n rc4" "sweeps_same rc3 rc4" by blast+
  moreover have "rc_strategy rc4 = rc_strategy rc" using same(1) by (simp add: rc4_def rc3_def)
  moreover have "rc_started (fst (rc_start env rc))" by (rule rc_start_fields(1))
  ultimately show ?thesis using three(2) unfolding start by (simp add: sweeps_same_def)
qed

lemma clear_all_next: "next_handle (clear_all hs t) = next_handle t"
  unfolding clear_all_def by (induction hs arbitrary: t) (simp_all add: clear_timer_next)

lemma stopAll_live:
  "live (snd (stopAllRetries s)) h = (if h \<in> snd ` set (timeouts (fst s)) then None else live (snd s) h)"
  by (cases s) (simp add: clear_all_live)

lemma stopAll_spec:
  assumes "registered_live s" and "retry_inv s" and "payloads_ok (snd s)"
  shows "registered_live (stopAllRetries s) \<and> retry_inv (stopAllRetries s) \<and> payloads_ok (snd (stopAllRetries s))
    \<and> same_kinds (\<lambda>k. \<not> is_retry k) (snd s) (snd (stopAllRetries s))
    \<and> (\<forall>h k. live (snd (stopAllRetries s)) h = Some k \<longrightarrow> \<not> is_retry k)"
proof -
  have ok: "timers_ok (snd (stopAllRetries s))" and nxt: "next_handle (snd (stopAllRetries s)) = next_handle (snd s)"
    and none: "handle_of (fst (stopAllRetries s)) = Map.empty"
    using assms(2) by (cases s; auto simp: retry_inv_def clear_all_ok clear_all_next handle_of_def)+
  have reg: "h \<in> snd ` set (timeouts (fst s)) \<longleftrightarrow> (\<exists>i. handle_of (fst s) i = Some h)" for h
    using assms(2) by (force simp: retry_inv_def handle_of_def image_iff)
  have gone: "\<not> is_retry k" if "live (snd (stopAllRetries s)) h = Some k" for h k
  proof
    assume "is_retry k"
    then obtain i p n where k: "k = RetryTimer i p n" by (cases k) auto
    with that have l: "live (snd s) h = Some (RetryTimer i p n)" "h \<notin> snd ` set (timeouts (fst s))"
      by (auto simp: stopAll_live split: if_splits)
    with registered[OF assms(2) l(1)] reg show False by blast
  qed
  have "live (snd (stopAllRetries s)) h = Some k \<longleftrightarrow> live (snd s) h = Some k" if "\<not> is_retry k" for h k
    using that reg[of h] assms(1) by (auto simp: stopAll_live registered_live_def)
  then have "same_kinds (\<lambda>k. \<not> is_retry k) (snd s) (snd (stopAllRetries s))"
    using ok nxt by (auto simp: same_kinds_def stopAll_live split: if_splits)
  moreover have "retry_inv (stopAllRetries s)"
    using ok none gone is_retry.simps(1) by (cases s) (fastforce simp: retry_inv_def handle_of_def)
  moreover have "payloads_ok (snd (stopAllRetries s))"
  proof -
    have "live (snd (stopAllRetries s)) h \<noteq> Some (RetryTimer i p n)" for h i p n
      using gone[of h "RetryTimer i p n"] by auto
    then show ?thesis by (simp add: payloads_ok_def)
  qed
  ultimately show ?thesis using ok none gone by (auto simp: registered_live_def)
qed

text \<open>Only sweep timers are left, and no field knows of them.\<close>

definition stopped :: "nat \<Rightarrow> reliable_channel \<Rightarrow> bool" where
  "stopped n rc \<longleftrightarrow> loops n rc \<and> \<not> rc_started rc \<and> \<not> rc_listening rc \<and> sweepInBufInterval rc = None
     \<and> (\<forall>h k. live (rc_timers rc) h = Some k \<longrightarrow> k = SweepIncomingTimer)"

lemma kept_stopAll: "kept None rc (with_retry stopAllRetries rc)"
  and stopAll_gone: "timers_inv None rc \<Longrightarrow> owns is_retry None (live (rc_timers (with_retry stopAllRetries rc)))"
proof -
  have spec: "registered_live (stopAllRetries s) \<and> retry_inv (stopAllRetries s) \<and> payloads_ok (snd (stopAllRetries s))
      \<and> same_kinds (\<lambda>k. \<not> is_retry k) (snd s) (snd (stopAllRetries s))
      \<and> (\<forall>h k. live (snd (stopAllRetries s)) h = Some k \<longrightarrow> \<not> is_retry k)"
    if "registered_live s" "retry_inv (settle None s)" "payloads_ok (snd s)" for s :: "bytes retry_state"
    using stopAll_spec[of s] that by (simp add: settle_def)
  have "timers_inv None (with_retry stopAllRetries rc) \<and> sweeps_same rc (with_retry stopAllRetries rc)"
    if "timers_inv None rc"
    by (rule with_retry_inv[OF that]) (simp add: spec settle_def)
  then show "kept None rc (with_retry stopAllRetries rc)" by (simp add: kept_def)
  show "owns is_retry None (live (rc_timers (with_retry stopAllRetries rc)))" if inv: "timers_inv None rc"
  proof (cases "retryManager rc")
    case None
    with inv show ?thesis by (simp add: with_retry_def timers_inv_def retry_part_def)
  next
    case (Some rm)
    obtain rm' t where f: "stopAllRetries (rm, rc_timers rc) = (rm', t)" by fastforce
    with spec[of "(rm, rc_timers rc)"] inv Some show ?thesis
      by (simp add: with_retry_def timers_inv_def retry_part_def owns_None)
  qed
qed

lemma retriever_stop_slot:
  "with_retriever retriever_stop rc = rc' \<Longrightarrow> missingMessageRetriever rc' = Some r \<Longrightarrow> retrieveInterval r = None"
  using clear_retrieve_slot[of "(the (missingMessageRetriever rc), rc_timers rc)"]
  by (cases "missingMessageRetriever rc";
      cases "clear_retrieve (the (missingMessageRetriever rc), rc_timers rc)")
    (auto simp: with_retriever_def retriever_stop_def)

lemma only_sweepers:
  assumes "loops n rc" and "repairers rc = {}" and "rt_timeout (syncRandomTimeout rc) = None"
    and "processTaskTimeout rc = None" and "owns is_retry None (live (rc_timers rc))"
    and "\<And>r. missingMessageRetriever rc = Some r \<Longrightarrow> retrieveInterval r = None"
    and "live (rc_timers rc) h = Some k"
  shows "k = SweepIncomingTimer"
proof -
  have "owns is_sync None (live (rc_timers rc))" "owns is_process None (live (rc_timers rc))"
    using assms(1,3,4) by (simp_all add: loops_def timers_inv_def rt_inv_def)
  moreover have "owns is_retrieve None (live (rc_timers rc))"
    using assms(1,6) by (cases "missingMessageRetriever rc")
      (auto simp: loops_def timers_inv_def retriever_part_def retriever_inv_def)
  moreover have "k \<noteq> SweepRepairTimer" using assms(2,7) by (auto simp: repairers_def)
  ultimately show ?thesis using assms(5,7) unfolding owns_None by (cases k) force+
qed

lemma with_retry_fields [simp]:
  "missingMessageRetriever (with_retry f rc) = missingMessageRetriever rc"
  "sweepInBufInterval (with_retry f rc) = sweepInBufInterval rc"
  "sweepRepairInterval (with_retry f rc) = sweepRepairInterval rc"
  "rc_started (with_retry f rc) = rc_started rc" "rc_listening (with_retry f rc) = rc_listening rc"
  by (simp_all add: with_retry_def split: option.split prod.split)

lemma loops_stop:
  assumes "loops n rc" and "rc_started rc"
  shows "stopped n (fst (rc_stop env rc)) \<and> rc_strategy (fst (rc_stop env rc)) = rc_strategy rc
    \<and> sweepRepairInterval (fst (rc_stop env rc)) = sweepRepairInterval rc"
proof -
  define rc0 where "rc0 = rc\<lparr>rc_started := False, rc_listening := False\<rparr>"
  define rc1 where "rc1 = stopSync rc0"
  define rc1i where "rc1i = stopSweepIncomingBufferLoop rc1"
  define rc1r where "rc1r = stopRepairSweepLoop rc1i"
  define rc2 where "rc2 = clearProcessTasks rc1r"
  define rc3 where "rc3 = (with_retriever retriever_stop rc2)\<lparr>queryOnConnect := map_option query_stop (queryOnConnect rc2)\<rparr>"
  define rc4 where "rc4 = with_retry stopAllRetries rc3"
  have stop: "fst (rc_stop env rc) = rc4 \<or> fst (rc_stop env rc) = with_status cleanUp rc4"
    using assms(2)
    unfolding rc_stop_def rc0_def rc1_def rc1i_def rc1r_def rc2_def rc3_def rc4_def Let_def
    by (simp split: sum.split)
  have "loops n rc0" using assms(1) by (simp add: rc0_def)
  from loops_kept[OF this, of rc1] have one: "loops n rc1" "sweeps_same rc0 rc1" by (simp_all add: rc1_def)
  have two: "loops n rc1i" "sweepInBufInterval rc1i = None" "sweepRepairInterval rc1i = sweepRepairInterval rc"
    "rc_started rc1i = False" "rc_listening rc1i = False"
    using loops_stop_incoming[OF one(1)] one(2)
    by (auto simp: rc1i_def rc0_def sweeps_same_def stopSweepIncomingBufferLoop_def split: option.split)
  from loops_stop_repair[OF two(1)] two have three: "loops n rc1r" "repairers rc1r = {}"
    "sweepInBufInterval rc1r = None" "sweepRepairInterval rc1r = sweepRepairInterval rc"
    by (simp_all add: rc1r_def)
  have flags: "rc_started rc1r = False" "rc_listening rc1r = False"
    using two by (simp_all add: rc1r_def stopRepairSweepLoop_def split: option.split)
  have "kept None rc1r rc2" by (simp add: rc2_def)
  moreover have "kept None rc2 (with_retriever retriever_stop rc2)"
    by (rule kept_with_retriever) (simp add: retriever_stop_inv retriever_same)
  from kept_trans[OF this kept_fields(4)] have "kept None rc2 rc3" by (simp add: rc3_def)
  ultimately have "kept None rc1r rc3" by (rule kept_trans)
  with loops_kept[OF three(1)] have loops3: "loops n rc3" "sweeps_same rc1r rc3" by blast+
  from loops_kept[OF loops3(1) kept_stopAll] have loops4: "loops n rc4" "sweeps_same rc3 rc4"
    by (simp_all add: rc4_def)
  have same: "sweeps_same rc1r rc4" using loops3(2) loops4(2) by (rule sweeps_trans)
  have "owns is_retry None (live (rc_timers rc4))"
    using stopAll_gone[of rc3] loops3(1) by (simp add: rc4_def loops_def)
  moreover have "missingMessageRetriever rc4 = Some r \<Longrightarrow> retrieveInterval r = None" for r
    using retriever_stop_slot[of rc2 "with_retriever retriever_stop rc2" r] by (simp add: rc4_def rc3_def)
  moreover have "repairers rc4 = {}" using sweepers_same[OF same] three(2) by simp
  moreover have "rt_timeout (syncRandomTimeout rc4) = None" "processTaskTimeout rc4 = None"
    by (simp_all add: rc4_def rc3_def rc2_def rc1r_def rc1i_def rc1_def)
  ultimately have "live (rc_timers rc4) h = Some k \<Longrightarrow> k = SweepIncomingTimer" for h k
    using only_sweepers[OF loops4(1)] by blast
  then have "stopped n rc4" using loops4(1) same three flags by (simp add: stopped_def sweeps_same_def)
  moreover have "stopped n (with_status f rc4) \<longleftrightarrow> stopped n rc4" for f
    by (simp add: stopped_def loops_def timers_inv_def sweepers_def repairers_def with_status_def)
  moreover have "rc_strategy rc4 = rc_strategy rc" "sweepRepairInterval rc4 = sweepRepairInterval rc"
    using same three(4) by (simp_all add: sweeps_same_def rc1r_def rc1i_def rc1_def rc0_def stopSync_def)
  ultimately show ?thesis using stop by (auto simp: with_status_def)
qed

text \<open>A session: start, any activity, stop.\<close>

definition session :: "rc_env \<times> (rc_env \<times> rc_op) list \<times> rc_env \<Rightarrow> reliable_channel \<Rightarrow> reliable_channel" where
  "session s rc = (case s of (e1, ops, e2) \<Rightarrow> fst (rc_stop e2 (rc_run ops (fst (rc_start e1 rc)))))"

lemma session_stopped:
  assumes "stopped n rc" and "list_all (\<lambda>(env, op). activity op) ops"
  shows "stopped (n + (if shouldUseSdsR rc \<and> sweepRepairInterval rc \<noteq> None then 1 else 0)) (session (e1, ops, e2) rc)
    \<and> rc_strategy (session (e1, ops, e2) rc) = rc_strategy rc
    \<and> (sweepRepairInterval (session (e1, ops, e2) rc) \<noteq> None \<longleftrightarrow> shouldUseSdsR rc \<or> sweepRepairInterval rc \<noteq> None)"
proof -
  let ?n = "n + (if shouldUseSdsR rc \<and> sweepRepairInterval rc \<noteq> None then 1 else 0)"
  define rc1 where "rc1 = fst (rc_start e1 rc)"
  define rc2 where "rc2 = rc_run ops rc1"
  have "loops n rc" "\<not> rc_started rc" using assms(1) by (simp_all add: stopped_def)
  from loops_start[OF this, of e1] have one: "loops ?n rc1" "rc_strategy rc1 = rc_strategy rc" "rc_started rc1"
    "sweepRepairInterval rc1 \<noteq> None \<longleftrightarrow> shouldUseSdsR rc \<or> sweepRepairInterval rc \<noteq> None"
    unfolding rc1_def by blast+
  from loops_kept[OF one(1) kept_run[OF assms(2)]] have two: "loops ?n rc2" "sweeps_same rc1 rc2"
    unfolding rc2_def by blast+
  have "rc_started rc2" using two(2) one(3) by (simp add: sweeps_same_def)
  from loops_stop[OF two(1) this, of e2] two(2) one(2,4) show ?thesis
    unfolding session_def prod.case rc1_def[symmetric] rc2_def[symmetric] by (simp add: sweeps_same_def)
qed

lemma sessions_stopped:
  assumes "stopped n rc" and "list_all (\<lambda>(e1, ops, e2). list_all (\<lambda>(env, op). activity op) ops) sessions"
  shows "stopped (n + (if \<not> shouldUseSdsR rc then 0 else if sweepRepairInterval rc \<noteq> None then length sessions
      else length sessions - 1)) (fold session sessions rc)"
  using assms
proof (induction sessions arbitrary: n rc)
  case (Cons s sessions)
  obtain e1 ops e2 where s: "s = (e1, ops, e2)" by (cases s)
  let ?rc = "session (e1, ops, e2) rc"
  from session_stopped[OF Cons.prems(1), of ops e1 e2] Cons.prems(2) s have
    one: "stopped (n + (if shouldUseSdsR rc \<and> sweepRepairInterval rc \<noteq> None then 1 else 0)) ?rc"
      "rc_strategy ?rc = rc_strategy rc"
      "sweepRepairInterval ?rc \<noteq> None \<longleftrightarrow> shouldUseSdsR rc \<or> sweepRepairInterval rc \<noteq> None" by simp_all
  from one(2) have sdsr: "shouldUseSdsR ?rc = shouldUseSdsR rc" by (simp add: shouldUseSdsR_def)
  from Cons.IH[OF one(1)] Cons.prems(2) s one(3) sdsr show ?case by (auto split: if_splits)
qed simp

lemma rc_new_stopped:
  assumes "rc_new node c strategy opts = Inr rc"
  shows "stopped 0 rc \<and> rc_strategy rc = strategy \<and> sweepRepairInterval rc = None"
proof -
  obtain rt where rt: "random_timeout_new (or_default DEFAULT_SYNC_MIN_INTERVAL_MS (ro_syncMinIntervalMs opts)) 2 = Inr rt"
    using assms by (auto simp: rc_new_def split: if_splits sum.splits)
  have r: "rt_timeout rt = None" "0 \<le> maxIntervalMs rt"
    using rt by (auto simp: random_timeout_new_def split: if_splits)
  have fields: "rc_timers rc = no_timers" "syncRandomTimeout rc = rt" "sweepInBufInterval rc = None"
    "sweepRepairInterval rc = None" "processTaskTimeout rc = None" "\<not> rc_started rc" "\<not> rc_listening rc"
    "rc_strategy rc = strategy"
    "retryManager rc = None \<or> (\<exists>rm. retryManager rc = Some rm \<and> timeouts rm = [])"
    "missingMessageRetriever rc = None \<or> (\<exists>f. missingMessageRetriever rc = Some (retriever_new f))"
    using assms rt by (auto simp: rc_new_def Let_def retry_new_def split: if_splits sum.splits)
  have "timers_inv None rc"
    using fields(1,2,5,9,10) r
    by (auto simp: timers_inv_def rt_inv_def retriever_part_def retry_part_def retriever_inv_def retriever_new_def
        no_timers_def timers_ok_def owns_def payloads_ok_def registered_live_def retry_inv_def settle_def handle_of_def)
  with fields show ?thesis
    by (simp add: stopped_def loops_def sweepers_def repairers_def no_timers_def)
qed

lemma rc_create_stopped:
  assumes "rc_create env node cid sid opts = Inr rc" and "ro_autoStart opts = Some False"
  shows "stopped 0 rc \<and> rc_strategy rc = or_default Both (ro_retrievalStrategy opts) \<and> sweepRepairInterval rc = None"
  using assms rc_new_stopped by (auto simp: rc_create_def Let_def or_default_def split: sum.splits option.splits)

section \<open>Properties\<close>

text \<open>After any number of sessions (a start, any sends, incoming messages, queries and firing timers, and
  a stop) of a channel, stopped is not silent: with a strategy that uses peer repair every session but
  the first leaves one more sweep timer of the incoming buffer behind, which no later stop clears and
  which keeps sweeping the stopped channel; all other timers are gone, and with the other strategies
  there is none.\<close>

theorem stop_leaves_sweep_timers:
  assumes "rc_create env node cid sid opts = Inr rc" and "ro_autoStart opts = Some False"
    and "list_all (\<lambda>(e1, ops, e2). list_all (\<lambda>(env, op). activity op) ops) sessions"
  shows "let rc' = fold session sessions rc; live' = live (rc_timers rc') in
     (\<forall>h k. live' h = Some k \<longrightarrow> k = SweepIncomingTimer)
     \<and> card {h. live' h \<noteq> None}
       = (if strategy_uses_sdsr (or_default Both (ro_retrievalStrategy opts)) then length sessions - 1 else 0)
     \<and> (\<forall>h e. live' h \<noteq> None \<longrightarrow>
          rc_channel (fst (rc_fire e h rc')) = fst (sweepIncomingBuffer (re_host e) (re_clock e 0) (rc_channel rc')))"
proof -
  let ?rc = "fold session sessions rc"
  let ?n = "if strategy_uses_sdsr (or_default Both (ro_retrievalStrategy opts)) then length sessions - 1 else 0"
  from rc_create_stopped[OF assms(1,2)] have new: "stopped 0 rc" "sweepRepairInterval rc = None"
    "shouldUseSdsR rc = strategy_uses_sdsr (or_default Both (ro_retrievalStrategy opts))"
    by (simp_all add: shouldUseSdsR_def)
  from sessions_stopped[OF new(1) assms(3)] new(2,3) have s: "stopped ?n ?rc" by (simp split: if_splits)
  have live: "live (rc_timers ?rc) h = Some k \<Longrightarrow> k = SweepIncomingTimer" for h k
    using s by (simp add: stopped_def)
  then have "{h. live (rc_timers ?rc) h \<noteq> None} = sweepers ?rc" by (fastforce simp: sweepers_def)
  moreover have "card (sweepers rc') = n" if "stopped n rc'" for n rc' using that by (auto simp: stopped_def loops_def)
  ultimately have "card {h. live (rc_timers ?rc) h \<noteq> None} = ?n" using s by (simp only:)
  moreover have "rc_channel (fst (rc_fire e h ?rc)) = fst (sweepIncomingBuffer (re_host e) (re_clock e 0) (rc_channel ?rc))"
    if l: "live (rc_timers ?rc) h \<noteq> None" for h e
  proof -
    have "live (rc_timers ?rc) h = Some SweepIncomingTimer" using l live by auto
    then show ?thesis by (simp add: rc_fire_def sweep_incoming_def Let_def)
  qed
  ultimately show ?thesis unfolding Let_def using live by blast
qed

theorem stop_leaves_sweep_timers_witness:
  "\<exists>rc. rc_create sample_env sample_node ''c'' ''alice'' (sample_options False) = Inr rc
     \<and> card {h. live (rc_timers (fold session (replicate 3 (sample_env, [(sample_env, RcSend [1])], sample_env)) rc)) h \<noteq> None} = 2"
proof -
  obtain rc where rc: "rc_create sample_env sample_node ''c'' ''alice'' (sample_options False) = Inr rc"
    using rc_create_sample by blast
  have "ro_autoStart (sample_options False) = Some False" "ro_retrievalStrategy (sample_options False) = None"
    by (simp_all add: sample_options_def)
  note opts = this
  have "list_all (\<lambda>(e1, ops, e2). list_all (\<lambda>(env, op). activity op) ops)
      (replicate 3 (sample_env, [(sample_env, RcSend [1])], sample_env))"
    by (simp add: numeral_3_eq_3)
  from stop_leaves_sweep_timers[OF rc opts(1) this] have
    "card {h. live (rc_timers (fold session (replicate 3 (sample_env, [(sample_env, RcSend [1])], sample_env)) rc)) h \<noteq> None}
      = (if strategy_uses_sdsr (or_default Both (ro_retrievalStrategy (sample_options False))) then
           length (replicate 3 (sample_env, [(sample_env, RcSend [1])], sample_env)) - 1 else 0)"
    unfolding Let_def by blast
  then have "card {h. live (rc_timers (fold session (replicate 3 (sample_env, [(sample_env, RcSend [1])], sample_env)) rc)) h \<noteq> None} = 2"
    unfolding opts length_replicate by (simp add: or_default_def strategy_uses_sdsr_def)
  with rc show ?thesis by blast
qed

end
