(* ===== verification/Reliable_Events.thy ===== *)
theory Reliable_Events
  imports Reliable_Timers
begin

text \<open>
  What a reliable channel tells its client: the events of a send for every answer of the node, of the
  messages that arrive, and of acknowledgements, which end the retries.
\<close>

section \<open>Retries\<close>

definition rc_retrying :: "reliable_channel \<Rightarrow> string set" where
  "rc_retrying rc = {i. \<exists>h p n. live (rc_timers rc) h = Some (RetryTimer i p n)}"

lemma retrying_same: "same_kinds is_retry (rc_timers rc) (rc_timers rc') \<Longrightarrow> rc_retrying rc' = rc_retrying rc"
  unfolding rc_retrying_def same_kinds_def by (metis is_retry.simps(1))

lemma retrying_fields [simp]:
  "rc_retrying (rc_emit e rc) = rc_retrying rc" "rc_retrying (with_status f rc) = rc_retrying rc"
  "rc_retrying (rc\<lparr>rc_channel := c\<rparr>) = rc_retrying rc"
  "rc_retrying (rc\<lparr>rc_channel := c, rc_events := es\<rparr>) = rc_retrying rc"
  by (simp_all add: rc_retrying_def rc_emit_def with_status_def)

lemma retrying_note [simp]: "rc_retrying (note_missing e rc) = rc_retrying rc"
  by (simp add: note_missing_def with_retriever_def rc_retrying_def split: option.split)

lemma retrying_restart [simp]:
  assumes "timers_inv w rc"
  shows "rc_retrying (restartSync random pending multiplier rc) = rc_retrying rc"
proof -
  have "rt_inv (syncRandomTimeout rc, rc_timers rc)" using assms by (simp add: timers_inv_def)
  have "is_retry k \<Longrightarrow> \<not> is_sync k" for k :: "bytes timer_kind" by (cases k) simp_all
  with same_mono[OF rt_restart_same[OF \<open>rt_inv _\<close>]]
  have "same_kinds is_retry (rc_timers rc) (snd (rt_restart random m (syncRandomTimeout rc, rc_timers rc)))" for m
    by fastforce
  moreover have "rc_timers (with_sync f rc) = snd (f (syncRandomTimeout rc, rc_timers rc))" for f
    by (simp add: with_sync_def split: prod.split)
  ultimately show ?thesis by (intro retrying_same) (simp add: restartSync_def Let_def)
qed

lemma retrying_stop:
  assumes "timers_inv None rc"
  shows "rc_retrying (with_retry (stopRetries i) rc) = rc_retrying rc - {i}"
proof (cases "retryManager rc")
  case None
  then have "owns is_retry None (live (rc_timers rc))" using assms by (simp add: timers_inv_def retry_part_def)
  then have "live (rc_timers rc) h \<noteq> Some (RetryTimer j p n)" for h j p n
    unfolding owns_None by (metis is_retry.simps(1))
  then have "rc_retrying rc = {}" by (simp add: rc_retrying_def)
  with None show ?thesis by (simp add: with_retry_def)
next
  case (Some rm)
  then have "retry_inv (rm, rc_timers rc)" using assms by (simp add: timers_inv_def retry_part_def settle_def)
  from stopRetries_retrying[OF this, of i] Some show ?thesis
    by (cases "stopRetries i (rm, rc_timers rc)") (simp add: with_retry_def rc_retrying_def retrying_def)
qed

text \<open>The ids that events acknowledge.\<close>

definition acked :: "channel_event list \<Rightarrow> string set" where
  "acked es = {mid. OutMessageAcknowledged mid \<in> set es \<and> mid \<noteq> ''''}"

lemma acked_simps [simp]:
  "acked [] = {}" "acked (es @ es') = acked es \<union> acked es'"
  by (auto simp: acked_def)

lemma kept_inv: "kept w rc rc' \<Longrightarrow> timers_inv w rc \<Longrightarrow> timers_inv w rc'"
  by (simp add: kept_def)

lemma listen_retrying:
  assumes "timers_inv None rc"
  shows "rc_retrying (listen host random pending e rc) = rc_retrying rc - acked [e]"
proof -
  have emit: "timers_inv None (rc_emit ev rc)" and status: "timers_inv None (with_status f rc)" for ev f
    using kept_inv[OF kept_emit assms] kept_inv[OF kept_status assms] by auto
  have "rc_retrying (fold note_missing es rc') = rc_retrying rc'" for es rc' by (rule fold_keep) simp
  then show ?thesis
    using retrying_restart[OF emit] retrying_restart[OF status] retrying_restart[OF assms] retrying_stop[OF emit]
    by (cases e) (auto simp: acked_def Let_def)
qed

lemma fold_listen_retrying:
  assumes "timers_inv None rc"
  shows "rc_retrying (fold (listen host random pending) es rc) = rc_retrying rc - acked es"
  using assms
proof (induction es arbitrary: rc)
  case (Cons e es)
  have "timers_inv None (listen host random pending e rc)" using kept_inv[OF kept_listen Cons.prems] .
  from Cons.IH[OF this] listen_retrying[OF Cons.prems] show ?case
    using acked_simps(2)[of "[e]" es] by auto
qed simp

lemma rc_emit_events [simp]: "rc_events (rc_emit e rc) = rc_events rc @ [e]"
  by (simp add: rc_emit_def)

lemma events_simps [simp]:
  "rc_events (with_sync f rc) = rc_events rc" "rc_events (with_retriever g rc) = rc_events rc"
  "rc_events (with_retry k rc) = rc_events rc" "rc_events (with_status m rc) = rc_events rc"
  "rc_events (note_missing e rc) = rc_events rc" "rc_events (restartSync random pending q rc) = rc_events rc"
  "rc_events (queueProcessTasks rc) = rc_events rc"
  by (simp_all add: with_sync_def with_retriever_def with_retry_def with_status_def note_missing_def
      restartSync_def queueProcessTasks_def Let_def split: option.split prod.split)

definition told :: "host \<Rightarrow> channel_event \<Rightarrow> rc_event list" where
  "told host e = (case e of
       OutMessageSent m \<Rightarrow> if isContentMessage m then [MessageSent (getMessageId host (the (content m)))] else []
     | OutMessageAcknowledged mid \<Rightarrow> if mid \<noteq> '''' then [MessageAcknowledged mid] else []
     | OutMessagePossiblyAcknowledged mid n \<Rightarrow> [MessagePossiblyAcknowledged mid n]
     | _ \<Rightarrow> [])"

lemma listen_events: "rc_events (listen host random pending e rc) = rc_events rc @ told host e"
proof -
  have "rc_events (fold note_missing es rc') = rc_events rc'" for es rc' by (rule fold_keep) simp
  then show ?thesis by (cases e) (simp_all add: told_def Let_def)
qed

lemma fold_listen_events:
  "rc_events (fold (listen host random pending) es rc) = rc_events rc @ concat (map (told host) es)"
  by (induction es arbitrary: rc) (simp_all add: listen_events)

lemma dispatch_events:
  "rc_events (dispatch host random pending es rc) = rc_events rc @ (if rc_listening rc then concat (map (told host) es) else [])"
  by (simp add: dispatch_def fold_listen_events)

lemma dispatch_retrying:
  "timers_inv None rc \<Longrightarrow>
    rc_retrying (dispatch host random pending es rc) = rc_retrying rc - (if rc_listening rc then acked es else {})"
  by (simp add: dispatch_def fold_listen_retrying)

section \<open>Tasks\<close>

lemma task_retrying:
  assumes "timers_inv None rc"
  shows "rc_retrying (rc_task env k item rc) = rc_retrying rc -
    (if rc_listening rc then acked (new_events (rc_channel rc) (rc_channel (rc_task env k item rc))) else {})"
proof -
  have "timers_inv None (rc\<lparr>rc_channel := c, rc_events := es\<rparr>)" for c es
    using kept_inv[OF kept_fields(5) assms] .
  from dispatch_retrying[OF this] show ?thesis by (simp add: rc_task_def Let_def)
qed

lemma kept_same: "kept None rc rc' \<Longrightarrow> timers_inv None rc \<Longrightarrow> sweeps_same rc rc'"
  by (simp add: kept_def)

lemma new_events_trans:
  "(\<exists>es. emitted b = emitted a @ es) \<Longrightarrow> (\<exists>es. emitted c = emitted b @ es) \<Longrightarrow>
    new_events a c = new_events a b @ new_events b c"
  by (auto simp: new_events_def)

text \<open>The channel's events of a whole queue, with what they stop and what the client is told of them.\<close>

lemma process_retrying:
  assumes "timers_inv None rc" and "rc_listening rc"
  shows "rc_retrying (rc_processTasks env k rc)
      = rc_retrying rc - acked (new_events (rc_channel rc) (rc_channel (rc_processTasks env k rc)))
    \<and> (\<exists>es. emitted (rc_channel (rc_processTasks env k rc)) = emitted (rc_channel rc) @ es)
    \<and> (\<forall>e\<in>set (new_events (rc_channel rc) (rc_channel (rc_processTasks env k rc))).
         set (told (re_host env) e) \<subseteq> set (rc_events (rc_processTasks env k rc)))
    \<and> (\<exists>es. rc_events (rc_processTasks env k rc) = rc_events rc @ es)"
  using assms
proof (induction env k rc rule: rc_processTasks.induct)
  case (1 env k rc)
  show ?case
  proof (cases "tasks (rc_channel rc)")
    case Nil
    then show ?thesis by (simp add: rc_processTasks.simps new_events_def)
  next
    case (Cons item rest)
    let ?rc = "rc\<lparr>rc_channel := (rc_channel rc)\<lparr>tasks := rest\<rparr>\<rparr>"
    let ?t = "rc_task env k item ?rc"
    have inv: "timers_inv None ?rc" using kept_inv[OF kept_fields(1) "1.prems"(1)] .
    then have t: "timers_inv None ?t" "rc_listening ?t"
      using kept_inv[OF kept_task inv] kept_same[OF kept_task inv] "1.prems"(2) by (simp_all add: sweeps_same_def)
    have ext: "\<exists>es. emitted (rc_channel ?t) = emitted (rc_channel ?rc) @ es"
      using executeTask_extends[of "rc_channel ?rc"] by (simp add: extends_def)
    note IH = "1.IH"[OF Cons t]
    have run: "rc_processTasks env k rc = rc_processTasks env (Suc k) ?t"
      by (subst rc_processTasks.simps) (simp add: Cons)
    have new: "new_events (rc_channel rc) (rc_channel (rc_processTasks env (Suc k) ?t))
        = new_events (rc_channel ?rc) (rc_channel ?t) @ new_events (rc_channel ?t) (rc_channel (rc_processTasks env (Suc k) ?t))"
    proof -
      have "\<exists>es. emitted (rc_channel (rc_processTasks env (Suc k) ?t)) = emitted (rc_channel ?t) @ es" using IH by blast
      from new_events_trans[OF ext this] show ?thesis by (simp add: new_events_def)
    qed
    have ev: "rc_events ?t = rc_events rc @ task_events env k (rc_channel ?rc) item
        @ concat (map (told (re_host env)) (new_events (rc_channel ?rc) (rc_channel ?t)))"
      using "1.prems"(2) by (simp add: rc_task_def Let_def dispatch_events)
    have ret: "rc_retrying ?t = rc_retrying rc - acked (new_events (rc_channel ?rc) (rc_channel ?t))"
      using task_retrying[OF inv, of env k item] "1.prems"(2) by simp
    from IH ret have "rc_retrying (rc_processTasks env (Suc k) ?t)
        = rc_retrying rc - acked (new_events (rc_channel rc) (rc_channel (rc_processTasks env (Suc k) ?t)))"
      unfolding new by auto
    moreover have "set (told (re_host env) e) \<subseteq> set (rc_events (rc_processTasks env (Suc k) ?t))"
      if "e \<in> set (new_events (rc_channel rc) (rc_channel (rc_processTasks env (Suc k) ?t)))" for e
    proof -
      let ?a = "new_events (rc_channel ?rc) (rc_channel ?t)"
        and ?b = "new_events (rc_channel ?t) (rc_channel (rc_processTasks env (Suc k) ?t))"
      obtain es where es: "rc_events (rc_processTasks env (Suc k) ?t) = rc_events ?t @ es" using IH by blast
      from that have "e \<in> set ?a \<or> e \<in> set ?b" unfolding new by simp
      then show ?thesis
      proof
        assume "e \<in> set ?a"
        then have "set (told (re_host env) e) \<subseteq> set (rc_events ?t)" unfolding ev by auto
        then show ?thesis unfolding es by auto
      qed (use IH in blast)
    qed
    moreover have "\<exists>es. emitted (rc_channel (rc_processTasks env (Suc k) ?t)) = emitted (rc_channel rc) @ es"
      "\<exists>es. rc_events (rc_processTasks env (Suc k) ?t) = rc_events rc @ es"
      using IH ev ext by auto
    ultimately show ?thesis unfolding run by blast
  qed
qed

section \<open>Properties\<close>


lemma sync_acknowledges:
  assumes "outgoingBuffer c = [x]" and "ch_channelId c = ''c''" and "ch_senderId c = ''alice''" and "emitted c = []"
  shows "OutMessageAcknowledged (messageId x) \<in> set (emitted (executeTask host now later c
    (Receive (SyncMessage ''s'' ''c'' ''bob''
      [\<lparr>he_messageId = messageId x, he_retrievalHint = None, he_senderId = None\<rparr>] 2000 None []))))"
proof -
  let ?m = "SyncMessage ''s'' ''c'' ''bob'' [\<lparr>he_messageId = messageId x, he_retrievalHint = None, he_senderId = None\<rparr>] 2000 None []"
  have m: "isSyncMessage ?m" "\<not> isContentMessage ?m" "\<not> isEphemeralMessage ?m"
    by (simp_all add: SyncMessage_def message_tests)
  let ?c1 = "safeSendEvent c (InSyncReceived ?m)"
  obtain r where r: "with_repair (\<lambda>rm. returns (markMessageReceived rm (messageId ?m)) ()) ?c1 = (?c1\<lparr>repairManager := r\<rparr>, Inr ())"
  proof (cases "repairManager ?c1")
    case None
    then have "?c1\<lparr>repairManager := None\<rparr> = ?c1" by (intro channel.equality) simp_all
    with that[of None] None show ?thesis by (simp add: with_repair_def returns_def)
  qed (use that in \<open>simp add: with_repair_def returns_def\<close>)
  let ?c2 = "?c1\<lparr>repairManager := r\<rparr>"
  let ?c4 = "ack_by_history (causalHistory ?m) ?c2"
  have "OutMessageAcknowledged (messageId x) \<in> set (emitted ?c4)"
    using assms(1) by (simp add: SyncMessage_def safeSendEvent_def)
  moreover have "push_incoming host now c ?m = await_or_deliver host now ?c4 ?m"
    using m assms(2,3) r
    by (simp add: push_incoming_def is_duplicate_def receive_repair_requests_def reviewAckStatus_def)
      (simp add: SyncMessage_def Let_def)
  moreover have "extends ?c4 (fst (await_or_deliver host now ?c4 ?m))" by (rule await_or_deliver_extends)
  ultimately have "OutMessageAcknowledged (messageId x) \<in> set (emitted (fst (push_incoming host now c ?m)))"
    by (auto simp: extends_def)
  then show ?thesis
    by (cases "push_incoming host now c ?m"; cases "snd (push_incoming host now c ?m)")
      (auto simp: executeTask_def run_handler_def safeSendEvent_def)
qed

lemma listening_channel:
  "\<exists>rc rm. rc_channel rc = c \<and> rc_listening rc \<and> rc_started rc \<and> timers_inv None rc \<and> rc_events rc = []
     \<and> retryManager rc = Some rm \<and> 0 < maxRetryNumber rm"
proof -
  obtain rc where rc: "rc_new sample_node c Both (sample_options True) = Inr rc" using rc_new_sample by blast
  then have "timers_inv None rc" using rc_new_stopped by (auto simp: stopped_def loops_def)
  then have "timers_inv None (rc\<lparr>rc_started := True, rc_listening := True\<rparr>)" by (simp add: timers_inv_def)
  moreover have "rc_channel rc = c" "rc_events rc = []" "\<exists>rm. retryManager rc = Some rm \<and> 0 < maxRetryNumber rm"
    using rc by (auto simp: rc_new_def Let_def retry_new_def sample_node_def sample_options_def or_default_def
        random_timeout_new_def DEFAULT_RETRY_INTERVAL_MS_def DEFAULT_MAX_RETRY_ATTEMPTS_def DEFAULT_SYNC_MIN_INTERVAL_MS_def)
  ultimately show ?thesis by (intro exI[of _ "rc\<lparr>rc_started := True, rc_listening := True\<rparr>"]) auto
qed


section \<open>Sending\<close>

lemma finish_events:
  assumes "push_outgoing_finish host now c m success hint = (c', Inr ())" and "isContentMessage m"
  shows "emitted c' = emitted c @ (if success then [OutMessageSent (m\<lparr>retrievalHint := hint\<rparr>)] else [])
    \<and> map messageId (outgoingBuffer c') = map messageId (outgoingBuffer c)"
  using assms
  by (auto simp: push_outgoing_finish_def Let_def set_hint_def safeSendEvent_def comp_def if_distrib
      split: if_splits prod.splits sum.splits)

text \<open>What the callback does when the message can be encoded and the node answers.\<close>

lemma wrap_callback_answered:
  assumes "\<forall>bs. \<exists>pm. re_toProtoObj env bs = Inr (Some pm)" and "\<forall>bs. re_send env bs = Inr failures"
  shows "\<exists>hint. wrap_callback env payload m =
    (SendingMessage (getMessageId (re_host env) payload) #
       (case find (\<lambda>e. e \<in> set IRRECOVERABLE_SENDING_ERRORS) failures of
          Some e \<Rightarrow> [SendingMessageIrrecoverableError (getMessageId (re_host env) payload) (LightPush e)]
        | None \<Rightarrow> []),
     Inr (find (\<lambda>e. e \<in> set IRRECOVERABLE_SENDING_ERRORS) failures = None, Some hint))"
proof -
  obtain pm where "re_toProtoObj env (Message_encode (re_encode env) m) = Inr (Some pm)" using assms(1) by blast
  then show ?thesis using assms(2) messageHash_eq
    by (simp add: wrap_callback_def Let_def split: option.split)
qed

lemma send_task_channel:
  assumes "channel_inv (js_host sha256 collate) c" and "payload \<noteq> []"
    and "getMessageId (js_host sha256 collate) payload \<notin> messageId ` set (outgoingBuffer c)"
    and "\<And>m. \<exists>hint. cb m = Inr (success, hint)"
  shows "\<exists>c1 m m2. push_outgoing_begin (js_host sha256 collate) now c payload = (c1, Inr m)
    \<and> (let c2 = executeTask (js_host sha256 collate) now later c (Send payload (Some cb)) in
       emitted c2 = emitted c @ (if success then [OutMessageSent m2] else [])
       \<and> isContentMessage m2 \<and> content m2 = Some payload
       \<and> getMessageId (js_host sha256 collate) payload \<in> messageId ` set (outgoingBuffer c2))"
proof -
  let ?host = "js_host sha256 collate"
  from send_new[OF assms(2,3), of now] obtain c1 m where
    m: "push_outgoing_begin ?host now c payload = (c1, Inr m)" "outgoingBuffer c1 = outgoingBuffer c @ [m]"
      "emitted c1 = emitted c" "isContentMessage m" "messageId m = getMessageId ?host payload"
      "content m = Some payload" by blast
  obtain hint where cb: "cb m = Inr (success, hint)" using assms(4) by blast
  have inv: "channel_inv ?host c1" "not_after (lamport c1) m"
    using push_outgoing_begin_inv[OF assms(1), of now payload] m(1) by auto
  obtain c2 where fin: "push_outgoing_finish ?host later c1 m success hint = (c2, Inr ())"
    using js.push_outgoing_finish_inv[OF inv(1) m(4) inv(2)] by blast
  have "executeTask ?host now later c (Send payload (Some cb)) = c2"
    by (simp add: executeTask_def run_handler_def push_outgoing_def m(1) cb fin)
  moreover have "getMessageId ?host payload \<in> messageId ` set (outgoingBuffer c2)"
  proof -
    have "messageId m \<in> set (map messageId (outgoingBuffer c1))" using m(2) by simp
    also have "\<dots> = set (map messageId (outgoingBuffer c2))" using finish_events[OF fin m(4)] by simp
    finally show ?thesis using m(5) by simp
  qed
  moreover have "isContentMessage (m\<lparr>retrievalHint := hint\<rparr>)" "content (m\<lparr>retrievalHint := hint\<rparr>) = Some payload"
    using m(4,6) by (simp_all add: isContentMessage_def)
  ultimately show ?thesis using finish_events[OF fin m(4)] m(1,3)
    by (intro exI[of _ c1] exI[of _ m] exI[of _ "m\<lparr>retrievalHint := hint\<rparr>"]) (simp add: Let_def)
qed

lemma start_retrying:
  assumes "timers_inv None rc" and "retryManager rc = Some rm" and "0 < maxRetryNumber rm"
  shows "i \<in> rc_retrying (with_retry (startRetries i p) rc)"
proof -
  have "retry_inv (rm, rc_timers rc)" using assms(1,2) by (simp add: timers_inv_def retry_part_def settle_def)
  from Retry.retry_inv(2)[OF this, of i p 0] assms(2,3) show ?thesis
    by (cases "startRetries i p (rm, rc_timers rc)")
      (auto simp: with_retry_def rc_retrying_def retrying_def startRetries_def)
qed

text \<open>What the client learns of a send of a new payload, for every answer of the node: that it is being
  sent, then either that it failed irrecoverably, when one of the failures is one of four, or that it was
  sent. Any other list of failures, even of every peer, counts as sent. On a channel that is not started
  the client is told of an error first, and yet the message is sent, without the news of it. In all cases
  the message stays in the outgoing buffer and its retry timer is armed, after an irrecoverable error too.\<close>

theorem send_reports:
  assumes "re_host env = js_host sha256 collate" and "channel_inv (re_host env) (rc_channel rc)"
    and "timers_inv None rc" and "tasks (rc_channel rc) = []" and "rc_listening rc = rc_started rc"
    and "payload \<noteq> []" and "getMessageId (re_host env) payload \<notin> messageId ` set (outgoingBuffer (rc_channel rc))"
    and "\<forall>bs. \<exists>pm. re_toProtoObj env bs = Inr (Some pm)" and "\<forall>bs. re_send env bs = Inr failures"
    and "retryManager rc = Some rm" and "0 < maxRetryNumber rm"
  shows "let mid = getMessageId (re_host env) payload; rc' = fst (rc_send env payload rc) in
     snd (rc_send env payload rc) = Inr mid
     \<and> rc_events rc' = rc_events rc
         @ (if rc_started rc then [] else [SendingMessageIrrecoverableError mid NotStarted])
         @ [SendingMessage mid]
         @ (case find (\<lambda>e. e \<in> set IRRECOVERABLE_SENDING_ERRORS) failures of
              Some e \<Rightarrow> [SendingMessageIrrecoverableError mid (LightPush e)]
            | None \<Rightarrow> if rc_started rc then [MessageSent mid] else [])
     \<and> mid \<in> messageId ` set (outgoingBuffer (rc_channel rc'))
     \<and> mid \<in> rc_retrying rc'"
proof -
  let ?mid = "getMessageId (re_host env) payload" and ?host = "re_host env"
  let ?bad = "find (\<lambda>e. e \<in> set IRRECOVERABLE_SENDING_ERRORS) failures"
  define rc1 where "rc1 = (if rc_started rc then rc else rc_emit (SendingMessageIrrecoverableError ?mid NotStarted) rc)"
  define rc2 where "rc2 = with_retry (startRetries ?mid payload) rc1"
  define cb where "cb = (\<lambda>m. snd (wrap_callback env payload m))"
  let ?c = "rc_channel rc" and ?item = "Send payload (Some cb)"
  define rc3 where "rc3 = rc2\<lparr>rc_channel := ?c\<rparr>"
  note wrap = wrap_callback_answered[OF assms(8,9), of payload]
  have cb: "\<exists>hint. cb m = Inr (?bad = None, hint)" for m using wrap[of m] by (auto simp: cb_def)
  have inv1: "timers_inv None rc1" using assms(3) kept_inv[OF kept_emit] by (simp add: rc1_def)
  have "kept None rc1 rc2" unfolding rc2_def by (rule kept_startRetries[OF assms(6)])
  then have inv2: "timers_inv None rc2" "rc_listening rc2 = rc_started rc"
    using inv1 assms(5) by (auto simp: kept_def sweeps_same_def rc1_def rc_emit_def)
  have "rc_channel rc2 = ?c" "rc_events rc2 = rc_events rc1" by (simp_all add: rc2_def rc1_def)
  note rc2 = this
  have "retryManager rc1 = Some rm" using assms(10) by (simp add: rc1_def rc_emit_def)
  from start_retrying[OF inv1 this assms(11)] have armed: "?mid \<in> rc_retrying rc2" by (simp add: rc2_def)
  have "rc_push env payload rc2 = (rc2\<lparr>rc_channel := ?c\<lparr>tasks := [?item]\<rparr>\<rparr>, Inr ())"
    using assms(4,6) rc2 by (simp add: rc_push_def pushOutgoingMessage_def returns_def cb_def)
  moreover have empty: "?c\<lparr>tasks := []\<rparr> = ?c" using assms(4) by (intro channel.equality) simp_all
  moreover have "tasks (executeTask h a b ?c i) = []" for h a b i
    using executeTask_extends[of ?c] assms(4) by (simp add: extends_def)
  ultimately have run: "wrapAndSend env payload rc2 = returns (rc_task env 0 ?item rc3) ()"
    by (simp add: wrapAndSend_def rc_processTasks.simps rc3_def)
  then have send: "rc_send env payload rc = (rc_task env 0 ?item rc3, Inr ?mid)"
    by (simp add: rc_send_def Let_def rc1_def[symmetric] rc2_def[symmetric] returns_def)
  let ?c2 = "executeTask ?host (re_clock env 0) (re_clock env (Suc 0)) ?c ?item"
  from send_task_channel[of sha256 collate ?c payload cb "?bad = None" "re_clock env 0" "re_clock env (Suc 0)"]
    assms(1,2,6,7) cb obtain c1 m m2 where
    start: "push_outgoing_begin ?host (re_clock env 0) ?c payload = (c1, Inr m)" and
    c2: "emitted ?c2 = emitted ?c @ (if ?bad = None then [OutMessageSent m2] else [])" "isContentMessage m2"
      "content m2 = Some payload" "?mid \<in> messageId ` set (outgoingBuffer ?c2)"
    by (auto simp: Let_def)
  have new: "new_events ?c ?c2 = (if ?bad = None then [OutMessageSent m2] else [])" using c2(1) by (simp add: new_events_def)
  have ch: "rc_channel rc3 = ?c" by (simp add: rc3_def)
  have "task_events env 0 ?c ?item = fst (wrap_callback env payload m)"
    using start by (simp add: task_events_def)
  then have ev: "task_events env 0 ?c ?item = SendingMessage ?mid #
      (case ?bad of Some e \<Rightarrow> [SendingMessageIrrecoverableError ?mid (LightPush e)] | None \<Rightarrow> [])"
    using wrap[of m] by auto
  have events: "rc_events (rc_task env 0 ?item rc3) = rc_events rc1 @ task_events env 0 ?c ?item
      @ (if rc_started rc then concat (map (told ?host) (new_events ?c ?c2)) else [])"
    by (simp add: rc_task_def Let_def dispatch_events ch) (simp add: rc3_def rc2 inv2)
  have "timers_inv None rc3" using kept_inv[OF kept_fields(1) inv2(1)] by (simp add: rc3_def)
  from task_retrying[OF this, of env 0 ?item] new have "rc_retrying (rc_task env 0 ?item rc3) = rc_retrying rc2"
    by (simp add: ch acked_def) (simp add: rc3_def)
  with armed send events ev c2 new show ?thesis
    by (cases ?bad) (simp_all add: Let_def told_def rc1_def ch)
qed

theorem send_reports_witness:
  "\<exists>rc. rc_started rc \<and> re_send sample_env [1] = Inr [NO_PEER_AVAILABLE]
     \<and> rc_events (fst (rc_send sample_env [5] rc))
         = [SendingMessage (getMessageId (re_host sample_env) [5]), MessageSent (getMessageId (re_host sample_env) [5])]
     \<and> getMessageId (re_host sample_env) [5] \<in> rc_retrying (fst (rc_send sample_env [5] rc))"
proof -
  obtain c where c: "channel_inv (re_host sample_env) c" "outgoingBuffer c = []" "tasks c = []"
    by (rule alice)
  obtain rc rm where rc: "rc_channel rc = c" "rc_listening rc" "rc_started rc" "timers_inv None rc" "rc_events rc = []"
    "retryManager rc = Some rm" "0 < maxRetryNumber rm"
    using listening_channel by blast
  have env: "re_host sample_env = js_host (\<lambda>_. replicate 32 7) codeunit_compare"
    "\<forall>bs. \<exists>pm. re_toProtoObj sample_env bs = Inr (Some pm)" "\<forall>bs. re_send sample_env bs = Inr [NO_PEER_AVAILABLE]"
    by (simp_all add: sample_env_def)
  have find: "find (\<lambda>e. e \<in> set IRRECOVERABLE_SENDING_ERRORS) [NO_PEER_AVAILABLE] = None"
    by (simp add: IRRECOVERABLE_SENDING_ERRORS_def)
  have "([5] :: bytes) \<noteq> []" "rc_listening rc = rc_started rc" using rc(2,3) by simp_all
  note * = send_reports[OF env(1) _ rc(4) _ this(2) this(1) _ env(2,3) rc(6,7)]
  have "rc_events (fst (rc_send sample_env [5] rc))
      = [SendingMessage (getMessageId (re_host sample_env) [5]), MessageSent (getMessageId (re_host sample_env) [5])]"
    "getMessageId (re_host sample_env) [5] \<in> rc_retrying (fst (rc_send sample_env [5] rc))"
    using * c rc(1,3,5) unfolding find Let_def by simp_all
  with rc(3) env(3) show ?thesis by blast
qed

section \<open>Receiving\<close>

text \<open>Whether the channel takes a received message, and what it tells the client of it.\<close>

definition taken :: "rc_env \<Rightarrow> string \<Rightarrow> decoded_message \<Rightarrow> message option" where
  "taken env cid msg = (case Message_decode (re_decode env) (dm_payload msg) of
     None \<Rightarrow> None | Some m \<Rightarrow> if channelId m = cid then Some m else None)"

definition announced :: "rc_env \<Rightarrow> string \<Rightarrow> decoded_message \<Rightarrow> rc_event list" where
  "announced env cid msg = (case taken env cid msg of
     None \<Rightarrow> [] | Some m \<Rightarrow> (case content m of Some (b # bs) \<Rightarrow> [MessageReceived (msg\<lparr>dm_payload := b # bs\<rparr>)] | _ \<Rightarrow> []))"

definition received_tasks :: "rc_env \<Rightarrow> string \<Rightarrow> decoded_message \<Rightarrow> task list" where
  "received_tasks env cid msg = (case taken env cid msg of
     None \<Rightarrow> [] | Some m \<Rightarrow> [Receive (m\<lparr>retrievalHint := Some (dm_hash msg)\<rparr>)])"

lemma incoming_step:
  "rc_events (processIncomingMessage env msg rc) = rc_events rc @ announced env (ch_channelId (rc_channel rc)) msg
   \<and> rc_channel (processIncomingMessage env msg rc)
       = (rc_channel rc)\<lparr>tasks := tasks (rc_channel rc) @ received_tasks env (ch_channelId (rc_channel rc)) msg\<rparr>"
proof (cases "taken env (ch_channelId (rc_channel rc)) msg")
  case None
  then have "processIncomingMessage env msg rc = rc"
    by (auto simp: taken_def processIncomingMessage_def split: option.splits if_splits)
  moreover have "(rc_channel rc)\<lparr>tasks := tasks (rc_channel rc)\<rparr> = rc_channel rc" by (intro channel.equality) simp_all
  ultimately show ?thesis using None by (simp add: announced_def received_tasks_def)
next
  case (Some m)
  then have "Message_decode (re_decode env) (dm_payload msg) = Some m" "channelId m = ch_channelId (rc_channel rc)"
    by (auto simp: taken_def split: option.splits if_splits)
  with Some show ?thesis
    by (auto simp: processIncomingMessage_def announced_def received_tasks_def pushIncomingMessage_def Let_def
        split: option.split list.split)
qed

lemma started_simps [simp]: "rc_started (processIncomingMessage env msg rc) = rc_started rc"
  by (auto simp: processIncomingMessage_def queueProcessTasks_def with_retriever_def rc_emit_def Let_def
      split: option.split list.split prod.split)

lemma incoming_queues:
  assumes "rc_started rc" and "processTaskTimeout rc \<noteq> None \<or> taken env (ch_channelId (rc_channel rc)) msg \<noteq> None"
  shows "processTaskTimeout (processIncomingMessage env msg rc) \<noteq> None"
proof -
  have "rc_started r \<Longrightarrow> processTaskTimeout (queueProcessTasks r) \<noteq> None" for r
    by (simp add: queueProcessTasks_def split: prod.split)
  moreover have "rc_started (rc_emit e (with_retriever f (rc\<lparr>rc_channel := c\<rparr>))) = rc_started rc"
    "rc_started (with_retriever f (rc\<lparr>rc_channel := c\<rparr>)) = rc_started rc" for e f c
    by (simp_all add: rc_emit_def with_retriever_def split: option.split prod.split)
  ultimately show ?thesis using assms
    by (auto simp: processIncomingMessage_def taken_def Let_def split: option.split list.split)
qed

text \<open>Every message of the channel with content that the node hands over is announced to the client, in the
  order of arrival and again each time it arrives: before the message channel sees it, without regard to
  duplicates, to the participant's own messages and to missing dependencies. It is queued for the message
  channel with the message hash as its retrieval hint, and a started channel has the timer armed that
  will process the queue.\<close>

theorem incoming_announced_on_arrival:
  "let rc' = processIncomingMessages env msgs rc; cid = ch_channelId (rc_channel rc) in
     rc_events rc' = rc_events rc @ concat (map (announced env cid) msgs)
     \<and> rc_channel rc' = (rc_channel rc)\<lparr>tasks := tasks (rc_channel rc) @ concat (map (received_tasks env cid) msgs)\<rparr>
     \<and> (rc_started rc \<longrightarrow> (\<exists>msg\<in>set msgs. taken env cid msg \<noteq> None) \<longrightarrow> processTaskTimeout rc' \<noteq> None)"
proof -
  have upd: "(rc_channel rc)\<lparr>tasks := tasks (rc_channel rc)\<rparr> = rc_channel rc" for rc :: reliable_channel
    by (intro channel.equality) simp_all
  have "rc_events (processIncomingMessages env msgs rc) = rc_events rc @ concat (map (announced env (ch_channelId (rc_channel rc))) msgs)
     \<and> rc_channel (processIncomingMessages env msgs rc) = (rc_channel rc)\<lparr>tasks := tasks (rc_channel rc)
         @ concat (map (received_tasks env (ch_channelId (rc_channel rc))) msgs)\<rparr>
     \<and> (rc_started rc \<longrightarrow> processTaskTimeout rc \<noteq> None \<or>
         (\<exists>msg\<in>set msgs. taken env (ch_channelId (rc_channel rc)) msg \<noteq> None) \<longrightarrow>
         processTaskTimeout (processIncomingMessages env msgs rc) \<noteq> None)"
    unfolding processIncomingMessages_def
  proof (induction msgs arbitrary: rc)
    case Nil
    show ?case by (simp add: upd)
  next
    case (Cons msg msgs)
    let ?rc = "processIncomingMessage env msg rc"
    have id: "ch_channelId (rc_channel ?rc) = ch_channelId (rc_channel rc)" using incoming_step[of env msg rc] by simp
    show ?case
      using Cons.IH[of ?rc] incoming_step[of env msg rc] incoming_queues[of rc env msg] id by auto
  qed
  then show ?thesis unfolding Let_def by blast
qed

theorem incoming_announced_on_arrival_witness:
  "\<exists>rc msg. rc_started rc \<and> rc_events (processIncomingMessages sample_env [msg, msg] rc)
      = [MessageReceived (msg\<lparr>dm_payload := [1]\<rparr>), MessageReceived (msg\<lparr>dm_payload := [1]\<rparr>)]
     \<and> length (tasks (rc_channel (processIncomingMessages sample_env [msg, msg] rc))) = 2
     \<and> processTaskTimeout (processIncomingMessages sample_env [msg, msg] rc) \<noteq> None"
proof -
  obtain c where c: "channel_inv (re_host sample_env) c" "tasks c = []" "ch_channelId c = ''c''"
    by (rule alice)
  obtain rc :: reliable_channel where rc: "rc_channel rc = c" "rc_started rc" "rc_events rc = []"
    using listening_channel by blast
  define msg :: decoded_message where "msg = \<lparr>dm_payload = [9], dm_hash = [], dm_hashStr = [], dm_version = None, dm_contentTopic = [],
    dm_pubsubTopic = [], dm_timestamp = None, dm_rateLimitProof = None, dm_ephemeral = None, dm_meta = None\<rparr>"
  obtain m where m: "taken sample_env ''c'' msg = Some m" "content m = Some [1]"
    by (simp add: taken_def sample_env_def Message_decode_def stamped_def message_tests)
  with incoming_announced_on_arrival[of sample_env "[msg, msg]" rc] rc c show ?thesis
    by (intro exI[of _ rc] exI[of _ msg]) (auto simp: Let_def announced_def received_tasks_def)
qed

end
