(* ===== verification/Js_Strings.thy ===== *)
theory Js_Strings
  imports Prelude
begin

text \<open>
  The string functions of the JavaScript library that the parsers of topics and records use:
  \<open>String.prototype.split\<close> by one character, \<open>join\<close>, \<open>parseInt\<close> without a radix and the
  conversion of an integer to a string; and \<open>Map\<close>s of lists, filled one element at a time. Numbers
  are integers: a string of digits that names a number above \<open>2 ^ 53\<close> reads as itself, not as
  the nearest double.
\<close>

section \<open>split and join\<close>

fun js_split :: "char \<Rightarrow> string \<Rightarrow> string list" where
  "js_split c [] = [[]]"
| "js_split c (x # xs) =
     (if x = c then [] # js_split c xs
      else (case js_split c xs of [] \<Rightarrow> [[x]] | p # ps \<Rightarrow> (x # p) # ps))"

fun js_join :: "string \<Rightarrow> string list \<Rightarrow> string" where
  "js_join sep [] = []"
| "js_join sep [p] = p"
| "js_join sep (p # q # ps) = p @ sep @ js_join sep (q # ps)"

lemma js_split_not_Nil [simp]: "js_split c s \<noteq> []"
  by (induction s) (auto split: list.splits)

lemma js_join_split [simp]: "js_join [c] (js_split c s) = s"
proof (induction s)
  case (Cons x xs)
  obtain p ps where p: "js_split c xs = p # ps" by (cases "js_split c xs") auto
  with Cons show ?case by (cases ps) auto
qed simp

lemma js_split_parts: "p \<in> set (js_split c s) \<Longrightarrow> c \<notin> set p"
proof (induction s arbitrary: p)
  case (Cons x xs)
  then show ?case by (cases "js_split c xs") (auto split: if_splits)
qed simp

lemma js_split_no_sep: "c \<notin> set p \<Longrightarrow> js_split c p = [p]"
  by (induction p) auto

lemma js_split_append_sep: "c \<notin> set p \<Longrightarrow> js_split c (p @ c # s) = p # js_split c s"
  by (induction p) auto

lemma js_split_join:
  assumes "ps \<noteq> []" and "\<forall>p\<in>set ps. c \<notin> set p"
  shows "js_split c (js_join [c] ps) = ps"
  using assms
proof (induction "[c]" ps rule: js_join.induct)
  case (3 p q ps)
  then show ?case using js_split_append_sep[of c p "js_join [c] (q # ps)"] by simp
qed (simp_all add: js_split_no_sep)

text \<open>A string splits into the given parts exactly when it is their join and none holds the separator.\<close>

lemma js_split_iff:
  "js_split c s = ps \<longleftrightarrow> ps \<noteq> [] \<and> s = js_join [c] ps \<and> (\<forall>p\<in>set ps. c \<notin> set p)"
  using js_split_parts[of _ c s] js_join_split[of c s, symmetric] js_split_not_Nil[of c s] js_split_join[of ps c] by metis

section \<open>parseInt\<close>

definition is_space :: "char \<Rightarrow> bool" where
  "is_space c \<longleftrightarrow> (of_char c :: nat) \<in> {9, 10, 11, 12, 13, 32, 160}"

definition is_hex_digit :: "char \<Rightarrow> bool" where
  "is_hex_digit c \<longleftrightarrow> is_digit c \<or> (of_char c :: nat) \<in> {65..70} \<or> (of_char c :: nat) \<in> {97..102}"

definition hex_digit_value :: "char \<Rightarrow> nat" where
  "hex_digit_value c =
     (if is_digit c then digit_value c
      else if (of_char c :: nat) < 97 then of_char c - 55 else of_char c - 87)"

text \<open>\<^const>\<open>None\<close> is \<open>NaN\<close>.\<close>

definition parseInt :: "string \<Rightarrow> int option" where
  "parseInt s =
     (let s1 = dropWhile is_space s;
          neg = (case s1 of c # _ \<Rightarrow> c = CHR ''-'' | [] \<Rightarrow> False);
          s2 = (case s1 of c # cs \<Rightarrow> (if c = CHR ''-'' \<or> c = CHR ''+'' then cs else s1) | [] \<Rightarrow> []);
          hex = (case s2 of z # x # _ \<Rightarrow> z = CHR ''0'' \<and> (x = CHR ''x'' \<or> x = CHR ''X'') | _ \<Rightarrow> False);
          ds = (if hex then takeWhile is_hex_digit (drop 2 s2) else takeWhile is_digit s2);
          n = (if hex then foldl (\<lambda>n c. 16 * n + hex_digit_value c) 0 ds else read_digits ds)
      in if ds = [] then None else Some (if neg then - int n else int n))"

definition js_show_int :: "int \<Rightarrow> string" where
  "js_show_int i = (if i < 0 then CHR ''-'' # decimal (nat (- i)) else decimal (nat i))"

lemma is_digit_not_special:
  assumes "is_digit c"
  shows "\<not> is_space c" "c \<noteq> CHR ''-''" "c \<noteq> CHR ''+''" "c \<noteq> CHR ''x''" "c \<noteq> CHR ''X''" "c \<noteq> CHR ''/''"
  using assms by (auto simp: is_digit_def is_space_def)

lemma js_show_int_chars: "c \<in> set (js_show_int i) \<Longrightarrow> is_digit c \<or> c = CHR ''-''"
  using decimal_digits by (auto simp: js_show_int_def split: if_splits)

lemma slash_not_in_show_int [simp]: "CHR ''/'' \<notin> set (js_show_int i)"
  using js_show_int_chars[of "CHR ''/''" i] by (auto simp: is_digit_def)

lemma parseInt_digits:
  assumes "ds \<noteq> []" and "\<forall>c\<in>set ds. is_digit c"
  shows "parseInt ds = Some (int (read_digits ds))" "parseInt (CHR ''-'' # ds) = Some (- int (read_digits ds))"
proof -
  obtain c cs where ds: "ds = c # cs" using assms(1) by (cases ds) auto
  with assms(2) have c: "is_digit c" by simp
  note c = c is_digit_not_special[OF c]
  have tw: "takeWhile is_digit ds = ds" using assms(2) by (simp add: takeWhile_eq_all_conv)
  have nx: "\<not> (case ds of z # x # _ \<Rightarrow> z = CHR ''0'' \<and> (x = CHR ''x'' \<or> x = CHR ''X'') | _ \<Rightarrow> False)"
    using assms(2) ds by (cases cs) (auto dest: is_digit_not_special)
  have s2: "(case ds of c # cs \<Rightarrow> (if c = CHR ''-'' \<or> c = CHR ''+'' then cs else ds) | [] \<Rightarrow> []) = ds"
    using c ds by simp
  have dw: "dropWhile is_space ds = ds" and "\<not> (case ds of c # _ \<Rightarrow> c = CHR ''-'' | [] \<Rightarrow> False)"
    using c ds by simp_all
  then show "parseInt ds = Some (int (read_digits ds))"
    unfolding parseInt_def Let_def dw s2 by (simp add: nx tw assms(1))
  have "\<not> is_space (CHR ''-'')" by (simp add: is_space_def)
  then show "parseInt (CHR ''-'' # ds) = Some (- int (read_digits ds))"
    using assms(1) nx by (simp add: parseInt_def Let_def tw)
qed

lemma parseInt_show_int [simp]: "parseInt (js_show_int i) = Some i"
proof (cases "i < 0")
  case True
  then have s: "js_show_int i = CHR ''-'' # decimal (nat (- i))" by (simp add: js_show_int_def)
  show ?thesis unfolding s by (subst parseInt_digits(2)) (use True in \<open>auto simp: decimal_digits\<close>)
next
  case False
  then have s: "js_show_int i = decimal (nat i)" by (simp add: js_show_int_def)
  show ?thesis unfolding s by (subst parseInt_digits(1)) (use False in \<open>auto simp: decimal_digits\<close>)
qed

section \<open>Maps of lists\<close>

text \<open>
  A \<open>Map\<close> from keys to arrays: the code looks the key up, sets an empty array when there is none,
  and pushes onto the array it gets.
\<close>

definition push_group :: "'k \<Rightarrow> 'a \<Rightarrow> ('k \<times> 'a list) list \<Rightarrow> ('k \<times> 'a list) list" where
  "push_group k x m =
     (case map_of m k of
        None \<Rightarrow> AList.update k [x] m
      | Some xs \<Rightarrow> AList.update k (xs @ [x]) m)"

definition group_by :: "('a \<Rightarrow> 'k) \<Rightarrow> 'a list \<Rightarrow> ('k \<times> 'a list) list" where
  "group_by f xs = foldl (\<lambda>m x. push_group (f x) x m) [] xs"

lemma fst_push_group: "map fst (push_group k x m) = js_set_add k (map fst m)"
  by (auto simp: push_group_def js_set_add_def map_of_eq_None_iff update_keys image_iff
      split: option.splits dest!: map_of_SomeD)

lemma map_of_push_group:
  "map_of (push_group k x m) = (map_of m)(k \<mapsto> (case map_of m k of None \<Rightarrow> [x] | Some xs \<Rightarrow> xs @ [x]))"
  by (auto simp: push_group_def update_conv' split: option.splits)

lemma group_by_snoc: "group_by f (xs @ [x]) = push_group (f x) x (group_by f xs)"
  by (simp add: group_by_def)

lemma group_by_Nil [simp]: "group_by f [] = []"
  by (simp add: group_by_def)

text \<open>Each key holds its elements in their order; the keys are those of the elements, each once.\<close>

lemma group_by_lookup:
  "map_of (group_by f xs) k = (if k \<in> f ` set xs then Some (filter (\<lambda>x. f x = k) xs) else None)"
proof (induction xs rule: rev_induct)
  case (snoc x xs)
  have "filter (\<lambda>y. f y = k) xs = []" if "k \<notin> f ` set xs" using that by (auto simp: filter_empty_conv)
  with snoc show ?case by (auto simp: group_by_snoc map_of_push_group)
qed simp

lemma group_by_keys: "set (map fst (group_by f xs)) = f ` set xs" "distinct (map fst (group_by f xs))"
  by (induction xs rule: rev_induct) (auto simp del: set_map map_map simp: group_by_snoc fst_push_group)

section \<open>Truthiness\<close>

text \<open>An absent string and the empty string are both falsy.\<close>

definition truthy :: "string option \<Rightarrow> string option" where
  "truthy s = (case s of Some t \<Rightarrow> if t = [] then None else Some t | None \<Rightarrow> None)"

section \<open>Calls that may throw\<close>

text \<open>What follows a call runs only when it returns.\<close>

definition bindE :: "js_error + 'a \<Rightarrow> ('a \<Rightarrow> js_error + 'b) \<Rightarrow> js_error + 'b" where
  "bindE r f = (case r of Inl e \<Rightarrow> Inl e | Inr x \<Rightarrow> f x)"

lemma bindE_simps [simp]: "bindE (Inl e) f = Inl e" "bindE (Inr x) f = f x"
  by (simp_all add: bindE_def)

lemma bindE_Inr: "bindE r f = Inr y \<longleftrightarrow> (\<exists>x. r = Inr x \<and> f x = Inr y)"
  by (cases r) auto

section \<open>Number\<close>

text \<open>\<open>Number\<close> of a string, read only where it is all digits; of other strings it is taken for not a number.\<close>

definition js_Number :: "string \<Rightarrow> int option" where
  "js_Number s = (if \<forall>c\<in>set s. is_digit c then Some (int (read_digits s)) else None)"

end
