(* ===== verification/Sharding.thy ===== *)
theory Sharding
  imports Js_Strings Bytes Repair_Manager Complex_Main
begin

unbundle bit_operations_syntax

text \<open>
  Topics and shards, \<open>packages/utils/src/common\<close>: the pubsub and content topics and the autosharding
  algorithm (\<open>sharding/topics.ts\<close>), the routing information built from a network configuration
  (\<open>sharding/routing_info.ts\<close>, \<open>sharding/type_guards.ts\<close>), the wire format of relay shards
  (\<open>relay_shard_codec.ts\<close>) and the small collection helpers beside them. The hash
  (\<open>@noble/hashes\<close>) is the parameter \<open>sha256\<close>.
\<close>

section \<open>sharding/topics.ts\<close>

definition formatPubsubTopic :: "int \<Rightarrow> int \<Rightarrow> string" where
  "formatPubsubTopic clusterId shard = ''/waku/2/rs/'' @ js_show_int clusterId @ ''/'' @ js_show_int shard"

definition pubsubTopicToSingleShardInfo :: "string \<Rightarrow> js_error + (int \<times> int)" where
  "pubsubTopicToSingleShardInfo pubsubTopics =
     (let parts = js_split (CHR ''/'') pubsubTopics in
      if length parts \<noteq> 6 \<or> parts ! 1 \<noteq> ''waku'' \<or> parts ! 2 \<noteq> ''2'' \<or> parts ! 3 \<noteq> ''rs''
      then Inl (JsError ''Invalid pubsub topic'')
      else (case (parseInt (parts ! 4), parseInt (parts ! 5)) of
              (Some clusterId, Some shard) \<Rightarrow> Inr (clusterId, shard)
            | _ \<Rightarrow> Inl (JsError ''Invalid clusterId or shard'')))"

record parsed_content_topic =
  generation :: int
  application :: string
  version :: string
  topicName :: string
  encoding :: string

definition content_topic_fields :: "string \<Rightarrow> int \<Rightarrow> string list \<Rightarrow> js_error + parsed_content_topic" where
  "content_topic_fields contentTopic gen flds =
     (if flds ! 0 = [] then Inl (JsError (''Application field cannot be empty: '' @ contentTopic))
      else if flds ! 1 = [] then Inl (JsError (''Version field cannot be empty: '' @ contentTopic))
      else if flds ! 2 = [] then Inl (JsError (''Topic name field cannot be empty: '' @ contentTopic))
      else if flds ! 3 = [] then Inl (JsError (''Encoding field cannot be empty: '' @ contentTopic))
      else Inr \<lparr>generation = gen, application = flds ! 0, version = flds ! 1,
                topicName = flds ! 2, encoding = flds ! 3\<rparr>)"

definition ensureValidContentTopic :: "string \<Rightarrow> js_error + parsed_content_topic" where
  "ensureValidContentTopic contentTopic =
     (let parts = js_split (CHR ''/'') contentTopic in
      if length parts < 5 \<or> 6 < length parts
      then Inl (JsError (''Content topic format is invalid: '' @ contentTopic))
      else
        let flds = drop (length parts - 4) parts in
        if length parts = 6
        then (case parseInt (parts ! 1) of
                None \<Rightarrow> Inl (JsError (''Invalid generation field in content topic: '' @ contentTopic))
              | Some gen \<Rightarrow>
                  if 0 < gen
                  then Inl (JsError (''Generation greater than 0 is not supported: '' @ contentTopic))
                  else content_topic_fields contentTopic gen flds)
        else content_topic_fields contentTopic 0 flds)"

definition shard_of_digest :: "(bytes \<Rightarrow> bytes) \<Rightarrow> string \<Rightarrow> string \<Rightarrow> int \<Rightarrow> js_error + int" where
  "shard_of_digest sha256 app ver numShardsInCluster =
     (case bytes_concat [utf8_encode app, utf8_encode ver] None of
        Inl e \<Rightarrow> Inl e
      | Inr input \<Rightarrow>
          (case get_be 8 0 (js_slice_from (- 8) (sha256 input)) of
             Inl e \<Rightarrow> Inl e
           | Inr n \<Rightarrow> bigint_rem (int n) numShardsInCluster))"

definition contentTopicToShardIndex :: "(bytes \<Rightarrow> bytes) \<Rightarrow> string \<Rightarrow> int \<Rightarrow> js_error + int" where
  "contentTopicToShardIndex sha256 contentTopic numShardsInCluster =
     (case ensureValidContentTopic contentTopic of
        Inl e \<Rightarrow> Inl e
      | Inr p \<Rightarrow> shard_of_digest sha256 (application p) (version p) numShardsInCluster)"

definition contentTopicToPubsubTopic :: "(bytes \<Rightarrow> bytes) \<Rightarrow> string \<Rightarrow> int \<Rightarrow> int \<Rightarrow> js_error + string" where
  "contentTopicToPubsubTopic sha256 contentTopic clusterId numShardsInCluster =
     (if contentTopic = [] then Inl (JsError ''Content topic must be specified'')
      else (case contentTopicToShardIndex sha256 contentTopic numShardsInCluster of
              Inl e \<Rightarrow> Inl e
            | Inr shardIndex \<Rightarrow>
                Inr (''/waku/2/rs/'' @ js_show_int clusterId @ ''/'' @ js_show_int shardIndex)))"

fun group_content_topics ::
  "(string \<Rightarrow> js_error + string) \<Rightarrow> (string \<times> string list) list \<Rightarrow> string list \<Rightarrow> js_error + (string \<times> string list) list" where
  "group_content_topics topic_of m [] = Inr m"
| "group_content_topics topic_of m (contentTopic # rest) =
     (case topic_of contentTopic of
        Inl e \<Rightarrow> Inl e
      | Inr pubsubTopic \<Rightarrow> group_content_topics topic_of (push_group pubsubTopic contentTopic m) rest)"

definition contentTopicsByPubsubTopic ::
  "(bytes \<Rightarrow> bytes) \<Rightarrow> string list \<Rightarrow> int \<Rightarrow> int \<Rightarrow> js_error + (string \<times> string list) list" where
  "contentTopicsByPubsubTopic sha256 contentTopics clusterId networkShards =
     group_content_topics (\<lambda>ct. contentTopicToPubsubTopic sha256 ct clusterId networkShards) [] contentTopics"

section \<open>sharding/type_guards.ts and sharding/routing_info.ts\<close>

datatype network_config =
    AutoSharding (nc_clusterId: int) (numShardsInCluster: int)
  | StaticSharding (nc_clusterId: int)

definition isAutoSharding :: "network_config \<Rightarrow> bool" where
  "isAutoSharding cfg = (case cfg of AutoSharding _ _ \<Rightarrow> True | StaticSharding _ \<Rightarrow> False)"

definition isStaticSharding :: "network_config \<Rightarrow> bool" where
  "isStaticSharding cfg = (case cfg of AutoSharding _ _ \<Rightarrow> False | StaticSharding _ \<Rightarrow> True)"

datatype routing_info =
    AutoShardingRoutingInfo (networkConfig: network_config) (pubsubTopic: string) (shardId: int) (contentTopic: string)
  | StaticShardingRoutingInfo (networkConfig: network_config) (pubsubTopic: string) (shardId: int)

definition ri_clusterId :: "routing_info \<Rightarrow> int" where
  "ri_clusterId ri = nc_clusterId (networkConfig ri)"

definition isAutoShardingRoutingInfo :: "routing_info \<Rightarrow> bool" where
  "isAutoShardingRoutingInfo ri =
     (case ri of AutoShardingRoutingInfo _ _ _ _ \<Rightarrow> True | StaticShardingRoutingInfo _ _ _ \<Rightarrow> False)"

definition isStaticShardingRoutingInfo :: "routing_info \<Rightarrow> bool" where
  "isStaticShardingRoutingInfo ri =
     (case ri of AutoShardingRoutingInfo _ _ _ _ \<Rightarrow> False | StaticShardingRoutingInfo _ _ _ \<Rightarrow> True)"

definition fromContentTopic :: "(bytes \<Rightarrow> bytes) \<Rightarrow> string \<Rightarrow> int \<Rightarrow> int \<Rightarrow> js_error + routing_info" where
  "fromContentTopic sha256 ct clusterId numShards =
     (case ensureValidContentTopic ct of
        Inl e \<Rightarrow> Inl e
      | Inr _ \<Rightarrow>
          (case contentTopicToShardIndex sha256 ct numShards of
             Inl e \<Rightarrow> Inl e
           | Inr shard \<Rightarrow>
               Inr (AutoShardingRoutingInfo (AutoSharding clusterId numShards)
                      (formatPubsubTopic clusterId shard) shard ct)))"

definition fromShard :: "int \<Rightarrow> int \<Rightarrow> routing_info" where
  "fromShard shard clusterId =
     StaticShardingRoutingInfo (StaticSharding clusterId) (formatPubsubTopic clusterId shard) shard"

definition fromPubsubTopic :: "string \<Rightarrow> int \<Rightarrow> js_error + routing_info" where
  "fromPubsubTopic topic cfg_clusterId =
     (case pubsubTopicToSingleShardInfo topic of
        Inl e \<Rightarrow> Inl e
      | Inr (clusterId, shard) \<Rightarrow>
          if clusterId \<noteq> cfg_clusterId
          then Inl (JsError ''Pubsub topic does not match network config's cluster id'')
          else Inr (StaticShardingRoutingInfo (StaticSharding cfg_clusterId) topic shard))"

record routing_options =
  ro_contentTopic :: "string option"
  ro_shardId :: "int option"
  ro_pubsubTopic :: "string option"

definition createRoutingInfo ::
  "(bytes \<Rightarrow> bytes) \<Rightarrow> network_config \<Rightarrow> routing_options \<Rightarrow> js_error + routing_info" where
  "createRoutingInfo sha256 cfg options =
     (case cfg of
        AutoSharding clusterId numShards \<Rightarrow>
          (case truthy (ro_contentTopic options) of
             Some ct \<Rightarrow> fromContentTopic sha256 ct clusterId numShards
           | None \<Rightarrow> Inl (JsError ''AutoSharding requires contentTopic''))
      | StaticSharding clusterId \<Rightarrow>
          (case ro_shardId options of
             Some shard \<Rightarrow> Inr (fromShard shard clusterId)
           | None \<Rightarrow>
               (case truthy (ro_pubsubTopic options) of
                  Some topic \<Rightarrow> fromPubsubTopic topic clusterId
                | None \<Rightarrow> Inl (JsError ''StaticSharding requires shardId or pubsubTopic''))))"

section \<open>relay_shard_codec.ts\<close>

record shard_info =
  clusterId :: int
  shards :: "int list"

definition uint_of :: "nat \<Rightarrow> int \<Rightarrow> nat" where
  "uint_of w v = nat (v mod 256 ^ w)"

text \<open>The remainder of two numbers has the sign of the dividend; a shift of one by it is at most \<open>2 ^ 14\<close>.\<close>

definition js_rem :: "int \<Rightarrow> int \<Rightarrow> int" where
  "js_rem a b = sgn a * (\<bar>a\<bar> mod \<bar>b\<bar>)"

definition set_shard_bit :: "bytes \<Rightarrow> int \<Rightarrow> js_error + bytes" where
  "set_shard_bit view index =
     (let byteIndex = index div 8 + 2;
          bitIndex = nat (7 - js_rem index 8)
      in if byteIndex < 0 then Inl RangeError
         else (case get_be 1 (nat byteIndex) view of
                 Inl e \<Rightarrow> Inl e
               | Inr b \<Rightarrow> set_be 1 (nat byteIndex) (b OR 2 ^ bitIndex) view))"

fun set_shard_bits :: "bytes \<Rightarrow> int list \<Rightarrow> js_error + bytes" where
  "set_shard_bits view [] = Inr view"
| "set_shard_bits view (index # rest) =
     (case set_shard_bit view index of
        Inl e \<Rightarrow> Inl e
      | Inr view' \<Rightarrow> set_shard_bits view' rest)"

fun set_shard_list :: "nat \<Rightarrow> bytes \<Rightarrow> int list \<Rightarrow> js_error + bytes" where
  "set_shard_list offset view [] = Inr view"
| "set_shard_list offset view (s # rest) =
     (case set_be 2 offset (uint_of 2 s) view of
        Inl e \<Rightarrow> Inl e
      | Inr view' \<Rightarrow> set_shard_list (offset + 2) view' rest)"

definition encodeRelayShard :: "shard_info \<Rightarrow> js_error + bytes" where
  "encodeRelayShard shardInfo =
     (let n = length (shards shardInfo);
          totalLength = (if 64 \<le> n then 130 else 3 + 2 * n)
      in case set_be 2 0 (uint_of 2 (clusterId shardInfo)) (replicate totalLength 0) of
           Inl e \<Rightarrow> Inl e
         | Inr view \<Rightarrow>
             if 64 \<le> n then set_shard_bits view (shards shardInfo)
             else (case set_be 1 2 n view of
                     Inl e \<Rightarrow> Inl e
                   | Inr view' \<Rightarrow> set_shard_list 3 view' (shards shardInfo)))"

definition shard_bit :: "bytes \<Rightarrow> nat \<Rightarrow> bool" where
  "shard_bit view i = (unat (view ! (i div 8 + 2)) AND 2 ^ (7 - i mod 8) \<noteq> 0)"

fun get_shard_list :: "bytes \<Rightarrow> nat \<Rightarrow> nat \<Rightarrow> js_error + int list" where
  "get_shard_list bs offset 0 = Inr []"
| "get_shard_list bs offset (Suc n) =
     (if length bs \<le> offset + 1 then Inl (JsError ''Unexpected end of data'')
      else (case get_be 2 offset bs of
              Inl e \<Rightarrow> Inl e
            | Inr s \<Rightarrow> (case get_shard_list bs (offset + 2) n of
                          Inl e \<Rightarrow> Inl e
                        | Inr rest \<Rightarrow> Inr (int s # rest))))"

text \<open>The bit vector is read only from a message of exactly 130 bytes, so that every index is in range.\<close>

definition decodeRelayShard :: "bytes \<Rightarrow> js_error + shard_info" where
  "decodeRelayShard bs =
     (if length bs < 3 then Inl (JsError ''Insufficient data'')
      else (case get_be 2 0 bs of
              Inl e \<Rightarrow> Inl e
            | Inr cid \<Rightarrow>
                if length bs = 130
                then Inr \<lparr>clusterId = int cid, shards = map int (filter (shard_bit bs) [0..<1024])\<rparr>
                else (case get_be 1 2 bs of
                        Inl e \<Rightarrow> Inl e
                      | Inr numIndices \<Rightarrow>
                          (case get_shard_list bs 3 numIndices of
                             Inl e \<Rightarrow> Inl e
                           | Inr ss \<Rightarrow> Inr \<lparr>clusterId = int cid, shards = ss\<rparr>))))"

section \<open>group_by.ts, push_or_init_map.ts, is_size_valid.ts, random_subset.ts\<close>

definition groupByContentTopic :: "('a \<Rightarrow> string) \<Rightarrow> 'a list \<Rightarrow> (string \<times> 'a list) list" where
  "groupByContentTopic contentTopic_of values =
     foldl (\<lambda>m v. push_group (contentTopic_of v) v m) [] values"

definition pushOrInitMapSet :: "('k \<times> 'v list) list \<Rightarrow> 'k \<Rightarrow> 'v \<Rightarrow> ('k \<times> 'v list) list" where
  "pushOrInitMapSet m key newValue =
     (case map_of m key of
        None \<Rightarrow> AList.update key (js_set_add newValue []) m
      | Some arr \<Rightarrow> AList.update key (js_set_add newValue arr) m)"

definition isWireSizeUnderCap :: "bytes \<Rightarrow> bool" where
  "isWireSizeUnderCap buf \<longleftrightarrow> length buf \<le> 1 * 1024 ^ 2"

definition isMessageSizeUnderCap :: "('m \<Rightarrow> js_error + bytes option) \<Rightarrow> 'm \<Rightarrow> js_error + bool" where
  "isMessageSizeUnderCap toWire message =
     bindE (toWire message)
       (\<lambda>buf. Inr (case buf of None \<Rightarrow> False | Some buf \<Rightarrow> isWireSizeUnderCap buf))"

text \<open>
  The drawn numbers are an argument: \<open>random i\<close> is what \<open>Math.random()\<close> answers in iteration \<open>i\<close>, in
  \<open>[0, 1)\<close>. The array is shuffled in place, so the caller's array is part of the result.
\<close>

definition shuffle_step :: "(nat \<Rightarrow> real) \<Rightarrow> 'a list \<Rightarrow> nat \<Rightarrow> 'a list" where
  "shuffle_step random arr i =
     (let j = nat \<lfloor>random i * of_nat (length arr)\<rfloor>
      in arr[i := arr ! j, j := arr ! i])"

definition shuffle :: "(nat \<Rightarrow> real) \<Rightarrow> 'a list \<Rightarrow> 'a list" where
  "shuffle random arr =
     (if length arr \<le> 1 then arr else foldl (shuffle_step random) arr [0..<length arr])"

definition getPseudoRandomSubset :: "(nat \<Rightarrow> real) \<Rightarrow> 'a list \<Rightarrow> nat \<Rightarrow> 'a list \<times> 'a list" where
  "getPseudoRandomSubset random values wantedNumber =
     (if length values \<le> wantedNumber \<or> length values \<le> 1 then (values, values)
      else (let values' = shuffle random values in (values', take wantedNumber values')))"

section \<open>Topics\<close>

lemma length_6: "length ps = 6 \<longleftrightarrow> (\<exists>a b c d e f. ps = [a, b, c, d, e, f])"
  by (auto simp: numeral_eq_Suc length_Suc_conv)

lemma split_6:
  "(length (js_split c s) = 6 \<and> js_split c s ! 1 = p1 \<and> js_split c s ! 2 = p2 \<and> js_split c s ! 3 = p3
      \<and> js_split c s ! 0 = p0 \<and> js_split c s ! 4 = p4 \<and> js_split c s ! 5 = p5)
    \<longleftrightarrow> js_split c s = [p0, p1, p2, p3, p4, p5]"
  by (auto simp: length_6)

lemma pubsub_accepted:
  "pubsubTopicToSingleShardInfo t = Inr (cid, sid) \<longleftrightarrow>
    (\<exists>p a b. js_split (CHR ''/'') t = [p, ''waku'', ''2'', ''rs'', a, b] \<and> parseInt a = Some cid \<and> parseInt b = Some sid)"
  unfolding pubsubTopicToSingleShardInfo_def Let_def
  by (auto simp: length_6 split: option.splits)

lemma join_6: "js_join ''/'' [a, b, c, d, e, f] = a @ ''/'' @ b @ ''/'' @ c @ ''/'' @ d @ ''/'' @ e @ ''/'' @ f"
  by simp

lemma format_split:
  "js_split (CHR ''/'') (formatPubsubTopic cid sid) = ['''', ''waku'', ''2'', ''rs'', js_show_int cid, js_show_int sid]"
  by (simp add: js_split_iff formatPubsubTopic_def)

lemma format_accepted [simp]: "pubsubTopicToSingleShardInfo (formatPubsubTopic cid sid) = Inr (cid, sid)"
  by (simp add: pubsub_accepted format_split)

text \<open>A formatted pubsub topic reads back as its cluster and shard. The reader accepts more: exactly the
  strings \<open>p/waku/2/rs/a/b\<close> whatever \<open>p\<close> is, with \<open>a\<close> and \<open>b\<close> read by \<open>parseInt\<close>, which ignores what follows
  the leading digits.\<close>

theorem pubsub_topic_roundtrip:
  "pubsubTopicToSingleShardInfo (formatPubsubTopic cid sid) = Inr (cid, sid)
   \<and> (pubsubTopicToSingleShardInfo t = Inr (c, s) \<longleftrightarrow>
        (\<exists>p a b. t = p @ ''/waku/2/rs/'' @ a @ ''/'' @ b \<and> CHR ''/'' \<notin> set (p @ a @ b)
                 \<and> parseInt a = Some c \<and> parseInt b = Some s))
   \<and> pubsubTopicToSingleShardInfo ''x/waku/2/rs/01/5z'' = Inr (1, 5)"
proof -
  have "js_split (CHR ''/'') t = [p, ''waku'', ''2'', ''rs'', a, b] \<longleftrightarrow>
      t = p @ ''/waku/2/rs/'' @ a @ ''/'' @ b \<and> CHR ''/'' \<notin> set (p @ a @ b)" for p a b
    by (auto simp: js_split_iff)
  moreover have "pubsubTopicToSingleShardInfo ''x/waku/2/rs/01/5z'' = Inr (1, 5)" by code_simp
  ultimately show ?thesis using pubsub_accepted[of t c s] by (simp only: format_accepted) blast
qed

lemma content_topic_fields_Inr:
  "content_topic_fields ct g [a, v, n, e] = Inr r \<longleftrightarrow>
    r = \<lparr>generation = g, application = a, version = v, topicName = n, encoding = e\<rparr> \<and> [] \<notin> {a, v, n, e}"
  by (auto simp: content_topic_fields_def)

lemma split_5_or_6:
  "\<not> (length ps < 5 \<or> 6 < length ps) \<longleftrightarrow>
     (\<exists>p a v n e. ps = [p, a, v, n, e]) \<or> (\<exists>p g a v n e. ps = [p, g, a, v, n, e])"
proof -
  have "\<not> (length ps < 5 \<or> 6 < length ps) \<longleftrightarrow> length ps = 5 \<or> length ps = 6" by arith
  then show ?thesis by (simp only: length_6) (auto simp: numeral_eq_Suc length_Suc_conv)
qed

text \<open>The content topics that are accepted: four non-empty fields after one arbitrary part, or after an
  arbitrary part and a generation that \<open>parseInt\<close> reads as at most zero; the fields are returned as they
  stand.\<close>

theorem content_topic_accepted:
  "ensureValidContentTopic ct = Inr r \<longleftrightarrow>
     [] \<notin> {application r, version r, topicName r, encoding r}
     \<and> ((\<exists>p. js_split (CHR ''/'') ct = [p, application r, version r, topicName r, encoding r]) \<and> generation r = 0
        \<or> (\<exists>p g. js_split (CHR ''/'') ct = [p, g, application r, version r, topicName r, encoding r]
                 \<and> parseInt g = Some (generation r) \<and> generation r \<le> 0))"
proof (cases "length (js_split (CHR ''/'') ct) < 5 \<or> 6 < length (js_split (CHR ''/'') ct)")
  case True
  then show ?thesis by (auto simp: ensureValidContentTopic_def Let_def)
next
  case False
  have r: "r = \<lparr>generation = g, application = a, version = v, topicName = n, encoding = e\<rparr> \<longleftrightarrow>
      generation r = g \<and> application r = a \<and> version r = v \<and> topicName r = n \<and> encoding r = e" for g a v n e
    by (cases r) auto
  from False[unfolded split_5_or_6] show ?thesis
    by (elim disjE exE)
       (auto simp: ensureValidContentTopic_def Let_def content_topic_fields_Inr r not_less split: option.splits)
qed

section \<open>Autosharding\<close>

lemma shard_of_digest_ok:
  assumes "\<And>bs. length (sha256 bs) = 32" and "0 < n"
  shows "\<exists>i. shard_of_digest sha256 app ver n = Inr i \<and> 0 \<le> i \<and> i < n"
proof -
  let ?d = "js_slice_from (- 8) (sha256 (utf8_encode app @ utf8_encode ver))"
  have "length ?d = 8" using length_js_slice_from_neg[of 8 "sha256 (utf8_encode app @ utf8_encode ver)"] assms(1) by simp
  then have "get_be 8 0 ?d = Inr (be_value ?d)" by (simp add: get_be_def)
  with \<open>0 < n\<close> show ?thesis
    by (simp add: shard_of_digest_def bytes_concat_None bigint_rem_def sgn_if)
qed

lemma pubsub_topic_of_valid:
  assumes "ensureValidContentTopic ct = Inr p"
  shows "contentTopicToPubsubTopic sha256 ct cid n =
    (case shard_of_digest sha256 (application p) (version p) n of
       Inl e \<Rightarrow> Inl e | Inr i \<Rightarrow> Inr (formatPubsubTopic cid i))"
proof -
  have "ensureValidContentTopic '''' = Inr p \<Longrightarrow> False" by (simp add: ensureValidContentTopic_def)
  with assms have "ct \<noteq> ''''" by auto
  with assms show ?thesis
    by (simp add: contentTopicToPubsubTopic_def contentTopicToShardIndex_def formatPubsubTopic_def split: sum.splits)
qed

text \<open>C23: Autosharding: the shard of a valid content topic is below the number of shards, is determined by the
  application and version fields alone, and is the one that its pubsub topic names.\<close>

theorem autosharding:
  assumes "\<And>bs. length (sha256 bs) = 32" and "0 < n" and "ensureValidContentTopic ct = Inr p"
  shows "\<exists>i. contentTopicToShardIndex sha256 ct n = Inr i \<and> 0 \<le> i \<and> i < n
    \<and> contentTopicToPubsubTopic sha256 ct cid n = Inr (formatPubsubTopic cid i)
    \<and> pubsubTopicToSingleShardInfo (formatPubsubTopic cid i) = Inr (cid, i)
    \<and> (\<forall>ct' p'. ensureValidContentTopic ct' = Inr p' \<and> application p' = application p \<and> version p' = version p
         \<longrightarrow> contentTopicToPubsubTopic sha256 ct' cid n = Inr (formatPubsubTopic cid i))"
proof -
  from shard_of_digest_ok[of sha256 n "application p" "version p"] assms(1,2)
  obtain i where i: "shard_of_digest sha256 (application p) (version p) n = Inr i" "0 \<le> i" "i < n" by blast
  with assms(3) have "contentTopicToShardIndex sha256 ct n = Inr i" by (simp add: contentTopicToShardIndex_def)
  with i pubsub_topic_of_valid[of _ _ sha256 cid n] assms(3) show ?thesis by fastforce
qed

theorem autosharding_witness:
  "\<exists>i. contentTopicToShardIndex (\<lambda>bs. replicate 32 7) ''/myapp/1/chat/proto'' 8 = Inr i \<and> 0 \<le> i \<and> i < 8
    \<and> contentTopicToPubsubTopic (\<lambda>bs. replicate 32 7) ''/0/myapp/1/news/json'' 3 8 = Inr (formatPubsubTopic 3 i)"
proof -
  have v: "ensureValidContentTopic ''/myapp/1/chat/proto''
      = Inr \<lparr>generation = 0, application = ''myapp'', version = ''1'', topicName = ''chat'', encoding = ''proto''\<rparr>"
    "ensureValidContentTopic ''/0/myapp/1/news/json''
      = Inr \<lparr>generation = 0, application = ''myapp'', version = ''1'', topicName = ''news'', encoding = ''json''\<rparr>"
    by code_simp+
  from autosharding[of "\<lambda>bs. replicate 32 7" 8, OF _ _ v(1), of 3] v(2) show ?thesis by fastforce
qed

lemma group_content_topics_group:
  "group_content_topics f m cts =
    (case find (\<lambda>ct. isl (f ct)) cts of
       Some ct \<Rightarrow> Inl (projl (f ct))
     | None \<Rightarrow> Inr (foldl (\<lambda>m ct. push_group (projr (f ct)) ct m) m cts))"
  by (induction cts arbitrary: m) (auto split: sum.splits option.splits)

text \<open>Grouping content topics fails exactly when one of them has no pubsub topic, with the error of the
  first such; else every pubsub topic holds the content topics that map to it, in their order, and no other
  pubsub topic has an entry.\<close>

theorem content_topics_grouped:
  "let f = (\<lambda>ct. contentTopicToPubsubTopic sha256 ct cid n); r = contentTopicsByPubsubTopic sha256 cts cid n in
     case find (\<lambda>ct. isl (f ct)) cts of
       Some ct \<Rightarrow> r = Inl (projl (f ct))
     | None \<Rightarrow> \<exists>m. r = Inr m \<and> distinct (map fst m)
         \<and> (\<forall>k. map_of m k = (if Inr k \<in> f ` set cts then Some (filter (\<lambda>ct. f ct = Inr k) cts) else None))"
proof (cases "find (\<lambda>ct. isl (contentTopicToPubsubTopic sha256 ct cid n)) cts")
  case None
  let ?f = "\<lambda>ct. contentTopicToPubsubTopic sha256 ct cid n"
  have ok: "?f ct = Inr (projr (?f ct))" if "ct \<in> set cts" for ct
    using None that by (metis find_None_iff sum.collapse(2))
  have r: "contentTopicsByPubsubTopic sha256 cts cid n = Inr (group_by (\<lambda>ct. projr (?f ct)) cts)"
    using None by (simp add: contentTopicsByPubsubTopic_def group_content_topics_group group_by_def)
  have eq: "?f ct = Inr k \<longleftrightarrow> projr (?f ct) = k" if "ct \<in> set cts" for ct k
    using ok[OF that] by (metis sum.sel(2))
  have "filter (\<lambda>ct. projr (?f ct) = k) cts = filter (\<lambda>ct. ?f ct = Inr k) cts" for k
    using eq by (intro filter_cong) auto
  moreover have "k \<in> (\<lambda>ct. projr (?f ct)) ` set cts \<longleftrightarrow> Inr k \<in> ?f ` set cts" for k
    using eq by (auto simp: image_iff) metis+
  ultimately have m: "map_of (group_by (\<lambda>ct. projr (?f ct)) cts) k
      = (if Inr k \<in> ?f ` set cts then Some (filter (\<lambda>ct. ?f ct = Inr k) cts) else None)" for k
    by (simp only: group_by_lookup)
  show ?thesis unfolding Let_def None option.case r
    using m group_by_keys(2)[of "\<lambda>ct. projr (?f ct)" cts] by (intro exI conjI allI) auto
qed (simp add: contentTopicsByPubsubTopic_def group_content_topics_group)

section \<open>Routing information\<close>

lemma fromContentTopic_Inr:
  "fromContentTopic sha256 ct c n = Inr ri \<longleftrightarrow>
    (\<exists>shard. contentTopicToShardIndex sha256 ct n = Inr shard
       \<and> ri = AutoShardingRoutingInfo (AutoSharding c n) (formatPubsubTopic c shard) shard ct)"
  by (auto simp: fromContentTopic_def contentTopicToShardIndex_def split: sum.splits)

lemma pubsub_topic_of_index:
  "ct \<noteq> [] \<Longrightarrow> contentTopicToShardIndex sha256 ct n = Inr i
    \<Longrightarrow> contentTopicToPubsubTopic sha256 ct c n = Inr (formatPubsubTopic c i)"
  by (simp add: contentTopicToPubsubTopic_def formatPubsubTopic_def)

lemma fromPubsubTopic_Inr:
  "fromPubsubTopic topic c = Inr ri \<longleftrightarrow>
    (\<exists>shard. pubsubTopicToSingleShardInfo topic = Inr (c, shard)
       \<and> ri = StaticShardingRoutingInfo (StaticSharding c) topic shard)"
  by (auto simp: fromPubsubTopic_def split: sum.splits)

text \<open>Routing information is consistent: it has the kind and the network configuration it was asked for,
  and its pubsub topic reads back as the configured cluster and its shard. A given shard wins over a given
  pubsub topic, and a pubsub topic of another cluster is refused.\<close>

theorem routing_info_consistent:
  assumes "createRoutingInfo sha256 cfg opts = Inr ri"
  shows "networkConfig ri = cfg \<and> isAutoShardingRoutingInfo ri = isAutoSharding cfg
    \<and> isStaticShardingRoutingInfo ri = isStaticSharding cfg
    \<and> pubsubTopicToSingleShardInfo (pubsubTopic ri) = Inr (ri_clusterId ri, shardId ri)
    \<and> ri_clusterId ri = nc_clusterId cfg
    \<and> (isStaticSharding cfg \<longrightarrow> ro_shardId opts = Some (shardId ri) \<or> ro_shardId opts = None \<and> ro_pubsubTopic opts = Some (pubsubTopic ri))
    \<and> (isAutoSharding cfg \<longrightarrow> ro_contentTopic opts = Some (contentTopic ri)
         \<and> contentTopicToPubsubTopic sha256 (contentTopic ri) (nc_clusterId cfg) (numShardsInCluster cfg) = Inr (pubsubTopic ri))"
proof (cases cfg)
  case (AutoSharding c n)
  with assms obtain ct where ct: "truthy (ro_contentTopic opts) = Some ct" "fromContentTopic sha256 ct c n = Inr ri"
    by (auto simp: createRoutingInfo_def split: option.splits)
  then have "ro_contentTopic opts = Some ct" "ct \<noteq> []" by (auto simp: truthy_def split: option.splits if_splits)
  moreover from ct(2) obtain shard where "contentTopicToShardIndex sha256 ct n = Inr shard"
    "ri = AutoShardingRoutingInfo (AutoSharding c n) (formatPubsubTopic c shard) shard ct"
    unfolding fromContentTopic_Inr by blast
  ultimately show ?thesis using AutoSharding
    by (simp add: isAutoSharding_def isStaticSharding_def isAutoShardingRoutingInfo_def isStaticShardingRoutingInfo_def
        ri_clusterId_def pubsub_topic_of_index)
next
  case (StaticSharding c)
  then show ?thesis using assms
    by (auto simp: createRoutingInfo_def fromShard_def fromPubsubTopic_Inr truthy_def isAutoSharding_def isStaticSharding_def
        isAutoShardingRoutingInfo_def isStaticShardingRoutingInfo_def ri_clusterId_def split: option.splits if_splits)
qed

theorem routing_info_consistent_witness:
  "\<exists>ri. createRoutingInfo (\<lambda>bs. []) (StaticSharding 16)
       \<lparr>ro_contentTopic = None, ro_shardId = None, ro_pubsubTopic = Some ''/waku/2/rs/16/05''\<rparr> = Inr ri
     \<and> pubsubTopic ri = ''/waku/2/rs/16/05'' \<and> shardId ri = 5 \<and> ri_clusterId ri = 16"
proof -
  let ?o = "\<lparr>ro_contentTopic = None, ro_shardId = None, ro_pubsubTopic = Some ''/waku/2/rs/16/05''\<rparr>"
  let ?ri = "StaticShardingRoutingInfo (StaticSharding 16) ''/waku/2/rs/16/05'' 5"
  have "createRoutingInfo (\<lambda>bs. []) (StaticSharding 16) ?o = Inr ?ri" by code_simp
  from routing_info_consistent[OF this] this show ?thesis by (intro exI[of _ ?ri]) simp
qed

section \<open>The relay shard codec\<close>

lemma set_be_1: "off < length bs \<Longrightarrow> set_be 1 off v bs = Inr (bs[off := of_nat v])"
  by (simp add: set_be_def upd_conv_take_nth_drop)

lemma get_be_1: "off < length bs \<Longrightarrow> get_be 1 off bs = Inr (unat (bs ! off))"
proof -
  assume "off < length bs"
  moreover from this have "take 1 (drop off bs) = [] @ [bs ! off]" by (simp add: take_Suc_conv_app_nth hd_drop_conv_nth take_Suc)
  ultimately show ?thesis unfolding get_be_def by (simp only: be_value_snoc) simp
qed

lemma set_shard_list_append:
  assumes "length rest = 2 * length ss"
  shows "set_shard_list (length pre) (pre @ rest) ss = Inr (pre @ concat (map (\<lambda>s. be_bytes 2 (uint_of 2 s)) ss))"
  using assms
proof (induction ss arbitrary: pre rest)
  case (Cons s ss)
  let ?pre = "pre @ be_bytes 2 (uint_of 2 s)"
  from Cons.prems have "set_be 2 (length pre) (uint_of 2 s) (pre @ rest) = Inr (?pre @ drop 2 rest)"
    by (simp add: set_be_def)
  moreover have "set_shard_list (length ?pre) (?pre @ drop 2 rest) ss
      = Inr (?pre @ concat (map (\<lambda>s. be_bytes 2 (uint_of 2 s)) ss))"
    using Cons.prems by (intro Cons.IH) simp
  ultimately show ?case by simp
qed simp

lemma get_shard_list_append:
  "get_shard_list (pre @ concat (map (\<lambda>s. be_bytes 2 (uint_of 2 s)) ss)) (length pre) (length ss)
    = Inr (map (\<lambda>s. s mod 2 ^ 16) ss)"
proof (induction ss arbitrary: pre)
  case (Cons s ss)
  let ?rest = "concat (map (\<lambda>s. be_bytes 2 (uint_of 2 s)) ss)" and ?pre = "pre @ be_bytes 2 (uint_of 2 s)"
  have "get_be 2 (length pre) (pre @ be_bytes 2 (uint_of 2 s) @ ?rest) = Inr (uint_of 2 s mod 256 ^ 2)"
    by (rule get_be_append) simp
  moreover have "int (uint_of 2 s mod 256 ^ 2) = s mod 2 ^ 16" by (simp add: uint_of_def nat_mod_distrib zmod_int)
  moreover have "get_shard_list (pre @ be_bytes 2 (uint_of 2 s) @ ?rest) (length pre + 2) (length ss)
      = Inr (map (\<lambda>s. s mod 2 ^ 16) ss)"
    using Cons.IH[of ?pre] by simp
  ultimately show ?case by simp
qed simp

text \<open>The index list: fewer than 64 shards.\<close>

lemma relay_shard_list:
  assumes "length (shards si) < 64"
  shows "encodeRelayShard si = Inr (be_bytes 2 (uint_of 2 (clusterId si)) @ be_bytes 1 (length (shards si))
      @ concat (map (\<lambda>s. be_bytes 2 (uint_of 2 s)) (shards si)))"
proof -
  let ?n = "length (shards si)" and ?c = "be_bytes 2 (uint_of 2 (clusterId si))"
  have "set_be 2 0 (uint_of 2 (clusterId si)) (replicate (3 + 2 * ?n) 0) = Inr (?c @ replicate (1 + 2 * ?n) 0)"
    by (simp add: set_be_def)
  moreover have "set_be 1 2 ?n (?c @ replicate (1 + 2 * ?n) 0) = Inr (?c @ be_bytes 1 ?n @ replicate (2 * ?n) 0)"
    by (simp add: set_be_def)
  moreover have "set_shard_list 3 ((?c @ be_bytes 1 ?n) @ replicate (2 * ?n) 0) (shards si)
      = Inr ((?c @ be_bytes 1 ?n) @ concat (map (\<lambda>s. be_bytes 2 (uint_of 2 s)) (shards si)))"
    using set_shard_list_append[of "replicate (2 * ?n) 0" "shards si" "?c @ be_bytes 1 ?n"] by simp
  ultimately show ?thesis using assms by (simp add: encodeRelayShard_def)
qed

lemma relay_shard_list_decode:
  assumes "length (shards si) < 64"
  shows "decodeRelayShard (be_bytes 2 (uint_of 2 (clusterId si)) @ be_bytes 1 (length (shards si))
      @ concat (map (\<lambda>s. be_bytes 2 (uint_of 2 s)) (shards si)))
    = Inr \<lparr>clusterId = clusterId si mod 2 ^ 16, shards = map (\<lambda>s. s mod 2 ^ 16) (shards si)\<rparr>"
proof -
  let ?n = "length (shards si)" and ?c = "be_bytes 2 (uint_of 2 (clusterId si))"
    and ?ss = "concat (map (\<lambda>s. be_bytes 2 (uint_of 2 s)) (shards si))"
  have len: "length ?ss = 2 * ?n" by (simp add: length_concat o_def sum_list_triv)
  have "get_be 2 0 ([] @ ?c @ be_bytes 1 ?n @ ?ss) = Inr (uint_of 2 (clusterId si) mod 256 ^ 2)"
    by (rule get_be_append) simp
  moreover have "int (uint_of 2 (clusterId si) mod 256 ^ 2) = clusterId si mod 2 ^ 16"
    by (simp add: uint_of_def nat_mod_distrib zmod_int)
  moreover have "get_be 1 2 (?c @ be_bytes 1 ?n @ ?ss) = Inr (?n mod 256 ^ 1)" by (rule get_be_append) simp
  moreover have "get_shard_list ((?c @ be_bytes 1 ?n) @ ?ss) 3 ?n = Inr (map (\<lambda>s. s mod 2 ^ 16) (shards si))"
    using get_shard_list_append[of "?c @ be_bytes 1 ?n" "shards si"] by simp
  moreover have "length (?c @ be_bytes 1 ?n @ ?ss) = 3 + 2 * ?n" using len by simp
  moreover have "3 + 2 * ?n \<noteq> 130" by presburger
  ultimately show ?thesis using assms by (simp add: decodeRelayShard_def)
qed

text \<open>The bit vector: 64 shards or more.\<close>

lemma shard_bit_bit:
  "i < 1024 \<Longrightarrow> shard_bit view i \<longleftrightarrow> bit (view ! (i div 8 + 2)) (7 - i mod 8)"
  by (simp add: shard_bit_def and_exp_eq_0_iff_not_bit bit_unsigned_iff)

lemma set_bit_byte:
  "m < 8 \<Longrightarrow> bit (of_nat (unat (w :: byte) OR 2 ^ j) :: byte) m \<longleftrightarrow> bit w m \<or> m = j"
  by (auto simp: bit_of_nat_iff bit_or_iff bit_unsigned_iff bit_exp_iff)

lemma set_shard_bit_in:
  assumes "length view = 130" and "i < 1024"
  shows "\<exists>view'. set_shard_bit view (int i) = Inr view' \<and> length view' = 130 \<and> take 2 view' = take 2 view
    \<and> (\<forall>k<1024. shard_bit view' k \<longleftrightarrow> shard_bit view k \<or> k = i)"
proof -
  let ?k = "i div 8 + 2" and ?j = "7 - i mod 8"
  let ?view = "view[?k := of_nat (unat (view ! ?k) OR 2 ^ ?j)]"
  have k: "?k < 130" using assms(2) by simp
  have n: "nat (int i div 8 + 2) = ?k" by linarith
  have j: "nat (7 - js_rem (int i) 8) = ?j"
    by (cases "i = 0") (auto simp: js_rem_def sgn_if nat_mod_distrib nat_diff_distrib)
  have "set_shard_bit view (int i) = Inr ?view"
    using k assms(1) unfolding set_shard_bit_def Let_def n j by (subst get_be_1) (simp_all add: set_be_1 del: One_nat_def)
  moreover have "shard_bit ?view m \<longleftrightarrow> shard_bit view m \<or> m = i" if "m < 1024" for m
  proof (cases "m div 8 = i div 8")
    case True
    then have "m = i \<longleftrightarrow> m mod 8 = i mod 8" by (metis div_mult_mod_eq)
    moreover have "m mod 8 < 8" "i mod 8 < 8" by simp_all
    ultimately have "m = i \<longleftrightarrow> 7 - m mod 8 = ?j" by linarith
    with True that k assms(1) show ?thesis by (simp add: shard_bit_bit set_bit_byte)
  next
    case False
    with that show ?thesis by (auto simp: shard_bit_bit)
  qed
  ultimately show ?thesis using assms(1) by simp
qed

lemma set_shard_bits_in:
  assumes "length view = 130" and "\<forall>i\<in>set is. 0 \<le> i \<and> i < 1024"
  shows "\<exists>view'. set_shard_bits view is = Inr view' \<and> length view' = 130 \<and> take 2 view' = take 2 view
    \<and> (\<forall>k<1024. shard_bit view' k \<longleftrightarrow> shard_bit view k \<or> int k \<in> set is)"
  using assms
proof (induction "is" arbitrary: view)
  case (Cons i "is")
  from Cons.prems(2) obtain n where i: "i = int n" "n < 1024" by (metis list.set_intros(1) of_nat_less_numeral_iff zero_le_imp_eq_int)
  from set_shard_bit_in[OF Cons.prems(1) i(2)] obtain v where v: "set_shard_bit view i = Inr v" "length v = 130"
    "take 2 v = take 2 view" "\<forall>k<1024. shard_bit v k \<longleftrightarrow> shard_bit view k \<or> k = n" unfolding i(1) by blast
  from Cons.IH[OF v(2)] Cons.prems(2) obtain v' where "set_shard_bits v is = Inr v'" "length v' = 130"
    "take 2 v' = take 2 v" "\<forall>k<1024. shard_bit v' k \<longleftrightarrow> shard_bit v k \<or> int k \<in> set is" by auto
  with v i(1) show ?case by auto
qed simp

lemma set_shard_bits_out:
  assumes "length view = 130" and "\<forall>i\<in>set is. 0 \<le> i" and "\<exists>i\<in>set is. 1024 \<le> i"
  shows "set_shard_bits view is = Inl RangeError"
  using assms
proof (induction "is" arbitrary: view)
  case (Cons i "is")
  show ?case
  proof (cases "i < 1024")
    case True
    with Cons.prems(2) obtain n where i: "i = int n" "n < 1024"
      by (metis list.set_intros(1) of_nat_less_numeral_iff zero_le_imp_eq_int)
    from set_shard_bit_in[OF Cons.prems(1) i(2)] Cons.IH Cons.prems(2,3) True i(1) show ?thesis by auto
  next
    case False
    then have "130 \<le> nat (i div 8 + 2)" by simp
    with Cons.prems(1) False show ?thesis by (simp add: set_shard_bit_def Let_def get_be_def)
  qed
qed simp

lemma relay_shard_bits:
  assumes "64 \<le> length (shards si)" and "\<forall>i\<in>set (shards si). 0 \<le> i \<and> i < 1024"
  shows "\<exists>bs. encodeRelayShard si = Inr bs \<and> length bs = 130
    \<and> decodeRelayShard bs = Inr \<lparr>clusterId = clusterId si mod 2 ^ 16, shards = sorted_list_of_set (set (shards si))\<rparr>"
proof -
  let ?c = "be_bytes 2 (uint_of 2 (clusterId si))"
  let ?view = "?c @ replicate 128 (0 :: byte)"
  have e: "set_be 2 0 (uint_of 2 (clusterId si)) (replicate 130 0) = Inr ?view" by (simp add: set_be_def)
  from set_shard_bits_in[of ?view "shards si"] assms(2)
  obtain bs where bs: "set_shard_bits ?view (shards si) = Inr bs" "length bs = 130" "take 2 bs = ?c"
    "\<forall>k<1024. shard_bit bs k \<longleftrightarrow> shard_bit ?view k \<or> int k \<in> set (shards si)" by auto
  have zero: "\<not> shard_bit ?view k" if "k < 1024" for k using that by (simp add: shard_bit_def nth_append)
  have "set (map int (filter (shard_bit bs) [0..<1024])) = set (shards si)"
    using bs(4) zero assms(2) by (auto simp: image_iff) (metis nat_less_iff nat_0_le numeral_nat(7) of_nat_numeral nat_int)
  moreover have "sorted (map int (filter (shard_bit bs) [0..<1024]))" "distinct (map int (filter (shard_bit bs) [0..<1024]))"
    by (auto simp: sorted_map distinct_map intro!: sorted_wrt_filter sorted_wrt_mono_rel[OF _ sorted_wrt_upt])
  ultimately have s: "map int (filter (shard_bit bs) [0..<1024]) = sorted_list_of_set (set (shards si))"
    by (metis sorted_list_of_set.idem_if_sorted_distinct)
  have "get_be 2 0 bs = Inr (uint_of 2 (clusterId si) mod 256 ^ 2)" using bs(2,3) by (simp add: get_be_def)
  moreover have "int (uint_of 2 (clusterId si) mod 256 ^ 2) = clusterId si mod 2 ^ 16"
    by (simp add: uint_of_def nat_mod_distrib zmod_int)
  ultimately have "decodeRelayShard bs = Inr \<lparr>clusterId = clusterId si mod 2 ^ 16, shards = sorted_list_of_set (set (shards si))\<rparr>"
    using bs(2) s by (simp add: decodeRelayShard_def)
  moreover have "encodeRelayShard si = Inr bs" using assms(1) e bs(1) by (simp add: encodeRelayShard_def)
  ultimately show ?thesis using bs(2) by blast
qed

text \<open>What a node announces of its shards is what is read. Fewer than 64 shards come back as the very list
  (with every number modulo \<open>2 ^ 16\<close>); from 64 on they come back sorted and without duplicates, and a shard
  from 1024 on makes the encoder throw.\<close>

theorem relay_shard_roundtrip:
  assumes "\<forall>i\<in>set (shards si). 0 \<le> i" and "0 \<le> clusterId si" and "clusterId si < 2 ^ 16"
  shows "if length (shards si) < 64
    then \<exists>bs. encodeRelayShard si = Inr bs \<and> length bs = 3 + 2 * length (shards si)
           \<and> decodeRelayShard bs = Inr \<lparr>clusterId = clusterId si, shards = map (\<lambda>s. s mod 2 ^ 16) (shards si)\<rparr>
    else if \<forall>i\<in>set (shards si). i < 1024
    then \<exists>bs. encodeRelayShard si = Inr bs \<and> length bs = 130
           \<and> decodeRelayShard bs = Inr \<lparr>clusterId = clusterId si, shards = sorted_list_of_set (set (shards si))\<rparr>
    else encodeRelayShard si = Inl RangeError"
proof -
  have c: "clusterId si mod 2 ^ 16 = clusterId si" using assms(2,3) by simp
  have "encodeRelayShard si = Inl RangeError" if "\<not> length (shards si) < 64" "\<not> (\<forall>i\<in>set (shards si). i < 1024)"
  proof -
    let ?view = "be_bytes 2 (uint_of 2 (clusterId si)) @ replicate 128 (0 :: byte)"
    have "set_be 2 0 (uint_of 2 (clusterId si)) (replicate 130 0) = Inr ?view" by (simp add: set_be_def)
    moreover have "set_shard_bits ?view (shards si) = Inl RangeError"
      using set_shard_bits_out[of ?view "shards si"] assms(1) that(2) by (simp add: not_less)
    ultimately show ?thesis using that(1) by (simp add: encodeRelayShard_def)
  qed
  moreover have "length (be_bytes 2 (uint_of 2 (clusterId si)) @ be_bytes 1 (length (shards si))
      @ concat (map (\<lambda>s. be_bytes 2 (uint_of 2 s)) (shards si))) = 3 + 2 * length (shards si)"
    by (simp add: length_concat o_def sum_list_triv)
  ultimately show ?thesis
    using relay_shard_list[of si] relay_shard_list_decode[of si] relay_shard_bits[of si] assms(1) unfolding c by auto
qed

theorem relay_shard_roundtrip_witness:
  "(\<exists>bs. encodeRelayShard \<lparr>clusterId = 16, shards = [5, 3, 5]\<rparr> = Inr bs \<and> length bs = 9
      \<and> decodeRelayShard bs = Inr \<lparr>clusterId = 16, shards = [5, 3, 5]\<rparr>)
   \<and> encodeRelayShard \<lparr>clusterId = 16, shards = replicate 64 1024\<rparr> = Inl RangeError"
  using relay_shard_roundtrip[of "\<lparr>clusterId = 16, shards = [5, 3, 5]\<rparr>"]
    relay_shard_roundtrip[of "\<lparr>clusterId = 16, shards = replicate 64 1024\<rparr>"] by simp

section \<open>Random subsets\<close>

lemma mset_shuffle_step:
  assumes "\<And>i. 0 \<le> random i \<and> random i < 1" and "i < length arr"
  shows "mset (shuffle_step random arr i) = mset arr" "length (shuffle_step random arr i) = length arr"
proof -
  let ?j = "nat \<lfloor>random i * of_nat (length arr)\<rfloor>"
  have "random i * of_nat (length arr) < 1 * of_nat (length arr)"
    using assms by (intro mult_strict_right_mono) auto
  moreover have "0 \<le> random i * of_nat (length arr)" using assms by simp
  ultimately have "?j < length arr" by linarith
  then show "mset (shuffle_step random arr i) = mset arr" "length (shuffle_step random arr i) = length arr"
    using assms(2) by (simp_all add: shuffle_step_def Let_def mset_swap)
qed

lemma mset_shuffle:
  assumes "\<And>i. 0 \<le> random i \<and> random i < 1"
  shows "mset (shuffle random arr) = mset arr" "length (shuffle random arr) = length arr"
proof -
  have "mset (foldl (shuffle_step random) arr is) = mset arr \<and> length (foldl (shuffle_step random) arr is) = length arr"
    if "\<forall>i\<in>set is. i < length arr" for "is" and arr :: "'a list"
    using that by (induction "is" arbitrary: arr) (simp_all add: mset_shuffle_step[OF assms])
  from this[of "[0..<length arr]" arr]
  show "mset (shuffle random arr) = mset arr" "length (shuffle random arr) = length arr"
    by (simp_all add: shuffle_def)
qed

text \<open>A random subset has the wanted size (or is everything) and leaves the caller's array a permutation of what
  it was, of which it is the first part.\<close>

lemma pseudo_random_subset:
  assumes "\<And>i. 0 \<le> random i \<and> random i < 1" and "getPseudoRandomSubset random values n = (values', res)"
  shows "mset values' = mset values \<and> length res = (if length values \<le> 1 then length values else min n (length values))
    \<and> (\<exists>rest. values' = res @ rest)"
proof (cases "length values \<le> n \<or> length values \<le> 1")
  case True
  with assms(2) show ?thesis by (auto simp: getPseudoRandomSubset_def)
next
  case False
  with assms(2) have "values' = shuffle random values" and "res = take n values'"
    by (auto simp: getPseudoRandomSubset_def Let_def)
  with False mset_shuffle[OF assms(1), where arr = "values"] show ?thesis by (auto intro: exI[of _ "drop n values'"])
qed

lemma pushOrInitMapSet_lookup:
  "map_of (pushOrInitMapSet m k v) =
    (map_of m)(k \<mapsto> js_set_add v (case map_of m k of None \<Rightarrow> [] | Some arr \<Rightarrow> arr))"
  by (auto simp: pushOrInitMapSet_def update_conv' split: option.splits)

end
