(* ===== verification/Dialer.thy ===== *)
theory Dialer
  imports Sharding
begin

text \<open>
  Who is dialed, and when: what the peer store says about a peer's shards
  (\<open>packages/core/src/lib/connection_manager/shard_reader.ts\<close>) and the dialer (\<open>dialer.ts\<close>). The libp2p node
  is what its peer store, its connected peers and the ends of its dials say. The dialer is
  asynchronous: a call of \<open>dial\<close> first waits for the shard information, and a dial ends some time
  later; each of these points is a step of its own, so that every interleaving is a list of
  steps. Identities of peers are strings, times are milliseconds.
\<close>

section \<open>shard_reader.ts\<close>

record store_peer =
  sp_id :: string
  sp_protocols :: "string list"
  sp_metadata :: "string \<rightharpoonup> bytes"
  sp_tags :: "string list"
  sp_addresses :: "string list"

type_synonym peer_store = "string \<rightharpoonup> store_peer"

definition getRelayShards :: "peer_store \<Rightarrow> string \<Rightarrow> shard_info option" where
  "getRelayShards ps pid =
     (case ps pid of
        None \<Rightarrow> None
      | Some p \<Rightarrow> (case sp_metadata p ''shardInfo'' of
                     None \<Rightarrow> None
                   | Some bs \<Rightarrow> (case decodeRelayShard bs of Inl e \<Rightarrow> None | Inr si \<Rightarrow> Some si)))"

definition isPeerOnCluster :: "int \<Rightarrow> peer_store \<Rightarrow> string \<Rightarrow> bool" where
  "isPeerOnCluster own ps pid = (case getRelayShards ps pid of None \<Rightarrow> False | Some si \<Rightarrow> clusterId si = own)"

definition hasShardInfo :: "peer_store \<Rightarrow> string \<Rightarrow> bool" where
  "hasShardInfo ps pid \<longleftrightarrow> getRelayShards ps pid \<noteq> None"

definition isPeerOnShard :: "int \<Rightarrow> peer_store \<Rightarrow> string \<Rightarrow> int \<Rightarrow> bool" where
  "isPeerOnShard own ps pid shard =
     (case getRelayShards ps pid of None \<Rightarrow> False | Some si \<Rightarrow> clusterId si = own \<and> shard \<in> set (shards si))"

definition isPeerOnTopic :: "int \<Rightarrow> peer_store \<Rightarrow> string \<Rightarrow> string \<Rightarrow> bool" where
  "isPeerOnTopic own ps pid topic =
     (case pubsubTopicToSingleShardInfo topic of
        Inl e \<Rightarrow> False
      | Inr (cid, shard) \<Rightarrow> if cid \<noteq> own then False else isPeerOnShard own ps pid shard)"

text \<open>Both forms of an announcement are read back, up to the order of the shards.\<close>

lemma decoded_shards:
  assumes "\<forall>i\<in>set (shards si). 0 \<le> i \<and> i < 1024" and "0 \<le> clusterId si" and "clusterId si < 2 ^ 16"
    and "encodeRelayShard si = Inr bs"
  shows "\<exists>sh. decodeRelayShard bs = Inr \<lparr>clusterId = clusterId si, shards = sh\<rparr> \<and> set sh = set (shards si)"
proof -
  have id: "map (\<lambda>s. s mod 2 ^ 16) (shards si) = shards si" using assms(1) by (intro map_idI) auto
  have c: "clusterId si mod 2 ^ 16 = clusterId si" using assms(2,3) by simp
  show ?thesis
  proof (cases "length (shards si) < 64")
    case True
    from relay_shard_list[OF this] relay_shard_list_decode[OF this] assms(4) show ?thesis unfolding id c by auto
  next
    case False
    with relay_shard_bits[of si] assms(1,4) show ?thesis unfolding c by auto
  qed
qed

text \<open>
  A peer whose announcement is in the peer store is found on a pubsub topic exactly when it announced the
  node's own cluster, the topic is of that cluster, and its shard is among the announced ones, whichever of
  the two forms the announcement has.
\<close>

theorem announced_shards_found:
  assumes "\<forall>i\<in>set (shards si). 0 \<le> i \<and> i < 1024" and "0 \<le> clusterId si" and "clusterId si < 2 ^ 16"
    and "encodeRelayShard si = Inr bs" and "ps pid = Some p" and "sp_metadata p ''shardInfo'' = Some bs"
  shows "isPeerOnTopic own ps pid (formatPubsubTopic cid shard)
    \<longleftrightarrow> cid = own \<and> clusterId si = own \<and> shard \<in> set (shards si)"
proof -
  from decoded_shards[OF assms(1-4)]
  have "\<exists>sh. decodeRelayShard bs = Inr \<lparr>clusterId = clusterId si, shards = sh\<rparr> \<and> set sh = set (shards si)" .
  then obtain sh where "getRelayShards ps pid = Some \<lparr>clusterId = clusterId si, shards = sh\<rparr>" "set sh = set (shards si)"
    using assms(5,6) by (auto simp: getRelayShards_def)
  then show ?thesis by (auto simp: isPeerOnTopic_def isPeerOnShard_def)
qed

lemma announced_shards_found_witness:
  "\<exists>bs. encodeRelayShard \<lparr>clusterId = 16, shards = [5, 3]\<rparr> = Inr bs
    \<and> isPeerOnTopic 16 [''p'' \<mapsto> \<lparr>sp_id = ''p'', sp_protocols = [], sp_metadata = [''shardInfo'' \<mapsto> bs], sp_tags = [],
         sp_addresses = []\<rparr>] ''p'' (formatPubsubTopic 16 3)"
proof -
  let ?si = "\<lparr>clusterId = 16, shards = [5, 3]\<rparr> :: shard_info"
  obtain bs where bs: "encodeRelayShard ?si = Inr bs" using relay_shard_list[of ?si] by auto
  let ?p = "\<lparr>sp_id = ''p'', sp_protocols = [], sp_metadata = [''shardInfo'' \<mapsto> bs], sp_tags = [], sp_addresses = []\<rparr>"
  from announced_shards_found[where si = ?si and bs = bs and ps = "[''p'' \<mapsto> ?p]" and pid = "''p''" and p = ?p
      and own = 16 and cid = 16 and shard = 3] bs show ?thesis by auto
qed

section \<open>dialer.ts\<close>

record dial_options =
  maxDialingPeers :: nat
  dialCooldown :: nat
  failedDialCooldown :: nat

record dialer =
  dl_options :: dial_options
  dialingQueue :: "string list"
  dialHistory :: "string \<rightharpoonup> nat"
  failedDials :: "string \<rightharpoonup> nat"
  dialingInterval :: bool
  isProcessing :: bool
  isImmediateDialing :: bool
  waiting :: "string list"
  inFlight :: "(bool \<times> string) list"
  dialed :: "string list"

text \<open>
  \<open>waiting\<close> are the calls of \<open>dial\<close> that wait for the check of the shards and will not skip, \<open>inFlight\<close> the
  dials that have not ended, the immediate one marked, and \<open>dialed\<close> is the log of what libp2p was asked
  to dial.
\<close>

definition dialer_new :: "dial_options \<Rightarrow> dialer" where
  "dialer_new opts = \<lparr>dl_options = opts, dialingQueue = [], dialHistory = Map.empty, failedDials = Map.empty,
     dialingInterval = False, isProcessing = False, isImmediateDialing = False, waiting = [], inFlight = [], dialed = []\<rparr>"

definition dialer_start :: "dialer \<Rightarrow> dialer" where
  "dialer_start d = d\<lparr>dialingInterval := True, dialHistory := Map.empty, failedDials := Map.empty\<rparr>"

definition dialer_stop :: "dialer \<Rightarrow> dialer" where
  "dialer_stop d = d\<lparr>dialingInterval := False, dialHistory := Map.empty, failedDials := Map.empty\<rparr>"

text \<open>A time of zero is falsy.\<close>

definition recent :: "nat \<Rightarrow> nat \<Rightarrow> nat option \<Rightarrow> bool" where
  "recent now cooldown t = (case t of None \<Rightarrow> False | Some t \<Rightarrow> t \<noteq> 0 \<and> int now - int t < int (cooldown * 1000))"

definition isRecentlyDialed :: "nat \<Rightarrow> dialer \<Rightarrow> string \<Rightarrow> bool" where
  "isRecentlyDialed now d pid = recent now (dialCooldown (dl_options d)) (dialHistory d pid)"

definition isRecentlyFailed :: "nat \<Rightarrow> dialer \<Rightarrow> string \<Rightarrow> bool" where
  "isRecentlyFailed now d pid = recent now (failedDialCooldown (dl_options d)) (failedDials d pid)"

text \<open>What the dialer asks the node: its own cluster, the connected peers, the peer store.\<close>

record node_view =
  nv_cluster :: int
  nv_peers :: "string list"
  nv_store :: peer_store

definition shouldSkipPeer :: "node_view \<Rightarrow> nat \<Rightarrow> dialer \<Rightarrow> string \<Rightarrow> bool" where
  "shouldSkipPeer node now d pid =
     (if pid \<in> set (nv_peers node) then True
      else if isRecentlyDialed now d pid then True
      else if isRecentlyFailed now d pid then True
      else if \<not> hasShardInfo (nv_store node) pid then False
      else if \<not> isPeerOnCluster (nv_cluster node) (nv_store node) pid then True
      else False)"

text \<open>A call of \<open>dial\<close> up to the check, and what it does afterwards.\<close>

definition dial_call :: "node_view \<Rightarrow> nat \<Rightarrow> string \<Rightarrow> dialer \<Rightarrow> dialer" where
  "dial_call node now pid d = (if shouldSkipPeer node now d pid then d else d\<lparr>waiting := waiting d @ [pid]\<rparr>)"

definition begin_dial :: "bool \<Rightarrow> string \<Rightarrow> dialer \<Rightarrow> dialer" where
  "begin_dial immediate pid d = d\<lparr>inFlight := inFlight d @ [(immediate, pid)], dialed := dialed d @ [pid]\<rparr>"

definition dial_go :: "nat \<Rightarrow> dialer \<Rightarrow> dialer" where
  "dial_go i d =
     (if length (waiting d) \<le> i then d
      else let pid = waiting d ! i; d1 = d\<lparr>waiting := take i (waiting d) @ drop (Suc i) (waiting d)\<rparr> in
        if dialingQueue d1 = [] \<and> \<not> isProcessing d1 \<and> \<not> isImmediateDialing d1
        then begin_dial True pid (d1\<lparr>isImmediateDialing := True\<rparr>)
        else d1\<lparr>dialingQueue := js_set_add pid (dialingQueue d1)\<rparr>)"

text \<open>The interval. With nothing to dial the batch ends at once.\<close>

definition dl_processQueue :: "dialer \<Rightarrow> dialer" where
  "dl_processQueue d =
     (if dialingQueue d = [] \<or> isProcessing d then d
      else let peersToDial = take (maxDialingPeers (dl_options d)) (dialingQueue d)
           in (fold (begin_dial False) peersToDial (d\<lparr>dialingQueue := drop (maxDialingPeers (dl_options d)) (dialingQueue d)\<rparr>))
                \<lparr>isProcessing := peersToDial \<noteq> []\<rparr>)"

definition dial_tick :: "dialer \<Rightarrow> dialer" where
  "dial_tick d = (if dialingInterval d then dl_processQueue d else d)"

text \<open>
  The end of a dial, by success, failure or timeout: \<open>dialPeer\<close> notes it, and the call that waits for it
  releases its lock, a batch when all its dials have ended.
\<close>

definition dial_ends :: "nat \<Rightarrow> bool \<Rightarrow> nat \<Rightarrow> dialer \<Rightarrow> dialer" where
  "dial_ends i ok now d =
     (if length (inFlight d) \<le> i then d
      else let (immediate, pid) = inFlight d ! i;
               rest = take i (inFlight d) @ drop (Suc i) (inFlight d);
               d1 = d\<lparr>inFlight := rest\<rparr>;
               d2 = (if ok then d1\<lparr>dialHistory := (dialHistory d1)(pid \<mapsto> now), failedDials := (failedDials d1)(pid := None)\<rparr>
                     else d1\<lparr>failedDials := (failedDials d1)(pid \<mapsto> now)\<rparr>)
           in if immediate then d2\<lparr>isImmediateDialing := False\<rparr>
              else d2\<lparr>isProcessing := (\<exists>x\<in>set rest. \<not> fst x)\<rparr>)"

datatype dial_event =
    Dialer_Start
  | Dialer_Stop
  | Dial_Call node_view nat string
  | Dial_Go nat
  | Dial_Tick
  | Dial_Ends nat bool nat

fun dial_step :: "dial_event \<Rightarrow> dialer \<Rightarrow> dialer" where
  "dial_step Dialer_Start d = dialer_start d"
| "dial_step Dialer_Stop d = dialer_stop d"
| "dial_step (Dial_Call node now pid) d = dial_call node now pid d"
| "dial_step (Dial_Go i) d = dial_go i d"
| "dial_step Dial_Tick d = dial_tick d"
| "dial_step (Dial_Ends i ok now) d = dial_ends i ok now d"

definition dial_run :: "dial_event list \<Rightarrow> dialer \<Rightarrow> dialer" where
  "dial_run es d = fold dial_step es d"

section \<open>The invariant\<close>

abbreviation batch :: "(bool \<times> string) list \<Rightarrow> (bool \<times> string) list" where
  "batch fl \<equiv> filter (\<lambda>x. \<not> fst x) fl"

abbreviation single :: "(bool \<times> string) list \<Rightarrow> (bool \<times> string) list" where
  "single fl \<equiv> filter fst fl"

definition dialer_inv :: "dialer \<Rightarrow> bool" where
  "dialer_inv d \<longleftrightarrow> distinct (dialingQueue d)
     \<and> length (batch (inFlight d)) \<le> maxDialingPeers (dl_options d) \<and> (isProcessing d \<longleftrightarrow> batch (inFlight d) \<noteq> [])
     \<and> length (single (inFlight d)) = (if isImmediateDialing d then 1 else 0)"

lemma begin_dials:
  "fold (begin_dial b) ps d = d\<lparr>inFlight := inFlight d @ map (Pair b) ps, dialed := dialed d @ ps\<rparr>"
  by (induction ps arbitrary: d) (simp_all add: begin_dial_def)

lemma processQueue_eq:
  "dl_processQueue d = (if dialingQueue d = [] \<or> isProcessing d then d
     else let ps = take (maxDialingPeers (dl_options d)) (dialingQueue d) in
       d\<lparr>dialingQueue := drop (maxDialingPeers (dl_options d)) (dialingQueue d), inFlight := inFlight d @ map (Pair False) ps,
         dialed := dialed d @ ps, isProcessing := ps \<noteq> []\<rparr>)"
  by (simp add: dl_processQueue_def Let_def begin_dials)

lemma dial_go_inv:
  assumes "dialer_inv d"
  shows "dialer_inv (dial_go i d)"
proof (cases "i < length (waiting d) \<and> dialingQueue d = [] \<and> \<not> isProcessing d \<and> \<not> isImmediateDialing d")
  case True
  then show ?thesis using assms by (simp add: dialer_inv_def dial_go_def begin_dial_def Let_def)
qed (use assms in \<open>auto simp: dialer_inv_def dial_go_def Let_def not_less\<close>)

lemma dial_tick_inv:
  assumes "dialer_inv d"
  shows "dialer_inv (dial_tick d)"
proof (cases "dialingQueue d = [] \<or> isProcessing d \<or> \<not> dialingInterval d")
  case False
  then have "batch (inFlight d) = []" using assms by (simp add: dialer_inv_def)
  then show ?thesis using False assms by (simp add: dialer_inv_def dial_tick_def processQueue_eq Let_def comp_def)
qed (auto simp: dial_tick_def dl_processQueue_def assms)

lemma dial_ends_inv:
  assumes "dialer_inv d"
  shows "dialer_inv (dial_ends i ok now d)"
proof (cases "i < length (inFlight d)")
  case True
  obtain imm pid where x: "inFlight d ! i = (imm, pid)" by fastforce
  let ?rest = "take i (inFlight d) @ drop (Suc i) (inFlight d)"
  have split: "inFlight d = take i (inFlight d) @ (imm, pid) # drop (Suc i) (inFlight d)"
    using id_take_nth_drop[OF True] x by simp
  have counts: "length (batch (inFlight d)) = length (batch ?rest) + (if imm then 0 else 1)"
    "length (single (inFlight d)) = length (single ?rest) + (if imm then 1 else 0)"
    by (subst split, simp)+
  have some: "(\<exists>x\<in>set ?rest. \<not> fst x) \<longleftrightarrow> batch ?rest \<noteq> []" by (metis filter_empty_conv)
  have same: "isProcessing d \<longleftrightarrow> batch ?rest \<noteq> []" if imm
  proof -
    have "batch (inFlight d) = [] \<longleftrightarrow> batch ?rest = []" 
      unfolding length_0_conv[symmetric] counts(1) using that by simp
    then show ?thesis using assms unfolding dialer_inv_def by blast
  qed
  define d2 where "d2 = (if ok then d\<lparr>inFlight := ?rest, dialHistory := (dialHistory d)(pid \<mapsto> now),
      failedDials := (failedDials d)(pid := None)\<rparr> else d\<lparr>inFlight := ?rest, failedDials := (failedDials d)(pid \<mapsto> now)\<rparr>)"
  have fields: "inFlight d2 = ?rest" "dialingQueue d2 = dialingQueue d" "dl_options d2 = dl_options d"
    "isProcessing d2 = isProcessing d" "isImmediateDialing d2 = isImmediateDialing d" by (simp_all add: d2_def)
  have ends: "dial_ends i ok now d = (if imm then d2\<lparr>isImmediateDialing := False\<rparr>
      else d2\<lparr>isProcessing := (\<exists>x\<in>set ?rest. \<not> fst x)\<rparr>)"
    using True x by (simp add: dial_ends_def Let_def d2_def)
  have inv: "distinct (dialingQueue d)" "length (batch (inFlight d)) \<le> maxDialingPeers (dl_options d)"
    "length (single (inFlight d)) = (if isImmediateDialing d then 1 else 0)" using assms unfolding dialer_inv_def by blast+
  show ?thesis
  proof (cases imm)
    case True
    then have "length (single ?rest) = 0" using inv(3) counts(2) by (simp split: if_splits)
    then show ?thesis using True inv counts(1) same[OF True] fields unfolding ends dialer_inv_def by simp
  next
    case False
    then show ?thesis using inv counts some fields unfolding ends dialer_inv_def by simp
  qed
qed (use assms in \<open>simp add: dial_ends_def\<close>)

lemma dial_step_inv: "dialer_inv d \<Longrightarrow> dialer_inv (dial_step e d)"
  by (cases e) (auto simp: dial_go_inv dial_tick_inv dial_ends_inv,
      auto simp: dialer_inv_def dialer_start_def dialer_stop_def dial_call_def)

lemma dial_step_options: "dl_options (dial_step e d) = dl_options d"
  by (cases e) (auto simp: dialer_start_def dialer_stop_def dial_call_def dial_go_def dial_tick_def dial_ends_def
      begin_dial_def processQueue_eq Let_def split: prod.splits)

text \<open>C11: Whatever is dialed, however the calls, the ticks and the ends of the dials interleave, and whether the dialer is
  started or stopped in between: no peer is queued twice, at most \<open>maxDialingPeers\<close> dials of a batch and one
  immediate dial are in progress, and the two locks are held exactly while there are such dials.
\<close>

theorem dialer_run_invariant:
  "dialer_inv (dial_run es (dialer_new opts)) \<and> length (inFlight (dial_run es (dialer_new opts))) \<le> maxDialingPeers opts + 1"
proof -
  have run: "dialer_inv d \<Longrightarrow> dialer_inv (fold dial_step es d) \<and> dl_options (fold dial_step es d) = dl_options d" for d
    by (induction es arbitrary: d) (simp_all add: dial_step_inv dial_step_options)
  have new: "dialer_inv (dialer_new opts)" "dl_options (dialer_new opts) = opts" by (simp_all add: dialer_inv_def dialer_new_def)
  from run[OF new(1)] new(2) have inv: "dialer_inv (dial_run es (dialer_new opts))"
    and "dl_options (dial_run es (dialer_new opts)) = opts" by (simp_all add: dial_run_def)
  moreover have "length fl = length (batch fl) + length (single fl)" for fl :: "(bool \<times> string) list"
    using sum_length_filter_compl[of fst fl] by simp
  then have "length (inFlight (dial_run es (dialer_new opts))) \<le> maxDialingPeers opts + 1"
    using calculation unfolding dialer_inv_def by (metis add_mono if_splits(2) order_refl zero_le)
  ultimately show ?thesis by simp
qed

section \<open>Draining the queue\<close>

text \<open>One round: a tick, and then every dial of its batch ends.\<close>

definition dial_round :: "(string \<Rightarrow> bool) \<Rightarrow> nat \<Rightarrow> dialer \<Rightarrow> dialer" where
  "dial_round ok now d =
     (let d1 = dial_tick d
      in fold (\<lambda>x. dial_ends 0 (ok (snd x)) now) (inFlight d1) d1)"

lemma all_end:
  "inFlight d = fl \<Longrightarrow> \<forall>x\<in>set fl. \<not> fst x \<Longrightarrow> isProcessing d = (fl \<noteq> []) \<Longrightarrow>
   (let d' = fold (\<lambda>x. dial_ends 0 (ok (snd x)) now) fl d in
      inFlight d' = [] \<and> \<not> isProcessing d' \<and> dialingQueue d' = dialingQueue d \<and> dialed d' = dialed d
      \<and> dl_options d' = dl_options d \<and> dialingInterval d' = dialingInterval d)"
proof (induction fl arbitrary: d)
  case (Cons x fl)
  let ?e = "dial_ends 0 (ok (snd x)) now d"
  have some: "(\<exists>y\<in>set fl. \<not> fst y) \<longleftrightarrow> fl \<noteq> []" using Cons.prems(2) by (cases fl) auto
  have "inFlight ?e = fl \<and> isProcessing ?e = (fl \<noteq> []) \<and> dialingQueue ?e = dialingQueue d \<and> dialed ?e = dialed d
      \<and> dl_options ?e = dl_options d \<and> dialingInterval ?e = dialingInterval d"
    using Cons.prems some by (cases x) (simp add: dial_ends_def Let_def)
  with Cons.IH[of ?e] Cons.prems(2) show ?case by (simp add: Let_def)
qed simp

lemma dial_round_eq:
  assumes "inFlight d = []" and "\<not> isProcessing d" and "dialingInterval d"
  shows "let d' = dial_round ok now d; n = maxDialingPeers (dl_options d) in
    inFlight d' = [] \<and> \<not> isProcessing d' \<and> dialingInterval d' \<and> dl_options d' = dl_options d
    \<and> dialingQueue d' = drop n (dialingQueue d) \<and> dialed d' = dialed d @ take n (dialingQueue d)"
proof -
  let ?n = "maxDialingPeers (dl_options d)"
  let ?d = "dial_tick d"
  have t: "inFlight ?d = map (Pair False) (take ?n (dialingQueue d)) \<and> isProcessing ?d = (take ?n (dialingQueue d) \<noteq> [])
      \<and> dialingQueue ?d = drop ?n (dialingQueue d) \<and> dialed ?d = dialed d @ take ?n (dialingQueue d)
      \<and> dl_options ?d = dl_options d \<and> dialingInterval ?d"
    using assms by (auto simp: dial_tick_def processQueue_eq Let_def)
  show ?thesis using all_end[of ?d "inFlight ?d" ok now] t by (simp add: dial_round_def Let_def)
qed

text \<open>The queue drains in order: when every dial ends before the next tick, each round dials the next
  \<open>maxDialingPeers\<close> peers of the queue, whether the dials succeed or fail, and after enough rounds
  everything that was queued has been dialed once.
\<close>

theorem queue_drains:
  assumes "inFlight d = []" and "\<not> isProcessing d" and "dialingInterval d"
  shows "dialed ((dial_round ok now ^^ k) d) = dialed d @ take (k * maxDialingPeers (dl_options d)) (dialingQueue d)
    \<and> dialingQueue ((dial_round ok now ^^ k) d) = drop (k * maxDialingPeers (dl_options d)) (dialingQueue d)
    \<and> (0 < maxDialingPeers (dl_options d) \<and> length (dialingQueue d) \<le> k
         \<longrightarrow> dialed ((dial_round ok now ^^ k) d) = dialed d @ dialingQueue d \<and> dialingQueue ((dial_round ok now ^^ k) d) = [])"
proof -
  let ?n = "maxDialingPeers (dl_options d)"
  have rounds: "let d' = (dial_round ok now ^^ k) d in
      inFlight d' = [] \<and> \<not> isProcessing d' \<and> dialingInterval d' \<and> dl_options d' = dl_options d
      \<and> dialingQueue d' = drop (k * ?n) (dialingQueue d) \<and> dialed d' = dialed d @ take (k * ?n) (dialingQueue d)"
  proof (induction k)
    case (Suc k)
    let ?d = "(dial_round ok now ^^ k) d"
    have "take (k * ?n) q @ take ?n (drop (k * ?n) q) = take (?n + k * ?n) q" for q :: "string list"
      by (metis add.commute take_add)
    then show ?case using dial_round_eq[of ?d ok now] Suc by (simp add: Let_def add.commute)
  qed (simp add: assms Let_def)
  moreover have "length (dialingQueue d) \<le> k * ?n" if "0 < ?n" "length (dialingQueue d) \<le> k"
    using that by (metis le_trans mult.right_neutral mult_le_mono2 Suc_leI One_nat_def)
  ultimately show ?thesis by (simp add: Let_def)
qed

lemma queue_drains_witness:
  "dialed ((dial_round (\<lambda>p. p = ''b'') 9 ^^ 3) ((dialer_new \<lparr>maxDialingPeers = 2, dialCooldown = 10, failedDialCooldown = 60\<rparr>)
      \<lparr>dialingInterval := True, dialingQueue := [''a'', ''b'', ''c'']\<rparr>)) = [''a'', ''b'', ''c'']"
  using queue_drains[where d = "(dialer_new \<lparr>maxDialingPeers = 2, dialCooldown = 10, failedDialCooldown = 60\<rparr>)
      \<lparr>dialingInterval := True, dialingQueue := [''a'', ''b'', ''c'']\<rparr>" and ok = "\<lambda>p. p = ''b''" and now = 9 and k = 3]
  by (simp add: dialer_new_def)

section \<open>Cooldown\<close>

definition idle :: "string \<Rightarrow> dialer \<Rightarrow> bool" where
  "idle pid d \<longleftrightarrow> pid \<notin> set (waiting d) \<and> pid \<notin> set (dialingQueue d) \<and> pid \<notin> snd ` set (inFlight d)"

definition cooling :: "string \<Rightarrow> nat \<Rightarrow> nat \<Rightarrow> dialer \<Rightarrow> bool" where
  "cooling pid t c d \<longleftrightarrow> dialHistory d pid = Some t \<and> c = dialCooldown (dl_options d)
     \<or> failedDials d pid = Some t \<and> c = failedDialCooldown (dl_options d)"

fun within_cooldown :: "string \<Rightarrow> nat \<Rightarrow> nat \<Rightarrow> dial_event \<Rightarrow> bool" where
  "within_cooldown pid t c Dialer_Start = False"
| "within_cooldown pid t c Dialer_Stop = False"
| "within_cooldown pid t c (Dial_Call node now q) = (q = pid \<longrightarrow> int now - int t < int (c * 1000))"
| "within_cooldown pid t c e = True"

lemma in_take_drop: "x \<in> set (take i xs @ drop j xs) \<Longrightarrow> x \<in> set xs"
  by (auto dest: in_set_takeD in_set_dropD)

lemma idle_ends:
  assumes "idle pid d" and "cooling pid t c d"
  shows "idle pid (dial_ends i ok now d) \<and> cooling pid t c (dial_ends i ok now d) \<and> dialed (dial_ends i ok now d) = dialed d"
proof (cases "i < length (inFlight d)")
  case True
  obtain imm q where x: "inFlight d ! i = (imm, q)" by fastforce
  with True have "(imm, q) \<in> set (inFlight d)" by (metis nth_mem)
  with assms(1) have q: "q \<noteq> pid" by (force simp: idle_def)
  have rest: "pid \<notin> snd ` set (take i (inFlight d) @ drop (Suc i) (inFlight d))"
    using assms(1) in_take_drop[of _ i "inFlight d" "Suc i"] unfolding idle_def by blast
  show ?thesis using True x q rest assms by (cases ok; cases imm) (simp_all add: dial_ends_def Let_def idle_def cooling_def)
qed (use assms in \<open>simp add: dial_ends_def\<close>)

lemma idle_step:
  assumes "idle pid d" and "cooling pid t c d" and "t \<noteq> 0" and "within_cooldown pid t c e"
  shows "idle pid (dial_step e d) \<and> cooling pid t c (dial_step e d)
    \<and> count_list (dialed (dial_step e d)) pid = count_list (dialed d) pid"
proof (cases e)
  case (Dial_Call node now q)
  have "shouldSkipPeer node now d pid" if "q = pid"
    using that assms Dial_Call
    by (auto simp: cooling_def shouldSkipPeer_def isRecentlyDialed_def isRecentlyFailed_def recent_def)
  with Dial_Call assms(1,2) show ?thesis by (auto simp: dial_call_def idle_def cooling_def)
next
  case (Dial_Go i)
  show ?thesis
  proof (cases "i < length (waiting d)")
    case True
    then have "waiting d ! i \<noteq> pid" using assms(1) by (auto simp: idle_def)
    then show ?thesis using Dial_Go True assms(1,2) in_take_drop[of pid i "waiting d" "Suc i"]
      by (auto simp: dial_go_def Let_def begin_dial_def idle_def cooling_def)
  qed (use Dial_Go assms in \<open>simp add: dial_go_def\<close>)
next
  case Dial_Tick
  have "pid \<notin> set (take n (dialingQueue d)) \<and> pid \<notin> set (drop n (dialingQueue d))" for n
    using assms(1) by (auto simp: idle_def dest: in_set_takeD in_set_dropD)
  then show ?thesis using Dial_Tick assms(1,2)
    by (auto simp: dial_tick_def processQueue_eq Let_def idle_def cooling_def)
next
  case (Dial_Ends i ok now)
  then show ?thesis using idle_ends[OF assms(1,2)] by simp
qed (use assms(4) in simp_all)

text \<open>A peer whose last dial ended at time \<open>t\<close>, with success or not, and that is neither waiting nor queued nor
  being dialed, is not dialed again while the calls for it come within the cooldown, whatever else
  happens, as long as the dialer is not started or stopped in between (which forgets the times).
\<close>

theorem cooldown_respected:
  assumes "idle pid d" and "cooling pid t c d" and "t \<noteq> 0" and "\<forall>e\<in>set es. within_cooldown pid t c e"
  shows "count_list (dialed (dial_run es d)) pid = count_list (dialed d) pid"
  using assms unfolding dial_run_def
proof (induction es arbitrary: d)
  case (Cons e es)
  with idle_step[OF Cons.prems(1-3), of e] show ?case by simp
qed simp

definition lone_node :: node_view where
  "lone_node = \<lparr>nv_cluster = 1, nv_peers = [], nv_store = Map.empty\<rparr>"

lemma cooldown_respected_witness:
  "count_list (dialed (dial_run [Dial_Call lone_node 69999 ''p'', Dial_Tick]
     ((dialer_new \<lparr>maxDialingPeers = 2, dialCooldown = 10, failedDialCooldown = 60\<rparr>)\<lparr>failedDials := [''p'' \<mapsto> 10000]\<rparr>))) ''p'' = 0"
proof -
  let ?d = "(dialer_new \<lparr>maxDialingPeers = 2, dialCooldown = 10, failedDialCooldown = 60\<rparr>)\<lparr>failedDials := [''p'' \<mapsto> 10000]\<rparr>"
  have "idle ''p'' ?d" "cooling ''p'' 10000 60 ?d" by (simp_all add: idle_def cooling_def dialer_new_def)
  from cooldown_respected[OF this, of "[Dial_Call lone_node 69999 ''p'', Dial_Tick]"] show ?thesis by (simp add: dialer_new_def)
qed

text \<open>
  The dialer does not look at the dials in progress: a second call for a peer that is being dialed, neither
  connected nor known to be on another cluster, queues it, and the next tick dials it a second time, before
  the first dial has ended.
\<close>

theorem dialed_twice_at_once:
  assumes "pid \<notin> set (nv_peers node)" and "\<not> hasShardInfo (nv_store node) pid" and "0 < maxDialingPeers opts"
  shows "inFlight (dial_run [Dialer_Start, Dial_Call node now pid, Dial_Go 0, Dial_Call node later pid, Dial_Go 0, Dial_Tick]
      (dialer_new opts)) = [(True, pid), (False, pid)]"
  using assms
  by (simp add: dial_run_def dialer_start_def dialer_new_def dial_call_def shouldSkipPeer_def isRecentlyDialed_def
      isRecentlyFailed_def recent_def dial_go_def Let_def begin_dial_def js_set_add_def dial_tick_def processQueue_eq)

lemma dialed_twice_at_once_witness:
  "inFlight (dial_run [Dialer_Start, Dial_Call lone_node 5 ''p'', Dial_Go 0, Dial_Call lone_node 6 ''p'', Dial_Go 0, Dial_Tick]
      (dialer_new \<lparr>maxDialingPeers = 3, dialCooldown = 10, failedDialCooldown = 60\<rparr>)) = [(True, ''p''), (False, ''p'')]"
  by (rule dialed_twice_at_once) (simp_all add: lone_node_def hasShardInfo_def getRelayShards_def)

end
