(* ===== verification/Connections.thy ===== *)
theory Connections
  imports Dialer
begin

text \<open>
  The limiter that keeps the number of connections (\<open>connection_limiter.ts\<close>) and the monitor of the network
  (\<open>network_monitor.ts\<close>) under \<open>packages/core/src/lib/connection_manager\<close>. What libp2p knows (connections,
  peer store, transports) is an argument; what the code asks of it (dials, hang-ups) is the result.
\<close>

section \<open>connection_limiter.ts\<close>

definition BOOTSTRAP :: string where "BOOTSTRAP = ''bootstrap''"
definition PEER_EXCHANGE :: string where "PEER_EXCHANGE = ''peer-exchange''"
definition PEER_CACHE :: string where "PEER_CACHE = ''peer-cache''"
definition CONNECTION_LOCKED_TAG :: string where "CONNECTION_LOCKED_TAG = ''locked''"

record cm_options =
  maxBootstrapPeers :: nat
  maxConnections :: nat
  pingKeepAlive :: nat
  relayKeepAlive :: nat
  enableAutoRecovery :: bool
  cm_dial :: dial_options

record connection =
  cn_peer :: string
  cn_tags :: "string list"

text \<open>A transport is its filter of the addresses it can dial; a component is the tag it carries.\<close>

record libp2p_view =
  lv_connections :: "connection list"
  lv_peers :: "store_peer list"
  lv_transports :: "(string list \<Rightarrow> string list) list"
  lv_components :: "string list"

definition isAddressesSupported :: "(string list \<Rightarrow> string list) list \<Rightarrow> string list \<Rightarrow> bool" where
  "isAddressesSupported transports addresses =
     (if transports = [] then False else \<exists>supported\<in>set (map (\<lambda>t. t addresses) transports). 0 < length supported)"

datatype limiter_action =
    Dial_Peer string
  | Hang_Up string
  | Restart_Component string

definition triggerBootstrap :: "libp2p_view \<Rightarrow> limiter_action list" where
  "triggerBootstrap v =
     map Restart_Component (filter (\<lambda>c. c = ''@waku/'' @ BOOTSTRAP \<or> c = ''@waku/'' @ PEER_CACHE) (lv_components v))"

definition notConnectedPeers :: "libp2p_view \<Rightarrow> store_peer list" where
  "notConnectedPeers v =
     filter (\<lambda>p. sp_id p \<notin> set (map cn_peer (lv_connections v)) \<and> isAddressesSupported (lv_transports v) (sp_addresses p))
       (lv_peers v)"

definition getPrioritizedPeers :: "libp2p_view \<Rightarrow> store_peer list" where
  "getPrioritizedPeers v =
     (let ps = notConnectedPeers v in
      filter (\<lambda>p. BOOTSTRAP \<in> set (sp_tags p)) ps @ filter (\<lambda>p. PEER_EXCHANGE \<in> set (sp_tags p)) ps
      @ filter (\<lambda>p. PEER_CACHE \<in> set (sp_tags p)) ps
      @ filter (\<lambda>p. BOOTSTRAP \<notin> set (sp_tags p) \<and> PEER_EXCHANGE \<notin> set (sp_tags p) \<and> PEER_CACHE \<notin> set (sp_tags p)) ps)"

definition maintainConnectionsCount :: "cm_options \<Rightarrow> libp2p_view \<Rightarrow> limiter_action list" where
  "maintainConnectionsCount opts v =
     (let connections = lv_connections v in
      if length connections \<le> maxConnections opts
      then (let peers = getPrioritizedPeers v in
            if peers = [] then triggerBootstrap v
            else map (Dial_Peer \<circ> sp_id) (take (maxConnections opts - length connections) peers))
      else map (Hang_Up \<circ> cn_peer)
             (drop (maxConnections opts) (filter (\<lambda>c. CONNECTION_LOCKED_TAG \<notin> set (cn_tags c)) connections)))"

definition getPeer :: "libp2p_view \<Rightarrow> string \<Rightarrow> store_peer option" where
  "getPeer v pid = find (\<lambda>p. sp_id p = pid) (lv_peers v)"

definition getBootstrapPeers :: "libp2p_view \<Rightarrow> store_peer list" where
  "getBootstrapPeers v =
     filter (\<lambda>p. BOOTSTRAP \<in> set (sp_tags p)) (List.map_filter (getPeer v) (map cn_peer (lv_connections v)))"

definition maintainBootstrapConnections :: "cm_options \<Rightarrow> libp2p_view \<Rightarrow> limiter_action list" where
  "maintainBootstrapConnections opts v =
     (let bootstrapPeers = getBootstrapPeers v in
      if length bootstrapPeers \<le> maxBootstrapPeers opts then []
      else map (Hang_Up \<circ> sp_id) (drop (maxBootstrapPeers opts) bootstrapPeers))"

text \<open>The second step sees the node as the first one left it.\<close>

definition maintainConnections :: "cm_options \<Rightarrow> libp2p_view \<Rightarrow> libp2p_view \<Rightarrow> limiter_action list" where
  "maintainConnections opts v v' = maintainConnectionsCount opts v @ maintainBootstrapConnections opts v'"

definition dialPeersFromStore :: "libp2p_view \<Rightarrow> limiter_action list" where
  "dialPeersFromStore v =
     (let peers = getPrioritizedPeers v in if peers = [] then triggerBootstrap v else map (Dial_Peer \<circ> sp_id) peers)"

record limiter =
  lm_options :: cm_options
  connectionMonitorInterval :: bool
  lm_listening :: bool

definition limiter_start :: "libp2p_view \<Rightarrow> limiter \<Rightarrow> limiter \<times> limiter_action list" where
  "limiter_start v l =
     (l\<lparr>connectionMonitorInterval := (enableAutoRecovery (lm_options l) \<or> connectionMonitorInterval l), lm_listening := True\<rparr>,
      dialPeersFromStore v)"

definition limiter_stop :: "limiter \<Rightarrow> limiter" where
  "limiter_stop l = l\<lparr>connectionMonitorInterval := False, lm_listening := False\<rparr>"

definition onWakuConnectionEvent :: "bool \<Rightarrow> libp2p_view \<Rightarrow> limiter \<Rightarrow> limiter_action list" where
  "onWakuConnectionEvent browserConnected v l =
     (if \<not> lm_listening l \<or> \<not> enableAutoRecovery (lm_options l) then []
      else if browserConnected then dialPeersFromStore v else [])"

definition limiter_onDisconnected :: "libp2p_view \<Rightarrow> limiter \<Rightarrow> limiter_action list" where
  "limiter_onDisconnected v l = (if lm_listening l \<and> lv_connections v = [] then dialPeersFromStore v else [])"

definition limiter_tick :: "libp2p_view \<Rightarrow> libp2p_view \<Rightarrow> limiter \<Rightarrow> limiter_action list" where
  "limiter_tick v v' l = (if connectionMonitorInterval l then maintainConnections (lm_options l) v v' else [])"

text \<open>libp2p closes every connection to a peer it hangs up.\<close>

fun after_action :: "limiter_action \<Rightarrow> connection list \<Rightarrow> connection list" where
  "after_action (Hang_Up pid) cs = filter (\<lambda>c. cn_peer c \<noteq> pid) cs"
| "after_action a cs = cs"

definition after_actions :: "limiter_action list \<Rightarrow> connection list \<Rightarrow> connection list" where
  "after_actions as cs = fold after_action as cs"

abbreviation locked :: "connection \<Rightarrow> bool" where
  "locked c \<equiv> CONNECTION_LOCKED_TAG \<in> set (cn_tags c)"

lemma after_hang_ups: "fold after_action (map (Hang_Up \<circ> f) xs) cs = filter (\<lambda>c. cn_peer c \<notin> f ` set xs) cs"
proof (induction xs arbitrary: cs)
  case (Cons x xs)
  then show ?case by (auto simp: comp_def intro: filter_cong)
qed simp

lemma keep_taken:
  assumes "distinct xs"
  shows "filter (\<lambda>x. x \<notin> set (drop n xs)) xs = take n xs"
proof -
  have disj: "set (take n xs) \<inter> set (drop n xs) = {}" using assms by (intro set_take_disj_set_drop_if_distinct) simp_all
  have "filter (\<lambda>x. x \<notin> set (drop n xs)) (take n xs @ drop n xs) = take n xs"
    unfolding filter_append using disj by (auto simp: filter_id_conv filter_empty_conv)
  then show ?thesis by simp
qed

text \<open>C21: A node with too many connections closes the unlocked connections beyond the first \<open>maxConnections\<close> unlocked
  ones, with every other connection to their peers. With one connection per peer the locked ones survive, and
  as many unlocked ones as the limit allows on their own: so the limit is reached only when there are
  no locked connections.
\<close>

theorem connection_limit:
  assumes "maxConnections opts < length (lv_connections v)"
    and "left_over = after_actions (maintainConnectionsCount opts v) (lv_connections v)"
  shows "left_over = filter (\<lambda>c. cn_peer c \<notin> cn_peer ` set (drop (maxConnections opts) (filter (\<lambda>c. \<not> locked c) (lv_connections v))))
        (lv_connections v)
    \<and> (distinct (map cn_peer (lv_connections v)) \<longrightarrow>
         length left_over = length (filter locked (lv_connections v))
             + min (maxConnections opts) (length (filter (\<lambda>c. \<not> locked c) (lv_connections v)))
         \<and> filter locked left_over = filter locked (lv_connections v)
         \<and> (length left_over \<le> maxConnections opts \<longleftrightarrow> filter locked (lv_connections v) = []))"
proof -
  let ?cs = "lv_connections v" and ?n = "maxConnections opts"
  let ?free = "filter (\<lambda>c. \<not> locked c) ?cs"
  let ?keep = "\<lambda>c. cn_peer c \<notin> cn_peer ` set (drop ?n ?free)"
  have eq: "left_over = filter ?keep ?cs"
    using assms by (simp add: maintainConnectionsCount_def after_actions_def after_hang_ups)
  moreover have "length left_over = length (filter locked ?cs) + min ?n (length ?free)
      \<and> filter locked left_over = filter locked ?cs
      \<and> (length left_over \<le> ?n \<longleftrightarrow> filter locked ?cs = [])" if d: "distinct (map cn_peer ?cs)"
  proof -
    have inj: "cn_peer c = cn_peer c' \<Longrightarrow> c = c'" if "c \<in> set ?cs" "c' \<in> set ?cs" for c c'
      using d that by (auto simp: distinct_map inj_on_def)
    have dropped: "set (drop ?n ?free) \<subseteq> {c \<in> set ?cs. \<not> locked c}" by (auto dest: in_set_dropD)
    have k: "?keep c \<longleftrightarrow> c \<notin> set (drop ?n ?free)" if "c \<in> set ?cs" for c using inj dropped that by blast
    have "filter locked left_over = filter locked ?cs"
      unfolding eq filter_filter by (rule filter_cong) (use k dropped in auto)
    moreover have "filter (\<lambda>c. \<not> locked c) left_over = filter ?keep ?free"
      unfolding eq filter_filter by (rule filter_cong) auto
    moreover have "filter ?keep ?free = filter (\<lambda>c. c \<notin> set (drop ?n ?free)) ?free"
      by (rule filter_cong) (use k in auto)
    moreover have "filter (\<lambda>c. c \<notin> set (drop ?n ?free)) ?free = take ?n ?free"
      by (rule keep_taken) (use d in \<open>simp add: distinct_map\<close>)
    moreover have "length left_over = length (filter locked left_over) + length (filter (\<lambda>c. \<not> locked c) left_over)"
      by (rule sum_length_filter_compl[symmetric])
    moreover have "length ?cs = length (filter locked ?cs) + length ?free" by (rule sum_length_filter_compl[symmetric])
    ultimately have "filter locked left_over = filter locked ?cs"
      and len: "length left_over = length (filter locked ?cs) + min ?n (length ?free)"
      and total: "length ?cs = length (filter locked ?cs) + length ?free" by (simp_all add: min.commute)
    moreover have "length left_over \<le> ?n \<longleftrightarrow> length (filter locked ?cs) = 0"
      using assms(1) unfolding len total by (cases "?n \<le> length ?free") (simp_all only: min_absorb1 min_absorb2, linarith+)
    ultimately show ?thesis unfolding length_0_conv by blast
  qed
  ultimately show ?thesis by blast
qed

lemma connection_limit_witness:
  "let cs = map (\<lambda>(p, t). \<lparr>cn_peer = p, cn_tags = t\<rparr>) [(''a'', [''locked'']), (''b'', []), (''c'', []), (''d'', [])];
       v = \<lparr>lv_connections = cs, lv_peers = [], lv_transports = [], lv_components = []\<rparr>;
       opts = \<lparr>maxBootstrapPeers = 1, maxConnections = 2, pingKeepAlive = 0, relayKeepAlive = 0, enableAutoRecovery = True,
               cm_dial = \<lparr>maxDialingPeers = 3, dialCooldown = 10, failedDialCooldown = 60\<rparr>\<rparr> in
    length (after_actions (maintainConnectionsCount opts v) cs) = 3"
proof -
  let ?cs = "map (\<lambda>(p, t). \<lparr>cn_peer = p, cn_tags = t\<rparr>) [(''a'', [''locked'']), (''b'', []), (''c'', []), (''d'', [])]"
  let ?v = "\<lparr>lv_connections = ?cs, lv_peers = [], lv_transports = [], lv_components = []\<rparr>"
  let ?o = "\<lparr>maxBootstrapPeers = 1, maxConnections = 2, pingKeepAlive = 0, relayKeepAlive = 0, enableAutoRecovery = True,
               cm_dial = \<lparr>maxDialingPeers = 3, dialCooldown = 10, failedDialCooldown = 60\<rparr>\<rparr>"
  have "maxConnections ?o < length (lv_connections ?v)" by simp
  from connection_limit[OF this refl] show ?thesis by (simp add: CONNECTION_LOCKED_TAG_def Let_def)
qed

lemma count_distinct: "distinct xs \<Longrightarrow> count_list xs x = (if x \<in> set xs then 1 else 0)"
  by (induction xs) auto

text \<open>
  The peers to dial are the known peers without a connection that have a supported address, by priority: bootstrap
  peers, peers of the peer exchange, cached peers, the rest. A peer that carries several of the three tags is
  listed once for each, so it is dialed, and counted against the limit, that many times.
\<close>

theorem prioritized_peers:
  assumes "distinct (lv_peers v)"
  shows "set (getPrioritizedPeers v) = set (notConnectedPeers v)
    \<and> (\<forall>p\<in>set (notConnectedPeers v). count_list (getPrioritizedPeers v) p
         = max 1 (length (filter (\<lambda>t. t \<in> set (sp_tags p)) [BOOTSTRAP, PEER_EXCHANGE, PEER_CACHE])))
    \<and> (\<forall>i j. i < j \<and> j < length (getPrioritizedPeers v) \<and> BOOTSTRAP \<in> set (sp_tags (getPrioritizedPeers v ! j))
         \<and> (\<forall>t\<in>{PEER_EXCHANGE, PEER_CACHE}. t \<notin> set (sp_tags (getPrioritizedPeers v ! j)))
         \<longrightarrow> BOOTSTRAP \<in> set (sp_tags (getPrioritizedPeers v ! i)))"
proof (intro conjI ballI allI impI)
  let ?ps = "notConnectedPeers v"
  have d: "distinct ?ps" using assms by (simp add: notConnectedPeers_def)
  show "set (getPrioritizedPeers v) = set ?ps" by (auto simp: getPrioritizedPeers_def Let_def)
  have c: "count_list (filter P ?ps) p = (if p \<in> set ?ps \<and> P p then 1 else 0)" for P p
    using count_distinct[of "filter P ?ps" p] d by simp
  show "count_list (getPrioritizedPeers v) p
      = max 1 (length (filter (\<lambda>t. t \<in> set (sp_tags p)) [BOOTSTRAP, PEER_EXCHANGE, PEER_CACHE]))" if "p \<in> set ?ps" for p
    using that by (simp add: getPrioritizedPeers_def Let_def c)
next
  let ?l = "getPrioritizedPeers v"
  fix i j
  assume ij: "i < j \<and> j < length ?l \<and> BOOTSTRAP \<in> set (sp_tags (?l ! j)) \<and> (\<forall>t\<in>{PEER_EXCHANGE, PEER_CACHE}. t \<notin> set (sp_tags (?l ! j)))"
  let ?b = "filter (\<lambda>p. BOOTSTRAP \<in> set (sp_tags p)) (notConnectedPeers v)"
  obtain rest where l: "?l = ?b @ rest" and r: "\<forall>p\<in>set rest. BOOTSTRAP \<in> set (sp_tags p) \<longrightarrow> PEER_EXCHANGE \<in> set (sp_tags p) \<or> PEER_CACHE \<in> set (sp_tags p)"
    by (auto simp: getPrioritizedPeers_def Let_def)
  have "j < length ?b"
  proof (rule ccontr)
    assume "\<not> j < length ?b"
    then have "?l ! j \<in> set rest" using ij by (simp add: l nth_append) (rule nth_mem, linarith)
    with r ij show False by blast
  qed
  then have "i < length ?b" using ij by linarith
  then have "?l ! i = ?b ! i" and "?b ! i \<in> set ?b" unfolding l by (simp add: nth_append, rule nth_mem)
  then have "?l ! i \<in> set ?b" by simp
  then show "BOOTSTRAP \<in> set (sp_tags (?l ! i))" by simp
qed

section \<open>network_monitor.ts\<close>

record network_monitor =
  isNetworkConnected :: bool
  nm_listening :: bool
  connection_events :: "bool list"

definition monitor_new :: network_monitor where
  "monitor_new = \<lparr>isNetworkConnected = False, nm_listening = False, connection_events = []\<rparr>"

definition monitor_start :: "network_monitor \<Rightarrow> network_monitor" where
  "monitor_start m = m\<lparr>nm_listening := True\<rparr>"

definition monitor_stop :: "network_monitor \<Rightarrow> network_monitor" where
  "monitor_stop m = m\<lparr>nm_listening := False\<rparr>"

text \<open>\<open>online\<close> is what \<open>navigator.onLine\<close> says, \<open>None\<close> where there is no navigator.\<close>

definition isBrowserConnected :: "bool option \<Rightarrow> bool" where
  "isBrowserConnected online = (case online of Some False \<Rightarrow> False | _ \<Rightarrow> True)"

definition isConnected :: "bool option \<Rightarrow> network_monitor \<Rightarrow> bool" where
  "isConnected online m = (if \<not> isBrowserConnected online then False else isNetworkConnected m)"

definition dispatchNetworkEvent :: "bool option \<Rightarrow> network_monitor \<Rightarrow> network_monitor" where
  "dispatchNetworkEvent online m = m\<lparr>connection_events := connection_events m @ [isConnected online m]\<rparr>"

definition monitor_onConnected :: "bool option \<Rightarrow> network_monitor \<Rightarrow> network_monitor" where
  "monitor_onConnected online m =
     (if \<not> isNetworkConnected m then dispatchNetworkEvent online (m\<lparr>isNetworkConnected := True\<rparr>) else m)"

definition monitor_onDisconnected :: "bool option \<Rightarrow> nat \<Rightarrow> network_monitor \<Rightarrow> network_monitor" where
  "monitor_onDisconnected online connections m =
     (if isNetworkConnected m \<and> connections = 0 then dispatchNetworkEvent online (m\<lparr>isNetworkConnected := False\<rparr>) else m)"

text \<open>Every event comes with the number of connections there are after it.\<close>

datatype net_event = Peer_Connected nat | Peer_Disconnected nat | Browser_Change

fun monitor_step :: "bool option \<times> net_event \<Rightarrow> network_monitor \<Rightarrow> network_monitor" where
  "monitor_step (online, Peer_Connected n) m = (if nm_listening m then monitor_onConnected online m else m)"
| "monitor_step (online, Peer_Disconnected n) m = (if nm_listening m then monitor_onDisconnected online n m else m)"
| "monitor_step (online, Browser_Change) m = (if nm_listening m then dispatchNetworkEvent online m else m)"

text \<open>
  What libp2p does: after a peer has connected there is a connection, and a peer that disconnects had one. Both
  functions go through the events from a number of connections on.
\<close>

fun plausible :: "nat \<Rightarrow> net_event list \<Rightarrow> bool" where
  "plausible n [] = True"
| "plausible n (Peer_Connected k # es) = (0 < k \<and> plausible k es)"
| "plausible n (Peer_Disconnected k # es) = (0 < n \<and> plausible k es)"
| "plausible n (Browser_Change # es) = plausible n es"

fun connections_after :: "nat \<Rightarrow> net_event list \<Rightarrow> nat" where
  "connections_after n [] = n"
| "connections_after n (Peer_Connected k # es) = connections_after k es"
| "connections_after n (Peer_Disconnected k # es) = connections_after k es"
| "connections_after n (Browser_Change # es) = connections_after n es"

fun changes :: "nat \<Rightarrow> net_event list \<Rightarrow> bool list" where
  "changes n [] = []"
| "changes n (Peer_Connected k # es) = (if n = 0 then [True] else []) @ changes k es"
| "changes n (Peer_Disconnected k # es) = (if k = 0 then [False] else []) @ changes k es"
| "changes n (Browser_Change # es) = (0 < n) # changes n es"

text \<open>
  A monitor that is started before there are connections knows at every moment whether there are any, and, while
  the browser is online, announces exactly the changes of that, and what the browser notices.
\<close>

theorem network_monitor_right:
  assumes "plausible 0 es" and "m = fold (\<lambda>e. monitor_step (online, e)) es (monitor_start monitor_new)"
  shows "isNetworkConnected m = (0 < connections_after 0 es)
    \<and> isConnected online m = (isBrowserConnected online \<and> 0 < connections_after 0 es)
    \<and> connection_events m = map (\<lambda>b. b \<and> isBrowserConnected online) (changes 0 es)"
proof -
  have run: "plausible n es \<Longrightarrow> nm_listening m \<Longrightarrow> isNetworkConnected m = (0 < n) \<Longrightarrow>
    isNetworkConnected (fold (\<lambda>e. monitor_step (online, e)) es m) = (0 < connections_after n es)
    \<and> connection_events (fold (\<lambda>e. monitor_step (online, e)) es m)
        = connection_events m @ map (\<lambda>b. b \<and> isBrowserConnected online) (changes n es)" for n m
  proof (induction n es arbitrary: m rule: changes.induct)
    case (2 n k es)
    then show ?case
      by (cases "n = 0") (simp_all add: monitor_onConnected_def dispatchNetworkEvent_def isConnected_def)
  next
    case (3 n k es)
    then show ?case
      by (cases "k = 0") (simp_all add: monitor_onDisconnected_def dispatchNetworkEvent_def isConnected_def)
  next
    case (4 n es)
    then show ?case by (simp add: dispatchNetworkEvent_def isConnected_def)
  qed simp
  from run[OF assms(1), of "monitor_start monitor_new"] show ?thesis
    using assms(2) by (simp add: monitor_start_def monitor_new_def isConnected_def)
qed

lemma network_monitor_right_witness:
  "connection_events (fold (\<lambda>e. monitor_step (Some True, e)) [Peer_Connected 1, Peer_Connected 2, Peer_Disconnected 1, Peer_Disconnected 0]
     (monitor_start monitor_new)) = [True, False]"
  using network_monitor_right[of "[Peer_Connected 1, Peer_Connected 2, Peer_Disconnected 1, Peer_Disconnected 0]", OF _ refl, of "Some True"]
  by (simp add: isBrowserConnected_def)

lemma prioritized_peers_witness:
  "let p = \<lparr>sp_id = ''p'', sp_protocols = [], sp_metadata = Map.empty, sp_tags = [''peer-cache'', ''bootstrap''], sp_addresses = [''x'']\<rparr>;
       v = \<lparr>lv_connections = [], lv_peers = [p], lv_transports = [\<lambda>as. as], lv_components = []\<rparr> in
    count_list (getPrioritizedPeers v) p = 2"
proof -
  let ?p = "\<lparr>sp_id = ''p'', sp_protocols = [], sp_metadata = Map.empty, sp_tags = [''peer-cache'', ''bootstrap''], sp_addresses = [''x'']\<rparr>"
  let ?v = "\<lparr>lv_connections = [], lv_peers = [?p], lv_transports = [\<lambda>as. as], lv_components = []\<rparr>"
  have "distinct (lv_peers ?v)" by simp
  from prioritized_peers[OF this] show ?thesis
    by (simp add: notConnectedPeers_def isAddressesSupported_def BOOTSTRAP_def PEER_EXCHANGE_def PEER_CACHE_def Let_def)
qed

end
