(* ===== verification/Keep_Alive.thy ===== *)
theory Keep_Alive
  imports Connections Timers
begin

text \<open>
  The keep-alive pings of \<open>packages/core/src/lib/connection_manager/keep_alive_manager.ts\<close>: one interval per
  connected peer for the libp2p ping, and one per pubsub topic in whose mesh the peer is for the relay ping.
\<close>

section \<open>keep_alive_manager.ts\<close>

datatype ka_kind = Libp2p_Ping string | Relay_Ping string string

text \<open>
  A relay ping is known by the peer it was started for and the pubsub topic its encoder sends on. The maps keep
  the handles of the intervals; \<open>ka_timers\<close> are the intervals there are.
\<close>

record keep_alive =
  ka_options :: cm_options
  ka_config :: network_config
  ka_timers :: "ka_kind timers"
  pingKeepAliveTimers :: "(string \<times> nat) list"
  relayKeepAliveTimers :: "(string \<times> nat list) list"
  ka_listening :: bool

definition keep_alive_new :: "cm_options \<Rightarrow> network_config \<Rightarrow> keep_alive" where
  "keep_alive_new opts cfg = \<lparr>ka_options = opts, ka_config = cfg, ka_timers = no_timers, pingKeepAliveTimers = [],
     relayKeepAliveTimers = [], ka_listening = False\<rparr>"

text \<open>The relay, if there is one: its pubsub topics, and the peers of the mesh of each.\<close>

type_synonym relay_view = "(string \<times> string list) list option"

definition RelayPingContentTopic :: string where "RelayPingContentTopic = ''/relay-ping/1/ping/null''"

definition startLibp2pPing :: "string \<Rightarrow> keep_alive \<Rightarrow> keep_alive" where
  "startLibp2pPing pid k =
     (if pingKeepAlive (ka_options k) = 0 \<or> map_of (pingKeepAliveTimers k) pid \<noteq> None then k
      else (case set_timer (Libp2p_Ping pid) (ka_timers k) of
              (t, h) \<Rightarrow> k\<lparr>ka_timers := t, pingKeepAliveTimers := AList.update pid h (pingKeepAliveTimers k)\<rparr>))"

definition stopLibp2pPing :: "string \<Rightarrow> keep_alive \<Rightarrow> keep_alive" where
  "stopLibp2pPing pid k =
     (case map_of (pingKeepAliveTimers k) pid of
        None \<Rightarrow> k
      | Some h \<Rightarrow> k\<lparr>ka_timers := clear_timer h (ka_timers k), pingKeepAliveTimers := AList.delete pid (pingKeepAliveTimers k)\<rparr>)"

text \<open>The loop over the relay's topics. When the routing information cannot be made, the intervals set so far stay.\<close>

fun relay_intervals ::
  "(bytes \<Rightarrow> bytes) \<Rightarrow> network_config \<Rightarrow> string \<Rightarrow> (string \<times> string list) list \<Rightarrow> ka_kind timers \<times> nat list
     \<Rightarrow> ka_kind timers \<times> (js_error + nat list)" where
  "relay_intervals sha256 cfg pid [] (t, hs) = (t, Inr hs)"
| "relay_intervals sha256 cfg pid ((topic, meshPeers) # topics) (t, hs) =
     (if pid \<notin> set meshPeers then relay_intervals sha256 cfg pid topics (t, hs)
      else (case createRoutingInfo sha256 cfg
                   \<lparr>ro_contentTopic = Some RelayPingContentTopic, ro_shardId = None, ro_pubsubTopic = Some topic\<rparr> of
              Inl e \<Rightarrow> (t, Inl e)
            | Inr ri \<Rightarrow> (case set_timer (Relay_Ping pid (pubsubTopic ri)) t of
                           (t', h) \<Rightarrow> relay_intervals sha256 cfg pid topics (t', hs @ [h]))))"

definition startRelayPing :: "(bytes \<Rightarrow> bytes) \<Rightarrow> relay_view \<Rightarrow> string \<Rightarrow> keep_alive \<Rightarrow> keep_alive" where
  "startRelayPing sha256 relay pid k =
     (case relay of
        None \<Rightarrow> k
      | Some topics \<Rightarrow>
          if relayKeepAlive (ka_options k) = 0 \<or> map_of (relayKeepAliveTimers k) pid \<noteq> None then k
          else (case relay_intervals sha256 (ka_config k) pid topics (ka_timers k, []) of
                  (t, Inl e) \<Rightarrow> k\<lparr>ka_timers := t\<rparr>
                | (t, Inr hs) \<Rightarrow> k\<lparr>ka_timers := t, relayKeepAliveTimers := AList.update pid hs (relayKeepAliveTimers k)\<rparr>))"

definition stopRelayPing :: "relay_view \<Rightarrow> string \<Rightarrow> keep_alive \<Rightarrow> keep_alive" where
  "stopRelayPing relay pid k =
     (case relay of
        None \<Rightarrow> k
      | Some _ \<Rightarrow>
          (case map_of (relayKeepAliveTimers k) pid of
             None \<Rightarrow> k
           | Some hs \<Rightarrow> k\<lparr>ka_timers := fold clear_timer hs (ka_timers k),
                          relayKeepAliveTimers := AList.delete pid (relayKeepAliveTimers k)\<rparr>))"

definition stopPingForPeer :: "relay_view \<Rightarrow> string \<Rightarrow> keep_alive \<Rightarrow> keep_alive" where
  "stopPingForPeer relay pid k = stopRelayPing relay pid (stopLibp2pPing pid k)"

definition startPingForPeer :: "(bytes \<Rightarrow> bytes) \<Rightarrow> relay_view \<Rightarrow> string \<Rightarrow> keep_alive \<Rightarrow> keep_alive" where
  "startPingForPeer sha256 relay pid k =
     startRelayPing sha256 relay pid (startLibp2pPing pid (stopPingForPeer relay pid k))"

definition keep_alive_start :: "keep_alive \<Rightarrow> keep_alive" where
  "keep_alive_start k = k\<lparr>ka_listening := True\<rparr>"

definition keep_alive_stop :: "keep_alive \<Rightarrow> keep_alive" where
  "keep_alive_stop k =
     k\<lparr>ka_listening := False,
       ka_timers := fold clear_timer (concat (map snd (relayKeepAliveTimers k)))
                      (fold clear_timer (map snd (pingKeepAliveTimers k)) (ka_timers k)),
       pingKeepAliveTimers := [], relayKeepAliveTimers := []\<rparr>"

definition ka_onPeerConnect :: "(bytes \<Rightarrow> bytes) \<Rightarrow> relay_view \<Rightarrow> string \<Rightarrow> keep_alive \<Rightarrow> keep_alive" where
  "ka_onPeerConnect sha256 relay pid k = (if ka_listening k then startPingForPeer sha256 relay pid k else k)"

definition ka_onPeerDisconnect :: "relay_view \<Rightarrow> string \<Rightarrow> keep_alive \<Rightarrow> keep_alive" where
  "ka_onPeerDisconnect relay pid k = (if ka_listening k then stopPingForPeer relay pid k else k)"

section \<open>The intervals\<close>

definition ka_inv :: "keep_alive \<Rightarrow> bool" where
  "ka_inv k \<longleftrightarrow> timers_ok (ka_timers k) \<and> distinct (map fst (pingKeepAliveTimers k)) \<and> distinct (map fst (relayKeepAliveTimers k))
     \<and> (\<forall>(pid, h)\<in>set (pingKeepAliveTimers k). live (ka_timers k) h = Some (Libp2p_Ping pid))
     \<and> (\<forall>(pid, hs)\<in>set (relayKeepAliveTimers k). \<forall>h\<in>set hs. \<exists>t. live (ka_timers k) h = Some (Relay_Ping pid t))
     \<and> (\<forall>h. live (ka_timers k) h \<noteq> None \<longrightarrow>
          h \<in> snd ` set (pingKeepAliveTimers k) \<union> (\<Union>(pid, hs)\<in>set (relayKeepAliveTimers k). set hs))"

lemma clear_all: "timers_ok t \<Longrightarrow> timers_ok (fold clear_timer hs t) \<and> live (fold clear_timer hs t) = live t |` (- set hs)"
proof (induction hs arbitrary: t)
  case (Cons h hs)
  then show ?case using js_timers.clear_spec[OF Cons.prems, of h] by (auto simp: restrict_map_def)
qed (simp add: restrict_map_def)

lemma update_fresh: "k \<notin> fst ` set al \<Longrightarrow> AList.update k v al = al @ [(k, v)]"
  by (induction al) auto

lemma alist_delete_set: "distinct (map fst al) \<Longrightarrow> set (AList.delete k al) = {x \<in> set al. fst x \<noteq> k}"
  by (auto simp: AList.delete_eq)

lemma relay_intervals_ok:
  assumes "relay_intervals sha256 cfg pid topics (t, hs) = (t', Inr hs')" and "timers_ok t"
  shows "timers_ok t' \<and> (\<exists>new. hs' = hs @ new \<and> (\<forall>h\<in>set new. live t h = None \<and> (\<exists>tp. live t' h = Some (Relay_Ping pid tp)))
    \<and> (\<forall>h. h \<notin> set new \<longrightarrow> live t' h = live t h))"
  using assms
proof (induction topics arbitrary: t hs)
  case (Cons x topics)
  obtain topic mesh where x: "x = (topic, mesh)" by fastforce
  show ?case
  proof (cases "pid \<in> set mesh")
    case True
    with Cons.prems(1) x obtain ri where ri: "createRoutingInfo sha256 cfg
        \<lparr>ro_contentTopic = Some RelayPingContentTopic, ro_shardId = None, ro_pubsubTopic = Some topic\<rparr> = Inr ri"
      by (auto split: sum.splits)
    obtain t1 h where t1: "set_timer (Relay_Ping pid (pubsubTopic ri)) t = (t1, h)" by fastforce
    have spec: "timers_ok t1 \<and> live t h = None \<and> live t1 = (live t)(h \<mapsto> Relay_Ping pid (pubsubTopic ri))"
      by (rule js_timers.set_spec[OF Cons.prems(2) t1])
    from Cons.prems(1) x True ri t1 have "relay_intervals sha256 cfg pid topics (t1, hs @ [h]) = (t', Inr hs')" by simp
    from Cons.IH[OF this] spec obtain new where new: "timers_ok t'" "hs' = (hs @ [h]) @ new"
      "\<forall>h\<in>set new. live t1 h = None \<and> (\<exists>tp. live t' h = Some (Relay_Ping pid tp))"
      "\<forall>h. h \<notin> set new \<longrightarrow> live t' h = live t1 h" by blast
    have "h \<notin> set new" using new(3) spec by auto
    then have "live t' h = Some (Relay_Ping pid (pubsubTopic ri))" using new(4) spec by simp
    with new spec show ?thesis by (intro conjI exI[of _ "h # new"]) (auto split: if_splits)
  qed (use Cons x in simp)
qed simp

lemma ka_inv_options [simp]:
  "ka_inv (k\<lparr>ka_listening := b\<rparr>) = ka_inv k" by (simp add: ka_inv_def)

lemma stopLibp2pPing_inv:
  assumes "ka_inv k"
  shows "ka_inv (stopLibp2pPing pid k) \<and> map_of (pingKeepAliveTimers (stopLibp2pPing pid k)) pid = None
    \<and> relayKeepAliveTimers (stopLibp2pPing pid k) = relayKeepAliveTimers k \<and> ka_config (stopLibp2pPing pid k) = ka_config k"
proof (cases "map_of (pingKeepAliveTimers k) pid")
  case (Some h)
  have inv: "timers_ok (ka_timers k)" "distinct (map fst (pingKeepAliveTimers k))"
    "\<forall>(pid, h)\<in>set (pingKeepAliveTimers k). live (ka_timers k) h = Some (Libp2p_Ping pid)"
    "\<forall>(pid, hs)\<in>set (relayKeepAliveTimers k). \<forall>h\<in>set hs. \<exists>t. live (ka_timers k) h = Some (Relay_Ping pid t)"
    "\<forall>h. live (ka_timers k) h \<noteq> None \<longrightarrow>
        h \<in> snd ` set (pingKeepAliveTimers k) \<union> (\<Union>(pid, hs)\<in>set (relayKeepAliveTimers k). set hs)"
    "distinct (map fst (relayKeepAliveTimers k))"
    using assms unfolding ka_inv_def by blast+
  have h: "live (ka_timers k) h = Some (Libp2p_Ping pid)" using inv(3) map_of_SomeD[OF Some] by auto
  have c: "timers_ok (clear_timer h (ka_timers k))" "live (clear_timer h (ka_timers k)) = (live (ka_timers k))(h := None)"
    using js_timers.clear_spec[OF inv(1)] by blast+
  have del: "set (AList.delete pid (pingKeepAliveTimers k)) = {x \<in> set (pingKeepAliveTimers k). fst x \<noteq> pid}"
    by (rule alist_delete_set[OF inv(2)])
  let ?k = "k\<lparr>ka_timers := clear_timer h (ka_timers k), pingKeepAliveTimers := AList.delete pid (pingKeepAliveTimers k)\<rparr>"
  have "distinct (map fst (pingKeepAliveTimers ?k))" using inv(2) by (simp add: distinct_delete)
  moreover have "\<forall>(q, g)\<in>set (pingKeepAliveTimers ?k). live (ka_timers ?k) g = Some (Libp2p_Ping q)"
    using inv(3) h by (auto simp: c del)
  moreover have "\<exists>t. live (ka_timers ?k) g = Some (Relay_Ping q t)"
    if q: "(q, hs) \<in> set (relayKeepAliveTimers k)" "g \<in> set hs" for q hs g
  proof -
    from inv(4) q obtain t where "live (ka_timers k) g = Some (Relay_Ping q t)" by blast
    with h show ?thesis by (auto simp: c)
  qed
  moreover from this have "\<forall>(q, hs)\<in>set (relayKeepAliveTimers ?k). \<forall>g\<in>set hs. \<exists>t. live (ka_timers ?k) g = Some (Relay_Ping q t)" by auto
  moreover have "\<forall>g. live (ka_timers ?k) g \<noteq> None \<longrightarrow>
        g \<in> snd ` set (pingKeepAliveTimers ?k) \<union> (\<Union>(pid, hs)\<in>set (relayKeepAliveTimers ?k). set hs)"
  proof (intro allI impI)
    fix g assume g: "live (ka_timers ?k) g \<noteq> None"
    then have gh: "g \<noteq> h" "live (ka_timers k) g \<noteq> None" by (auto simp: c split: if_splits)
    with inv(5) consider "g \<in> snd ` set (pingKeepAliveTimers k)" | "g \<in> (\<Union>(pid, hs)\<in>set (relayKeepAliveTimers k). set hs)" by blast
    then show "g \<in> snd ` set (pingKeepAliveTimers ?k) \<union> (\<Union>(pid, hs)\<in>set (relayKeepAliveTimers ?k). set hs)"
    proof cases
      case 1
      then obtain q where q: "(q, g) \<in> set (pingKeepAliveTimers k)" by auto
      have "q \<noteq> pid" using map_of_is_SomeI[OF inv(2) q] gh(1) Some by auto
      with q show ?thesis by (force simp: del)
    qed auto
  qed
  ultimately have "ka_inv ?k" using inv(6) c(1) unfolding ka_inv_def by simp
  then show ?thesis using Some by (simp add: stopLibp2pPing_def delete_conv')
qed (simp add: stopLibp2pPing_def assms)

lemma stopRelayPing_inv:
  assumes "ka_inv k"
  shows "ka_inv (stopRelayPing relay pid k) \<and> pingKeepAliveTimers (stopRelayPing relay pid k) = pingKeepAliveTimers k
    \<and> ka_config (stopRelayPing relay pid k) = ka_config k"
proof (cases "relay = None \<or> map_of (relayKeepAliveTimers k) pid = None")
  case False
  then obtain topics hs where r: "relay = Some topics" and Some: "map_of (relayKeepAliveTimers k) pid = Some hs" by auto
  have inv: "timers_ok (ka_timers k)" "distinct (map fst (relayKeepAliveTimers k))"
    "\<forall>(pid, h)\<in>set (pingKeepAliveTimers k). live (ka_timers k) h = Some (Libp2p_Ping pid)"
    "\<forall>(pid, hs)\<in>set (relayKeepAliveTimers k). \<forall>h\<in>set hs. \<exists>t. live (ka_timers k) h = Some (Relay_Ping pid t)"
    "\<forall>h. live (ka_timers k) h \<noteq> None \<longrightarrow>
        h \<in> snd ` set (pingKeepAliveTimers k) \<union> (\<Union>(pid, hs)\<in>set (relayKeepAliveTimers k). set hs)"
    "distinct (map fst (pingKeepAliveTimers k))"
    using assms unfolding ka_inv_def by blast+
  have hs: "\<exists>t. live (ka_timers k) h = Some (Relay_Ping pid t)" if "h \<in> set hs" for h
    using inv(4) map_of_SomeD[OF Some] that by auto
  have c: "timers_ok (fold clear_timer hs (ka_timers k))" "live (fold clear_timer hs (ka_timers k)) = live (ka_timers k) |` (- set hs)"
    using clear_all[OF inv(1)] by blast+
  have del: "set (AList.delete pid (relayKeepAliveTimers k)) = {x \<in> set (relayKeepAliveTimers k). fst x \<noteq> pid}"
    by (rule alist_delete_set[OF inv(2)])
  let ?k = "k\<lparr>ka_timers := fold clear_timer hs (ka_timers k), relayKeepAliveTimers := AList.delete pid (relayKeepAliveTimers k)\<rparr>"
  have "distinct (map fst (relayKeepAliveTimers ?k))" using inv(2) by (simp add: distinct_delete)
  moreover have "live (ka_timers ?k) g = Some (Libp2p_Ping q)" if "(q, g) \<in> set (pingKeepAliveTimers k)" for q g
  proof -
    have l: "live (ka_timers k) g = Some (Libp2p_Ping q)" using inv(3) that by auto
    then have "g \<notin> set hs" using hs[of g] by auto
    with l show ?thesis by (simp add: c restrict_map_def)
  qed
  moreover have "\<exists>t. live (ka_timers ?k) g = Some (Relay_Ping q t)"
    if q: "(q, gs) \<in> set (relayKeepAliveTimers ?k)" "g \<in> set gs" for q gs g
  proof -
    from q del have q': "(q, gs) \<in> set (relayKeepAliveTimers k)" "q \<noteq> pid" by auto
    with inv(4) q(2) obtain t where "live (ka_timers k) g = Some (Relay_Ping q t)" by blast
    then have "g \<notin> set hs" using hs[of g] q'(2) by auto
    with \<open>live (ka_timers k) g = _\<close> show ?thesis by (simp add: c restrict_map_def)
  qed
  moreover have "g \<in> snd ` set (pingKeepAliveTimers ?k) \<union> (\<Union>(pid, hs)\<in>set (relayKeepAliveTimers ?k). set hs)"
    if g: "live (ka_timers ?k) g \<noteq> None" for g
  proof -
    from g have gh: "g \<notin> set hs" "live (ka_timers k) g \<noteq> None" by (auto simp: c restrict_map_def split: if_splits)
    with inv(5) consider "g \<in> snd ` set (pingKeepAliveTimers k)" | q gs where "(q, gs) \<in> set (relayKeepAliveTimers k)" "g \<in> set gs" by blast
    then show ?thesis
    proof cases
      case 2
      have "q \<noteq> pid" using map_of_is_SomeI[OF inv(2) 2(1)] 2(2) gh(1) Some by auto
      with 2 show ?thesis by (force simp: del)
    qed auto
  qed
  ultimately have "ka_inv ?k" using inv(6) c(1) unfolding ka_inv_def by auto
  then show ?thesis using Some r by (simp add: stopRelayPing_def)
qed (auto simp: stopRelayPing_def assms split: option.splits)

lemma startLibp2pPing_inv:
  assumes "ka_inv k"
  shows "ka_inv (startLibp2pPing pid k) \<and> relayKeepAliveTimers (startLibp2pPing pid k) = relayKeepAliveTimers k
    \<and> ka_config (startLibp2pPing pid k) = ka_config k"
proof (cases "pingKeepAlive (ka_options k) = 0 \<or> map_of (pingKeepAliveTimers k) pid \<noteq> None")
  case False
  obtain t h where t: "set_timer (Libp2p_Ping pid) (ka_timers k) = (t, h)" by fastforce
  have ok: "timers_ok (ka_timers k)" using assms unfolding ka_inv_def by blast
  from js_timers.set_spec[OF ok t]
  have spec: "timers_ok t" "live (ka_timers k) h = None" "live t = (live (ka_timers k))(h \<mapsto> Libp2p_Ping pid)" by blast+
  have new: "pid \<notin> fst ` set (pingKeepAliveTimers k)" using False by (auto simp: map_of_eq_None_iff)
  have upd: "AList.update pid h (pingKeepAliveTimers k) = pingKeepAliveTimers k @ [(pid, h)]"
    by (rule update_fresh[OF new])
  have keep: "live t g = live (ka_timers k) g" if "live (ka_timers k) g \<noteq> None" for g using that spec by auto
  let ?k = "k\<lparr>ka_timers := t, pingKeepAliveTimers := pingKeepAliveTimers k @ [(pid, h)]\<rparr>"
  have "distinct (map fst (pingKeepAliveTimers ?k))" using assms new unfolding ka_inv_def by auto
  moreover have "\<forall>(q, g)\<in>set (pingKeepAliveTimers ?k). live t g = Some (Libp2p_Ping q)"
    using assms spec keep unfolding ka_inv_def by auto
  moreover have "\<forall>(q, gs)\<in>set (relayKeepAliveTimers ?k). \<forall>g\<in>set gs. \<exists>tp. live t g = Some (Relay_Ping q tp)"
    using assms keep unfolding ka_inv_def by fastforce
  moreover have "\<forall>g. live t g \<noteq> None \<longrightarrow> g \<in> snd ` set (pingKeepAliveTimers ?k) \<union> (\<Union>(pid, hs)\<in>set (relayKeepAliveTimers ?k). set hs)"
    using assms spec(3) unfolding ka_inv_def by (auto split: if_splits)
  ultimately have "ka_inv ?k" using assms spec(1) unfolding ka_inv_def by simp
  then show ?thesis using False t upd by (simp add: startLibp2pPing_def)
qed (use assms in \<open>auto simp: startLibp2pPing_def\<close>)

lemma startRelayPing_inv:
  assumes "ka_inv k"
    and "\<forall>topics. relay = Some topics \<longrightarrow> (\<forall>(topic, mesh)\<in>set topics. \<exists>ri. createRoutingInfo sha256 (ka_config k)
        \<lparr>ro_contentTopic = Some RelayPingContentTopic, ro_shardId = None, ro_pubsubTopic = Some topic\<rparr> = Inr ri)"
  shows "ka_inv (startRelayPing sha256 relay pid k) \<and> ka_config (startRelayPing sha256 relay pid k) = ka_config k
    \<and> pingKeepAliveTimers (startRelayPing sha256 relay pid k) = pingKeepAliveTimers k"
proof (cases "relay = None \<or> relayKeepAlive (ka_options k) = 0 \<or> map_of (relayKeepAliveTimers k) pid \<noteq> None")
  case False
  then obtain topics where r: "relay = Some topics" by auto
  have "\<exists>t hs. relay_intervals sha256 (ka_config k) pid topics (t0, hs0) = (t, Inr hs)" for t0 hs0
    using assms(2) unfolding r
  proof (induction topics arbitrary: t0 hs0)
    case (Cons x topics)
    obtain topic mesh where x: "x = (topic, mesh)" by fastforce
    with Cons.prems obtain ri where "createRoutingInfo sha256 (ka_config k)
        \<lparr>ro_contentTopic = Some RelayPingContentTopic, ro_shardId = None, ro_pubsubTopic = Some topic\<rparr> = Inr ri" by auto
    then show ?case using Cons.IH Cons.prems x by (cases "pid \<in> set mesh") (auto split: prod.splits)
  qed simp
  then obtain t hs where t: "relay_intervals sha256 (ka_config k) pid topics (ka_timers k, []) = (t, Inr hs)" by blast
  have ok: "timers_ok (ka_timers k)" using assms(1) unfolding ka_inv_def by blast
  from relay_intervals_ok[OF t ok] have spec: "timers_ok t"
    "\<forall>h\<in>set hs. live (ka_timers k) h = None \<and> (\<exists>tp. live t h = Some (Relay_Ping pid tp))"
    "\<forall>h. h \<notin> set hs \<longrightarrow> live t h = live (ka_timers k) h" by auto
  have keep: "live t g = live (ka_timers k) g" if "live (ka_timers k) g \<noteq> None" for g
    using that spec(2,3) by (cases "g \<in> set hs") auto
  have new: "pid \<notin> fst ` set (relayKeepAliveTimers k)" using False by (auto simp: map_of_eq_None_iff)
  let ?k = "k\<lparr>ka_timers := t, relayKeepAliveTimers := relayKeepAliveTimers k @ [(pid, hs)]\<rparr>"
  have "distinct (map fst (relayKeepAliveTimers ?k))" using assms(1) new unfolding ka_inv_def by auto
  moreover have "\<forall>(q, g)\<in>set (pingKeepAliveTimers ?k). live t g = Some (Libp2p_Ping q)"
    using assms(1) keep unfolding ka_inv_def by fastforce
  moreover have "\<forall>(q, gs)\<in>set (relayKeepAliveTimers ?k). \<forall>g\<in>set gs. \<exists>tp. live t g = Some (Relay_Ping q tp)"
    using assms(1) keep spec(2) unfolding ka_inv_def by fastforce
  moreover have "\<forall>g. live t g \<noteq> None \<longrightarrow> g \<in> snd ` set (pingKeepAliveTimers ?k) \<union> (\<Union>(pid, hs)\<in>set (relayKeepAliveTimers ?k). set hs)"
  proof (intro allI impI)
    fix g assume "live t g \<noteq> None"
    then show "g \<in> snd ` set (pingKeepAliveTimers ?k) \<union> (\<Union>(pid, hs)\<in>set (relayKeepAliveTimers ?k). set hs)"
      using assms(1) spec(3) unfolding ka_inv_def by (cases "g \<in> set hs") auto
  qed
  ultimately have "ka_inv ?k" using assms(1) spec(1) unfolding ka_inv_def by simp
  then show ?thesis using False t r update_fresh[OF new] by (simp add: startRelayPing_def)
qed (use assms in \<open>auto simp: startRelayPing_def split: option.splits\<close>)

datatype ka_event = Ka_Start | Ka_Stop | Ka_Connect relay_view string | Ka_Disconnect relay_view string

fun ka_step :: "(bytes \<Rightarrow> bytes) \<Rightarrow> ka_event \<Rightarrow> keep_alive \<Rightarrow> keep_alive" where
  "ka_step sha256 Ka_Start k = keep_alive_start k"
| "ka_step sha256 Ka_Stop k = keep_alive_stop k"
| "ka_step sha256 (Ka_Connect relay pid) k = ka_onPeerConnect sha256 relay pid k"
| "ka_step sha256 (Ka_Disconnect relay pid) k = ka_onPeerDisconnect relay pid k"

text \<open>The relay's topics are ones the node's network configuration allows.\<close>

fun ka_sound :: "(bytes \<Rightarrow> bytes) \<Rightarrow> network_config \<Rightarrow> ka_event \<Rightarrow> bool" where
  "ka_sound sha256 cfg (Ka_Connect (Some topics) pid) = (\<forall>(topic, mesh)\<in>set topics. \<exists>ri. createRoutingInfo sha256 cfg
      \<lparr>ro_contentTopic = Some RelayPingContentTopic, ro_shardId = None, ro_pubsubTopic = Some topic\<rparr> = Inr ri)"
| "ka_sound sha256 cfg e = True"

lemma keep_alive_stop_live:
  assumes "ka_inv k"
  shows "live (ka_timers (keep_alive_stop k)) = Map.empty \<and> ka_inv (keep_alive_stop k)"
proof -
  let ?p = "map snd (pingKeepAliveTimers k)" and ?r = "concat (map snd (relayKeepAliveTimers k))"
  have ok: "timers_ok (ka_timers k)" using assms unfolding ka_inv_def by blast
  from clear_all[OF ok, of ?p] clear_all[of "fold clear_timer ?p (ka_timers k)" ?r]
  have "timers_ok (ka_timers (keep_alive_stop k))"
    and l: "live (ka_timers (keep_alive_stop k)) = (live (ka_timers k) |` (- set ?p)) |` (- set ?r)"
    by (simp_all add: keep_alive_stop_def)
  moreover have "live (ka_timers (keep_alive_stop k)) h = None" for h
  proof -
    have "set ?r = (\<Union>(pid, hs)\<in>set (relayKeepAliveTimers k). set hs)" by auto
    then have "live (ka_timers k) h \<noteq> None \<longrightarrow> h \<in> set ?p \<union> set ?r"
      using assms unfolding ka_inv_def by simp
    then show ?thesis unfolding l by (auto simp: restrict_map_def)
  qed
  ultimately show ?thesis by (auto simp: ka_inv_def keep_alive_stop_def)
qed

lemma ka_step_inv:
  assumes "ka_inv k" and "ka_sound sha256 (ka_config k) e"
  shows "ka_inv (ka_step sha256 e k) \<and> ka_config (ka_step sha256 e k) = ka_config k"
proof (cases e)
  case Ka_Stop
  then show ?thesis using keep_alive_stop_live[OF assms(1)] by (simp add: keep_alive_stop_def)
next
  case (Ka_Connect relay pid)
  let ?k1 = "stopPingForPeer relay pid k"
  have 1: "ka_inv ?k1 \<and> ka_config ?k1 = ka_config k"
    using stopLibp2pPing_inv[OF assms(1)] stopRelayPing_inv by (simp add: stopPingForPeer_def)
  then have 2: "ka_inv (startLibp2pPing pid ?k1) \<and> ka_config (startLibp2pPing pid ?k1) = ka_config k"
    using startLibp2pPing_inv by metis
  let ?k2 = "startLibp2pPing pid ?k1"
  have "\<forall>topics. relay = Some topics \<longrightarrow> (\<forall>(topic, mesh)\<in>set topics. \<exists>ri. createRoutingInfo sha256 (ka_config ?k2)
        \<lparr>ro_contentTopic = Some RelayPingContentTopic, ro_shardId = None, ro_pubsubTopic = Some topic\<rparr> = Inr ri)"
    using assms(2) Ka_Connect 2 by (cases relay) simp_all
  from startRelayPing_inv[OF conjunct1[OF 2] this, of pid] 2 show ?thesis
    using Ka_Connect assms(1) by (simp add: ka_onPeerConnect_def startPingForPeer_def)
next
  case (Ka_Disconnect relay pid)
  then show ?thesis using stopLibp2pPing_inv[OF assms(1)] stopRelayPing_inv assms(1)
    by (simp add: ka_onPeerDisconnect_def stopPingForPeer_def)
qed (use assms(1) in \<open>simp_all add: keep_alive_start_def\<close>)

text \<open>
  Whatever peers come and go, every interval there is belongs to exactly one entry of the two maps and pings the
  peer of that entry, so that stopping the manager stops them all, as long as the relay's topics
  fit the network configuration.
\<close>

theorem keep_alive_timers:
  assumes "\<forall>e\<in>set es. ka_sound sha256 cfg e"
  shows "ka_inv (fold (ka_step sha256) es (keep_alive_new opts cfg))
    \<and> live (ka_timers (keep_alive_stop (fold (ka_step sha256) es (keep_alive_new opts cfg)))) = Map.empty"
proof -
  have run: "ka_inv k \<Longrightarrow> ka_config k = cfg \<Longrightarrow> ka_inv (fold (ka_step sha256) es k)" for k
    using assms
  proof (induction es arbitrary: k)
    case (Cons e es)
    with ka_step_inv[of k sha256 e] show ?case by simp
  qed simp
  have "ka_inv (keep_alive_new opts cfg)" by (simp add: ka_inv_def keep_alive_new_def no_timers_def timers_ok_def)
  from run[OF this] have "ka_inv (fold (ka_step sha256) es (keep_alive_new opts cfg))" by (simp add: keep_alive_new_def)
  with keep_alive_stop_live show ?thesis by blast
qed

lemma keep_alive_timers_witness:
  "live (ka_timers (keep_alive_stop (fold (ka_step (\<lambda>bs. [])) [Ka_Start,
      Ka_Connect (Some [(''/waku/2/rs/1/0'', [''p'', ''q''])]) ''p'', Ka_Connect (Some [(''/waku/2/rs/1/0'', [''p''])]) ''p'']
     (keep_alive_new \<lparr>maxBootstrapPeers = 1, maxConnections = 2, pingKeepAlive = 300, relayKeepAlive = 300,
        enableAutoRecovery = True, cm_dial = \<lparr>maxDialingPeers = 3, dialCooldown = 10, failedDialCooldown = 60\<rparr>\<rparr>
        (StaticSharding 1))))) = Map.empty"
proof -
  let ?es = "[Ka_Start, Ka_Connect (Some [(''/waku/2/rs/1/0'', [''p'', ''q''])]) ''p'',
      Ka_Connect (Some [(''/waku/2/rs/1/0'', [''p''])]) ''p'']"
  have "pubsubTopicToSingleShardInfo ''/waku/2/rs/1/0'' = Inr (1, 0)" by code_simp
  then have "\<forall>e\<in>set ?es. ka_sound (\<lambda>bs. []) (StaticSharding 1) e"
    by (simp add: createRoutingInfo_def truthy_def fromPubsubTopic_def)
  from keep_alive_timers[OF this] show ?thesis by blast
qed

end
