(* ===== verification/Peer_Manager.thy ===== *)
theory Peer_Manager
  imports Prelude
begin

text \<open>
  \<open>packages/sdk/src/peer_manager/peer_manager.ts\<close>: which connected peers are used for a protocol, the
  locks that keep using the same ones, and the notices about filter and store peers. What the
  connection manager knows (the connected peers with their protocols, their shards) is an argument, and so
  is the clock. A peer is the string of its id; \<open>pm_tagged\<close> are the connections' peers that carry the lock
  tag.
\<close>

datatype protocol = Relay | Store_protocol | LightPush_protocol | Filter_protocol | LightPush_v2

definition FILTER_CODEC :: string where "FILTER_CODEC = ''/vac/waku/filter-subscribe/2.0.0-beta1''"
definition STORE_CODEC :: string where "STORE_CODEC = ''/vac/waku/store-query/3.0.0''"

definition getProtocolCodecs :: "protocol \<Rightarrow> js_error + string" where
  "getProtocolCodecs p =
     (case p of
        Relay \<Rightarrow> Inl (JsError ''Relay protocol is not supported'')
      | Filter_protocol \<Rightarrow> Inr FILTER_CODEC
      | LightPush_protocol \<Rightarrow> Inr ''/vac/waku/lightpush/3.0.0''
      | Store_protocol \<Rightarrow> Inr STORE_CODEC
      | LightPush_v2 \<Rightarrow> Inr ''/vac/waku/lightpush/2.0.0-beta1'')"

record peer =
  p_id :: string
  p_protocols :: "string list"

record connection_view =
  cv_connected :: "peer list"
  cv_hasShardInfo :: "string \<Rightarrow> bool"
  cv_isPeerOnTopic :: "string \<Rightarrow> string \<Rightarrow> bool"
  cv_connections :: "string list"
  cv_peerStore :: "string \<rightharpoonup> peer"

datatype peer_event = FilterConnect string | FilterDisconnect string | StoreConnect string

record peer_manager =
  numPeersToUse :: nat
  lockedPeers :: "string list"
  unlockedPeers :: "string \<rightharpoonup> nat"
  pm_tagged :: "string list"
  pm_listening :: bool
  pm_events :: "peer_event list"

definition DEFAULT_NUM_PEERS_TO_USE :: nat where "DEFAULT_NUM_PEERS_TO_USE = 2"

text \<open>A configured number of zero is falsy.\<close>

definition peer_manager_new :: "nat option \<Rightarrow> peer_manager" where
  "peer_manager_new cfg =
     \<lparr>numPeersToUse = (case cfg of Some n \<Rightarrow> if n = 0 then DEFAULT_NUM_PEERS_TO_USE else n | None \<Rightarrow> DEFAULT_NUM_PEERS_TO_USE),
      lockedPeers = [], unlockedPeers = Map.empty, pm_tagged = [], pm_listening = False, pm_events = []\<rparr>"

definition pm_start :: "peer_manager \<Rightarrow> peer_manager" where
  "pm_start pm = pm\<lparr>pm_listening := True\<rparr>"

definition pm_stop :: "peer_manager \<Rightarrow> peer_manager" where
  "pm_stop pm = pm\<lparr>pm_listening := False\<rparr>"

definition hasPeerProtocol :: "peer \<Rightarrow> protocol \<Rightarrow> js_error + bool" where
  "hasPeerProtocol p proto =
     (case getProtocolCodecs proto of Inl e \<Rightarrow> Inl e | Inr codec \<Rightarrow> Inr (codec \<in> set (p_protocols p)))"

definition isPeerOnPubsub :: "connection_view \<Rightarrow> string \<Rightarrow> string \<Rightarrow> bool" where
  "isPeerOnPubsub cv pid topic = (if \<not> cv_hasShardInfo cv pid then True else cv_isPeerOnTopic cv pid topic)"

definition isPeerLocked :: "peer_manager \<Rightarrow> string \<Rightarrow> bool" where
  "isPeerLocked pm pid \<longleftrightarrow> pid \<in> set (lockedPeers pm)"

text \<open>A time of zero is falsy.\<close>

definition isPeerAvailableForUse :: "nat \<Rightarrow> peer_manager \<Rightarrow> string \<Rightarrow> bool" where
  "isPeerAvailableForUse now pm pid =
     (case unlockedPeers pm pid of
        None \<Rightarrow> True
      | Some t \<Rightarrow> if t = 0 then True else int now - int t \<ge> 10000)"

definition lockPeer :: "connection_view \<Rightarrow> string \<Rightarrow> peer_manager \<Rightarrow> peer_manager" where
  "lockPeer cv pid pm =
     pm\<lparr>lockedPeers := js_set_add pid (lockedPeers pm),
        pm_tagged := (if pid \<in> set (cv_connections cv) then js_set_add pid (pm_tagged pm) else pm_tagged pm),
        unlockedPeers := (unlockedPeers pm)(pid := None)\<rparr>"

definition unlockPeer :: "nat \<Rightarrow> string \<Rightarrow> peer_manager \<Rightarrow> peer_manager" where
  "unlockPeer now pid pm =
     pm\<lparr>lockedPeers := js_set_delete pid (lockedPeers pm), pm_tagged := js_set_delete pid (pm_tagged pm),
        unlockedPeers := (unlockedPeers pm)(pid \<mapsto> now)\<rparr>"

definition qualifies :: "connection_view \<Rightarrow> nat \<Rightarrow> protocol \<Rightarrow> string \<Rightarrow> peer_manager \<Rightarrow> peer \<Rightarrow> bool" where
  "qualifies cv now proto topic pm p \<longleftrightarrow>
     hasPeerProtocol p proto = Inr True \<and> isPeerOnPubsub cv (p_id p) topic \<and> isPeerAvailableForUse now pm (p_id p)"

definition getPeers :: "connection_view \<Rightarrow> nat \<Rightarrow> protocol \<Rightarrow> string \<Rightarrow> peer_manager \<Rightarrow> peer_manager \<times> (js_error + string list)" where
  "getPeers cv now proto topic pm =
     (case find (\<lambda>p. isl (hasPeerProtocol p proto)) (cv_connected cv) of
        Some p \<Rightarrow> (pm, Inl (projl (hasPeerProtocol p proto)))
      | None \<Rightarrow>
          let results = filter (qualifies cv now proto topic pm) (cv_connected cv);
              locked = filter (\<lambda>p. isPeerLocked pm (p_id p)) results
          in if numPeersToUse pm \<le> length locked
             then (pm, Inr (map p_id (take (numPeersToUse pm) locked)))
             else let notLocked = filter (\<lambda>p. \<not> isPeerLocked pm (p_id p)) results;
                      chosen = map p_id (take (numPeersToUse pm) (locked @ notLocked))
                  in (foldl (\<lambda>pm pid. lockPeer cv pid pm) pm chosen, Inr chosen))"

definition renewPeer :: "connection_view \<Rightarrow> nat \<Rightarrow> string \<Rightarrow> protocol \<Rightarrow> string \<Rightarrow> peer_manager \<Rightarrow> peer_manager \<times> (js_error + unit)" where
  "renewPeer cv now pid proto topic pm =
     (if pid \<notin> p_id ` set (cv_connected cv) then (pm, Inr ())
      else (case getPeers cv now proto topic (unlockPeer now pid pm) of
              (pm', Inl e) \<Rightarrow> (pm', Inl e)
            | (pm', Inr _) \<Rightarrow> (pm', Inr ())))"

text \<open>The libp2p events; \<open>protocols\<close> is what the peer identified with.\<close>

definition onConnected :: "string \<Rightarrow> string list \<Rightarrow> peer_manager \<Rightarrow> peer_manager" where
  "onConnected pid protocols pm =
     pm\<lparr>pm_events := pm_events pm
          @ (if FILTER_CODEC \<in> set protocols then [FilterConnect pid] else [])
          @ (if STORE_CODEC \<in> set protocols then [StoreConnect pid] else [])\<rparr>"

definition onDisconnected :: "connection_view \<Rightarrow> string \<Rightarrow> peer_manager \<Rightarrow> peer_manager" where
  "onDisconnected cv pid pm =
     (case cv_peerStore cv pid of
        None \<Rightarrow> pm
      | Some p \<Rightarrow> if hasPeerProtocol p Filter_protocol = Inr True
                  then pm\<lparr>pm_events := pm_events pm @ [FilterDisconnect (p_id p)]\<rparr> else pm)"

section \<open>Lemmas\<close>

lemma lockPeer_fields [simp]:
  "lockedPeers (lockPeer cv pid pm) = js_set_add pid (lockedPeers pm)"
  "numPeersToUse (lockPeer cv pid pm) = numPeersToUse pm"
  "unlockedPeers (lockPeer cv pid pm) = (unlockedPeers pm)(pid := None)"
  by (simp_all add: lockPeer_def)

lemma foldl_lockPeer:
  "set (lockedPeers (foldl (\<lambda>pm pid. lockPeer cv pid pm) pm ids)) = set (lockedPeers pm) \<union> set ids"
  "numPeersToUse (foldl (\<lambda>pm pid. lockPeer cv pid pm) pm ids) = numPeersToUse pm"
  by (induction ids arbitrary: pm) auto

lemma foldl_lockPeer_unlocked:
  "unlockedPeers (foldl (\<lambda>pm pid. lockPeer cv pid pm) pm ids) = (\<lambda>i. if i \<in> set ids then None else unlockedPeers pm i)"
  by (induction ids arbitrary: pm) (auto simp: fun_eq_iff)

lemma no_protocol_error: "find (\<lambda>p. isl (hasPeerProtocol p proto)) ps = None \<longleftrightarrow> ps = [] \<or> proto \<noteq> Relay"
  by (cases proto; cases ps) (auto simp: find_None_iff hasPeerProtocol_def getProtocolCodecs_def)

text \<open>C38: The peers chosen for a protocol are connected peers that speak it, are not known to be on other shards
  and were not given up in the last ten seconds; they are at most the configured number, all of them or that
  many; peers in use come first; and all chosen peers are locked afterwards.\<close>

theorem getPeers_correct:
  assumes "distinct (map p_id (cv_connected cv))" and "proto \<noteq> Relay"
  shows "\<exists>pm' ids. getPeers cv now proto topic pm = (pm', Inr ids)
    \<and> distinct ids \<and> set ids \<subseteq> p_id ` {p \<in> set (cv_connected cv). qualifies cv now proto topic pm p}
    \<and> length ids = min (numPeersToUse pm) (length (filter (qualifies cv now proto topic pm) (cv_connected cv)))
    \<and> (\<forall>p\<in>set (cv_connected cv). qualifies cv now proto topic pm p \<and> isPeerLocked pm (p_id p) \<and> p_id p \<notin> set ids
         \<longrightarrow> (\<forall>pid\<in>set ids. isPeerLocked pm pid))
    \<and> set (lockedPeers pm') = set (lockedPeers pm) \<union> set ids"
proof -
  let ?q = "filter (qualifies cv now proto topic pm) (cv_connected cv)"
  let ?locked = "filter (\<lambda>p. isPeerLocked pm (p_id p)) ?q" and ?free = "filter (\<lambda>p. \<not> isPeerLocked pm (p_id p)) ?q"
  let ?n = "numPeersToUse pm"
  have d: "distinct (map p_id (?locked @ ?free))"
    using assms(1) by (auto simp: distinct_map_filter inj_on_def distinct_map)
  have len: "length ?locked + length ?free = length ?q" by (rule sum_length_filter_compl)
  have none: "find (\<lambda>p. isl (hasPeerProtocol p proto)) (cv_connected cv) = None" using assms(2) by (simp add: no_protocol_error)
  show ?thesis
  proof (cases "?n \<le> length ?locked")
    case True
    then have g: "getPeers cv now proto topic pm = (pm, Inr (map p_id (take ?n ?locked)))"
      by (simp only: getPeers_def none option.case Let_def if_True)
    have "set (take ?n ?locked) \<subseteq> set ?locked" by (rule set_take_subset)
    then have sub: "\<forall>p\<in>set (take ?n ?locked). p \<in> set (cv_connected cv) \<and> qualifies cv now proto topic pm p \<and> isPeerLocked pm (p_id p)"
      unfolding set_filter by blast
    have "distinct (map p_id ?locked)" using d by simp
    then have "distinct (map p_id (take ?n ?locked))" unfolding take_map[symmetric] by (rule distinct_take)
    moreover have "length (map p_id (take ?n ?locked)) = min ?n (length ?q)" using True len by simp
    moreover have "set (map p_id (take ?n ?locked)) \<subseteq> p_id ` {p \<in> set (cv_connected cv). qualifies cv now proto topic pm p}"
      using sub unfolding set_map by blast
    moreover have "\<forall>pid\<in>set (map p_id (take ?n ?locked)). isPeerLocked pm pid" using sub unfolding set_map by blast
    moreover from this have "set (lockedPeers pm) = set (lockedPeers pm) \<union> set (map p_id (take ?n ?locked))"
      unfolding isPeerLocked_def by blast
    ultimately show ?thesis using g by blast
  next
    case False
    let ?ids = "map p_id (take ?n (?locked @ ?free))"
    have g: "getPeers cv now proto topic pm = (foldl (\<lambda>pm pid. lockPeer cv pid pm) pm ?ids, Inr ?ids)"
      using False by (simp only: getPeers_def none option.case Let_def if_False)
    have "set (take ?n (?locked @ ?free)) \<subseteq> set (?locked @ ?free)" by (rule set_take_subset)
    then have sub: "\<forall>p\<in>set (take ?n (?locked @ ?free)). p \<in> set (cv_connected cv) \<and> qualifies cv now proto topic pm p"
      unfolding set_append set_filter by blast
    have all: "set ?locked \<subseteq> set (take ?n (?locked @ ?free))" using False by simp
    have "distinct ?ids" using d unfolding take_map[symmetric] by (rule distinct_take)
    moreover have "length ?ids = min ?n (length ?q)" using len by simp
    moreover have "set (lockedPeers (foldl (\<lambda>pm pid. lockPeer cv pid pm) pm ?ids)) = set (lockedPeers pm) \<union> set ?ids"
      by (rule foldl_lockPeer(1))
    moreover have "set ?ids \<subseteq> p_id ` {p \<in> set (cv_connected cv). qualifies cv now proto topic pm p}"
      using sub unfolding set_map by blast
    moreover have "p_id p \<in> set ?ids" if "p \<in> set (cv_connected cv)" "qualifies cv now proto topic pm p" "isPeerLocked pm (p_id p)" for p
    proof -
      from that have "p \<in> set ?locked" by simp
      with all show ?thesis unfolding set_map by blast
    qed
    ultimately show ?thesis using g by blast
  qed
qed

text \<open>A locked peer has no record of having been given up.\<close>

definition pm_inv :: "peer_manager \<Rightarrow> bool" where
  "pm_inv pm \<longleftrightarrow> (\<forall>pid\<in>set (lockedPeers pm). unlockedPeers pm pid = None) \<and> 0 < numPeersToUse pm"

lemma pm_inv_new: "pm_inv (peer_manager_new cfg)"
  by (auto simp: pm_inv_def peer_manager_new_def DEFAULT_NUM_PEERS_TO_USE_def split: option.splits)

lemma pm_inv_lock: "pm_inv pm \<Longrightarrow> pm_inv (lockPeer cv pid pm)"
  by (auto simp: pm_inv_def lockPeer_def)

lemma pm_inv_unlock: "pm_inv pm \<Longrightarrow> pm_inv (unlockPeer now pid pm)"
  by (auto simp: pm_inv_def unlockPeer_def)

lemma pm_inv_lock_all: "pm_inv pm \<Longrightarrow> pm_inv (foldl (\<lambda>pm pid. lockPeer cv pid pm) pm pids)"
  by (induction pids arbitrary: pm) (auto intro: pm_inv_lock)

lemma pm_inv_getPeers: "pm_inv pm \<Longrightarrow> pm_inv (fst (getPeers cv now proto topic pm))"
  by (auto simp: getPeers_def Let_def pm_inv_lock_all split: option.splits)

lemma pm_inv_renewPeer: "pm_inv pm \<Longrightarrow> pm_inv (fst (renewPeer cv now pid proto topic pm))"
  using pm_inv_getPeers[OF pm_inv_unlock, of pm cv now proto topic now pid]
  by (auto simp: renewPeer_def split: prod.splits sum.splits)

text \<open>For a locked peer the clock does not matter.\<close>

definition serves :: "connection_view \<Rightarrow> protocol \<Rightarrow> string \<Rightarrow> peer \<Rightarrow> bool" where
  "serves cv proto topic p \<longleftrightarrow> hasPeerProtocol p proto = Inr True \<and> isPeerOnPubsub cv (p_id p) topic"

lemma qualifies_locked:
  "pm_inv pm \<Longrightarrow> isPeerLocked pm (p_id p) \<Longrightarrow> qualifies cv now proto topic pm p = serves cv proto topic p"
  by (auto simp: qualifies_def serves_def isPeerAvailableForUse_def pm_inv_def isPeerLocked_def)

lemma locked_qualifying:
  "pm_inv pm \<Longrightarrow> filter (\<lambda>p. isPeerLocked pm (p_id p)) (filter (qualifies cv now proto topic pm) ps)
    = filter (\<lambda>p. isPeerLocked pm (p_id p) \<and> serves cv proto topic p) ps"
  by (induction ps) (auto simp: qualifies_locked)

text \<open>What is chosen, in terms of the peers that are locked already.\<close>

lemma getPeers_cases:
  assumes "proto \<noteq> Relay" and "getPeers cv now proto topic pm = (pm', Inr ids)"
  defines "locked \<equiv> filter (\<lambda>p. isPeerLocked pm (p_id p)) (filter (qualifies cv now proto topic pm) (cv_connected cv))"
  shows "numPeersToUse pm \<le> length locked \<and> pm' = pm \<and> ids = map p_id (take (numPeersToUse pm) locked)
    \<or> length locked < numPeersToUse pm \<and> pm' = foldl (\<lambda>pm pid. lockPeer cv pid pm) pm ids
      \<and> ids = map p_id (take (numPeersToUse pm) (locked
          @ filter (\<lambda>p. \<not> isPeerLocked pm (p_id p)) (filter (qualifies cv now proto topic pm) (cv_connected cv))))"
proof -
  have "find (\<lambda>p. isl (hasPeerProtocol p proto)) (cv_connected cv) = None" using assms(1) by (simp add: no_protocol_error)
  with assms(2) show ?thesis unfolding getPeers_def option.case Let_def locked_def by (cases "numPeersToUse pm \<le> length locked") (auto simp: locked_def)
qed

lemma not_chosen:
  assumes "proto \<noteq> Relay" and "getPeers cv now proto topic pm = (pm', Inr ids)"
    and "unlockedPeers pm pid = Some t" and "0 < t" and "now < t + 10000"
  shows "pid \<notin> set ids \<and> unlockedPeers pm' pid = Some t"
proof -
  have "\<not> qualifies cv now proto topic pm p" if "p_id p = pid" for p
    using assms(3-5) that by (auto simp: qualifies_def isPeerAvailableForUse_def)
  moreover have "set (take n xs) \<subseteq> set xs" for n and xs :: "peer list" by (rule set_take_subset)
  ultimately have "pid \<notin> set ids" using getPeers_cases[OF assms(1,2)]
    by (elim disjE conjE) (auto dest!: in_set_takeD)
  moreover from this have "unlockedPeers pm' pid = Some t"
    using getPeers_cases[OF assms(1,2)] assms(3) by (auto simp: foldl_lockPeer_unlocked)
  ultimately show ?thesis by blast
qed

lemma getPeers_total: "proto \<noteq> Relay \<Longrightarrow> \<exists>pm' ids. getPeers cv now proto topic pm = (pm', Inr ids)"
  using no_protocol_error[of proto "cv_connected cv"] by (auto simp: getPeers_def Let_def)

lemma pigeonhole_ids:
  assumes "distinct (map p_id ps)" and "S \<subseteq> p_id ` set ps" and "card S = n"
  shows "length (filter (\<lambda>p. p_id p \<in> S) ps) = n"
proof -
  have "card (p_id ` {p \<in> set ps. p_id p \<in> S}) = card {p \<in> set ps. p_id p \<in> S}"
    using assms(1) by (intro card_image) (auto simp: distinct_map inj_on_def)
  moreover have "p_id ` {p \<in> set ps. p_id p \<in> S} = S" using assms(2) by auto
  moreover have "card {p \<in> set ps. p_id p \<in> S} = length (filter (\<lambda>p. p_id p \<in> S) ps)"
  proof -
    have "distinct (filter (\<lambda>p. p_id p \<in> S) ps)" using assms(1) by (simp add: distinct_map)
    from distinct_card[OF this] show ?thesis by simp
  qed
  ultimately show ?thesis using assms(3) by simp
qed

text \<open>The choice is sticky: when enough peers were found, asking again at any later time gives the same
  peers while they are connected. A peer that is renewed is unlocked and is not chosen for ten seconds.\<close>

theorem getPeers_sticky:
  assumes "pm_inv pm" and "distinct (map p_id (cv_connected cv))" and "proto \<noteq> Relay"
    and "getPeers cv now proto topic pm = (pm', Inr ids)" and "length ids = numPeersToUse pm"
    and "pid \<in> p_id ` set (cv_connected cv)" and "0 < t" and "now' < t + 10000"
  shows "(\<exists>ids'. getPeers cv now'' proto topic pm' = (pm', Inr ids') \<and> set ids' = set ids)
    \<and> (\<exists>pm1 pm2 ids'. renewPeer cv t pid proto topic pm' = (pm1, Inr ()) \<and> getPeers cv now' proto topic pm1 = (pm2, Inr ids')
         \<and> pid \<notin> set ids')"
proof -
  have inv: "pm_inv pm'" using pm_inv_getPeers[OF assms(1), of cv now proto topic] assms(4) by simp
  let ?L = "\<lambda>pm. filter (\<lambda>p. isPeerLocked pm (p_id p) \<and> serves cv proto topic p) (cv_connected cv)"
  from getPeers_total[OF assms(3)] obtain pm3 ids' where again: "getPeers cv now'' proto topic pm' = (pm3, Inr ids')" by blast
  note first = getPeers_cases[OF assms(3,4), unfolded locked_qualifying[OF assms(1)]]
  note second = getPeers_cases[OF assms(3) again, unfolded locked_qualifying[OF inv]]
  have "pm3 = pm' \<and> set ids' = set ids"
  proof (cases "numPeersToUse pm \<le> length (?L pm)")
    case True
    with first have "pm' = pm" "ids = map p_id (take (numPeersToUse pm) (?L pm))" by auto
    with second True show ?thesis by auto
  next
    case False
    with first have pm': "pm' = foldl (\<lambda>pm pid. lockPeer cv pid pm) pm ids"
      and ids: "ids = map p_id (take (numPeersToUse pm) (?L pm @ filter (\<lambda>p. \<not> isPeerLocked pm (p_id p))
            (filter (qualifies cv now proto topic pm) (cv_connected cv))))" by auto
    from getPeers_correct[OF assms(2,3), of now topic pm] assms(4)
    have d: "distinct ids" "set ids \<subseteq> p_id ` {p \<in> set (cv_connected cv). qualifies cv now proto topic pm p}" by auto
    have lockedL: "set (?L pm) \<subseteq> set (take (numPeersToUse pm) (?L pm @ filter (\<lambda>p. \<not> isPeerLocked pm (p_id p))
            (filter (qualifies cv now proto topic pm) (cv_connected cv))))" using False by simp
    have L': "?L pm' = filter (\<lambda>p. p_id p \<in> set ids) (cv_connected cv)"
    proof (rule filter_cong[OF refl])
      fix p assume p: "p \<in> set (cv_connected cv)"
      have "isPeerLocked pm' (p_id p) \<longleftrightarrow> isPeerLocked pm (p_id p) \<or> p_id p \<in> set ids"
        by (auto simp: pm' isPeerLocked_def foldl_lockPeer(1))
      moreover have "p_id p \<in> set ids" if "isPeerLocked pm (p_id p)" "serves cv proto topic p"
      proof -
        from that p have "p \<in> set (?L pm)" by simp
        with lockedL show ?thesis unfolding ids set_map by blast
      qed
      moreover have "serves cv proto topic p" if "p_id p \<in> set ids"
      proof -
        from that d(2) obtain q where "q \<in> set (cv_connected cv)" "p_id q = p_id p" "qualifies cv now proto topic pm q" by auto
        moreover from this p assms(2) have "q = p" by (auto simp: distinct_map inj_on_def)
        ultimately show ?thesis by (simp add: qualifies_def serves_def)
      qed
      ultimately show "(isPeerLocked pm' (p_id p) \<and> serves cv proto topic p) = (p_id p \<in> set ids)" by blast
    qed
    have n: "numPeersToUse pm' = numPeersToUse pm" unfolding pm' by (rule foldl_lockPeer(2))
    have "set ids \<subseteq> p_id ` set (cv_connected cv)" using d(2) by auto
    moreover have "card (set ids) = numPeersToUse pm" using d(1) assms(5) by (simp add: distinct_card)
    ultimately have "length (?L pm') = numPeersToUse pm" unfolding L' by (rule pigeonhole_ids[OF assms(2)])
    with second n have "pm3 = pm'" "ids' = map p_id (?L pm')" by auto
    moreover have "set (map p_id (?L pm')) = set ids" using d(2) unfolding L' by auto
    ultimately show ?thesis by simp
  qed
  moreover have "\<exists>pm1 pm2 ids'. renewPeer cv t pid proto topic pm' = (pm1, Inr ()) \<and> getPeers cv now' proto topic pm1 = (pm2, Inr ids')
      \<and> pid \<notin> set ids'"
  proof -
    obtain pm1 ids1 where g: "getPeers cv t proto topic (unlockPeer t pid pm') = (pm1, Inr ids1)"
      using getPeers_total[OF assms(3)] by blast
    have "unlockedPeers (unlockPeer t pid pm') pid = Some t" by (simp add: unlockPeer_def)
    from not_chosen[OF assms(3) g this assms(7)] have "unlockedPeers pm1 pid = Some t" by simp
    moreover obtain pm2 ids2 where "getPeers cv now' proto topic pm1 = (pm2, Inr ids2)" using getPeers_total[OF assms(3)] by blast
    ultimately show ?thesis using not_chosen[OF assms(3), of cv now' topic pm1 pm2 ids2 pid t] assms(6-8) g
      by (auto simp: renewPeer_def)
  qed
  ultimately show ?thesis using again by blast
qed

definition sample_view :: connection_view where
  "sample_view = \<lparr>cv_connected = map (\<lambda>i. \<lparr>p_id = i, p_protocols = [FILTER_CODEC]\<rparr>) [''a'', ''b'', ''c''],
     cv_hasShardInfo = (\<lambda>i. False), cv_isPeerOnTopic = (\<lambda>i t. False), cv_connections = [''a'', ''b'', ''c''],
     cv_peerStore = Map.empty\<rparr>"

lemma sample_getPeers:
  "getPeers sample_view 5 Filter_protocol ''t'' (peer_manager_new None)
    = (foldl (\<lambda>pm pid. lockPeer sample_view pid pm) (peer_manager_new None) [''a'', ''b''], Inr [''a'', ''b''])"
proof -
  have q: "qualifies sample_view 5 Filter_protocol ''t'' (peer_manager_new None) \<lparr>p_id = i, p_protocols = [FILTER_CODEC]\<rparr>" for i
    by (simp add: qualifies_def hasPeerProtocol_def getProtocolCodecs_def isPeerOnPubsub_def isPeerAvailableForUse_def
        sample_view_def peer_manager_new_def)
  have c: "cv_connected sample_view = map (\<lambda>i. \<lparr>p_id = i, p_protocols = [FILTER_CODEC]\<rparr>) [''a'', ''b'', ''c'']"
    by (simp add: sample_view_def)
  have n: "numPeersToUse (peer_manager_new None) = 2" "\<not> isPeerLocked (peer_manager_new None) i" for i
    by (simp_all add: peer_manager_new_def DEFAULT_NUM_PEERS_TO_USE_def isPeerLocked_def)
  have "find (\<lambda>p. isl (hasPeerProtocol p Filter_protocol)) (cv_connected sample_view) = None" by (simp add: no_protocol_error)
  then show ?thesis using q n unfolding getPeers_def option.case Let_def by (simp add: c)
qed

theorem getPeers_correct_witness:
  "\<exists>pm' ids. getPeers sample_view 5 Filter_protocol ''t'' (peer_manager_new None) = (pm', Inr ids)
    \<and> length ids = 2 \<and> set (lockedPeers pm') = set ids"
proof -
  have "distinct (map p_id (cv_connected sample_view))" by (simp add: sample_view_def)
  from getPeers_correct[OF this, of Filter_protocol 5 "''t''" "peer_manager_new None"] sample_getPeers show ?thesis
    by (auto simp: peer_manager_new_def)
qed

theorem getPeers_sticky_witness:
  "\<exists>pm' ids pm1 pm2 ids'. getPeers sample_view 5 Filter_protocol ''t'' (peer_manager_new None) = (pm', Inr ids)
     \<and> renewPeer sample_view 7 ''a'' Filter_protocol ''t'' pm' = (pm1, Inr ())
     \<and> getPeers sample_view 8 Filter_protocol ''t'' pm1 = (pm2, Inr ids') \<and> ''a'' \<notin> set ids'"
proof -
  have d: "distinct (map p_id (cv_connected sample_view))" "''a'' \<in> p_id ` set (cv_connected sample_view)"
    by (simp_all add: sample_view_def)
  have n: "length [''a'', ''b''] = numPeersToUse (peer_manager_new None)" by (simp add: peer_manager_new_def DEFAULT_NUM_PEERS_TO_USE_def)
  have a: "Filter_protocol \<noteq> Relay" "(0::nat) < 7" "(8::nat) < 7 + 10000" by simp_all
  from getPeers_sticky[OF pm_inv_new d(1) a(1) sample_getPeers n d(2) a(2,3)] sample_getPeers show ?thesis by blast
qed

end
