(* ===== verification/Connection_Manager.thy ===== *)
theory Connection_Manager
  imports Keep_Alive Peer_Manager
begin

text \<open>
  The connection manager (\<open>packages/core/src/lib/connection_manager/connection_manager.ts\<close> with
  \<open>discovery_dialer.ts\<close> and \<open>utils.ts\<close>): it owns the dialer, the monitor, the keep-alive manager, the
  limiter and the dialer of discovered peers, and they hear the same events of the node. A step of the model is
  one event, with everything its listeners do at once; what the limiter wants dialed goes to the dialer.
\<close>

section \<open>utils.ts\<close>

text \<open>The pings are written by the keep-alive manager, as digits.\<close>

definition getPeerPing :: "store_peer option \<Rightarrow> int option" where
  "getPeerPing p =
     (case p of
        None \<Rightarrow> Some (- 1)
      | Some p \<Rightarrow> (case sp_metadata p ''ping'' of
                     None \<Rightarrow> Some (- 1)
                   | Some bs \<Rightarrow> js_Number (map (\<lambda>b. char_of (unat b)) bs)))"

datatype dial_target = Target_PeerId string | Target_Multiaddr string

definition mapToPeerIdOrMultiaddr :: "(string \<Rightarrow> js_error + 'ma) \<Rightarrow> dial_target \<Rightarrow> js_error + (string + 'ma)" where
  "mapToPeerIdOrMultiaddr multiaddr input =
     (case input of Target_PeerId pid \<Rightarrow> Inr (Inl pid) | Target_Multiaddr s \<Rightarrow> bindE (multiaddr s) (\<lambda>ma. Inr (Inr ma)))"

definition mapToPeerId ::
  "(string \<Rightarrow> js_error + 'ma) \<Rightarrow> ('ma \<Rightarrow> string option) \<Rightarrow> (string option \<Rightarrow> js_error + string) \<Rightarrow> dial_target \<Rightarrow> js_error + string" where
  "mapToPeerId multiaddr getPeerId peerIdFromString input =
     (case input of
        Target_PeerId pid \<Rightarrow> Inr pid
      | Target_Multiaddr s \<Rightarrow> bindE (multiaddr s) (\<lambda>ma. peerIdFromString (getPeerId ma)))"

section \<open>discovery_dialer.ts\<close>

datatype store_update = Save_Peer string "string list" | Merge_Peer string "string list"

definition updatePeerStore :: "peer_store \<Rightarrow> string \<Rightarrow> string list \<Rightarrow> store_update list" where
  "updatePeerStore ps pid multiaddrs =
     (case ps pid of
        None \<Rightarrow> [Save_Peer pid multiaddrs]
      | Some peer \<Rightarrow> if \<forall>a\<in>set multiaddrs. a \<in> set (sp_addresses peer) then [] else [Merge_Peer pid multiaddrs])"

section \<open>connection_manager.ts\<close>

record cm_config =
  cf_maxBootstrapPeers :: "nat option"
  cf_maxConnections :: "nat option"
  cf_pingKeepAlive :: "nat option"
  cf_relayKeepAlive :: "nat option"
  cf_enableAutoRecovery :: "bool option"
  cf_maxDialingPeers :: "nat option"
  cf_failedDialCooldown :: "nat option"
  cf_dialCooldown :: "nat option"

definition given_or :: "'a \<Rightarrow> 'a option \<Rightarrow> 'a" where
  "given_or d x = (case x of None \<Rightarrow> d | Some v \<Rightarrow> v)"

definition with_defaults :: "cm_config \<Rightarrow> cm_options" where
  "with_defaults c =
     \<lparr>maxBootstrapPeers = given_or 3 (cf_maxBootstrapPeers c), maxConnections = given_or 10 (cf_maxConnections c),
      pingKeepAlive = given_or (5 * 60) (cf_pingKeepAlive c), relayKeepAlive = given_or (5 * 60) (cf_relayKeepAlive c),
      enableAutoRecovery = given_or True (cf_enableAutoRecovery c),
      cm_dial = \<lparr>maxDialingPeers = given_or 3 (cf_maxDialingPeers c), dialCooldown = given_or 10 (cf_dialCooldown c),
                 failedDialCooldown = given_or 60 (cf_failedDialCooldown c)\<rparr>\<rparr>"

record cm =
  cm_dialer :: dialer
  cm_monitor :: network_monitor
  cm_discovering :: bool
  cm_keep_alive :: keep_alive
  cm_limiter :: limiter
  cm_requests :: "limiter_action list"
  cm_updates :: "store_update list"

text \<open>\<open>cm_requests\<close> and \<open>cm_updates\<close> are the log of the hang-ups, restarts and changes of the peer store.\<close>

definition cm_new :: "cm_config \<Rightarrow> network_config \<Rightarrow> cm" where
  "cm_new partial cfg =
     (let opts = with_defaults partial in
      \<lparr>cm_dialer = dialer_new (cm_dial opts), cm_monitor = monitor_new, cm_discovering = False,
       cm_keep_alive = keep_alive_new opts cfg,
       cm_limiter = \<lparr>lm_options = opts, connectionMonitorInterval = False, lm_listening = False\<rparr>,
       cm_requests = [], cm_updates = []\<rparr>)"

text \<open>The node at the moment of an event.\<close>

record world =
  w_libp2p :: libp2p_view
  w_now :: nat
  w_online :: "bool option"
  w_relay :: relay_view
  w_sha256 :: "bytes \<Rightarrow> bytes"

definition node_of :: "cm \<Rightarrow> world \<Rightarrow> node_view" where
  "node_of c w = \<lparr>nv_cluster = nc_clusterId (ka_config (cm_keep_alive c)), nv_peers = map cn_peer (lv_connections (w_libp2p w)),
                  nv_store = getPeer (w_libp2p w)\<rparr>"

definition perform :: "world \<Rightarrow> limiter_action \<Rightarrow> cm \<Rightarrow> cm" where
  "perform w a c =
     (case a of
        Dial_Peer pid \<Rightarrow> c\<lparr>cm_dialer := dial_call (node_of c w) (w_now w) pid (cm_dialer c)\<rparr>
      | _ \<Rightarrow> c\<lparr>cm_requests := cm_requests c @ [a]\<rparr>)"

definition cm_start :: "world \<Rightarrow> cm \<Rightarrow> cm" where
  "cm_start w c =
     (let c1 = c\<lparr>cm_dialer := dialer_start (cm_dialer c), cm_monitor := monitor_start (cm_monitor c), cm_discovering := True,
                 cm_keep_alive := keep_alive_start (cm_keep_alive c)\<rparr>
      in case limiter_start (w_libp2p w) (cm_limiter c1) of (l, as) \<Rightarrow> fold (perform w) as (c1\<lparr>cm_limiter := l\<rparr>))"

definition cm_stop :: "cm \<Rightarrow> cm" where
  "cm_stop c =
     c\<lparr>cm_dialer := dialer_stop (cm_dialer c), cm_monitor := monitor_stop (cm_monitor c), cm_discovering := False,
       cm_keep_alive := keep_alive_stop (cm_keep_alive c), cm_limiter := limiter_stop (cm_limiter c)\<rparr>"

text \<open>When the monitor announces something, the limiter hears it at once.\<close>

definition announce :: "world \<Rightarrow> net_event \<Rightarrow> cm \<Rightarrow> cm" where
  "announce w e c =
     (let m = monitor_step (w_online w, e) (cm_monitor c); c1 = c\<lparr>cm_monitor := m\<rparr>
      in if connection_events m = connection_events (cm_monitor c) then c1
         else fold (perform w) (onWakuConnectionEvent (isBrowserConnected (w_online w)) (w_libp2p w) (cm_limiter c1)) c1)"

definition cm_peer_connect :: "world \<Rightarrow> string \<Rightarrow> cm \<Rightarrow> cm" where
  "cm_peer_connect w pid c =
     (let c1 = announce w (Peer_Connected (length (lv_connections (w_libp2p w)))) c
      in c1\<lparr>cm_keep_alive := ka_onPeerConnect (w_sha256 w) (w_relay w) pid (cm_keep_alive c1)\<rparr>)"

definition cm_peer_disconnect :: "world \<Rightarrow> string \<Rightarrow> cm \<Rightarrow> cm" where
  "cm_peer_disconnect w pid c =
     (let c1 = announce w (Peer_Disconnected (length (lv_connections (w_libp2p w)))) c;
          c2 = c1\<lparr>cm_keep_alive := ka_onPeerDisconnect (w_relay w) pid (cm_keep_alive c1)\<rparr>
      in fold (perform w) (limiter_onDisconnected (w_libp2p w) (cm_limiter c2)) c2)"

definition cm_discovered :: "world \<Rightarrow> string \<Rightarrow> string list \<Rightarrow> cm \<Rightarrow> cm" where
  "cm_discovered w pid multiaddrs c =
     (if \<not> cm_discovering c then c
      else c\<lparr>cm_updates := cm_updates c @ updatePeerStore (getPeer (w_libp2p w)) pid multiaddrs,
             cm_dialer := dial_call (node_of c w) (w_now w) pid (cm_dialer c)\<rparr>)"

datatype cm_event =
    Cm_Start
  | Cm_Stop
  | Cm_Connect string
  | Cm_Disconnect string
  | Cm_Discovered string "string list"
  | Cm_Browser
  | Cm_Limiter_Tick libp2p_view
  | Cm_Dialer_Tick
  | Cm_Dial_Go nat
  | Cm_Dial_Ends nat bool

fun cm_step :: "world \<times> cm_event \<Rightarrow> cm \<Rightarrow> cm" where
  "cm_step (w, Cm_Start) c = cm_start w c"
| "cm_step (w, Cm_Stop) c = cm_stop c"
| "cm_step (w, Cm_Connect pid) c = cm_peer_connect w pid c"
| "cm_step (w, Cm_Disconnect pid) c = cm_peer_disconnect w pid c"
| "cm_step (w, Cm_Discovered pid addrs) c = cm_discovered w pid addrs c"
| "cm_step (w, Cm_Browser) c = announce w Browser_Change c"
| "cm_step (w, Cm_Limiter_Tick v') c = fold (perform w) (limiter_tick (w_libp2p w) v' (cm_limiter c)) c"
| "cm_step (w, Cm_Dialer_Tick) c = c\<lparr>cm_dialer := dial_tick (cm_dialer c)\<rparr>"
| "cm_step (w, Cm_Dial_Go i) c = c\<lparr>cm_dialer := dial_go i (cm_dialer c)\<rparr>"
| "cm_step (w, Cm_Dial_Ends i ok) c = c\<lparr>cm_dialer := dial_ends i ok (w_now w) (cm_dialer c)\<rparr>"

definition cm_run :: "(world \<times> cm_event) list \<Rightarrow> cm \<Rightarrow> cm" where
  "cm_run es c = fold cm_step es c"

definition cm_isConnected :: "bool option \<Rightarrow> cm \<Rightarrow> bool" where
  "cm_isConnected online c = isConnected online (cm_monitor c)"

text \<open>A comparison with something that is not a number is not a number, which a sort takes for equal.\<close>

definition compare_pings :: "store_peer \<Rightarrow> store_peer \<Rightarrow> int" where
  "compare_pings left right =
     (case (getPeerPing (Some left), getPeerPing (Some right)) of (Some l, Some r) \<Rightarrow> l - r | _ \<Rightarrow> 0)"

definition getConnectedPeers :: "string option \<Rightarrow> libp2p_view \<Rightarrow> store_peer list" where
  "getConnectedPeers codec v =
     (let peerIDs = remdups (map cn_peer (lv_connections v)) in
      if peerIDs = [] then []
      else js_sort compare_pings
             (filter (\<lambda>p. case truthy codec of None \<Rightarrow> True | Some c \<Rightarrow> c \<in> set (sp_protocols p))
                (List.map_filter (getPeer v) peerIDs)))"

definition cm_hangUp :: "(string \<Rightarrow> js_error + unit) \<Rightarrow> js_error + string \<Rightarrow> js_error + bool" where
  "cm_hangUp hangUp target = bindE target (\<lambda>pid. Inr (\<not> isl (hangUp pid)))"

section \<open>A stopped manager\<close>

lemma perform_fields:
  "cm_monitor (fold (perform w) as c) = cm_monitor c" "cm_discovering (fold (perform w) as c) = cm_discovering c"
  "cm_keep_alive (fold (perform w) as c) = cm_keep_alive c" "cm_limiter (fold (perform w) as c) = cm_limiter c"
  by (induction as arbitrary: c) (simp_all add: perform_def split: limiter_action.splits)

definition silent :: "cm \<Rightarrow> bool" where
  "silent c \<longleftrightarrow> \<not> nm_listening (cm_monitor c) \<and> \<not> cm_discovering c \<and> \<not> ka_listening (cm_keep_alive c)
     \<and> \<not> lm_listening (cm_limiter c) \<and> \<not> connectionMonitorInterval (cm_limiter c) \<and> \<not> dialingInterval (cm_dialer c)"

fun dial_event_only :: "cm_event \<Rightarrow> bool" where
  "dial_event_only (Cm_Dial_Go i) = True"
| "dial_event_only (Cm_Dial_Ends i ok) = True"
| "dial_event_only e = False"

lemma silent_step:
  assumes "silent c" and "e \<noteq> Cm_Start" and "e \<noteq> Cm_Stop"
  shows "cm_step (w, e) c = c \<or> dial_event_only e \<and> (\<exists>d. cm_step (w, e) c = c\<lparr>cm_dialer := d\<rparr> \<and> \<not> dialingInterval d)"
proof (cases e)
  case (Cm_Connect pid)
  then show ?thesis using assms(1)
    by (simp add: silent_def cm_peer_connect_def announce_def Let_def ka_onPeerConnect_def)
next
  case (Cm_Disconnect pid)
  then show ?thesis using assms(1)
    by (simp add: silent_def cm_peer_disconnect_def announce_def Let_def ka_onPeerDisconnect_def limiter_onDisconnected_def)
next
  case (Cm_Dial_Go i)
  have "dialingInterval (dial_go i d) = dialingInterval d" for d by (simp add: dial_go_def begin_dial_def Let_def)
  then show ?thesis using Cm_Dial_Go assms(1) by (auto simp: silent_def)
next
  case (Cm_Dial_Ends i ok)
  have "dialingInterval (dial_ends i ok (w_now w) d) = dialingInterval d" for d
    by (simp add: dial_ends_def Let_def split: prod.splits)
  then show ?thesis using Cm_Dial_Ends assms(1) by (auto simp: silent_def)
qed (use assms in \<open>simp_all add: silent_def cm_discovered_def announce_def Let_def limiter_tick_def dial_tick_def\<close>)

lemma silent_cm_stop: "silent (cm_stop c)"
  by (simp add: silent_def cm_stop_def monitor_stop_def keep_alive_stop_def limiter_stop_def dialer_stop_def)

text \<open>A manager that was stopped does nothing more, whatever the node says and whichever intervals would fire: it asks
  for no hang-up and no restart, changes no peer and starts no ping. Only the calls of the dialer
  that were waiting for the check of a peer's shards go on: they still dial.
\<close>

theorem stopped_manager_silent:
  assumes "\<forall>(w, e)\<in>set es. e \<noteq> Cm_Start \<and> e \<noteq> Cm_Stop"
  shows "let c' = cm_run es (cm_stop c) in
    silent c' \<and> cm_requests c' = cm_requests c \<and> cm_updates c' = cm_updates c
    \<and> cm_keep_alive c' = keep_alive_stop (cm_keep_alive c)
    \<and> ((\<forall>(w, e)\<in>set es. \<not> dial_event_only e) \<longrightarrow> c' = cm_stop c)"
proof -
  have run: "silent c \<Longrightarrow> silent (cm_run es c) \<and> cm_requests (cm_run es c) = cm_requests c
      \<and> cm_updates (cm_run es c) = cm_updates c \<and> cm_keep_alive (cm_run es c) = cm_keep_alive c
      \<and> ((\<forall>(w, e)\<in>set es. \<not> dial_event_only e) \<longrightarrow> cm_run es c = c)" for c
    using assms
  proof (induction es arbitrary: c)
    case (Cons x es)
    obtain w e where x: "x = (w, e)" by fastforce
    with Cons.prems have "e \<noteq> Cm_Start" "e \<noteq> Cm_Stop" by auto
    from silent_step[OF Cons.prems(1) this, of w] show ?case
    proof
      assume "cm_step (w, e) c = c"
      with Cons.IH[of c] Cons.prems x show ?thesis by (simp add: cm_run_def)
    next
      assume "dial_event_only e \<and> (\<exists>d. cm_step (w, e) c = c\<lparr>cm_dialer := d\<rparr> \<and> \<not> dialingInterval d)"
      then obtain d where d: "dial_event_only e" "cm_step (w, e) c = c\<lparr>cm_dialer := d\<rparr>" "\<not> dialingInterval d" by blast
      then have "silent (c\<lparr>cm_dialer := d\<rparr>)" using Cons.prems(1) by (simp add: silent_def)
      from Cons.IH[OF this] Cons.prems d x show ?thesis by (simp add: cm_run_def)
    qed
  qed (simp add: cm_run_def)
  from run[OF silent_cm_stop] show ?thesis by (simp add: Let_def cm_stop_def)
qed

section \<open>A lost network\<close>

text \<open>
  When the last connection is lost while the browser is online, the peers of the store are dialed twice: the monitor
  announces the change, which the limiter takes for a return of the network, and the limiter hears of
  the disconnection itself.
\<close>

theorem last_connection_lost:
  assumes "lv_connections (w_libp2p w) = []" and "isNetworkConnected (cm_monitor c)" and "nm_listening (cm_monitor c)"
    and "lm_listening (cm_limiter c)" and "enableAutoRecovery (lm_options (cm_limiter c))" and "isBrowserConnected (w_online w)"
  shows "\<exists>c1. cm_peer_disconnect w pid c = fold (perform w) (dialPeersFromStore (w_libp2p w)) c1
    \<and> cm_dialer c1 = cm_dialer (fold (perform w) (dialPeersFromStore (w_libp2p w)) c)
    \<and> cm_monitor c1 = (cm_monitor c)\<lparr>isNetworkConnected := False, connection_events := connection_events (cm_monitor c) @ [False]\<rparr>"
proof -
  let ?m = "(cm_monitor c)\<lparr>isNetworkConnected := False, connection_events := connection_events (cm_monitor c) @ [False]\<rparr>"
  have m: "monitor_onDisconnected (w_online w) 0 (cm_monitor c) = ?m"
    using assms(2) by (simp add: monitor_onDisconnected_def dispatchNetworkEvent_def isConnected_def)
  have a: "onWakuConnectionEvent True (w_libp2p w) (cm_limiter c) = dialPeersFromStore (w_libp2p w)"
    using assms(4,5) by (simp add: onWakuConnectionEvent_def)
  have dialer: "cm_dialer (fold (perform w) as (c\<lparr>cm_monitor := ?m\<rparr>)) = cm_dialer (fold (perform w) as c)" for as
  proof -
    have "fold (perform w) as (d\<lparr>cm_monitor := ?m\<rparr>) = (fold (perform w) as d)\<lparr>cm_monitor := ?m\<rparr>" for d
    proof (induction as arbitrary: d)
      case (Cons a as)
      have "perform w a (d\<lparr>cm_monitor := ?m\<rparr>) = (perform w a d)\<lparr>cm_monitor := ?m\<rparr>"
        by (simp add: perform_def node_of_def split: limiter_action.splits)
      then show ?case using Cons by simp
    qed simp
    then show ?thesis by simp
  qed
  let ?c1 = "fold (perform w) (dialPeersFromStore (w_libp2p w)) (c\<lparr>cm_monitor := ?m\<rparr>)"
  let ?c2 = "?c1\<lparr>cm_keep_alive := ka_onPeerDisconnect (w_relay w) pid (cm_keep_alive ?c1)\<rparr>"
  have "cm_peer_disconnect w pid c = fold (perform w) (dialPeersFromStore (w_libp2p w)) ?c2"
    using assms(1,3,4,6) by (simp add: cm_peer_disconnect_def announce_def m a Let_def perform_fields limiter_onDisconnected_def)
  moreover have "cm_dialer ?c2 = cm_dialer (fold (perform w) (dialPeersFromStore (w_libp2p w)) c)" by (simp add: dialer)
  moreover have "cm_monitor ?c2 = ?m" by (simp add: perform_fields)
  ultimately show ?thesis by blast
qed

definition sample_world :: world where
  "sample_world = \<lparr>w_libp2p = \<lparr>lv_connections = [], lv_peers = [\<lparr>sp_id = ''p'', sp_protocols = [], sp_metadata = Map.empty,
       sp_tags = [], sp_addresses = [''x'']\<rparr>], lv_transports = [\<lambda>as. as], lv_components = []\<rparr>,
     w_now = 5, w_online = Some True, w_relay = None, w_sha256 = (\<lambda>bs. bs)\<rparr>"

definition sample_cm :: cm where
  "sample_cm = (cm_start (sample_world\<lparr>w_libp2p := (w_libp2p sample_world)\<lparr>lv_peers := []\<rparr>\<rparr>)
     (cm_new \<lparr>cf_maxBootstrapPeers = None, cf_maxConnections = None, cf_pingKeepAlive = None, cf_relayKeepAlive = None,
        cf_enableAutoRecovery = None, cf_maxDialingPeers = None, cf_failedDialCooldown = None, cf_dialCooldown = None\<rparr>
        (StaticSharding 1)))"

lemma stopped_manager_silent_witness:
  "cm_run [(sample_world, Cm_Disconnect ''p''), (sample_world, Cm_Limiter_Tick (w_libp2p sample_world))] (cm_stop sample_cm)
    = cm_stop sample_cm"
proof -
  let ?es = "[(sample_world, Cm_Disconnect ''p''), (sample_world, Cm_Limiter_Tick (w_libp2p sample_world))]"
  have "\<forall>(w, e)\<in>set ?es. e \<noteq> Cm_Start \<and> e \<noteq> Cm_Stop" by simp
  from stopped_manager_silent[OF this, of sample_cm] show ?thesis by (simp add: Let_def)
qed

lemma sample_cm_eq:
  "sample_cm = \<lparr>cm_dialer = (dialer_new \<lparr>maxDialingPeers = 3, dialCooldown = 10, failedDialCooldown = 60\<rparr>)\<lparr>dialingInterval := True\<rparr>,
     cm_monitor = monitor_start monitor_new, cm_discovering = True,
     cm_keep_alive = keep_alive_start (keep_alive_new \<lparr>maxBootstrapPeers = 3, maxConnections = 10, pingKeepAlive = 300,
       relayKeepAlive = 300, enableAutoRecovery = True, cm_dial = \<lparr>maxDialingPeers = 3, dialCooldown = 10, failedDialCooldown = 60\<rparr>\<rparr>
       (StaticSharding 1)),
     cm_limiter = \<lparr>lm_options = \<lparr>maxBootstrapPeers = 3, maxConnections = 10, pingKeepAlive = 300,
       relayKeepAlive = 300, enableAutoRecovery = True, cm_dial = \<lparr>maxDialingPeers = 3, dialCooldown = 10, failedDialCooldown = 60\<rparr>\<rparr>,
       connectionMonitorInterval = True, lm_listening = True\<rparr>, cm_requests = [], cm_updates = []\<rparr>"
  by (simp add: sample_cm_def cm_start_def cm_new_def with_defaults_def given_or_def dialer_start_def dialer_new_def
      limiter_start_def dialPeersFromStore_def getPrioritizedPeers_def notConnectedPeers_def triggerBootstrap_def
      sample_world_def Let_def)

lemma last_connection_lost_witness:
  "\<exists>c. cm_step (sample_world, Cm_Disconnect ''p'') (sample_cm\<lparr>cm_monitor := (cm_monitor sample_cm)\<lparr>isNetworkConnected := True\<rparr>\<rparr>)
      = perform sample_world (Dial_Peer ''p'') c \<and> waiting (cm_dialer c) = [''p'']"
proof -
  let ?c = "sample_cm\<lparr>cm_monitor := (cm_monitor sample_cm)\<lparr>isNetworkConnected := True\<rparr>\<rparr>"
  have d: "dialPeersFromStore (w_libp2p sample_world) = [Dial_Peer ''p'']"
    by (simp add: dialPeersFromStore_def getPrioritizedPeers_def notConnectedPeers_def isAddressesSupported_def sample_world_def
        BOOTSTRAP_def PEER_EXCHANGE_def PEER_CACHE_def Let_def)
  have "lv_connections (w_libp2p sample_world) = []" "isNetworkConnected (cm_monitor ?c)" "nm_listening (cm_monitor ?c)"
    "lm_listening (cm_limiter ?c)" "enableAutoRecovery (lm_options (cm_limiter ?c))" "isBrowserConnected (w_online sample_world)"
    by (simp_all add: sample_cm_eq monitor_start_def sample_world_def isBrowserConnected_def)
  from last_connection_lost[OF this, of "''p''"] d obtain c1
    where c1: "cm_peer_disconnect sample_world ''p'' ?c = perform sample_world (Dial_Peer ''p'') c1"
      "cm_dialer c1 = cm_dialer (perform sample_world (Dial_Peer ''p'') ?c)" by auto
  have "waiting (cm_dialer c1) = [''p'']"
    by (simp add: c1(2) perform_def dial_call_def shouldSkipPeer_def node_of_def isRecentlyDialed_def isRecentlyFailed_def
        recent_def hasShardInfo_def getRelayShards_def getPeer_def sample_cm_eq dialer_new_def sample_world_def)
  with c1(1) show ?thesis by auto
qed

section \<open>The order of the connected peers\<close>

definition key_compare :: "('a \<Rightarrow> int) \<Rightarrow> 'a \<Rightarrow> 'a \<Rightarrow> int" where
  "key_compare f x y = f x - f y"

interpretation by_key: consistent_comparator "key_compare f" for f
  by unfold_locales (auto simp: key_compare_def)

lemma js_insert_cong: "(\<And>y. y \<in> set xs \<Longrightarrow> cmp x y = cmp' x y) \<Longrightarrow> js_insert cmp x xs = js_insert cmp' x xs"
  by (induction xs) auto

lemma js_sort_cong: "(\<And>x y. x \<in> set xs \<Longrightarrow> y \<in> set xs \<Longrightarrow> cmp x y = cmp' x y) \<Longrightarrow> js_sort cmp xs = js_sort cmp' xs"
proof (induction xs)
  case (Cons x xs)
  have "js_sort cmp xs = js_sort cmp' xs" by (rule Cons.IH) (simp add: Cons.prems)
  then show ?case using Cons.prems by (auto intro: js_insert_cong)
qed simp

text \<open>
  The connected peers are those of the connections that the peer store knows and that speak the codec, each once.
  When all their pings are numbers they come by rising ping, so a peer that was never pinged comes before all
  others.
\<close>

theorem connected_peers_sorted:
  assumes "\<forall>p\<in>set (lv_peers v). getPeerPing (Some p) \<noteq> None"
  shows "set (getConnectedPeers codec v) = {p. \<exists>c\<in>set (lv_connections v). getPeer v (cn_peer c) = Some p
        \<and> (truthy codec = None \<or> the (truthy codec) \<in> set (sp_protocols p))}
    \<and> distinct (map sp_id (getConnectedPeers codec v))
    \<and> sorted (map (\<lambda>p. the (getPeerPing (Some p))) (getConnectedPeers codec v))"
proof -
  let ?ids = "remdups (map cn_peer (lv_connections v))"
  let ?known = "List.map_filter (getPeer v) ?ids"
  let ?P = "\<lambda>p. case truthy codec of None \<Rightarrow> True | Some c \<Rightarrow> c \<in> set (sp_protocols p)"
  let ?ps = "filter ?P ?known"
  let ?f = "\<lambda>p. the (getPeerPing (Some p))"
  have eq: "getConnectedPeers codec v = js_sort compare_pings ?ps"
    by (cases "?ids = []") (simp_all add: getConnectedPeers_def Let_def List.map_filter_simps)
  have id: "getPeer v i = Some p \<Longrightarrow> sp_id p = i \<and> p \<in> set (lv_peers v)" for i p
    by (auto simp: getPeer_def dest: find_key_Some)
  have set_ps: "set ?ps = {p. \<exists>c\<in>set (lv_connections v). getPeer v (cn_peer c) = Some p \<and> ?P p}"
    by (auto simp: List.map_filter_def image_iff)
  have known: "distinct is \<Longrightarrow> distinct (map sp_id (List.map_filter (getPeer v) is))
      \<and> sp_id ` set (List.map_filter (getPeer v) is) \<subseteq> set is" for "is"
    by (induction "is") (auto simp: List.map_filter_simps split: option.splits dest: id)
  have "distinct (map sp_id ?ps)" using known[of ?ids] by (simp add: distinct_map_filter)
  moreover have "mset (map sp_id (js_sort compare_pings ?ps)) = mset (map sp_id ?ps)" by simp
  ultimately have d: "distinct (map sp_id (js_sort compare_pings ?ps))" by (metis mset_eq_imp_distinct_iff)
  have "js_sort compare_pings ?ps = js_sort (key_compare ?f) ?ps"
  proof (rule js_sort_cong)
    fix x y assume "x \<in> set ?ps" "y \<in> set ?ps"
    then have "x \<in> set (lv_peers v)" "y \<in> set (lv_peers v)" unfolding set_ps using id by blast+
    with assms obtain a b where "getPeerPing (Some x) = Some a" "getPeerPing (Some y) = Some b" by blast
    then show "compare_pings x y = key_compare ?f x y" by (simp add: compare_pings_def key_compare_def)
  qed
  moreover have "sorted_wrt (\<lambda>x y. key_compare ?f x y \<le> 0) (js_sort (key_compare ?f) ?ps)" by (rule by_key.sorted_js_sort)
  ultimately have s: "sorted (map ?f (js_sort compare_pings ?ps))"
    by (simp add: sorted_wrt_map key_compare_def)
  have "?P p \<longleftrightarrow> truthy codec = None \<or> the (truthy codec) \<in> set (sp_protocols p)" for p by (cases "truthy codec") auto
  with eq set_ps d s show ?thesis by auto
qed

lemma connected_peers_sorted_witness:
  "let p = \<lparr>sp_id = ''p'', sp_protocols = [], sp_metadata = [''ping'' \<mapsto> [49, 50]], sp_tags = [], sp_addresses = []\<rparr>;
       q = \<lparr>sp_id = ''q'', sp_protocols = [], sp_metadata = Map.empty, sp_tags = [], sp_addresses = []\<rparr>;
       v = \<lparr>lv_connections = [\<lparr>cn_peer = ''p'', cn_tags = []\<rparr>, \<lparr>cn_peer = ''q'', cn_tags = []\<rparr>], lv_peers = [p, q],
            lv_transports = [], lv_components = []\<rparr> in
    sorted (map (\<lambda>p. the (getPeerPing (Some p))) (getConnectedPeers None v)) \<and> set (getConnectedPeers None v) = {p, q}"
proof -
  let ?p = "\<lparr>sp_id = ''p'', sp_protocols = [], sp_metadata = [''ping'' \<mapsto> [49, 50]], sp_tags = [], sp_addresses = []\<rparr>"
  let ?q = "\<lparr>sp_id = ''q'', sp_protocols = [], sp_metadata = Map.empty, sp_tags = [], sp_addresses = []\<rparr>"
  let ?v = "\<lparr>lv_connections = [\<lparr>cn_peer = ''p'', cn_tags = []\<rparr>, \<lparr>cn_peer = ''q'', cn_tags = []\<rparr>], lv_peers = [?p, ?q],
            lv_transports = [], lv_components = []\<rparr>"
  have "\<forall>p\<in>set (lv_peers ?v). getPeerPing (Some p) \<noteq> None"
    by (simp add: getPeerPing_def js_Number_def is_digit_def)
  from connected_peers_sorted[OF this, of None] show ?thesis by (auto simp: Let_def getPeer_def truthy_def)
qed

end
