(* ===== verification/Version_0.thy ===== *)
theory Version_0
  imports Js_Strings Message_Hash Reliable_Channel
begin

text \<open>
  \<open>packages/core/src/lib/message/version_0.ts\<close> and \<open>to_proto_message.ts\<close>: the unencrypted Waku message.
  \<open>proto_message\<close> is the interface \<open>IProtoMessage\<close>; the generated protobuf codec
  (\<open>WakuMessage.encode\<close>, \<open>WakuMessage.decode\<close>) is a pair of parameters. A rate limit proof is opaque
  bytes, a \<open>Date\<close> its milliseconds.
\<close>

record proto_message =
  pm_payload :: bytes
  pm_contentTopic :: string
  pm_version :: "int option"
  pm_timestamp :: "int option"
  pm_meta :: "bytes option"
  pm_rateLimitProof :: "bytes option"
  pm_ephemeral :: "bool option"

record imessage =
  im_payload :: bytes
  im_timestamp :: "int option"
  im_rateLimitProof :: "bytes option"

section \<open>DecodedMessage\<close>

record decoded_v0 =
  d_pubsubTopic :: string
  d_proto :: proto_message

text \<open>\<open>Boolean\<close> of an absent value is false.\<close>

definition d_ephemeral :: "decoded_v0 \<Rightarrow> bool" where
  "d_ephemeral d = (pm_ephemeral (d_proto d) = Some True)"

definition hash_view :: "proto_message \<Rightarrow> waku_message" where
  "hash_view p = \<lparr>wm_payload = pm_payload p, wm_contentTopic = pm_contentTopic p, wm_meta = pm_meta p,
                  wm_timestamp = map_option TsBigint (pm_timestamp p)\<rparr>"

text \<open>The hash is computed on first use and kept; the message it is computed from never changes.\<close>

definition d_hash :: "(bytes \<Rightarrow> bytes) \<Rightarrow> decoded_v0 \<Rightarrow> js_error + bytes" where
  "d_hash sha256 d = messageHash sha256 (d_pubsubTopic d) (hash_view (d_proto d))"

definition d_hashStr :: "(bytes \<Rightarrow> bytes) \<Rightarrow> decoded_v0 \<Rightarrow> js_error + string" where
  "d_hashStr sha256 d = bindE (d_hash sha256 d) (\<lambda>h. Inr (bytesToHex h))"

text \<open>The division of two bigints truncates. A zero timestamp is falsy.\<close>

definition d_timestamp :: "decoded_v0 \<Rightarrow> int option" where
  "d_timestamp d =
     (case pm_timestamp (d_proto d) of
        None \<Rightarrow> None
      | Some t \<Rightarrow> if t = 0 then None else Some (sgn t * (\<bar>t\<bar> div 1000000)))"

definition d_version :: "decoded_v0 \<Rightarrow> int" where
  "d_version d = (case pm_version (d_proto d) of None \<Rightarrow> 0 | Some v \<Rightarrow> v)"

section \<open>Encoder\<close>

record v0_encoder =
  en_contentTopic :: string
  en_ephemeral :: bool
  en_pubsubTopic :: string
  en_metaSetter :: "(proto_message \<Rightarrow> bytes) option"

definition createEncoder :: "string \<Rightarrow> string \<Rightarrow> bool option \<Rightarrow> (proto_message \<Rightarrow> bytes) option \<Rightarrow> js_error + v0_encoder" where
  "createEncoder contentTopic pubsub ephemeral metaSetter =
     (if contentTopic = [] then Inl (JsError ''Content topic must be specified'')
      else Inr \<lparr>en_contentTopic = contentTopic,
                en_ephemeral = (case ephemeral of None \<Rightarrow> False | Some b \<Rightarrow> b),
                en_pubsubTopic = pubsub, en_metaSetter = metaSetter\<rparr>)"

definition toProtoObj :: "v0_encoder \<Rightarrow> int \<Rightarrow> imessage \<Rightarrow> proto_message" where
  "toProtoObj en now message =
     (let timestamp = (case im_timestamp message of None \<Rightarrow> now | Some t \<Rightarrow> t);
          protoMessage = \<lparr>pm_payload = im_payload message, pm_contentTopic = en_contentTopic en,
             pm_version = Some 0, pm_timestamp = Some (timestamp * 1000000), pm_meta = None,
             pm_rateLimitProof = im_rateLimitProof message, pm_ephemeral = Some (en_ephemeral en)\<rparr>
      in case en_metaSetter en of
           None \<Rightarrow> protoMessage
         | Some metaSetter \<Rightarrow> protoMessage\<lparr>pm_meta := Some (metaSetter protoMessage)\<rparr>)"

definition toWire :: "(proto_message \<Rightarrow> bytes) \<Rightarrow> v0_encoder \<Rightarrow> int \<Rightarrow> imessage \<Rightarrow> bytes" where
  "toWire encode en now message = encode (toProtoObj en now message)"

section \<open>Decoder\<close>

text \<open>The generated decoder leaves absent optional fields undefined; only \<open>ephemeral\<close> gets a default.\<close>

definition fromWireToProtoObj :: "(bytes \<Rightarrow> js_error + proto_message) \<Rightarrow> bytes \<Rightarrow> js_error + proto_message" where
  "fromWireToProtoObj decode bs =
     bindE (decode bs) (\<lambda>p. Inr (p\<lparr>pm_ephemeral := Some (pm_ephemeral p = Some True)\<rparr>))"

text \<open>
  The guard is written \<open>proto.version ?? 0 !== Version\<close>. Since \<open>!==\<close> binds tighter than \<open>??\<close>, it reads
  \<open>proto.version ?? (0 !== Version)\<close>: a version that is there is tested for being truthy.
\<close>

definition fromProtoObj :: "string \<Rightarrow> proto_message \<Rightarrow> decoded_v0 option" where
  "fromProtoObj pubsub p =
     (if (case pm_version p of Some v \<Rightarrow> v \<noteq> 0 | None \<Rightarrow> (0::int) \<noteq> 0) then None
      else Some \<lparr>d_pubsubTopic = pubsub, d_proto = p\<rparr>)"

section \<open>to_proto_message.ts\<close>

text \<open>Fields that the wire message has override those of the empty message.\<close>

record wire_message =
  w_payload :: "bytes option"
  w_contentTopic :: "string option"
  w_version :: "int option"
  w_timestamp :: "int option"
  w_meta :: "bytes option"
  w_rateLimitProof :: "bytes option"
  w_ephemeral :: "bool option"

definition toProtoMessage :: "wire_message \<Rightarrow> proto_message" where
  "toProtoMessage w =
     \<lparr>pm_payload = (case w_payload w of None \<Rightarrow> [] | Some b \<Rightarrow> b),
      pm_contentTopic = (case w_contentTopic w of None \<Rightarrow> [] | Some s \<Rightarrow> s),
      pm_version = w_version w, pm_timestamp = w_timestamp w, pm_meta = w_meta w,
      pm_rateLimitProof = w_rateLimitProof w, pm_ephemeral = w_ephemeral w\<rparr>"

lemma fromProtoObj_Some: "fromProtoObj pubsub p = Some d \<longleftrightarrow>
    (pm_version p = None \<or> pm_version p = Some 0) \<and> d = \<lparr>d_pubsubTopic = pubsub, d_proto = p\<rparr>"
  by (auto simp: fromProtoObj_def split: option.splits)

lemma toProtoObj_fields [simp]:
  "pm_payload (toProtoObj en now m) = im_payload m"
  "pm_contentTopic (toProtoObj en now m) = en_contentTopic en"
  "pm_version (toProtoObj en now m) = Some 0"
  "pm_timestamp (toProtoObj en now m) = Some ((case im_timestamp m of None \<Rightarrow> now | Some t \<Rightarrow> t) * 1000000)"
  "pm_rateLimitProof (toProtoObj en now m) = im_rateLimitProof m"
  "pm_ephemeral (toProtoObj en now m) = Some (en_ephemeral en)"
  by (simp_all add: toProtoObj_def Let_def split: option.splits)

text \<open>A message that is encoded, sent and decoded arrives with its payload, the topics of its encoder, its
  timestamp in milliseconds (except the epoch itself, which reads as absent) and its ephemeral flag, as
  version 0, and both ends compute the same hash; the wire codec is only assumed to give back this one
  message.\<close>

theorem version_0_roundtrip:
  assumes "decode (encode (toProtoObj en now m)) = Inr (toProtoObj en now m)"
  defines "t \<equiv> (case im_timestamp m of None \<Rightarrow> now | Some t \<Rightarrow> t)"
  shows "\<exists>d. bindE (fromWireToProtoObj decode (toWire encode en now m)) (\<lambda>p. Inr (fromProtoObj (en_pubsubTopic en) p)) = Inr (Some d)
    \<and> pm_payload (d_proto d) = im_payload m \<and> pm_contentTopic (d_proto d) = en_contentTopic en
    \<and> d_pubsubTopic d = en_pubsubTopic en \<and> d_version d = 0 \<and> d_ephemeral d = en_ephemeral en
    \<and> d_timestamp d = (if t = 0 then None else Some t)
    \<and> pm_meta (d_proto d) = map_option (\<lambda>f. f (toProtoObj (en\<lparr>en_metaSetter := None\<rparr>) now m)) (en_metaSetter en)
    \<and> d_hash sha256 d = messageHash sha256 (en_pubsubTopic en) (hash_view (toProtoObj en now m))"
proof -
  let ?p = "toProtoObj en now m"
  let ?q = "?p\<lparr>pm_ephemeral := Some (pm_ephemeral ?p = Some True)\<rparr>"
  have "fromWireToProtoObj decode (toWire encode en now m) = Inr ?q"
    by (simp add: fromWireToProtoObj_def toWire_def assms(1))
  moreover have "?q = ?p" by simp
  moreover have "sgn (t * 1000000) * (\<bar>t * 1000000\<bar> div 1000000) = t" by (simp add: abs_mult sgn_mult sgn_mult_abs)
  ultimately show ?thesis
    by (auto simp: fromProtoObj_def d_version_def d_ephemeral_def d_timestamp_def d_hash_def t_def toProtoObj_def Let_def
        split: option.splits)
qed

theorem version_0_roundtrip_witness:
  "\<exists>d. bindE (fromWireToProtoObj (\<lambda>bs. if bs = [1] then Inr (toProtoObj \<lparr>en_contentTopic = ''/a/1/b/c'', en_ephemeral = True,
          en_pubsubTopic = ''/waku/2/rs/1/0'', en_metaSetter = None\<rparr> 5 \<lparr>im_payload = [7], im_timestamp = Some 9, im_rateLimitProof = None\<rparr>)
        else Inl RangeError) [1]) (\<lambda>p. Inr (fromProtoObj ''/waku/2/rs/1/0'' p)) = Inr (Some d)
    \<and> d_timestamp d = Some 9 \<and> d_ephemeral d"
proof -
  let ?en = "\<lparr>en_contentTopic = ''/a/1/b/c'', en_ephemeral = True, en_pubsubTopic = ''/waku/2/rs/1/0'', en_metaSetter = None\<rparr>"
    and ?m = "\<lparr>im_payload = [7], im_timestamp = Some 9, im_rateLimitProof = None\<rparr>"
  let ?dec = "\<lambda>bs. if bs = [1] then Inr (toProtoObj ?en 5 ?m) else Inl RangeError"
  from version_0_roundtrip[where decode = ?dec and encode = "\<lambda>p. [1]" and en = ?en and now = 5 and m = ?m] show ?thesis by (auto simp: toWire_def)
qed

end
