(* ===== verification/Light_Push.thy ===== *)
theory Light_Push
  imports Sharding Version_0
begin

text \<open>
  The light push client: one request to one peer (\<open>packages/core/src/lib/light_push\<close>), the send to
  several peers (\<open>packages/sdk/src/light_push/light_push.ts\<close>) and the queue of later attempts
  (\<open>retry_manager.ts\<close>). The wire formats of the requests and answers (generated protobuf code), the
  streams of libp2p and the peers' answers are parameters.
\<close>

section \<open>core: one request\<close>

definition CODEC_v2 :: string where "CODEC_v2 = ''/vac/waku/lightpush/2.0.0-beta1''"
definition CODEC_v3 :: string where "CODEC_v3 = ''/vac/waku/lightpush/3.0.0''"

record 'p light_push_failure =
  lf_error :: light_push_error
  lf_peerId :: "'p option"

text \<open>\<open>LightPushCoreResult\<close>: the peer that took the message, or the failure.\<close>

type_synonym 'p core_result = "'p light_push_failure + 'p"

datatype push_rpc =
    PushRpcV2 (rpc_message: proto_message) (rpc_pubsubTopic: string)
  | PushRpc (rpc_message: proto_message) (rpc_pubsubTopic: string)

record push_response =
  pr_isSuccess :: bool
  pr_info :: "string option"

record push_encoder =
  pe_toWire :: "imessage \<Rightarrow> js_error + bytes option"
  pe_toProtoObj :: "imessage \<Rightarrow> js_error + proto_message option"
  pe_pubsubTopic :: string

record 'p push_net =
  net_protocols :: "'p \<Rightarrow> js_error + string list"
  net_stream :: "'p \<Rightarrow> string \<Rightarrow> bool"
  net_exchange :: "'p \<Rightarrow> push_rpc \<Rightarrow> js_error + bytes list"
  net_decodeV2 :: "bytes \<Rightarrow> js_error + push_response option"
  net_decodeV3 :: "bytes \<Rightarrow> js_error + int"

definition RLN_GENERATION_PREFIX_ERROR :: string where
  "RLN_GENERATION_PREFIX_ERROR = ''could not generate rln proof''"

definition RLN_MESSAGE_ID_PREFIX_ERROR :: string where
  "RLN_MESSAGE_ID_PREFIX_ERROR = ''could not get new message id to generate an rln proof''"

definition RLN_REMOTE_VALIDATION :: string where
  "RLN_REMOTE_VALIDATION = ''RLN validation failed''"

fun js_includes :: "string \<Rightarrow> string \<Rightarrow> bool" where
  "js_includes [] t = (t = [])"
| "js_includes (c # s) t = (take (length t) (c # s) = t \<or> js_includes s t)"

definition isRLNResponseError :: "string option \<Rightarrow> bool" where
  "isRLNResponseError info =
     (case truthy info of
        None \<Rightarrow> False
      | Some s \<Rightarrow> js_includes s RLN_GENERATION_PREFIX_ERROR \<or> js_includes s RLN_MESSAGE_ID_PREFIX_ERROR
                  \<or> js_includes s RLN_REMOTE_VALIDATION)"

definition failed :: "light_push_error \<Rightarrow> 'p \<Rightarrow> 'p core_result" where
  "failed e peerId = Inl \<lparr>lf_error = e, lf_peerId = Some peerId\<rparr>"

text \<open>A version 3 request is given the current time when its message has no timestamp or a zero one.\<close>

definition createV3Rpc :: "int \<Rightarrow> proto_message \<Rightarrow> string \<Rightarrow> push_rpc" where
  "createV3Rpc now message pubsub =
     PushRpc (if pm_timestamp message \<in> {None, Some 0} then message\<lparr>pm_timestamp := Some (now * 1000000)\<rparr> else message)
       pubsub"

definition createV2Rpc :: "proto_message \<Rightarrow> string \<Rightarrow> push_rpc" where
  "createV2Rpc message pubsub = PushRpcV2 message pubsub"

text \<open>Everything is inside one \<open>try\<close>: what an encoder throws is a generic failure.\<close>

definition preparePushMessage :: "int \<Rightarrow> push_encoder \<Rightarrow> imessage \<Rightarrow> string \<Rightarrow> light_push_error + push_rpc" where
  "preparePushMessage now encoder message protocol =
     (if im_payload message = [] then Inl EMPTY_PAYLOAD
      else (case isMessageSizeUnderCap (pe_toWire encoder) message of
              Inl e \<Rightarrow> Inl GENERIC_FAIL
            | Inr False \<Rightarrow> Inl SIZE_TOO_BIG
            | Inr True \<Rightarrow>
                (case pe_toProtoObj encoder message of
                   Inl e \<Rightarrow> Inl GENERIC_FAIL
                 | Inr None \<Rightarrow> Inl ENCODE_FAILED
                 | Inr (Some protoMessage) \<Rightarrow>
                     if protocol = CODEC_v3 then Inr (createV3Rpc now protoMessage (pe_pubsubTopic encoder))
                     else Inr (createV2Rpc protoMessage (pe_pubsubTopic encoder)))))"

definition handleV3Response :: "'p push_net \<Rightarrow> bytes \<Rightarrow> 'p \<Rightarrow> 'p core_result" where
  "handleV3Response net bs peerId =
     (case net_decodeV3 net bs of
        Inl e \<Rightarrow> failed DECODE_FAILED peerId
      | Inr statusCode \<Rightarrow> if statusCode \<noteq> 200 then failed REMOTE_PEER_REJECTED peerId else Inr peerId)"

definition handleV2Response :: "'p push_net \<Rightarrow> bytes \<Rightarrow> 'p \<Rightarrow> 'p core_result" where
  "handleV2Response net bs peerId =
     (case net_decodeV2 net bs of
        Inl e \<Rightarrow> failed DECODE_FAILED peerId
      | Inr None \<Rightarrow> failed NO_RESPONSE peerId
      | Inr (Some response) \<Rightarrow>
          if isRLNResponseError (pr_info response) then failed RLN_PROOF_GENERATION peerId
          else if \<not> pr_isSuccess response then failed REMOTE_PEER_REJECTED peerId
          else Inr peerId)"

definition handleResponse :: "'p push_net \<Rightarrow> bytes \<Rightarrow> string \<Rightarrow> 'p \<Rightarrow> 'p core_result" where
  "handleResponse net bs protocol peerId =
     (if protocol = CODEC_v3 then handleV3Response net bs peerId else handleV2Response net bs peerId)"

definition getProtocol :: "'p push_net \<Rightarrow> 'p \<Rightarrow> bool \<Rightarrow> string option" where
  "getProtocol net peerId useLegacy =
     (case net_protocols net peerId of
        Inl e \<Rightarrow> None
      | Inr protocols \<Rightarrow>
          if useLegacy \<or> CODEC_v3 \<notin> set protocols \<and> CODEC_v2 \<in> set protocols then Some CODEC_v2
          else if CODEC_v3 \<in> set protocols then Some CODEC_v3
          else None)"

definition core_send :: "'p push_net \<Rightarrow> int \<Rightarrow> push_encoder \<Rightarrow> imessage \<Rightarrow> 'p \<Rightarrow> bool \<Rightarrow> 'p core_result" where
  "core_send net now encoder message peerId useLegacy =
     (case getProtocol net peerId useLegacy of
        None \<Rightarrow> failed GENERIC_FAIL peerId
      | Some protocol \<Rightarrow>
          (case preparePushMessage now encoder message protocol of
             Inl e \<Rightarrow> failed e peerId
           | Inr rpc \<Rightarrow>
               if \<not> net_stream net peerId protocol then failed NO_STREAM_AVAILABLE peerId
               else (case net_exchange net peerId rpc of
                       Inl e \<Rightarrow> failed STREAM_ABORTED peerId
                     | Inr res \<Rightarrow>
                         if concat res = [] then failed NO_RESPONSE peerId
                         else handleResponse net (concat res) protocol peerId)))"

section \<open>sdk: the retry manager\<close>

definition MAX_CONCURRENT_TASKS :: nat where "MAX_CONCURRENT_TASKS = 5"
definition TASK_TIMEOUT_MS :: nat where "TASK_TIMEOUT_MS = 10000"

definition shouldPeerBeChanged :: "light_push_error option \<Rightarrow> bool" where
  "shouldPeerBeChanged failure \<longleftrightarrow>
     failure \<in> {Some REMOTE_PEER_REJECTED, Some NO_RESPONSE, Some RLN_PROOF_GENERATION, Some NO_PEER_AVAILABLE}"

text \<open>
  A task is its callback, named by \<open>'c\<close>, the pubsub topic of its routing information and the attempts
  left. Between two turns of the event loop a task is in the queue, scheduled (its 100 ms timer is
  running), or in progress (its callback has been called with a peer and has not settled). The last two
  fields record what the outside sees: the calls of callbacks and the requests to renew a peer.
\<close>

record 'c scheduled_task =
  st_maxAttempts :: int
  st_callback :: 'c
  st_pubsubTopic :: string

record ('c, 'p) push_retry =
  rm_timers :: "unit timers"
  intervalID :: "nat option"
  inProgress :: int
  queue :: "'c scheduled_task list"
  scheduled :: "'c scheduled_task list"
  running :: "('c scheduled_task \<times> 'p) list"
  attempts :: "('c \<times> 'p) list"
  renewed :: "('p \<times> string) list"

definition retry_manager_new :: "('c, 'p) push_retry" where
  "retry_manager_new = \<lparr>rm_timers = no_timers, intervalID = None, inProgress = 0, queue = [], scheduled = [], running = [], attempts = [], renewed = []\<rparr>"

definition rm_start :: "('c, 'p) push_retry \<Rightarrow> ('c, 'p) push_retry" where
  "rm_start s = (case set_timer () (rm_timers s) of (t, h) \<Rightarrow> s\<lparr>rm_timers := t, intervalID := Some h\<rparr>)"

definition rm_stop :: "('c, 'p) push_retry \<Rightarrow> ('c, 'p) push_retry" where
  "rm_stop s =
     (case intervalID s of
        None \<Rightarrow> s
      | Some h \<Rightarrow> s\<lparr>rm_timers := clear_timer h (rm_timers s), intervalID := None\<rparr>)"

definition rm_push :: "'c \<Rightarrow> int \<Rightarrow> string \<Rightarrow> ('c, 'p) push_retry \<Rightarrow> ('c, 'p) push_retry" where
  "rm_push callback maxAttempts pubsub s =
     s\<lparr>queue := queue s @ [\<lparr>st_maxAttempts = maxAttempts, st_callback = callback, st_pubsubTopic = pubsub\<rparr>]\<rparr>"

definition scheduleTask :: "'c scheduled_task \<Rightarrow> ('c, 'p) push_retry \<Rightarrow> ('c, 'p) push_retry" where
  "scheduleTask task s = s\<lparr>scheduled := scheduled s @ [task]\<rparr>"

function processQueue :: "('c, 'p) push_retry \<Rightarrow> ('c, 'p) push_retry" where
  "processQueue s =
     (case queue s of
        [] \<Rightarrow> s
      | task # rest \<Rightarrow>
          if inProgress s < int MAX_CONCURRENT_TASKS then processQueue (scheduleTask task (s\<lparr>queue := rest\<rparr>)) else s)"
  by pat_completeness auto
termination
  by (relation "measure (\<lambda>s. length (queue s))") (auto simp: scheduleTask_def)

declare processQueue.simps [simp del]

definition again :: "'c scheduled_task \<Rightarrow> 'c scheduled_task" where
  "again task = task\<lparr>st_maxAttempts := st_maxAttempts task - 1\<rparr>"

text \<open>\<open>taskExecutor\<close> up to the call of the callback: \<open>peers\<close> is what the peer manager answers.\<close>

definition begin_task :: "'c scheduled_task \<Rightarrow> 'p list \<Rightarrow> ('c, 'p) push_retry \<Rightarrow> ('c, 'p) push_retry" where
  "begin_task task peers s =
     (if st_maxAttempts task \<le> 0 then s
      else (case peers of
              [] \<Rightarrow> s\<lparr>queue := queue s @ [again task]\<rparr>
            | peerId # _ \<Rightarrow> s\<lparr>inProgress := inProgress s + 1, running := running s @ [(task, peerId)],
                              attempts := attempts s @ [(st_callback task, peerId)]\<rparr>))"

text \<open>How the race of the callback and the timeout ends.\<close>

datatype outcome = Answered "light_push_error option" | TimedOut | Threw "light_push_error option"

text \<open>The message of the error that is thrown, when it is one of \<open>LightPushError\<close>.\<close>

definition outcome_error :: "outcome \<Rightarrow> light_push_error option option" where
  "outcome_error out =
     (case out of
        Answered None \<Rightarrow> None
      | Answered (Some e) \<Rightarrow> Some (Some e)
      | TimedOut \<Rightarrow> Some None
      | Threw e \<Rightarrow> Some e)"

text \<open>
  The rest of \<open>taskExecutor\<close>. When the peer has to be changed and its renewal rejects (\<open>renewal\<close> is
  false), the task is not queued again; the counter goes down in any case.
\<close>

definition settle_task ::
  "'c scheduled_task \<Rightarrow> 'p \<Rightarrow> outcome \<Rightarrow> bool \<Rightarrow> ('c, 'p) push_retry \<Rightarrow> ('c, 'p) push_retry" where
  "settle_task task peerId out renewal s =
     (let requeue = (\<lambda>s. if st_maxAttempts task = 0 then s else s\<lparr>queue := queue s @ [again task]\<rparr>);
          s' = (case outcome_error out of
                  None \<Rightarrow> requeue s
                | Some e \<Rightarrow>
                    if shouldPeerBeChanged e
                    then (let s1 = s\<lparr>renewed := renewed s @ [(peerId, st_pubsubTopic task)]\<rparr>
                          in if renewal then requeue s1 else s1)
                    else requeue s)
      in s'\<lparr>inProgress := inProgress s' - 1\<rparr>)"

text \<open>The events of the manager: the interval timer, a task timer and a settled callback.\<close>

datatype ('c, 'p) retry_event =
    PushTask 'c int string
  | StartManager
  | StopManager
  | IntervalFires nat
  | TaskFires nat "'p list"
  | Settles nat outcome bool

definition drop_nth :: "nat \<Rightarrow> 'a list \<Rightarrow> 'a list" where
  "drop_nth i xs = take i xs @ drop (Suc i) xs"

definition retry_step :: "('c, 'p) retry_event \<Rightarrow> ('c, 'p) push_retry \<Rightarrow> ('c, 'p) push_retry" where
  "retry_step e s =
     (case e of
        PushTask c n t \<Rightarrow> rm_push c n t s
      | StartManager \<Rightarrow> rm_start s
      | StopManager \<Rightarrow> rm_stop s
      | IntervalFires h \<Rightarrow> if live (rm_timers s) h \<noteq> None then processQueue s else s
      | TaskFires i peers \<Rightarrow>
          if i < length (scheduled s)
          then begin_task (scheduled s ! i) peers (s\<lparr>scheduled := drop_nth i (scheduled s)\<rparr>) else s
      | Settles i out renewal \<Rightarrow>
          if i < length (running s)
          then settle_task (fst (running s ! i)) (snd (running s ! i)) out renewal (s\<lparr>running := drop_nth i (running s)\<rparr>)
          else s)"

definition retry_run :: "('c, 'p) retry_event list \<Rightarrow> ('c, 'p) push_retry \<Rightarrow> ('c, 'p) push_retry" where
  "retry_run es s = foldl (\<lambda>s e. retry_step e s) s es"

section \<open>sdk: light\_push.ts\<close>

definition DEFAULT_MAX_ATTEMPTS :: int where "DEFAULT_MAX_ATTEMPTS = 3"

record lp_config =
  lc_autoRetry :: bool
  lc_retryIntervalMs :: int
  lc_maxAttempts :: int
  lc_numPeersToUse :: int

definition DEFAULT_SEND_OPTIONS :: lp_config where
  "DEFAULT_SEND_OPTIONS = \<lparr>lc_autoRetry = True, lc_retryIntervalMs = 1000, lc_maxAttempts = DEFAULT_MAX_ATTEMPTS, lc_numPeersToUse = 1\<rparr>"

record send_options =
  so_autoRetry :: "bool option"
  so_maxAttempts :: "int option"
  so_useLegacy :: "bool option"

record 'p sdk_result =
  successes :: "'p list"
  failures :: "'p light_push_failure list"

text \<open>
  \<open>answer\<close> is what \<open>LightPushCore.send\<close> answers for a peer, a rejection being \<open>Inl\<close>; the callback of the
  retry task is the message \<open>'c\<close> with the legacy flag.
\<close>

definition lp_send ::
  "lp_config \<Rightarrow> ('p \<Rightarrow> bool \<Rightarrow> js_error + 'p core_result) \<Rightarrow> (bool \<Rightarrow> 'p list) \<Rightarrow> 'c \<Rightarrow> string \<Rightarrow> send_options
     \<Rightarrow> ('c \<times> bool, 'p) push_retry \<Rightarrow> ('c \<times> bool, 'p) push_retry \<times> 'p sdk_result" where
  "lp_send cfg answer getPeers message pubsub opts s =
     (let autoRetry = (case so_autoRetry opts of None \<Rightarrow> lc_autoRetry cfg | Some b \<Rightarrow> b);
          maxAttempts = (case so_maxAttempts opts of None \<Rightarrow> lc_maxAttempts cfg | Some n \<Rightarrow> n);
          useLegacy = (case so_useLegacy opts of None \<Rightarrow> False | Some b \<Rightarrow> b);
          peerIds = getPeers useLegacy;
          coreResults = map (\<lambda>p. case answer p useLegacy of
                               Inl e \<Rightarrow> Inl \<lparr>lf_error = GENERIC_FAIL, lf_peerId = None\<rparr> | Inr r \<Rightarrow> r) peerIds;
          results = (if coreResults = [] then \<lparr>successes = [], failures = [\<lparr>lf_error = NO_PEER_AVAILABLE, lf_peerId = None\<rparr>]\<rparr>
                     else \<lparr>successes = map projr (filter (\<lambda>r. \<not> isl r) coreResults),
                           failures = map projl (filter isl coreResults)\<rparr>)
      in (if autoRetry \<and> successes results = []
          then rm_push (message, useLegacy) (if maxAttempts = 0 then DEFAULT_MAX_ATTEMPTS else maxAttempts) pubsub s
          else s, results))"

section \<open>One request\<close>

text \<open>A request succeeds exactly when the peer speaks a supported protocol, the message can be prepared, a
  stream opens and the peer answers with an acceptance in the format of the protocol; a failure names the
  peer it happened with.\<close>

theorem core_send_result:
  "(core_send net now encoder message p legacy = Inr q \<longleftrightarrow> q = p \<and> (\<exists>protocol rpc res.
       getProtocol net p legacy = Some protocol \<and> preparePushMessage now encoder message protocol = Inr rpc
     \<and> net_stream net p protocol \<and> net_exchange net p rpc = Inr res \<and> concat res \<noteq> []
     \<and> (if protocol = CODEC_v3 then net_decodeV3 net (concat res) = Inr 200
        else \<exists>r. net_decodeV2 net (concat res) = Inr (Some r) \<and> pr_isSuccess r \<and> \<not> isRLNResponseError (pr_info r))))
   \<and> (case core_send net now encoder message p legacy of Inl f \<Rightarrow> lf_peerId f = Some p | Inr q \<Rightarrow> q = p)"
proof (cases "getProtocol net p legacy")
  case None
  then show ?thesis by (simp add: core_send_def failed_def)
next
  case (Some protocol)
  show ?thesis
  proof (cases "preparePushMessage now encoder message protocol")
    case (Inl e)
    with Some show ?thesis by (simp add: core_send_def failed_def)
  next
    case (Inr rpc)
    with Some show ?thesis
      by (cases "net_exchange net p rpc")
         (auto simp: core_send_def failed_def handleResponse_def handleV3Response_def handleV2Response_def
           split: sum.splits option.splits)
  qed
qed

text \<open>What a prepared request carries.\<close>

lemma preparePushMessage_Inr:
  "preparePushMessage now encoder message protocol = Inr rpc \<longleftrightarrow>
    (\<exists>bs pm. im_payload message \<noteq> [] \<and> pe_toWire encoder message = Inr (Some bs) \<and> length bs \<le> 1024 ^ 2
       \<and> pe_toProtoObj encoder message = Inr (Some pm)
       \<and> rpc = (if protocol = CODEC_v3 then createV3Rpc now pm (pe_pubsubTopic encoder) else createV2Rpc pm (pe_pubsubTopic encoder)))"
  by (auto simp: preparePushMessage_def isMessageSizeUnderCap_def isWireSizeUnderCap_def bindE_def
      split: sum.splits option.splits bool.splits)

section \<open>A send to several peers\<close>

lemma sum_lists:
  "length (map projr (filter (\<lambda>r. \<not> isl r) rs)) + length (map projl (filter isl rs)) = length rs"
  by (induction rs) auto

text \<open>The result of a send has one success or failure per peer asked, in their order, with a generic
  failure for a request that throws, and \<open>NO_PEER_AVAILABLE\<close> when there is no peer. The message is queued
  for later attempts exactly when it reached nobody and automatic retries are on.\<close>

theorem lp_send_result:
  fixes s :: "('c \<times> bool, 'p) push_retry"
  assumes "so_autoRetry opts = Some autoRetry" and "so_useLegacy opts = Some legacy" and "so_maxAttempts opts = Some n"
  shows "let (s', r) = lp_send cfg answer getPeers message pubsub opts s; peers = getPeers legacy in
     successes r = map projr (filter (\<lambda>x. \<not> isl x) (map projr (filter (\<lambda>x. \<not> isl x) (map (\<lambda>p. answer p legacy) peers))))
     \<and> (if peers = [] then failures r = [\<lparr>lf_error = NO_PEER_AVAILABLE, lf_peerId = None\<rparr>]
        else length (successes r) + length (failures r) = length peers)
     \<and> s' = (if autoRetry \<and> (\<forall>p\<in>set peers. \<forall>q. answer p legacy \<noteq> Inr (Inr q))
             then rm_push (message, legacy) (if n = 0 then 3 else n) pubsub s else s)"
proof -
  let ?f = "\<lambda>p. case answer p legacy of Inl e \<Rightarrow> Inl \<lparr>lf_error = GENERIC_FAIL, lf_peerId = None :: 'p option\<rparr> | Inr r \<Rightarrow> r"
  have succ: "map projr (filter (\<lambda>r. \<not> isl r) (map ?f peers))
      = map projr (filter (\<lambda>x. \<not> isl x) (map projr (filter (\<lambda>x. \<not> isl x) (map (\<lambda>p. answer p legacy) peers))))" for peers
    by (induction peers) (auto split: sum.splits)
  have none: "filter (\<lambda>r. \<not> isl r) (map ?f peers) = [] \<longleftrightarrow> (\<forall>p\<in>set peers. \<forall>q. answer p legacy \<noteq> Inr (Inr q))" for peers
  proof (induction peers)
    case (Cons p peers)
    then show ?case by (cases "answer p legacy"; cases "projr (answer p legacy)") auto
  qed simp
  show ?thesis
    using sum_lists[of "map ?f (getPeers legacy)"] none[of "getPeers legacy"]
    unfolding lp_send_def Let_def assms option.case succ[symmetric]
    by (simp add: DEFAULT_MAX_ATTEMPTS_def)
qed

theorem lp_send_result_witness:
  "let (s', r) = lp_send DEFAULT_SEND_OPTIONS (\<lambda>p l. if p = 1 then Inl RangeError else Inr (Inl \<lparr>lf_error = NO_RESPONSE, lf_peerId = Some p\<rparr>))
        (\<lambda>l. [1, 2 :: nat]) ''m'' ''t'' \<lparr>so_autoRetry = Some True, so_maxAttempts = Some 0, so_useLegacy = Some False\<rparr> retry_manager_new in
     successes r = [] \<and> length (failures r) = 2 \<and> s' = rm_push (''m'', False) 3 ''t'' retry_manager_new"
  using lp_send_result[of "\<lparr>so_autoRetry = Some True, so_maxAttempts = Some 0, so_useLegacy = Some False\<rparr>" True False 0
      DEFAULT_SEND_OPTIONS "\<lambda>p l. if p = 1 then Inl RangeError else Inr (Inl \<lparr>lf_error = NO_RESPONSE, lf_peerId = Some p\<rparr>)"
      "\<lambda>l. [1, 2 :: nat]" "''m''" "''t''" retry_manager_new]
  by (auto simp: Let_def split: prod.splits)

section \<open>The retry manager\<close>

text \<open>The attempts a task still has, and those of all tasks of a callback.\<close>

definition credit :: "'c \<Rightarrow> 'c scheduled_task \<Rightarrow> nat" where
  "credit c t = (if st_callback t = c then nat (st_maxAttempts t) else 0)"

definition pending :: "'c \<Rightarrow> ('c, 'p) push_retry \<Rightarrow> nat" where
  "pending c s = sum_list (map (credit c) (queue s)) + sum_list (map (credit c) (scheduled s))
     + sum_list (map (\<lambda>(t, p). credit c (again t)) (running s))"

definition made :: "'c \<Rightarrow> ('c, 'p) push_retry \<Rightarrow> nat" where
  "made c s = length (filter (\<lambda>(d, p). d = c) (attempts s))"

definition granted :: "'c \<Rightarrow> ('c, 'p) retry_event \<Rightarrow> nat" where
  "granted c e = (case e of PushTask d n t \<Rightarrow> if d = c then nat n else 0 | _ \<Rightarrow> 0)"

definition push_inv :: "('c, 'p) push_retry \<Rightarrow> bool" where
  "push_inv s \<longleftrightarrow> inProgress s = int (length (running s)) \<and> (\<forall>(t, p)\<in>set (running s). 0 < st_maxAttempts t)"

lemma sum_list_drop_nth: "i < length xs \<Longrightarrow> sum_list (map f (drop_nth i xs)) + f (xs ! i) = (sum_list (map f xs) :: nat)"
  by (subst (3) id_take_nth_drop[of i xs]) (simp_all add: drop_nth_def)

lemma length_drop_nth: "i < length xs \<Longrightarrow> length (drop_nth i xs) = length xs - 1"
  by (simp add: drop_nth_def)

lemma set_drop_nth: "set (drop_nth i xs) \<subseteq> set xs"
  by (auto simp: drop_nth_def dest: in_set_takeD in_set_dropD)

lemma processQueue_moves:
  "processQueue s = (if inProgress s < int MAX_CONCURRENT_TASKS
     then s\<lparr>queue := [], scheduled := scheduled s @ queue s\<rparr> else s)"
proof (induction s rule: processQueue.induct)
  case (1 s)
  then show ?case
    by (cases "queue s") (auto simp: processQueue.simps[of s] scheduleTask_def intro!: push_retry.equality)
qed

lemma credit_again: "credit c (again t) = (if st_callback t = c then nat (st_maxAttempts t - 1) else 0)"
  by (simp add: credit_def again_def)

lemma begin_task_credit:
  assumes "push_inv s"
  shows "push_inv (begin_task task peers s)"
    and "made c (begin_task task peers s) + pending c (begin_task task peers s) \<le> made c s + pending c s + credit c task"
  using assms by (auto simp: begin_task_def push_inv_def made_def pending_def credit_again split: list.splits)
     (auto simp: credit_def)

lemma settle_task_credit:
  assumes "inProgress s = int (length (running s)) + 1" and "\<forall>(t, p)\<in>set (running s). 0 < st_maxAttempts t"
  shows "push_inv (settle_task task p out renewal s)"
    and "made c (settle_task task p out renewal s) + pending c (settle_task task p out renewal s)
         \<le> made c s + pending c s + credit c (again task)"
  using assms by (auto simp: settle_task_def Let_def push_inv_def made_def pending_def split: option.splits)

lemma retry_step_credit:
  assumes "push_inv s"
  shows "push_inv (retry_step e s)"
    and "made c (retry_step e s) + pending c (retry_step e s) \<le> made c s + pending c s + granted c e"
proof -
  have "push_inv (retry_step e s) \<and> made c (retry_step e s) + pending c (retry_step e s) \<le> made c s + pending c s + granted c e"
  proof (cases e)
    case (TaskFires i peers)
    show ?thesis
    proof (cases "i < length (scheduled s)")
      case True
      let ?s = "s\<lparr>scheduled := drop_nth i (scheduled s)\<rparr>"
      have "push_inv ?s" using assms by (simp add: push_inv_def)
      moreover have "made c ?s + pending c ?s + credit c (scheduled s ! i) = made c s + pending c s"
        using sum_list_drop_nth[OF True, of "credit c"] by (simp add: made_def pending_def)
      ultimately show ?thesis using True TaskFires begin_task_credit(1)[of ?s "scheduled s ! i" peers]
          begin_task_credit(2)[of ?s c "scheduled s ! i" peers]
        by (simp add: retry_step_def granted_def)
    qed (use TaskFires assms in \<open>simp add: retry_step_def granted_def\<close>)
  next
    case (Settles i out renewal)
    show ?thesis
    proof (cases "i < length (running s)")
      case True
      let ?s = "s\<lparr>running := drop_nth i (running s)\<rparr>" and ?t = "fst (running s ! i)"
      have "inProgress ?s = int (length (running ?s)) + 1" using True assms by (simp add: push_inv_def length_drop_nth)
      moreover have "\<forall>(t, p)\<in>set (running ?s). 0 < st_maxAttempts t"
        using assms set_drop_nth[of i "running s"] by (auto simp: push_inv_def)
      moreover have "made c ?s + pending c ?s + credit c (again ?t) = made c s + pending c s"
        using sum_list_drop_nth[OF True, of "\<lambda>(t, p). credit c (again t)"]
        by (simp add: made_def pending_def split: prod.splits)
      ultimately show ?thesis using True Settles settle_task_credit(1)[of ?s ?t "snd (running s ! i)" out renewal]
          settle_task_credit(2)[of ?s c ?t "snd (running s ! i)" out renewal]
        by (simp add: retry_step_def granted_def)
    qed (use Settles assms in \<open>simp add: retry_step_def granted_def\<close>)
  qed (use assms in \<open>auto simp: retry_step_def granted_def push_inv_def made_def pending_def rm_push_def rm_start_def rm_stop_def
      set_timer_def credit_def processQueue_moves split: option.splits\<close>)
  then show "push_inv (retry_step e s)"
    and "made c (retry_step e s) + pending c (retry_step e s) \<le> made c s + pending c s + granted c e" by simp_all
qed

text \<open>C20: Whatever the timers, the peers and the callbacks do, a message is attempted at most as often as it was
  granted when it was queued, and the counter of tasks in progress is the number of calls that have not
  settled.\<close>

theorem attempts_bounded:
  fixes es :: "('c, 'p) retry_event list"
  shows "let s = retry_run es retry_manager_new in
     made c s + pending c s \<le> sum_list (map (granted c) es) \<and> inProgress s = int (length (running s))"
proof -
  have "push_inv (retry_run es s) \<and>
      made c (retry_run es s) + pending c (retry_run es s) \<le> made c s + pending c s + sum_list (map (granted c) es)"
    if "push_inv s" for s :: "('c, 'p) push_retry"
    using that
  proof (induction es arbitrary: s)
    case (Cons e es)
    from Cons.IH[OF retry_step_credit(1)[OF Cons.prems, of e]] retry_step_credit(2)[OF Cons.prems, of c e] show ?case
      by (auto simp: retry_run_def)
  qed (simp add: retry_run_def)
  from this[of retry_manager_new] show ?thesis
    by (simp add: Let_def push_inv_def) (simp add: retry_manager_new_def made_def pending_def)
qed

text \<open>One round of a single queued task whose callback succeeds.\<close>

lemma success_round:
  assumes "queue s = [task]" and "scheduled s = []" and "running s = []" and "inProgress s = 0"
    and "live (rm_timers s) h \<noteq> None" and "0 < st_maxAttempts task"
  shows "retry_run [IntervalFires h, TaskFires 0 [p], Settles 0 (Answered None) True] s
    = s\<lparr>queue := [again task], attempts := attempts s @ [(st_callback task, p)]\<rparr>"
  using assms
  by (auto simp: retry_run_def retry_step_def processQueue_moves begin_task_def settle_task_def outcome_error_def
      drop_nth_def MAX_CONCURRENT_TASKS_def Let_def intro!: push_retry.equality)

lemma retry_run_append: "retry_run (es @ fs) s = retry_run fs (retry_run es s)"
  by (simp add: retry_run_def)

text \<open>A retried message that was delivered is sent again: with a peer that accepts every attempt, the
  callback still runs as often as the attempts granted, and the task is only dropped when none are left.\<close>

theorem success_is_repeated:
  "let rounds = concat (replicate n [IntervalFires 1, TaskFires 0 [p], Settles 0 (Answered None) True]);
       s = retry_run ([StartManager, PushTask c (int n) t] @ rounds) retry_manager_new
   in attempts s = replicate n (c, p) \<and> map st_maxAttempts (queue s) = [0]
      \<and> queue (retry_run [IntervalFires 1, TaskFires 0 [p]] s) = [] \<and> running (retry_run [IntervalFires 1, TaskFires 0 [p]] s) = []"
proof -
  let ?round = "[IntervalFires 1, TaskFires 0 [p], Settles 0 (Answered None) True]"
  let ?s = "\<lambda>k. retry_run [StartManager, PushTask c (int n) t] retry_manager_new
     \<lparr>queue := [\<lparr>st_maxAttempts = int n - int k, st_callback = c, st_pubsubTopic = t\<rparr>], attempts := replicate k (c, p)\<rparr>"
  have base: "retry_run [StartManager, PushTask c (int n) t] retry_manager_new = ?s 0"
    by (simp add: retry_run_def retry_step_def rm_push_def rm_start_def set_timer_def retry_manager_new_def no_timers_def)
  have f: "scheduled (?s k) = []" "running (?s k) = []" "inProgress (?s k) = 0" "live (rm_timers (?s k)) 1 \<noteq> None" for k
    by (simp_all add: retry_run_def retry_step_def rm_push_def rm_start_def set_timer_def retry_manager_new_def no_timers_def)
  have rounds: "k \<le> n \<Longrightarrow> retry_run (concat (replicate k ?round)) (?s 0) = ?s k" for k
  proof (induction k)
    case (Suc k)
    have snoc: "concat (replicate (Suc k) ?round) = concat (replicate k ?round) @ ?round"
      by (metis append_Nil2 concat.simps concat_append replicate_Suc replicate_append_same)
    have "retry_run (concat (replicate (Suc k) ?round)) (?s 0) = retry_run ?round (?s k)"
      by (subst snoc, subst retry_run_append, subst Suc.IH[OF Suc_leD[OF Suc.prems]]) (rule refl)
    also have "\<dots> = ?s (Suc k)"
      by (subst success_round[of _ "\<lparr>st_maxAttempts = int n - int k, st_callback = c, st_pubsubTopic = t\<rparr>"])
         (use f Suc.prems in \<open>auto simp: again_def replicate_append_same\<close>)
    finally show ?case .
  qed (simp add: retry_run_def)
  have s: "retry_run ([StartManager, PushTask c (int n) t] @ concat (replicate n ?round)) retry_manager_new = ?s n"
    using rounds[of n] by (simp only: retry_run_append base[symmetric] order_refl)
  have "queue (retry_run [IntervalFires 1, TaskFires 0 [p]] (?s n)) = []"
    "running (retry_run [IntervalFires 1, TaskFires 0 [p]] (?s n)) = []"
    using f[of n] by (simp_all add: retry_run_def retry_step_def processQueue_moves begin_task_def drop_nth_def MAX_CONCURRENT_TASKS_def)
  then show ?thesis unfolding Let_def s by simp
qed

text \<open>The limit of five concurrent tasks does not hold: the tasks in progress are counted only when their
  timers fire, so any number of queued tasks is scheduled at once and runs at once.\<close>

theorem concurrency_unlimited:
  "let s = retry_run (StartManager # map (\<lambda>i. PushTask i 3 t) [0..<n] @ IntervalFires 1 # replicate n (TaskFires 0 [p])) retry_manager_new
   in inProgress s = int n \<and> length (running s) = n"
proof -
  let ?task = "\<lambda>i. \<lparr>st_maxAttempts = 3, st_callback = i, st_pubsubTopic = t\<rparr>"
  let ?start = "rm_start (retry_manager_new :: (nat, 'a) push_retry)"
  have f: "queue ?start = []" "scheduled ?start = []" "running ?start = []" "inProgress ?start = 0" "live (rm_timers ?start) 1 \<noteq> None"
    by (simp_all add: rm_start_def set_timer_def retry_manager_new_def no_timers_def)
  have push: "retry_run (map (\<lambda>i. PushTask i 3 t) is) s = s\<lparr>queue := queue s @ map ?task is\<rparr>" for "is" and s :: "(nat, 'a) push_retry"
    by (induction "is" arbitrary: s) (simp_all add: retry_run_def retry_step_def rm_push_def)
  have fire: "inProgress (retry_run (replicate k (TaskFires 0 [p])) s) = inProgress s + int k
      \<and> length (running (retry_run (replicate k (TaskFires 0 [p])) s)) = length (running s) + k"
    if "length (scheduled s) = k" "\<forall>x\<in>set (scheduled s). 0 < st_maxAttempts x" for s :: "(nat, 'a) push_retry" and k
    using that
  proof (induction k arbitrary: s)
    case (Suc k)
    then obtain x xs where x: "scheduled s = x # xs" by (cases "scheduled s") auto
    let ?s = "retry_step (TaskFires 0 [p]) s"
    have "scheduled ?s = xs" "inProgress ?s = inProgress s + 1" "length (running ?s) = length (running s) + 1"
      using x Suc.prems by (simp_all add: retry_step_def begin_task_def drop_nth_def)
    with Suc.IH[of ?s] Suc.prems x show ?case by (simp add: retry_run_def)
  qed (simp add: retry_run_def)
  let ?s = "?start\<lparr>scheduled := map ?task [0..<n]\<rparr>"
  have "retry_run (StartManager # map (\<lambda>i. PushTask i 3 t) [0..<n] @ IntervalFires 1 # replicate n (TaskFires 0 [p])) retry_manager_new
      = retry_run (replicate n (TaskFires 0 [p])) (retry_step (IntervalFires 1) (?start\<lparr>queue := map ?task [0..<n]\<rparr>))"
    using push[of "[0..<n]" ?start] f by (simp add: retry_run_def retry_step_def[of StartManager])
  also have "retry_step (IntervalFires 1) (?start\<lparr>queue := map ?task [0..<n]\<rparr>) = ?s"
    using f by (auto simp: retry_step_def processQueue_moves MAX_CONCURRENT_TASKS_def intro!: push_retry.equality)
  finally show ?thesis using fire[of ?s n] f by (simp add: Let_def)
qed

end
