(* ===== verification/Filter_Client.thy ===== *)
theory Filter_Client
  imports Version_0
begin

text \<open>
  The filter client: the requests to one peer and the pushed messages
  (\<open>packages/core/src/lib/filter/filter.ts\<close>), the set of recently seen messages
  (\<open>packages/sdk/src/filter/utils.ts\<close>), the subscription of one pubsub topic (\<open>subscription.ts\<close>) and the
  client over several of them (\<open>filter.ts\<close>). Streams, wire formats and the peers' answers are parameters,
  and so is what the peer manager answers.

  The operations of a subscription are asynchronous; here each runs to its end before the next, and
  everything it starts at once (the requests to several peers) happens in the order of the peers. A decoder
  is known by its identity, a number.
\<close>

section \<open>core: filter.ts\<close>

datatype filter_error = F_GENERIC_FAIL | F_NO_STREAM_AVAILABLE | F_NO_RESPONSE | F_REMOTE_PEER_REJECTED

record filter_failure =
  ff_error :: filter_error
  ff_peerId :: string

type_synonym filter_result = "js_error + (filter_failure + string)"

datatype filter_request =
    SubscribeRequest string "string list"
  | UnsubscribeRequest string "string list"
  | UnsubscribeAllRequest string
  | PingRequest

text \<open>\<open>fn_exchange\<close> gives the chunks that come back, \<open>fn_send\<close> sends without waiting for an answer.\<close>

record filter_net =
  fn_stream :: "string \<Rightarrow> bool"
  fn_exchange :: "string \<Rightarrow> filter_request \<Rightarrow> js_error + bytes list"
  fn_send :: "string \<Rightarrow> filter_request \<Rightarrow> js_error + unit"
  fn_statusCode :: "bytes \<Rightarrow> js_error + int"

definition f_failed :: "filter_error \<Rightarrow> string \<Rightarrow> filter_result" where
  "f_failed e peerId = Inr (Inl \<lparr>ff_error = e, ff_peerId = peerId\<rparr>)"

text \<open>The first chunk is decoded outside of any \<open>try\<close>.\<close>

definition judge_status :: "filter_net \<Rightarrow> string \<Rightarrow> bytes \<Rightarrow> filter_result" where
  "judge_status net peerId bs =
     bindE (fn_statusCode net bs)
       (\<lambda>statusCode. if statusCode < 200 \<or> 300 \<le> statusCode then f_failed F_REMOTE_PEER_REJECTED peerId
                     else Inr (Inr peerId))"

definition fc_subscribe :: "filter_net \<Rightarrow> string \<Rightarrow> string \<Rightarrow> string list \<Rightarrow> filter_result" where
  "fc_subscribe net topic peerId contentTopics =
     (if \<not> fn_stream net peerId then f_failed F_NO_STREAM_AVAILABLE peerId
      else (case fn_exchange net peerId (SubscribeRequest topic contentTopics) of
              Inl e \<Rightarrow> f_failed F_GENERIC_FAIL peerId
            | Inr [] \<Rightarrow> f_failed F_GENERIC_FAIL peerId
            | Inr (r # _) \<Rightarrow> judge_status net peerId r))"

definition fc_unsubscribe :: "filter_net \<Rightarrow> string \<Rightarrow> string \<Rightarrow> string list \<Rightarrow> filter_result" where
  "fc_unsubscribe net topic peerId contentTopics =
     (if \<not> fn_stream net peerId then f_failed F_NO_STREAM_AVAILABLE peerId
      else (case fn_send net peerId (UnsubscribeRequest topic contentTopics) of
              Inl e \<Rightarrow> f_failed F_GENERIC_FAIL peerId
            | Inr _ \<Rightarrow> Inr (Inr peerId)))"

text \<open>This request alone is sent outside of a \<open>try\<close>.\<close>

definition fc_unsubscribeAll :: "filter_net \<Rightarrow> string \<Rightarrow> string \<Rightarrow> filter_result" where
  "fc_unsubscribeAll net topic peerId =
     (if \<not> fn_stream net peerId then f_failed F_NO_STREAM_AVAILABLE peerId
      else bindE (fn_exchange net peerId (UnsubscribeAllRequest topic))
        (\<lambda>res. case res of [] \<Rightarrow> f_failed F_NO_RESPONSE peerId | r # _ \<Rightarrow> judge_status net peerId r))"

definition fc_ping :: "filter_net \<Rightarrow> string \<Rightarrow> filter_result" where
  "fc_ping net peerId =
     (if \<not> fn_stream net peerId then f_failed F_NO_STREAM_AVAILABLE peerId
      else (case fn_exchange net peerId PingRequest of
              Inl e \<Rightarrow> f_failed F_GENERIC_FAIL peerId
            | Inr [] \<Rightarrow> f_failed F_NO_RESPONSE peerId
            | Inr (r # _) \<Rightarrow> judge_status net peerId r))"

text \<open>
  The pushed messages of one stream: a chunk that does not decode, a push without message and one
  without a topic each end the reading.
\<close>

fun fc_onRequest ::
  "(bytes \<Rightarrow> js_error + (string option \<times> proto_message option)) \<Rightarrow> bytes list \<Rightarrow> (string \<times> proto_message) list" where
  "fc_onRequest decode [] = []"
| "fc_onRequest decode (bs # rest) =
     (case decode bs of
        Inr (topic, Some m) \<Rightarrow>
          (case truthy topic of Some t \<Rightarrow> (t, m) # fc_onRequest decode rest | None \<Rightarrow> [])
      | _ \<Rightarrow> [])"

section \<open>sdk: utils.ts\<close>

record ttl_set =
  ttlMs :: nat
  entryTimestamps :: "(string \<times> nat) list"
  cleanupInterval :: bool

definition ttl_new :: "nat \<Rightarrow> ttl_set" where
  "ttl_new ttl = \<lparr>ttlMs = ttl, entryTimestamps = [], cleanupInterval = True\<rparr>"

definition ttl_dispose :: "ttl_set \<Rightarrow> ttl_set" where
  "ttl_dispose s = s\<lparr>cleanupInterval := False, entryTimestamps := []\<rparr>"

definition ttl_add :: "nat \<Rightarrow> string \<Rightarrow> ttl_set \<Rightarrow> ttl_set" where
  "ttl_add now entry s = s\<lparr>entryTimestamps := AList.update entry now (entryTimestamps s)\<rparr>"

definition ttl_has :: "string \<Rightarrow> ttl_set \<Rightarrow> bool" where
  "ttl_has entry s \<longleftrightarrow> map_of (entryTimestamps s) entry \<noteq> None"

definition removeExpiredEntries :: "nat \<Rightarrow> ttl_set \<Rightarrow> ttl_set" where
  "removeExpiredEntries now s =
     s\<lparr>entryTimestamps := filter (\<lambda>(entry, timestamp). int now - int timestamp \<le> int (ttlMs s)) (entryTimestamps s)\<rparr>"

text \<open>The interval fires while the set has not been disposed.\<close>

definition ttl_tick :: "nat \<Rightarrow> ttl_set \<Rightarrow> ttl_set" where
  "ttl_tick now s = (if cleanupInterval s then removeExpiredEntries now s else s)"

section \<open>sdk: subscription.ts\<close>

record 'm filter_decoder =
  fd_id :: nat
  fd_contentTopic :: string
  fd_pubsubTopic :: string
  fd_fromProtoObj :: "string \<Rightarrow> proto_message \<Rightarrow> js_error + 'm option"

record filter_config =
  fg_numPeersToUse :: nat
  fg_pingsBeforePeerRenewed :: nat

record ('m, 'c) subscription =
  sb_pubsubTopic :: string
  sb_config :: filter_config
  isStarted :: bool
  sb_peers :: "string list"
  peerFailures :: "string \<rightharpoonup> nat"
  receivedMessages :: ttl_set
  callbacks :: "(nat \<times> 'm filter_decoder \<times> 'c) list"
  toSubscribe :: "string list"
  toUnsubscribe :: "string list"
  sb_intervals :: bool
  sb_listening :: bool
  requests :: "(string \<times> filter_request) list"

definition subscription_new :: "filter_config \<Rightarrow> string \<Rightarrow> ('m, 'c) subscription" where
  "subscription_new cfg topic =
     \<lparr>sb_pubsubTopic = topic, sb_config = cfg, isStarted = False, sb_peers = [], peerFailures = Map.empty,
      receivedMessages = ttl_new 60000, callbacks = [], toSubscribe = [], toUnsubscribe = [],
      sb_intervals = False, sb_listening = False, requests = []\<rparr>"

definition contentTopics :: "('m, 'c) subscription \<Rightarrow> string list" where
  "contentTopics sb = foldl (\<lambda>s t. js_set_add t s) [] (map (\<lambda>(i, d, c). fd_contentTopic d) (callbacks sb))"

definition ask :: "string \<Rightarrow> filter_request \<Rightarrow> ('m, 'c) subscription \<Rightarrow> ('m, 'c) subscription" where
  "ask peerId rq sb = sb\<lparr>requests := requests sb @ [(peerId, rq)]\<rparr>"

definition requestSubscribe ::
  "filter_net \<Rightarrow> string \<Rightarrow> string list \<Rightarrow> ('m, 'c) subscription \<Rightarrow> ('m, 'c) subscription \<times> (js_error + bool)" where
  "requestSubscribe net peerId cts sb =
     (if cts = [] \<or> sb_pubsubTopic sb = [] then (sb, Inr False)
      else (ask peerId (SubscribeRequest (sb_pubsubTopic sb) cts) sb,
            bindE (fc_subscribe net (sb_pubsubTopic sb) peerId cts) (\<lambda>r. Inr (\<not> isl r))))"

definition requestUnsubscribe ::
  "filter_net \<Rightarrow> string \<Rightarrow> string list option \<Rightarrow> ('m, 'c) subscription \<Rightarrow> ('m, 'c) subscription \<times> (js_error + bool)" where
  "requestUnsubscribe net peerId cts sb =
     (case cts of
        Some ts \<Rightarrow> (ask peerId (UnsubscribeRequest (sb_pubsubTopic sb) ts) sb,
                    bindE (fc_unsubscribe net (sb_pubsubTopic sb) peerId ts) (\<lambda>r. Inr (\<not> isl r)))
      | None \<Rightarrow> (ask peerId (UnsubscribeAllRequest (sb_pubsubTopic sb)) sb,
                 bindE (fc_unsubscribeAll net (sb_pubsubTopic sb) peerId) (\<lambda>r. Inr (\<not> isl r))))"

text \<open>\<open>Promise.all\<close>: every request is made; the first rejection is the result.\<close>

fun request_all ::
  "(string \<Rightarrow> 's \<Rightarrow> 's \<times> (js_error + bool)) \<Rightarrow> string list \<Rightarrow> 's \<Rightarrow> 's \<times> (js_error + bool list)" where
  "request_all rq [] s = (s, Inr [])"
| "request_all rq (p # ps) s =
     (case rq p s of
        (s1, r) \<Rightarrow> (case request_all rq ps s1 of
           (s2, rs) \<Rightarrow> (s2, bindE r (\<lambda>b. bindE rs (\<lambda>bs. Inr (b # bs))))))"

fun fill_peers :: "nat \<Rightarrow> string list \<Rightarrow> string list \<Rightarrow> string list" where
  "fill_peers n ps [] = ps"
| "fill_peers n ps (p # others) = (if n \<le> length ps then ps else fill_peers n (js_set_add p ps) others)"

definition attemptSubscribe ::
  "filter_net \<Rightarrow> string list \<Rightarrow> bool \<Rightarrow> bool \<Rightarrow> ('m, 'c) subscription \<Rightarrow> ('m, 'c) subscription \<times> (js_error + bool)" where
  "attemptSubscribe net peersToAdd useNewContentTopics useOnlyNewPeers sb =
     (let cts = (if useNewContentTopics then toSubscribe sb else contentTopics sb) in
      if cts = [] then (sb, Inr False)
      else
        let prevPeers = sb_peers sb;
            sb1 = sb\<lparr>sb_peers := fill_peers (fg_numPeersToUse (sb_config sb)) prevPeers peersToAdd\<rparr>;
            peersToUse = (if useOnlyNewPeers then filter (\<lambda>p. p \<notin> set prevPeers) (sb_peers sb1) else sb_peers sb1)
        in if useOnlyNewPeers \<and> peersToUse = [] then (sb1, Inr False)
           else (case request_all (\<lambda>p. requestSubscribe net p cts) peersToUse sb1 of
                   (sb2, Inl e) \<Rightarrow> (sb2, Inl e)
                 | (sb2, Inr results) \<Rightarrow>
                     (if useNewContentTopics then sb2\<lparr>toSubscribe := []\<rparr> else sb2, Inr (True \<in> set results))))"

definition attemptUnsubscribe ::
  "filter_net \<Rightarrow> bool \<Rightarrow> ('m, 'c) subscription \<Rightarrow> ('m, 'c) subscription \<times> (js_error + bool)" where
  "attemptUnsubscribe net useNewContentTopics sb =
     (let cts = (if useNewContentTopics then toUnsubscribe sb else contentTopics sb) in
      if cts = [] then (sb, Inr False)
      else (case request_all (\<lambda>p. requestUnsubscribe net p (if useNewContentTopics then Some cts else None)) (sb_peers sb) sb of
              (sb1, Inl e) \<Rightarrow> (sb1, Inl e)
            | (sb1, Inr results) \<Rightarrow>
                (if useNewContentTopics then sb1\<lparr>toUnsubscribe := []\<rparr> else sb1, Inr (True \<in> set results))))"

definition addSingle :: "'m filter_decoder \<Rightarrow> 'c \<Rightarrow> ('m, 'c) subscription \<Rightarrow> ('m, 'c) subscription" where
  "addSingle dec cb sb =
     sb\<lparr>toSubscribe := (if fd_contentTopic dec \<in> set (contentTopics sb) then toSubscribe sb
                        else js_set_add (fd_contentTopic dec) (toSubscribe sb)),
        callbacks := filter (\<lambda>(i, _). i \<noteq> fd_id dec) (callbacks sb) @ [(fd_id dec, dec, cb)]\<rparr>"

definition removeSingle :: "'m filter_decoder \<Rightarrow> ('m, 'c) subscription \<Rightarrow> ('m, 'c) subscription" where
  "removeSingle dec sb =
     (let sb1 = sb\<lparr>callbacks := filter (\<lambda>(i, _). i \<noteq> fd_id dec) (callbacks sb)\<rparr>
      in if fd_contentTopic dec \<in> set (contentTopics sb1) then sb1
         else sb1\<lparr>toUnsubscribe := js_set_add (fd_contentTopic dec) (toUnsubscribe sb1)\<rparr>)"

definition sb_add ::
  "filter_net \<Rightarrow> string list \<Rightarrow> 'm filter_decoder list \<Rightarrow> 'c \<Rightarrow> ('m, 'c) subscription \<Rightarrow> ('m, 'c) subscription \<times> (js_error + bool)" where
  "sb_add net peersToAdd decoders cb sb =
     (let sb1 = foldl (\<lambda>sb dec. addSingle dec cb sb) sb decoders
      in if toSubscribe sb1 \<noteq> [] then attemptSubscribe net peersToAdd True False sb1 else (sb1, Inr True))"

definition sb_remove ::
  "filter_net \<Rightarrow> 'm filter_decoder list \<Rightarrow> ('m, 'c) subscription \<Rightarrow> ('m, 'c) subscription \<times> (js_error + bool)" where
  "sb_remove net decoders sb =
     (let sb1 = foldl (\<lambda>sb dec. removeSingle dec sb) sb decoders
      in if toUnsubscribe sb1 \<noteq> [] then attemptUnsubscribe net True sb1 else (sb1, Inr True))"

definition sb_isEmpty :: "('m, 'c) subscription \<Rightarrow> bool" where
  "sb_isEmpty sb \<longleftrightarrow> callbacks sb = []"

text \<open>When the first attempt rejects, nobody is waiting for it.\<close>

definition sb_start :: "filter_net \<Rightarrow> string list \<Rightarrow> ('m, 'c) subscription \<Rightarrow> ('m, 'c) subscription" where
  "sb_start net peersToAdd sb =
     (if isStarted sb then sb
      else (fst (attemptSubscribe net peersToAdd False False sb))\<lparr>sb_intervals := True, sb_listening := True, isStarted := True\<rparr>)"

text \<open>
  The unsubscription of \<open>disposePeers\<close> reads the content topics before \<open>disposeHandlers\<close> clears them, and the
  peers are forgotten when it has been answered.
\<close>

definition sb_stop :: "filter_net \<Rightarrow> ('m, 'c) subscription \<Rightarrow> ('m, 'c) subscription" where
  "sb_stop net sb =
     (if \<not> isStarted sb then sb
      else
        (let sb1 = sb\<lparr>sb_listening := False, sb_intervals := False\<rparr> in
         case attemptUnsubscribe net False sb1 of
           (sb2, r) \<Rightarrow>
             (let sb3 = sb2\<lparr>callbacks := [], receivedMessages := ttl_dispose (receivedMessages sb2), isStarted := False\<rparr>
              in if isl r then sb3 else sb3\<lparr>sb_peers := [], peerFailures := Map.empty\<rparr>)))"

text \<open>A message whose hash cannot be computed counts as not received.\<close>

definition isMessageReceived ::
  "(bytes \<Rightarrow> bytes) \<Rightarrow> nat \<Rightarrow> proto_message \<Rightarrow> ('m, 'c) subscription \<Rightarrow> ('m, 'c) subscription \<times> bool" where
  "isMessageReceived sha256 now m sb =
     (case messageHashStr sha256 (sb_pubsubTopic sb) (hash_view m) of
        Inl e \<Rightarrow> (sb, False)
      | Inr h \<Rightarrow> if ttl_has h (receivedMessages sb) then (sb, True)
                 else (sb\<lparr>receivedMessages := ttl_add now h (receivedMessages sb)\<rparr>, False))"

text \<open>
  The handlers of the message's content topic run in the order they were added. What a decoder throws is
  logged; what it returns is given to the callback, \<open>undefined\<close> included.
\<close>

definition handler_calls :: "proto_message \<Rightarrow> (nat \<times> 'm filter_decoder \<times> 'c) list \<Rightarrow> ('c \<times> 'm option) list" where
  "handler_calls m cbs =
     concat (map (\<lambda>(i, dec, cb).
       if fd_contentTopic dec \<noteq> pm_contentTopic m then []
       else (case fd_fromProtoObj dec (fd_pubsubTopic dec) m of Inl e \<Rightarrow> [] | Inr r \<Rightarrow> [(cb, r)])) cbs)"

definition sb_invoke ::
  "(bytes \<Rightarrow> bytes) \<Rightarrow> nat \<Rightarrow> proto_message \<Rightarrow> ('m, 'c) subscription \<Rightarrow> ('m, 'c) subscription \<times> ('c \<times> 'm option) list" where
  "sb_invoke sha256 now m sb =
     (case isMessageReceived sha256 now m sb of
        (sb1, received) \<Rightarrow> (sb1, if received then [] else handler_calls m (callbacks sb1)))"

text \<open>The first interval: pending subscriptions, then pending unsubscriptions.\<close>

definition subscription_interval :: "filter_net \<Rightarrow> string list \<Rightarrow> ('m, 'c) subscription \<Rightarrow> ('m, 'c) subscription" where
  "subscription_interval net peersToAdd sb =
     (if \<not> sb_intervals sb then sb
      else (case (if toSubscribe sb \<noteq> [] then attemptSubscribe net peersToAdd True False sb else (sb, Inr True)) of
              (sb1, Inl e) \<Rightarrow> sb1
            | (sb1, Inr _) \<Rightarrow> if toUnsubscribe sb1 \<noteq> [] then fst (attemptUnsubscribe net True sb1) else sb1))"

text \<open>The second interval: one ping for every peer.\<close>

definition ping_peer ::
  "filter_net \<Rightarrow> string \<Rightarrow> ('m, 'c) subscription \<Rightarrow> ('m, 'c) subscription \<times> (js_error + bool)" where
  "ping_peer net p sb =
     (let sb1 = ask p PingRequest sb in
      case fc_ping net p of
        Inl e \<Rightarrow> (sb1, Inl e)
      | Inr (Inr _) \<Rightarrow> (sb1\<lparr>peerFailures := (peerFailures sb1)(p \<mapsto> 0)\<rparr>, Inr False)
      | Inr (Inl _) \<Rightarrow>
          (let failures = (case peerFailures sb1 p of None \<Rightarrow> 0 | Some n \<Rightarrow> n) + 1
           in (sb1\<lparr>peerFailures := (peerFailures sb1)(p \<mapsto> failures)\<rparr>,
               Inr (fg_pingsBeforePeerRenewed (sb_config sb) \<le> failures))))"

definition drop_peer ::
  "filter_net \<Rightarrow> string \<Rightarrow> ('m, 'c) subscription \<Rightarrow> ('m, 'c) subscription \<times> (js_error + bool)" where
  "drop_peer net p sb =
     requestUnsubscribe net p (Some (contentTopics sb))
       (sb\<lparr>sb_peers := js_set_delete p (sb_peers sb), peerFailures := (peerFailures sb)(p := None)\<rparr>)"

definition keep_alive :: "filter_net \<Rightarrow> string list \<Rightarrow> ('m, 'c) subscription \<Rightarrow> ('m, 'c) subscription" where
  "keep_alive net peersToAdd sb =
     (if \<not> sb_intervals sb then sb
      else (case request_all (ping_peer net) (sb_peers sb) sb of
              (sb1, Inl e) \<Rightarrow> sb1
            | (sb1, Inr exceeded) \<Rightarrow>
                (let peersToReplace = map fst (filter snd (zip (sb_peers sb) exceeded)) in
                 case request_all (drop_peer net) peersToReplace sb1 of
                   (sb2, Inl e) \<Rightarrow> sb2
                 | (sb2, Inr _) \<Rightarrow> if peersToReplace \<noteq> [] then fst (attemptSubscribe net peersToAdd False True sb2) else sb2)))"

text \<open>The peer manager's notices; \<open>usable\<close> is its answer to \<open>isPeerOnPubsub\<close>.\<close>

definition onPeerConnected :: "filter_net \<Rightarrow> string list \<Rightarrow> bool \<Rightarrow> string \<Rightarrow> ('m, 'c) subscription \<Rightarrow> ('m, 'c) subscription" where
  "onPeerConnected net peersToAdd usable pid sb =
     (if \<not> sb_listening sb \<or> \<not> usable \<or> pid \<in> set (sb_peers sb) then sb
      else fst (attemptSubscribe net peersToAdd False True sb))"

definition onPeerDisconnected :: "filter_net \<Rightarrow> string list \<Rightarrow> bool \<Rightarrow> string \<Rightarrow> ('m, 'c) subscription \<Rightarrow> ('m, 'c) subscription" where
  "onPeerDisconnected net peersToAdd usable pid sb =
     (if \<not> sb_listening sb \<or> \<not> usable \<or> pid \<notin> set (sb_peers sb) then sb
      else fst (attemptSubscribe net peersToAdd False True (sb\<lparr>sb_peers := js_set_delete pid (sb_peers sb)\<rparr>)))"

section \<open>sdk: filter.ts\<close>

record ('m, 'c) filter_client =
  fl_config :: filter_config
  subscriptions :: "(string \<times> ('m, 'c) subscription) list"
  fl_dropped :: "('m, 'c) subscription list"

text \<open>\<open>fl_dropped\<close> are the subscriptions the client no longer reaches, in the state they were left in.\<close>

definition filter_new :: "nat option \<Rightarrow> nat option \<Rightarrow> ('m, 'c) filter_client" where
  "filter_new numPeers pings =
     \<lparr>fl_config = \<lparr>fg_numPeersToUse = (case numPeers of None \<Rightarrow> 2 | Some n \<Rightarrow> n),
                   fg_pingsBeforePeerRenewed = (case pings of None \<Rightarrow> 3 | Some n \<Rightarrow> n)\<rparr>,
      subscriptions = [], fl_dropped = []\<rparr>"

definition throwIfTopicNotSame :: "string list \<Rightarrow> js_error + unit" where
  "throwIfTopicNotSame pubsubTopics =
     (if \<forall>t\<in>set pubsubTopics. t = hd pubsubTopics then Inr ()
      else Inl (JsError (''Cannot subscribe to more than one pubsub topic at the same time, got pubsubTopics:''
             @ js_join '','' pubsubTopics)))"

text \<open>A subscription whose first request rejects has been started, but is not kept.\<close>

definition fl_subscribe ::
  "filter_net \<Rightarrow> string list \<Rightarrow> 'm filter_decoder list \<Rightarrow> 'c \<Rightarrow> ('m, 'c) filter_client \<Rightarrow> ('m, 'c) filter_client \<times> (js_error + bool)" where
  "fl_subscribe net peersToAdd decoders cb fl =
     (if decoders = [] then (fl, Inl (JsError ''Cannot subscribe with 0 decoders.''))
      else (case throwIfTopicNotSame (map fd_pubsubTopic decoders) of
              Inl e \<Rightarrow> (fl, Inl e)
            | Inr _ \<Rightarrow>
                (let topic = fd_pubsubTopic (hd decoders);
                     sb = (case map_of (subscriptions fl) topic of
                             Some sb \<Rightarrow> sb
                           | None \<Rightarrow> sb_start net peersToAdd (subscription_new (fl_config fl) topic))
                 in case sb_add net peersToAdd decoders cb sb of
                      (sb', Inl e) \<Rightarrow>
                        (if map_of (subscriptions fl) topic = None then fl\<lparr>fl_dropped := fl_dropped fl @ [sb']\<rparr>
                         else fl\<lparr>subscriptions := AList.update topic sb' (subscriptions fl)\<rparr>, Inl e)
                    | (sb', Inr b) \<Rightarrow> (fl\<lparr>subscriptions := AList.update topic sb' (subscriptions fl)\<rparr>, Inr b))))"

definition fl_unsubscribe ::
  "filter_net \<Rightarrow> 'm filter_decoder list \<Rightarrow> ('m, 'c) filter_client \<Rightarrow> ('m, 'c) filter_client \<times> (js_error + bool)" where
  "fl_unsubscribe net decoders fl =
     (if decoders = [] then (fl, Inl (JsError ''Cannot unsubscribe with 0 decoders.''))
      else (case throwIfTopicNotSame (map fd_pubsubTopic decoders) of
              Inl e \<Rightarrow> (fl, Inl e)
            | Inr _ \<Rightarrow>
                (let topic = fd_pubsubTopic (hd decoders) in
                 case map_of (subscriptions fl) topic of
                   None \<Rightarrow> (fl, Inr False)
                 | Some sb \<Rightarrow>
                     (case sb_remove net decoders sb of
                        (sb', Inl e) \<Rightarrow> (fl\<lparr>subscriptions := AList.update topic sb' (subscriptions fl)\<rparr>, Inl e)
                      | (sb', Inr b) \<Rightarrow>
                          (if sb_isEmpty sb'
                           then fl\<lparr>subscriptions := AList.delete topic (subscriptions fl),
                                   fl_dropped := fl_dropped fl @ [sb_stop net sb']\<rparr>
                           else fl\<lparr>subscriptions := AList.update topic sb' (subscriptions fl)\<rparr>, Inr b)))))"

definition fl_unsubscribeAll :: "filter_net \<Rightarrow> ('m, 'c) filter_client \<Rightarrow> ('m, 'c) filter_client" where
  "fl_unsubscribeAll net fl =
     fl\<lparr>subscriptions := [], fl_dropped := fl_dropped fl @ map (\<lambda>(t, sb). sb_stop net sb) (subscriptions fl)\<rparr>"

definition onIncomingMessage ::
  "(bytes \<Rightarrow> bytes) \<Rightarrow> nat \<Rightarrow> string \<Rightarrow> proto_message \<Rightarrow> ('m, 'c) filter_client \<Rightarrow> ('m, 'c) filter_client \<times> ('c \<times> 'm option) list" where
  "onIncomingMessage sha256 now topic m fl =
     (case map_of (subscriptions fl) topic of
        None \<Rightarrow> (fl, [])
      | Some sb \<Rightarrow> (case sb_invoke sha256 now m sb of
                      (sb', calls) \<Rightarrow> (fl\<lparr>subscriptions := AList.update topic sb' (subscriptions fl)\<rparr>, calls)))"

section \<open>The invariant of a subscription\<close>

definition sub_inv :: "('m, 'c) subscription \<Rightarrow> bool" where
  "sub_inv sb \<longleftrightarrow> distinct (sb_peers sb) \<and> length (sb_peers sb) \<le> fg_numPeersToUse (sb_config sb)
     \<and> distinct (map fst (callbacks sb)) \<and> (\<forall>(i, d, c)\<in>set (callbacks sb). i = fd_id d)
     \<and> sb_intervals sb = isStarted sb \<and> sb_listening sb = isStarted sb"

lemma fill_peers_inv:
  "distinct ps \<Longrightarrow> length ps \<le> n \<Longrightarrow> distinct (fill_peers n ps qs) \<and> length (fill_peers n ps qs) \<le> n"
proof (induction n ps qs rule: fill_peers.induct)
  case (2 n ps p others)
  show ?case
  proof (cases "n \<le> length ps")
    case False
    then have "distinct (js_set_add p ps)" "length (js_set_add p ps) \<le> n" using "2.prems" by (auto simp: js_set_add_def)
    with 2 False show ?thesis by simp
  qed (use 2 in simp)
qed simp

lemma request_all_inv:
  assumes "\<And>p s. P s \<Longrightarrow> P (fst (rq p s))" and "P s"
  shows "P (fst (request_all rq ps s))"
  using assms(2)
proof (induction ps arbitrary: s)
  case (Cons p ps)
  obtain s1 r where 1: "rq p s = (s1, r)" by (cases "rq p s")
  obtain s2 rs where 2: "request_all rq ps s1 = (s2, rs)" by (cases "request_all rq ps s1")
  show ?case using Cons.IH[of s1] assms(1)[OF Cons.prems, of p] 1 2 by simp
qed simp

text \<open>A request only adds to the log.\<close>

definition only_requests :: "('m, 'c) subscription \<Rightarrow> ('m, 'c) subscription \<Rightarrow> bool" where
  "only_requests sb sb' \<longleftrightarrow> (\<exists>rs. sb' = sb\<lparr>requests := rs\<rparr>)"

lemma only_requests_refl [simp]: "only_requests sb sb"
  unfolding only_requests_def by (intro exI[of _ "requests sb"]) simp

lemma requestSubscribe_only: "only_requests sb0 sb \<Longrightarrow> only_requests sb0 (fst (requestSubscribe net p cts sb))"
  and requestUnsubscribe_only: "only_requests sb0 sb \<Longrightarrow> only_requests sb0 (fst (requestUnsubscribe net p cts' sb))"
  by (auto simp: requestSubscribe_def requestUnsubscribe_def ask_def only_requests_def split: option.splits)

lemma only_requests_inv: "only_requests sb sb' \<Longrightarrow> sub_inv sb' = sub_inv sb"
  by (auto simp: only_requests_def sub_inv_def)

lemma requests_only:
  assumes "request_all rq ps sb = (sb', r)" and "\<And>p s. only_requests sb s \<Longrightarrow> only_requests sb (fst (rq p s))"
  shows "only_requests sb sb'"
  using request_all_inv[where P = "only_requests sb" and rq = rq, OF assms(2) only_requests_refl, of ps] assms(1) by simp

lemma sub_inv_update [simp]:
  "sub_inv (sb\<lparr>toSubscribe := x\<rparr>) = sub_inv sb" "sub_inv (sb\<lparr>toUnsubscribe := x\<rparr>) = sub_inv sb"
  "sub_inv (sb\<lparr>receivedMessages := y\<rparr>) = sub_inv sb" "sub_inv (sb\<lparr>peerFailures := z\<rparr>) = sub_inv sb"
  "sub_inv (sb\<lparr>requests := w\<rparr>) = sub_inv sb"
  by (simp_all add: sub_inv_def)

lemma attemptSubscribe_inv: "sub_inv sb \<Longrightarrow> sub_inv (fst (attemptSubscribe net ps new only sb))"
proof -
  assume inv: "sub_inv sb"
  let ?cts = "if new then toSubscribe sb else contentTopics sb"
  let ?sb = "sb\<lparr>sb_peers := fill_peers (fg_numPeersToUse (sb_config sb)) (sb_peers sb) ps\<rparr>"
  let ?ps = "if only then filter (\<lambda>p. p \<notin> set (sb_peers sb)) (sb_peers ?sb) else sb_peers ?sb"
  have 1: "sub_inv ?sb" using inv fill_peers_inv[of "sb_peers sb" "fg_numPeersToUse (sb_config sb)" ps] by (auto simp: sub_inv_def)
  obtain sb2 r where r: "request_all (\<lambda>p. requestSubscribe net p ?cts) ?ps ?sb = (sb2, r)" by fastforce
  have 2: "sub_inv sb2" using requests_only[OF r requestSubscribe_only] only_requests_inv 1 by blast
  have "attemptSubscribe net ps new only sb =
     (if ?cts = [] then (sb, Inr False) else if only \<and> ?ps = [] then (?sb, Inr False)
      else case r of Inl e \<Rightarrow> (sb2, Inl e) | Inr rs \<Rightarrow> (if new then sb2\<lparr>toSubscribe := []\<rparr> else sb2, Inr (True \<in> set rs)))"
    using r unfolding attemptSubscribe_def Let_def by (simp split: sum.splits)
  then show ?thesis using inv 1 2 by (cases r) simp_all
qed

lemma attemptUnsubscribe_inv: "sub_inv sb \<Longrightarrow> sub_inv (fst (attemptUnsubscribe net new sb))"
proof -
  assume inv: "sub_inv sb"
  let ?cts = "if new then toUnsubscribe sb else contentTopics sb"
  obtain sb2 r where r: "request_all (\<lambda>p. requestUnsubscribe net p (if new then Some ?cts else None)) (sb_peers sb) sb = (sb2, r)"
    by fastforce
  have 2: "sub_inv sb2" using requests_only[OF r requestUnsubscribe_only] only_requests_inv inv by blast
  show ?thesis using inv 2 r unfolding attemptUnsubscribe_def Let_def by (cases r) (simp_all)
qed

lemma addSingle_inv: "sub_inv sb \<Longrightarrow> sub_inv (addSingle dec cb sb)"
  by (auto simp: addSingle_def sub_inv_def distinct_map_filter split_def)

lemma removeSingle_inv: "sub_inv sb \<Longrightarrow> sub_inv (removeSingle dec sb)"
  by (auto simp: removeSingle_def sub_inv_def Let_def distinct_map_filter)

lemma foldl_keeps:
  assumes "\<And>s x. P s \<Longrightarrow> P (f s x)" and "P s"
  shows "P (foldl f s xs)"
  using assms(2) by (induction xs arbitrary: s) (auto intro: assms(1))

lemma sb_add_inv: "sub_inv sb \<Longrightarrow> sub_inv (fst (sb_add net ps decs cb sb))"
  unfolding sb_add_def Let_def by (auto intro!: attemptSubscribe_inv foldl_keeps[where P = sub_inv] addSingle_inv)

lemma sb_remove_inv: "sub_inv sb \<Longrightarrow> sub_inv (fst (sb_remove net decs sb))"
  unfolding sb_remove_def Let_def by (auto intro!: attemptUnsubscribe_inv foldl_keeps[where P = sub_inv] removeSingle_inv)

lemma sb_start_inv: "sub_inv sb \<Longrightarrow> sub_inv (sb_start net ps sb)"
  using attemptSubscribe_inv[of sb net ps False False] by (auto simp: sb_start_def sub_inv_def)

text \<open>What an unsubscription leaves alone.\<close>

lemma attemptUnsubscribe_keeps:
  assumes "attemptUnsubscribe net new sb = (sb', r)"
  shows "sb_peers sb' = sb_peers sb \<and> callbacks sb' = callbacks sb \<and> sb_config sb' = sb_config sb
    \<and> sb_intervals sb' = sb_intervals sb \<and> sb_listening sb' = sb_listening sb \<and> isStarted sb' = isStarted sb"
proof -
  let ?cts = "if new then toUnsubscribe sb else contentTopics sb"
  obtain sb2 q where r: "request_all (\<lambda>p. requestUnsubscribe net p (if new then Some ?cts else None)) (sb_peers sb) sb = (sb2, q)"
    by fastforce
  from requests_only[OF r requestUnsubscribe_only] obtain rs where "sb2 = sb\<lparr>requests := rs\<rparr>"
    by (auto simp: only_requests_def)
  then show ?thesis using assms r unfolding attemptUnsubscribe_def Let_def by (auto split: if_splits sum.splits)
qed

lemma sb_stop_inv: "sub_inv sb \<Longrightarrow> sub_inv (sb_stop net sb)"
proof (cases "isStarted sb")
  case True
  assume inv: "sub_inv sb"
  obtain sb2 r where r: "attemptUnsubscribe net False (sb\<lparr>sb_listening := False, sb_intervals := False\<rparr>) = (sb2, r)" by fastforce
  show ?thesis using attemptUnsubscribe_keeps[OF r] inv True r by (auto simp: sb_stop_def sub_inv_def Let_def)
qed (simp add: sb_stop_def)

lemma sb_invoke_inv: "sub_inv sb \<Longrightarrow> sub_inv (fst (sb_invoke sha now m sb))"
  by (auto simp: sb_invoke_def isMessageReceived_def split: sum.splits)

lemma subscription_interval_inv: "sub_inv sb \<Longrightarrow> sub_inv (subscription_interval net ps sb)"
proof -
  assume inv: "sub_inv sb"
  obtain sb1 r where 1: "(if toSubscribe sb \<noteq> [] then attemptSubscribe net ps True False sb else (sb, Inr True)) = (sb1, r)" by fastforce
  have "sub_inv sb1" using attemptSubscribe_inv[OF inv, of net ps True False] inv 1 by (auto split: if_splits)
  then show ?thesis using inv 1 attemptUnsubscribe_inv[of sb1 net True] unfolding subscription_interval_def by (cases r) auto
qed

lemma ping_peer_inv: "sub_inv sb \<Longrightarrow> sub_inv (fst (ping_peer net p sb))"
  by (auto simp: ping_peer_def ask_def Let_def split: sum.splits)

lemma forget_peer_inv: "sub_inv sb \<Longrightarrow> sub_inv (sb\<lparr>sb_peers := js_set_delete p (sb_peers sb)\<rparr>)"
  by (simp add: sub_inv_def js_set_delete_def order.trans[OF length_filter_le])

lemma drop_peer_inv:
  assumes "sub_inv sb"
  shows "sub_inv (fst (drop_peer net p sb))"
proof -
  let ?sb = "sb\<lparr>sb_peers := js_set_delete p (sb_peers sb), peerFailures := (peerFailures sb)(p := None)\<rparr>"
  have "sub_inv ?sb" using forget_peer_inv[OF assms, of p] by (simp add: sub_inv_def)
  then show ?thesis
    using only_requests_inv[OF requestUnsubscribe_only[OF only_requests_refl, of ?sb]] unfolding drop_peer_def by blast
qed

lemma keep_alive_inv: "sub_inv sb \<Longrightarrow> sub_inv (keep_alive net ps sb)"
proof -
  assume inv: "sub_inv sb"
  obtain sb1 r1 where 1: "request_all (ping_peer net) (sb_peers sb) sb = (sb1, r1)" by fastforce
  have i1: "sub_inv sb1" using request_all_inv[of sub_inv "ping_peer net" sb "sb_peers sb"] ping_peer_inv inv 1 by force
  have i2: "sub_inv (fst (request_all (drop_peer net) qs sb1))" for qs
    using request_all_inv[of sub_inv "drop_peer net" sb1 qs] drop_peer_inv i1 by force
  show ?thesis
  proof (cases r1)
    case (Inr ex)
    let ?gone = "map fst (filter snd (zip (sb_peers sb) ex))"
    obtain sb2 r2 where 2: "request_all (drop_peer net) ?gone sb1 = (sb2, r2)" by fastforce
    show ?thesis using i2[of ?gone] 1 2 Inr inv attemptSubscribe_inv[of sb2 net ps False True]
      unfolding keep_alive_def by (cases r2) (auto simp: Let_def)
  qed (use inv i1 1 in \<open>simp add: keep_alive_def\<close>)
qed

lemma onPeerConnected_inv: "sub_inv sb \<Longrightarrow> sub_inv (onPeerConnected net ps u pid sb)"
  by (simp add: onPeerConnected_def attemptSubscribe_inv)

lemma onPeerDisconnected_inv: "sub_inv sb \<Longrightarrow> sub_inv (onPeerDisconnected net ps u pid sb)"
proof -
  assume inv: "sub_inv sb"
  from attemptSubscribe_inv[OF forget_peer_inv[OF this]] show ?thesis using inv by (simp add: onPeerDisconnected_def)
qed

section \<open>Runs of a subscription\<close>

datatype ('m, 'c) sub_event =
    Sub_Start "string list"
  | Sub_Stop
  | Sub_Add "string list" "'m filter_decoder list" 'c
  | Sub_Remove "'m filter_decoder list"
  | Sub_Message nat proto_message
  | Sub_Cleanup nat
  | Sub_Interval "string list"
  | Sub_Keep_Alive "string list"
  | Sub_Connected "string list" bool string
  | Sub_Disconnected "string list" bool string

definition sub_cleanup :: "nat \<Rightarrow> ('m, 'c) subscription \<Rightarrow> ('m, 'c) subscription" where
  "sub_cleanup now sb = sb\<lparr>receivedMessages := ttl_tick now (receivedMessages sb)\<rparr>"

text \<open>Every event comes with what the network answers to it.\<close>

fun sub_step :: "(bytes \<Rightarrow> bytes) \<Rightarrow> filter_net \<times> ('m, 'c) sub_event \<Rightarrow> ('m, 'c) subscription \<Rightarrow> ('m, 'c) subscription" where
  "sub_step sha (net, Sub_Start ps) sb = sb_start net ps sb"
| "sub_step sha (net, Sub_Stop) sb = sb_stop net sb"
| "sub_step sha (net, Sub_Add ps decs cb) sb = fst (sb_add net ps decs cb sb)"
| "sub_step sha (net, Sub_Remove decs) sb = fst (sb_remove net decs sb)"
| "sub_step sha (net, Sub_Message now m) sb = fst (sb_invoke sha now m sb)"
| "sub_step sha (net, Sub_Cleanup now) sb = sub_cleanup now sb"
| "sub_step sha (net, Sub_Interval ps) sb = subscription_interval net ps sb"
| "sub_step sha (net, Sub_Keep_Alive ps) sb = keep_alive net ps sb"
| "sub_step sha (net, Sub_Connected ps u pid) sb = onPeerConnected net ps u pid sb"
| "sub_step sha (net, Sub_Disconnected ps u pid) sb = onPeerDisconnected net ps u pid sb"

definition sub_run ::
  "(bytes \<Rightarrow> bytes) \<Rightarrow> (filter_net \<times> ('m, 'c) sub_event) list \<Rightarrow> ('m, 'c) subscription \<Rightarrow> ('m, 'c) subscription" where
  "sub_run sha evs sb = fold (sub_step sha) evs sb"

lemma sub_step_inv: "sub_inv sb \<Longrightarrow> sub_inv (sub_step sha ev sb)"
  by (cases "(sha, ev, sb)" rule: sub_step.cases)
    (simp_all add: sb_start_inv sb_stop_inv sb_add_inv sb_remove_inv sb_invoke_inv sub_cleanup_def
      subscription_interval_inv keep_alive_inv onPeerConnected_inv onPeerDisconnected_inv)

lemma subscription_new_inv [simp]: "sub_inv (subscription_new cfg topic)"
  by (simp add: sub_inv_def subscription_new_def)


section \<open>Deliveries\<close>

lemma alist_update_fresh: "k \<notin> fst ` set al \<Longrightarrow> AList.update k v al = al @ [(k, v)]"
  by (induction al) auto

text \<open>A message that was not seen before is given to every decoder of its content topic, in the order of
  registration, and every result, \<open>undefined\<close> included, to its callback. The same message later calls nobody,
  unless the clean-up has run more than the retention time after the first one.
\<close>

theorem message_announced_once:
  assumes "messageHashStr sha256 (sb_pubsubTopic sb) (hash_view m) = Inr h"
    and "\<not> ttl_has h (receivedMessages sb)"
    and "sb_invoke sha256 now m sb = (sb1, calls)"
  shows "calls = handler_calls m (callbacks sb)
    \<and> snd (sb_invoke sha256 later m (sub_cleanup t sb1))
        = (if cleanupInterval (receivedMessages sb) \<and> int (ttlMs (receivedMessages sb)) < int t - int now
           then handler_calls m (callbacks sb) else [])"
proof -
  let ?r = "ttl_add now h (receivedMessages sb)"
  have calls: "calls = handler_calls m (callbacks sb)" and sb1: "sb1 = sb\<lparr>receivedMessages := ?r\<rparr>"
    using assms by (auto simp: sb_invoke_def isMessageReceived_def)
  have new: "map_of (entryTimestamps (receivedMessages sb)) h = None" using assms(2) by (simp add: ttl_has_def)
  then have upd: "AList.update h now (entryTimestamps (receivedMessages sb)) = entryTimestamps (receivedMessages sb) @ [(h, now)]"
    by (intro alist_update_fresh) (simp add: map_of_eq_None_iff)
  have "ttl_has h (ttl_tick t ?r) \<longleftrightarrow> \<not> (cleanupInterval (receivedMessages sb) \<and> int (ttlMs (receivedMessages sb)) < int t - int now)"
    using new by (auto simp: ttl_has_def ttl_tick_def removeExpiredEntries_def ttl_add_def upd map_of_eq_None_iff)
  then show ?thesis using calls assms(1)
    by (auto simp: sb1 sb_invoke_def isMessageReceived_def sub_cleanup_def)
qed

definition demo_decoder :: "nat \<Rightarrow> string \<Rightarrow> bytes filter_decoder" where
  "demo_decoder i ct = \<lparr>fd_id = i, fd_contentTopic = ct, fd_pubsubTopic = ''/waku/2/rs/1/0'',
     fd_fromProtoObj = (\<lambda>t m. Inr (if pm_payload m = [] then None else Some (pm_payload m)))\<rparr>"

definition demo_message :: proto_message where
  "demo_message = \<lparr>pm_payload = [7], pm_contentTopic = ''/a/1/b/c'', pm_version = None, pm_timestamp = None,
     pm_meta = None, pm_rateLimitProof = None, pm_ephemeral = None\<rparr>"

definition demo_subscription :: "(bytes, nat) subscription" where
  "demo_subscription =
     (subscription_new \<lparr>fg_numPeersToUse = 2, fg_pingsBeforePeerRenewed = 3\<rparr> ''/waku/2/rs/1/0'')
       \<lparr>callbacks := [(1, demo_decoder 1 ''/a/1/b/c'', 10), (2, demo_decoder 2 ''/a/1/b/d'', 20), (3, demo_decoder 3 ''/a/1/b/c'', 30)]\<rparr>"

lemma message_announced_once_witness:
  "snd (sb_invoke (\<lambda>bs. [1]) 1000 demo_message demo_subscription) = [(10, Some [7]), (30, Some [7])]
    \<and> snd (sb_invoke (\<lambda>bs. [1]) 62000 demo_message
             (sub_cleanup 61000 (fst (sb_invoke (\<lambda>bs. [1]) 1000 demo_message demo_subscription)))) = []
    \<and> snd (sb_invoke (\<lambda>bs. [1]) 62000 demo_message
             (sub_cleanup 61001 (fst (sb_invoke (\<lambda>bs. [1]) 1000 demo_message demo_subscription)))) = [(10, Some [7]), (30, Some [7])]"
proof -
  let ?sha = "\<lambda>bs. [1] :: bytes"
  have h: "messageHashStr ?sha (sb_pubsubTopic demo_subscription) (hash_view demo_message) = Inr (bytesToHex [1])"
    by (simp only: messageHashStr_def messageHash_eq sum.case)
  have n: "\<not> ttl_has (bytesToHex [1]) (receivedMessages demo_subscription)"
    by (simp add: demo_subscription_def subscription_new_def ttl_has_def ttl_new_def)
  have r: "cleanupInterval (receivedMessages demo_subscription)" "ttlMs (receivedMessages demo_subscription) = 60000"
    by (simp_all add: demo_subscription_def subscription_new_def ttl_new_def)
  have c: "handler_calls demo_message (callbacks demo_subscription) = [(10, Some [7]), (30, Some [7])]"
    by (simp add: handler_calls_def demo_subscription_def demo_decoder_def demo_message_def)
  obtain sb1 calls where s: "sb_invoke ?sha 1000 demo_message demo_subscription = (sb1, calls)" by fastforce
  show ?thesis
    using message_announced_once[OF h n s, of 62000 61000] message_announced_once[OF h n s, of 62000 61001] r c s by simp
qed

section \<open>Requests\<close>

lemma requestSubscribe_eq:
  assumes "cts \<noteq> []" and "sb_pubsubTopic sb \<noteq> []"
    and "\<not> isl (fc_subscribe net (sb_pubsubTopic sb) p cts)"
  shows "requestSubscribe net p cts sb =
    (ask p (SubscribeRequest (sb_pubsubTopic sb) cts) sb, Inr (\<not> isl (projr (fc_subscribe net (sb_pubsubTopic sb) p cts))))"
  using assms by (cases "fc_subscribe net (sb_pubsubTopic sb) p cts") (simp_all add: requestSubscribe_def)

lemma request_all_subscribe:
  assumes "cts \<noteq> []" and "sb_pubsubTopic sb \<noteq> []"
    and "\<forall>p\<in>set ps. \<not> isl (fc_subscribe net (sb_pubsubTopic sb) p cts)"
  shows "request_all (\<lambda>p. requestSubscribe net p cts) ps sb =
    (sb\<lparr>requests := requests sb @ map (\<lambda>p. (p, SubscribeRequest (sb_pubsubTopic sb) cts)) ps\<rparr>,
     Inr (map (\<lambda>p. \<not> isl (projr (fc_subscribe net (sb_pubsubTopic sb) p cts))) ps))"
  using assms(2, 3)
proof (induction ps arbitrary: sb)
  case (Cons p ps)
  have 1: "requestSubscribe net p cts sb =
      (ask p (SubscribeRequest (sb_pubsubTopic sb) cts) sb, Inr (\<not> isl (projr (fc_subscribe net (sb_pubsubTopic sb) p cts))))"
    using Cons.prems by (intro requestSubscribe_eq assms(1)) auto
  show ?case using Cons.IH[of "ask p (SubscribeRequest (sb_pubsubTopic sb) cts) sb"] Cons.prems 1 by (simp add: ask_def)
qed simp

text \<open>An unsubscription of named topics never throws.\<close>

lemma fc_unsubscribe_total: "\<exists>r. fc_unsubscribe net t p cts = Inr r"
  by (simp add: fc_unsubscribe_def f_failed_def split: sum.splits)

lemma requestUnsubscribe_eq:
  "requestUnsubscribe net p (Some cts) sb =
    (ask p (UnsubscribeRequest (sb_pubsubTopic sb) cts) sb, Inr (\<not> isl (projr (fc_unsubscribe net (sb_pubsubTopic sb) p cts))))"
  using fc_unsubscribe_total[of net "sb_pubsubTopic sb" p cts] by (auto simp: requestUnsubscribe_def)

lemma request_all_unsubscribe:
  "request_all (\<lambda>p. requestUnsubscribe net p (Some cts)) ps sb =
    (sb\<lparr>requests := requests sb @ map (\<lambda>p. (p, UnsubscribeRequest (sb_pubsubTopic sb) cts)) ps\<rparr>,
     Inr (map (\<lambda>p. \<not> isl (projr (fc_unsubscribe net (sb_pubsubTopic sb) p cts))) ps))"
  by (induction ps arbitrary: sb) (simp_all add: requestUnsubscribe_eq ask_def)

definition other_callbacks :: "'m filter_decoder \<Rightarrow> ('m, 'c) subscription \<Rightarrow> (nat \<times> 'm filter_decoder \<times> 'c) list" where
  "other_callbacks dec sb = filter (\<lambda>(i, _). i \<noteq> fd_id dec) (callbacks sb)"

lemma contentTopics_set: "set (contentTopics sb) = (\<lambda>(i, d, c). fd_contentTopic d) ` set (callbacks sb)"
proof -
  have "set (foldl (\<lambda>s t. js_set_add t s) acc xs) = set acc \<union> set xs" for acc xs :: "string list"
    by (induction xs arbitrary: acc) auto
  then show ?thesis by (simp add: contentTopics_def)
qed

lemma add_requests:
  assumes "sb_pubsubTopic sb \<noteq> []" and "toSubscribe sb = []"
    and "\<And>p. \<not> isl (fc_subscribe net (sb_pubsubTopic sb) p [fd_contentTopic dec])"
    and "known = (\<exists>(i, d, c)\<in>set (callbacks sb). fd_contentTopic d = fd_contentTopic dec)"
  shows "(let peers = fill_peers (fg_numPeersToUse (sb_config sb)) (sb_peers sb) ps;
             sb' = fst (sb_add net ps [dec] cb sb) in
         requests sb' = requests sb
             @ (if known then [] else map (\<lambda>p. (p, SubscribeRequest (sb_pubsubTopic sb) [fd_contentTopic dec])) peers)
         \<and> toSubscribe sb' = [] \<and> sb_peers sb' = (if known then sb_peers sb else peers)
         \<and> callbacks sb' = other_callbacks dec sb @ [(fd_id dec, dec, cb)])"
proof -
  have k: "fd_contentTopic dec \<in> set (contentTopics sb) \<longleftrightarrow> known"
    using assms(4) by (force simp: contentTopics_set)
  show ?thesis using k assms(1, 2, 3)
    by (simp add: Let_def sb_add_def addSingle_def other_callbacks_def js_set_add_def attemptSubscribe_def request_all_subscribe)
qed

lemma remove_requests:
  assumes "toUnsubscribe sb = []"
    and "left_over = (\<exists>(i, d, c)\<in>set (other_callbacks dec sb). fd_contentTopic d = fd_contentTopic dec)"
  shows "(let sb' = fst (sb_remove net [dec] sb) in
         requests sb' = requests sb
             @ (if left_over then [] else map (\<lambda>p. (p, UnsubscribeRequest (sb_pubsubTopic sb) [fd_contentTopic dec])) (sb_peers sb))
         \<and> toUnsubscribe sb' = [] \<and> sb_peers sb' = sb_peers sb \<and> callbacks sb' = other_callbacks dec sb)"
proof -
  have l: "fd_contentTopic dec \<in> set (contentTopics (sb\<lparr>callbacks := other_callbacks dec sb\<rparr>)) \<longleftrightarrow> left_over"
    using assms(2) by (force simp: contentTopics_set)
  show ?thesis using l assms(1)
    by (simp add: Let_def sb_remove_def removeSingle_def other_callbacks_def[symmetric] js_set_add_def attemptUnsubscribe_def
        request_all_unsubscribe)
qed

text \<open>Adding a decoder asks every peer in use, the ones just taken on included, for its content topic, exactly
  when no other decoder had it; the topic stops being pending whatever the peers answer. Removing one asks
  every peer to forget the topic exactly when no decoder of the topic is left, also for a decoder that was
  never added. The decoder's callback is replaced or removed, the others stay.
\<close>

theorem add_and_remove_requests:
  assumes "sb_pubsubTopic sb \<noteq> []" and "toSubscribe sb = []" and "toUnsubscribe sb = []"
    and "\<And>p. \<not> isl (fc_subscribe net (sb_pubsubTopic sb) p [fd_contentTopic dec])"
    and "known = (\<exists>(i, d, c)\<in>set (callbacks sb). fd_contentTopic d = fd_contentTopic dec)"
    and "left_over = (\<exists>(i, d, c)\<in>set (other_callbacks dec sb). fd_contentTopic d = fd_contentTopic dec)"
  shows "(let peers = fill_peers (fg_numPeersToUse (sb_config sb)) (sb_peers sb) ps;
             sb' = fst (sb_add net ps [dec] cb sb) in
         requests sb' = requests sb
             @ (if known then [] else map (\<lambda>p. (p, SubscribeRequest (sb_pubsubTopic sb) [fd_contentTopic dec])) peers)
         \<and> toSubscribe sb' = [] \<and> sb_peers sb' = (if known then sb_peers sb else peers)
         \<and> callbacks sb' = other_callbacks dec sb @ [(fd_id dec, dec, cb)])
    \<and> (let sb' = fst (sb_remove net [dec] sb) in
         requests sb' = requests sb
             @ (if left_over then [] else map (\<lambda>p. (p, UnsubscribeRequest (sb_pubsubTopic sb) [fd_contentTopic dec])) (sb_peers sb))
         \<and> toUnsubscribe sb' = [] \<and> sb_peers sb' = sb_peers sb \<and> callbacks sb' = other_callbacks dec sb)"
  using add_requests[OF assms(1, 2, 4, 5), of ps cb] remove_requests[OF assms(3, 6), of net] by (rule conjI)

definition demo_filter_net :: filter_net where
  "demo_filter_net = \<lparr>fn_stream = (\<lambda>p. p \<noteq> ''off''), fn_exchange = (\<lambda>p rq. Inr [[200]]), fn_send = (\<lambda>p rq. Inr ()),
     fn_statusCode = (\<lambda>bs. Inr (if bs = [] then 500 else 200))\<rparr>"

lemma demo_subscribe_ok: "\<not> isl (fc_subscribe demo_filter_net t p cts)"
  by (simp add: fc_subscribe_def demo_filter_net_def f_failed_def judge_status_def)

lemma add_and_remove_requests_witness:
  "requests (fst (sb_add demo_filter_net [''p'', ''off'', ''q''] [demo_decoder 4 ''/a/1/b/e''] 40 demo_subscription))
      = [(''p'', SubscribeRequest ''/waku/2/rs/1/0'' [''/a/1/b/e'']), (''off'', SubscribeRequest ''/waku/2/rs/1/0'' [''/a/1/b/e''])]
   \<and> sb_peers (fst (sb_add demo_filter_net [''p'', ''off'', ''q''] [demo_decoder 4 ''/a/1/b/e''] 40 demo_subscription)) = [''p'', ''off'']
   \<and> requests (fst (sb_remove demo_filter_net [demo_decoder 4 ''/a/1/b/e''] (demo_subscription\<lparr>sb_peers := [''p'']\<rparr>)))
      = [(''p'', UnsubscribeRequest ''/waku/2/rs/1/0'' [''/a/1/b/e''])]"
proof -
  let ?s = "demo_subscription" and ?d = "demo_decoder 4 ''/a/1/b/e''"
  note rules = add_and_remove_requests[where net = demo_filter_net and dec = ?d and ps = "[''p'', ''off'', ''q'']" and cb = 40
      and known = False and left_over = False, OF _ _ _ demo_subscribe_ok]
  have "requests ?s = []" "sb_peers ?s = []" "sb_pubsubTopic ?s = ''/waku/2/rs/1/0''" "fg_numPeersToUse (sb_config ?s) = 2"
    "toSubscribe ?s = []" "toUnsubscribe ?s = []"
    "\<not> (\<exists>(i, d, c)\<in>set (callbacks ?s). fd_contentTopic d = ''/a/1/b/e'')"
    by (auto simp: demo_subscription_def subscription_new_def demo_decoder_def)
  moreover from this(7) have "\<not> (\<exists>(i, d, c)\<in>set (other_callbacks ?d ?s). fd_contentTopic d = ''/a/1/b/e'')"
    "\<not> (\<exists>(i, d, c)\<in>set (other_callbacks ?d (?s\<lparr>sb_peers := [''p'']\<rparr>)). fd_contentTopic d = ''/a/1/b/e'')"
    by (auto simp: other_callbacks_def)
  moreover have "fd_contentTopic ?d = ''/a/1/b/e''" by (simp add: demo_decoder_def)
  ultimately show ?thesis using rules[of ?s] rules[of "?s\<lparr>sb_peers := [''p'']\<rparr>"]
    by (simp add: Let_def js_set_add_def)
qed

section \<open>Keep-alive\<close>

definition ping_failed :: "filter_net \<Rightarrow> string \<Rightarrow> bool" where
  "ping_failed net p = isl (projr (fc_ping net p))"

definition failures_of :: "('m, 'c) subscription \<Rightarrow> string \<Rightarrow> nat" where
  "failures_of sb p = (case peerFailures sb p of None \<Rightarrow> 0 | Some n \<Rightarrow> n)"

definition to_replace :: "filter_net \<Rightarrow> ('m, 'c) subscription \<Rightarrow> string \<Rightarrow> bool" where
  "to_replace net sb p \<longleftrightarrow> ping_failed net p \<and> fg_pingsBeforePeerRenewed (sb_config sb) \<le> failures_of sb p + 1"

definition count_ping :: "filter_net \<Rightarrow> ('m, 'c) subscription \<Rightarrow> string \<Rightarrow> nat" where
  "count_ping net sb p = (if ping_failed net p then failures_of sb p + 1 else 0)"

lemma ping_peer_eq:
  assumes "\<not> isl (fc_ping net p)"
  shows "ping_peer net p sb =
    (sb\<lparr>requests := requests sb @ [(p, PingRequest)], peerFailures := (peerFailures sb)(p \<mapsto> count_ping net sb p)\<rparr>,
     Inr (to_replace net sb p))"
proof -
  obtain r where "fc_ping net p = Inr r" using assms by (cases "fc_ping net p") auto
  then show ?thesis
    by (cases r) (simp_all add: ping_peer_def ask_def ping_failed_def to_replace_def count_ping_def failures_of_def)
qed

lemma ping_all:
  assumes "distinct ps" and "\<forall>p\<in>set ps. \<not> isl (fc_ping net p)"
  shows "request_all (ping_peer net) ps sb =
    (sb\<lparr>requests := requests sb @ map (\<lambda>p. (p, PingRequest)) ps,
        peerFailures := (\<lambda>p. if p \<in> set ps then Some (count_ping net sb p) else peerFailures sb p)\<rparr>,
     Inr (map (to_replace net sb) ps))"
  using assms
proof (induction ps arbitrary: sb)
  case (Cons p ps)
  let ?s = "sb\<lparr>requests := requests sb @ [(p, PingRequest)], peerFailures := (peerFailures sb)(p \<mapsto> count_ping net sb p)\<rparr>"
  have 1: "count_ping net ?s q = count_ping net sb q" "to_replace net ?s q = to_replace net sb q" if "q \<in> set ps" for q
    using that Cons.prems by (auto simp: count_ping_def to_replace_def failures_of_def)
  have "(\<lambda>q. if q \<in> set ps then Some (count_ping net ?s q) else peerFailures ?s q)
      = (\<lambda>q. if q \<in> set (p # ps) then Some (count_ping net sb q) else peerFailures sb q)"
    using 1 Cons.prems by auto
  moreover have "map (to_replace net ?s) ps = map (to_replace net sb) ps" using 1 by simp
  moreover have "ping_peer net p sb = (?s, Inr (to_replace net sb p))" using Cons.prems by (intro ping_peer_eq) simp
  ultimately show ?case using Cons.IH[of ?s] Cons.prems by simp
qed simp

lemma drop_all:
  obtains rs bs where "request_all (drop_peer net) ps sb =
    (sb\<lparr>sb_peers := filter (\<lambda>p. p \<notin> set ps) (sb_peers sb), requests := rs,
        peerFailures := peerFailures sb |` (- set ps)\<rparr>, Inr bs)"
proof -
  have "\<exists>rs bs. request_all (drop_peer net) ps sb =
    (sb\<lparr>sb_peers := filter (\<lambda>p. p \<notin> set ps) (sb_peers sb), requests := rs,
        peerFailures := peerFailures sb |` (- set ps)\<rparr>, Inr bs)"
  proof (induction ps arbitrary: sb)
    case Nil
    show ?case by (intro exI[of _ "requests sb"] exI[of _ "[]"]) simp
  next
    case (Cons p ps)
    let ?s = "sb\<lparr>sb_peers := js_set_delete p (sb_peers sb), peerFailures := (peerFailures sb)(p := None)\<rparr>"
    obtain rs b where 1: "drop_peer net p sb = (?s\<lparr>requests := rs\<rparr>, Inr b)"
      by (simp add: drop_peer_def requestUnsubscribe_eq ask_def)
    have g: "filter (\<lambda>q. q \<notin> set ps) (js_set_delete p (sb_peers sb)) = filter (\<lambda>q. q \<noteq> p \<and> q \<notin> set ps) (sb_peers sb)"
      unfolding js_set_delete_def filter_filter by (rule filter_cong) auto
    let ?t = "?s\<lparr>requests := rs\<rparr>"
    obtain rs' bs where 2: "request_all (drop_peer net) ps ?t =
      (?t\<lparr>sb_peers := filter (\<lambda>p. p \<notin> set ps) (sb_peers ?t), requests := rs', peerFailures := peerFailures ?t |` (- set ps)\<rparr>, Inr bs)"
      using Cons.IH[of ?t] by blast
    have 3: "?t\<lparr>sb_peers := filter (\<lambda>p. p \<notin> set ps) (sb_peers ?t), requests := rs', peerFailures := peerFailures ?t |` (- set ps)\<rparr>
        = sb\<lparr>sb_peers := filter (\<lambda>q. q \<notin> set (p # ps)) (sb_peers sb), requests := rs',
             peerFailures := peerFailures sb |` (- set (p # ps))\<rparr>"
      by (rule subscription.equality) (use g in \<open>auto simp: restrict_map_def\<close>)
    show ?case unfolding request_all.simps 1 prod.case 2 unfolding 3 by auto
  qed
  with that show ?thesis by blast
qed

text \<open>One round of the keep-alive interval: a peer is given up exactly when this ping and the ones before it
  make \<open>pingsBeforePeerRenewed\<close> failures in a row, and the free places are filled with the offered peers,
  the one just given up included when it is offered again. A success resets the count.
\<close>

theorem keep_alive_replaces:
  assumes "sub_inv sb" and "isStarted sb" and "callbacks sb \<noteq> []" and "sb_pubsubTopic sb \<noteq> []"
    and "\<And>p. \<not> isl (fc_ping net p)" and "\<And>p. \<not> isl (fc_subscribe net (sb_pubsubTopic sb) p (contentTopics sb))"
  shows "sb_peers (keep_alive net ps sb) =
      (if \<exists>p\<in>set (sb_peers sb). to_replace net sb p
       then fill_peers (fg_numPeersToUse (sb_config sb)) (filter (\<lambda>p. \<not> to_replace net sb p) (sb_peers sb)) ps
       else sb_peers sb)
    \<and> (\<forall>p\<in>set (sb_peers sb). failures_of (keep_alive net ps sb) p = (if to_replace net sb p then 0 else count_ping net sb p))"
proof -
  have d: "distinct (sb_peers sb)" and iv: "sb_intervals sb" using assms(1, 2) by (auto simp: sub_inv_def)
  let ?gone = "filter (to_replace net sb) (sb_peers sb)"
  let ?fl = "\<lambda>p. if p \<in> set (sb_peers sb) then Some (count_ping net sb p) else peerFailures sb p"
  let ?s1 = "sb\<lparr>requests := requests sb @ map (\<lambda>p. (p, PingRequest)) (sb_peers sb), peerFailures := ?fl\<rparr>"
  have 1: "request_all (ping_peer net) (sb_peers sb) sb = (?s1, Inr (map (to_replace net sb) (sb_peers sb)))"
    using d assms(5) by (intro ping_all) auto
  have z: "map fst (filter snd (zip xs (map Q xs))) = filter Q xs" for xs :: "string list" and Q
    by (induction xs) auto
  obtain rs bs where 2: "request_all (drop_peer net) ?gone ?s1 =
    (?s1\<lparr>sb_peers := filter (\<lambda>p. p \<notin> set ?gone) (sb_peers ?s1), requests := rs,
        peerFailures := peerFailures ?s1 |` (- set ?gone)\<rparr>, Inr bs)"
    (is "_ = (?s2, _)") by (rule drop_all)
  have keep: "sb_peers ?s2 = filter (\<lambda>p. \<not> to_replace net sb p) (sb_peers sb)" by (auto intro: filter_cong)
  have ka: "keep_alive net ps sb = (if ?gone \<noteq> [] then fst (attemptSubscribe net ps False True ?s2) else ?s2)"
    using iv unfolding keep_alive_def Let_def 1 prod.case sum.case z 2 by (simp only: not_True_eq_False if_False)
  have ct: "contentTopics ?s2 = contentTopics sb" by (simp add: contentTopics_def)
  have "set (contentTopics sb) \<noteq> {}" using assms(3) by (simp add: contentTopics_set)
  then have ne: "contentTopics sb \<noteq> []" by auto
  have sub: "sb_peers (fst (attemptSubscribe net ps False True ?s2)) = fill_peers (fg_numPeersToUse (sb_config sb)) (sb_peers ?s2) ps
      \<and> peerFailures (fst (attemptSubscribe net ps False True ?s2)) = peerFailures ?s2"
    using ne assms(4, 6) ct by (simp add: attemptSubscribe_def Let_def request_all_subscribe)
  have pf: "failures_of ?s2 p = (if to_replace net sb p then 0 else count_ping net sb p)" if "p \<in> set (sb_peers sb)" for p
    using that by (simp add: failures_of_def restrict_map_def)
  have e: "?gone \<noteq> [] \<longleftrightarrow> (\<exists>p\<in>set (sb_peers sb). to_replace net sb p)" by (simp add: filter_empty_conv)
  show ?thesis
  proof (cases "?gone = []")
    case True
    then have "sb_peers ?s2 = sb_peers sb" by simp
    then show ?thesis using True e ka pf by (metis (no_types, lifting))
  next
    case False
    then show ?thesis using e ka sub keep pf by (simp add: failures_of_def)
  qed
qed

definition demo_running :: "(bytes, nat) subscription" where
  "demo_running = demo_subscription\<lparr>isStarted := True, sb_intervals := True, sb_listening := True,
     sb_peers := [''off'', ''p''], peerFailures := [''off'' \<mapsto> 2, ''p'' \<mapsto> 2]\<rparr>"

lemma keep_alive_replaces_witness:
  "sb_peers (keep_alive demo_filter_net [''q'', ''off''] demo_running) = [''p'', ''q'']
    \<and> failures_of (keep_alive demo_filter_net [''q'', ''off''] demo_running) ''p'' = 0"
proof -
  let ?s = demo_running
  have inv: "sub_inv ?s" "isStarted ?s" "callbacks ?s \<noteq> []" "sb_pubsubTopic ?s \<noteq> []"
    by (auto simp: sub_inv_def demo_running_def demo_subscription_def subscription_new_def demo_decoder_def)
  have ping: "\<not> isl (fc_ping demo_filter_net p)" for p
    by (simp add: fc_ping_def demo_filter_net_def f_failed_def judge_status_def)
  have "to_replace demo_filter_net ?s p \<longleftrightarrow> p = ''off''" if "p \<in> {''off'', ''p''}" for p
    using that by (auto simp: to_replace_def ping_failed_def fc_ping_def demo_filter_net_def f_failed_def judge_status_def
        failures_of_def demo_running_def demo_subscription_def subscription_new_def)
  moreover have "sb_peers ?s = [''off'', ''p'']" "fg_numPeersToUse (sb_config ?s) = 2"
    by (simp_all add: demo_running_def demo_subscription_def subscription_new_def)
  moreover have "count_ping demo_filter_net ?s ''p'' = 0"
    by (simp add: count_ping_def ping_failed_def fc_ping_def demo_filter_net_def judge_status_def)
  ultimately show ?thesis
    using keep_alive_replaces[OF inv ping demo_subscribe_ok, of "[''q'', ''off'']"] by (simp add: js_set_add_def)
qed

section \<open>The client\<close>

lemma sb_add_keeps_started:
  "isStarted (fst (sb_add net ps decs cb sb)) = isStarted sb \<and> sb_intervals (fst (sb_add net ps decs cb sb)) = sb_intervals sb
    \<and> callbacks (fst (sb_add net ps decs cb sb)) = callbacks (foldl (\<lambda>sb dec. addSingle dec cb sb) sb decs)"
proof -
  let ?q = "\<lambda>s s'. isStarted s' = isStarted s \<and> sb_intervals s' = sb_intervals s \<and> callbacks s' = callbacks s"
  have 1: "?q s (fst (attemptSubscribe net ps new only s))" for s :: "('a, 'b) subscription" and new only
  proof -
    let ?cts = "if new then toSubscribe s else contentTopics s"
    let ?sb = "s\<lparr>sb_peers := fill_peers (fg_numPeersToUse (sb_config s)) (sb_peers s) ps\<rparr>"
    let ?ps = "if only then filter (\<lambda>p. p \<notin> set (sb_peers s)) (sb_peers ?sb) else sb_peers ?sb"
    obtain sb2 r where r: "request_all (\<lambda>p. requestSubscribe net p ?cts) ?ps ?sb = (sb2, r)" by fastforce
    from requests_only[OF r requestSubscribe_only] obtain rs where "sb2 = ?sb\<lparr>requests := rs\<rparr>" by (auto simp: only_requests_def)
    then show ?thesis using r unfolding attemptSubscribe_def Let_def by (cases r) (simp_all split: if_splits)
  qed
  have 2: "isStarted (foldl (\<lambda>sb dec. addSingle dec cb sb) s decs) = isStarted s
      \<and> sb_intervals (foldl (\<lambda>sb dec. addSingle dec cb sb) s decs) = sb_intervals s" for s :: "('a, 'b) subscription"
    by (rule foldl_keeps[where P = "\<lambda>t. isStarted t = isStarted s \<and> sb_intervals t = sb_intervals s"]) (simp_all add: addSingle_def)
  show ?thesis unfolding sb_add_def Let_def using 1 2 by simp
qed

text \<open>When the first request for a new pubsub topic throws, \<open>subscribe\<close> rejects and the client does not keep the
  subscription it has just started: its intervals and listeners go on, with the decoder's callback registered,
  and neither \<open>unsubscribe\<close> nor \<open>unsubscribeAll\<close> reaches it any more.
\<close>

theorem rejected_subscription_leaks:
  assumes "map_of (subscriptions fl) (fd_pubsubTopic dec) = None"
    and "snd (fl_subscribe net ps [dec] cb fl) = Inl e"
    and "fl' = fst (fl_subscribe net ps [dec] cb fl)"
  shows "subscriptions fl' = subscriptions fl
    \<and> (\<exists>sb. fl_dropped fl' = fl_dropped fl @ [sb] \<and> isStarted sb \<and> sb_intervals sb \<and> (fd_id dec, dec, cb) \<in> set (callbacks sb)
         \<and> sb \<in> set (fl_dropped (fl_unsubscribeAll net2 fl')))
    \<and> fl_unsubscribe net2 [dec] fl' = (fl', Inr False)"
proof -
  let ?sb0 = "sb_start net ps (subscription_new (fl_config fl) (fd_pubsubTopic dec))"
  have topics: "throwIfTopicNotSame (map fd_pubsubTopic [dec]) = Inr ()" by (simp add: throwIfTopicNotSame_def)
  obtain sb r where r: "sb_add net ps [dec] cb ?sb0 = (sb, r)" by fastforce
  have keeps: "isStarted sb \<and> sb_intervals sb \<and> callbacks sb = callbacks (addSingle dec cb ?sb0)"
    using sb_add_keeps_started[of net ps "[dec]" cb ?sb0] r by (simp add: sb_start_def subscription_new_def)
  have fl': "fl' = fl\<lparr>fl_dropped := fl_dropped fl @ [sb]\<rparr>" and "r = Inl e"
    using assms topics r by (cases r; simp add: fl_subscribe_def Let_def)+
  then show ?thesis using keeps assms(1) topics
    by (simp add: fl_unsubscribeAll_def fl_unsubscribe_def addSingle_def)
qed

lemma rejected_subscription_leaks_witness:
  "subscriptions (fst (fl_subscribe (demo_filter_net\<lparr>fn_statusCode := \<lambda>bs. Inl RangeError\<rparr>) [''p''] [demo_decoder 1 ''/a/1/b/c'']
     (10 :: nat) (filter_new None None))) = []"
proof -
  let ?net = "demo_filter_net\<lparr>fn_statusCode := \<lambda>bs. Inl RangeError\<rparr>"
  have "map_of (subscriptions (filter_new None None)) (fd_pubsubTopic (demo_decoder 1 ''/a/1/b/c'')) = None"
    by (simp add: filter_new_def)
  moreover have "snd (fl_subscribe ?net [''p''] [demo_decoder 1 ''/a/1/b/c''] (10 :: nat) (filter_new None None)) = Inl RangeError"
    by (simp add: fl_subscribe_def throwIfTopicNotSame_def demo_decoder_def filter_new_def sb_start_def subscription_new_def
        sb_add_def addSingle_def js_set_add_def attemptSubscribe_def contentTopics_def requestSubscribe_def ask_def
        fc_subscribe_def judge_status_def demo_filter_net_def Let_def)
  ultimately show ?thesis
    using rejected_subscription_leaks[where fl = "filter_new None None" and dec = "demo_decoder 1 ''/a/1/b/c''" and net = ?net
        and ps = "[''p'']" and cb = "10 :: nat" and e = RangeError, OF _ _ refl, of demo_filter_net]
    by (simp add: filter_new_def)
qed

end
