(* ===== verification/Relay_Protocol.thy ===== *)
theory Relay_Protocol
  imports Sharding Version_0
begin

text \<open>
  The relay protocol over gossipsub (\<open>packages/relay/src/relay.ts\<close>, \<open>message_validator.ts\<close>,
  \<open>topic_only_message.ts\<close>) and the iterator over its subscriptions
  (\<open>packages/utils/src/common/to_async_iterator.ts\<close>). Of gossipsub the model keeps what the relay changes: whether it
  is started, the subscribed topics, the topics with a validator, and the listeners of its message event. An
  observer and a handler are objects, told apart by a number. Decoders and codecs are parameters.
\<close>

section \<open>Observers\<close>

record 'm relay_decoder =
  rd_pubsubTopic :: string
  rd_contentTopic :: string
  rd_fromWireToProtoObj :: "bytes \<Rightarrow> js_error + proto_message option"
  rd_fromProtoObj :: "string \<Rightarrow> proto_message \<Rightarrow> js_error + 'm option"

type_synonym ('m, 'c) observer = "nat \<times> 'm relay_decoder \<times> 'c"

record ('m, 'c) relay =
  rl_pubsubTopics :: "string list"
  rl_observers :: "(string \<times> (string \<times> ('m, 'c) observer list) list) list"
  rl_handlers :: "string \<rightharpoonup> nat"
  gs_started :: bool
  gs_subscribed :: "string list"
  gs_validators :: "string list"
  gs_listeners :: "(nat \<times> string) list"
  rl_next :: nat

definition gossipSubSubscribe :: "('m, 'c) relay \<Rightarrow> string \<Rightarrow> ('m, 'c) relay" where
  "gossipSubSubscribe r topic =
     r\<lparr>rl_handlers := (rl_handlers r)(topic \<mapsto> rl_next r), gs_listeners := gs_listeners r @ [(rl_next r, topic)],
       gs_validators := js_set_add topic (gs_validators r), gs_subscribed := js_set_add topic (gs_subscribed r),
       rl_next := Suc (rl_next r)\<rparr>"

definition subscribeToAllTopics :: "('m, 'c) relay \<Rightarrow> ('m, 'c) relay" where
  "subscribeToAllTopics r = foldl gossipSubSubscribe r (rl_pubsubTopics r)"

text \<open>The node's pubsub service: its codecs and whether it is started.\<close>

definition RelayCodecs :: "string list" where
  "RelayCodecs = [''/vac/waku/relay/2.0.0'']"

definition isRelayPubsub :: "string list option \<Rightarrow> bool" where
  "isRelayPubsub multicodecs = (case multicodecs of None \<Rightarrow> False | Some cs \<Rightarrow> hd RelayCodecs \<in> set cs)"

definition relay_new :: "string list option \<Rightarrow> bool \<Rightarrow> string list \<Rightarrow> js_error + ('m, 'c) relay" where
  "relay_new multicodecs started topics =
     (if \<not> isRelayPubsub multicodecs
      then Inl (JsError ''Failed to initialize Relay. libp2p.pubsub does not support /vac/waku/relay/2.0.0'')
      else let r = \<lparr>rl_pubsubTopics = foldl (\<lambda>s t. js_set_add t s) [] topics, rl_observers = [], rl_handlers = Map.empty,
                    gs_started = started, gs_subscribed = [], gs_validators = [], gs_listeners = [], rl_next = 0\<rparr>
           in Inr (if started then subscribeToAllTopics r else r))"

text \<open>Starting gossipsub may reject.\<close>

definition relay_start :: "js_error + unit \<Rightarrow> ('m, 'c) relay \<Rightarrow> ('m, 'c) relay \<times> (js_error + unit)" where
  "relay_start gossip_start r =
     (if gs_started r then (r, Inl (JsError ''GossipSub already started.''))
      else case gossip_start of
             Inl e \<Rightarrow> (r, Inl e)
           | Inr _ \<Rightarrow> (subscribeToAllTopics (r\<lparr>gs_started := True\<rparr>), Inr ()))"

definition stop_topic :: "('m, 'c) relay \<Rightarrow> string \<Rightarrow> ('m, 'c) relay" where
  "stop_topic r topic =
     r\<lparr>gs_listeners := (case rl_handlers r topic of
                          None \<Rightarrow> gs_listeners r
                        | Some h \<Rightarrow> filter (\<lambda>l. fst l \<noteq> h) (gs_listeners r)),
       gs_validators := js_set_delete topic (gs_validators r),
       gs_subscribed := js_set_delete topic (gs_subscribed r)\<rparr>"

definition relay_stop :: "('m, 'c) relay \<Rightarrow> ('m, 'c) relay" where
  "relay_stop r = (foldl stop_topic r (rl_pubsubTopics r))\<lparr>rl_handlers := Map.empty, rl_observers := []\<rparr>"

definition topic_observers :: "('m, 'c) relay \<Rightarrow> string \<Rightarrow> (string \<times> ('m, 'c) observer list) list" where
  "topic_observers r topic = (case map_of (rl_observers r) topic of None \<Rightarrow> [] | Some ctObs \<Rightarrow> ctObs)"

definition add_observer :: "'c \<Rightarrow> ('m, 'c) relay \<times> (string \<times> ('m, 'c) observer) list \<Rightarrow> 'm relay_decoder
    \<Rightarrow> ('m, 'c) relay \<times> (string \<times> ('m, 'c) observer) list" where
  "add_observer cb acc decoder =
     (case acc of (r, observers) \<Rightarrow>
        let observer = (rl_next r, decoder, cb);
            ctObs = pushOrInitMapSet (topic_observers r (rd_pubsubTopic decoder)) (rd_contentTopic decoder) observer
        in (r\<lparr>rl_observers := AList.update (rd_pubsubTopic decoder) ctObs (rl_observers r), rl_next := Suc (rl_next r)\<rparr>,
            observers @ [(rd_pubsubTopic decoder, observer)]))"

text \<open>The returned function is the list of the observers that it will remove.\<close>

definition subscribeWithUnsubscribe :: "'m relay_decoder list \<Rightarrow> 'c \<Rightarrow> ('m, 'c) relay
    \<Rightarrow> ('m, 'c) relay \<times> (string \<times> ('m, 'c) observer) list" where
  "subscribeWithUnsubscribe decoders cb r = foldl (add_observer cb) (r, []) decoders"

definition remove_observer :: "('m, 'c) relay \<Rightarrow> string \<times> ('m, 'c) observer \<Rightarrow> ('m, 'c) relay" where
  "remove_observer r po =
     (case po of (topic, (k, decoder, cb)) \<Rightarrow>
        case map_of (rl_observers r) topic of
          None \<Rightarrow> r
        | Some ctObs \<Rightarrow>
            (case map_of ctObs (rd_contentTopic decoder) of
               None \<Rightarrow> r
             | Some obs \<Rightarrow> r\<lparr>rl_observers := AList.update topic
                 (AList.update (rd_contentTopic decoder) (filter (\<lambda>ob. fst ob \<noteq> k) obs) ctObs) (rl_observers r)\<rparr>))"

definition removeObservers :: "(string \<times> ('m, 'c) observer) list \<Rightarrow> ('m, 'c) relay \<Rightarrow> ('m, 'c) relay" where
  "removeObservers observers r = foldl remove_observer r observers"

definition getActiveSubscriptions :: "('m, 'c) relay \<Rightarrow> (string \<times> string list) list" where
  "getActiveSubscriptions r = map (\<lambda>t. (t, map fst (rl_observers r))) (rl_pubsubTopics r)"

section \<open>Incoming messages\<close>

definition observe :: "string \<Rightarrow> bytes \<Rightarrow> ('m, 'c) observer \<Rightarrow> ('c \<times> 'm) list" where
  "observe topic data_bytes ob =
     (case ob of (k, decoder, cb) \<Rightarrow>
        case rd_fromWireToProtoObj decoder data_bytes of
          Inr (Some protoMsg) \<Rightarrow> (case rd_fromProtoObj decoder topic protoMsg of
                                    Inr (Some msg) \<Rightarrow> [(cb, msg)]
                                  | _ \<Rightarrow> [])
        | _ \<Rightarrow> [])"

text \<open>\<open>topicOnly\<close> reads the content topic of a message; what it throws is only logged.\<close>

definition relay_incoming :: "(bytes \<Rightarrow> js_error + string) \<Rightarrow> string \<Rightarrow> bytes \<Rightarrow> ('m, 'c) relay \<Rightarrow> ('c \<times> 'm) list" where
  "relay_incoming topicOnly topic data_bytes r =
     (case topicOnly data_bytes of
        Inl e \<Rightarrow> []
      | Inr ct \<Rightarrow>
          if ct = [] then []
          else case map_of (rl_observers r) topic of
                 None \<Rightarrow> []
               | Some ctObs \<Rightarrow> (case map_of ctObs ct of
                                  None \<Rightarrow> []
                                | Some obs \<Rightarrow> concat (map (observe topic data_bytes) obs)))"

text \<open>A gossipsub message event runs every listener; each ignores other topics than its own.\<close>

definition gossip_message :: "(bytes \<Rightarrow> js_error + string) \<Rightarrow> string \<Rightarrow> bytes \<Rightarrow> ('m, 'c) relay \<Rightarrow> ('c \<times> 'm) list" where
  "gossip_message topicOnly topic data_bytes r =
     concat (map (\<lambda>(h, t). if topic \<noteq> t then [] else relay_incoming topicOnly topic data_bytes r) (gs_listeners r))"

definition messageValidator :: "(bytes \<Rightarrow> js_error + proto_message) \<Rightarrow> bytes \<Rightarrow> bool" where
  "messageValidator decode data_bytes =
     (case decode data_bytes of
        Inl e \<Rightarrow> False
      | Inr p \<Rightarrow> pm_contentTopic p \<noteq> [] \<and> pm_payload p \<noteq> [])"

section \<open>Sending and waiting\<close>

datatype relay_error = R_TOPIC_NOT_CONFIGURED | R_ENCODE_FAILED | R_SIZE_TOO_BIG

text \<open>
  The answer: who received the message, or one failure. \<open>toWire\<close> is the encoder on the message, \<open>publish\<close> is
  gossipsub's.
\<close>

definition relay_send :: "string \<Rightarrow> js_error + bytes option \<Rightarrow> (bytes \<Rightarrow> js_error + string list) \<Rightarrow> ('m, 'c) relay
    \<Rightarrow> js_error + (string list \<times> relay_error list)" where
  "relay_send topic wire publish r =
     (if topic \<notin> set (rl_pubsubTopics r) then Inr ([], [R_TOPIC_NOT_CONFIGURED])
      else case wire of
             Inl e \<Rightarrow> Inl e
           | Inr None \<Rightarrow> Inr ([], [R_ENCODE_FAILED])
           | Inr (Some msg) \<Rightarrow>
               if \<not> isWireSizeUnderCap msg then Inr ([], [R_SIZE_TOO_BIG])
               else (case publish msg of Inl e \<Rightarrow> Inl e | Inr recipients \<Rightarrow> Inr (recipients, [])))"

text \<open>
  \<open>waitForPeers\<close> reads the mesh of a topic after each heartbeat; \<open>beats\<close> gives the mesh after each of them. The
  first reading has no topic and is empty. The answer is the number of heartbeats it took, or \<open>None\<close> when the
  given ones do not suffice.
\<close>

fun wait_mesh :: "(string \<Rightarrow> string list) list \<Rightarrow> string list \<Rightarrow> string list \<Rightarrow> nat \<Rightarrow> nat option" where
  "wait_mesh beats [] peers k = Some k"
| "wait_mesh beats (topic # topics) peers k =
     (if peers \<noteq> [] then wait_mesh beats topics peers k
      else case beats of [] \<Rightarrow> None | mesh # rest \<Rightarrow> wait_mesh rest (topic # topics) (mesh topic) (Suc k))"

definition relay_waitForPeers :: "(string \<Rightarrow> string list) list \<Rightarrow> ('m, 'c) relay \<Rightarrow> nat option" where
  "relay_waitForPeers beats r = wait_mesh beats (rl_pubsubTopics r) [] 0"

section \<open>Subscribing and unsubscribing\<close>

definition obs_of :: "('m, 'c) relay \<Rightarrow> string \<Rightarrow> string \<Rightarrow> ('m, 'c) observer list" where
  "obs_of r t ct = (case map_of (topic_observers r t) ct of None \<Rightarrow> [] | Some obs \<Rightarrow> obs)"

lemma incoming_obs:
  "relay_incoming topicOnly t bs r
     = (case topicOnly bs of Inl e \<Rightarrow> [] | Inr ct \<Rightarrow> if ct = [] then [] else concat (map (observe t bs) (obs_of r t ct)))"
  by (auto simp: relay_incoming_def obs_of_def topic_observers_def split: sum.splits option.splits)

lemma incoming_cong: "rl_observers r' = rl_observers r \<Longrightarrow> relay_incoming topicOnly t bs r' = relay_incoming topicOnly t bs r"
  by (simp add: relay_incoming_def split: sum.splits)

text \<open>Observers are numbered from below.\<close>

definition fresh_ids :: "('m, 'c) relay \<Rightarrow> bool" where
  "fresh_ids r \<longleftrightarrow> (\<forall>t ct. \<forall>ob\<in>set (obs_of r t ct). fst ob < rl_next r)"

lemma map_of_push: "map_of (pushOrInitMapSet m k v) k' = (if k' = k then Some (js_set_add v (case map_of m k of None \<Rightarrow> [] | Some vs \<Rightarrow> vs)) else map_of m k')"
  by (auto simp: pushOrInitMapSet_def update_conv split: option.splits)

lemma add_observer_obs:
  assumes "fresh_ids r" and "add_observer cb (r, os) d = (r', os')"
  shows "obs_of r' t ct = obs_of r t ct @ (if rd_pubsubTopic d = t \<and> rd_contentTopic d = ct then [(rl_next r, d, cb)] else [])"
    and "rl_next r' = Suc (rl_next r)" and "os' = os @ [(rd_pubsubTopic d, (rl_next r, d, cb))]"
    and "gs_listeners r' = gs_listeners r" and "rl_pubsubTopics r' = rl_pubsubTopics r"
proof -
  have "(rl_next r, d, cb) \<notin> set (obs_of r t ct)" for t ct using assms(1) by (fastforce simp: fresh_ids_def)
  then have fresh: "js_set_add (rl_next r, d, cb) (obs_of r t ct) = obs_of r t ct @ [(rl_next r, d, cb)]" for t ct
    by (simp add: js_set_add_def)
  have "topic_observers r' t = (if t = rd_pubsubTopic d
      then pushOrInitMapSet (topic_observers r t) (rd_contentTopic d) (rl_next r, d, cb) else topic_observers r t)"
    using assms(2) by (auto simp: add_observer_def Let_def topic_observers_def update_conv)
  then have "obs_of r' t ct = (if t = rd_pubsubTopic d \<and> ct = rd_contentTopic d
      then js_set_add (rl_next r, d, cb) (obs_of r t ct) else obs_of r t ct)"
    by (simp add: obs_of_def map_of_push)
  then show "obs_of r' t ct = obs_of r t ct @ (if rd_pubsubTopic d = t \<and> rd_contentTopic d = ct then [(rl_next r, d, cb)] else [])"
    by (auto simp: fresh)
qed (use assms(2) in \<open>auto simp: add_observer_def Let_def\<close>)

lemma subscribe_obs:
  assumes "fresh_ids r" and "foldl (add_observer cb) (r, os) ds = (r', os')"
  shows "obs_of r' t ct = obs_of r t ct @ filter (\<lambda>(k, d, c). rd_pubsubTopic d = t \<and> rd_contentTopic d = ct)
             (map (\<lambda>(k, d). (k, d, cb)) (enumerate (rl_next r) ds))
    \<and> os' = os @ map (\<lambda>(k, d). (rd_pubsubTopic d, (k, d, cb))) (enumerate (rl_next r) ds)
    \<and> fresh_ids r' \<and> gs_listeners r' = gs_listeners r \<and> rl_pubsubTopics r' = rl_pubsubTopics r"
  using assms
proof (induction ds arbitrary: r os)
  case (Cons d ds)
  obtain r1 os1 where a: "add_observer cb (r, os) d = (r1, os1)" by fastforce
  note o = add_observer_obs[OF Cons.prems(1) a]
  have "fresh_ids r1" using Cons.prems(1) unfolding fresh_ids_def o(1,2) by (auto simp: less_Suc_eq)
  from Cons.IH[OF this, of os1] Cons.prems(2) a o show ?case by (simp add: split_def)
qed simp

lemma remove_observer_obs:
  "obs_of (remove_observer r (t', (k, d, cb))) t ct
     = (if t = t' \<and> ct = rd_contentTopic d then filter (\<lambda>ob. fst ob \<noteq> k) (obs_of r t ct) else obs_of r t ct)"
  "gs_listeners (remove_observer r po) = gs_listeners r" "rl_pubsubTopics (remove_observer r po) = rl_pubsubTopics r"
  by (auto simp: remove_observer_def obs_of_def topic_observers_def update_conv split: option.splits prod.splits)

lemma removeObservers_obs:
  "obs_of (removeObservers os r) t ct
     = filter (\<lambda>ob. \<forall>(t', (k, d, cb))\<in>set os. \<not> (t' = t \<and> rd_contentTopic d = ct \<and> k = fst ob)) (obs_of r t ct)
   \<and> gs_listeners (removeObservers os r) = gs_listeners r"
proof (induction os arbitrary: r)
  case (Cons po os)
  obtain t' k d cb where "po = (t', (k, d, cb))" by (metis prod_cases4)
  with Cons[of "remove_observer r po"] show ?case
    by (auto simp: removeObservers_def remove_observer_obs filter_filter intro!: filter_cong)
qed (simp add: removeObservers_def)

definition new_deliveries ::
    "(bytes \<Rightarrow> js_error + string) \<Rightarrow> string \<Rightarrow> bytes \<Rightarrow> 'm relay_decoder list \<Rightarrow> 'c \<Rightarrow> ('c \<times> 'm) list" where
  "new_deliveries topicOnly t bs ds cb =
     (case topicOnly bs of
        Inl e \<Rightarrow> []
      | Inr ct \<Rightarrow> if ct = [] then []
                 else concat (map (\<lambda>d. observe t bs (0, d, cb)) (filter (\<lambda>d. rd_pubsubTopic d = t \<and> rd_contentTopic d = ct) ds)))"

lemma subscribe_incoming:
  assumes "fresh_ids r" and "subscribeWithUnsubscribe ds cb r = (r', os)"
  shows "relay_incoming topicOnly t bs r' = relay_incoming topicOnly t bs r @ new_deliveries topicOnly t bs ds cb"
    and "gs_listeners r' = gs_listeners r"
proof -
  let ?new = "\<lambda>ct. filter (\<lambda>(k, d, c). rd_pubsubTopic d = t \<and> rd_contentTopic d = ct) (map (\<lambda>(k, d). (k, d, cb)) (enumerate (rl_next r) ds))"
  note s = subscribe_obs[OF assms(1) assms(2)[unfolded subscribeWithUnsubscribe_def]]
  have o: "obs_of r' t ct = obs_of r t ct @ ?new ct" for ct using s by blast
  have "concat (map (observe t bs) (?new ct)) = concat (map (\<lambda>d. observe t bs (0, d, cb))
      (filter (\<lambda>d. rd_pubsubTopic d = t \<and> rd_contentTopic d = ct) ds))" for ct
  proof (induction ds arbitrary: r)
    case (Cons d ds)
    from Cons[of "r\<lparr>rl_next := Suc (rl_next r)\<rparr>"] show ?case by (simp add: observe_def)
  qed simp
  then show "relay_incoming topicOnly t bs r' = relay_incoming topicOnly t bs r @ new_deliveries topicOnly t bs ds cb"
    by (simp add: incoming_obs new_deliveries_def o split: sum.splits)
  show "gs_listeners r' = gs_listeners r" using s by blast
qed

text \<open>C18: What a relay delivers after a subscription is what it delivered before, followed by what the new decoders of that
  topic and content topic decode, in their order, each once for the given callback; and the function that
  subscribing returns takes back exactly that.
\<close>

theorem subscription_roundtrip:
  assumes "fresh_ids r" and "subscribeWithUnsubscribe ds cb r = (r', os)"
  shows "relay_incoming topicOnly t bs r' = relay_incoming topicOnly t bs r @ new_deliveries topicOnly t bs ds cb
    \<and> relay_incoming topicOnly t bs (removeObservers os r') = relay_incoming topicOnly t bs r
    \<and> gs_listeners (removeObservers os r') = gs_listeners r"
proof -
  let ?new = "\<lambda>ct. filter (\<lambda>(k, d, c). rd_pubsubTopic d = t \<and> rd_contentTopic d = ct) (map (\<lambda>(k, d). (k, d, cb)) (enumerate (rl_next r) ds))"
  note s = subscribe_obs[OF assms(1) assms(2)[unfolded subscribeWithUnsubscribe_def]]
  have "obs_of (removeObservers os r') t ct = obs_of r t ct" for ct
  proof -
    let ?keep = "\<lambda>ob. \<forall>(t', (k, d, cb))\<in>set os. \<not> (t' = t \<and> rd_contentTopic d = ct \<and> k = fst ob)"
    have os: "os = map (\<lambda>(k, d). (rd_pubsubTopic d, (k, d, cb))) (enumerate (rl_next r) ds)" using s by simp
    have "filter ?keep (obs_of r t ct) = obs_of r t ct"
      using assms(1) unfolding filter_id_conv fresh_ids_def os by (force simp: in_set_enumerate_eq)
    moreover have "filter ?keep (?new ct) = []"
      unfolding filter_empty_conv os by (force simp: in_set_enumerate_eq)
    moreover have "obs_of r' t ct = obs_of r t ct @ ?new ct" using s by blast
    ultimately show ?thesis using removeObservers_obs[of os r' t ct] by simp
  qed
  then have "relay_incoming topicOnly t bs (removeObservers os r') = relay_incoming topicOnly t bs r"
    by (simp add: incoming_obs split: sum.splits)
  moreover have "gs_listeners (removeObservers os r') = gs_listeners r" using s removeObservers_obs[of os r' t] by metis
  ultimately show ?thesis using subscribe_incoming[OF assms] by blast
qed

definition sample_decoder :: "string relay_decoder" where
  "sample_decoder = \<lparr>rd_pubsubTopic = ''t'', rd_contentTopic = ''c'', rd_fromWireToProtoObj = (\<lambda>bs. Inr (Some
      \<lparr>pm_payload = bs, pm_contentTopic = ''c'', pm_version = None, pm_timestamp = None, pm_meta = None, pm_rateLimitProof = None,
       pm_ephemeral = None\<rparr>)), rd_fromProtoObj = (\<lambda>t p. Inr (Some (pm_contentTopic p)))\<rparr>"

definition sample_relay :: "(string, nat) relay" where
  "sample_relay = \<lparr>rl_pubsubTopics = [''t''], rl_observers = [], rl_handlers = [''t'' \<mapsto> 0], gs_started = True,
     gs_subscribed = [''t''], gs_validators = [''t''], gs_listeners = [(0, ''t'')], rl_next = 1\<rparr>"

lemma subscription_roundtrip_witness:
  "relay_incoming (\<lambda>_. Inr ''c'') ''t'' [] (fst (subscribeWithUnsubscribe [sample_decoder] 7 sample_relay)) = [(7, ''c'')]"
proof -
  obtain r' os where s: "subscribeWithUnsubscribe [sample_decoder] 7 sample_relay = (r', os)" by fastforce
  have "fresh_ids sample_relay" by (simp add: fresh_ids_def obs_of_def topic_observers_def sample_relay_def)
  from subscription_roundtrip[OF this s, of "\<lambda>_. Inr ''c''" "''t''" "[]"] s show ?thesis
    by (simp add: incoming_obs obs_of_def topic_observers_def sample_relay_def observe_def sample_decoder_def new_deliveries_def)
qed

section \<open>Starting and stopping\<close>

lemma subscribeAll_fields:
  fixes r :: "('m, 'c) relay"
  shows "map snd (gs_listeners (subscribeToAllTopics r)) = map snd (gs_listeners r) @ rl_pubsubTopics r
    \<and> rl_observers (subscribeToAllTopics r) = rl_observers r \<and> rl_pubsubTopics (subscribeToAllTopics r) = rl_pubsubTopics r"
proof -
  have "map snd (gs_listeners (foldl gossipSubSubscribe r ts)) = map snd (gs_listeners r) @ ts
      \<and> rl_observers (foldl gossipSubSubscribe r ts) = rl_observers r
      \<and> rl_pubsubTopics (foldl gossipSubSubscribe r ts) = rl_pubsubTopics r" for ts and r :: "('m, 'c) relay"
    by (induction ts arbitrary: r) (simp_all add: gossipSubSubscribe_def)
  then show ?thesis by (simp add: subscribeToAllTopics_def)
qed

lemma gossip_message_count:
  "gossip_message topicOnly topic bs r
     = concat (replicate (count_list (map snd (gs_listeners r)) topic) (relay_incoming topicOnly topic bs r))"
proof -
  have "concat (map (\<lambda>(h, t). if topic \<noteq> t then [] else xs) ls) = concat (replicate (count_list (map snd ls) topic) xs)"
    for ls :: "(nat \<times> string) list" and xs :: "('c \<times> 'm) list"
    by (induction ls) auto
  then show ?thesis by (simp add: gossip_message_def)
qed

lemma set_topics_added: "set (foldl (\<lambda>s t. js_set_add t s) acc ts) = set acc \<union> set ts"
  and distinct_topics_added: "distinct acc \<Longrightarrow> distinct (foldl (\<lambda>s t. js_set_add t s) acc ts)"
  by (induction ts arbitrary: acc) auto

lemma count_list_distinct: "distinct xs \<Longrightarrow> count_list xs x = (if x \<in> set xs then 1 else 0)"
  by (induction xs) auto

text \<open>
  A relay made while gossipsub runs, or made before and then started, hands each message of its pubsub topics once to
  each observer whose decoder is of that topic and content topic, and ignores messages of other topics. Made before
  gossipsub runs and not started, it hears nothing.
\<close>

theorem relay_hears_its_topics:
  fixes r :: "('m, 'c) relay"
  assumes "relay_new (Some RelayCodecs) started topics = Inr r"
  shows "gossip_message topicOnly t bs
        (fst (subscribeWithUnsubscribe ds cb (if started then r else fst (relay_start (Inr ()) r))))
      = (if t \<in> set topics then new_deliveries topicOnly t bs ds cb else [])
    \<and> (\<not> started \<longrightarrow> gossip_message topicOnly t bs (fst (subscribeWithUnsubscribe ds cb r)) = [])"
proof -
  let ?ts = "foldl (\<lambda>s t. js_set_add t s) [] topics"
  let ?r0 = "\<lambda>b. \<lparr>rl_pubsubTopics = ?ts, rl_observers = [], rl_handlers = Map.empty, gs_started = b, gs_subscribed = [],
      gs_validators = [], gs_listeners = [], rl_next = 0\<rparr> :: ('m, 'c) relay"
  have ts: "set ?ts = set topics" "distinct ?ts"
    using set_topics_added[of "[] :: string list"] distinct_topics_added[of "[] :: string list"] by auto
  from assms have r: "r = (if started then subscribeToAllTopics (?r0 True) else ?r0 False)"
    by (auto simp: relay_new_def isRelayPubsub_def RelayCodecs_def Let_def)
  have quiet: "fresh_ids x" "relay_incoming topicOnly t bs x = []" if "rl_observers x = []" for x :: "('m, 'c) relay"
    using that by (auto simp: fresh_ids_def incoming_obs obs_of_def topic_observers_def split: sum.splits)
  have all: "gossip_message topicOnly t bs (fst (subscribeWithUnsubscribe ds cb (subscribeToAllTopics x)))
      = (if t \<in> set topics then new_deliveries topicOnly t bs ds cb else [])"
    if "gs_listeners x = []" "rl_pubsubTopics x = ?ts" "rl_observers x = []" for x :: "('m, 'c) relay"
  proof -
    have o: "rl_observers (subscribeToAllTopics x) = []" "map snd (gs_listeners (subscribeToAllTopics x)) = ?ts"
      using subscribeAll_fields[of x] that by simp_all
    obtain r' os where s: "subscribeWithUnsubscribe ds cb (subscribeToAllTopics x) = (r', os)" by fastforce
    from subscribe_incoming[OF quiet(1)[OF o(1)] s] o ts quiet(2)[OF o(1)] show ?thesis
      by (simp add: s gossip_message_count count_list_distinct)
  qed
  show ?thesis
  proof (cases started)
    case True
    with r all[of "?r0 True"] show ?thesis by simp
  next
    case False
    then have r: "r = ?r0 False" using r by simp
    obtain r' os where s: "subscribeWithUnsubscribe ds cb r = (r', os)" by fastforce
    have "gs_listeners r' = []" using subscribe_incoming(2)[OF quiet(1) s] r by simp
    with False s r all[of "?r0 True"] show ?thesis by (simp add: relay_start_def gossip_message_def)
  qed
qed

lemma relay_hears_its_topics_witness:
  "gossip_message (\<lambda>_. Inr ''c'') ''t'' [] (fst (subscribeWithUnsubscribe [sample_decoder] 7
     (projr (relay_new (Some RelayCodecs) True [''u'', ''t'']) :: (string, nat) relay))) = [(7, ''c'')]"
proof -
  obtain r :: "(string, nat) relay" where r: "relay_new (Some RelayCodecs) True [''u'', ''t''] = Inr r"
    by (simp add: relay_new_def isRelayPubsub_def RelayCodecs_def Let_def)
  from relay_hears_its_topics[OF r, of "\<lambda>_. Inr ''c''" "''t''" "[]" "[sample_decoder]" 7] show ?thesis
    by (simp add: r new_deliveries_def sample_decoder_def observe_def)
qed

lemma stop_topics:
  "rl_handlers (foldl stop_topic r ts) = rl_handlers r
   \<and> gs_listeners (foldl stop_topic r ts) = filter (\<lambda>l. \<forall>t\<in>set ts. rl_handlers r t \<noteq> Some (fst l)) (gs_listeners r)
   \<and> gs_started (foldl stop_topic r ts) = gs_started r"
proof (induction ts arbitrary: r)
  case (Cons t ts)
  have "filter (\<lambda>l. \<forall>t'\<in>set ts. rl_handlers r t' \<noteq> Some (fst l)) (gs_listeners (stop_topic r t))
      = filter (\<lambda>l. \<forall>t'\<in>set (t # ts). rl_handlers r t' \<noteq> Some (fst l)) (gs_listeners r)"
    by (auto simp: stop_topic_def filter_filter split: option.splits intro!: filter_cong)
  with Cons[of "stop_topic r t"] show ?case by (simp add: stop_topic_def)
qed simp

text \<open>
  A relay that was stopped stays deaf when its node is started again: stopping takes the listeners and the observers
  away, starting the node starts gossipsub, and then \<open>start\<close> refuses because gossipsub is running. A client that
  subscribes again hears nothing.
\<close>

theorem restarted_relay_deaf:
  assumes "\<forall>(h, t)\<in>set (gs_listeners r). t \<in> set (rl_pubsubTopics r) \<and> rl_handlers r t = Some h"
  shows "let r' = (relay_stop r)\<lparr>gs_started := True\<rparr> in
    gossip_message topicOnly topic bs (fst (subscribeWithUnsubscribe ds cb r')) = []
    \<and> relay_start gossip_start r' = (r', Inl (JsError ''GossipSub already started.''))"
proof -
  let ?r = "(relay_stop r)\<lparr>gs_started := True\<rparr>"
  have "\<forall>l\<in>set (gs_listeners r). \<exists>t\<in>set (rl_pubsubTopics r). rl_handlers r t = Some (fst l)" using assms by force
  then have "gs_listeners ?r = []" using stop_topics[of r "rl_pubsubTopics r"]
    by (simp add: relay_stop_def filter_empty_conv)
  moreover have "fresh_ids ?r" by (simp add: fresh_ids_def obs_of_def topic_observers_def relay_stop_def)
  moreover obtain r'' os where s: "subscribeWithUnsubscribe ds cb ?r = (r'', os)" by fastforce
  ultimately have "gs_listeners r'' = []" using subscribe_obs[of ?r cb "[]" ds r'' os] by (simp add: subscribeWithUnsubscribe_def)
  then show ?thesis by (simp add: s gossip_message_def relay_start_def)
qed

lemma restarted_relay_deaf_witness:
  "gossip_message (\<lambda>_. Inr ''c'') ''t'' [] (fst (subscribeWithUnsubscribe [sample_decoder] 7 ((relay_stop sample_relay)\<lparr>gs_started := True\<rparr>))) = []"
  using restarted_relay_deaf[of sample_relay "\<lambda>_. Inr ''c''" "''t''" "[]" "[sample_decoder]" 7]
  by (simp add: sample_relay_def Let_def)

section \<open>Waiting for peers\<close>

lemma wait_mesh_nonempty: "peers \<noteq> [] \<Longrightarrow> wait_mesh beats ts peers k = Some k"
  by (induction ts) auto

lemma wait_mesh_first:
  "wait_mesh beats (t # ts) [] k = Some k'
     \<longleftrightarrow> (\<exists>j<length beats. k' = k + j + 1 \<and> (beats ! j) t \<noteq> [] \<and> (\<forall>i<j. (beats ! i) t = []))"
proof (induction beats arbitrary: k)
  case (Cons mesh beats)
  show ?case
  proof (cases "mesh t = []")
    case True
    with Cons[of "Suc k"] have "wait_mesh (mesh # beats) (t # ts) [] k = Some k'
        \<longleftrightarrow> (\<exists>j<length beats. k' = Suc k + j + 1 \<and> (beats ! j) t \<noteq> [] \<and> (\<forall>i<j. (beats ! i) t = []))" by simp
    also have "\<dots> \<longleftrightarrow> (\<exists>j<length (mesh # beats). k' = k + j + 1 \<and> ((mesh # beats) ! j) t \<noteq> [] \<and> (\<forall>i<j. ((mesh # beats) ! i) t = []))"
    proof
      assume "\<exists>j<length beats. k' = Suc k + j + 1 \<and> (beats ! j) t \<noteq> [] \<and> (\<forall>i<j. (beats ! i) t = [])"
      then obtain j where "j < length beats" "k' = Suc k + j + 1" "(beats ! j) t \<noteq> []" "\<forall>i<j. (beats ! i) t = []" by blast
      with True show "\<exists>j<length (mesh # beats). k' = k + j + 1 \<and> ((mesh # beats) ! j) t \<noteq> [] \<and> (\<forall>i<j. ((mesh # beats) ! i) t = [])"
        by (intro exI[of _ "Suc j"]) (auto simp: less_Suc_eq_0_disj)
    next
      assume "\<exists>j<length (mesh # beats). k' = k + j + 1 \<and> ((mesh # beats) ! j) t \<noteq> [] \<and> (\<forall>i<j. ((mesh # beats) ! i) t = [])"
      then obtain j where j: "j < length (mesh # beats)" "k' = k + j + 1" "((mesh # beats) ! j) t \<noteq> []" "\<forall>i<j. ((mesh # beats) ! i) t = []"
        by blast
      with True obtain j' where "j = Suc j'" by (cases j) auto
      with j show "\<exists>j<length beats. k' = Suc k + j + 1 \<and> (beats ! j) t \<noteq> [] \<and> (\<forall>i<j. (beats ! i) t = [])"
        by (intro exI[of _ j']) force
    qed
    finally show ?thesis .
  next
    case False
    then have "wait_mesh (mesh # beats) (t # ts) [] k = Some (Suc k)" by (simp add: wait_mesh_nonempty)
    with False show ?thesis by (auto intro!: exI[of _ 0] simp: gr0_conv_Suc) (metis nth_Cons_0 not_gr_zero)
  qed
qed simp

text \<open>
  \<open>waitForPeers\<close> ends at the first heartbeat at which the mesh of the first pubsub topic has a peer; the meshes of the
  other topics make no difference.
\<close>

theorem only_first_topic_awaited:
  assumes "rl_pubsubTopics r = t # ts"
  shows "relay_waitForPeers beats r = Some k
      \<longleftrightarrow> (\<exists>j<length beats. k = j + 1 \<and> (beats ! j) t \<noteq> [] \<and> (\<forall>i<j. (beats ! i) t = []))"
  using wait_mesh_first[of beats t ts 0 k] by (simp add: relay_waitForPeers_def assms)

lemma only_first_topic_awaited_witness:
  "relay_waitForPeers [\<lambda>t. if t = ''t'' then [''p''] else []] (sample_relay\<lparr>rl_pubsubTopics := [''t'', ''u'']\<rparr>) = Some 1"
  using only_first_topic_awaited[of "sample_relay\<lparr>rl_pubsubTopics := [''t'', ''u'']\<rparr>" "''t''" "[''u'']"
      "[\<lambda>t. if t = ''t'' then [''p''] else []]" 1] by simp

end
