(* ===== verification/Stream_Manager.thy ===== *)
theory Stream_Manager
  imports Prelude
begin

text \<open>
  The streams of one protocol (\<open>packages/core/src/lib/stream_manager/stream_manager.ts\<close>, \<open>utils.ts\<close>). A
  libp2p connection carries streams, and a stream has a metadata object in which the manager marks it as
  consumed. Opening a stream takes time; each point at which the code waits ends a step here, so that every
  interleaving of peer updates, calls of \<open>getStream\<close> and ends of \<open>newStream\<close> is a list of steps. What
  \<open>newStream\<close> yields comes with the step that ends it: a stream the connection lists from then on, or
  nothing when it threw.
\<close>

section \<open>Connections and streams\<close>

record mstream =
  ms_id :: nat
  ms_protocol :: string
  ms_writeStatus :: "string option"
  ms_consumed :: bool

record mconn =
  mc_id :: nat
  mc_remotePeer :: string
  mc_status :: string
  mc_opened :: int
  mc_streams :: "mstream list"

definition getConnections :: "mconn list \<Rightarrow> string \<Rightarrow> mconn list" where
  "getConnections cs p = filter (\<lambda>c. mc_remotePeer c = p) cs"

definition selectOpenConnection :: "mconn list \<Rightarrow> mconn option" where
  "selectOpenConnection cs =
     (case js_sort (\<lambda>left right. mc_opened right - mc_opened left) (filter (\<lambda>c. mc_status c = ''open'') cs) of
        [] \<Rightarrow> None
      | c # _ \<Rightarrow> Some c)"

text \<open>An absent write status is read as the empty string.\<close>

definition isStreamUnusable :: "mstream \<Rightarrow> bool" where
  "isStreamUnusable s \<longleftrightarrow> (case ms_writeStatus s of None \<Rightarrow> '''' | Some w \<Rightarrow> w) \<in> {''done'', ''closed'', ''closing''}"

definition isStreamLocked :: "mstream \<Rightarrow> bool" where
  "isStreamLocked s = ms_consumed s"

definition getOpenStreamForCodec :: "string \<Rightarrow> mconn list \<Rightarrow> string \<Rightarrow> mstream option" where
  "getOpenStreamForCodec multicodec cs p =
     (case selectOpenConnection (getConnections cs p) of
        None \<Rightarrow> None
      | Some c \<Rightarrow> (case find (\<lambda>s. ms_protocol s = multicodec) (mc_streams c) of
                     None \<Rightarrow> None
                   | Some s \<Rightarrow> if isStreamUnusable s \<or> isStreamLocked s then None else Some s))"

text \<open>Marking a stream changes the object that every list of streams refers to.\<close>

definition lockStream :: "nat \<Rightarrow> mconn list \<Rightarrow> mconn list" where
  "lockStream k cs =
     map (\<lambda>c. c\<lparr>mc_streams := map (\<lambda>s. if ms_id s = k then s\<lparr>ms_consumed := True\<rparr> else s) (mc_streams c)\<rparr>) cs"

text \<open>The loop of \<open>createStream\<close> over the outcomes of \<open>newStream\<close>; its callers make one attempt.\<close>

fun create_attempts :: "nat \<Rightarrow> (js_error + 's) list \<Rightarrow> 's option" where
  "create_attempts 0 outcomes = None"
| "create_attempts (Suc i) [] = None"
| "create_attempts (Suc i) (Inr s # outcomes) = Some s"
| "create_attempts (Suc i) (Inl e # outcomes) = create_attempts i outcomes"

section \<open>The manager\<close>

text \<open>
  \<open>creations\<close> are the promises of \<open>createStreamWithLock\<close> that wait for \<open>newStream\<close>, with the connection
  that was chosen. A call of \<open>getStream\<close> first waits for a scheduled creation, then for its own, and then
  has a created stream that it has not marked yet.
\<close>

datatype get_state =
    Awaiting string nat
  | Creating string nat
  | Created string nat

record stream_manager =
  sm_multicodec :: string
  sm_listening :: bool
  ongoingCreation :: "string list"
  streamPool :: "string \<rightharpoonup> nat"
  sm_next :: nat
  creations :: "nat \<rightharpoonup> string \<times> nat"
  gets :: "nat \<rightharpoonup> get_state"
  sm_conns :: "mconn list"
  handed :: "(nat \<times> string \<times> nat option) list"

text \<open>
  \<open>sm_next\<close> numbers promises, calls and streams, and \<open>handed\<close> is the log of what the calls of \<open>getStream\<close>
  answered, a stream by its number. \<open>sm_conns\<close> is the state of libp2p.
\<close>

definition streams :: "mconn list \<Rightarrow> mstream list" where
  "streams cs = concat (map mc_streams cs)"

definition fresh_number :: "mconn list \<Rightarrow> nat \<Rightarrow> nat" where
  "fresh_number cs n = fold (\<lambda>st m. max m (Suc (ms_id st))) (streams cs) n"

definition stream_manager_new :: "string \<Rightarrow> mconn list \<Rightarrow> stream_manager" where
  "stream_manager_new codec cs = \<lparr>sm_multicodec = codec, sm_listening = True, ongoingCreation = [], streamPool = Map.empty,
     sm_next = fresh_number cs 0, creations = Map.empty, gets = Map.empty,
     sm_conns = cs, handed = []\<rparr>"

definition sm_stop :: "stream_manager \<Rightarrow> stream_manager" where
  "sm_stop s = s\<lparr>sm_listening := False, streamPool := Map.empty, ongoingCreation := []\<rparr>"

definition chosen_connection :: "mconn list \<Rightarrow> string \<Rightarrow> nat option" where
  "chosen_connection cs p = map_option mc_id (selectOpenConnection (getConnections cs p))"

text \<open>A skipped creation, and one without a connection, is a promise that is already resolved.\<close>

definition createStreamWithLock :: "string \<Rightarrow> nat \<Rightarrow> stream_manager \<Rightarrow> stream_manager" where
  "createStreamWithLock p k s =
     (if p \<in> set (ongoingCreation s) then s
      else case chosen_connection (sm_conns s) p of
             None \<Rightarrow> s\<lparr>ongoingCreation := js_set_delete p (js_set_add p (ongoingCreation s))\<rparr>
           | Some c \<Rightarrow> s\<lparr>ongoingCreation := js_set_add p (ongoingCreation s), creations := (creations s)(k \<mapsto> (p, c))\<rparr>)"

definition scheduleNewStream :: "string \<Rightarrow> stream_manager \<Rightarrow> stream_manager" where
  "scheduleNewStream p s =
     (let k = sm_next s;
          s' = s\<lparr>sm_next := Suc k, streamPool := (streamPool s)(p := None)\<rparr>;
          s'' = createStreamWithLock p k s'
      in s''\<lparr>streamPool := (streamPool s'')(p \<mapsto> k)\<rparr>)"

definition handlePeerUpdateStreamPool :: "string \<Rightarrow> string list \<Rightarrow> stream_manager \<Rightarrow> stream_manager" where
  "handlePeerUpdateStreamPool p protocols s =
     (if \<not> sm_listening s then s
      else if sm_multicodec s \<notin> set protocols then s
      else if getOpenStreamForCodec (sm_multicodec s) (sm_conns s) p \<noteq> None then s
      else scheduleNewStream p s)"

text \<open>The end of a call, with a stream that is marked first.\<close>

definition get_answers :: "nat \<Rightarrow> string \<Rightarrow> nat option \<Rightarrow> stream_manager \<Rightarrow> stream_manager" where
  "get_answers g p r s =
     s\<lparr>gets := (gets s)(g := None), handed := handed s @ [(g, p, r)],
       sm_conns := (case r of None \<Rightarrow> sm_conns s | Some k \<Rightarrow> lockStream k (sm_conns s))\<rparr>"

text \<open>After the scheduled creation, if there was one: an open stream is taken at once.\<close>

definition get_continue :: "nat \<Rightarrow> string \<Rightarrow> stream_manager \<Rightarrow> stream_manager" where
  "get_continue g p s =
     (case getOpenStreamForCodec (sm_multicodec s) (sm_conns s) p of
        Some st \<Rightarrow> get_answers g p (Some (ms_id st)) s
      | None \<Rightarrow> (case chosen_connection (sm_conns s) p of
                   None \<Rightarrow> get_answers g p None s
                 | Some c \<Rightarrow> s\<lparr>gets := (gets s)(g \<mapsto> Creating p c)\<rparr>))"

definition getStream :: "string \<Rightarrow> stream_manager \<Rightarrow> stream_manager" where
  "getStream p s =
     (let g = sm_next s; s1 = s\<lparr>sm_next := Suc g\<rparr>
      in case streamPool s p of
           Some k \<Rightarrow> s1\<lparr>streamPool := (streamPool s)(p := None), gets := (gets s)(g \<mapsto> Awaiting p k)\<rparr>
         | None \<Rightarrow> get_continue g p s1)"

text \<open>A stream that was opened is listed by its connection, when that still exists.\<close>

definition opened :: "nat \<Rightarrow> stream_manager \<Rightarrow> stream_manager \<times> nat" where
  "opened c s =
     (let k = sm_next s;
          st = \<lparr>ms_id = k, ms_protocol = sm_multicodec s, ms_writeStatus = None, ms_consumed = False\<rparr>
      in (s\<lparr>sm_next := Suc k,
            sm_conns := map (\<lambda>x. if mc_id x = c then x\<lparr>mc_streams := mc_streams x @ [st]\<rparr> else x) (sm_conns s)\<rparr>, k))"

datatype sm_event =
    Sm_Stop
  | Net_Changes "mconn list"
  | Peer_Update string "string list"
  | Get_Stream string
  | Creation_Ends nat "js_error + unit"
  | Get_Resumes nat
  | Get_Creation_Ends nat "js_error + unit"
  | Get_Locks nat

text \<open>A call that waits for a scheduled creation resumes when that promise is settled.\<close>

fun sm_step :: "sm_event \<Rightarrow> stream_manager \<Rightarrow> stream_manager" where
  "sm_step Sm_Stop s = sm_stop s"
| "sm_step (Net_Changes cs) s = s\<lparr>sm_conns := cs, sm_next := fresh_number cs (sm_next s)\<rparr>"
| "sm_step (Peer_Update p protocols) s = handlePeerUpdateStreamPool p protocols s"
| "sm_step (Get_Stream p) s = getStream p s"
| "sm_step (Creation_Ends k r) s =
     (case creations s k of
        None \<Rightarrow> s
      | Some (p, c) \<Rightarrow>
          (case create_attempts 1 [r] of None \<Rightarrow> s | Some u \<Rightarrow> fst (opened c s))
            \<lparr>creations := (creations s)(k := None), ongoingCreation := js_set_delete p (ongoingCreation s)\<rparr>)"
| "sm_step (Get_Resumes g) s =
     (case gets s g of
        Some (Awaiting p k) \<Rightarrow> if creations s k = None then get_continue g p s else s
      | _ \<Rightarrow> s)"
| "sm_step (Get_Creation_Ends g r) s =
     (case gets s g of
        Some (Creating p c) \<Rightarrow>
          (case create_attempts 1 [r] of
             None \<Rightarrow> get_answers g p None s
           | Some u \<Rightarrow> (case opened c s of (s', k) \<Rightarrow> s'\<lparr>gets := (gets s)(g \<mapsto> Created p k)\<rparr>))
      | _ \<Rightarrow> s)"
| "sm_step (Get_Locks g) s =
     (case gets s g of
        Some (Created p k) \<Rightarrow> get_answers g p (Some k) s
      | _ \<Rightarrow> s)"

definition sm_run :: "sm_event list \<Rightarrow> stream_manager \<Rightarrow> stream_manager" where
  "sm_run es s = foldl (\<lambda>s e. sm_step e s) s es"

section \<open>Connections and marks\<close>

interpretation newest_first: consistent_comparator "\<lambda>left right. mc_opened right - mc_opened left"
  by unfold_locales auto

lemma selectOpenConnection_None: "selectOpenConnection cs = None \<longleftrightarrow> (\<forall>c\<in>set cs. mc_status c \<noteq> ''open'')"
proof -
  let ?os = "filter (\<lambda>c. mc_status c = ''open'') cs" and ?cmp = "\<lambda>left right. mc_opened right - mc_opened left"
  have "selectOpenConnection cs = None \<longleftrightarrow> js_sort ?cmp ?os = []"
    by (auto simp: selectOpenConnection_def split: list.splits)
  also have "\<dots> \<longleftrightarrow> ?os = []" by (metis set_js_sort set_empty)
  finally show ?thesis by (simp add: filter_empty_conv)
qed

lemma selectOpenConnection_newest:
  assumes "selectOpenConnection cs = Some c"
  shows "c \<in> set cs \<and> mc_status c = ''open'' \<and> (\<forall>c'\<in>set cs. mc_status c' = ''open'' \<longrightarrow> mc_opened c' \<le> mc_opened c)"
proof -
  let ?cmp = "\<lambda>left right. mc_opened right - mc_opened left" and ?os = "filter (\<lambda>c. mc_status c = ''open'') cs"
  from assms obtain rest where r: "js_sort ?cmp ?os = c # rest"
    by (auto simp: selectOpenConnection_def split: list.splits)
  have "set (c # rest) = set ?os" unfolding r[symmetric] by simp
  moreover have "sorted_wrt (\<lambda>x y. ?cmp x y \<le> 0) (c # rest)" unfolding r[symmetric] by (rule newest_first.sorted_js_sort)
  ultimately show ?thesis by fastforce
qed

text \<open>Changing only the streams of connections changes neither the order nor the choice.\<close>

lemma select_map:
  assumes "\<And>c. mc_remotePeer (f c) = mc_remotePeer c \<and> mc_status (f c) = mc_status c \<and> mc_opened (f c) = mc_opened c"
  shows "selectOpenConnection (getConnections (map f cs) p) = map_option f (selectOpenConnection (getConnections cs p))"
proof -
  let ?cmp = "\<lambda>left right. mc_opened right - mc_opened left"
  have filters: "filter Q (map f cs) = map f (filter Q cs)" if "\<And>x. Q (f x) = Q x" for Q cs
    using that by (induction cs) auto
  have ins: "js_insert ?cmp (f x) (map f xs) = map f (js_insert ?cmp x xs)" for x xs
    by (induction xs) (auto simp: assms)
  have sort: "js_sort ?cmp (map f xs) = map f (js_sort ?cmp xs)" for xs
    by (induction xs) (simp_all only: js_sort.simps list.map ins)
  have "getConnections (map f cs) p = map f (getConnections cs p)"
    unfolding getConnections_def by (rule filters) (simp add: assms)
  moreover have "filter (\<lambda>x. mc_status x = ''open'') (map f xs) = map f (filter (\<lambda>x. mc_status x = ''open'') xs)" for xs
    by (rule filters) (simp add: assms)
  ultimately show ?thesis by (simp add: selectOpenConnection_def sort split: list.splits)
qed

lemma getOpenStream_Some:
  assumes "getOpenStreamForCodec codec cs p = Some st"
  shows "st \<in> set (streams cs) \<and> \<not> ms_consumed st \<and> ms_protocol st = codec"
proof -
  from assms obtain c where c: "selectOpenConnection (getConnections cs p) = Some c"
    and st: "find (\<lambda>s. ms_protocol s = codec) (mc_streams c) = Some st" "\<not> ms_consumed st"
    by (auto simp: getOpenStreamForCodec_def isStreamLocked_def split: option.splits if_splits)
  from selectOpenConnection_newest[OF c] have "c \<in> set cs" by (simp add: getConnections_def)
  with find_key_Some[OF st(1)] st(2) show ?thesis by (auto simp: streams_def)
qed

lemma set_streams_lock:
  "set (streams (lockStream k cs)) = (\<lambda>st. if ms_id st = k then st\<lparr>ms_consumed := True\<rparr> else st) ` set (streams cs)"
  by (auto simp: streams_def lockStream_def)

lemma fresh_number_le: "n \<le> fresh_number cs n" and fresh_number_gt: "st \<in> set (streams cs) \<Longrightarrow> ms_id st < fresh_number cs n"
proof -
  have "n \<le> fold (\<lambda>st m. max m (Suc (ms_id st))) xs n
      \<and> (\<forall>st\<in>set xs. ms_id st < fold (\<lambda>st m. max m (Suc (ms_id st))) xs n)" for xs :: "mstream list"
  proof (induction xs arbitrary: n)
    case (Cons x xs)
    from Cons[of "max n (Suc (ms_id x))"] show ?case by auto
  qed simp
  then show "n \<le> fresh_number cs n" "st \<in> set (streams cs) \<Longrightarrow> ms_id st < fresh_number cs n"
    by (auto simp: fresh_number_def)
qed

section \<open>Every stream is handed out once\<close>

definition handed_ids :: "stream_manager \<Rightarrow> nat list" where
  "handed_ids s = List.map_filter (\<lambda>(g, p, r). r) (handed s)"

text \<open>What the network may do: it does not take back the mark of a stream that was handed out.\<close>

fun net_keeps :: "sm_event \<Rightarrow> stream_manager \<Rightarrow> bool" where
  "net_keeps (Net_Changes cs) s = (\<forall>st\<in>set (streams cs). ms_id st \<in> set (handed_ids s) \<longrightarrow> ms_consumed st)"
| "net_keeps e s = True"

fun kept_marks :: "sm_event list \<Rightarrow> stream_manager \<Rightarrow> bool" where
  "kept_marks [] s = True"
| "kept_marks (e # es) s = (net_keeps e s \<and> kept_marks es (sm_step e s))"

text \<open>A turn: one event, but a call whose own creation ends marks the stream before anything else happens.\<close>

fun turn :: "sm_event list \<Rightarrow> bool" where
  "turn [Get_Creation_Ends g r, Get_Locks h] = (g = h)"
| "turn [Get_Creation_Ends g r] = False"
| "turn [e] = True"
| "turn es = False"

definition marks_inv :: "stream_manager \<Rightarrow> bool" where
  "marks_inv s \<longleftrightarrow> distinct (handed_ids s) \<and> (\<forall>k\<in>set (handed_ids s). k < sm_next s)
     \<and> (\<forall>st\<in>set (streams (sm_conns s)). ms_id st < sm_next s \<and> (ms_id st \<in> set (handed_ids s) \<longrightarrow> ms_consumed st))
     \<and> (\<forall>g p k. gets s g \<noteq> Some (Created p k))"

lemma handed_ids_answers [simp]:
  "handed_ids (get_answers g p r s) = handed_ids s @ (case r of None \<Rightarrow> [] | Some k \<Rightarrow> [k])"
  by (simp add: handed_ids_def get_answers_def List.map_filter_def split: option.splits)

lemma handed_ids_cong: "handed s' = handed s \<Longrightarrow> handed_ids s' = handed_ids s"
  by (simp add: handed_ids_def)

text \<open>Answering keeps the invariant when the stream is a known one that was not handed out.\<close>

lemma answers_inv:
  assumes "marks_inv (s\<lparr>gets := (gets s)(g := None)\<rparr>)" and "\<And>k. r = Some k \<Longrightarrow> k \<notin> set (handed_ids s) \<and> k < sm_next s"
  shows "marks_inv (get_answers g p r s)"
proof (cases r)
  case None
  have h: "handed_ids (s\<lparr>gets := (gets s)(g := None)\<rparr>) = handed_ids s" by (simp add: handed_ids_def)
  from None assms(1) show ?thesis unfolding marks_inv_def handed_ids_answers h by (simp add: get_answers_def)
next
  case (Some j)
  have h: "handed_ids (s\<lparr>gets := (gets s)(g := None)\<rparr>) = handed_ids s" by (simp add: handed_ids_def)
  from assms(1) have "\<forall>st\<in>set (streams (lockStream j (sm_conns s))). ms_id st < sm_next s
      \<and> (ms_id st \<in> set (handed_ids s @ [j]) \<longrightarrow> ms_consumed st)"
    unfolding set_streams_lock by (auto simp: marks_inv_def h)
  moreover have "sm_conns (get_answers g p r s) = lockStream j (sm_conns s)" "sm_next (get_answers g p r s) = sm_next s"
      "gets (get_answers g p r s) = (gets s)(g := None)"
    using Some by (simp_all add: get_answers_def)
  ultimately show ?thesis using assms Some unfolding marks_inv_def handed_ids_answers
    by (auto simp: h split: if_splits)
qed

lemma continue_inv:
  assumes "marks_inv (s\<lparr>gets := (gets s)(g := None)\<rparr>)"
  shows "marks_inv (get_continue g p s)"
proof (cases "getOpenStreamForCodec (sm_multicodec s) (sm_conns s) p")
  case (Some st)
  have h: "handed_ids (s\<lparr>gets := (gets s)(g := None)\<rparr>) = handed_ids s" by (simp add: handed_ids_def)
  from getOpenStream_Some[OF Some] assms have "ms_id st \<notin> set (handed_ids s) \<and> ms_id st < sm_next s"
    by (auto simp: marks_inv_def h)
  then have "marks_inv (get_answers g p (Some (ms_id st)) s)" by (intro answers_inv[OF assms]) auto
  with Some show ?thesis by (simp add: get_continue_def)
next
  case None
  show ?thesis
  proof (cases "chosen_connection (sm_conns s) p")
    case None
    with \<open>getOpenStreamForCodec _ _ _ = None\<close> answers_inv[OF assms, of None] show ?thesis by (simp add: get_continue_def)
  next
    case (Some c)
    with None have "get_continue g p s = s\<lparr>gets := (gets s)(g \<mapsto> Creating p c)\<rparr>" by (simp add: get_continue_def)
    with assms show ?thesis by (auto simp: marks_inv_def handed_ids_def split: if_splits)
  qed
qed

lemma marks_inv_cong:
  "\<lbrakk>marks_inv s; handed s' = handed s; sm_next s \<le> sm_next s'; sm_conns s' = sm_conns s;
    \<And>g p k. gets s' g \<noteq> Some (Created p k)\<rbrakk> \<Longrightarrow> marks_inv s'"
  by (fastforce simp: marks_inv_def handed_ids_cong[of s' s])

lemma opened_inv:
  assumes "marks_inv s"
  shows "marks_inv (fst (opened c s))" and "snd (opened c s) = sm_next s"
    and "handed (fst (opened c s)) = handed s" and "gets (fst (opened c s)) = gets s"
    and "sm_next (fst (opened c s)) = Suc (sm_next s)"
proof -
  show eqs: "snd (opened c s) = sm_next s" "handed (fst (opened c s)) = handed s" "gets (fst (opened c s)) = gets s"
      "sm_next (fst (opened c s)) = Suc (sm_next s)"
    by (simp_all add: opened_def Let_def)
  have "\<forall>st\<in>set (streams (sm_conns (fst (opened c s)))). st \<in> set (streams (sm_conns s)) \<or> ms_id st = sm_next s"
    by (auto simp: opened_def Let_def streams_def)
  with assms show "marks_inv (fst (opened c s))"
    unfolding marks_inv_def handed_ids_cong[OF eqs(2)] eqs by (fastforce simp: less_Suc_eq)
qed

lemma schedule_same:
  "handed (scheduleNewStream p s) = handed s \<and> sm_next (scheduleNewStream p s) = Suc (sm_next s)
   \<and> sm_conns (scheduleNewStream p s) = sm_conns s \<and> gets (scheduleNewStream p s) = gets s"
  by (simp add: scheduleNewStream_def createStreamWithLock_def Let_def split: option.splits)

lemma turn_inv:
  assumes "marks_inv s" and "turn es" and "kept_marks es s"
  shows "marks_inv (sm_run es s)"
proof -
  have drop: "marks_inv (s\<lparr>gets := (gets s)(g := None)\<rparr>)" for g
    using assms(1) by (rule marks_inv_cong) (use assms(1) in \<open>auto simp: marks_inv_def split: if_splits\<close>)
  show ?thesis
  proof (cases "\<exists>g r. es = [Get_Creation_Ends g r, Get_Locks g]")
    case True
    then obtain g r where es: "es = [Get_Creation_Ends g r, Get_Locks g]" by blast
    show ?thesis
    proof (cases "\<exists>p c. gets s g = Some (Creating p c) \<and> r = Inr ()")
      case True
      then obtain p c where g: "gets s g = Some (Creating p c)" "r = Inr ()" by blast
      let ?s = "fst (opened c s)"
      note o = opened_inv[OF assms(1), of c]
      have "sm_run es s = get_answers g p (Some (sm_next s)) (?s\<lparr>gets := (gets s)(g \<mapsto> Created p (sm_next s))\<rparr>)"
        using g o(2) by (cases "opened c s") (simp add: es sm_run_def)
      moreover have "marks_inv ((?s\<lparr>gets := (gets s)(g \<mapsto> Created p (sm_next s))\<rparr>)\<lparr>gets := (gets s)(g := None)\<rparr>)"
        using o(1) by (rule marks_inv_cong) (use assms(1) in \<open>auto simp: marks_inv_def split: if_splits\<close>)
      moreover have "sm_next s \<notin> set (handed_ids (?s\<lparr>gets := f\<rparr>)) \<and> sm_next s < sm_next (?s\<lparr>gets := f\<rparr>)" for f
        using assms(1) o(3,5) by (auto simp: marks_inv_def handed_ids_cong[of "?s\<lparr>gets := f\<rparr>" s])
      ultimately show ?thesis by (auto intro!: answers_inv)
    next
      case False
      have still: "gets s g \<noteq> Some (Created p k)" for p k using assms(1) by (simp add: marks_inv_def)
      have "sm_run es s = s \<or> (\<exists>p. sm_run es s = get_answers g p None s)"
        using False still by (cases r) (auto simp: es sm_run_def get_answers_def split: option.splits get_state.splits)
      with assms(1) answers_inv[OF drop, of None] show ?thesis by auto
    qed
  next
    case False
    with assms(2) obtain e where es: "es = [e]" "\<And>g r. e \<noteq> Get_Creation_Ends g r" by (cases es rule: turn.cases) auto
    show ?thesis
    proof (cases e)
      case Sm_Stop
      with assms(1) show ?thesis by (simp add: es sm_run_def sm_stop_def marks_inv_def handed_ids_def)
    next
      case (Net_Changes cs)
      have "k < fresh_number cs (sm_next s)" if "k < sm_next s" for k using that fresh_number_le[of "sm_next s" cs] by linarith
      with Net_Changes assms fresh_number_gt[of _ cs "sm_next s"] show ?thesis
        by (auto simp: es sm_run_def marks_inv_def handed_ids_def)
    next
      case (Peer_Update p protocols)
      have "marks_inv (scheduleNewStream p s)"
        using assms(1) by (rule marks_inv_cong) (use assms(1) schedule_same[of p s] in \<open>auto simp: marks_inv_def\<close>)
      with Peer_Update assms(1) show ?thesis by (simp add: es sm_run_def handlePeerUpdateStreamPool_def)
    next
      case (Get_Stream p)
      let ?s = "s\<lparr>sm_next := Suc (sm_next s)\<rparr>"
      have c: "marks_inv (get_continue (sm_next s) p ?s)"
        by (rule continue_inv, rule marks_inv_cong[OF drop[of "sm_next s"]]) (use assms(1) in \<open>auto simp: marks_inv_def split: if_splits\<close>)
      have "marks_inv (?s\<lparr>streamPool := f, gets := (gets s)(sm_next s \<mapsto> Awaiting p k)\<rparr>)" for f k
        using assms(1) by (rule marks_inv_cong) (use assms(1) in \<open>auto simp: marks_inv_def split: if_splits\<close>)
      with c Get_Stream show ?thesis by (simp add: es sm_run_def getStream_def Let_def split: option.splits)
    next
      case (Creation_Ends k r)
      have "marks_inv (s'\<lparr>creations := f, ongoingCreation := l\<rparr>)" if "marks_inv s'" for s' f l
        using that by (rule marks_inv_cong) (use that in \<open>auto simp: marks_inv_def\<close>)
      with Creation_Ends assms(1) opened_inv(1) show ?thesis
        by (simp add: es sm_run_def split: option.splits prod.splits)
    next
      case (Get_Resumes g)
      with assms(1) continue_inv[OF drop] show ?thesis
        by (auto simp: es sm_run_def split: option.splits get_state.splits)
    next
      case (Get_Creation_Ends g r)
      with es(2)[of g r] show ?thesis by simp
    next
      case (Get_Locks g)
      with assms(1) show ?thesis by (auto simp: es sm_run_def marks_inv_def split: option.splits get_state.splits)
    qed
  qed
qed

lemma sm_run_append: "sm_run (xs @ ys) s = sm_run ys (sm_run xs s)"
  by (simp add: sm_run_def)

lemma kept_marks_append: "kept_marks (xs @ ys) s \<longleftrightarrow> kept_marks xs s \<and> kept_marks ys (sm_run xs s)"
  by (induction xs arbitrary: s) (auto simp: sm_run_def)

lemma turns_inv:
  assumes "\<forall>t\<in>set turns. turn t" and "kept_marks (concat turns) s" and "marks_inv s"
  shows "marks_inv (sm_run (concat turns) s)"
  using assms
proof (induction turns arbitrary: s)
  case (Cons t turns)
  then show ?case by (simp add: sm_run_append kept_marks_append turn_inv)
qed (simp add: sm_run_def)

lemma new_manager_inv: "marks_inv (stream_manager_new codec cs)"
  using fresh_number_gt[of _ cs 0] by (auto simp: marks_inv_def stream_manager_new_def handed_ids_def List.map_filter_def)

text \<open>C13: Whatever the order of peer updates, calls and ends of creations, no stream is handed to two callers, as
  long as a call that created its stream marks it before any other call runs. A stream that is on hand is
  marked, and it is one of the protocol's.
\<close>

theorem streams_handed_once:
  assumes "\<forall>t\<in>set turns. turn t" and "kept_marks (concat turns) (stream_manager_new codec cs)"
  shows "let s = sm_run (concat turns) (stream_manager_new codec cs) in
    distinct (handed_ids s) \<and> (\<forall>st\<in>set (streams (sm_conns s)). ms_id st \<in> set (handed_ids s) \<longrightarrow> ms_consumed st)"
  using turns_inv[OF assms new_manager_inv] by (simp add: Let_def marks_inv_def)

definition open_conn :: mconn where
  "open_conn = \<lparr>mc_id = 0, mc_remotePeer = ''p'', mc_status = ''open'', mc_opened = 7,
     mc_streams = [\<lparr>ms_id = 4, ms_protocol = ''c'', ms_writeStatus = None, ms_consumed = False\<rparr>]\<rparr>"

lemma streams_handed_once_witness:
  "distinct (handed_ids (sm_run (concat [[Get_Stream ''p''], [Get_Stream ''p''], [Get_Creation_Ends 6 (Inr ()), Get_Locks 6]])
     (stream_manager_new ''c'' [open_conn])))"
  using streams_handed_once[of "[[Get_Stream ''p''], [Get_Stream ''p''], [Get_Creation_Ends 6 (Inr ()), Get_Locks 6]]" "''c''" "[open_conn]"]
  by (simp add: Let_def)

text \<open>The mark comes too late otherwise: between the end of \<open>newStream\<close> and the mark the new stream is open and
  free, and a second call for the same peer takes it, so that both callers hold the same stream.
\<close>

theorem created_stream_shared:
  assumes "gets s g = Some (Creating p (mc_id c))" and "g < sm_next s" and "streamPool s p = None"
    and "selectOpenConnection (getConnections (sm_conns s) p) = Some c"
    and "\<forall>st\<in>set (mc_streams c). ms_protocol st \<noteq> sm_multicodec s"
  shows "handed (sm_run [Get_Creation_Ends g (Inr ()), Get_Stream p, Get_Locks g] s)
    = handed s @ [(Suc (sm_next s), p, Some (sm_next s)), (g, p, Some (sm_next s))]"
proof -
  let ?st = "\<lparr>ms_id = sm_next s, ms_protocol = sm_multicodec s, ms_writeStatus = None, ms_consumed = False\<rparr>"
  let ?add = "\<lambda>x. if mc_id x = mc_id c then x\<lparr>mc_streams := mc_streams x @ [?st]\<rparr> else x"
  let ?cs = "map ?add (sm_conns s)"
  have "selectOpenConnection (getConnections ?cs p) = Some (?add c)"
    using select_map[of ?add "sm_conns s" p] assms(4) by simp
  moreover have "find (\<lambda>st. ms_protocol st = sm_multicodec s) (mc_streams c @ [?st]) = Some ?st"
  proof -
    have "find (\<lambda>st. ms_protocol st = sm_multicodec s) (xs @ [?st]) = Some ?st"
      if "\<forall>st\<in>set xs. ms_protocol st \<noteq> sm_multicodec s" for xs using that by (induction xs) auto
    with assms(5) show ?thesis by blast
  qed
  ultimately have "getOpenStreamForCodec (sm_multicodec s) ?cs p = Some ?st"
    by (simp add: getOpenStreamForCodec_def isStreamUnusable_def isStreamLocked_def)
  with assms(1,2,3) show ?thesis
    by (simp add: sm_run_def opened_def getStream_def get_continue_def get_answers_def Let_def)
qed

definition shared_start :: stream_manager where
  "shared_start = sm_run [Get_Stream ''p''] (stream_manager_new ''c'' [open_conn\<lparr>mc_streams := []\<rparr>])"

lemma created_stream_shared_witness:
  "handed (sm_run [Get_Creation_Ends 0 (Inr ()), Get_Stream ''p'', Get_Locks 0] shared_start) = [(2, ''p'', Some 1), (0, ''p'', Some 1)]"
proof -
  let ?c = "open_conn\<lparr>mc_streams := []\<rparr>"
  have sel: "selectOpenConnection (getConnections [?c] ''p'') = Some ?c"
    by (simp add: open_conn_def getConnections_def selectOpenConnection_def)
  have s: "gets shared_start 0 = Some (Creating ''p'' (mc_id ?c))" "sm_next shared_start = 1" "streamPool shared_start = Map.empty"
      "sm_conns shared_start = [?c]" "handed shared_start = []"
    using sel by (simp_all add: shared_start_def sm_run_def getStream_def get_continue_def stream_manager_new_def fresh_number_def
        streams_def getOpenStreamForCodec_def chosen_connection_def Let_def)
  from created_stream_shared[of shared_start 0 "''p''" ?c] show ?thesis by (simp add: s sel)
qed

section \<open>Scheduled creations\<close>

text \<open>
  While the manager is not stopped it runs at most one scheduled creation for a peer: \<open>ongoingCreation\<close> names
  exactly the peers of the running ones.
\<close>

definition creation_inv :: "stream_manager \<Rightarrow> bool" where
  "creation_inv s \<longleftrightarrow> distinct (ongoingCreation s)
     \<and> set (ongoingCreation s) = {p. \<exists>k c. creations s k = Some (p, c)}
     \<and> (\<forall>k k' p c c'. creations s k = Some (p, c) \<longrightarrow> creations s k' = Some (p, c') \<longrightarrow> k = k')
     \<and> (\<forall>k. creations s k \<noteq> None \<longrightarrow> k < sm_next s)"

lemma creation_inv_cong:
  "creation_inv s \<Longrightarrow> creations s' = creations s \<Longrightarrow> ongoingCreation s' = ongoingCreation s \<Longrightarrow> sm_next s \<le> sm_next s'
   \<Longrightarrow> creation_inv s'"
  by (fastforce simp: creation_inv_def)

lemma schedule_creation_inv:
  assumes "creation_inv s"
  shows "creation_inv (scheduleNewStream p s)"
proof (cases "p \<in> set (ongoingCreation s) \<or> chosen_connection (sm_conns s) p = None")
  case True
  then have "set (ongoingCreation (scheduleNewStream p s)) = set (ongoingCreation s)
      \<and> distinct (ongoingCreation (scheduleNewStream p s))"
    using assms by (auto simp: scheduleNewStream_def createStreamWithLock_def Let_def creation_inv_def distinct_js_set_delete
        split: option.splits)
  moreover have "creations (scheduleNewStream p s) = creations s"
    using True by (auto simp: scheduleNewStream_def createStreamWithLock_def Let_def split: option.splits)
  ultimately show ?thesis using assms schedule_same[of p s] by (fastforce simp: creation_inv_def)
next
  case False
  then obtain c where "p \<notin> set (ongoingCreation s)" "chosen_connection (sm_conns s) p = Some c" by auto
  then have eqs: "creations (scheduleNewStream p s) = (creations s)(sm_next s \<mapsto> (p, c))"
      "ongoingCreation (scheduleNewStream p s) = js_set_add p (ongoingCreation s)"
    by (auto simp: scheduleNewStream_def createStreamWithLock_def Let_def)
  from assms have fresh: "creations s (sm_next s) = None" unfolding creation_inv_def by (metis less_irrefl)
  have "{q. \<exists>k d. creations (scheduleNewStream p s) k = Some (q, d)} = insert p {q. \<exists>k d. creations s k = Some (q, d)}"
    unfolding eqs using fresh by (auto split: if_splits) (metis option.distinct(1))
  moreover have "k = k'" if "creations (scheduleNewStream p s) k = Some (q, d)" "creations (scheduleNewStream p s) k' = Some (q, d')" for k k' q d d'
    using that assms \<open>p \<notin> set (ongoingCreation s)\<close> unfolding eqs creation_inv_def by (auto split: if_splits)
  moreover have "k < sm_next (scheduleNewStream p s)" if "creations (scheduleNewStream p s) k \<noteq> None" for k
    using that assms schedule_same[of p s] unfolding eqs creation_inv_def by (auto split: if_splits intro: less_SucI)
  ultimately show ?thesis using assms unfolding creation_inv_def[of "scheduleNewStream p s"] eqs(2)
    by (auto simp: creation_inv_def)
qed

lemma get_creations_same:
  "creations (get_continue g p s) = creations s \<and> ongoingCreation (get_continue g p s) = ongoingCreation s
   \<and> sm_next (get_continue g p s) = sm_next s"
  "creations (get_answers g p r s) = creations s \<and> ongoingCreation (get_answers g p r s) = ongoingCreation s
   \<and> sm_next (get_answers g p r s) = sm_next s"
  "creations (fst (opened c s)) = creations s \<and> ongoingCreation (fst (opened c s)) = ongoingCreation s
   \<and> sm_next s \<le> sm_next (fst (opened c s))"
  by (auto simp: get_continue_def get_answers_def opened_def Let_def split: option.splits)

lemma creation_ends_inv:
  assumes "creation_inv s" and "creations s k = Some (p, c)" and "creations s' = creations s"
    and "ongoingCreation s' = ongoingCreation s" and "sm_next s \<le> sm_next s'"
  shows "creation_inv (s'\<lparr>creations := (creations s)(k := None), ongoingCreation := js_set_delete p (ongoingCreation s)\<rparr>)"
proof -
  have u: "j = k" if "creations s j = Some (p, d)" for j d
    using assms(1,2) that unfolding creation_inv_def by blast
  let ?s = "s'\<lparr>creations := (creations s)(k := None), ongoingCreation := js_set_delete p (ongoingCreation s)\<rparr>"
  have at: "creations ?s j = Some (q, d) \<longleftrightarrow> creations s j = Some (q, d) \<and> q \<noteq> p" for j q d
    using u[of j d] assms(2) by auto
  have set_eq: "{q. \<exists>j d. creations ?s j = Some (q, d)} = {q. \<exists>j d. creations s j = Some (q, d)} - {p}"
    unfolding at by blast
  have d: "distinct (ongoingCreation ?s)" "set (ongoingCreation ?s) = {q. \<exists>j d. creations s j = Some (q, d)} - {p}"
    using assms(1) by (simp_all add: creation_inv_def distinct_js_set_delete)
  have one: "k' = k''" if "creations ?s k' = Some (q, d)" "creations ?s k'' = Some (q, d')" for k' k'' q d d'
    using assms(1) that unfolding at creation_inv_def by blast
  have below: "j < sm_next ?s" if "creations ?s j \<noteq> None" for j
  proof -
    from that have "creations s j \<noteq> None" by (auto split: if_splits)
    with assms(1) have "j < sm_next s" unfolding creation_inv_def by blast
    with assms(5) show ?thesis by simp
  qed
  show ?thesis unfolding creation_inv_def[of ?s] set_eq
    by (intro conjI allI impI) (use d in blast, use d in blast, erule (1) one, erule below)
qed

lemma step_creation_inv: "e \<noteq> Sm_Stop \<Longrightarrow> creation_inv s \<Longrightarrow> creation_inv (sm_step e s)"
proof (cases e)
  case (Net_Changes cs)
  assume "creation_inv s"
  then show ?thesis by (rule creation_inv_cong) (simp_all add: Net_Changes fresh_number_le)
next
  case (Peer_Update p ps)
  assume "creation_inv s"
  with Peer_Update schedule_creation_inv show ?thesis by (simp add: handlePeerUpdateStreamPool_def)
next
  case (Get_Stream p)
  assume "creation_inv s"
  then show ?thesis by (rule creation_inv_cong)
    (simp_all add: Get_Stream getStream_def Let_def get_creations_same split: option.splits)
next
  case (Creation_Ends k r)
  assume "creation_inv s"
  with Creation_Ends creation_ends_inv[of s k] get_creations_same(3)[of _ s] show ?thesis
    by (auto split: option.splits)
next
  case (Get_Resumes g)
  assume "creation_inv s"
  then show ?thesis by (rule creation_inv_cong)
    (simp_all add: Get_Resumes get_creations_same split: option.splits get_state.splits)
next
  case (Get_Creation_Ends g r)
  assume "creation_inv s"
  then show ?thesis by (rule creation_inv_cong)
    (auto simp: Get_Creation_Ends get_creations_same opened_def Let_def split: option.splits get_state.splits)
next
  case (Get_Locks g)
  assume "creation_inv s"
  then show ?thesis by (rule creation_inv_cong)
    (simp_all add: Get_Locks get_creations_same split: option.splits get_state.splits)
qed simp

theorem one_creation_per_peer:
  assumes "Sm_Stop \<notin> set es"
  shows "creation_inv (sm_run es (stream_manager_new codec cs))"
proof -
  have "creation_inv (stream_manager_new codec cs)" by (simp add: creation_inv_def stream_manager_new_def)
  then have "creation_inv (foldl (\<lambda>s e. sm_step e s) (stream_manager_new codec cs) es)"
    using assms by (induction es rule: rev_induct) (auto intro: step_creation_inv)
  then show ?thesis by (simp add: sm_run_def)
qed

text \<open>
  A second update of a peer while its creation is running replaces the promise in the pool by one that is
  already settled. After one update \<open>getStream\<close> waits for the creation; after two it does not, and opens a
  stream of its own beside it.
\<close>

theorem rescheduled_creation_not_awaited:
  assumes "sm_listening s" and "sm_multicodec s \<in> set ps" and "p \<notin> set (ongoingCreation s)" and "creation_inv s"
    and "getOpenStreamForCodec (sm_multicodec s) (sm_conns s) p = None" and "chosen_connection (sm_conns s) p = Some c"
  shows "gets (sm_run [Peer_Update p ps, Get_Stream p, Get_Resumes (sm_next s + 1)] s) (sm_next s + 1)
      = Some (Awaiting p (sm_next s))
    \<and> (let s' = sm_run [Peer_Update p ps, Peer_Update p ps, Get_Stream p, Get_Resumes (sm_next s + 2)] s
       in creations s' (sm_next s) = Some (p, c) \<and> gets s' (sm_next s + 2) = Some (Creating p c))"
proof -
  have fresh: "creations s (sm_next s) = None" "creations s (Suc (sm_next s)) = None"
    using assms(4) unfolding creation_inv_def by (metis less_irrefl not_less_iff_gr_or_eq less_SucI not_less_eq)+
  from assms(1,2,3,5,6) fresh show ?thesis
    by (simp add: sm_run_def handlePeerUpdateStreamPool_def scheduleNewStream_def createStreamWithLock_def getStream_def
        get_continue_def Let_def)
qed

lemma rescheduled_creation_not_awaited_witness:
  "let s' = sm_run [Peer_Update ''p'' [''c''], Peer_Update ''p'' [''c''], Get_Stream ''p'', Get_Resumes 2]
              (stream_manager_new ''c'' [open_conn\<lparr>mc_streams := []\<rparr>])
   in creations s' 0 = Some (''p'', 0) \<and> gets s' 2 = Some (Creating ''p'' 0)"
proof -
  let ?c = "open_conn\<lparr>mc_streams := []\<rparr>" let ?s = "stream_manager_new ''c'' [?c]"
  have sel: "selectOpenConnection (getConnections [?c] ''p'') = Some ?c" and [simp]: "mc_id ?c = 0"
    by (simp_all add: open_conn_def getConnections_def selectOpenConnection_def)
  have "getOpenStreamForCodec ''c'' [?c] ''p'' = None" "chosen_connection [?c] ''p'' = Some 0"
    using sel by (simp_all add: getOpenStreamForCodec_def chosen_connection_def)
  moreover have s: "sm_listening ?s" "sm_multicodec ?s = ''c''" "ongoingCreation ?s = []" "sm_conns ?s = [?c]" "sm_next ?s = 0"
    by (simp_all add: stream_manager_new_def fresh_number_def streams_def)
  moreover have "creation_inv ?s" by (simp add: creation_inv_def stream_manager_new_def)
  ultimately show ?thesis using rescheduled_creation_not_awaited[of ?s "[''c'']" "''p''" 0]
    by (simp add: numeral_2_eq_2)
qed

lemma one_creation_per_peer_witness:
  "creation_inv (sm_run [Peer_Update ''p'' [''c'']] (stream_manager_new ''c'' [open_conn]))"
  by (rule one_creation_per_peer) simp

end
