(* ===== verification/Metadata.thy ===== *)
theory Metadata
  imports Dialer
begin

text \<open>
  The exchange of cluster and shards with a peer (\<open>packages/core/src/lib/metadata/metadata.ts\<close>): the request,
  the answer to a peer's request, and what is remembered of a peer, in the peer store and among the confirmed
  handshakes. The protobuf codec, the peer store, the stream manager and the stream itself are parameters. Each
  exchange runs to its end before the next.
\<close>

text \<open>The message of both directions; its cluster may be absent.\<close>

record metadata_message =
  mr_clusterId :: "int option"
  mr_shards :: "int list"

datatype metadata_error = M_NO_PEER_AVAILABLE | M_NO_STREAM_AVAILABLE | M_DECODE_FAILED

record metadata_net =
  mn_encode :: "metadata_message \<Rightarrow> bytes"
  mn_decode :: "bytes \<Rightarrow> js_error + metadata_message option"
  mn_get :: "peer_store \<Rightarrow> string \<Rightarrow> js_error + store_peer option"
  mn_merge :: "string \<Rightarrow> string \<Rightarrow> bytes \<Rightarrow> peer_store \<Rightarrow> js_error + peer_store"
  mn_stream :: "string \<Rightarrow> bool"
  mn_exchange :: "string \<Rightarrow> bytes \<Rightarrow> js_error + bytes list"

text \<open>
  \<open>mn_exchange\<close> writes one length prefixed message on the stream of a peer and reads all that the peer sends.
\<close>

record metadata =
  md_clusterId :: int
  handshakesConfirmed :: "string \<rightharpoonup> metadata_message"
  md_store :: peer_store

definition wakuMetadata :: "int \<Rightarrow> peer_store \<Rightarrow> metadata" where
  "wakuMetadata cid ps = \<lparr>md_clusterId = cid, handshakesConfirmed = Map.empty, md_store = ps\<rparr>"

text \<open>An absent cluster is written as zero, as \<open>DataView.setUint16\<close> writes \<open>undefined\<close>.\<close>

definition as_shard_info :: "metadata_message \<Rightarrow> shard_info" where
  "as_shard_info r = \<lparr>clusterId = (case mr_clusterId r of None \<Rightarrow> 0 | Some c \<Rightarrow> c), shards = mr_shards r\<rparr>"

definition decodeMetadataResponse :: "metadata_net \<Rightarrow> bytes list \<Rightarrow> js_error + (metadata_error + metadata_message)" where
  "decodeMetadataResponse net encodedResponse =
     (case mn_decode net (concat encodedResponse) of
        Inl e \<Rightarrow> Inl e
      | Inr None \<Rightarrow> Inr (Inl M_DECODE_FAILED)
      | Inr (Some r) \<Rightarrow> Inr (Inr r))"

definition savePeerShardInfo :: "metadata_net \<Rightarrow> string \<Rightarrow> metadata_message \<Rightarrow> metadata \<Rightarrow> (metadata, unit) call" where
  "savePeerShardInfo net p r m =
     (case encodeRelayShard (as_shard_info r) of
        Inl e \<Rightarrow> throws m e
      | Inr bs \<Rightarrow> (case mn_merge net p ''shardInfo'' bs (md_store m) of
                     Inl e \<Rightarrow> throws m e
                   | Inr ps \<Rightarrow> returns (m\<lparr>md_store := ps, handshakesConfirmed := (handshakesConfirmed m)(p \<mapsto> r)\<rparr>) ()))"

text \<open>The node sends its cluster and no shards, as a request and as an answer.\<close>

definition own_message :: "metadata \<Rightarrow> metadata_message" where
  "own_message m = \<lparr>mr_clusterId = Some (md_clusterId m), mr_shards = []\<rparr>"

definition md_query :: "metadata_net \<Rightarrow> string \<Rightarrow> metadata \<Rightarrow> (metadata, metadata_error + metadata_message) call" where
  "md_query net p m =
     (case mn_get net (md_store m) p of
        Inl e \<Rightarrow> throws m e
      | Inr None \<Rightarrow> returns m (Inl M_NO_PEER_AVAILABLE)
      | Inr (Some peer) \<Rightarrow>
          if \<not> mn_stream net p then returns m (Inl M_NO_STREAM_AVAILABLE)
          else (case mn_exchange net p (mn_encode net (own_message m)) of
                  Inl e \<Rightarrow> throws m e
                | Inr chunks \<Rightarrow>
                    (case decodeMetadataResponse net chunks of
                       Inl e \<Rightarrow> throws m e
                     | Inr (Inl err) \<Rightarrow> returns m (Inl err)
                     | Inr (Inr r) \<Rightarrow> then_do (savePeerShardInfo net p r m) (\<lambda>m' _. returns m' (Inr r)))))"

definition confirmOrAttemptHandshake ::
    "metadata_net \<Rightarrow> string \<Rightarrow> metadata \<Rightarrow> (metadata, metadata_error + metadata_message) call" where
  "confirmOrAttemptHandshake net p m =
     (case handshakesConfirmed m p of
        Some r \<Rightarrow> returns m (Inr r)
      | None \<Rightarrow> md_query net p m)"

text \<open>Whatever is thrown while a request is answered is only logged; the state keeps what was done before.\<close>

definition md_onRequest :: "metadata_net \<Rightarrow> string \<Rightarrow> metadata \<Rightarrow> metadata" where
  "md_onRequest net p m =
     (case mn_exchange net p (mn_encode net (own_message m)) of
        Inl e \<Rightarrow> m
      | Inr chunks \<Rightarrow>
          (case decodeMetadataResponse net chunks of
             Inr (Inr r) \<Rightarrow> fst (savePeerShardInfo net p r m)
           | _ \<Rightarrow> m))"

datatype md_event = Md_Query string | Md_Confirm string | Md_Request string

fun md_step :: "metadata_net \<times> md_event \<Rightarrow> metadata \<Rightarrow> metadata" where
  "md_step (net, Md_Query p) m = fst (md_query net p m)"
| "md_step (net, Md_Confirm p) m = fst (confirmOrAttemptHandshake net p m)"
| "md_step (net, Md_Request p) m = md_onRequest net p m"

definition md_run :: "(metadata_net \<times> md_event) list \<Rightarrow> metadata \<Rightarrow> metadata" where
  "md_run es m = foldl (\<lambda>m e. md_step e m) m es"

section \<open>What is confirmed is in the peer store\<close>

text \<open>What the peer store promises of a merge: the value is there afterwards, and other peers are as before.\<close>

definition merges :: "metadata_net \<Rightarrow> bool" where
  "merges net \<longleftrightarrow> (\<forall>p key bs ps ps'. mn_merge net p key bs ps = Inr ps' \<longrightarrow>
     (\<exists>sp. ps' p = Some sp \<and> sp_metadata sp key = Some bs) \<and> (\<forall>q. q \<noteq> p \<longrightarrow> ps' q = ps q))"

definition md_inv :: "metadata \<Rightarrow> bool" where
  "md_inv m \<longleftrightarrow> (\<forall>p r. handshakesConfirmed m p = Some r \<longrightarrow>
     (\<exists>bs sp. encodeRelayShard (as_shard_info r) = Inr bs \<and> md_store m p = Some sp \<and> sp_metadata sp ''shardInfo'' = Some bs))"

text \<open>The operations leave the state as it is or record one message of the peer.\<close>

lemma save_cases:
  "fst (savePeerShardInfo net p r m) = m
   \<or> (\<exists>bs ps. encodeRelayShard (as_shard_info r) = Inr bs \<and> mn_merge net p ''shardInfo'' bs (md_store m) = Inr ps
        \<and> fst (savePeerShardInfo net p r m)
            = m\<lparr>md_store := ps, handshakesConfirmed := (handshakesConfirmed m)(p \<mapsto> r)\<rparr>)"
  by (auto simp: savePeerShardInfo_def split: sum.splits)

lemma step_saves: "\<exists>p r. md_step (net, e) m \<in> {m, fst (savePeerShardInfo net p r m)}"
proof -
  have fst_then: "fst (then_do c (\<lambda>m' _. returns m' b)) = fst c" for c :: "(metadata, unit) call" and b :: "metadata_error + metadata_message"
    by (simp add: then_do_def split: sum.splits)
  have q: "\<exists>r. fst (md_query net p m) \<in> {m, fst (savePeerShardInfo net p r m)}" for p
    by (auto simp: md_query_def fst_then split: sum.splits option.splits)
  show ?thesis
  proof (cases e)
    case (Md_Query p)
    with q[of p] show ?thesis by auto
  next
    case (Md_Confirm p)
    with q[of p] show ?thesis by (auto simp: confirmOrAttemptHandshake_def split: option.splits)
  next
    case (Md_Request p)
    then show ?thesis by (auto simp: md_onRequest_def split: sum.splits)
  qed
qed

lemma save_inv:
  assumes "merges net" and "md_inv m"
  shows "md_inv (fst (savePeerShardInfo net p r m))"
  using save_cases[of net p r m]
proof (elim disjE exE conjE)
  fix bs ps assume e: "encodeRelayShard (as_shard_info r) = Inr bs" and mm: "mn_merge net p ''shardInfo'' bs (md_store m) = Inr ps"
    and eq: "fst (savePeerShardInfo net p r m) = m\<lparr>md_store := ps, handshakesConfirmed := (handshakesConfirmed m)(p \<mapsto> r)\<rparr>"
  from assms(1) mm have "\<exists>sp. ps p = Some sp \<and> sp_metadata sp ''shardInfo'' = Some bs" "\<forall>q. q \<noteq> p \<longrightarrow> ps q = md_store m q"
    unfolding merges_def by blast+
  with e assms(2) show ?thesis unfolding eq md_inv_def by auto
qed (simp add: assms(2))

lemma md_run_inv:
  assumes "\<forall>(net, e)\<in>set es. merges net" and "md_inv m"
  shows "md_inv (md_run es m)"
proof -
  have step: "md_inv (md_step (net, e) m)" if "merges net" "md_inv m" for net e m
    using step_saves[of net e m] save_inv[OF that] that(2) by auto
  from assms show ?thesis unfolding md_run_def
    by (induction es arbitrary: m) (auto intro: step)
qed

text \<open>C17: Whatever exchanges a node has had with its peers, what it remembers of a confirmed peer is what the shard
  reader finds in the peer store: the dialer and the peer choice see the peer on a pubsub topic exactly when the
  peer answered with the node's cluster and that shard.
\<close>

theorem confirmed_shards_readable:
  assumes "\<forall>(net, e)\<in>set es. merges net"
    and "handshakesConfirmed (md_run es (wakuMetadata cid ps)) p = Some r"
    and "0 \<le> clusterId (as_shard_info r)" and "clusterId (as_shard_info r) < 2 ^ 16" and "\<forall>i\<in>set (mr_shards r). 0 \<le> i \<and> i < 1024"
  shows "\<exists>sh. getRelayShards (md_store (md_run es (wakuMetadata cid ps))) p = Some \<lparr>clusterId = clusterId (as_shard_info r), shards = sh\<rparr>
    \<and> set sh = set (mr_shards r)"
proof -
  let ?m = "md_run es (wakuMetadata cid ps)" and ?si = "as_shard_info r"
  have "md_inv (wakuMetadata cid ps)" by (simp add: md_inv_def wakuMetadata_def)
  from md_run_inv[OF assms(1) this] assms(2) obtain bs sp where bs: "encodeRelayShard ?si = Inr bs"
    and sp: "md_store ?m p = Some sp" "sp_metadata sp ''shardInfo'' = Some bs" unfolding md_inv_def by blast
  have s: "shards ?si = mr_shards r" by (simp add: as_shard_info_def)
  from decoded_shards[of ?si bs] assms(3-5) bs
  have "\<exists>sh. decodeRelayShard bs = Inr \<lparr>clusterId = clusterId ?si, shards = sh\<rparr> \<and> set sh = set (mr_shards r)"
    by (simp add: s)
  with sp show ?thesis by (auto simp: getRelayShards_def)
qed

definition sample_md_net :: metadata_net where
  "sample_md_net = \<lparr>mn_encode = (\<lambda>_. []), mn_decode = (\<lambda>bs. Inr (Some \<lparr>mr_clusterId = Some (int (length bs)), mr_shards = [7, 3]\<rparr>)),
     mn_get = (\<lambda>ps p. Inr (ps p)),
     mn_merge = (\<lambda>p key bs ps. Inr (ps(p \<mapsto> (case ps p of
        None \<Rightarrow> \<lparr>sp_id = p, sp_protocols = [], sp_metadata = [key \<mapsto> bs], sp_tags = [], sp_addresses = []\<rparr>
      | Some sp \<Rightarrow> sp\<lparr>sp_metadata := (sp_metadata sp)(key \<mapsto> bs)\<rparr>)))),
     mn_stream = (\<lambda>_. True), mn_exchange = (\<lambda>_ _. Inr [[1, 2], [3]])\<rparr>"

lemma sample_merges: "merges sample_md_net"
  by (auto simp: merges_def sample_md_net_def split: option.splits)

lemma confirmed_shards_readable_witness:
  "\<exists>sh. getRelayShards (md_store (md_run [(sample_md_net, Md_Request ''p'')] (wakuMetadata 3 Map.empty))) ''p''
      = Some \<lparr>clusterId = 3, shards = sh\<rparr> \<and> set sh = {7, 3}"
proof -
  obtain bs where bs: "encodeRelayShard \<lparr>clusterId = 3, shards = [7, 3]\<rparr> = Inr bs"
    using relay_shard_list[of "\<lparr>clusterId = 3, shards = [7, 3]\<rparr>"] by simp
  let ?r = "\<lparr>mr_clusterId = Some 3, mr_shards = [7, 3]\<rparr> :: metadata_message"
  have "handshakesConfirmed (md_run [(sample_md_net, Md_Request ''p'')] (wakuMetadata 3 Map.empty)) ''p'' = Some ?r"
    using bs by (simp add: md_run_def md_onRequest_def decodeMetadataResponse_def savePeerShardInfo_def sample_md_net_def
        as_shard_info_def wakuMetadata_def returns_def)
  from confirmed_shards_readable[OF _ this] sample_merges show ?thesis by (simp add: as_shard_info_def)
qed

text \<open>
  A handshake that is confirmed stays: whatever the peer, the stream and the peer store would answer later, the
  first answer is given again and nothing is asked. A reconnected peer with other shards keeps its old ones.
\<close>

theorem handshake_sticks:
  assumes "handshakesConfirmed m p = Some r" and "\<forall>(net, e)\<in>set es. \<exists>q. e = Md_Confirm q \<and> handshakesConfirmed m q \<noteq> None"
  shows "md_run es m = m \<and> confirmOrAttemptHandshake net p (md_run es m) = returns m (Inr r)"
proof -
  have "md_run es m = m" using assms(2) unfolding md_run_def
    by (induction es rule: rev_induct) (auto simp: confirmOrAttemptHandshake_def)
  with assms(1) show ?thesis by (simp add: confirmOrAttemptHandshake_def)
qed

lemma handshake_sticks_witness:
  "md_run [(sample_md_net, Md_Confirm ''p'')] \<lparr>md_clusterId = 1,
     handshakesConfirmed = [''p'' \<mapsto> \<lparr>mr_clusterId = None, mr_shards = []\<rparr>], md_store = Map.empty\<rparr>
   = \<lparr>md_clusterId = 1, handshakesConfirmed = [''p'' \<mapsto> \<lparr>mr_clusterId = None, mr_shards = []\<rparr>], md_store = Map.empty\<rparr>"
  using handshake_sticks[of "\<lparr>md_clusterId = 1, handshakesConfirmed = [''p'' \<mapsto> \<lparr>mr_clusterId = None, mr_shards = []\<rparr>],
      md_store = Map.empty\<rparr>" "''p''" "\<lparr>mr_clusterId = None, mr_shards = []\<rparr>" "[(sample_md_net, Md_Confirm ''p'')]"] by simp

text \<open>
  A peer that answers with 64 shards or more, one of them from 1024 on, makes the query reject, after the answer was
  read: nothing of it is remembered.
\<close>

theorem wide_shard_rejects_query:
  assumes "mn_get net (md_store m) p = Inr (Some sp)" and "mn_stream net p"
    and "mn_exchange net p (mn_encode net (own_message m)) = Inr chunks" and "mn_decode net (concat chunks) = Inr (Some r)"
    and "64 \<le> length (mr_shards r)" and "\<forall>i\<in>set (mr_shards r). 0 \<le> i" and "\<exists>i\<in>set (mr_shards r). 1024 \<le> i"
  shows "md_query net p m = throws m RangeError"
proof -
  let ?si = "as_shard_info r" let ?view = "be_bytes 2 (uint_of 2 (clusterId ?si)) @ replicate 128 (0 :: byte)"
  have s: "shards ?si = mr_shards r" by (simp add: as_shard_info_def)
  have "set_be 2 0 (uint_of 2 (clusterId ?si)) (replicate 130 0) = Inr ?view" by (simp add: set_be_def)
  moreover have "set_shard_bits ?view (shards ?si) = Inl RangeError"
    using set_shard_bits_out[of ?view "shards ?si"] assms(6,7) by (auto simp: s not_less)
  ultimately have "encodeRelayShard ?si = Inl RangeError" using assms(5) by (simp add: encodeRelayShard_def s)
  with assms(1-4) show ?thesis by (simp add: md_query_def decodeMetadataResponse_def savePeerShardInfo_def)
qed

lemma wide_shard_rejects_query_witness:
  "md_query (sample_md_net\<lparr>mn_decode := \<lambda>_. Inr (Some \<lparr>mr_clusterId = None, mr_shards = replicate 64 2000\<rparr>),
      mn_get := \<lambda>_ p. Inr (Some \<lparr>sp_id = p, sp_protocols = [], sp_metadata = Map.empty, sp_tags = [], sp_addresses = []\<rparr>)\<rparr>)
    ''p'' (wakuMetadata 1 Map.empty) = throws (wakuMetadata 1 Map.empty) RangeError"
  by (rule wide_shard_rejects_query[where chunks = "[[1, 2], [3]]" and r = "\<lparr>mr_clusterId = None, mr_shards = replicate 64 2000\<rparr>"])
    (auto simp: sample_md_net_def)

end
