(* ===== verification/Health_Indicator.thy ===== *)
theory Health_Indicator
  imports Prelude
begin

text \<open>
  The health of a node (\<open>packages/sdk/src/health_indicator/health_indicator.ts\<close>): assessed from the connections
  some time after the last change, and announced when it differs. lodash \<open>debounce\<close> without options calls its
  function once the wait has passed since the last request; the pending call is the time it is due. One assessment
  runs to its end before the next. Times are milliseconds.
\<close>

datatype health_status = Unhealthy | MinimallyHealthy | SufficientlyHealthy

definition FilterCodecs_SUBSCRIBE :: string where
  "FilterCodecs_SUBSCRIBE = ''/vac/waku/filter-subscribe/2.0.0-beta1''"

definition LightPushCodec :: string where
  "LightPushCodec = ''/vac/waku/lightpush/3.0.0''"

record health_indicator =
  hi_isStarted :: bool
  hi_value :: health_status
  hi_debounced :: "nat option"
  hi_dispatched :: "health_status list"

definition health_indicator_new :: health_indicator where
  "health_indicator_new = \<lparr>hi_isStarted = False, hi_value = Unhealthy, hi_debounced = None, hi_dispatched = []\<rparr>"

definition debouncedAssessHealth :: "nat \<Rightarrow> health_indicator \<Rightarrow> health_indicator" where
  "debouncedAssessHealth now h = h\<lparr>hi_debounced := Some (now + 100)\<rparr>"

definition hi_start :: "nat \<Rightarrow> health_indicator \<Rightarrow> health_indicator" where
  "hi_start now h = (if hi_isStarted h then h else debouncedAssessHealth now (h\<lparr>hi_isStarted := True\<rparr>))"

definition hi_stop :: "health_indicator \<Rightarrow> health_indicator" where
  "hi_stop h = (if \<not> hi_isStarted h then h else h\<lparr>hi_isStarted := False, hi_debounced := None\<rparr>)"

text \<open>The listeners of both libp2p events are registered exactly while the indicator is started.\<close>

definition onPeerChange :: "nat \<Rightarrow> health_indicator \<Rightarrow> health_indicator" where
  "onPeerChange now h = (if hi_isStarted h then debouncedAssessHealth now h else h)"

definition updateAndDispatchHealthEvent :: "health_status \<Rightarrow> health_indicator \<Rightarrow> health_indicator" where
  "updateAndDispatchHealthEvent v h =
     (if hi_value h \<noteq> v then h\<lparr>hi_value := v, hi_dispatched := hi_dispatched h @ [v]\<rparr> else h)"

text \<open>
  The node: the remote peer of every connection, and the protocols the peer store answers for a peer, or a
  rejection. A peer is read once for each of its connections.
\<close>

record health_view =
  hv_connections :: "string list"
  hv_get :: "string \<Rightarrow> js_error + string list"

definition peers_with :: "string \<Rightarrow> health_view \<Rightarrow> nat" where
  "peers_with codec v =
     length (filter (\<lambda>p. case hv_get v p of Inl e \<Rightarrow> False | Inr protocols \<Rightarrow> codec \<in> set protocols) (hv_connections v))"

definition health_of :: "nat \<Rightarrow> nat \<Rightarrow> health_status \<Rightarrow> health_status" where
  "health_of filterPeers lightPushPeers old =
     (if filterPeers = 0 \<or> lightPushPeers = 0 then Unhealthy
      else if 2 \<le> filterPeers \<and> 2 \<le> lightPushPeers then SufficientlyHealthy
      else if filterPeers = 1 \<and> lightPushPeers = 1 then MinimallyHealthy
      else old)"

definition assessHealth :: "health_view \<Rightarrow> health_indicator \<Rightarrow> health_indicator" where
  "assessHealth v h =
     (if hv_connections v = [] then updateAndDispatchHealthEvent Unhealthy h
      else updateAndDispatchHealthEvent
        (health_of (peers_with FilterCodecs_SUBSCRIBE v) (peers_with LightPushCodec v) (hi_value h)) h)"

datatype health_event =
    Hi_Start nat
  | Hi_Stop
  | Hi_Peer_Change nat
  | Hi_Time nat health_view

text \<open>The time passes; a pending call that is due is made with what the node is then.\<close>

fun hi_step :: "health_event \<Rightarrow> health_indicator \<Rightarrow> health_indicator" where
  "hi_step (Hi_Start now) h = hi_start now h"
| "hi_step Hi_Stop h = hi_stop h"
| "hi_step (Hi_Peer_Change now) h = onPeerChange now h"
| "hi_step (Hi_Time now v) h =
     (case hi_debounced h of
        None \<Rightarrow> h
      | Some due \<Rightarrow> if due \<le> now then assessHealth v (h\<lparr>hi_debounced := None\<rparr>) else h)"

definition hi_run :: "health_event list \<Rightarrow> health_indicator \<Rightarrow> health_indicator" where
  "hi_run es h = foldl (\<lambda>h e. hi_step e h) h es"

section \<open>The announced states\<close>

definition health_inv :: "health_indicator \<Rightarrow> bool" where
  "health_inv h \<longleftrightarrow> successively (\<noteq>) (Unhealthy # hi_dispatched h)
     \<and> hi_value h = last (Unhealthy # hi_dispatched h)
     \<and> (hi_debounced h \<noteq> None \<longrightarrow> hi_isStarted h)"

lemma dispatch_inv: "health_inv h \<Longrightarrow> health_inv (updateAndDispatchHealthEvent v h)"
proof -
  assume h: "health_inv h"
  have "successively (\<noteq>) ((Unhealthy # hi_dispatched h) @ [v])" if "last (Unhealthy # hi_dispatched h) \<noteq> v"
    using h that unfolding health_inv_def successively_append_iff by simp
  with h show ?thesis by (auto simp: updateAndDispatchHealthEvent_def health_inv_def)
qed

lemma hi_step_inv: "health_inv h \<Longrightarrow> health_inv (hi_step e h)"
proof (cases e)
  case (Hi_Time now v)
  assume "health_inv h"
  then have "health_inv (h\<lparr>hi_debounced := None\<rparr>)" by (simp add: health_inv_def)
  with dispatch_inv \<open>health_inv h\<close> Hi_Time show ?thesis by (auto simp: assessHealth_def split: option.splits)
qed (auto simp: health_inv_def hi_start_def hi_stop_def onPeerChange_def debouncedAssessHealth_def)

text \<open>
  Whatever the order of starts, stops, changes and timers: the announced states begin with one that is not the
  initial \<open>Unhealthy\<close>, no state is announced twice in a row, the current state is the last announced one, and an
  assessment is pending only while the indicator is started.
\<close>

theorem health_announcements:
  "let h = hi_run es health_indicator_new in
    successively (\<noteq>) (Unhealthy # hi_dispatched h) \<and> hi_value h = last (Unhealthy # hi_dispatched h)
    \<and> (hi_debounced h \<noteq> None \<longrightarrow> hi_isStarted h)"
proof -
  have "health_inv health_indicator_new" by (simp add: health_inv_def health_indicator_new_def)
  then have "health_inv (hi_run es health_indicator_new)"
    unfolding hi_run_def by (induction es rule: rev_induct) (auto intro: hi_step_inv)
  then show ?thesis by (simp add: health_inv_def Let_def)
qed

section \<open>What the states mean\<close>

text \<open>The documented meaning: how many peers support both protocols.\<close>

definition documented_health :: "health_view \<Rightarrow> health_status" where
  "documented_health v =
     (let n = card {p\<in>set (hv_connections v). \<exists>ps. hv_get v p = Inr ps \<and> FilterCodecs_SUBSCRIBE \<in> set ps \<and> LightPushCodec \<in> set ps}
      in if n = 0 then Unhealthy else if n = 1 then MinimallyHealthy else SufficientlyHealthy)"

lemma assess_value:
  "hi_value (assessHealth v h)
     = health_of (peers_with FilterCodecs_SUBSCRIBE v) (peers_with LightPushCodec v) (hi_value h)"
  by (auto simp: assessHealth_def updateAndDispatchHealthEvent_def health_of_def peers_with_def)

lemma peers_with_eq_card:
  "distinct (hv_connections v) \<Longrightarrow>
     peers_with codec v = card {p\<in>set (hv_connections v). \<exists>ps. hv_get v p = Inr ps \<and> codec \<in> set ps}"
proof -
  assume d: "distinct (hv_connections v)"
  let ?P = "\<lambda>p. case hv_get v p of Inl e \<Rightarrow> False | Inr protocols \<Rightarrow> codec \<in> set protocols"
  have P: "?P p \<longleftrightarrow> (\<exists>ps. hv_get v p = Inr ps \<and> codec \<in> set ps)" for p by (cases "hv_get v p") auto
  have "peers_with codec v = card (set (filter ?P (hv_connections v)))"
    unfolding peers_with_def using d by (intro distinct_card[symmetric]) simp
  also have "set (filter ?P (hv_connections v)) = {p\<in>set (hv_connections v). \<exists>ps. hv_get v p = Inr ps \<and> codec \<in> set ps}"
    by (simp only: P set_filter)
  finally show ?thesis .
qed

text \<open>The assessment is the documented one when there is one connection for each peer and the peers support both
  protocols or neither. With one peer of the one protocol and several of the other the old state is kept, whatever
  it was; and two connections to one peer that supports both make the node sufficiently healthy.
\<close>

theorem health_assessment:
  "(distinct (hv_connections v)
      \<and> (\<forall>p\<in>set (hv_connections v). \<forall>ps. hv_get v p = Inr ps \<longrightarrow> (FilterCodecs_SUBSCRIBE \<in> set ps \<longleftrightarrow> LightPushCodec \<in> set ps))
      \<longrightarrow> hi_value (assessHealth v h) = documented_health v)
   \<and> (peers_with FilterCodecs_SUBSCRIBE v = 1 \<and> 2 \<le> peers_with LightPushCodec v
      \<or> 2 \<le> peers_with FilterCodecs_SUBSCRIBE v \<and> peers_with LightPushCodec v = 1
      \<longrightarrow> assessHealth v h = h)
   \<and> (hv_connections v = [p, p] \<and> hv_get v p = Inr [FilterCodecs_SUBSCRIBE, LightPushCodec]
      \<longrightarrow> hi_value (assessHealth v h) = SufficientlyHealthy \<and> documented_health v = MinimallyHealthy)"
proof (intro conjI impI)
  assume a: "distinct (hv_connections v)
      \<and> (\<forall>p\<in>set (hv_connections v). \<forall>ps. hv_get v p = Inr ps \<longrightarrow> (FilterCodecs_SUBSCRIBE \<in> set ps \<longleftrightarrow> LightPushCodec \<in> set ps))"
  let ?B = "{p\<in>set (hv_connections v). \<exists>ps. hv_get v p = Inr ps \<and> FilterCodecs_SUBSCRIBE \<in> set ps \<and> LightPushCodec \<in> set ps}"
  have "health_of n n old = (if n = 0 then Unhealthy else if n = 1 then MinimallyHealthy else SufficientlyHealthy)" for n old
    by (auto simp: health_of_def)
  moreover from a have "{p\<in>set (hv_connections v). \<exists>ps. hv_get v p = Inr ps \<and> FilterCodecs_SUBSCRIBE \<in> set ps} = ?B"
    "{p\<in>set (hv_connections v). \<exists>ps. hv_get v p = Inr ps \<and> LightPushCodec \<in> set ps} = ?B" by auto
  ultimately show "hi_value (assessHealth v h) = documented_health v"
    using a by (simp only: assess_value peers_with_eq_card documented_health_def Let_def)
next
  assume "peers_with FilterCodecs_SUBSCRIBE v = 1 \<and> 2 \<le> peers_with LightPushCodec v
      \<or> 2 \<le> peers_with FilterCodecs_SUBSCRIBE v \<and> peers_with LightPushCodec v = 1"
  moreover from this have "hv_connections v \<noteq> []" by (auto simp: peers_with_def)
  ultimately show "assessHealth v h = h" by (auto simp: assessHealth_def health_of_def updateAndDispatchHealthEvent_def)
next
  assume a: "hv_connections v = [p, p] \<and> hv_get v p = Inr [FilterCodecs_SUBSCRIBE, LightPushCodec]"
  then show "hi_value (assessHealth v h) = SufficientlyHealthy"
    by (simp add: assess_value peers_with_def health_of_def)
  from a have "{q\<in>set (hv_connections v). \<exists>ps. hv_get v q = Inr ps \<and> FilterCodecs_SUBSCRIBE \<in> set ps \<and> LightPushCodec \<in> set ps} = {p}"
    by auto
  then show "documented_health v = MinimallyHealthy" by (simp add: documented_health_def)
qed

lemma health_assessment_witness:
  "let v = \<lparr>hv_connections = [''p'', ''p''], hv_get = \<lambda>_. Inr [FilterCodecs_SUBSCRIBE, LightPushCodec]\<rparr> in
   hi_value (assessHealth v health_indicator_new) = SufficientlyHealthy \<and> documented_health v = MinimallyHealthy"
  using health_assessment[of "\<lparr>hv_connections = [''p'', ''p''], hv_get = \<lambda>_. Inr [FilterCodecs_SUBSCRIBE, LightPushCodec]\<rparr>"
      health_indicator_new "''p''"] by (simp add: Let_def)

end
