(* ===== verification/Wait_For_Peer.thy ===== *)
theory Wait_For_Peer
  imports Peer_Manager Metadata Health_Indicator
begin

text \<open>
  \<open>packages/sdk/src/waku/wait_for_remote_peer.ts\<close>: a promise that settles when peers for the wanted protocols are
  there. A promise that is waited for is the time at which it resolves, counted in milliseconds from the call, or
  \<open>None\<close> when it never does. What happens meanwhile is the list of \<open>peer:identify\<close> events in the order of time;
  an event says whether the handshake with its peer rejects. The relay's own wait and the duration of the
  handshakes with the connected peers are arguments.
\<close>

definition LightPushCodecV2 :: string where
  "LightPushCodecV2 = ''/vac/waku/lightpush/2.0.0-beta1''"

record identify_event =
  ie_time :: nat
  ie_protocols :: "string list"
  ie_rejects :: bool

record wait_node =
  wn_started :: bool
  wn_mounted :: "protocol \<Rightarrow> bool"
  wn_connections :: nat
  wn_peers :: "string list"
  wn_get :: "string \<Rightarrow> js_error + string list"
  wn_metadata :: "metadata_net option"
  wn_relay_wait :: "nat option"
  wn_handshakes_last :: nat

definition getEnabledProtocols :: "wait_node \<Rightarrow> protocol list" where
  "getEnabledProtocols n = filter (wn_mounted n) [Relay, Filter_protocol, Store_protocol, LightPush_protocol]"

definition protocol_codecs :: "protocol \<Rightarrow> string list" where
  "protocol_codecs p =
     (case p of
        Filter_protocol \<Rightarrow> [FilterCodecs_SUBSCRIBE]
      | LightPush_protocol \<Rightarrow> [LightPushCodec, LightPushCodecV2]
      | Store_protocol \<Rightarrow> [STORE_CODEC]
      | _ \<Rightarrow> [])"

definition mapProtocolsToCodecs :: "protocol list \<Rightarrow> (string \<times> bool) list" where
  "mapProtocolsToCodecs protocols =
     foldl (\<lambda>m codec. AList.update codec False m) [] (concat (map protocol_codecs protocols))"

text \<open>The first event whose peer has the codec, and with which the handshake, if there is a service, does not reject.\<close>

definition waitForConnectedPeer :: "wait_node \<Rightarrow> identify_event list \<Rightarrow> string \<Rightarrow> nat option" where
  "waitForConnectedPeer n es codec =
     map_option ie_time (find (\<lambda>e. codec \<in> set (ie_protocols e) \<and> (wn_metadata n = None \<or> \<not> ie_rejects e)) es)"

definition protocolToPeerPromise :: "wait_node \<Rightarrow> identify_event list \<Rightarrow> string list \<Rightarrow> nat option list" where
  "protocolToPeerPromise n es codecs = map (waitForConnectedPeer n es) codecs"

definition promise_all :: "nat option list \<Rightarrow> nat option" where
  "promise_all ps = (if None \<in> set ps then None else Some (foldl max 0 (map the ps)))"

fun promise_any :: "nat option list \<Rightarrow> nat option" where
  "promise_any [] = None"
| "promise_any (None # ps) = promise_any ps"
| "promise_any (Some t # ps) = (case promise_any ps of None \<Rightarrow> Some t | Some t' \<Rightarrow> Some (min t t'))"

definition waitForProtocols :: "wait_node \<Rightarrow> identify_event list \<Rightarrow> protocol list \<Rightarrow> nat option" where
  "waitForProtocols n es protocols =
     promise_all
       ((if wn_mounted n Relay \<and> Relay \<in> set protocols then [wn_relay_wait n] else [])
        @ (if wn_mounted n Store_protocol \<and> Store_protocol \<in> set protocols then protocolToPeerPromise n es [STORE_CODEC] else [])
        @ (if wn_mounted n LightPush_protocol \<and> LightPush_protocol \<in> set protocols
           then [promise_any (protocolToPeerPromise n es [LightPushCodec, LightPushCodecV2])] else [])
        @ (if wn_mounted n Filter_protocol \<and> Filter_protocol \<in> set protocols
           then protocolToPeerPromise n es [FilterCodecs_SUBSCRIBE] else []))"

text \<open>
  The check of the connected peers: it marks the codecs of peers that confirm and ends early once all are
  marked. Both the marks and the state of the metadata service come out of it.
\<close>

definition mark_all :: "(string \<times> bool) list \<Rightarrow> string list \<Rightarrow> (string \<times> bool) list" where
  "mark_all codes cs = foldl (\<lambda>codes c. if map_of codes c \<noteq> None then AList.update c True codes else codes) codes cs"

fun metadata_loop ::
    "metadata_net \<Rightarrow> (string \<Rightarrow> js_error + string list) \<Rightarrow> string list \<Rightarrow> (string \<times> bool) list \<Rightarrow> metadata
     \<Rightarrow> (string \<times> bool) list \<times> metadata" where
  "metadata_loop net get [] codes m = (codes, m)"
| "metadata_loop net get (p # ps) codes m =
     (case get p of
        Inl e \<Rightarrow> metadata_loop net get ps codes m
      | Inr protocols \<Rightarrow>
          if \<not> (\<exists>c\<in>set protocols. map_of codes c \<noteq> None) then metadata_loop net get ps codes m
          else (case confirmOrAttemptHandshake net p m of
                  (m', Inr (Inr r)) \<Rightarrow>
                    (let codes' = mark_all codes protocols
                     in if \<forall>(c, v)\<in>set codes'. v then (codes', m') else metadata_loop net get ps codes' m')
                | (m', _) \<Rightarrow> metadata_loop net get ps codes m'))"

definition waitForMetadata :: "wait_node \<Rightarrow> protocol list \<Rightarrow> metadata \<Rightarrow> (string \<times> bool) list \<times> metadata" where
  "waitForMetadata n protocols m =
     (case wn_metadata n of
        Some net \<Rightarrow> if wn_peers n = [] then (mapProtocolsToCodecs protocols, m)
                    else metadata_loop net (wn_get n) (wn_peers n) (mapProtocolsToCodecs protocols) m
      | None \<Rightarrow> (mapProtocolsToCodecs protocols, m))"

text \<open>The promise of that check has no value: it resolves when the check ends, whatever was marked.\<close>

definition metadata_promise :: "wait_node \<Rightarrow> nat" where
  "metadata_promise n = (if wn_metadata n = None \<or> wn_peers n = [] then 0 else wn_handshakes_last n)"

definition rejectOnTimeout :: "nat option \<Rightarrow> nat \<Rightarrow> string \<Rightarrow> js_error + nat option" where
  "rejectOnTimeout promise timeoutMs reason =
     (case promise of
        Some t \<Rightarrow> if t < timeoutMs then Inr (Some t) else Inl (JsError reason)
      | None \<Rightarrow> Inl (JsError reason))"

fun not_mounted :: "protocol \<Rightarrow> js_error" where
  "not_mounted Relay = JsError ''Cannot wait for Relay peer: protocol not mounted''"
| "not_mounted LightPush_protocol = JsError ''Cannot wait for LightPush peer: protocol not mounted''"
| "not_mounted Store_protocol = JsError ''Cannot wait for Store peer: protocol not mounted''"
| "not_mounted Filter_protocol = JsError ''Cannot wait for Filter peer: protocol not mounted''"
| "not_mounted LightPush_v2 = TypeError"

definition unmounted :: "wait_node \<Rightarrow> protocol \<Rightarrow> bool" where
  "unmounted n p \<longleftrightarrow> p \<noteq> LightPush_v2 \<and> \<not> wn_mounted n p"

text \<open>The result: a rejection, or the time at which the promise resolves, if ever. No time limit is \<open>None\<close> or zero.\<close>

definition waitForRemotePeer ::
    "wait_node \<Rightarrow> identify_event list \<Rightarrow> protocol list option \<Rightarrow> nat option \<Rightarrow> js_error + nat option" where
  "waitForRemotePeer n es wanted timeoutMs =
     (let protocols = (case wanted of Some (p # ps) \<Rightarrow> p # ps | _ \<Rightarrow> getEnabledProtocols n)
      in if \<not> wn_started n then Inl (JsError ''Waku node is not started'')
         else case find (unmounted n) protocols of
                Some p \<Rightarrow> Inl (not_mounted p)
              | None \<Rightarrow>
                  let promises = waitForProtocols n es protocols
                        # (if 0 < wn_connections n \<and> Relay \<notin> set protocols then [Some (metadata_promise n)] else [])
                  in case timeoutMs of
                       Some (Suc t) \<Rightarrow> rejectOnTimeout (promise_any promises) (Suc t) ''Timed out waiting for a remote peer.''
                     | _ \<Rightarrow> Inr (promise_any promises))"

section \<open>When the wait ends\<close>

definition resolved :: "nat option \<Rightarrow> nat \<Rightarrow> bool" where
  "resolved promise u \<longleftrightarrow> (\<exists>t. promise = Some t \<and> t \<le> u)"

lemma resolved_simps [simp]: "resolved None u = False" "resolved (Some t) u \<longleftrightarrow> t \<le> u"
  by (simp_all add: resolved_def)

lemma resolved_all [simp]: "resolved (promise_all ps) u \<longleftrightarrow> (\<forall>p\<in>set ps. resolved p u)"
proof -
  have m: "foldl max a xs \<le> u \<longleftrightarrow> a \<le> u \<and> (\<forall>x\<in>set xs. x \<le> u)" for a and xs :: "nat list"
    by (induction xs arbitrary: a) auto
  have "resolved p u \<longleftrightarrow> p \<noteq> None \<and> the p \<le> u" for p by (cases p) simp_all
  then have "(\<forall>p\<in>set ps. resolved p u) \<longleftrightarrow> None \<notin> set ps \<and> (\<forall>p\<in>set ps. the p \<le> u)" by metis
  then show ?thesis by (simp add: promise_all_def m)
qed

lemma resolved_any [simp]: "resolved (promise_any ps) u \<longleftrightarrow> (\<exists>p\<in>set ps. resolved p u)"
  by (induction ps rule: promise_any.induct) (auto split: option.splits simp: resolved_def)

text \<open>An event counts when the handshake with its peer does not reject, or there is no metadata service.\<close>

definition accepted :: "wait_node \<Rightarrow> identify_event \<Rightarrow> bool" where
  "accepted n e \<longleftrightarrow> wn_metadata n = None \<or> \<not> ie_rejects e"

lemma resolved_connected:
  assumes "sorted (map ie_time es)"
  shows "resolved (waitForConnectedPeer n es codec) u
    \<longleftrightarrow> (\<exists>e\<in>set es. ie_time e \<le> u \<and> accepted n e \<and> codec \<in> set (ie_protocols e))"
  using assms
proof (induction es)
  case (Cons e es)
  then show ?case
    by (cases "codec \<in> set (ie_protocols e) \<and> accepted n e")
      (auto simp: waitForConnectedPeer_def accepted_def intro: order_trans)
qed (simp add: waitForConnectedPeer_def)

text \<open>What the caller asked for: for each protocol a peer that supports it has been identified and accepted by then.\<close>

definition fulfilled :: "wait_node \<Rightarrow> identify_event list \<Rightarrow> nat \<Rightarrow> protocol \<Rightarrow> bool" where
  "fulfilled n es u p \<longleftrightarrow>
     (if p = Relay then resolved (wn_relay_wait n) u
      else \<exists>codec\<in>set (protocol_codecs p). \<exists>e\<in>set es. ie_time e \<le> u \<and> accepted n e \<and> codec \<in> set (ie_protocols e))"

lemma resolved_protocols:
  assumes "sorted (map ie_time es)" and "\<forall>p\<in>set ps. wn_mounted n p \<and> p \<noteq> LightPush_v2"
  shows "resolved (waitForProtocols n es ps) u \<longleftrightarrow> (\<forall>p\<in>set ps. fulfilled n es u p)"
proof -
  have "set ps \<subseteq> {Relay, Store_protocol, LightPush_protocol, Filter_protocol}"
  proof
    fix p assume "p \<in> set ps"
    with assms(2) show "p \<in> {Relay, Store_protocol, LightPush_protocol, Filter_protocol}" by (cases p) auto
  qed
  then have all: "(\<forall>p\<in>set ps. fulfilled n es u p)
      \<longleftrightarrow> (\<forall>p\<in>{Relay, Store_protocol, LightPush_protocol, Filter_protocol}. p \<in> set ps \<longrightarrow> fulfilled n es u p)" by blast
  have m: "wn_mounted n p \<and> p \<in> set ps \<longleftrightarrow> p \<in> set ps" for p using assms(2) by blast
  have one: "(\<forall>p\<in>set (if b then xs else []). resolved p u) \<longleftrightarrow> (b \<longrightarrow> (\<forall>p\<in>set xs. resolved p u))" for b xs by auto
  show ?thesis
    unfolding all waitForProtocols_def resolved_all set_append ball_Un one m protocolToPeerPromise_def list.map list.set resolved_any
    by (simp add: fulfilled_def protocol_codecs_def resolved_connected[OF assms(1)])
qed

lemma none_unmounted: "\<forall>p\<in>set ps. wn_mounted n p \<and> p \<noteq> LightPush_v2 \<Longrightarrow> find (unmounted n) ps = None"
  by (auto simp: find_None_iff unmounted_def)


definition sample_wait :: wait_node where
  "sample_wait = \<lparr>wn_started = True, wn_mounted = (\<lambda>_. True), wn_connections = 0, wn_peers = [], wn_get = (\<lambda>_. Inl TypeError),
     wn_metadata = None, wn_relay_wait = None, wn_handshakes_last = 5\<rparr>"


text \<open>With a connection and no relay it resolves as soon as the check of the connected peers has ended, whatever that
  check found: no peer of any protocol need be there. The caller cannot tell this from success.
\<close>

theorem wait_resolves_unfulfilled:
  assumes "wn_started n" and "ps \<noteq> []" and "\<forall>p\<in>set ps. wn_mounted n p \<and> p \<noteq> LightPush_v2"
    and "0 < wn_connections n" and "Relay \<notin> set ps" and "case timeoutMs of None \<Rightarrow> True | Some t \<Rightarrow> t = 0 \<or> metadata_promise n < t"
  shows "\<exists>t\<le>metadata_promise n. waitForRemotePeer n es (Some ps) timeoutMs = Inr (Some t)"
proof -
  let ?P = "promise_any [waitForProtocols n es ps, Some (metadata_promise n)]"
  have "resolved ?P (metadata_promise n)" by simp
  then obtain t where t: "?P = Some t" "t \<le> metadata_promise n" by (auto simp: resolved_def)
  have "waitForRemotePeer n es (Some ps) timeoutMs = Inr (Some t)"
    using assms t none_unmounted[OF assms(3)]
    by (cases ps; cases timeoutMs; cases "the timeoutMs") (auto simp: waitForRemotePeer_def Let_def rejectOnTimeout_def)
  with t(2) show ?thesis by blast
qed

lemma wait_resolves_unfulfilled_witness:
  "\<exists>t\<le>0. waitForRemotePeer (sample_wait\<lparr>wn_connections := 1, wn_peers := [''p''], wn_get := \<lambda>_. Inr [''other'']\<rparr>) []
     (Some [Store_protocol, Filter_protocol]) (Some 1000) = Inr (Some t)"
  using wait_resolves_unfulfilled[of "sample_wait\<lparr>wn_connections := 1, wn_peers := [''p''], wn_get := \<lambda>_. Inr [''other'']\<rparr>"
      "[Store_protocol, Filter_protocol]" "Some 1000" "[]"]
  by (auto simp: sample_wait_def metadata_promise_def)

section \<open>What the check of the connected peers marks\<close>

definition supported :: "(string \<Rightarrow> js_error + string list) \<Rightarrow> string list \<Rightarrow> string \<Rightarrow> bool" where
  "supported get ps codec \<longleftrightarrow> (\<exists>p\<in>set ps. \<exists>protocols. get p = Inr protocols \<and> codec \<in> set protocols)"

lemma mark_codecs:
  "map_of (mark_all codes cs) c = (if c \<in> set cs \<and> map_of codes c \<noteq> None then Some True else map_of codes c)"
  unfolding mark_all_def by (induction cs arbitrary: codes) (auto simp: update_conv split: if_splits)

lemma metadata_loop_step:
  "(\<exists>m1. metadata_loop net get (p # ps) codes m = metadata_loop net get ps codes m1)
   \<or> (\<exists>m1 protocols. get p = Inr protocols \<and> (metadata_loop net get (p # ps) codes m = (mark_all codes protocols, m1)
        \<or> metadata_loop net get (p # ps) codes m = metadata_loop net get ps (mark_all codes protocols) m1))"
proof (cases "get p")
  case (Inr protocols)
  obtain m1 r where c: "confirmOrAttemptHandshake net p m = (m1, r)" by fastforce
  show ?thesis
    by (cases "\<exists>c\<in>set protocols. map_of codes c \<noteq> None"; cases r; cases "projr r") (auto simp: Inr c Let_def)
qed auto

text \<open>Only codecs that were asked for and that a connected peer supports are marked.\<close>

lemma metadata_loop_marks:
  assumes "metadata_loop net get ps codes m = (codes', m')" and "map_of codes' c = Some True"
  shows "map_of codes c = Some True \<or> map_of codes c \<noteq> None \<and> supported get ps c"
  using assms
proof (induction ps arbitrary: codes m)
  case (Cons p ps)
  have more: "supported get ps c \<Longrightarrow> supported get (p # ps) c" by (auto simp: supported_def)
  from metadata_loop_step[of net get p ps codes m] show ?case
  proof (elim disjE exE conjE)
    fix m1 assume "metadata_loop net get (p # ps) codes m = metadata_loop net get ps codes m1"
    with Cons more show ?thesis by (auto simp del: metadata_loop.simps)
  next
    fix m1 protocols
    assume g: "get p = Inr protocols" and "metadata_loop net get (p # ps) codes m = (mark_all codes protocols, m1)"
    with Cons.prems show ?thesis by (auto simp: mark_codecs supported_def simp del: metadata_loop.simps split: if_splits)
  next
    fix m1 protocols
    assume g: "get p = Inr protocols"
      and "metadata_loop net get (p # ps) codes m = metadata_loop net get ps (mark_all codes protocols) m1"
    with Cons.prems Cons.IH[of "mark_all codes protocols" m1] have "map_of (mark_all codes protocols) c = Some True
        \<or> map_of (mark_all codes protocols) c \<noteq> None \<and> supported get ps c" by simp
    with g more show ?thesis by (auto simp: mark_codecs supported_def simp del: metadata_loop.simps split: if_splits)
  qed
qed simp

end
