(* ===== verification/Waku_Node.thy ===== *)
theory Waku_Node
  imports Connection_Manager Light_Push Filter_Client Relay_Protocol Stream_Manager Wait_For_Peer
begin

text \<open>
  The node (\<open>packages/sdk/src/waku/waku.ts\<close>): it owns the connection manager, the peer manager, the health indicator
  and the clients of the mounted protocols, starts and stops them, chooses the codecs of a dial and makes encoders and
  decoders. The clients bring the parts of their core protocols that have a life of their own: the stream
  managers, and the registration of the filter's push handler
  (\<open>packages/core/src/lib/filter/filter.ts\<close>, whose failure is only logged). A call of \<open>start\<close> or \<open>stop\<close> runs to its end
  before the next; libp2p's own start and stop may reject, and they start and stop gossipsub with them.
\<close>

record ('m, 'c) filter_part =
  fp_client :: "('m, 'c) filter_client"
  fp_streams :: stream_manager
  fp_handling :: bool

record ('k, 'p) light_push_part =
  lpp_retry :: "('k, 'p) push_retry"
  lpp_streams :: stream_manager
  lpp_streamsV2 :: stream_manager

record ('m, 'c, 'k, 'p) waku_node =
  wk_networkConfig :: network_config
  wk_relay :: "('m, 'c) relay option"
  wk_store :: "stream_manager option"
  wk_filter :: "('m, 'c) filter_part option"
  wk_lightPush :: "('k, 'p) light_push_part option"
  wk_cm :: cm
  wk_pm :: peer_manager
  wk_health :: health_indicator
  wk_libp2p_started :: bool
  nodeStateLock :: bool
  nodeStarted :: bool

section \<open>Construction\<close>

record protocols_enabled =
  pe_filter :: bool
  pe_lightpush :: bool
  pe_store :: bool

text \<open>The options that reach a component; a configured network is optional.\<close>

record node_options =
  no_networkConfig :: "network_config option"
  no_connectionManager :: cm_config
  no_numPeersToUse :: "nat option"
  no_filterPeers :: "nat option"
  no_filterPings :: "nat option"

definition DefaultNetworkConfig :: network_config where
  "DefaultNetworkConfig = AutoSharding 1 8"

definition waku_node_new :: "node_options \<Rightarrow> mconn list \<Rightarrow> bool \<Rightarrow> protocols_enabled \<Rightarrow> ('m, 'c) relay option \<Rightarrow> ('m, 'c, 'k, 'p) waku_node" where
  "waku_node_new opts conns libp2p_started enabled relay_opt =
     (let cfg = (case no_networkConfig opts of None \<Rightarrow> DefaultNetworkConfig | Some c \<Rightarrow> c) in
      \<lparr>wk_networkConfig = cfg, wk_relay = relay_opt,
       wk_store = (if pe_store enabled then Some (stream_manager_new STORE_CODEC conns) else None),
       wk_filter = (if pe_filter enabled
                    then Some \<lparr>fp_client = filter_new (no_filterPeers opts) (no_filterPings opts),
                               fp_streams = stream_manager_new FilterCodecs_SUBSCRIBE conns, fp_handling = False\<rparr> else None),
       wk_lightPush = (if pe_lightpush enabled
                       then Some \<lparr>lpp_retry = retry_manager_new, lpp_streams = stream_manager_new LightPushCodec conns,
                                  lpp_streamsV2 = stream_manager_new LightPushCodecV2 conns\<rparr> else None),
       wk_cm = cm_new (no_connectionManager opts) cfg, wk_pm = peer_manager_new (no_numPeersToUse opts),
       wk_health = health_indicator_new, wk_libp2p_started = libp2p_started, nodeStateLock = False, nodeStarted = False\<rparr>)"

section \<open>Start and stop\<close>

definition node_isStarted :: "('m, 'c, 'k, 'p) waku_node \<Rightarrow> bool" where
  "node_isStarted n \<longleftrightarrow> nodeStarted n \<and> wk_libp2p_started n"

text \<open>\<open>handled\<close> says whether libp2p accepted the filter's handler, \<open>unhandled\<close> whether it let it go.\<close>

definition filter_core_start :: "bool \<Rightarrow> ('m, 'c) filter_part \<Rightarrow> ('m, 'c) filter_part" where
  "filter_core_start handled f = (if handled then f\<lparr>fp_handling := True\<rparr> else f)"

definition filter_core_stop :: "bool \<Rightarrow> ('m, 'c) filter_part \<Rightarrow> ('m, 'c) filter_part" where
  "filter_core_stop unhandled f =
     (let f' = f\<lparr>fp_streams := sm_stop (fp_streams f)\<rparr> in if unhandled then f'\<lparr>fp_handling := False\<rparr> else f')"

definition light_push_start :: "('k, 'p) light_push_part \<Rightarrow> ('k, 'p) light_push_part" where
  "light_push_start l = l\<lparr>lpp_retry := rm_start (lpp_retry l)\<rparr>"

definition light_push_stop :: "('k, 'p) light_push_part \<Rightarrow> ('k, 'p) light_push_part" where
  "light_push_stop l =
     l\<lparr>lpp_retry := rm_stop (lpp_retry l), lpp_streams := sm_stop (lpp_streams l), lpp_streamsV2 := sm_stop (lpp_streamsV2 l)\<rparr>"

definition libp2p_status :: "bool \<Rightarrow> ('m, 'c, 'k, 'p) waku_node \<Rightarrow> ('m, 'c, 'k, 'p) waku_node" where
  "libp2p_status b n = n\<lparr>wk_libp2p_started := b, wk_relay := map_option (\<lambda>r. r\<lparr>gs_started := b\<rparr>) (wk_relay n)\<rparr>"

definition node_start :: "world \<Rightarrow> js_error + unit \<Rightarrow> bool \<Rightarrow> ('m, 'c, 'k, 'p) waku_node
    \<Rightarrow> (('m, 'c, 'k, 'p) waku_node, unit) call" where
  "node_start w libp2p_start handled n =
     (if nodeStateLock n \<or> node_isStarted n then returns n ()
      else let n1 = n\<lparr>nodeStateLock := True\<rparr> in
           case libp2p_start of
             Inl e \<Rightarrow> throws n1 e
           | Inr _ \<Rightarrow>
               let n2 = libp2p_status True n1;
                   n3 = n2\<lparr>wk_filter := map_option (filter_core_start handled) (wk_filter n2),
                           wk_cm := cm_start w (wk_cm n2), wk_pm := pm_start (wk_pm n2),
                           wk_health := hi_start (w_now w) (wk_health n2),
                           wk_lightPush := map_option light_push_start (wk_lightPush n2)\<rparr>
               in returns (n3\<lparr>nodeStateLock := False, nodeStarted := True\<rparr>) ())"

definition node_stop :: "js_error + unit \<Rightarrow> bool \<Rightarrow> ('m, 'c, 'k, 'p) waku_node \<Rightarrow> (('m, 'c, 'k, 'p) waku_node, unit) call" where
  "node_stop libp2p_stop unhandled n =
     (if nodeStateLock n \<or> \<not> node_isStarted n then returns n ()
      else let n1 = n\<lparr>nodeStateLock := True, wk_lightPush := map_option light_push_stop (wk_lightPush n),
                      wk_store := map_option sm_stop (wk_store n),
                      wk_filter := map_option (filter_core_stop unhandled) (wk_filter n),
                      wk_relay := map_option relay_stop (wk_relay n),
                      wk_health := hi_stop (wk_health n), wk_pm := pm_stop (wk_pm n), wk_cm := cm_stop (wk_cm n)\<rparr>
           in case libp2p_stop of
                Inl e \<Rightarrow> throws n1 e
              | Inr _ \<Rightarrow> returns ((libp2p_status False n1)\<lparr>nodeStateLock := False, nodeStarted := False\<rparr>) ())"

section \<open>Dialing, encoders and decoders\<close>

text \<open>The codecs offered in a dial: those of the mounted protocols among the wanted ones, in a fixed order.\<close>

definition dial_codecs :: "string list \<Rightarrow> ('m, 'c, 'k, 'p) waku_node \<Rightarrow> protocol list option \<Rightarrow> string list" where
  "dial_codecs gossip_codecs n wanted =
     (let protocols = (case wanted of
            Some ps \<Rightarrow> ps
          | None \<Rightarrow> (if wk_relay n \<noteq> None then [Relay] else []) @ (if wk_store n \<noteq> None then [Store_protocol] else [])
                    @ (if wk_filter n \<noteq> None then [Filter_protocol] else []) @ (if wk_lightPush n \<noteq> None then [LightPush_protocol] else []))
      in (if Relay \<in> set protocols \<and> wk_relay n \<noteq> None then gossip_codecs else [])
         @ (if Store_protocol \<in> set protocols \<and> wk_store n \<noteq> None then [STORE_CODEC] else [])
         @ (if LightPush_protocol \<in> set protocols \<and> wk_lightPush n \<noteq> None then [LightPushCodec, LightPushCodecV2] else [])
         @ (if Filter_protocol \<in> set protocols \<and> wk_filter n \<noteq> None then [FilterCodecs_SUBSCRIBE] else []))"

definition node_createRoutingInfo ::
    "(bytes \<Rightarrow> bytes) \<Rightarrow> ('m, 'c, 'k, 'p) waku_node \<Rightarrow> string option \<Rightarrow> int option \<Rightarrow> js_error + routing_info" where
  "node_createRoutingInfo sha256 n ct shard =
     createRoutingInfo sha256 (wk_networkConfig n) \<lparr>ro_contentTopic = ct, ro_shardId = shard, ro_pubsubTopic = None\<rparr>"

text \<open>A decoder is its content topic and its pubsub topic.\<close>

definition node_createDecoder ::
    "(bytes \<Rightarrow> bytes) \<Rightarrow> ('m, 'c, 'k, 'p) waku_node \<Rightarrow> string \<Rightarrow> int option \<Rightarrow> js_error + (string \<times> string)" where
  "node_createDecoder sha256 n ct shard =
     bindE (node_createRoutingInfo sha256 n (Some ct) shard)
       (\<lambda>ri. if ct = [] then Inl (JsError ''Content topic must be specified'') else Inr (ct, pubsubTopic ri))"

definition node_createEncoder ::
    "(bytes \<Rightarrow> bytes) \<Rightarrow> ('m, 'c, 'k, 'p) waku_node \<Rightarrow> string \<Rightarrow> bool option \<Rightarrow> int option \<Rightarrow> js_error + v0_encoder" where
  "node_createEncoder sha256 n ct ephemeral shard =
     bindE (node_createRoutingInfo sha256 n (Some ct) shard) (\<lambda>ri. createEncoder ct (pubsubTopic ri) ephemeral None)"

section \<open>The life of a node\<close>

datatype node_event =
    Node_Start world "js_error + unit" bool
  | Node_Stop "js_error + unit" bool
  | Node_Connections world cm_event
  | Node_Health health_event

text \<open>What the components do by themselves; only the node starts and stops them.\<close>

fun own_event :: "node_event \<Rightarrow> bool" where
  "own_event (Node_Connections w e) = (e \<noteq> Cm_Start \<and> e \<noteq> Cm_Stop)"
| "own_event (Node_Health e) = (case e of Hi_Start t \<Rightarrow> False | Hi_Stop \<Rightarrow> False | _ \<Rightarrow> True)"
| "own_event _ = True"

fun node_step :: "('m, 'c, 'k, 'p) waku_node \<Rightarrow> node_event \<Rightarrow> ('m, 'c, 'k, 'p) waku_node" where
  "node_step n (Node_Start w r handled) = fst (node_start w r handled n)"
| "node_step n (Node_Stop r unhandled) = fst (node_stop r unhandled n)"
| "node_step n (Node_Connections w e) = n\<lparr>wk_cm := cm_step (w, e) (wk_cm n)\<rparr>"
| "node_step n (Node_Health e) = n\<lparr>wk_health := hi_step e (wk_health n)\<rparr>"

definition node_run :: "node_event list \<Rightarrow> ('m, 'c, 'k, 'p) waku_node \<Rightarrow> ('m, 'c, 'k, 'p) waku_node" where
  "node_run es n = foldl node_step n es"

definition node_quiet :: "('m, 'c, 'k, 'p) waku_node \<Rightarrow> bool" where
  "node_quiet n \<longleftrightarrow> silent (wk_cm n) \<and> \<not> pm_listening (wk_pm n) \<and> \<not> hi_isStarted (wk_health n)
     \<and> (\<forall>l. wk_lightPush n = Some l \<longrightarrow> intervalID (lpp_retry l) = None)"

definition node_active :: "('m, 'c, 'k, 'p) waku_node \<Rightarrow> bool" where
  "node_active n \<longleftrightarrow> cm_discovering (wk_cm n) \<and> pm_listening (wk_pm n) \<and> hi_isStarted (wk_health n)
     \<and> wk_libp2p_started n \<and> (\<forall>l. wk_lightPush n = Some l \<longrightarrow> intervalID (lpp_retry l) \<noteq> None)"

definition node_inv :: "('m, 'c, 'k, 'p) waku_node \<Rightarrow> bool" where
  "node_inv n \<longleftrightarrow> (\<not> nodeStateLock n \<longrightarrow> (if nodeStarted n then node_active n else node_quiet n))"

lemma cm_discovering_step: "e \<noteq> Cm_Start \<Longrightarrow> e \<noteq> Cm_Stop \<Longrightarrow> cm_discovering (cm_step (w, e) c) = cm_discovering c"
  by (cases e) (simp_all add: cm_peer_connect_def cm_peer_disconnect_def announce_def cm_discovered_def perform_fields Let_def)

lemma silent_kept: "silent c \<Longrightarrow> e \<noteq> Cm_Start \<Longrightarrow> e \<noteq> Cm_Stop \<Longrightarrow> silent (cm_step (w, e) c)"
  using silent_step[of c e w] by (auto simp: silent_def)

lemma health_started_step:
  "own_event (Node_Health e) \<Longrightarrow> hi_isStarted (hi_step e h) = hi_isStarted h"
  by (cases e) (auto simp: onPeerChange_def debouncedAssessHealth_def assessHealth_def updateAndDispatchHealthEvent_def
      split: option.splits)

lemma rm_interval: "\<exists>h. intervalID (rm_start s) = Some h" "intervalID (rm_stop s) = None"
  by (auto simp: rm_start_def rm_stop_def split: prod.splits option.splits)

lemma started_cm: "cm_discovering (cm_start w c)"
  by (simp add: cm_start_def Let_def perform_fields split: prod.splits)

lemma node_step_inv:
  assumes "node_inv n" and "own_event e"
  shows "node_inv (node_step n e)"
proof (cases e)
  case (Node_Start w r handled)
  show ?thesis
  proof (cases "nodeStateLock n \<or> node_isStarted n \<or> isl r")
    case True
    with assms(1) show ?thesis by (cases r) (auto simp: Node_Start node_start_def node_inv_def Let_def)
  next
    case False
    then obtain u where "r = Inr u" by (cases r) auto
    moreover have "hi_isStarted (hi_start t h)" for t h by (simp add: hi_start_def debouncedAssessHealth_def)
    ultimately show ?thesis using False
      by (auto simp: Node_Start node_start_def node_inv_def Let_def node_active_def started_cm pm_start_def libp2p_status_def
          light_push_start_def rm_interval)
  qed
next
  case (Node_Stop r unhandled)
  show ?thesis
  proof (cases "nodeStateLock n \<or> \<not> node_isStarted n \<or> isl r")
    case True
    with assms(1) show ?thesis by (cases r) (auto simp: Node_Stop node_stop_def node_inv_def Let_def)
  next
    case False
    then obtain u where "r = Inr u" by (cases r) auto
    moreover have "\<not> hi_isStarted (hi_stop h)" for h by (simp add: hi_stop_def)
    ultimately show ?thesis using False
      by (auto simp: Node_Stop node_stop_def node_inv_def Let_def node_quiet_def silent_cm_stop pm_stop_def libp2p_status_def
          light_push_stop_def rm_interval)
  qed
next
  case (Node_Connections w e')
  with assms show ?thesis
    by (auto simp: node_inv_def node_active_def node_quiet_def cm_discovering_step intro: silent_kept)
next
  case (Node_Health e')
  with assms show ?thesis
    by (auto simp: node_inv_def node_active_def node_quiet_def health_started_step simp del: own_event.simps)
qed


definition sample_options :: node_options where
  "sample_options = \<lparr>no_networkConfig = None, no_connectionManager = \<lparr>cf_maxBootstrapPeers = None, cf_maxConnections = None,
     cf_pingKeepAlive = None, cf_relayKeepAlive = None, cf_enableAutoRecovery = None, cf_maxDialingPeers = None,
     cf_failedDialCooldown = None, cf_dialCooldown = None\<rparr>, no_numPeersToUse = None, no_filterPeers = None, no_filterPings = None\<rparr>"

definition light_node :: "(nat, nat, nat, nat) waku_node" where
  "light_node = waku_node_new sample_options [] False \<lparr>pe_filter = True, pe_lightpush = True, pe_store = True\<rparr> None"


fun lifecycle_call :: "node_event \<Rightarrow> bool" where
  "lifecycle_call (Node_Start w r b) = True"
| "lifecycle_call (Node_Stop r b) = True"
| "lifecycle_call e = False"

text \<open>C34: A start that libp2p rejects, and likewise a stop, leaves the state locked: from then on every start and stop returns
  without doing anything, whatever libp2p would answer.
\<close>

theorem rejected_start_locks_node:
  assumes "\<not> nodeStateLock n" and "\<not> node_isStarted n" and "\<forall>e\<in>set es. lifecycle_call e"
  shows "let n' = fst (node_start w (Inl err) handled n) in
    snd (node_start w (Inl err) handled n) = Inl err \<and> node_run es n' = n' \<and> \<not> node_isStarted n'
    \<and> node_start w' (Inr ()) True n' = returns n' ()"
proof -
  let ?n = "n\<lparr>nodeStateLock := True\<rparr>"
  have "node_step ?n e = ?n" if "lifecycle_call e" for e
    using that by (cases e) (simp_all add: node_start_def node_stop_def)
  with assms(3) have "node_run es ?n = ?n" unfolding node_run_def by (induction es) auto
  with assms(1,2) show ?thesis by (simp add: node_start_def Let_def node_isStarted_def)
qed

lemma rejected_start_locks_node_witness:
  "node_run [Node_Stop (Inr ()) True, Node_Start sample_world (Inr ()) True] (fst (node_start sample_world (Inl TypeError) True light_node))
     = fst (node_start sample_world (Inl TypeError) True light_node)"
proof -
  have "\<not> nodeStateLock light_node" "\<not> node_isStarted light_node"
    by (simp_all add: light_node_def waku_node_new_def Let_def node_isStarted_def)
  from rejected_start_locks_node[OF this, of "[Node_Stop (Inr ()) True, Node_Start sample_world (Inr ()) True]" sample_world TypeError True
      sample_world] show ?thesis by (simp add: Let_def)
qed

text \<open>A node that is stopped and started again is not what it was. Its filter subscriptions were never stopped: stopping
  the node leaves the filter client as it is, with its intervals running. No stream manager hears of peer updates
  any more, and the relay has no listener left.
\<close>

theorem restart_does_not_restore:
  assumes "\<not> nodeStateLock n" and "node_isStarted n"
    and "\<forall>r. wk_relay n = Some r \<longrightarrow> (\<forall>(h, t)\<in>set (gs_listeners r). t \<in> set (rl_pubsubTopics r) \<and> rl_handlers r t = Some h)"
  shows "let n' = node_run [Node_Stop (Inr ()) True, Node_Start w (Inr ()) True] n in
    node_isStarted n'
    \<and> map_option fp_client (wk_filter n') = map_option fp_client (wk_filter n)
    \<and> (\<forall>f. wk_filter n' = Some f \<longrightarrow> \<not> sm_listening (fp_streams f))
    \<and> (\<forall>s. wk_store n' = Some s \<longrightarrow> \<not> sm_listening s)
    \<and> (\<forall>l. wk_lightPush n' = Some l \<longrightarrow> \<not> sm_listening (lpp_streams l) \<and> \<not> sm_listening (lpp_streamsV2 l))
    \<and> (\<forall>r. wk_relay n' = Some r \<longrightarrow> gs_listeners r = [] \<and> rl_observers r = [])"
proof -
  have quiet: "gs_listeners (relay_stop r) = []" if "wk_relay n = Some r" for r
  proof -
    have "\<forall>l\<in>set (gs_listeners r). \<exists>t\<in>set (rl_pubsubTopics r). rl_handlers r t = Some (fst l)" using assms(3) that by force
    then show ?thesis using stop_topics[of r "rl_pubsubTopics r"] by (simp add: relay_stop_def filter_empty_conv)
  qed
  have obs: "rl_observers (relay_stop r) = []" for r :: "('a, 'b) relay" by (simp add: relay_stop_def)
  show ?thesis using assms(1,2) quiet
    by (auto simp: node_run_def node_start_def node_stop_def node_isStarted_def Let_def libp2p_status_def filter_core_start_def
        filter_core_stop_def light_push_start_def light_push_stop_def sm_stop_def obs option.map_comp o_def)
qed

lemma restart_does_not_restore_witness:
  "let n = fst (node_start sample_world (Inr ()) True light_node);
       n' = node_run [Node_Stop (Inr ()) True, Node_Start sample_world (Inr ()) True] n in
    node_isStarted n' \<and> (\<forall>s. wk_store n' = Some s \<longrightarrow> \<not> sm_listening s)"
proof -
  let ?n = "fst (node_start sample_world (Inr ()) True light_node)"
  have "\<not> nodeStateLock ?n" "node_isStarted ?n" "wk_relay ?n = None"
    by (simp_all add: node_start_def light_node_def waku_node_new_def node_isStarted_def libp2p_status_def Let_def)
  with restart_does_not_restore[of ?n sample_world] show ?thesis by (simp add: Let_def)
qed

section \<open>Encoders and decoders of one node\<close>

text \<open>An encoder and a decoder that a node makes for the same content topic and shard agree: both fail, or both work on
  that content topic and the same pubsub topic, which is one of the node's cluster.
\<close>

theorem encoder_and_decoder_agree:
  "case node_createEncoder sha256 n ct ephemeral shard of
     Inl e \<Rightarrow> node_createDecoder sha256 n ct shard = Inl e
   | Inr en \<Rightarrow> ct \<noteq> [] \<and> en_contentTopic en = ct
       \<and> node_createDecoder sha256 n ct shard = Inr (ct, en_pubsubTopic en)
       \<and> (\<exists>i. en_pubsubTopic en = formatPubsubTopic (nc_clusterId (wk_networkConfig n)) i)"
proof (cases "node_createRoutingInfo sha256 n (Some ct) shard")
  case (Inl e)
  then show ?thesis by (simp add: node_createEncoder_def node_createDecoder_def bindE_def)
next
  case (Inr ri)
  have "\<exists>i. pubsubTopic ri = formatPubsubTopic (nc_clusterId (wk_networkConfig n)) i"
    using Inr by (auto simp: node_createRoutingInfo_def createRoutingInfo_def fromContentTopic_def fromShard_def truthy_def Let_def
        bindE_Inr split: network_config.splits option.splits sum.splits if_splits)
  with Inr show ?thesis
    by (auto simp: node_createEncoder_def node_createDecoder_def createEncoder_def bindE_def split: if_splits)
qed

end
