(* ===== verification/Encryption.thy ===== *)
theory Encryption
  imports Version_0
begin

unbundle bit_operations_syntax

text \<open>
  \<open>packages/message-encryption/src\<close>: the payload envelope with its padding and signature
  (\<open>encryption.ts\<close>), ECIES (\<open>crypto/ecies.ts\<close>), the symmetric cipher (\<open>crypto/symmetric.ts\<close>) and the
  encoders and decoders built on them (\<open>ecies.ts\<close>, \<open>symmetric.ts\<close>, \<open>decoded_message.ts\<close>).

  The primitives of \<open>@noble/secp256k1\<close>, \<open>js-sha3\<close> and the Web Crypto API are the fields of a
  record \<open>crypto\<close>; what is relied on of them is the locale \<open>crypto_laws\<close>. Random bytes are arguments.
\<close>

record crypto =
  cr_sha256 :: "bytes \<Rightarrow> bytes"
  cr_keccak256 :: "bytes \<Rightarrow> bytes"
  cr_getPublicKey :: "bytes \<Rightarrow> bytes"
  cr_getSharedSecret :: "bytes \<Rightarrow> bytes \<Rightarrow> js_error + bytes"
  cr_sign :: "bytes \<Rightarrow> bytes \<Rightarrow> js_error + (bytes \<times> byte)"
  cr_recoverPublicKey :: "bytes \<Rightarrow> bytes \<Rightarrow> byte \<Rightarrow> js_error + bytes"
  cr_ctr_encrypt :: "bytes \<Rightarrow> bytes \<Rightarrow> bytes \<Rightarrow> js_error + bytes"
  cr_ctr_decrypt :: "bytes \<Rightarrow> bytes \<Rightarrow> bytes \<Rightarrow> js_error + bytes"
  cr_hmac :: "bytes \<Rightarrow> bytes \<Rightarrow> bytes"
  cr_hmac_verify :: "bytes \<Rightarrow> bytes \<Rightarrow> bytes \<Rightarrow> bool"
  cr_gcm_encrypt :: "bytes \<Rightarrow> bytes \<Rightarrow> bytes \<Rightarrow> js_error + bytes"
  cr_gcm_decrypt :: "bytes \<Rightarrow> bytes \<Rightarrow> bytes \<Rightarrow> js_error + bytes"

definition slice :: "nat \<Rightarrow> nat \<Rightarrow> 'a list \<Rightarrow> 'a list" where
  "slice a b xs = take (b - a) (drop a xs)"

section \<open>encryption.ts: the envelope\<close>

definition FlagsLength :: nat where "FlagsLength = 1"
definition FlagMask :: byte where "FlagMask = 3"
definition IsSignedMask :: byte where "IsSignedMask = 4"
definition PaddingTarget :: nat where "PaddingTarget = 256"
definition SignatureLength :: nat where "SignatureLength = 65"

text \<open>
  The loop divides by 256 without rounding, so it counts how often the length can be divided until it
  is below 256; rounding down in between changes no comparison.
\<close>

fun computeSizeOfPayloadSizeField :: "nat \<Rightarrow> nat" where
  "computeSizeOfPayloadSizeField i = (if 256 \<le> i then Suc (computeSizeOfPayloadSizeField (i div 256)) else 1)"

declare computeSizeOfPayloadSizeField.simps [simp del]

text \<open>\<open>setUint32\<close> and \<open>getInt32\<close> with the little-endian flag.\<close>

definition le_bytes :: "nat \<Rightarrow> nat \<Rightarrow> bytes" where
  "le_bytes w v = rev (be_bytes w v)"

definition le_int32 :: "bytes \<Rightarrow> int" where
  "le_int32 bs = (let n = int (be_value (rev (take 4 bs))) in if n < 2 ^ 31 then n else n - 2 ^ 32)"

definition addPayloadSizeField :: "bytes \<Rightarrow> bytes \<Rightarrow> bytes" where
  "addPayloadSizeField msg payload =
     (let fieldSize = computeSizeOfPayloadSizeField (length payload);
          field = take fieldSize (le_bytes 4 (length payload));
          msg' = msg @ field
      in msg'[0 := (msg' ! 0) OR of_nat fieldSize])"

definition validateDataIntegrity :: "bytes \<Rightarrow> nat \<Rightarrow> bool" where
  "validateDataIntegrity val expectedSize \<longleftrightarrow>
     length val = expectedSize \<and> (expectedSize \<le> 3 \<or> (\<exists>i\<in>set val. i \<noteq> 0))"

definition getSizeOfPayloadSizeField :: "bytes \<Rightarrow> js_error + nat" where
  "getSizeOfPayloadSizeField message =
     (case message of [] \<Rightarrow> Inl RangeError | b # _ \<Rightarrow> Inr (unat (b AND FlagMask)))"

definition getPayloadSize :: "bytes \<Rightarrow> nat \<Rightarrow> js_error + int" where
  "getPayloadSize message sizeOfPayloadSizeField =
     bindE (if sizeOfPayloadSizeField < 4
            then bytes_concat [slice 1 (1 + sizeOfPayloadSizeField) message,
                               replicate (4 - sizeOfPayloadSizeField) 0] (Some 4)
            else Inr (slice 1 (1 + sizeOfPayloadSizeField) message))
       (\<lambda>payloadSizeBytes. if length payloadSizeBytes < 4 then Inl RangeError else Inr (le_int32 payloadSizeBytes))"

definition isMessageSigned :: "bytes \<Rightarrow> bool" where
  "isMessageSigned message = (case message of [] \<Rightarrow> False | b # _ \<Rightarrow> b AND IsSignedMask = IsSignedMask)"

text \<open>\<open>slice\<close> with a negative start counts from the end.\<close>

definition js_slice :: "int \<Rightarrow> int \<Rightarrow> 'a list \<Rightarrow> 'a list" where
  "js_slice a b xs =
     (let n = int (length xs);
          idx = (\<lambda>i. nat (if i < 0 then max 0 (n + i) else min i n))
      in slice (idx a) (idx b) xs)"

definition getSignature :: "bytes \<Rightarrow> bytes" where
  "getSignature message = js_slice (int (length message) - int SignatureLength) (int (length message)) message"

definition getHash :: "crypto \<Rightarrow> bytes \<Rightarrow> bool \<Rightarrow> bytes" where
  "getHash cr message isSigned =
     cr_keccak256 cr (if isSigned then js_slice 0 (int (length message) - int SignatureLength) message else message)"

definition ecRecoverPubKey :: "crypto \<Rightarrow> bytes \<Rightarrow> bytes \<Rightarrow> js_error + bytes" where
  "ecRecoverPubKey cr msgHash signature =
     (case drop 64 signature of
        [] \<Rightarrow> Inl RangeError
      | recovery # _ \<Rightarrow> cr_recoverPublicKey cr msgHash (take 64 signature) recovery)"

text \<open>\<open>crypto/utils.ts\<close>: the compact signature and the recovery bit.\<close>

definition cr_sign_concat :: "crypto \<Rightarrow> bytes \<Rightarrow> bytes \<Rightarrow> js_error + bytes" where
  "cr_sign_concat cr message privateKey =
     bindE (cr_sign cr message privateKey)
       (\<lambda>(signature, recoveryId). bytes_concat [signature, [recoveryId]] (Some (length signature + 1)))"

definition padding_size :: "bytes \<Rightarrow> bytes option \<Rightarrow> nat" where
  "padding_size messagePayload sigPrivKey =
     (let rawSize = FlagsLength + computeSizeOfPayloadSizeField (length messagePayload) + length messagePayload
            + (if sigPrivKey = None then 0 else SignatureLength)
      in PaddingTarget - rawSize mod PaddingTarget)"

definition preCipher :: "crypto \<Rightarrow> (nat \<Rightarrow> bytes) \<Rightarrow> bytes \<Rightarrow> bytes option \<Rightarrow> js_error + bytes" where
  "preCipher cr randomBytes messagePayload sigPrivKey =
     (let envelope = addPayloadSizeField [0] messagePayload @ messagePayload;
          paddingSize = padding_size messagePayload sigPrivKey;
          pad = randomBytes paddingSize
      in if \<not> validateDataIntegrity pad paddingSize
         then Inl (JsError (''failed to generate random padding of size '' @ decimal paddingSize))
         else
           let envelope1 = envelope @ pad in
           (case sigPrivKey of
              None \<Rightarrow> Inr envelope1
            | Some key \<Rightarrow>
                (let envelope2 = envelope1[0 := (envelope1 ! 0) OR IsSignedMask] in
                 bindE (cr_sign_concat cr (cr_keccak256 cr envelope2) key)
                   (\<lambda>bytesSignature. Inr (envelope2 @ bytesSignature)))))"

record post_signature =
  ps_signature :: bytes
  ps_publicKey :: bytes

definition postCipher :: "crypto \<Rightarrow> bytes \<Rightarrow> js_error + (bytes \<times> post_signature option) option" where
  "postCipher cr message =
     bindE (getSizeOfPayloadSizeField message)
       (\<lambda>sizeOfPayloadSizeField.
          if sizeOfPayloadSizeField = 0 then Inr None
          else bindE (getPayloadSize message sizeOfPayloadSizeField)
            (\<lambda>payloadSize.
               let payloadStart = int (1 + sizeOfPayloadSizeField);
                   payload = js_slice payloadStart (payloadStart + payloadSize) message;
                   isSigned = isMessageSigned message
               in if isSigned
                  then (let signature = getSignature message; msgHash = getHash cr message isSigned in
                        bindE (ecRecoverPubKey cr msgHash signature)
                          (\<lambda>publicKey. Inr (Some (payload, Some \<lparr>ps_signature = signature, ps_publicKey = publicKey\<rparr>))))
                  else Inr (Some (payload, None))))"

section \<open>crypto/ecies.ts\<close>

function kdf_loop :: "crypto \<Rightarrow> bytes \<Rightarrow> nat \<Rightarrow> nat \<Rightarrow> nat \<Rightarrow> bytes \<Rightarrow> bytes" where
  "kdf_loop cr secret outputLength ctr written result =
     (if written < outputLength
      then kdf_loop cr secret outputLength (ctr + 1) (written + 32)
             (result @ cr_sha256 cr (be_bytes 4 ctr @ secret))
      else result)"
  by pat_completeness auto
termination
  by (relation "measure (\<lambda>(cr, secret, outputLength, ctr, written, result). outputLength - written)") auto

declare kdf_loop.simps [simp del]

definition kdf :: "crypto \<Rightarrow> bytes \<Rightarrow> nat \<Rightarrow> bytes" where
  "kdf cr secret outputLength = kdf_loop cr secret outputLength 1 0 []"

definition derive :: "crypto \<Rightarrow> bytes \<Rightarrow> bytes \<Rightarrow> js_error + bytes" where
  "derive cr privateKeyA publicKeyB =
     (if length privateKeyA \<noteq> 32
      then Inl (JsError (''Bad private key, it should be 32 bytes but it's actually ''
             @ decimal (length privateKeyA) @ '' bytes long''))
      else if length publicKeyB \<noteq> 65
      then Inl (JsError (''Bad public key, it should be 65 bytes but it's actually ''
             @ decimal (length publicKeyB) @ '' bytes long''))
      else if publicKeyB ! 0 \<noteq> 4
      then Inl (JsError ''Bad public key, a valid public key would begin with 4'')
      else bindE (cr_getSharedSecret cr privateKeyA publicKeyB) (\<lambda>px. Inr (drop 1 px)))"

definition ecies_encrypt :: "crypto \<Rightarrow> bytes \<Rightarrow> bytes \<Rightarrow> bytes \<Rightarrow> bytes \<Rightarrow> js_error + bytes" where
  "ecies_encrypt cr ephemPrivateKey iv publicKeyTo msg =
     bindE (derive cr ephemPrivateKey publicKeyTo)
       (\<lambda>sharedPx.
          let hash = kdf cr sharedPx 32; encryptionKey = slice 0 16 hash in
          bindE (cr_ctr_encrypt cr iv encryptionKey msg)
            (\<lambda>cipherText.
               let ivCipherText = iv @ cipherText;
                   macKey = cr_sha256 cr (drop 16 hash);
                   hmac = cr_hmac cr macKey ivCipherText;
                   ephemPublicKey = cr_getPublicKey cr ephemPrivateKey
               in Inr (ephemPublicKey @ ivCipherText @ hmac)))"

definition metaLength :: nat where
  "metaLength = 1 + 64 + 16 + 32"

definition ecies_decrypt :: "crypto \<Rightarrow> bytes \<Rightarrow> bytes \<Rightarrow> js_error + bytes" where
  "ecies_decrypt cr privateKey encrypted =
     (if length encrypted \<le> metaLength
      then Inl (JsError (''Invalid Ciphertext. Data is too small. It should ba at least ''
             @ decimal metaLength @ '' bytes''))
      else if encrypted ! 0 \<noteq> 4
      then Inl (JsError (''Not a valid ciphertext. It should begin with 4 but actually begin with ''
             @ decimal (unat (encrypted ! 0))))
      else
        let ephemPublicKey = slice 0 65 encrypted;
            cipherTextLength = length encrypted - metaLength;
            iv = slice 65 (65 + 16) encrypted;
            cipherAndIv = slice 65 (65 + 16 + cipherTextLength) encrypted;
            ciphertext = drop 16 cipherAndIv;
            msgMac = drop (65 + 16 + cipherTextLength) encrypted
        in bindE (derive cr privateKey ephemPublicKey)
             (\<lambda>px.
                let hash = kdf cr px 32;
                    encryptionKey = slice 0 16 hash;
                    macKey = cr_sha256 cr (drop 16 hash)
                in if \<not> cr_hmac_verify cr macKey cipherAndIv msgMac
                   then Inl (JsError ''Incorrect MAC'')
                   else cr_ctr_decrypt cr iv encryptionKey ciphertext))"

section \<open>encryption.ts: asymmetric and symmetric payloads\<close>

text \<open>Keys given as hexadecimal strings are converted by \<open>hexToBytes\<close> before; here they are bytes.\<close>

definition encryptAsymmetric :: "crypto \<Rightarrow> bytes \<Rightarrow> bytes \<Rightarrow> bytes \<Rightarrow> bytes \<Rightarrow> js_error + bytes" where
  "encryptAsymmetric cr ephemPrivateKey iv clear publicKey = ecies_encrypt cr ephemPrivateKey iv publicKey clear"

definition decryptAsymmetric :: "crypto \<Rightarrow> bytes \<Rightarrow> bytes \<Rightarrow> js_error + bytes" where
  "decryptAsymmetric cr payload privKey = ecies_decrypt cr privKey payload"

definition ivSize :: nat where "ivSize = 12"

definition encryptSymmetric :: "crypto \<Rightarrow> bytes \<Rightarrow> bytes \<Rightarrow> bytes \<Rightarrow> js_error + bytes" where
  "encryptSymmetric cr iv clear key =
     bindE (cr_gcm_encrypt cr iv key clear) (\<lambda>cipher. Inr (cipher @ iv))"

definition decryptSymmetric :: "crypto \<Rightarrow> bytes \<Rightarrow> bytes \<Rightarrow> js_error + bytes" where
  "decryptSymmetric cr payload key =
     (let ivStart = int (length payload) - int ivSize;
          cipher = js_slice 0 ivStart payload;
          iv = js_slice_from ivStart payload
      in cr_gcm_decrypt cr iv key cipher)"

section \<open>decoded\_message.ts, ecies.ts, symmetric.ts\<close>

record encrypted_message =
  em_pubsubTopic :: string
  em_proto :: proto_message
  em_payload :: bytes
  em_signature :: "bytes option"
  em_signaturePublicKey :: "bytes option"

definition verifySignature :: "encrypted_message \<Rightarrow> bytes \<Rightarrow> bool" where
  "verifySignature m publicKey = (case em_signaturePublicKey m of Some k \<Rightarrow> k = publicKey | None \<Rightarrow> False)"

record enc_encoder =
  ee_contentTopic :: string
  ee_pubsubTopic :: string
  ee_key :: bytes
  ee_sigPrivKey :: "bytes option"
  ee_ephemeral :: bool
  ee_metaSetter :: "(proto_message \<Rightarrow> bytes) option"

definition enc_createEncoder ::
  "string \<Rightarrow> string \<Rightarrow> bytes \<Rightarrow> bytes option \<Rightarrow> bool option \<Rightarrow> (proto_message \<Rightarrow> bytes) option \<Rightarrow> js_error + enc_encoder" where
  "enc_createEncoder contentTopic pubsub key sigPrivKey ephemeral metaSetter =
     (if contentTopic = [] then Inl (JsError ''Content topic must be specified'')
      else Inr \<lparr>ee_contentTopic = contentTopic, ee_pubsubTopic = pubsub, ee_key = key, ee_sigPrivKey = sigPrivKey,
                ee_ephemeral = (case ephemeral of None \<Rightarrow> False | Some b \<Rightarrow> b), ee_metaSetter = metaSetter\<rparr>)"

definition enc_proto :: "enc_encoder \<Rightarrow> int \<Rightarrow> imessage \<Rightarrow> bytes \<Rightarrow> proto_message" where
  "enc_proto en now message payload =
     (let timestamp = (case im_timestamp message of None \<Rightarrow> now | Some t \<Rightarrow> t);
          protoMessage = \<lparr>pm_payload = payload, pm_contentTopic = ee_contentTopic en, pm_version = Some 1,
             pm_timestamp = Some (timestamp * 1000000), pm_meta = None,
             pm_rateLimitProof = im_rateLimitProof message, pm_ephemeral = Some (ee_ephemeral en)\<rparr>
      in case ee_metaSetter en of
           None \<Rightarrow> protoMessage
         | Some metaSetter \<Rightarrow> protoMessage\<lparr>pm_meta := Some (metaSetter protoMessage)\<rparr>)"

definition ecies_toProtoObj ::
  "crypto \<Rightarrow> (nat \<Rightarrow> bytes) \<Rightarrow> bytes \<Rightarrow> bytes \<Rightarrow> enc_encoder \<Rightarrow> int \<Rightarrow> imessage \<Rightarrow> js_error + proto_message" where
  "ecies_toProtoObj cr randomBytes ephemPrivateKey iv en now message =
     bindE (preCipher cr randomBytes (im_payload message) (ee_sigPrivKey en))
       (\<lambda>preparedPayload. bindE (encryptAsymmetric cr ephemPrivateKey iv preparedPayload (ee_key en))
          (\<lambda>payload. Inr (enc_proto en now message payload)))"

definition symmetric_toProtoObj ::
  "crypto \<Rightarrow> (nat \<Rightarrow> bytes) \<Rightarrow> bytes \<Rightarrow> enc_encoder \<Rightarrow> int \<Rightarrow> imessage \<Rightarrow> js_error + proto_message" where
  "symmetric_toProtoObj cr randomBytes iv en now message =
     bindE (preCipher cr randomBytes (im_payload message) (ee_sigPrivKey en))
       (\<lambda>preparedPayload. bindE (encryptSymmetric cr iv preparedPayload (ee_key en))
          (\<lambda>payload. Inr (enc_proto en now message payload)))"

definition decoded_envelope ::
  "crypto \<Rightarrow> string \<Rightarrow> proto_message \<Rightarrow> bytes \<Rightarrow> js_error + encrypted_message option" where
  "decoded_envelope cr pubsub protoMessage payload =
     bindE (postCipher cr payload)
       (\<lambda>res. case res of
          None \<Rightarrow> Inr None
        | Some (decoded, sig) \<Rightarrow>
            Inr (Some \<lparr>em_pubsubTopic = pubsub, em_proto = protoMessage, em_payload = decoded,
              em_signature = map_option ps_signature sig, em_signaturePublicKey = map_option ps_publicKey sig\<rparr>))"

text \<open>Only the decryption is inside the \<open>try\<close>: what \<open>postCipher\<close> throws leaves the decoder.\<close>

definition ecies_fromProtoObj :: "crypto \<Rightarrow> bytes \<Rightarrow> string \<Rightarrow> proto_message \<Rightarrow> js_error + encrypted_message option" where
  "ecies_fromProtoObj cr privateKey pubsub protoMessage =
     (if pm_version protoMessage \<noteq> Some 1 then Inr None
      else (case decryptAsymmetric cr (pm_payload protoMessage) privateKey of
              Inl e \<Rightarrow> Inr None
            | Inr payload \<Rightarrow> decoded_envelope cr pubsub protoMessage payload))"

definition symmetric_fromProtoObj :: "crypto \<Rightarrow> bytes \<Rightarrow> string \<Rightarrow> proto_message \<Rightarrow> js_error + encrypted_message option" where
  "symmetric_fromProtoObj cr symKey pubsub protoMessage =
     (if pm_version protoMessage \<noteq> Some 1 then Inr None
      else (case decryptSymmetric cr (pm_payload protoMessage) symKey of
              Inl e \<Rightarrow> Inr None
            | Inr payload \<Rightarrow> decoded_envelope cr pubsub protoMessage payload))"

section \<open>What is relied on of the primitives\<close>

text \<open>
  The documented behaviour of the libraries, for the private keys \<open>keys\<close> they accept: lengths, the
  agreement of the two Diffie-Hellman secrets, recovery of the signer's key, and decryption of what was
  encrypted under the same key and initialisation vector.
\<close>

definition crypto_ok :: "crypto \<Rightarrow> bytes set \<Rightarrow> bool" where
  "crypto_ok cr keys \<longleftrightarrow>
     (\<forall>b. length (cr_sha256 cr b) = 32)
   \<and> (\<forall>k\<in>keys. length k = 32 \<and> length (cr_getPublicKey cr k) = 65 \<and> cr_getPublicKey cr k ! 0 = 4)
   \<and> (\<forall>a\<in>keys. \<forall>b\<in>keys. \<exists>s. cr_getSharedSecret cr a (cr_getPublicKey cr b) = Inr s
          \<and> cr_getSharedSecret cr b (cr_getPublicKey cr a) = Inr s)
   \<and> (\<forall>k\<in>keys. \<forall>h. \<exists>s r. cr_sign cr h k = Inr (s, r) \<and> length s = 64
          \<and> cr_recoverPublicKey cr h s r = Inr (cr_getPublicKey cr k))
   \<and> (\<forall>iv k m. \<exists>c. length iv = 16 \<longrightarrow> length k = 16 \<longrightarrow> cr_ctr_encrypt cr iv k m = Inr c \<and> length c = length m
          \<and> cr_ctr_decrypt cr iv k c = Inr m)
   \<and> (\<forall>k m. length (cr_hmac cr k m) = 32 \<and> cr_hmac_verify cr k m (cr_hmac cr k m))
   \<and> (\<forall>iv k m. \<exists>c. length iv = 12 \<longrightarrow> length k = 32 \<longrightarrow> cr_gcm_encrypt cr iv k m = Inr c
          \<and> cr_gcm_decrypt cr iv k c = Inr m)"

section \<open>The envelope round trip\<close>

lemma size_field_bound:
  "0 < computeSizeOfPayloadSizeField n" "n < 256 ^ computeSizeOfPayloadSizeField n"
proof -
  have "0 < computeSizeOfPayloadSizeField n \<and> n < 256 ^ computeSizeOfPayloadSizeField n"
  proof (induction n rule: computeSizeOfPayloadSizeField.induct)
    case (1 i)
    show ?case
    proof (cases "256 \<le> i")
      case True
      with 1 have "i div 256 < 256 ^ computeSizeOfPayloadSizeField (i div 256)" by simp
      then have "i < 256 * 256 ^ computeSizeOfPayloadSizeField (i div 256)" by (simp add: div_less_iff_less_mult mult.commute)
      with True show ?thesis by (simp add: computeSizeOfPayloadSizeField.simps[of i])
    qed (simp add: computeSizeOfPayloadSizeField.simps[of i])
  qed
  then show "0 < computeSizeOfPayloadSizeField n" "n < 256 ^ computeSizeOfPayloadSizeField n" by simp_all
qed

lemma size_field_le: "0 < k \<Longrightarrow> n < 256 ^ k \<Longrightarrow> computeSizeOfPayloadSizeField n \<le> k"
proof (induction k arbitrary: n)
  case (Suc k)
  show ?case
  proof (cases "256 \<le> n")
    case True
    with Suc.prems have "n div 256 < 256 ^ k" by (simp add: div_less_iff_less_mult mult.commute)
    moreover have "0 < k" using True Suc.prems by (cases k) auto
    ultimately show ?thesis using Suc.IH[of "n div 256"] True by (simp add: computeSizeOfPayloadSizeField.simps[of n])
  qed (simp add: computeSizeOfPayloadSizeField.simps[of n])
qed simp

lemma size_field_ge:
  assumes "256 ^ k \<le> n"
  shows "k < computeSizeOfPayloadSizeField n"
proof (rule ccontr)
  assume "\<not> k < computeSizeOfPayloadSizeField n"
  then have "(256::nat) ^ computeSizeOfPayloadSizeField n \<le> 256 ^ k" by (intro power_increasing) auto
  with size_field_bound(2)[of n] assms show False by simp
qed

lemma be_bytes_small: "v < 256 ^ w \<Longrightarrow> w \<le> n \<Longrightarrow> be_bytes n v = replicate (n - w) 0 @ be_bytes w v"
proof (induction n arbitrary: w v)
  case (Suc n)
  show ?case
  proof (cases w)
    case 0
    then have "v = 0" using Suc.prems by simp
    moreover have "be_bytes m 0 = replicate m 0" for m by (induction m) (simp_all add: replicate_append_same)
    ultimately show ?thesis using 0 by simp
  next
    case (Suc w')
    then have "v div 256 < 256 ^ w'" using Suc.prems \<open>w = Suc w'\<close> by (simp add: div_less_iff_less_mult mult.commute)
    with Suc.IH[of "v div 256" w'] Suc.prems Suc show ?thesis by simp
  qed
qed simp

text \<open>The field holds the length in as few bytes as it needs, least significant byte first.\<close>

lemma payload_size_field:
  assumes "n < 256 ^ k" and "k \<le> 3"
  shows "take k (le_bytes 4 n) @ replicate (4 - k) 0 = le_bytes 4 n"
proof -
  have "be_bytes 4 n = replicate (4 - k) 0 @ be_bytes k n" using assms by (intro be_bytes_small) auto
  then show ?thesis by (simp add: le_bytes_def)
qed

lemma le_int32_bytes: "n < 2 ^ 31 \<Longrightarrow> le_int32 (le_bytes 4 n) = int n"
  by (simp add: le_int32_def le_bytes_def)

definition envelope :: "bytes \<Rightarrow> bytes \<Rightarrow> bool \<Rightarrow> bytes" where
  "envelope payload pad isSigned =
     (let k = computeSizeOfPayloadSizeField (length payload)
      in (of_nat k OR (if isSigned then IsSignedMask else 0)) # take k (le_bytes 4 (length payload)) @ payload @ pad)"

lemma preCipher_envelope:
  "preCipher cr randomBytes payload key =
    (let pad = randomBytes (padding_size payload key) in
     if \<not> validateDataIntegrity pad (padding_size payload key)
     then Inl (JsError (''failed to generate random padding of size '' @ decimal (padding_size payload key)))
     else (case key of None \<Rightarrow> Inr (envelope payload pad False)
           | Some sk \<Rightarrow> bindE (cr_sign_concat cr (cr_keccak256 cr (envelope payload pad True)) sk)
               (\<lambda>s. Inr (envelope payload pad True @ s))))"
  by (auto simp: preCipher_def addPayloadSizeField_def envelope_def Let_def split: option.splits)

lemma postCipher_envelope:
  assumes "length payload < 2 ^ 24"
  shows "postCipher cr (envelope payload pad isSigned @ rest) =
    (if isSigned
     then bindE (ecRecoverPubKey cr (getHash cr (envelope payload pad isSigned @ rest) True) (getSignature (envelope payload pad isSigned @ rest)))
        (\<lambda>pk. Inr (Some (payload, Some \<lparr>ps_signature = getSignature (envelope payload pad isSigned @ rest), ps_publicKey = pk\<rparr>)))
     else Inr (Some (payload, None)))"
proof -
  let ?k = "computeSizeOfPayloadSizeField (length payload)"
  have k: "0 < ?k" "?k \<le> 3" using size_field_bound(1) size_field_le[of 3 "length payload"] assms by simp_all
  then have k_cases: "?k = 1 \<or> ?k = 2 \<or> ?k = 3" by linarith
  let ?f = "of_nat ?k OR (if isSigned then IsSignedMask else 0) :: byte"
  have f: "unat (?f AND FlagMask) = ?k" "(?f AND IsSignedMask = IsSignedMask) = isSigned"
    using k_cases by (auto simp: FlagMask_def IsSignedMask_def)
  let ?msg = "envelope payload pad isSigned @ rest"
  have msg: "?msg = ?f # take ?k (le_bytes 4 (length payload)) @ payload @ pad @ rest"
    by (simp add: envelope_def Let_def)
  have len: "length (take ?k (le_bytes 4 (length payload))) = ?k" using k by (simp add: le_bytes_def)
  have "getPayloadSize ?msg ?k = Inr (int (length payload))"
  proof -
    have "slice 1 (1 + ?k) ?msg = take ?k (le_bytes 4 (length payload))"
      unfolding msg slice_def using len by (metis add_diff_cancel_left' append_eq_conv_conj drop_Suc_Cons drop0 One_nat_def)
    moreover have "bytes_concat [take ?k (le_bytes 4 (length payload)), replicate (4 - ?k) 0] (Some 4) = Inr (le_bytes 4 (length payload))"
    proof -
      have "sum_list (map length [take ?k (le_bytes 4 (length payload)), replicate (4 - ?k) (0 :: byte)]) = 4"
        using len k by simp
      then have "bytes_concat [take ?k (le_bytes 4 (length payload)), replicate (4 - ?k) 0] (Some 4)
          = bytes_concat [take ?k (le_bytes 4 (length payload)), replicate (4 - ?k) 0] None"
        by (simp add: bytes_concat_def)
      then show ?thesis using payload_size_field[of "length payload" ?k] size_field_bound(2)[of "length payload"] k
        by (simp add: bytes_concat_None)
    qed
    ultimately show ?thesis using k assms by (simp add: getPayloadSize_def le_int32_bytes) (simp add: le_bytes_def)
  qed
  moreover have "js_slice (int (1 + ?k)) (int (1 + ?k) + int (length payload)) ?msg = payload"
    unfolding msg using len by (simp add: js_slice_def slice_def nat_add_distrib)
  moreover have "getSizeOfPayloadSizeField ?msg = Inr ?k" unfolding msg using f(1) by (simp add: getSizeOfPayloadSizeField_def)
  moreover have "isMessageSigned ?msg = isSigned" unfolding msg using f(2) by (simp add: isMessageSigned_def)
  ultimately show ?thesis using k by (cases isSigned) (simp_all add: postCipher_def Let_def)
qed

lemma length_envelope:
  assumes "length payload < 2 ^ 24"
  shows "length (envelope payload pad b) = 1 + computeSizeOfPayloadSizeField (length payload) + length payload + length pad"
proof -
  have "computeSizeOfPayloadSizeField (length payload) \<le> 3" using size_field_le[of 3 "length payload"] assms by simp
  then show ?thesis by (simp add: envelope_def Let_def le_bytes_def)
qed

lemma padded_length:
  assumes "length payload < 2 ^ 24" and "length pad = padding_size payload key"
  shows "256 dvd length (envelope payload pad b) + (if key = None then 0 else SignatureLength)"
proof -
  let ?r = "FlagsLength + computeSizeOfPayloadSizeField (length payload) + length payload + (if key = None then 0 else SignatureLength)"
  have "length (envelope payload pad b) + (if key = None then 0 else SignatureLength) = ?r + (256 - ?r mod 256)"
    using assms by (simp add: length_envelope padding_size_def PaddingTarget_def FlagsLength_def)
  moreover have "256 dvd n + (256 - n mod 256)" for n :: nat
  proof -
    have "256 * q + r + (256 - r) = 256 * (q + 1)" if "r < 256" for q r :: nat using that by simp
    from this[of "n mod 256" "n div 256"] show ?thesis by (metis dvd_triv_left mod_less_divisor mult_div_mod_eq zero_less_numeral)
  qed
  ultimately show ?thesis by metis
qed

lemma getSignature_append: "length s = 65 \<Longrightarrow> getSignature (xs @ s) = s"
  by (simp add: getSignature_def SignatureLength_def js_slice_def slice_def)

lemma getHash_append: "length s = 65 \<Longrightarrow> getHash cr (xs @ s) True = cr_keccak256 cr xs"
  by (simp add: getHash_def SignatureLength_def js_slice_def slice_def)

lemma signature_recovered:
  assumes "crypto_ok cr keys" and "sk \<in> keys"
  shows "\<exists>s. cr_sign_concat cr h sk = Inr s \<and> length s = 65 \<and> ecRecoverPubKey cr h s = Inr (cr_getPublicKey cr sk)"
proof -
  from assms obtain s r where s: "cr_sign cr h sk = Inr (s, r)" "length s = 64"
    "cr_recoverPublicKey cr h s r = Inr (cr_getPublicKey cr sk)"
    unfolding crypto_ok_def by blast
  have "bytes_concat [s, [r]] (Some (length s + 1)) = bytes_concat [s, [r]] None" by (simp add: bytes_concat_def)
  with s show ?thesis by (simp add: cr_sign_concat_def bytes_concat_None ecRecoverPubKey_def)
qed

lemma envelope_round:
  assumes "crypto_ok cr keys" and "length payload < 2 ^ 24" and "key = None \<or> (\<exists>sk\<in>keys. key = Some sk)"
    and "validateDataIntegrity (randomBytes (padding_size payload key)) (padding_size payload key)"
  shows "\<exists>env sig. preCipher cr randomBytes payload key = Inr env \<and> 256 dvd length env \<and> env \<noteq> []
    \<and> postCipher cr env = Inr (Some (payload, sig))
    \<and> map_option ps_publicKey sig = map_option (cr_getPublicKey cr) key"
proof -
  let ?pad = "randomBytes (padding_size payload key)"
  have pad: "length ?pad = padding_size payload key" using assms(4) by (simp add: validateDataIntegrity_def)
  show ?thesis
  proof (cases key)
    case None
    with assms(2,4) padded_length[OF assms(2) pad, of False] postCipher_envelope[OF assms(2), of cr ?pad False "[]"] show ?thesis
      by (simp add: preCipher_envelope envelope_def Let_def)
  next
    case (Some sk)
    with assms(3) have "sk \<in> keys" by auto
    from signature_recovered[OF assms(1) this, of "cr_keccak256 cr (envelope payload ?pad True)"]
    obtain s where s: "cr_sign_concat cr (cr_keccak256 cr (envelope payload ?pad True)) sk = Inr s" "length s = 65"
      "ecRecoverPubKey cr (cr_keccak256 cr (envelope payload ?pad True)) s = Inr (cr_getPublicKey cr sk)" by blast
    have "256 dvd length (envelope payload ?pad True @ s)"
      using padded_length[OF assms(2) pad, of True] Some s(2) by (simp add: SignatureLength_def)
    moreover have "postCipher cr (envelope payload ?pad True @ s)
        = Inr (Some (payload, Some \<lparr>ps_signature = s, ps_publicKey = cr_getPublicKey cr sk\<rparr>))"
      using postCipher_envelope[OF assms(2), of cr ?pad True s] s by (simp add: getSignature_append getHash_append)
    moreover have "preCipher cr randomBytes payload key = Inr (envelope payload ?pad True @ s)"
      using Some assms(4) s(1) by (simp add: preCipher_envelope Let_def)
    ultimately show ?thesis using Some by (auto simp: envelope_def Let_def)
  qed
qed

section \<open>ECIES and the symmetric cipher\<close>

lemma kdf_32: "kdf cr secret 32 = cr_sha256 cr (be_bytes 4 1 @ secret)"
  by (simp add: kdf_def kdf_loop.simps)

lemma derive_agrees:
  assumes "crypto_ok cr keys" and "a \<in> keys" and "b \<in> keys"
  shows "\<exists>px. derive cr a (cr_getPublicKey cr b) = Inr px \<and> derive cr b (cr_getPublicKey cr a) = Inr px"
proof -
  from assms obtain s where "cr_getSharedSecret cr a (cr_getPublicKey cr b) = Inr s"
    "cr_getSharedSecret cr b (cr_getPublicKey cr a) = Inr s"
    unfolding crypto_ok_def by blast
  moreover have "length k = 32 \<and> length (cr_getPublicKey cr k) = 65 \<and> cr_getPublicKey cr k ! 0 = 4" if "k \<in> keys" for k
    using assms(1) that unfolding crypto_ok_def by blast
  ultimately show ?thesis using assms(2,3) by (simp add: derive_def)
qed

lemma ecies_round:
  assumes "crypto_ok cr keys" and "ephem \<in> keys" and "sk \<in> keys" and "length iv = 16" and "msg \<noteq> []"
  shows "\<exists>enc. ecies_encrypt cr ephem iv (cr_getPublicKey cr sk) msg = Inr enc \<and> ecies_decrypt cr sk enc = Inr msg"
proof -
  from derive_agrees[OF assms(1-3)] obtain px where px: "derive cr ephem (cr_getPublicKey cr sk) = Inr px"
    "derive cr sk (cr_getPublicKey cr ephem) = Inr px" by blast
  let ?hash = "kdf cr px 32" and ?pub = "cr_getPublicKey cr ephem"
  have "length ?hash = 32" using assms(1) by (simp add: kdf_32 crypto_ok_def)
  then have k: "length (slice 0 16 ?hash) = 16" by (simp add: slice_def)
  from assms(1) have "\<forall>iv k m. \<exists>c. length iv = 16 \<longrightarrow> length k = 16 \<longrightarrow> cr_ctr_encrypt cr iv k m = Inr c \<and> length c = length m
          \<and> cr_ctr_decrypt cr iv k c = Inr m" unfolding crypto_ok_def by blast
  with k assms(4) obtain c where c: "cr_ctr_encrypt cr iv (slice 0 16 ?hash) msg = Inr c" "length c = length msg"
    "cr_ctr_decrypt cr iv (slice 0 16 ?hash) c = Inr msg" by metis
  let ?mac = "cr_sha256 cr (drop 16 ?hash)"
  have h: "length (cr_hmac cr ?mac (iv @ c)) = 32" "cr_hmac_verify cr ?mac (iv @ c) (cr_hmac cr ?mac (iv @ c))"
    using assms(1) by (simp_all add: crypto_ok_def)
  have pub: "length ?pub = 65" "?pub ! 0 = 4" using assms(1,2) by (auto simp: crypto_ok_def)
  let ?enc = "?pub @ iv @ c @ cr_hmac cr ?mac (iv @ c)"
  have e: "ecies_encrypt cr ephem iv (cr_getPublicKey cr sk) msg = Inr ?enc"
    using px(1) c(1) by (simp add: ecies_encrypt_def Let_def)
  have len: "length ?enc - metaLength = length c" "metaLength < length ?enc"
    using pub h(1) assms(4,5) c(2) by (auto simp: metaLength_def)
  have s: "slice 0 65 ?enc = ?pub" "slice 65 (65 + 16) ?enc = iv" "slice 65 (65 + 16 + length c) ?enc = iv @ c"
    "drop (65 + 16 + length c) ?enc = cr_hmac cr ?mac (iv @ c)" "?enc ! 0 = 4"
    using pub assms(4) by (simp_all add: slice_def nth_append)
  have "ecies_decrypt cr sk ?enc = Inr msg"
    unfolding ecies_decrypt_def Let_def len(1) s using len(2) px(2) h(2) c(3) assms(4) by simp
  with e show ?thesis by blast
qed

lemma symmetric_round:
  assumes "crypto_ok cr keys" and "length iv = 12" and "length key = 32"
  shows "\<exists>enc. encryptSymmetric cr iv msg key = Inr enc \<and> decryptSymmetric cr enc key = Inr msg"
proof -
  from assms(1) have "\<forall>iv k m. \<exists>c. length iv = 12 \<longrightarrow> length k = 32 \<longrightarrow> cr_gcm_encrypt cr iv k m = Inr c
          \<and> cr_gcm_decrypt cr iv k c = Inr m" unfolding crypto_ok_def by blast
  with assms(2,3) obtain c where c: "cr_gcm_encrypt cr iv key msg = Inr c" "cr_gcm_decrypt cr iv key c = Inr msg" by metis
  have "js_slice 0 (int (length (c @ iv)) - int ivSize) (c @ iv) = c"
    "js_slice_from (int (length (c @ iv)) - int ivSize) (c @ iv) = iv"
    using assms(2) by (simp_all add: js_slice_def slice_def js_slice_from_def ivSize_def)
  with c show ?thesis by (simp add: encryptSymmetric_def decryptSymmetric_def Let_def)
qed

section \<open>Properties\<close>

text \<open>A crypto library that satisfies the laws, for the concrete examples: it hides nothing.\<close>

definition plain_crypto :: crypto where
  "plain_crypto = \<lparr>cr_sha256 = (\<lambda>b. replicate 32 0), cr_keccak256 = (\<lambda>b. replicate 32 0),
     cr_getPublicKey = (\<lambda>k. 4 # replicate 32 0 @ k), cr_getSharedSecret = (\<lambda>a p. Inr (replicate 33 0)),
     cr_sign = (\<lambda>h k. Inr (k @ replicate 32 0, 0)),
     cr_recoverPublicKey = (\<lambda>h s r. if r = 0 then Inr (4 # replicate 32 0 @ take 32 s) else Inl (JsError ''invalid'')),
     cr_ctr_encrypt = (\<lambda>iv k m. Inr m), cr_ctr_decrypt = (\<lambda>iv k m. Inr m),
     cr_hmac = (\<lambda>k m. replicate 32 0), cr_hmac_verify = (\<lambda>k m s. s = replicate 32 0),
     cr_gcm_encrypt = (\<lambda>iv k m. Inr m), cr_gcm_decrypt = (\<lambda>iv k m. Inr m)\<rparr>"

lemma plain_crypto_ok: "crypto_ok plain_crypto {replicate 32 1}"
  by (auto simp: crypto_ok_def plain_crypto_def)

lemma plain_padding: "validateDataIntegrity (replicate n 1) n"
  by (cases n) (auto simp: validateDataIntegrity_def)

text \<open>A payload below 16 MiB survives the envelope, whether it is signed or not: it is padded to a multiple
  of 256 bytes, comes back whole, and the key recovered from the signature is the signer's.\<close>

theorem envelope_roundtrip:
  assumes "crypto_ok cr keys" and "length payload < 2 ^ 24" and "key = None \<or> (\<exists>sk\<in>keys. key = Some sk)"
    and "validateDataIntegrity (randomBytes (padding_size payload key)) (padding_size payload key)"
  shows "\<exists>env sig. preCipher cr randomBytes payload key = Inr env \<and> 256 dvd length env
    \<and> postCipher cr env = Inr (Some (payload, sig))
    \<and> map_option ps_publicKey sig = map_option (cr_getPublicKey cr) key"
  using envelope_round[OF assms(1-3), of randomBytes] assms(4) by blast

theorem envelope_roundtrip_witness:
  "\<exists>env sig. preCipher plain_crypto (\<lambda>n. replicate n 1) [5, 6] (Some (replicate 32 1)) = Inr env \<and> 256 dvd length env
    \<and> postCipher plain_crypto env = Inr (Some ([5, 6], sig))
    \<and> map_option ps_publicKey sig = Some (4 # replicate 32 0 @ replicate 32 1)"
proof -
  have "length [5, 6 :: byte] < 2 ^ 24" by simp
  from envelope_roundtrip[OF plain_crypto_ok this, of "Some (replicate 32 1)" "\<lambda>n. replicate n 1"] plain_padding
  show ?thesis by (simp add: plain_crypto_def)
qed

text \<open>C9: What an encoder encrypts, the decoder with the matching key decrypts: the payload arrives, and the
  signature verifies exactly against the public key of the signer, for ECIES and for the symmetric cipher.\<close>

theorem encrypted_message_roundtrip:
  assumes "crypto_ok cr keys" and "length (im_payload m) < 2 ^ 24"
    and "ee_sigPrivKey en = None \<or> (\<exists>sk\<in>keys. ee_sigPrivKey en = Some sk)"
    and "\<And>n. validateDataIntegrity (randomBytes n) n"
    and "ephem \<in> keys" and "sk \<in> keys" and "length iv16 = 16" and "length iv12 = 12" and "length symKey = 32"
  shows "(\<exists>p d. ecies_toProtoObj cr randomBytes ephem iv16 (en\<lparr>ee_key := cr_getPublicKey cr sk\<rparr>) now m = Inr p
      \<and> ecies_fromProtoObj cr sk topic p = Inr (Some d) \<and> em_payload d = im_payload m \<and> em_pubsubTopic d = topic
      \<and> (\<forall>pk. verifySignature d pk \<longleftrightarrow> (\<exists>s. ee_sigPrivKey en = Some s \<and> pk = cr_getPublicKey cr s)))
    \<and> (\<exists>p d. symmetric_toProtoObj cr randomBytes iv12 (en\<lparr>ee_key := symKey\<rparr>) now m = Inr p
      \<and> symmetric_fromProtoObj cr symKey topic p = Inr (Some d) \<and> em_payload d = im_payload m \<and> em_pubsubTopic d = topic
      \<and> (\<forall>pk. verifySignature d pk \<longleftrightarrow> (\<exists>s. ee_sigPrivKey en = Some s \<and> pk = cr_getPublicKey cr s)))"
proof -
  obtain env sig where env: "preCipher cr randomBytes (im_payload m) (ee_sigPrivKey en) = Inr env" "env \<noteq> []"
    "postCipher cr env = Inr (Some (im_payload m, sig))" "map_option ps_publicKey sig = map_option (cr_getPublicKey cr) (ee_sigPrivKey en)"
    using envelope_round[OF assms(1-3), of randomBytes] assms(4) by blast
  have p: "pm_payload (enc_proto e now m b) = b" "pm_version (enc_proto e now m b) = Some 1" for e b
    by (simp_all add: enc_proto_def Let_def split: option.splits)
  have d: "\<exists>d. decoded_envelope cr topic pr env = Inr (Some d) \<and> em_payload d = im_payload m \<and> em_pubsubTopic d = topic
      \<and> (\<forall>pk. verifySignature d pk \<longleftrightarrow> (\<exists>s. ee_sigPrivKey en = Some s \<and> pk = cr_getPublicKey cr s))" for pr
    using env(3,4) by (auto simp: decoded_envelope_def verifySignature_def split: option.splits)
  from ecies_round[OF assms(1,5,6,7) env(2)] obtain c where
    "ecies_encrypt cr ephem iv16 (cr_getPublicKey cr sk) env = Inr c" "ecies_decrypt cr sk c = Inr env" by blast
  moreover from symmetric_round[OF assms(1,8,9)] obtain c' where
    "encryptSymmetric cr iv12 env symKey = Inr c'" "decryptSymmetric cr c' symKey = Inr env" by blast
  ultimately show ?thesis using env(1) p d
    by (simp add: ecies_toProtoObj_def symmetric_toProtoObj_def ecies_fromProtoObj_def symmetric_fromProtoObj_def
        encryptAsymmetric_def decryptAsymmetric_def)
qed

theorem encrypted_message_roundtrip_witness:
  "\<exists>p d. symmetric_toProtoObj plain_crypto (\<lambda>n. replicate n 1) (replicate 12 9) \<lparr>ee_contentTopic = ''/a/1/b/c'',
         ee_pubsubTopic = ''t'', ee_key = replicate 32 3, ee_sigPrivKey = Some (replicate 32 1), ee_ephemeral = False,
         ee_metaSetter = None\<rparr> 7 \<lparr>im_payload = [5], im_timestamp = None, im_rateLimitProof = None\<rparr> = Inr p
     \<and> symmetric_fromProtoObj plain_crypto (replicate 32 3) ''t'' p = Inr (Some d) \<and> em_payload d = [5]
     \<and> verifySignature d (4 # replicate 32 0 @ replicate 32 1)"
proof -
  let ?en = "\<lparr>ee_contentTopic = ''/a/1/b/c'', ee_pubsubTopic = ''t'', ee_key = replicate 32 3,
    ee_sigPrivKey = Some (replicate 32 1), ee_ephemeral = False, ee_metaSetter = None\<rparr>"
    and ?m = "\<lparr>im_payload = [5], im_timestamp = None, im_rateLimitProof = None\<rparr>"
  have k: "replicate 32 (1 :: byte) \<in> {replicate 32 1}" by simp
  have l: "length (im_payload ?m) < 2 ^ 24" "ee_sigPrivKey ?en = None \<or> (\<exists>sk\<in>{replicate 32 1}. ee_sigPrivKey ?en = Some sk)"
    by simp_all
  from encrypted_message_roundtrip[OF plain_crypto_ok l plain_padding k k, of "replicate 16 9" "replicate 12 9" "replicate 32 3" 7 "''t''"]
  show ?thesis by (auto simp: plain_crypto_def)
qed

text \<open>The payload length has room for three bytes only. A payload of 16 MiB or more is put into an envelope
  whose flags read as a signature and no length, and which decodes to nothing.\<close>

theorem oversized_payload_lost:
  assumes "2 ^ 24 \<le> length payload" and "length payload < 2 ^ 32"
    and "validateDataIntegrity (randomBytes (padding_size payload None)) (padding_size payload None)"
  shows "\<exists>env. preCipher cr randomBytes payload None = Inr env \<and> isMessageSigned env \<and> postCipher cr env = Inr None"
proof -
  have "computeSizeOfPayloadSizeField (length payload) = 4"
    using size_field_le[of 4 "length payload"] size_field_ge[of 3 "length payload"] assms(1,2) by simp
  then show ?thesis using assms(3)
    by (simp add: preCipher_envelope envelope_def Let_def postCipher_def getSizeOfPayloadSizeField_def FlagMask_def
        isMessageSigned_def IsSignedMask_def)
qed

theorem oversized_payload_lost_witness:
  "\<exists>env. preCipher plain_crypto (\<lambda>n. replicate n 1) (replicate (2 ^ 24) 0) None = Inr env \<and> postCipher plain_crypto env = Inr None"
proof -
  have l: "(2::nat) ^ 24 \<le> length (replicate (2 ^ 24) (0 :: byte))" "length (replicate (2 ^ 24) (0 :: byte)) < 2 ^ 32"
    by (simp_all only: length_replicate) simp_all
  from oversized_payload_lost[OF l, of "\<lambda>n. replicate n 1"] plain_padding show ?thesis by blast
qed

text \<open>A payload that does not decrypt is ignored, but one that decrypts to an envelope with an unrecoverable
  signature makes the decoder throw.\<close>

theorem forged_signature_throws:
  "(ecies_fromProtoObj cr sk topic p = Inl e \<longleftrightarrow>
      pm_version p = Some 1 \<and> (\<exists>env. ecies_decrypt cr sk (pm_payload p) = Inr env \<and> postCipher cr env = Inl e))
   \<and> (symmetric_fromProtoObj cr key topic p = Inl e \<longleftrightarrow>
      pm_version p = Some 1 \<and> (\<exists>env. decryptSymmetric cr (pm_payload p) key = Inr env \<and> postCipher cr env = Inl e))
   \<and> postCipher cr [] = Inl RangeError \<and> postCipher cr [5] = Inl RangeError
   \<and> postCipher cr ([5, 1, 7] @ replicate 64 0 @ [1]) =
        bindE (cr_recoverPublicKey cr (cr_keccak256 cr [5, 1, 7]) (replicate 64 0) 1)
          (\<lambda>pk. Inr (Some ([7], Some \<lparr>ps_signature = replicate 64 0 @ [1], ps_publicKey = pk\<rparr>)))"
proof -
  have d: "decoded_envelope cr topic p env = Inl e \<longleftrightarrow> postCipher cr env = Inl e" for env e
    by (cases "postCipher cr env") (auto simp: decoded_envelope_def split: option.splits)
  have "getPayloadSize [5] 1 = Inr 0" "getPayloadSize ([5, 1, 7] @ replicate 64 0 @ [1]) 1 = Inr 1" by code_simp+
  moreover have "unat (5 AND FlagMask) = 1" "5 AND IsSignedMask = IsSignedMask" by (simp_all add: FlagMask_def IsSignedMask_def)
  moreover have "getSignature ([5, 1, 7] @ replicate 64 0 @ [1]) = replicate 64 0 @ [1]"
    "getHash cr ([5, 1, 7] @ replicate 64 0 @ [1]) True = cr_keccak256 cr [5, 1, 7]"
    by (rule getSignature_append getHash_append, simp)+
  moreover have "getSignature [5] = [5]" by code_simp
  moreover have "js_slice 2 3 ([5, 1, 7 :: byte] @ replicate 64 0 @ [1]) = [7]" by code_simp
  ultimately show ?thesis
    by (auto simp: ecies_fromProtoObj_def symmetric_fromProtoObj_def decryptAsymmetric_def d postCipher_def getSizeOfPayloadSizeField_def
        isMessageSigned_def ecRecoverPubKey_def Let_def split: sum.splits)
qed

end
