(* ===== verification/Store.thy ===== *)
theory Store
  imports Version_0
begin

text \<open>
  The store client: the queries of one range to one peer, page by page
  (\<open>packages/core/src/lib/store/store.ts\<close>, \<open>rpc.ts\<close>), and the queries of applications, which validate
  their decoders, split long time ranges and choose a peer (\<open>packages/sdk/src/store/store.ts\<close>). The
  peer's answers, the dialling of configured peers, the parsing of their addresses and the decoders are
  parameters. A \<open>Date\<close> is its milliseconds, a peer is the string of its id.
\<close>

section \<open>Numbers above 2 to the 53\<close>

text \<open>
  A product of two numbers is rounded to the nearest double, ties to the even one; \<open>BigInt\<close> of the
  double is then exact. The times here are not negative.
\<close>

fun excess_bits :: "nat \<Rightarrow> nat" where
  "excess_bits n = (if n < 2 ^ 53 then 0 else Suc (excess_bits (n div 2)))"

declare excess_bits.simps [simp del]

definition to_double :: "nat \<Rightarrow> nat" where
  "to_double n =
     (let u = 2 ^ excess_bits n; q = n div u; r = n mod u
      in if u < 2 * r \<or> 2 * r = u \<and> odd q then (q + 1) * u else q * u)"

section \<open>rpc.ts\<close>

definition DEFAULT_PAGE_SIZE :: nat where "DEFAULT_PAGE_SIZE = 20"
definition MAX_PAGE_SIZE :: nat where "MAX_PAGE_SIZE = 100"
definition MAX_TIME_RANGE :: int where "MAX_TIME_RANGE = 24 * 60 * 60 * 1000"

text \<open>\<open>QueryRequestParams\<close> as the core gets them, all defaults filled in.\<close>

record query_params =
  q_includeData :: bool
  q_pubsubTopic :: string
  q_contentTopics :: "string list"
  q_timeStart :: "nat option"
  q_timeEnd :: "nat option"
  q_messageHashes :: "bytes list"
  q_paginationCursor :: "bytes option"
  q_paginationForward :: bool
  q_paginationLimit :: "nat option"

record store_request =
  rq_includeData :: bool
  rq_pubsubTopic :: string
  rq_contentTopics :: "string list"
  rq_timeStart :: "nat option"
  rq_timeEnd :: "nat option"
  rq_messageHashes :: "bytes list"
  rq_paginationCursor :: "bytes option"
  rq_paginationForward :: bool
  rq_paginationLimit :: "nat option"

definition nanoseconds :: "nat option \<Rightarrow> nat option" where
  "nanoseconds t = map_option (\<lambda>ms. to_double (ms * 1000000)) t"

text \<open>A limit of zero is falsy and is left out.\<close>

definition request_create :: "query_params \<Rightarrow> js_error + store_request" where
  "request_create params =
     (let isHashQuery = q_messageHashes params \<noteq> [];
          hasContentTopics = q_contentTopics params \<noteq> [];
          hasTimeFilter = (q_timeStart params \<noteq> None \<or> q_timeEnd params \<noteq> None)
      in if isHashQuery \<and> (hasContentTopics \<or> hasTimeFilter)
         then Inl (JsError ''Message hash lookup queries cannot include content filter criteria (contentTopics, timeStart, or timeEnd)'')
         else if \<not> isHashQuery \<and> (q_pubsubTopic params \<noteq> [] \<and> \<not> hasContentTopics \<or> q_pubsubTopic params = [] \<and> hasContentTopics)
         then Inl (JsError ''Both pubsubTopic and contentTopics must be set together for content-filtered queries'')
         else Inr \<lparr>rq_includeData = q_includeData params, rq_pubsubTopic = q_pubsubTopic params,
                   rq_contentTopics = q_contentTopics params, rq_timeStart = nanoseconds (q_timeStart params),
                   rq_timeEnd = nanoseconds (q_timeEnd params), rq_messageHashes = q_messageHashes params,
                   rq_paginationCursor = q_paginationCursor params, rq_paginationForward = q_paginationForward params,
                   rq_paginationLimit = (if q_paginationLimit params = Some 0 then None else q_paginationLimit params)\<rparr>)"

section \<open>core: one query, page by page\<close>

record key_value =
  kv_messageHash :: bytes
  kv_message :: "wire_message option"
  kv_pubsubTopic :: "string option"

record store_response =
  sr_statusCode :: "nat option"
  sr_statusDesc :: string
  sr_messages :: "key_value list"

datatype store_answer = NoStream | AbortError | Failed js_error | Answer store_response

record 'm message_decoder =
  dc_contentTopic :: string
  dc_pubsubTopic :: string
  dc_fromProtoObj :: "string \<Rightarrow> proto_message \<Rightarrow> js_error + 'm option"

text \<open>What a promise of a decoded message settles to.\<close>

type_synonym 'm page = "(js_error + 'm option) list"

definition decode_entry :: "(string \<times> 'm message_decoder) list \<Rightarrow> key_value \<Rightarrow> js_error + 'm option" where
  "decode_entry decoders entry =
     (case kv_message entry of
        None \<Rightarrow> Inr None
      | Some m \<Rightarrow>
          (case truthy (w_contentTopic m) of
             None \<Rightarrow> Inr None
           | Some contentTopic \<Rightarrow>
               (case map_of decoders contentTopic of
                  None \<Rightarrow> Inr None
                | Some dec \<Rightarrow>
                    dc_fromProtoObj dec (case kv_pubsubTopic entry of None \<Rightarrow> [] | Some t \<Rightarrow> t) (toProtoMessage m))))"

text \<open>How a query ends: its generator returns or throws, or it is still going when the fuel is used up.\<close>

datatype ending = Finished | Threw js_error | OutOfFuel

text \<open>
  The loop. \<open>aborted i\<close> is the state of the abort signal at its \<open>i\<close>-th look, two per round; \<open>ask\<close> is what
  comes back for a request (opening the stream included).
\<close>

fun page_loop ::
  "(nat \<Rightarrow> bool) \<Rightarrow> (store_request \<Rightarrow> store_answer) \<Rightarrow> (string \<times> 'm message_decoder) list \<Rightarrow> query_params
     \<Rightarrow> nat \<Rightarrow> nat \<Rightarrow> bytes option \<Rightarrow> 'm page list \<times> ending" where
  "page_loop aborted ask decoders opts i 0 cursor = ([], OutOfFuel)"
| "page_loop aborted ask decoders opts i (Suc fuel) cursor =
     (if aborted i then ([], Finished)
      else (case request_create (opts\<lparr>q_paginationCursor := cursor\<rparr>) of
              Inl e \<Rightarrow> ([], Threw e)
            | Inr request \<Rightarrow>
                (case ask request of
                   NoStream \<Rightarrow> ([], Finished)
                 | AbortError \<Rightarrow> ([], Finished)
                 | Failed e \<Rightarrow> ([], Threw e)
                 | Answer response \<Rightarrow>
                     if (case sr_statusCode response of None \<Rightarrow> True | Some s \<Rightarrow> s = 0 \<or> 300 \<le> s)
                     then ([], Threw (JsError (''Store query failed with status code: '' @
                             (case sr_statusCode response of None \<Rightarrow> ''undefined'' | Some s \<Rightarrow> decimal s) @
                             '', description: '' @ sr_statusDesc response)))
                     else if sr_messages response = [] then ([], Finished)
                     else if aborted (i + 1) then ([], Finished)
                     else
                       let page = map (decode_entry decoders) (sr_messages response);
                           cursor' = (if q_paginationForward opts then Some (kv_messageHash (last (sr_messages response)))
                                      else Some (kv_messageHash (hd (sr_messages response))));
                           n = length (sr_messages response);
                           limit = (case q_paginationLimit opts of None \<Rightarrow> DEFAULT_PAGE_SIZE
                                      | Some l \<Rightarrow> if l = 0 then DEFAULT_PAGE_SIZE else l)
                       in if MAX_PAGE_SIZE < n \<and> n < limit then ([page], Finished)
                          else (case page_loop aborted ask decoders opts (i + 2) fuel cursor' of
                                  (pages, stop) \<Rightarrow> (page # pages, stop)))))"

definition queryPerPage ::
  "(nat \<Rightarrow> bool) \<Rightarrow> (store_request \<Rightarrow> store_answer) \<Rightarrow> nat \<Rightarrow> query_params \<Rightarrow> (string \<times> 'm message_decoder) list
     \<Rightarrow> 'm page list \<times> ending" where
  "queryPerPage aborted ask fuel opts decoders =
     (if (case (q_timeStart opts, q_timeEnd opts) of
            (Some s, Some e) \<Rightarrow> MAX_TIME_RANGE < int e - int s | _ \<Rightarrow> False)
      then ([], Threw (JsError ''Time range bigger than 24h''))
      else if q_messageHashes opts = [] \<and> js_join '','' (q_contentTopics opts) \<noteq> js_join '','' (map fst decoders)
      then ([], Threw (JsError ''Internal error, the decoders should match the query's content topics''))
      else page_loop aborted ask decoders opts 0 fuel (q_paginationCursor opts))"

section \<open>sdk: building the queries\<close>

record query_options =
  o_includeData :: "bool option"
  o_pubsubTopic :: "string option"
  o_contentTopics :: "string list option"
  o_timeStart :: "nat option"
  o_timeEnd :: "nat option"
  o_messageHashes :: "bytes list option"
  o_paginationCursor :: "bytes option"
  o_paginationForward :: "bool option"
  o_paginationLimit :: "nat option"
  o_peerId :: "string option"

definition or_default :: "'a option \<Rightarrow> 'a \<Rightarrow> 'a" where
  "or_default x d = (case x of None \<Rightarrow> d | Some v \<Rightarrow> v)"

fun unique_decoders :: "(string \<times> 'm message_decoder) list \<Rightarrow> 'm message_decoder list \<Rightarrow> js_error + (string \<times> 'm message_decoder) list" where
  "unique_decoders m [] = Inr m"
| "unique_decoders m (dec # decs) =
     (if map_of m (dc_contentTopic dec) \<noteq> None
      then Inl (JsError ''API does not support different decoder per content topic'')
      else unique_decoders (AList.update (dc_contentTopic dec) dec m) decs)"

definition validateDecodersAndPubsubTopic ::
  "'m message_decoder list \<Rightarrow> js_error + (string \<times> string list \<times> (string \<times> 'm message_decoder) list)" where
  "validateDecodersAndPubsubTopic decoders =
     (if decoders = [] then Inl (JsError ''No decoders provided'')
      else
        let uniquePubsubTopics = foldl (\<lambda>s t. js_set_add t s) [] (map dc_pubsubTopic decoders) in
        if 1 < length uniquePubsubTopics
        then Inl (JsError ''API does not support querying multiple pubsub topics at once'')
        else bindE (unique_decoders [] decoders)
          (\<lambda>decodersAsMap.
             let topic = hd uniquePubsubTopics;
                 contentTopics = map dc_contentTopic (filter (\<lambda>d. dc_pubsubTopic d = topic) decoders)
             in if contentTopics = [] then Inl (JsError (''No decoders found for topic '' @ topic))
                else Inr (topic, contentTopics, decodersAsMap)))"

function split_range :: "nat \<Rightarrow> nat \<Rightarrow> (nat \<times> nat) list" where
  "split_range start stop =
     (if MAX_TIME_RANGE < int stop - int start
      then (start, start + nat MAX_TIME_RANGE) # split_range (start + nat MAX_TIME_RANGE) stop
      else [])"
  by pat_completeness auto
termination
  by (relation "measure (\<lambda>(start, stop). stop - start)") (auto simp: MAX_TIME_RANGE_def)

declare split_range.simps [simp del]

definition subTimeRanges :: "query_options \<Rightarrow> (nat \<times> nat) list" where
  "subTimeRanges qo =
     (case (o_timeStart qo, o_timeEnd qo) of
        (Some start, Some stop) \<Rightarrow>
          (case split_range start stop of [] \<Rightarrow> [(start, stop)] | rs \<Rightarrow> rs)
      | _ \<Rightarrow> [])"

definition merged_params :: "query_options \<Rightarrow> string \<Rightarrow> string list \<Rightarrow> query_params" where
  "merged_params qo topic contentTopics =
     \<lparr>q_includeData = or_default (o_includeData qo) True,
      q_pubsubTopic = or_default (o_pubsubTopic qo) topic,
      q_contentTopics = or_default (o_contentTopics qo) contentTopics,
      q_timeStart = o_timeStart qo, q_timeEnd = o_timeEnd qo,
      q_messageHashes = or_default (o_messageHashes qo) [],
      q_paginationCursor = o_paginationCursor qo,
      q_paginationForward = or_default (o_paginationForward qo) True,
      q_paginationLimit = o_paginationLimit qo\<rparr>"

definition buildQueryParams ::
  "'m message_decoder list \<Rightarrow> query_options \<Rightarrow> js_error + ((string \<times> 'm message_decoder) list \<times> query_params list)" where
  "buildQueryParams decoders qo =
     bindE (if or_default (o_messageHashes qo) [] \<noteq> []
            then Inr (case truthy (o_pubsubTopic qo) of
                        Some t \<Rightarrow> t
                      | None \<Rightarrow> (case decoders of [] \<Rightarrow> [] | d # _ \<Rightarrow> dc_pubsubTopic d), [],
                      foldl (\<lambda>m d. AList.update (dc_contentTopic d) d m) [] decoders)
            else validateDecodersAndPubsubTopic decoders)
       (\<lambda>(topic, contentTopics, decodersAsMap).
          let params = merged_params qo topic contentTopics in
          Inr (decodersAsMap,
               case subTimeRanges qo of
                 [] \<Rightarrow> [params]
               | rs \<Rightarrow> map (\<lambda>(start, stop). params\<lparr>q_timeStart := Some start, q_timeEnd := Some stop\<rparr>) rs))"

section \<open>sdk: choosing a peer\<close>

text \<open>
  \<open>peer_of\<close> reads the peer id out of a multiaddress, if it has one, and fails for a string that is not an
  address; \<open>dial\<close> tells whether dialling gives a connection. Both the absence of a peer id and a failed
  dial end in the \<open>catch\<close>.
\<close>

fun match_config :: "string list \<Rightarrow> string option list \<Rightarrow> string option" where
  "match_config peerIds [] = None"
| "match_config peerIds (p # ps) =
     (case p of
        Some q \<Rightarrow> if q \<in> set peerIds then Some q else match_config peerIds ps
      | None \<Rightarrow> match_config peerIds ps)"

fun dial_missing :: "(string \<Rightarrow> js_error + bool) \<Rightarrow> (string \<times> string option) list \<Rightarrow> string option" where
  "dial_missing dial [] = None"
| "dial_missing dial ((address, peer) # rest) =
     (case (dial address, peer) of
        (Inr True, Some q) \<Rightarrow> Some q
      | _ \<Rightarrow> dial_missing dial rest)"

definition getPeerFromConfigurationOrFirst ::
  "(string \<Rightarrow> js_error + string option) \<Rightarrow> (string \<Rightarrow> js_error + bool) \<Rightarrow> string list \<Rightarrow> string list \<Rightarrow> js_error + string option" where
  "getPeerFromConfigurationOrFirst peer_of dial peerIds configPeers =
     (case find (\<lambda>a. isl (peer_of a)) configPeers of
        Some a \<Rightarrow> Inl (projl (peer_of a))
      | None \<Rightarrow>
          let storeConfigPeers = map (\<lambda>a. (a, projr (peer_of a))) configPeers in
          Inr (case match_config peerIds (map snd storeConfigPeers) of
                 Some p \<Rightarrow> Some p
               | None \<Rightarrow>
                   (case dial_missing dial (rev storeConfigPeers) of
                      Some p \<Rightarrow> Some p
                    | None \<Rightarrow> (case peerIds of [] \<Rightarrow> None | p # _ \<Rightarrow> Some p))))"

text \<open>The node a store client works with: its peer manager, its dialler and its configured peers.\<close>

record store_net =
  sn_peer_of :: "string \<Rightarrow> js_error + string option"
  sn_dial :: "string \<Rightarrow> js_error + bool"
  sn_getPeers :: "string \<Rightarrow> string list"
  sn_configPeers :: "string list option"
  sn_ask :: "string \<Rightarrow> store_request \<Rightarrow> store_answer"
  sn_aborted :: "nat \<Rightarrow> nat \<Rightarrow> bool"
  sn_fuel :: nat

definition getPeerToUse :: "store_net \<Rightarrow> string \<Rightarrow> js_error + string option" where
  "getPeerToUse net topic =
     (let peers = sn_getPeers net topic in
      case sn_configPeers net of
        Some cfg \<Rightarrow> getPeerFromConfigurationOrFirst (sn_peer_of net) (sn_dial net) peers cfg
      | None \<Rightarrow> Inr (case peers of [] \<Rightarrow> None | p # _ \<Rightarrow> Some p))"

section \<open>sdk: running the queries\<close>

text \<open>The pages of the queries one after the other, and how the generator ends; \<open>k\<close> numbers the query.\<close>

fun query_all ::
  "store_net \<Rightarrow> string option \<Rightarrow> (string \<times> 'm message_decoder) list \<Rightarrow> nat \<Rightarrow> query_params list \<Rightarrow> 'm page list \<times> ending" where
  "query_all net peerId decoders k [] = ([], Finished)"
| "query_all net peerId decoders k (params # rest) =
     (case (case peerId of Some p \<Rightarrow> Inr (Some p) | None \<Rightarrow> getPeerToUse net (q_pubsubTopic params)) of
        Inl e \<Rightarrow> ([], Threw e)
      | Inr None \<Rightarrow> ([], Threw (JsError ''No peers available to query''))
      | Inr (Some peer) \<Rightarrow>
          (case queryPerPage (sn_aborted net k) (sn_ask net peer) (sn_fuel net) params decoders of
             (pages, Finished) \<Rightarrow>
               (case query_all net peerId decoders (k + 1) rest of (pages', stop) \<Rightarrow> (pages @ pages', stop))
           | (pages, stop) \<Rightarrow> (pages, stop)))"

definition queryGenerator :: "store_net \<Rightarrow> 'm message_decoder list \<Rightarrow> query_options \<Rightarrow> 'm page list \<times> ending" where
  "queryGenerator net decoders qo =
     (case buildQueryParams decoders qo of
        Inl e \<Rightarrow> ([], Threw e)
      | Inr (decodersAsMap, queryOptions) \<Rightarrow> query_all net (o_peerId qo) decodersAsMap 0 queryOptions)"

text \<open>
  A page is decoded as a whole. The callbacks of its messages are all started before the first of them
  settles, since each is awaited; the flag \<open>abort\<close> is then assigned by each as it settles, so that it ends
  up with the answer of the one that settles last: \<open>last_settled\<close> gives its index.
\<close>

fun all_results :: "(js_error + 'a) list \<Rightarrow> js_error + 'a list" where
  "all_results [] = Inr []"
| "all_results (r # rs) = bindE r (\<lambda>x. bindE (all_results rs) (\<lambda>xs. Inr (x # xs)))"

definition processMessages ::
  "('m \<Rightarrow> js_error + bool) \<Rightarrow> (nat \<Rightarrow> nat) \<Rightarrow> 'm page \<Rightarrow> (js_error + bool) \<times> 'm list" where
  "processMessages callback last_settled messages =
     (case all_results messages of
        Inl e \<Rightarrow> (Inl e, [])
      | Inr messagesOrUndef \<Rightarrow>
          let processed = map the (filter (\<lambda>m. m \<noteq> None) messagesOrUndef) in
          (bindE (all_results (map callback processed))
             (\<lambda>answers. Inr (answers \<noteq> [] \<and> answers ! last_settled (length answers))), processed))"

text \<open>The messages the callback was given, and how the query ends.\<close>

fun ordered_callback ::
  "('m \<Rightarrow> js_error + bool) \<Rightarrow> (nat \<Rightarrow> nat) \<Rightarrow> 'm page list \<Rightarrow> ending \<Rightarrow> 'm list \<times> ending" where
  "ordered_callback callback last_settled [] stop = ([], stop)"
| "ordered_callback callback last_settled (page # pages) stop =
     (case processMessages callback last_settled page of
        (Inl e, given) \<Rightarrow> (given, Threw e)
      | (Inr True, given) \<Rightarrow> (given, Finished)
      | (Inr False, given) \<Rightarrow>
          (case ordered_callback callback last_settled pages stop of (given', stop') \<Rightarrow> (given @ given', stop')))"

definition queryWithOrderedCallback ::
  "store_net \<Rightarrow> 'm message_decoder list \<Rightarrow> ('m \<Rightarrow> js_error + bool) \<Rightarrow> (nat \<Rightarrow> nat) \<Rightarrow> query_options \<Rightarrow> 'm list \<times> ending" where
  "queryWithOrderedCallback net decoders callback last_settled qo =
     (case queryGenerator net decoders qo of (pages, stop) \<Rightarrow> ordered_callback callback last_settled pages stop)"

text \<open>With promises, the callback is given what each promise settles to.\<close>

fun promise_callback ::
  "(js_error + 'm option \<Rightarrow> js_error + bool) \<Rightarrow> (nat \<Rightarrow> nat) \<Rightarrow> 'm page list \<Rightarrow> ending \<Rightarrow> (js_error + 'm option) list \<times> ending" where
  "promise_callback callback last_settled [] stop = ([], stop)"
| "promise_callback callback last_settled (page # pages) stop =
     (case all_results (map callback page) of
        Inl e \<Rightarrow> (page, Threw e)
      | Inr answers \<Rightarrow>
          if answers \<noteq> [] \<and> answers ! last_settled (length answers) then (page, Finished)
          else (case promise_callback callback last_settled pages stop of (given, stop') \<Rightarrow> (page @ given, stop')))"

definition queryWithPromiseCallback ::
  "store_net \<Rightarrow> 'm message_decoder list \<Rightarrow> (js_error + 'm option \<Rightarrow> js_error + bool) \<Rightarrow> (nat \<Rightarrow> nat) \<Rightarrow> query_options
     \<Rightarrow> (js_error + 'm option) list \<times> ending" where
  "queryWithPromiseCallback net decoders callback last_settled qo =
     (case queryGenerator net decoders qo of (pages, stop) \<Rightarrow> promise_callback callback last_settled pages stop)"

text \<open>\<open>createCursor\<close>: the hash of a message.\<close>

definition createCursor :: "(bytes \<Rightarrow> bytes) \<Rightarrow> decoded_v0 \<Rightarrow> js_error + bytes" where
  "createCursor sha256 message = d_hash sha256 message"

section \<open>Time ranges\<close>

lemma split_range_sections:
  "\<exists>n. split_range start stop = map (\<lambda>i. (start + i * nat MAX_TIME_RANGE, start + (i + 1) * nat MAX_TIME_RANGE)) [0..<n]
     \<and> int stop \<le> int start + (int n + 1) * MAX_TIME_RANGE \<and> (0 < n \<longrightarrow> int start + int n * MAX_TIME_RANGE < int stop)"
proof (induction start stop rule: split_range.induct)
  case (1 start stop)
  show ?case
  proof (cases "MAX_TIME_RANGE < int stop - int start")
    case True
    let ?next = "start + nat MAX_TIME_RANGE"
    from 1[OF True] obtain n where n: "split_range ?next stop
        = map (\<lambda>i. (?next + i * nat MAX_TIME_RANGE, ?next + (i + 1) * nat MAX_TIME_RANGE)) [0..<n]"
      "int stop \<le> int ?next + (int n + 1) * MAX_TIME_RANGE" "0 < n \<longrightarrow> int ?next + int n * MAX_TIME_RANGE < int stop" by blast
    have M: "0 < MAX_TIME_RANGE" by (simp add: MAX_TIME_RANGE_def)
    have "split_range start stop = (start, ?next) # split_range ?next stop" using True by (simp add: split_range.simps[of start])
    also have "\<dots> = map (\<lambda>i. (start + i * nat MAX_TIME_RANGE, start + (i + 1) * nat MAX_TIME_RANGE)) [0..<Suc n]"
      unfolding n(1) by (simp add: upt_conv_Cons map_Suc_upt[symmetric] add.assoc del: upt_Suc)
    finally have "split_range start stop = map (\<lambda>i. (start + i * nat MAX_TIME_RANGE, start + (i + 1) * nat MAX_TIME_RANGE)) [0..<Suc n]" .
    moreover have "int start + int (Suc n) * MAX_TIME_RANGE < int stop"
      using n(3) True M by (cases n) (simp_all add: algebra_simps)
    moreover have "int stop \<le> int start + (int (Suc n) + 1) * MAX_TIME_RANGE" using n(2) M by (simp add: algebra_simps)
    ultimately show ?thesis by blast
  next
    case False
    then show ?thesis by (intro exI[of _ 0]) (simp add: split_range.simps[of start])
  qed
qed

text \<open>A time range of more than 24 hours is split into consecutive ranges of 24 hours, but the rest after the
  last whole one, of positive length and up to 24 hours, is in none of them: no query asks for it.\<close>

theorem long_range_tail_not_queried:
  assumes "o_timeStart qo = Some start" and "o_timeEnd qo = Some stop" and "MAX_TIME_RANGE < int stop - int start"
  shows "\<exists>n>0. subTimeRanges qo = map (\<lambda>i. (start + i * nat MAX_TIME_RANGE, start + (i + 1) * nat MAX_TIME_RANGE)) [0..<n]
    \<and> start + n * nat MAX_TIME_RANGE < stop \<and> stop \<le> start + (n + 1) * nat MAX_TIME_RANGE
    \<and> (\<forall>t. start + n * nat MAX_TIME_RANGE \<le> t \<longrightarrow> (\<forall>(a, b)\<in>set (subTimeRanges qo). b \<le> t))"
proof -
  obtain n where n: "split_range start stop
      = map (\<lambda>i. (start + i * nat MAX_TIME_RANGE, start + (i + 1) * nat MAX_TIME_RANGE)) [0..<n]"
    "int stop \<le> int start + (int n + 1) * MAX_TIME_RANGE" "0 < n \<longrightarrow> int start + int n * MAX_TIME_RANGE < int stop"
    using split_range_sections by blast
  have "split_range start stop \<noteq> []" using assms(3) by (simp add: split_range.simps[of start])
  with n(1) have pos: "0 < n" and "subTimeRanges qo = split_range start stop"
    using assms(1,2) by (auto simp: subTimeRanges_def split: list.splits)
  with n(1) have s: "subTimeRanges qo = map (\<lambda>i. (start + i * nat MAX_TIME_RANGE, start + (i + 1) * nat MAX_TIME_RANGE)) [0..<n]" by simp
  have M: "MAX_TIME_RANGE = int (nat MAX_TIME_RANGE)" by (simp add: MAX_TIME_RANGE_def)
  have "int (start + n * nat MAX_TIME_RANGE) < int stop" "int stop \<le> int (start + (n + 1) * nat MAX_TIME_RANGE)"
    using n(2,3) pos unfolding of_nat_add of_nat_mult of_nat_1 M[symmetric] by simp_all
  then have "start + n * nat MAX_TIME_RANGE < stop" "stop \<le> start + (n + 1) * nat MAX_TIME_RANGE"
    unfolding of_nat_less_iff of_nat_le_iff by simp_all
  moreover have "b \<le> t" if "start + n * nat MAX_TIME_RANGE \<le> t" "(a, b) \<in> set (subTimeRanges qo)" for a b t
  proof -
    from that(2) obtain i where "i < n" "b = start + (i + 1) * nat MAX_TIME_RANGE" unfolding s by auto
    moreover from this have "(i + 1) * nat MAX_TIME_RANGE \<le> n * nat MAX_TIME_RANGE" by (intro mult_le_mono1) simp
    ultimately show ?thesis using that(1) by linarith
  qed
  ultimately show ?thesis using pos s by (intro exI[of _ n] conjI) auto
qed

text \<open>Thirty hours are asked for as the first twenty-four.\<close>

theorem long_range_tail_not_queried_witness:
  "\<exists>n>0. subTimeRanges \<lparr>o_includeData = None, o_pubsubTopic = None, o_contentTopics = None, o_timeStart = Some 0,
       o_timeEnd = Some (30 * 3600000), o_messageHashes = None, o_paginationCursor = None, o_paginationForward = None,
       o_paginationLimit = None, o_peerId = None\<rparr>
     = map (\<lambda>i. (i * nat MAX_TIME_RANGE, (i + 1) * nat MAX_TIME_RANGE)) [0..<n] \<and> n * nat MAX_TIME_RANGE < 30 * 3600000"
  using long_range_tail_not_queried[of "\<lparr>o_includeData = None, o_pubsubTopic = None, o_contentTopics = None, o_timeStart = Some 0,
       o_timeEnd = Some (30 * 3600000), o_messageHashes = None, o_paginationCursor = None, o_paginationForward = None,
       o_paginationLimit = None, o_peerId = None\<rparr>" 0 "30 * 3600000"]
  by (auto simp: MAX_TIME_RANGE_def)

section \<open>Pagination\<close>

text \<open>
  A store peer that keeps its side of the protocol for forward queries over the messages \<open>msgs\<close>: it answers
  with the next messages after the cursor, at most \<open>L\<close> of them.
\<close>

definition after_cursor :: "key_value list \<Rightarrow> bytes option \<Rightarrow> key_value list" where
  "after_cursor msgs cursor =
     (case cursor of None \<Rightarrow> msgs | Some c \<Rightarrow> drop 1 (dropWhile (\<lambda>m. kv_messageHash m \<noteq> c) msgs))"

definition honest_store :: "key_value list \<Rightarrow> nat \<Rightarrow> store_request \<Rightarrow> store_answer" where
  "honest_store msgs L request =
     Answer \<lparr>sr_statusCode = Some 200, sr_statusDesc = ''OK'',
             sr_messages = take L (after_cursor msgs (rq_paginationCursor request))\<rparr>"

lemma after_cursor_last:
  assumes "distinct (map kv_messageHash (xs @ ys))" and "xs \<noteq> []"
  shows "after_cursor (xs @ ys) (Some (kv_messageHash (last xs))) = ys"
proof -
  obtain zs z where xs: "xs = zs @ [z]" using assms(2) by (cases xs rule: rev_cases) auto
  have "\<forall>m\<in>set zs. kv_messageHash m \<noteq> kv_messageHash z" using assms(1) unfolding xs by (fastforce simp: image_iff)
  then have "dropWhile (\<lambda>m. kv_messageHash m \<noteq> kv_messageHash z) (zs @ z # ys) = z # ys"
    by (subst dropWhile_append2) auto
  then show ?thesis unfolding xs after_cursor_def by simp
qed

lemma request_create_cursor:
  assumes "request_create opts = Inr r"
  shows "\<exists>r'. request_create (opts\<lparr>q_paginationCursor := c\<rparr>) = Inr r' \<and> rq_paginationCursor r' = c"
  using assms by (auto simp: request_create_def Let_def split: if_splits)

definition page_limit :: "query_params \<Rightarrow> nat" where
  "page_limit opts = (case q_paginationLimit opts of None \<Rightarrow> DEFAULT_PAGE_SIZE
     | Some l \<Rightarrow> if l = 0 then DEFAULT_PAGE_SIZE else l)"

lemma page_loop_answer:
  assumes "request_create (opts\<lparr>q_paginationCursor := cursor\<rparr>) = Inr request"
    and "ask request = Answer \<lparr>sr_statusCode = Some 200, sr_statusDesc = d, sr_messages = ms\<rparr>"
    and "q_paginationForward opts"
  shows "page_loop (\<lambda>i. False) ask decoders opts i (Suc fuel) cursor =
    (if ms = [] then ([], Finished)
     else if MAX_PAGE_SIZE < length ms \<and> length ms < page_limit opts then ([map (decode_entry decoders) ms], Finished)
     else (case page_loop (\<lambda>i. False) ask decoders opts (i + 2) fuel (Some (kv_messageHash (last ms))) of
             (pages, stop) \<Rightarrow> (map (decode_entry decoders) ms # pages, stop)))"
  using assms by (simp add: Let_def page_limit_def)

lemma page_loop_honest:
  assumes "distinct (map kv_messageHash (seen @ rest))" and "cursor = (if seen = [] then None else Some (kv_messageHash (last seen)))"
    and "q_paginationForward opts" and "request_create opts = Inr r" and "0 < L"
    and "L \<le> MAX_PAGE_SIZE \<or> or_default (q_paginationLimit opts) DEFAULT_PAGE_SIZE \<le> L"
    and "length rest < fuel"
  shows "\<exists>pages. page_loop (\<lambda>i. False) (honest_store (seen @ rest) L) decoders opts i fuel cursor = (pages, Finished)
    \<and> concat pages = map (decode_entry decoders) rest"
  using assms(1,2,7)
proof (induction fuel arbitrary: seen rest cursor i)
  case (Suc fuel)
  obtain r' where r': "request_create (opts\<lparr>q_paginationCursor := cursor\<rparr>) = Inr r'" "rq_paginationCursor r' = cursor"
    using request_create_cursor[OF assms(4)] by blast
  have after: "after_cursor (seen @ rest) cursor = rest"
    using Suc.prems(1,2) after_cursor_last[of "seen" rest] by (cases "seen = []") (simp_all add: after_cursor_def)
  have ask: "honest_store (seen @ rest) L r' = Answer \<lparr>sr_statusCode = Some 200, sr_statusDesc = ''OK'', sr_messages = take L rest\<rparr>"
    using after r'(2) by (simp add: honest_store_def)
  note step = page_loop_answer[where ask = "honest_store (seen @ rest) L", OF r'(1) ask assms(3), of decoders i fuel]
  show ?case
  proof (cases "rest = []")
    case True
    with step show ?thesis by simp
  next
    case False
    let ?page = "take L rest" and ?rest = "drop L rest"
    have ne: "?page \<noteq> []" using False assms(5) by simp
    have split: "seen @ rest = (seen @ ?page) @ ?rest" by simp
    have "length ?rest < fuel" using Suc.prems(3) False assms(5) by (cases rest; cases L) auto
    moreover have "Some (kv_messageHash (last ?page)) = (if seen @ ?page = [] then None else Some (kv_messageHash (last (seen @ ?page))))"
      using ne by simp
    moreover have "distinct (map kv_messageHash ((seen @ ?page) @ ?rest))" using Suc.prems(1) split by metis
    ultimately obtain pages where "page_loop (\<lambda>i. False) (honest_store ((seen @ ?page) @ ?rest) L) decoders opts (i + 2) fuel
        (Some (kv_messageHash (last ?page))) = (pages, Finished)" and c: "concat pages = map (decode_entry decoders) ?rest"
      using Suc.IH[of "seen @ ?page" ?rest "Some (kv_messageHash (last ?page))" "i + 2"] by blast
    then have pages: "page_loop (\<lambda>i. False) (honest_store (seen @ rest) L) decoders opts (i + 2) fuel
        (Some (kv_messageHash (last ?page))) = (pages, Finished)" by simp
    have decoded: "map (decode_entry decoders) ?page @ map (decode_entry decoders) ?rest = map (decode_entry decoders) rest"
      by (simp flip: map_append)
    show ?thesis
    proof (cases "MAX_PAGE_SIZE < length ?page \<and> length ?page < page_limit opts")
      case True
      then have "\<not> L \<le> MAX_PAGE_SIZE" by auto
      with assms(6) have "or_default (q_paginationLimit opts) DEFAULT_PAGE_SIZE \<le> L" by simp
      with True have "page_limit opts \<le> L"
        by (auto simp: page_limit_def or_default_def DEFAULT_PAGE_SIZE_def MAX_PAGE_SIZE_def split: option.splits if_splits)
      with True have "?rest = []" by (simp add: min_def split: if_splits)
      with decoded have "map (decode_entry decoders) ?page = map (decode_entry decoders) rest" by simp
      with step True ne show ?thesis by simp
    next
      case False
      from step ne False pages have "page_loop (\<lambda>i. False) (honest_store (seen @ rest) L) decoders opts i (Suc fuel) cursor
          = (map (decode_entry decoders) ?page # pages, Finished)" by (simp only: if_False prod.case)
      with c decoded show ?thesis by (intro exI[of _ "map (decode_entry decoders) ?page # pages"]) simp
    qed
  qed
qed simp

text \<open>C8: Against a peer that keeps its side of the protocol, a forward query without cursor returns every
  message of the range once, in order, and ends: one round more than there are messages is enough, whatever
  the page size. The early exit for short pages never loses messages as long as pages have at most 100
  messages or the peer honours the limit that was asked for.\<close>

theorem pagination_complete:
  assumes "distinct (map kv_messageHash msgs)" and "q_paginationCursor opts = None"
    and "q_paginationForward opts" and "request_create opts = Inr r" and "0 < L"
    and "L \<le> MAX_PAGE_SIZE \<or> or_default (q_paginationLimit opts) DEFAULT_PAGE_SIZE \<le> L"
    and "js_join '','' (q_contentTopics opts) = js_join '','' (map fst decoders)"
    and "case (q_timeStart opts, q_timeEnd opts) of (Some s, Some e) \<Rightarrow> int e - int s \<le> MAX_TIME_RANGE | _ \<Rightarrow> True"
    and "length msgs < fuel"
  shows "\<exists>pages. queryPerPage (\<lambda>i. False) (honest_store msgs L) fuel opts decoders = (pages, Finished)
    \<and> concat pages = map (decode_entry decoders) msgs"
proof -
  have "queryPerPage (\<lambda>i. False) (honest_store msgs L) fuel opts decoders
      = page_loop (\<lambda>i. False) (honest_store ([] @ msgs) L) decoders opts 0 fuel None"
    using assms(2,7,8) by (auto simp: queryPerPage_def not_less split: option.splits)
  with page_loop_honest[of "[]" msgs None opts r L fuel decoders 0] assms show ?thesis by simp
qed

definition sample_params :: query_params where
  "sample_params = \<lparr>q_includeData = True, q_pubsubTopic = ''/waku/2/rs/1/0'', q_contentTopics = [''/a/1/b/c''],
     q_timeStart = None, q_timeEnd = None, q_messageHashes = [], q_paginationCursor = None, q_paginationForward = True,
     q_paginationLimit = Some 2\<rparr>"

definition sample_decoder :: "nat message_decoder" where
  "sample_decoder = \<lparr>dc_contentTopic = ''/a/1/b/c'', dc_pubsubTopic = ''/waku/2/rs/1/0'',
     dc_fromProtoObj = (\<lambda>t p. Inr (Some (length (pm_payload p))))\<rparr>"

definition sample_entry :: "nat \<Rightarrow> key_value" where
  "sample_entry i = \<lparr>kv_messageHash = be_bytes 2 i, kv_message = Some \<lparr>w_payload = Some (replicate i 0),
     w_contentTopic = Some ''/a/1/b/c'', w_version = None, w_timestamp = None, w_meta = None, w_rateLimitProof = None,
     w_ephemeral = None\<rparr>, kv_pubsubTopic = None\<rparr>"

theorem pagination_complete_witness:
  "\<exists>pages. queryPerPage (\<lambda>i. False) (honest_store (map sample_entry [0, 1, 2, 3, 4]) 2) 6 sample_params
       [(''/a/1/b/c'', sample_decoder)] = (pages, Finished)
     \<and> concat pages = map (\<lambda>i. Inr (Some i)) [0, 1, 2, 3, 4]"
proof -
  have d: "distinct (map kv_messageHash (map sample_entry [0, 1, 2, 3, 4]))" by code_simp
  have r: "\<exists>r. request_create sample_params = Inr r" by (simp add: sample_params_def request_create_def Let_def)
  then obtain r where r: "request_create sample_params = Inr r" by blast
  have c: "q_paginationCursor sample_params = None" "q_paginationForward sample_params"
    "js_join '','' (q_contentTopics sample_params) = js_join '','' (map fst [(''/a/1/b/c'', sample_decoder)])"
    "q_timeStart sample_params = None"
    by (simp_all add: sample_params_def)
  have "map (decode_entry [(''/a/1/b/c'', sample_decoder)]) (map sample_entry [0, 1, 2, 3, 4]) = map (\<lambda>i. Inr (Some i)) [0, 1, 2, 3, 4]"
    by (simp add: decode_entry_def sample_entry_def sample_decoder_def truthy_def toProtoMessage_def)
  with pagination_complete[OF d c(1,2) r, of 2 "[(''/a/1/b/c'', sample_decoder)]" 6] c show ?thesis
    by (simp add: MAX_PAGE_SIZE_def)
qed

section \<open>Callbacks\<close>

definition in_order :: "nat \<Rightarrow> nat" where
  "in_order n = n - 1"

lemma all_results_Inr [simp]: "all_results (map (\<lambda>x. Inr (f x)) xs) = Inr (map f xs)"
  by (induction xs) auto

lemma processMessages_pure:
  "processMessages (\<lambda>m. Inr (f m)) in_order (map Inr ms)
    = (Inr (map the (filter (\<lambda>m. m \<noteq> None) ms) \<noteq> [] \<and> f (last (map the (filter (\<lambda>m. m \<noteq> None) ms)))),
       map the (filter (\<lambda>m. m \<noteq> None) ms))"
proof -
  have "all_results (map Inr ms) = Inr ms" using all_results_Inr[of "\<lambda>x. x" ms] by simp
  then show ?thesis by (auto simp: processMessages_def Let_def in_order_def last_conv_nth)
qed

text \<open>The messages a page decodes to.\<close>

definition decoded :: "'m option list \<Rightarrow> 'm list" where
  "decoded ms = map the (filter (\<lambda>m. m \<noteq> None) ms)"

text \<open>An ordered callback that answers \<open>true\<close> does not stop the query when it does so: the whole page is
  given to the callback, and the query stops only after a page whose last message was answered \<open>true\<close>. So
  the messages given are those of the pages up to the first such page.\<close>

theorem ordered_callback_stops_late:
  "ordered_callback (\<lambda>m. Inr (f m)) in_order (map (map Inr) pages) Finished
    = (concat (map decoded (case find (\<lambda>i. decoded (pages ! i) \<noteq> [] \<and> f (last (decoded (pages ! i)))) [0..<length pages] of
         None \<Rightarrow> pages | Some i \<Rightarrow> take (Suc i) pages)), Finished)
   \<and> ordered_callback (\<lambda>m. Inr (m = (1::nat))) in_order [[Inr (Some 1), Inr (Some 2)], [Inr (Some 3)]] Finished = ([1, 2, 3], Finished)"
proof -
  have "ordered_callback (\<lambda>m. Inr (f m)) in_order (map (map Inr) pages) Finished
    = (concat (map decoded (case find (\<lambda>i. decoded (pages ! i) \<noteq> [] \<and> f (last (decoded (pages ! i)))) [0..<length pages] of
         None \<Rightarrow> pages | Some i \<Rightarrow> take (Suc i) pages)), Finished)"
  proof (induction pages)
    case (Cons page pages)
    let ?stop = "\<lambda>p. decoded p \<noteq> [] \<and> f (last (decoded p))"
    have find: "find (\<lambda>i. ?stop ((page # pages) ! i)) [0..<length (page # pages)]
        = (if ?stop page then Some 0 else map_option Suc (find (\<lambda>i. ?stop (pages ! i)) [0..<length pages]))"
    proof -
      have "find P (map Suc is) = map_option Suc (find (\<lambda>i. P (Suc i)) is)" for P and "is" :: "nat list"
        by (induction "is") auto
      then show ?thesis by (simp add: upt_conv_Cons map_Suc_upt[symmetric] del: upt_Suc)
    qed
    show ?case
    proof (cases "?stop page")
      case True
      then show ?thesis unfolding find
        by (simp add: processMessages_pure) (simp add: decoded_def)
    next
      case False
      have p: "processMessages (\<lambda>m. Inr (f m)) in_order (map Inr page) = (Inr False, decoded page)"
        using False unfolding processMessages_pure decoded_def by simp
      from False have "(decoded page \<noteq> [] \<and> f (last (decoded page))) = False" by blast
      then show ?thesis unfolding find using Cons.IH p by (simp only: if_False) (simp split: option.splits)
    qed
  qed simp
  moreover have "ordered_callback (\<lambda>m. Inr (m = (1::nat))) in_order [[Inr (Some 1), Inr (Some 2)], [Inr (Some 3)]] Finished
      = ([1, 2, 3], Finished)" by code_simp
  ultimately show ?thesis by blast
qed

section \<open>The queries that are built\<close>

lemma unique_decoders_Inr:
  assumes "unique_decoders m decs = Inr m'"
  shows "map fst m' = map fst m @ map dc_contentTopic decs"
  using assms
proof (induction decs arbitrary: m)
  case (Cons dec decs)
  then have "map_of m (dc_contentTopic dec) = None" "unique_decoders (AList.update (dc_contentTopic dec) dec m) decs = Inr m'"
    by (auto split: if_splits)
  then show ?case using Cons.IH[of "AList.update (dc_contentTopic dec) dec m"]
    by (simp add: update_keys map_of_eq_None_iff)
qed simp

lemma set_foldl_add: "set (foldl (\<lambda>s t. js_set_add t s) s ts) = set s \<union> set ts"
  by (induction ts arbitrary: s) auto

lemma validate_Inr:
  assumes "validateDecodersAndPubsubTopic decoders = Inr (topic, contentTopics, m)"
  shows "decoders \<noteq> [] \<and> (\<forall>d\<in>set decoders. dc_pubsubTopic d = topic) \<and> contentTopics = map dc_contentTopic decoders
    \<and> map fst m = contentTopics \<and> contentTopics \<noteq> []"
proof -
  let ?u = "foldl (\<lambda>s t. js_set_add t s) [] (map dc_pubsubTopic decoders)"
  have ne: "decoders \<noteq> []" and len: "\<not> 1 < length ?u" and "unique_decoders [] decoders = Inr m" and t: "topic = hd ?u"
    and ct: "contentTopics = map dc_contentTopic (filter (\<lambda>d. dc_pubsubTopic d = topic) decoders)" "contentTopics \<noteq> []"
    using assms by (auto simp: validateDecodersAndPubsubTopic_def Let_def bindE_Inr split: if_splits)
  then have m: "map fst m = map dc_contentTopic decoders" using unique_decoders_Inr[of "[]" decoders m] by simp
  have "set ?u = set (map dc_pubsubTopic decoders)" by (simp add: set_foldl_add)
  moreover have "?u = [topic]" using len t ne calculation by (cases ?u; cases "tl ?u") auto
  ultimately have all: "\<forall>d\<in>set decoders. dc_pubsubTopic d = topic" by auto
  then have "filter (\<lambda>d. dc_pubsubTopic d = topic) decoders = decoders" by (simp add: filter_id_conv)
  with ct m ne all show ?thesis by auto
qed

text \<open>The queries built for content topics are ones the core accepts: each asks for the topic all decoders
  share and for exactly their content topics, spans at most 24 hours, passes the core's own checks and
  makes a valid request.\<close>

theorem built_queries_accepted:
  assumes "buildQueryParams decoders qo = Inr (m, queries)" and "or_default (o_messageHashes qo) [] = []"
    and "o_contentTopics qo = None" and "o_pubsubTopic qo = None"
    and "\<forall>d\<in>set decoders. dc_pubsubTopic d \<noteq> []" and "params \<in> set queries"
  shows "q_pubsubTopic params = dc_pubsubTopic (hd decoders) \<and> q_contentTopics params = map dc_contentTopic decoders
    \<and> (\<exists>r. request_create params = Inr r)
    \<and> (\<forall>aborted ask fuel. queryPerPage aborted ask fuel params m = page_loop aborted ask m params 0 fuel (q_paginationCursor params))"
proof -
  from assms(1,2) obtain topic cts where v: "validateDecodersAndPubsubTopic decoders = Inr (topic, cts, m)"
    and q: "queries = (case subTimeRanges qo of [] \<Rightarrow> [merged_params qo topic cts]
      | rs \<Rightarrow> map (\<lambda>(start, stop). (merged_params qo topic cts)\<lparr>q_timeStart := Some start, q_timeEnd := Some stop\<rparr>) rs)"
    by (auto simp: buildQueryParams_def bindE_Inr Let_def)
  note v = validate_Inr[OF v]
  have range: "int e - int s \<le> MAX_TIME_RANGE" if "(s, e) \<in> set (subTimeRanges qo)" for s e
  proof -
    have long: "int b - int a \<le> MAX_TIME_RANGE" if "(a, b) \<in> set (split_range start stop)" for a b start stop
      using that
    proof (induction start stop rule: split_range.induct)
      case (1 start stop)
      then show ?case by (subst (asm) (2) split_range.simps) (auto simp: MAX_TIME_RANGE_def split: if_splits)
    qed
    have short: "int b - int a \<le> MAX_TIME_RANGE" if "split_range a b = []" for a b
      using that by (subst (asm) split_range.simps) (auto split: if_splits)
    from that obtain start stop where "o_timeStart qo = Some start" "o_timeEnd qo = Some stop"
      by (cases "o_timeStart qo"; cases "o_timeEnd qo") (auto simp: subTimeRanges_def)
    with that long[of s e start stop] short[of start stop] show ?thesis
      by (cases "split_range start stop") (auto simp: subTimeRanges_def)
  qed
  have p: "q_pubsubTopic params = topic \<and> q_contentTopics params = cts \<and> q_messageHashes params = []
      \<and> (case (q_timeStart params, q_timeEnd params) of (Some s, Some e) \<Rightarrow> int e - int s \<le> MAX_TIME_RANGE | _ \<Rightarrow> True)"
  proof (cases "subTimeRanges qo")
    case Nil
    then have "o_timeStart qo = None \<or> o_timeEnd qo = None"
      by (auto simp: subTimeRanges_def split: option.splits list.splits)
    with Nil assms(2-4,6) q show ?thesis by (auto simp: merged_params_def or_default_def split: option.splits)
  next
    case (Cons r rs)
    then have "queries = map (\<lambda>(start, stop). (merged_params qo topic cts)\<lparr>q_timeStart := Some start, q_timeEnd := Some stop\<rparr>) (subTimeRanges qo)"
      using q by simp
    with assms(6) obtain s e where "(s, e) \<in> set (subTimeRanges qo)"
      "params = (merged_params qo topic cts)\<lparr>q_timeStart := Some s, q_timeEnd := Some e\<rparr>" by auto
    with range[of s e] assms(2-4) show ?thesis by (auto simp: merged_params_def or_default_def split: option.splits)
  qed
  have "hd decoders \<in> set decoders" using v by simp
  then have t: "dc_pubsubTopic (hd decoders) = topic" "topic \<noteq> []" using v assms(5) by auto
  have "\<exists>r. request_create params = Inr r" using p t v by (simp add: request_create_def Let_def)
  moreover have "queryPerPage aborted ask fuel params m = page_loop aborted ask m params 0 fuel (q_paginationCursor params)"
    for aborted ask fuel
    using p v by (auto simp: queryPerPage_def not_less split: option.splits)
  ultimately show ?thesis using p v t by (intro conjI allI) auto
qed

theorem built_queries_accepted_witness:
  "\<exists>m params. buildQueryParams [sample_decoder] \<lparr>o_includeData = None, o_pubsubTopic = None, o_contentTopics = None,
       o_timeStart = Some 0, o_timeEnd = Some 5, o_messageHashes = None, o_paginationCursor = None,
       o_paginationForward = None, o_paginationLimit = None, o_peerId = None\<rparr> = Inr (m, [params])
     \<and> q_contentTopics params = [''/a/1/b/c''] \<and> (\<exists>r. request_create params = Inr r)"
proof -
  let ?qo = "\<lparr>o_includeData = None, o_pubsubTopic = None, o_contentTopics = None,
       o_timeStart = Some 0, o_timeEnd = Some 5, o_messageHashes = None, o_paginationCursor = None,
       o_paginationForward = None, o_paginationLimit = None, o_peerId = None\<rparr>"
  have "subTimeRanges ?qo = [(0, 5)]" by (simp add: subTimeRanges_def split_range.simps[of 0 5] MAX_TIME_RANGE_def)
  then obtain m params where b: "buildQueryParams [sample_decoder] ?qo = Inr (m, [params])"
    by (simp add: buildQueryParams_def or_default_def validateDecodersAndPubsubTopic_def Let_def js_set_add_def)
  have d: "\<forall>d\<in>set [sample_decoder]. dc_pubsubTopic d \<noteq> []" by (simp add: sample_decoder_def)
  from built_queries_accepted[OF b _ _ _ d, of params] b show ?thesis
    by (auto simp: or_default_def sample_decoder_def)
qed

section \<open>Nanoseconds\<close>

lemma excess_bits_bound: "n < 2 ^ (53 + excess_bits n)"
proof (induction n rule: excess_bits.induct)
  case (1 n)
  show ?case
  proof (cases "n < 2 ^ 53")
    case False
    with 1 have "n div 2 < 2 ^ (53 + excess_bits (n div 2))" by simp
    then have "n < 2 ^ Suc (53 + excess_bits (n div 2))" unfolding power_Suc by linarith
    with False show ?thesis by (subst excess_bits.simps) (simp only: if_False add_Suc_right)
  qed (simp add: excess_bits.simps[of n])
qed

lemma excess_bits_le: "n < 2 ^ (53 + k) \<Longrightarrow> excess_bits n \<le> k"
proof (induction k arbitrary: n)
  case (Suc k)
  then have "n < 2 * 2 ^ (53 + k)" by (simp only: add_Suc_right power_Suc)
  then have "n div 2 < 2 ^ (53 + k)" by linarith
  from Suc.IH[OF this] show ?case by (simp add: excess_bits.simps[of n])
qed (simp add: excess_bits.simps)

lemma to_double_error: "2 * \<bar>int (to_double n) - int n\<bar> \<le> 2 ^ excess_bits n"
proof -
  define u q r where "u = (2 :: nat) ^ excess_bits n" and "q = n div u" and "r = n mod u"
  have "n = q * u + r" unfolding q_def r_def by (rule div_mult_mod_eq[symmetric])
  then have n: "int n = int (q * u) + int r" by simp
  have "to_double n = (if u < 2 * r \<or> 2 * r = u \<and> odd q then q * u + u else q * u)"
    by (simp add: to_double_def Let_def u_def q_def r_def)
  moreover have "r < u" by (simp add: r_def u_def)
  ultimately have "2 * \<bar>int (to_double n) - int n\<bar> \<le> int u" using n by (simp split: if_splits)
  then show ?thesis by (simp add: u_def)
qed

text \<open>The bounds of a query in nanoseconds are not exact: up to the year 2043 they are at most 128
  nanoseconds off, and they do miss a whole number of milliseconds, as the messages have it.\<close>

theorem nanoseconds_rounded:
  assumes "ms * 1000000 < 2 ^ 61"
  shows "\<exists>ns. nanoseconds (Some ms) = Some ns \<and> \<bar>int ns - int (ms * 1000000)\<bar> \<le> 128
    \<and> nanoseconds (Some 1700000000001) = Some 1700000000000999936"
proof -
  have "excess_bits (ms * 1000000) \<le> 8" using excess_bits_le[of "ms * 1000000" 8] assms by simp
  then have "(2::int) ^ excess_bits (ms * 1000000) \<le> 2 ^ 8" by (intro power_increasing) simp_all
  with to_double_error[of "ms * 1000000"] have "\<bar>int (to_double (ms * 1000000)) - int (ms * 1000000)\<bar> \<le> 128" by simp
  moreover have "nanoseconds (Some 1700000000001) = Some 1700000000000999936"
  proof -
    have small: "excess_bits m = 0" if "m < 2 ^ 53" for m using that by (simp add: excess_bits.simps)
    have big: "excess_bits m = Suc (excess_bits (m div 2))" if "\<not> m < 2 ^ 53" for m using that by (simp add: excess_bits.simps)
    have "excess_bits 1700000000001000000 = 8" by (simp add: small big)
    then show ?thesis by (simp add: nanoseconds_def to_double_def Let_def)
  qed
  ultimately show ?thesis by (simp add: nanoseconds_def)
qed

theorem nanoseconds_rounded_witness:
  "\<exists>ns. nanoseconds (Some 1700000000001) = Some ns \<and> \<bar>int ns - 1700000000001000000\<bar> \<le> 128"
  using nanoseconds_rounded[of 1700000000001] by (simp, blast)

end
