(* ===== verification/Async_Iterator.thy ===== *)
theory Async_Iterator
  imports Prelude
begin

text \<open>
  The bridge from a callback to an asynchronous iterator (\<open>packages/utils/src/common/to_async_iterator.ts\<close>):
  messages wait in a list until the consumer asks. One round of the generator's loop is a step; whether the time
  is over is what the clock says at its begin. A generator that returned answers no further request.
\<close>

record 'm async_iterator =
  it_messages :: "'m list"
  it_subscribed :: bool
  it_yielded :: "'m list"
  it_returned :: "'m option option"
  it_arrived :: "'m list"

text \<open>\<open>it_arrived\<close> is the log of what the callback was given, \<open>it_returned\<close> the value the generator returned.\<close>

definition toAsyncIterator :: "'m async_iterator" where
  "toAsyncIterator = \<lparr>it_messages = [], it_subscribed = True, it_yielded = [], it_returned = None, it_arrived = []\<rparr>"

datatype 'm iterator_event = It_Message 'm | It_Stop | It_Round bool

text \<open>Before the wait the time is checked; after it the first message is taken. Taking from an empty list is \<open>undefined\<close>.\<close>

definition iterator_round :: "bool \<Rightarrow> 'm async_iterator \<Rightarrow> 'm async_iterator" where
  "iterator_round timed_out it =
     (if it_returned it \<noteq> None then it
      else if timed_out then it\<lparr>it_returned := Some None\<rparr>
      else case it_messages it of
             [] \<Rightarrow> if \<not> it_subscribed it then it\<lparr>it_returned := Some None\<rparr> else it
           | m # ms \<Rightarrow>
               if \<not> it_subscribed it \<and> ms = [] then it\<lparr>it_messages := ms, it_returned := Some (Some m)\<rparr>
               else it\<lparr>it_messages := ms, it_yielded := it_yielded it @ [m]\<rparr>)"

fun iterator_step :: "'m async_iterator \<Rightarrow> 'm iterator_event \<Rightarrow> 'm async_iterator" where
  "iterator_step it (It_Message m) =
     (if it_subscribed it then it\<lparr>it_messages := it_messages it @ [m], it_arrived := it_arrived it @ [m]\<rparr> else it)"
| "iterator_step it It_Stop = it\<lparr>it_subscribed := False\<rparr>"
| "iterator_step it (It_Round timed_out) = iterator_round timed_out it"

definition iterator_run :: "'m iterator_event list \<Rightarrow> 'm async_iterator \<Rightarrow> 'm async_iterator" where
  "iterator_run es it = foldl iterator_step it es"

definition returned_message :: "'m async_iterator \<Rightarrow> 'm list" where
  "returned_message it = (case it_returned it of Some (Some m) \<Rightarrow> [m] | _ \<Rightarrow> [])"

text \<open>
  Messages come out in the order in which they arrived, none twice and none left out: what was yielded, then what was
  returned, then what still waits is what arrived.
\<close>

theorem iterator_in_order:
  "let it = iterator_run es toAsyncIterator in
    it_arrived it = it_yielded it @ returned_message it @ it_messages it"
proof -
  let ?inv = "\<lambda>it. it_arrived it = it_yielded it @ returned_message it @ it_messages it"
  have "?inv (iterator_step it e)" if "?inv it" for it :: "'a async_iterator" and e
    using that by (cases e) (auto simp: iterator_round_def returned_message_def split: list.splits option.splits)
  moreover have "?inv (toAsyncIterator :: 'a async_iterator)" by (simp add: toAsyncIterator_def returned_message_def)
  ultimately have "?inv (iterator_run es toAsyncIterator)" unfolding iterator_run_def
    by (induction es rule: rev_induct) auto
  then show ?thesis by (simp add: Let_def)
qed

lemma rounds_after_stop:
  "\<not> it_subscribed it \<Longrightarrow> it_returned it = None \<Longrightarrow> length (it_messages it) \<le> n \<Longrightarrow> it_messages it \<noteq> [] \<Longrightarrow>
     it_yielded (iterator_run (replicate n (It_Round False)) it) = it_yielded it @ butlast (it_messages it)
     \<and> it_returned (iterator_run (replicate n (It_Round False)) it) = Some (Some (last (it_messages it)))"
proof (induction n arbitrary: it)
  case (Suc n)
  from Suc.prems(4) obtain m ms where ms: "it_messages it = m # ms" by (cases "it_messages it") auto
  show ?case
  proof (cases "ms = []")
    case True
    have "iterator_run (replicate k (It_Round False)) it' = it'" if "it_returned it' \<noteq> None" for k and it' :: "'a async_iterator"
      using that by (induction k) (simp_all add: iterator_run_def iterator_round_def)
    with True ms Suc.prems show ?thesis by (simp add: iterator_run_def iterator_round_def)
  next
    case False
    with Suc.IH[of "iterator_round False it"] ms Suc.prems show ?thesis by (simp add: iterator_run_def iterator_round_def)
  qed
qed simp

text \<open>
  After a stop the last of the waiting messages is not yielded: it becomes the return value of the generator, which a
  \<open>for await\<close> loop throws away. All others are yielded.
\<close>

theorem stop_hides_last_message:
  assumes "it_returned it = None" and "it_messages it \<noteq> []" and "length (it_messages it) \<le> n"
  shows "let it' = iterator_run (It_Stop # replicate n (It_Round False)) it in
    it_yielded it' = it_yielded it @ butlast (it_messages it) \<and> it_returned it' = Some (Some (last (it_messages it)))"
  using rounds_after_stop[of "it\<lparr>it_subscribed := False\<rparr>" n] assms by (simp add: iterator_run_def Let_def)

lemma stop_hides_last_message_witness:
  "it_yielded (iterator_run [It_Stop, It_Round False] (iterator_run [It_Message (7 :: nat)] toAsyncIterator)) = []"
  using stop_hides_last_message[of "iterator_run [It_Message (7 :: nat)] toAsyncIterator" 1]
  by (simp add: iterator_run_def toAsyncIterator_def Let_def)

end
