(* ===== verification/Enr.thy ===== *)
theory Enr
  imports Sharding
begin

text \<open>
  Ethereum node records (\<open>packages/enr/src\<close>): a map from keys to bytes with a sequence number and a signature, its
  typed fields, its text form, and the codecs of the Waku fields. RLP, base64url, UTF-8, elliptic curves, hashes and
  multiaddresses come from packages outside of \<open>src\<close>: they are the fields of \<open>enr_lib\<close>, and a multiaddress is
  what the code asks of it. RLP items are byte strings, sequence numbers below \<open>2^53\<close>.
\<close>

record multiaddr =
  ma_bytes :: bytes
  ma_peerId :: "string option"
  ma_protoNames :: "string list"
  ma_tuples :: "(nat \<times> bytes option) list"

record enr_lib =
  el_fromUtf8 :: "string \<Rightarrow> bytes"
  el_toUtf8 :: "bytes \<Rightarrow> js_error + string"
  el_rlp_encode :: "bytes list \<Rightarrow> bytes"
  el_rlp_decode :: "bytes \<Rightarrow> js_error + bytes list"
  el_toBase64url :: "bytes \<Rightarrow> string"
  el_fromBase64url :: "string \<Rightarrow> js_error + bytes"
  el_keccak :: "bytes \<Rightarrow> bytes"
  el_sign :: "bytes \<Rightarrow> bytes \<Rightarrow> js_error + bytes"
  el_verify :: "bytes \<Rightarrow> bytes \<Rightarrow> bytes \<Rightarrow> js_error + bool"
  el_uncompressed :: "bytes \<Rightarrow> js_error + bytes"
  el_compressed :: "bytes \<Rightarrow> js_error + bytes"
  el_peerId :: "bytes \<Rightarrow> js_error + string"
  el_localeCompare :: "string \<Rightarrow> string \<Rightarrow> int"
  el_convertToString :: "string \<Rightarrow> bytes \<Rightarrow> js_error + string"
  el_convertToBytes :: "string \<Rightarrow> string \<Rightarrow> js_error + bytes"
  el_multiaddr :: "string \<Rightarrow> js_error + multiaddr"
  el_multiaddrOfBytes :: "bytes \<Rightarrow> js_error + multiaddr"
  el_encapsulate :: "multiaddr \<Rightarrow> multiaddr \<Rightarrow> multiaddr"
  el_p2p :: "string \<Rightarrow> multiaddr"

section \<open>waku2_codec.ts\<close>

record waku2 =
  w2_relay :: bool
  w2_store :: bool
  w2_filter :: bool
  w2_lightPush :: bool

definition encodeWaku2 :: "waku2 \<Rightarrow> nat" where
  "encodeWaku2 p =
     (let byte0 = (if w2_lightPush p then 1 else 0);
          byte1 = 2 * byte0 + (if w2_filter p then 1 else 0);
          byte2 = 2 * byte1 + (if w2_store p then 1 else 0)
      in 2 * byte2 + (if w2_relay p then 1 else 0))"

definition decodeWaku2 :: "nat \<Rightarrow> waku2" where
  "decodeWaku2 b =
     \<lparr>w2_relay = (b mod 2 \<noteq> 0), w2_store = (b div 2 mod 2 \<noteq> 0), w2_filter = (b div 2 div 2 mod 2 \<noteq> 0),
      w2_lightPush = (b div 2 div 2 div 2 mod 2 \<noteq> 0)\<rparr>"

lemma waku2_roundtrip: "decodeWaku2 (encodeWaku2 p) = p" "encodeWaku2 p < 16"
  by (cases p; simp add: encodeWaku2_def decodeWaku2_def)+

section \<open>multiaddrs_codec.ts\<close>

definition MULTIADDR_LENGTH_SIZE :: nat where "MULTIADDR_LENGTH_SIZE = 2"

text \<open>The loop advances by at least the two bytes of the length.\<close>

function decode_multiaddrs_from :: "enr_lib \<Rightarrow> bytes \<Rightarrow> nat \<Rightarrow> js_error + multiaddr list" where
  "decode_multiaddrs_from lib bs index =
     (if length bs \<le> index then Inr []
      else bindE (get_be MULTIADDR_LENGTH_SIZE index bs)
        (\<lambda>size. bindE (el_multiaddrOfBytes lib (take size (drop (index + MULTIADDR_LENGTH_SIZE) bs)))
          (\<lambda>ma. bindE (decode_multiaddrs_from lib bs (index + MULTIADDR_LENGTH_SIZE + size)) (\<lambda>mas. Inr (ma # mas)))))"
  by pat_completeness auto

termination
  by (relation "measure (\<lambda>(lib, bs, index). length bs - index)") (auto simp: MULTIADDR_LENGTH_SIZE_def)

definition decodeMultiaddrs :: "enr_lib \<Rightarrow> bytes \<Rightarrow> js_error + multiaddr list" where
  "decodeMultiaddrs lib bs = decode_multiaddrs_from lib bs 0"

text \<open>\<open>setUint16\<close> takes the length modulo \<open>2 ^ 16\<close>.\<close>

fun write_multiaddrs :: "multiaddr list \<Rightarrow> nat \<Rightarrow> bytes \<Rightarrow> js_error + bytes" where
  "write_multiaddrs [] index view = Inr view"
| "write_multiaddrs (ma # mas) index view =
     (if truthy (ma_peerId ma) \<noteq> None then Inl (JsError ''`multiaddr` field MUST not contain peer id'')
      else bindE (set_be MULTIADDR_LENGTH_SIZE index (uint_of MULTIADDR_LENGTH_SIZE (int (length (ma_bytes ma)))) view)
        (\<lambda>view'. let start = index + MULTIADDR_LENGTH_SIZE; stop = start + length (ma_bytes ma)
                 in write_multiaddrs mas stop (take start view' @ ma_bytes ma @ drop stop view')))"

definition encodeMultiaddrs :: "multiaddr list \<Rightarrow> js_error + bytes" where
  "encodeMultiaddrs mas =
     write_multiaddrs mas 0 (replicate (sum_list (map (\<lambda>ma. MULTIADDR_LENGTH_SIZE + length (ma_bytes ma)) mas)) 0)"

section \<open>raw_enr.ts\<close>

record enr =
  er_kvs :: "(string \<times> bytes) list"
  er_seq :: nat
  er_signature :: "bytes option"
  er_peerId :: "string option"

definition enr_get :: "string \<Rightarrow> enr \<Rightarrow> bytes option" where
  "enr_get k e = map_of (er_kvs e) k"

definition enr_set :: "string \<Rightarrow> bytes \<Rightarrow> enr \<Rightarrow> enr" where
  "enr_set k v e = e\<lparr>er_signature := None, er_seq := er_seq e + 1, er_kvs := AList.update k v (er_kvs e)\<rparr>"

text \<open>\<open>Map.delete\<close>, which the class does not override.\<close>

definition enr_delete :: "string \<Rightarrow> enr \<Rightarrow> enr" where
  "enr_delete k e = e\<lparr>er_kvs := AList.delete k (er_kvs e)\<rparr>"

definition ERR_INVALID_ID :: js_error where "ERR_INVALID_ID = JsError ''Invalid record id''"

definition enr_id :: "enr_lib \<Rightarrow> enr \<Rightarrow> js_error + string" where
  "enr_id lib e = (case enr_get ''id'' e of None \<Rightarrow> Inl (JsError ''id not found.'') | Some bs \<Rightarrow> el_toUtf8 lib bs)"

definition enr_publicKey :: "enr_lib \<Rightarrow> enr \<Rightarrow> js_error + bytes option" where
  "enr_publicKey lib e = bindE (enr_id lib e) (\<lambda>i. if i = ''v4'' then Inr (enr_get ''secp256k1'' e) else Inl ERR_INVALID_ID)"

definition deleteUndefined :: "string \<Rightarrow> 'v option \<Rightarrow> ('v \<Rightarrow> js_error + bytes) \<Rightarrow> enr \<Rightarrow> (enr, unit) call" where
  "deleteUndefined key v transform e =
     (case v of
        None \<Rightarrow> returns (enr_delete key e) ()
      | Some x \<Rightarrow> (case transform x of Inl err \<Rightarrow> throws e err | Inr bs \<Rightarrow> returns (enr_set key bs e) ()))"

definition getStringValue :: "enr_lib \<Rightarrow> string \<Rightarrow> string \<Rightarrow> enr \<Rightarrow> js_error + string option" where
  "getStringValue lib key proto e =
     (case enr_get key e of None \<Rightarrow> Inr None | Some raw \<Rightarrow> bindE (el_convertToString lib proto raw) (\<lambda>s. Inr (Some s)))"

definition setStringValue :: "enr_lib \<Rightarrow> string \<Rightarrow> string \<Rightarrow> string option \<Rightarrow> enr \<Rightarrow> (enr, unit) call" where
  "setStringValue lib key proto v e = deleteUndefined key v (el_convertToBytes lib proto) e"

definition setNumberAsStringValue :: "enr_lib \<Rightarrow> string \<Rightarrow> string \<Rightarrow> nat option \<Rightarrow> enr \<Rightarrow> (enr, unit) call" where
  "setNumberAsStringValue lib key proto v e = setStringValue lib key proto (map_option decimal v) e"

text \<open>The typed fields: which key and which multiaddress protocol each of them has.\<close>

datatype enr_field = Ip | Tcp | Udp | Ip6 | Tcp6 | Udp6

fun field_key :: "enr_field \<Rightarrow> string \<times> string" where
  "field_key Ip = (''ip'', ''ip4'')"
| "field_key Tcp = (''tcp'', ''tcp'')"
| "field_key Udp = (''udp'', ''udp'')"
| "field_key Ip6 = (''ip6'', ''ip6'')"
| "field_key Tcp6 = (''tcp6'', ''tcp'')"
| "field_key Udp6 = (''udp6'', ''udp'')"

definition set_address :: "enr_lib \<Rightarrow> enr_field \<Rightarrow> string option \<Rightarrow> enr \<Rightarrow> (enr, unit) call" where
  "set_address lib f v e = (case field_key f of (key, proto) \<Rightarrow> setStringValue lib key proto v e)"

definition set_port :: "enr_lib \<Rightarrow> enr_field \<Rightarrow> nat option \<Rightarrow> enr \<Rightarrow> (enr, unit) call" where
  "set_port lib f v e = (case field_key f of (key, proto) \<Rightarrow> setNumberAsStringValue lib key proto v e)"

definition enr_rs :: "string \<Rightarrow> enr \<Rightarrow> js_error + shard_info option" where
  "enr_rs key e = (case enr_get key e of None \<Rightarrow> Inr None | Some bs \<Rightarrow> bindE (decodeRelayShard bs) (\<lambda>si. Inr (Some si)))"

definition enr_multiaddrs :: "enr_lib \<Rightarrow> enr \<Rightarrow> js_error + multiaddr list option" where
  "enr_multiaddrs lib e =
     (case enr_get ''multiaddrs'' e of None \<Rightarrow> Inr None | Some raw \<Rightarrow> bindE (decodeMultiaddrs lib raw) (\<lambda>mas. Inr (Some mas)))"

definition set_multiaddrs :: "multiaddr list option \<Rightarrow> enr \<Rightarrow> (enr, unit) call" where
  "set_multiaddrs mas e = deleteUndefined ''multiaddrs'' mas encodeMultiaddrs e"

text \<open>The remainder of \<open>undefined\<close> is not a number, so an empty value has no protocol.\<close>

definition enr_waku2 :: "enr \<Rightarrow> waku2 option" where
  "enr_waku2 e = (case enr_get ''waku2'' e of None \<Rightarrow> None | Some raw \<Rightarrow> Some (decodeWaku2 (case raw of [] \<Rightarrow> 0 | b # _ \<Rightarrow> unat b)))"

definition set_waku2 :: "waku2 option \<Rightarrow> enr \<Rightarrow> (enr, unit) call" where
  "set_waku2 w e = deleteUndefined ''waku2'' w (\<lambda>w. Inr [word_of_nat (encodeWaku2 w)]) e"

definition getNumberAsStringValue :: "enr_lib \<Rightarrow> string \<Rightarrow> string \<Rightarrow> enr \<Rightarrow> js_error + int option" where
  "getNumberAsStringValue lib key proto e =
     (case enr_get key e of None \<Rightarrow> Inr None | Some raw \<Rightarrow> bindE (el_convertToString lib proto raw) (\<lambda>s. Inr (js_Number s)))"

definition get_address :: "enr_lib \<Rightarrow> enr_field \<Rightarrow> enr \<Rightarrow> js_error + string option" where
  "get_address lib f e = (case field_key f of (key, proto) \<Rightarrow> getStringValue lib key proto e)"

definition get_port :: "enr_lib \<Rightarrow> enr_field \<Rightarrow> enr \<Rightarrow> js_error + int option" where
  "get_port lib f e = (case field_key f of (key, proto) \<Rightarrow> getNumberAsStringValue lib key proto e)"

section \<open>enr.ts, creator.ts, crypto.ts, v4.ts\<close>

definition enr_create :: "enr_lib \<Rightarrow> (string \<times> bytes) list \<Rightarrow> nat \<Rightarrow> bytes option \<Rightarrow> enr" where
  "enr_create lib kvs seq sig =
     (let e = \<lparr>er_kvs = kvs, er_seq = seq, er_signature = sig, er_peerId = None\<rparr>
      in e\<lparr>er_peerId := (case enr_publicKey lib e of
                           Inr (Some pk) \<Rightarrow> (case el_peerId lib pk of Inr p \<Rightarrow> Some p | Inl _ \<Rightarrow> None)
                         | _ \<Rightarrow> None)\<rparr>)"

text \<open>
  A raw key of 64 bytes gets the prefix of an uncompressed point; the given fields come first, so the two of the
  creator replace any of the same name in their place.
\<close>

definition compressPublicKey :: "enr_lib \<Rightarrow> bytes \<Rightarrow> js_error + bytes" where
  "compressPublicKey lib pk = el_compressed lib (if length pk = 64 then 4 # pk else pk)"

definition fromPublicKey :: "enr_lib \<Rightarrow> bytes \<Rightarrow> (string \<times> bytes) list \<Rightarrow> js_error + enr" where
  "fromPublicKey lib pk kvs =
     bindE (if length pk \<noteq> 33 then compressPublicKey lib pk else Inr pk)
       (\<lambda>pk'. Inr (enr_create lib (AList.update ''secp256k1'' pk' (AList.update ''id'' (el_fromUtf8 lib ''v4'') kvs)) 1 None))"

definition fromPeerId :: "enr_lib \<Rightarrow> string \<Rightarrow> bytes \<Rightarrow> (string \<times> bytes) list \<Rightarrow> js_error + enr" where
  "fromPeerId lib keyType raw kvs = (if keyType = ''secp256k1'' then fromPublicKey lib raw kvs else Inl (JsError []))"

definition enr_nodeId :: "enr_lib \<Rightarrow> enr \<Rightarrow> js_error + string option" where
  "enr_nodeId lib e =
     bindE (enr_publicKey lib e)
       (\<lambda>pk. case pk of
               None \<Rightarrow> Inr None
             | Some k \<Rightarrow> bindE (el_uncompressed lib k) (\<lambda>u. Inr (Some (bytesToHex (el_keccak lib (drop 1 u))))))"

text \<open>What the curve throws is caught and counts as a wrong signature.\<close>

definition enr_verifySignature :: "enr_lib \<Rightarrow> bytes \<Rightarrow> bytes \<Rightarrow> bytes \<Rightarrow> bool" where
  "enr_verifySignature lib signature message pk = (case el_verify lib (take 64 signature) message pk of Inl _ \<Rightarrow> False | Inr b \<Rightarrow> b)"

definition enr_verify :: "enr_lib \<Rightarrow> enr \<Rightarrow> bytes \<Rightarrow> bytes \<Rightarrow> js_error + bool" where
  "enr_verify lib e message signature =
     (if enr_get ''id'' e = None then Inl ERR_INVALID_ID
      else bindE (enr_id lib e)
        (\<lambda>i. if i \<noteq> ''v4'' then Inl ERR_INVALID_ID
             else bindE (enr_publicKey lib e)
               (\<lambda>pk. case pk of
                       None \<Rightarrow> Inl (JsError ''Failed to verify ENR: No public key'')
                     | Some k \<Rightarrow> Inr (enr_verifySignature lib signature (el_keccak lib message) k))))"

definition enr_sign :: "enr_lib \<Rightarrow> bytes \<Rightarrow> bytes \<Rightarrow> enr \<Rightarrow> (enr, bytes) call" where
  "enr_sign lib message privateKey e =
     (case enr_id lib e of
        Inl err \<Rightarrow> throws e err
      | Inr i \<Rightarrow>
          if i \<noteq> ''v4'' then throws e ERR_INVALID_ID
          else (case el_sign lib privateKey (el_keccak lib message) of
                  Inl err \<Rightarrow> throws e err
                | Inr sig \<Rightarrow> returns (e\<lparr>er_signature := Some sig\<rparr>) sig))"

text \<open>When both fields are there, both are read, and the first one wins.\<close>

definition enr_shardInfo :: "enr \<Rightarrow> js_error + shard_info option" where
  "enr_shardInfo e =
     bindE (enr_rs ''rs'' e)
       (\<lambda>rs. case rs of
               Some si \<Rightarrow> bindE (enr_rs ''rsv'' e) (\<lambda>_. Inr (Some si))
             | None \<Rightarrow> enr_rs ''rsv'' e)"

definition setLocationMultiaddr :: "multiaddr \<Rightarrow> enr \<Rightarrow> (enr, unit) call" where
  "setLocationMultiaddr ma e =
     (let names = ma_protoNames ma; second = (if 1 < length names then Some (names ! 1) else None) in
      if length names \<noteq> 2 \<and> second \<noteq> Some ''udp'' \<and> second \<noteq> Some ''tcp'' then throws e (JsError ''Invalid multiaddr'')
      else case ma_tuples ma of
             (code, Some ip) # (_, Some port) # _ \<Rightarrow>
               (case second of
                  None \<Rightarrow> throws e TypeError
                | Some name \<Rightarrow>
                    if code = 4 then returns (enr_set name port (enr_set ''ip'' ip e)) ()
                    else returns (enr_set (name @ ''6'') port (enr_set ''ip6'' ip e)) ())
           | _ # _ # _ \<Rightarrow> throws e (JsError ''Invalid multiaddr'')
           | (_, None) # _ \<Rightarrow> throws e (JsError ''Invalid multiaddr'')
           | _ \<Rightarrow> throws e TypeError)"

section \<open>get_multiaddr.ts, multiaddr_from_fields.ts\<close>

definition multiaddrFromFields :: "enr_lib \<Rightarrow> string \<Rightarrow> string \<Rightarrow> bytes \<Rightarrow> bytes \<Rightarrow> js_error + multiaddr" where
  "multiaddrFromFields lib ipFamily proto ipBytes protoBytes =
     bindE (el_convertToString lib ipFamily ipBytes)
       (\<lambda>ip. bindE (el_multiaddr lib (''/'' @ ipFamily @ ''/'' @ ip))
         (\<lambda>ma. bindE (el_convertToString lib proto protoBytes)
           (\<lambda>port. bindE (el_multiaddr lib (''/'' @ proto @ ''/'' @ port)) (\<lambda>ma'. Inr (el_encapsulate lib ma ma')))))"

datatype location_protocol = L_UDP | L_TCP | L_UDP4 | L_UDP6 | L_TCP4 | L_TCP6

text \<open>The keys of the address and of the port, and the names of the two protocols.\<close>

fun location_fields :: "location_protocol \<Rightarrow> string \<times> string \<times> string \<times> string" where
  "location_fields L_UDP4 = (''ip'', ''udp'', ''ip4'', ''udp'')"
| "location_fields L_UDP6 = (''ip6'', ''udp6'', ''ip6'', ''udp'')"
| "location_fields L_TCP4 = (''ip'', ''tcp'', ''ip4'', ''tcp'')"
| "location_fields L_TCP6 = (''ip6'', ''tcp6'', ''ip6'', ''tcp'')"
| "location_fields _ = ([], [], [], [])"

definition location_of :: "enr_lib \<Rightarrow> enr \<Rightarrow> location_protocol \<Rightarrow> js_error + multiaddr option" where
  "location_of lib e p =
     (case location_fields p of (ipKey, protoKey, ipFamily, proto) \<Rightarrow>
        case (enr_get ipKey e, enr_get protoKey e) of
          (Some ip, Some port) \<Rightarrow> bindE (multiaddrFromFields lib ipFamily proto ip port) (\<lambda>ma. Inr (Some ma))
        | _ \<Rightarrow> Inr None)"

definition location_or :: "enr_lib \<Rightarrow> enr \<Rightarrow> location_protocol \<Rightarrow> location_protocol \<Rightarrow> js_error + multiaddr option" where
  "location_or lib e p q = bindE (location_of lib e p) (\<lambda>r. case r of Some ma \<Rightarrow> Inr (Some ma) | None \<Rightarrow> location_of lib e q)"

definition locationMultiaddrFromEnrFields :: "enr_lib \<Rightarrow> enr \<Rightarrow> location_protocol \<Rightarrow> js_error + multiaddr option" where
  "locationMultiaddrFromEnrFields lib e p =
     (case p of
        L_UDP \<Rightarrow> location_or lib e L_UDP4 L_UDP6
      | L_TCP \<Rightarrow> location_or lib e L_TCP4 L_TCP6
      | _ \<Rightarrow> location_of lib e p)"

definition with_peer :: "enr_lib \<Rightarrow> enr \<Rightarrow> multiaddr \<Rightarrow> multiaddr" where
  "with_peer lib e ma = (case er_peerId e of None \<Rightarrow> ma | Some p \<Rightarrow> el_encapsulate lib ma (el_p2p lib p))"

fun collect_locations :: "enr_lib \<Rightarrow> enr \<Rightarrow> location_protocol list \<Rightarrow> js_error + multiaddr list" where
  "collect_locations lib e [] = Inr []"
| "collect_locations lib e (p # ps) =
     bindE (locationMultiaddrFromEnrFields lib e p)
       (\<lambda>r. bindE (collect_locations lib e ps) (\<lambda>mas. Inr (case r of None \<Rightarrow> mas | Some ma \<Rightarrow> ma # mas)))"

definition getAllLocationMultiaddrs :: "enr_lib \<Rightarrow> enr \<Rightarrow> js_error + multiaddr list" where
  "getAllLocationMultiaddrs lib e =
     bindE (collect_locations lib e [L_TCP4, L_UDP4, L_TCP6, L_UDP6])
       (\<lambda>mas. bindE (enr_multiaddrs lib e)
         (\<lambda>more. Inr (map (with_peer lib e) (mas @ (case more of None \<Rightarrow> [] | Some ms \<Rightarrow> ms)))))"

definition enr_peerInfo :: "enr_lib \<Rightarrow> enr \<Rightarrow> js_error + (string \<times> multiaddr list) option" where
  "enr_peerInfo lib e =
     (case er_peerId e of
        None \<Rightarrow> Inr None
      | Some p \<Rightarrow> bindE (getAllLocationMultiaddrs lib e) (\<lambda>mas. Inr (Some (p, mas))))"

definition getFullMultiaddr :: "enr_lib \<Rightarrow> enr \<Rightarrow> location_protocol \<Rightarrow> js_error + multiaddr option" where
  "getFullMultiaddr lib e p =
     (if er_peerId e = None then Inr None
      else bindE (locationMultiaddrFromEnrFields lib e p) (\<lambda>r. Inr (map_option (with_peer lib e) r)))"

definition getFullMultiaddrs :: "enr_lib \<Rightarrow> enr \<Rightarrow> js_error + multiaddr list" where
  "getFullMultiaddrs lib e =
     (if er_peerId e = None then Inr []
      else bindE (enr_multiaddrs lib e) (\<lambda>r. Inr (case r of None \<Rightarrow> [] | Some mas \<Rightarrow> map (with_peer lib e) mas)))"

section \<open>encoder.ts\<close>

definition MAX_RECORD_SIZE :: nat where "MAX_RECORD_SIZE = 300"
definition RECORD_PREFIX :: string where "RECORD_PREFIX = ''enr:''"

text \<open>The sequence number goes into an array of one byte, which keeps it modulo 256.\<close>

definition enr_content :: "enr_lib \<Rightarrow> enr \<Rightarrow> bytes list" where
  "enr_content lib e =
     [word_of_nat (er_seq e)]
       # concat (map (\<lambda>k. [el_fromUtf8 lib k, the (enr_get k e)]) (js_sort (el_localeCompare lib) (map fst (er_kvs e))))"

definition enr_toValues :: "enr_lib \<Rightarrow> bytes option \<Rightarrow> enr \<Rightarrow> (enr, bytes list) call" where
  "enr_toValues lib privateKey e =
     (case privateKey of
        Some sk \<Rightarrow> then_do (enr_sign lib (el_rlp_encode lib (enr_content lib e)) sk e) (\<lambda>e' sig. returns e' (sig # enr_content lib e))
      | None \<Rightarrow> (case er_signature e of
                   None \<Rightarrow> throws e (JsError ''No valid signature found'')
                 | Some sig \<Rightarrow> returns e (sig # enr_content lib e)))"

definition enr_toBytes :: "enr_lib \<Rightarrow> bytes option \<Rightarrow> enr \<Rightarrow> (enr, bytes) call" where
  "enr_toBytes lib privateKey e =
     then_do (enr_toValues lib privateKey e)
       (\<lambda>e' values. let encoded = el_rlp_encode lib values in
          if MAX_RECORD_SIZE \<le> length encoded then throws e' (JsError ''ENR must be less than 300 bytes'') else returns e' encoded)"

definition enr_toString :: "enr_lib \<Rightarrow> bytes option \<Rightarrow> enr \<Rightarrow> (enr, string) call" where
  "enr_toString lib privateKey e =
     then_do (enr_toBytes lib privateKey e) (\<lambda>e' bs. returns e' (RECORD_PREFIX @ el_toBase64url lib bs))"

section \<open>decoder.ts\<close>

text \<open>The hexadecimal digits are read back as a number; an empty one is zero.\<close>

definition decodeSeq :: "bytes \<Rightarrow> nat" where
  "decodeSeq sq = be_value sq"

text \<open>A pair whose key is not UTF-8 is skipped; a key that comes again replaces the value.\<close>

fun read_kvs :: "enr_lib \<Rightarrow> bytes list \<Rightarrow> (string \<times> bytes) list \<Rightarrow> (string \<times> bytes) list" where
  "read_kvs lib (k # v # rest) obj =
     read_kvs lib rest (case el_toUtf8 lib k of Inl e \<Rightarrow> obj | Inr key \<Rightarrow> AList.update key v obj)"
| "read_kvs lib _ obj = obj"

definition checkSignature :: "enr_lib \<Rightarrow> bytes \<Rightarrow> bytes list \<Rightarrow> enr \<Rightarrow> bytes \<Rightarrow> js_error + unit" where
  "checkSignature lib sq kvs e signature =
     bindE (enr_verify lib e (el_rlp_encode lib (sq # kvs)) signature)
       (\<lambda>ok. if ok then Inr () else Inl (JsError ''Unable to verify ENR signature''))"

definition enr_fromValues :: "enr_lib \<Rightarrow> bytes list \<Rightarrow> js_error + enr" where
  "enr_fromValues lib values =
     (if length values mod 2 \<noteq> 0 then Inl (JsError ''Decoded ENR must have an even number of elements'')
      else case values of
             signature # sq # kvs \<Rightarrow>
               (let e = enr_create lib (read_kvs lib kvs []) (decodeSeq sq) (Some signature)
                in bindE (checkSignature lib sq kvs e signature) (\<lambda>_. Inr e))
           | _ \<Rightarrow> Inl (JsError ''Decoded ENR invalid signature: must be a byte array''))"

definition enr_fromRLP :: "enr_lib \<Rightarrow> bytes \<Rightarrow> js_error + enr" where
  "enr_fromRLP lib encoded = bindE (el_rlp_decode lib encoded) (enr_fromValues lib)"

definition enr_fromString :: "enr_lib \<Rightarrow> string \<Rightarrow> js_error + enr" where
  "enr_fromString lib s =
     (if take 4 s \<noteq> RECORD_PREFIX then Inl (JsError ''string encoded ENR must start with enr:'')
      else bindE (el_fromBase64url lib (drop 4 s)) (enr_fromRLP lib))"

section \<open>Records are read back\<close>

text \<open>What the packages promise: decoders undo encoders, and a signature verifies under the key of its signer.\<close>

definition enr_lib_ok :: "enr_lib \<Rightarrow> bytes \<Rightarrow> bytes \<Rightarrow> bool" where
  "enr_lib_ok lib sk pk \<longleftrightarrow>
     (\<forall>s. el_toUtf8 lib (el_fromUtf8 lib s) = Inr s) \<and> (\<forall>xs. el_rlp_decode lib (el_rlp_encode lib xs) = Inr xs)
     \<and> (\<forall>bs. el_fromBase64url lib (el_toBase64url lib bs) = Inr bs)
     \<and> (\<forall>h sig. el_sign lib sk h = Inr sig \<longrightarrow> el_verify lib (take 64 sig) h pk = Inr True)"

lemma read_kvs_written:
  assumes "\<forall>s. el_toUtf8 lib (el_fromUtf8 lib s) = Inr s" and "distinct ks" and "set ks \<inter> fst ` set obj = {}"
  shows "read_kvs lib (concat (map (\<lambda>k. [el_fromUtf8 lib k, f k]) ks)) obj = obj @ map (\<lambda>k. (k, f k)) ks"
  using assms(2,3)
proof (induction ks arbitrary: obj)
  case (Cons k ks)
  have "AList.update k (f k) obj = obj @ [(k, f k)]" using Cons.prems(2)
    by (induction obj) auto
  with Cons.IH[of "obj @ [(k, f k)]"] Cons.prems assms(1) show ?case by simp
qed simp

lemma distinct_js_sort: "distinct xs \<Longrightarrow> distinct (js_sort cmp xs)"
  by (metis mset_eq_imp_distinct_iff mset_js_sort)

lemma length_content: "length (concat (map (\<lambda>k. [a k, b k]) ks)) mod 2 = 0"
  by (induction ks) auto

lemma content_read_back:
  assumes "\<forall>s. el_toUtf8 lib (el_fromUtf8 lib s) = Inr s" and "distinct (map fst (er_kvs e))"
  shows "map_of (read_kvs lib (tl (enr_content lib e)) []) = map_of (er_kvs e)"
proof -
  let ?ks = "js_sort (el_localeCompare lib) (map fst (er_kvs e))"
  have ks: "distinct ?ks" "set ?ks = fst ` set (er_kvs e)" using assms(2) by (simp_all add: distinct_js_sort)
  have "read_kvs lib (tl (enr_content lib e)) [] = map (\<lambda>k. (k, the (enr_get k e))) ?ks"
    unfolding enr_content_def list.sel using read_kvs_written[OF assms(1) ks(1), of "[]"] by simp
  moreover have "map_of (map (\<lambda>k. (k, g k)) ks) k = (if k \<in> set ks then Some (g k) else None)" for g :: "string \<Rightarrow> bytes" and ks k
    by (induction ks) auto
  moreover have "k \<in> fst ` set (er_kvs e) \<longleftrightarrow> map_of (er_kvs e) k \<noteq> None" for k by (simp add: map_of_eq_None_iff)
  ultimately show ?thesis by (auto simp: ks enr_get_def fun_eq_iff)
qed

lemma enr_create_fields [simp]:
  "er_kvs (enr_create lib kvs n sig) = kvs" "er_seq (enr_create lib kvs n sig) = n" "er_signature (enr_create lib kvs n sig) = sig"
  by (simp_all add: enr_create_def Let_def)

text \<open>C36: The text of a record that is signed with the key it names is read back as a record with the same fields and the
  signature that was made; its sequence number comes back modulo 256.
\<close>

theorem enr_text_roundtrip:
  assumes "enr_lib_ok lib sk pk" and "distinct (map fst (er_kvs e))"
    and "enr_get ''id'' e = Some (el_fromUtf8 lib ''v4'')" and "enr_get ''secp256k1'' e = Some pk"
    and "enr_toString lib (Some sk) e = (e', Inr s)"
  shows "\<exists>d. enr_fromString lib s = Inr d \<and> (\<forall>k. enr_get k d = enr_get k e)
    \<and> er_seq d = er_seq e mod 256 \<and> er_signature d = er_signature e' \<and> er_signature e' \<noteq> None"
proof -
  let ?c = "enr_content lib e"
  have id: "enr_id lib e = Inr ''v4''" using assms(1,3) by (simp add: enr_id_def enr_lib_ok_def)
  obtain sig where sig: "el_sign lib sk (el_keccak lib (el_rlp_encode lib ?c)) = Inr sig" and e': "e' = e\<lparr>er_signature := Some sig\<rparr>"
    and s: "s = RECORD_PREFIX @ el_toBase64url lib (el_rlp_encode lib (sig # ?c))"
    using assms(5) by (auto simp: enr_toString_def enr_toBytes_def enr_toValues_def enr_sign_def id Let_def split: sum.splits if_splits)
  have c: "?c = [word_of_nat (er_seq e)] # tl ?c" by (simp add: enr_content_def)
  have even: "length (sig # ?c) mod 2 = 0" using length_content by (simp add: enr_content_def)
  let ?d = "enr_create lib (read_kvs lib (tl ?c) []) (decodeSeq [word_of_nat (er_seq e)]) (Some sig)"
  have get: "enr_get k ?d = enr_get k e" for k
    using content_read_back[of lib e] assms(1,2) by (simp add: enr_get_def enr_lib_ok_def)
  have idd: "enr_id lib ?d = Inr ''v4''" using assms(1,3) get[of "''id''"] by (simp add: enr_id_def enr_lib_ok_def)
  have ver: "enr_verify lib ?d (el_rlp_encode lib ?c) sig = Inr True"
    using assms(1,3,4) get idd sig
    by (simp add: enr_verify_def enr_publicKey_def enr_verifySignature_def enr_lib_ok_def)
  have "checkSignature lib [word_of_nat (er_seq e)] (tl ?c) ?d sig = Inr ()"
    using ver by (simp add: checkSignature_def flip: c)
  then have "enr_fromValues lib (sig # ([word_of_nat (er_seq e)] # tl ?c)) = Inr ?d"
    using even by (subst (asm) c) (simp add: enr_fromValues_def Let_def)
  then have "enr_fromValues lib (sig # ?c) = Inr ?d" by (simp flip: c)
  then have "enr_fromString lib s = Inr ?d" using assms(1) s
    by (simp add: enr_fromString_def enr_fromRLP_def enr_lib_ok_def RECORD_PREFIX_def)
  moreover have "er_seq ?d = er_seq e mod 256" by (simp add: decodeSeq_def be_value_def unat_of_nat)
  ultimately show ?thesis using get e' by auto
qed

section \<open>The codec of the multiaddresses\<close>

lemma be_bytes_uint_of: "be_bytes 2 (uint_of 2 (int v)) = be_bytes 2 v"
proof -
  have "v mod 65536 div 256 = v div 256 mod 256" using mod_mult2_eq[of v 256 256] by simp
  moreover have "v mod 65536 mod 256 = v mod 256" by (rule mod_mod_cancel) simp
  moreover have "of_nat (x mod 256) = (of_nat x :: byte)" for x by (simp add: word_unat_eq_iff unat_of_nat)
  ultimately show ?thesis by (simp add: numeral_2_eq_2 uint_of_def nat_mod_distrib) metis
qed

lemma write_multiaddrs_ok:
  assumes "\<forall>ma\<in>set mas. truthy (ma_peerId ma) = None"
    and "length rest = sum_list (map (\<lambda>ma. MULTIADDR_LENGTH_SIZE + length (ma_bytes ma)) mas)"
  shows "write_multiaddrs mas (length pre) (pre @ rest)
    = Inr (pre @ concat (map (\<lambda>ma. be_bytes 2 (length (ma_bytes ma)) @ ma_bytes ma) mas))"
  using assms
proof (induction mas arbitrary: pre rest)
  case (Cons ma mas)
  let ?b = "ma_bytes ma"
  let ?pre = "pre @ be_bytes 2 (length ?b) @ ?b"
  have "set_be 2 (length pre) (uint_of 2 (int (length ?b))) (pre @ rest) = Inr (pre @ be_bytes 2 (length ?b) @ drop 2 rest)"
    using Cons.prems(2) by (simp add: set_be_def MULTIADDR_LENGTH_SIZE_def be_bytes_uint_of)
  then show ?case
    using Cons.prems Cons.IH[of "drop (2 + length ?b) rest" ?pre] by (simp add: MULTIADDR_LENGTH_SIZE_def Let_def)
qed simp

lemma decode_multiaddrs_written:
  assumes "\<forall>ma\<in>set mas. length (ma_bytes ma) < 65536 \<and> el_multiaddrOfBytes lib (ma_bytes ma) = Inr ma"
  shows "decode_multiaddrs_from lib (pre @ concat (map (\<lambda>ma. be_bytes 2 (length (ma_bytes ma)) @ ma_bytes ma) mas)) (length pre) = Inr mas"
  using assms
proof (induction mas arbitrary: pre)
  case (Cons ma mas)
  let ?b = "ma_bytes ma"
  let ?pre = "pre @ be_bytes 2 (length ?b) @ ?b" and ?rest = "concat (map (\<lambda>ma. be_bytes 2 (length (ma_bytes ma)) @ ma_bytes ma) mas)"
  have "get_be 2 (length pre) (pre @ be_bytes 2 (length ?b) @ ?b @ ?rest) = Inr (length ?b)"
    using get_be_append[of pre "length pre" 2 "length ?b" "?b @ ?rest"] Cons.prems by simp
  then show ?case using Cons.prems Cons.IH[of ?pre]
    by (simp add: MULTIADDR_LENGTH_SIZE_def del: decode_multiaddrs_from.simps add: decode_multiaddrs_from.simps[of _ _ "length pre"])
qed simp

text \<open>The multiaddresses of a record are read back when each of them is shorter than \<open>2 ^ 16\<close> bytes.\<close>

theorem multiaddrs_roundtrip:
  assumes "\<forall>ma\<in>set mas. truthy (ma_peerId ma) = None \<and> length (ma_bytes ma) < 65536 \<and> el_multiaddrOfBytes lib (ma_bytes ma) = Inr ma"
  shows "\<exists>e'. set_multiaddrs (Some mas) e = returns e' () \<and> enr_multiaddrs lib e' = Inr (Some mas)
    \<and> er_seq e' = er_seq e + 1 \<and> er_signature e' = None"
proof -
  have "encodeMultiaddrs mas = Inr (concat (map (\<lambda>ma. be_bytes 2 (length (ma_bytes ma)) @ ma_bytes ma) mas))"
    using write_multiaddrs_ok[of mas _ "[]"] assms unfolding encodeMultiaddrs_def by simp
  with decode_multiaddrs_written[of mas lib "[]"] assms show ?thesis
    by (simp add: set_multiaddrs_def deleteUndefined_def enr_multiaddrs_def enr_get_def enr_set_def decodeMultiaddrs_def update_conv'
        del: decode_multiaddrs_from.simps)
qed

text \<open>
  Setting an address or a port takes the next sequence number and drops the signature, and the value is read back;
  unsetting it removes the key and leaves the sequence number and the signature as they were.
\<close>

lemma address_set:
  assumes "el_convertToBytes lib (snd (field_key f)) a = Inr bs" and "el_convertToString lib (snd (field_key f)) bs = Inr a"
  shows "\<exists>e'. set_address lib f (Some a) e = returns e' () \<and> get_address lib f e' = Inr (Some a)
    \<and> er_seq e' = er_seq e + 1 \<and> er_signature e' = None"
  using assms
  by (cases "field_key f")
    (simp add: set_address_def get_address_def setStringValue_def getStringValue_def deleteUndefined_def enr_get_def enr_set_def
      update_conv' returns_def)

theorem address_unset:
  "\<exists>e'. set_address lib f None e = returns e' () \<and> get_address lib f e' = Inr None
    \<and> er_seq e' = er_seq e \<and> er_signature e' = er_signature e"
  by (cases "field_key f")
    (simp add: set_address_def get_address_def setStringValue_def getStringValue_def deleteUndefined_def enr_get_def
      enr_delete_def delete_conv' returns_def)

text \<open>A record that was decoded, from whatever text, names the scheme \<open>v4\<close> and a key, and its signature is one of this
  key over the rest of the record.
\<close>

theorem decoded_enr_verified:
  assumes "enr_fromString lib s = Inr d"
  shows "\<exists>sq kvs sig pk. er_signature d = Some sig \<and> enr_id lib d = Inr ''v4'' \<and> enr_get ''secp256k1'' d = Some pk
    \<and> el_verify lib (take 64 sig) (el_keccak lib (el_rlp_encode lib (sq # kvs))) pk = Inr True
    \<and> er_seq d = be_value sq \<and> er_kvs d = read_kvs lib kvs []"
proof -
  obtain vs where vs: "enr_fromValues lib vs = Inr d"
    using assms by (auto simp: enr_fromString_def enr_fromRLP_def bindE_Inr split: if_splits)
  then obtain sig sq kvs where "vs = sig # sq # kvs" by (auto simp: enr_fromValues_def split: if_splits list.splits)
  with vs have d: "d = enr_create lib (read_kvs lib kvs []) (decodeSeq sq) (Some sig)"
    and ok: "enr_verify lib d (el_rlp_encode lib (sq # kvs)) sig = Inr True"
    by (auto simp: enr_fromValues_def checkSignature_def bindE_Inr Let_def split: if_splits)
  from ok have "enr_id lib d = Inr ''v4''" by (auto simp: enr_verify_def bindE_Inr split: if_splits)
  moreover from ok this obtain pk where "enr_get ''secp256k1'' d = Some pk"
    and "el_verify lib (take 64 sig) (el_keccak lib (el_rlp_encode lib (sq # kvs))) pk = Inr True"
    by (auto simp: enr_verify_def enr_publicKey_def enr_verifySignature_def split: if_splits option.splits sum.splits)
  moreover have "er_signature d = Some sig" "er_seq d = be_value sq" "er_kvs d = read_kvs lib kvs []"
    by (simp_all add: d decodeSeq_def)
  ultimately show ?thesis by blast
qed

section \<open>Examples\<close>

text \<open>A package in which the laws hold: an item is written with a 1 before each byte and a 0 after the last one.\<close>

fun ex_rlp_decode :: "bytes \<Rightarrow> bytes \<Rightarrow> bytes list" where
  "ex_rlp_decode acc (x # xs) =
     (if x = 0 then acc # ex_rlp_decode [] xs
      else case xs of [] \<Rightarrow> [] | b # rest \<Rightarrow> ex_rlp_decode (acc @ [b]) rest)"
| "ex_rlp_decode acc [] = []"

definition ex_rlp :: "bytes list \<Rightarrow> bytes" where
  "ex_rlp xs = concat (map (\<lambda>x. concat (map (\<lambda>b. [1, b]) x) @ [0]) xs)"

lemma ex_rlp_item: "ex_rlp_decode acc (concat (map (\<lambda>b. [1, b]) x) @ 0 # rest) = (acc @ x) # ex_rlp_decode [] rest"
  by (induction x arbitrary: acc) simp_all

lemma ex_rlp_roundtrip: "ex_rlp_decode [] (ex_rlp xs) = xs"
  by (induction xs) (simp_all add: ex_rlp_def ex_rlp_item)

definition ex_utf8 :: "string \<Rightarrow> bytes" where "ex_utf8 = map (\<lambda>c. word_of_nat (of_char c))"
definition ex_text_of :: "bytes \<Rightarrow> string" where "ex_text_of = map (\<lambda>b. char_of (unat b))"

lemma ex_utf8_roundtrip: "ex_text_of (ex_utf8 s) = s" "ex_utf8 (ex_text_of bs) = bs"
proof -
  have "unat (word_of_nat (of_char c) :: byte) = of_char c" for c :: char
    by (simp add: unat_of_nat)
  then show "ex_text_of (ex_utf8 s) = s" by (simp add: ex_text_of_def ex_utf8_def comp_def)
  have "unat b mod 256 = unat b" for b :: byte using unat_byte_bound[of b] by simp
  then show "ex_utf8 (ex_text_of bs) = bs" by (simp add: ex_text_of_def ex_utf8_def comp_def)
qed

definition ex_enr_lib :: enr_lib where
  "ex_enr_lib =
     \<lparr>el_fromUtf8 = ex_utf8, el_toUtf8 = (\<lambda>bs. Inr (ex_text_of bs)),
      el_rlp_encode = ex_rlp, el_rlp_decode = (\<lambda>bs. Inr (ex_rlp_decode [] bs)),
      el_toBase64url = ex_text_of, el_fromBase64url = (\<lambda>s. Inr (ex_utf8 s)), el_keccak = (\<lambda>bs. take 32 bs),
      el_sign = (\<lambda>sk h. Inr (take 64 (sk @ h))), el_verify = (\<lambda>sig h pk. Inr (sig = take 64 (pk @ h))),
      el_uncompressed = Inr, el_compressed = Inr, el_peerId = (\<lambda>pk. Inr (ex_text_of pk)), el_localeCompare = (\<lambda>a b. 0),
      el_convertToString = (\<lambda>p bs. Inr (ex_text_of bs)), el_convertToBytes = (\<lambda>p s. Inr (ex_utf8 s)),
      el_multiaddr = (\<lambda>s. Inl TypeError),
      el_multiaddrOfBytes = (\<lambda>bs. Inr \<lparr>ma_bytes = bs, ma_peerId = None, ma_protoNames = [], ma_tuples = []\<rparr>),
      el_encapsulate = (\<lambda>a b. a), el_p2p = (\<lambda>p. \<lparr>ma_bytes = [], ma_peerId = Some p, ma_protoNames = [], ma_tuples = []\<rparr>)\<rparr>"

definition ex_enr :: enr where
  "ex_enr = enr_create ex_enr_lib [(''id'', ex_utf8 ''v4''), (''secp256k1'', [7])] 300 None"

lemma ex_enr_lib_ok: "enr_lib_ok ex_enr_lib [7] [7]"
  by (auto simp: enr_lib_ok_def ex_enr_lib_def ex_rlp_roundtrip ex_utf8_roundtrip)

lemma ex_enr_fields: "enr_get ''id'' ex_enr = Some (el_fromUtf8 ex_enr_lib ''v4'')" "enr_get ''secp256k1'' ex_enr = Some [7]"
  "distinct (map fst (er_kvs ex_enr))" "er_seq ex_enr = 300"
  by (simp_all add: ex_enr_def enr_get_def ex_enr_lib_def)

definition ex_fields :: "bytes list" where
  "ex_fields = [[44], ex_utf8 ''id'', ex_utf8 ''v4'', ex_utf8 ''secp256k1'', [7]]"

definition ex_signed :: string where
  "ex_signed = RECORD_PREFIX @ ex_text_of (ex_rlp (take 64 ([7] @ take 32 (ex_rlp ex_fields)) # ex_fields))"

definition ex_decoded :: enr where
  "ex_decoded =
     enr_create ex_enr_lib [(''id'', ex_utf8 ''v4''), (''secp256k1'', [7])] 44 (Some (take 64 ([7] @ take 32 (ex_rlp ex_fields))))"

lemma ex_enr_read: "enr_fromString ex_enr_lib ex_signed = Inr ex_decoded"
proof -
  have kvs: "read_kvs ex_enr_lib (tl ex_fields) [] = [(''id'', ex_utf8 ''v4''), (''secp256k1'', [7])]"
    by (simp add: ex_fields_def ex_enr_lib_def ex_utf8_roundtrip)
  have "enr_fromRLP ex_enr_lib (ex_rlp vs) = enr_fromValues ex_enr_lib vs" for vs
    by (simp add: enr_fromRLP_def ex_enr_lib_def ex_rlp_roundtrip)
  then have "enr_fromString ex_enr_lib ex_signed = enr_fromValues ex_enr_lib (take 64 ([7] @ take 32 (ex_rlp ex_fields)) # ex_fields)"
    by (simp add: enr_fromString_def ex_signed_def RECORD_PREFIX_def ex_utf8_roundtrip ex_enr_lib_def)
  moreover have "checkSignature ex_enr_lib [44] (tl ex_fields) ex_decoded (take 64 ([7] @ take 32 (ex_rlp ex_fields))) = Inr ()"
    by (simp add: checkSignature_def enr_verify_def enr_verifySignature_def enr_publicKey_def enr_id_def enr_get_def
        ex_decoded_def ex_enr_lib_def ex_utf8_roundtrip ex_fields_def)
  moreover have "be_value [44] = 44" by (simp add: be_value_def)
  ultimately show ?thesis using kvs
    by (simp add: enr_fromValues_def ex_decoded_def ex_fields_def decodeSeq_def Let_def)
qed

lemma decoded_enr_verified_witness: "\<exists>sig. er_signature ex_decoded = Some sig \<and> enr_id ex_enr_lib ex_decoded = Inr ''v4''"
  using decoded_enr_verified[OF ex_enr_read] by auto

lemma length_ex_rlp: "length (ex_rlp xs) = sum_list (map (\<lambda>x. 2 * length x + 1) xs)"
proof -
  have "length (concat (map (\<lambda>b. [1 :: byte, b]) x)) = 2 * length x" for x by (induction x) simp_all
  then show ?thesis by (induction xs) (simp_all add: ex_rlp_def)
qed

lemma ex_enr_written: "snd (enr_toString ex_enr_lib (Some [7]) ex_enr) = Inr ex_signed"
proof -
  let ?sig = "take 64 ([7] @ take 32 (ex_rlp ex_fields))"
  have c: "enr_content ex_enr_lib ex_enr = ex_fields"
    by (simp add: enr_content_def ex_enr_def ex_enr_lib_def ex_fields_def enr_get_def)
  have "enr_id ex_enr_lib ex_enr = Inr ''v4''"
    by (simp add: enr_id_def enr_get_def ex_enr_def ex_enr_lib_def ex_utf8_roundtrip)
  then have "enr_toValues ex_enr_lib (Some [7]) ex_enr = returns (ex_enr\<lparr>er_signature := Some ?sig\<rparr>) (?sig # ex_fields)"
    by (simp add: enr_toValues_def enr_sign_def c) (simp add: ex_enr_lib_def)
  moreover have "length (ex_rlp (?sig # ex_fields)) < MAX_RECORD_SIZE"
    by (simp add: length_ex_rlp ex_fields_def MAX_RECORD_SIZE_def ex_utf8_def)
  ultimately show ?thesis
    by (simp add: enr_toString_def enr_toBytes_def Let_def) (simp add: ex_enr_lib_def ex_signed_def)
qed

lemma enr_text_roundtrip_witness: "\<exists>d. enr_fromString ex_enr_lib ex_signed = Inr d \<and> er_seq d = 44"
  using enr_text_roundtrip[OF ex_enr_lib_ok ex_enr_fields(3,1,2), of "fst (enr_toString ex_enr_lib (Some [7]) ex_enr)" ex_signed]
    ex_enr_written ex_enr_fields(4) by (cases "enr_toString ex_enr_lib (Some [7]) ex_enr") auto

end
