(* ===== verification/Dns.thy ===== *)
theory Dns
  imports Enr Dialer "HOL-Library.Countable"
begin

text \<open>
  Discovery of peers over DNS (\<open>packages/discovery/src/dns\<close>): the parsers of the entries of an ENR tree, the random
  descent with its cache and its visited names, the generator of the nodes, and the libp2p service that saves them.
  The resolver, base32 and what \<open>Enr\<close> takes from packages are the record \<open>dns_lib\<close>; the resolver answers the same
  at each call. \<open>Math.random()\<close> is a sequence of numbers in \<open>[0, 1)\<close> and the position in it is part of the state.
  Names that are properties of every JavaScript object, such as \<open>constructor\<close>, are not looked up.
\<close>

section \<open>dns_over_https.ts\<close>

datatype dns_data = Dns_String string | Dns_Bytes bytes
datatype dns_answer = Dns_One dns_data | Dns_Parts "dns_data list"

record dns_lib =
  dl_enr :: enr_lib
  dl_base32 :: "string \<Rightarrow> js_error + bytes"
  dl_resolver :: "string \<Rightarrow> js_error + dns_answer list option"

definition data_text :: "dns_lib \<Rightarrow> dns_data \<Rightarrow> js_error + string" where
  "data_text lib d = (case d of Dns_String s \<Rightarrow> Inr s | Dns_Bytes bs \<Rightarrow> el_toUtf8 (dl_enr lib) bs)"

fun data_texts :: "dns_lib \<Rightarrow> dns_data list \<Rightarrow> js_error + string list" where
  "data_texts lib [] = Inr []"
| "data_texts lib (d # ds) = bindE (data_text lib d) (\<lambda>s. bindE (data_texts lib ds) (\<lambda>ss. Inr (s # ss)))"

definition answer_parts :: "dns_answer \<Rightarrow> dns_data list" where
  "answer_parts a = (case a of Dns_One d \<Rightarrow> [d] | Dns_Parts ds \<Rightarrow> ds)"

definition resolveTXT :: "dns_lib \<Rightarrow> string \<Rightarrow> js_error + string list" where
  "resolveTXT lib domain =
     (case dl_resolver lib domain of
        Inl e \<Rightarrow> Inl (JsError ''DNS query failed'')
      | Inr None \<Rightarrow> Inl (JsError (''Could not resolve '' @ domain))
      | Inr (Some answers) \<Rightarrow> data_texts lib (concat (map answer_parts answers)))"

section \<open>enrtree.ts\<close>

definition TREE_PREFIX :: string where "TREE_PREFIX = ''enrtree:''"
definition BRANCH_PREFIX :: string where "BRANCH_PREFIX = ''enrtree-branch:''"
definition ROOT_PREFIX :: string where "ROOT_PREFIX = ''enrtree-root:''"

definition startsWith :: "string \<Rightarrow> string \<Rightarrow> bool" where
  "startsWith s p \<longleftrightarrow> take (length p) s = p"

text \<open>What stands before the first separator: element 0 of \<open>split\<close>.\<close>

fun before :: "string \<Rightarrow> string \<Rightarrow> string" where
  "before sep [] = []"
| "before sep (c # s) = (if startsWith (c # s) sep then [] else c # before sep s)"

record root_values =
  rv_eRoot :: string
  rv_lRoot :: string
  rv_seq :: nat
  rv_signature :: string

text \<open>The pattern has no spaces inside of its groups: it is matched by five words with four spaces between them.\<close>

definition group_of :: "string \<Rightarrow> string \<Rightarrow> string option" where
  "group_of p w = (if startsWith w p \<and> length p < length w then Some (drop (length p) w) else None)"

definition parseRootValues :: "string \<Rightarrow> js_error + root_values" where
  "parseRootValues txt =
     (case js_split (CHR '' '') txt of
        [w, e, l, q, s] \<Rightarrow>
          (if w \<noteq> ''enrtree-root:v1'' then Inl (JsError ''Could not parse ENRTree root entry'')
           else case (group_of ''e='' e, group_of ''l='' l, group_of ''seq='' q, group_of ''sig='' s) of
                  (Some e', Some l', Some q', Some s') \<Rightarrow>
                    (if list_all is_digit q'
                     then Inr \<lparr>rv_eRoot = e', rv_lRoot = l', rv_seq = read_digits q', rv_signature = s'\<rparr>
                     else Inl (JsError ''Could not parse ENRTree root entry''))
                | _ \<Rightarrow> Inl (JsError ''Could not parse ENRTree root entry''))
      | _ \<Rightarrow> Inl (JsError ''Could not parse ENRTree root entry''))"

definition parseAndVerifyRoot :: "dns_lib \<Rightarrow> string \<Rightarrow> string \<Rightarrow> js_error + string" where
  "parseAndVerifyRoot lib entry publicKey =
     (if \<not> startsWith entry ROOT_PREFIX then Inl (JsError ''ENRTree root entry must start with enrtree-root:'')
      else bindE (parseRootValues entry)
        (\<lambda>rv. bindE (dl_base32 lib publicKey)
          (\<lambda>pk. bindE (el_fromBase64url (dl_enr lib) (rv_signature rv))
            (\<lambda>sig. if enr_verifySignature (dl_enr lib) (take 64 sig)
                        (el_keccak (dl_enr lib) (el_fromUtf8 (dl_enr lib) (before '' sig'' entry))) pk
                   then Inr (rv_eRoot rv)
                   else Inl (JsError ''Unable to verify ENRTree root signature'')))))"

text \<open>The key ends at the first at sign; a dot of the pattern is anything but the end of a line.\<close>

definition is_newline :: "char \<Rightarrow> bool" where
  "is_newline c \<longleftrightarrow> of_char c = (10 :: nat) \<or> of_char c = (13 :: nat)"

definition parseTree :: "string \<Rightarrow> js_error + string \<times> string" where
  "parseTree tree =
     (if \<not> startsWith tree TREE_PREFIX then Inl (JsError ''ENRTree tree entry must start with enrtree:'')
      else if \<not> startsWith tree ''enrtree://'' then Inl (JsError ''Could not parse ENRTree tree entry'')
      else (let body = drop 10 tree; publicKey = takeWhile (\<lambda>c. c \<noteq> CHR ''@'') body; domain = drop (length publicKey + 1) body
            in if publicKey = [] \<or> domain = [] \<or> list_ex is_newline domain
               then Inl (JsError ''Could not parse ENRTree tree entry'') else Inr (publicKey, domain)))"

definition parseBranch :: "string \<Rightarrow> js_error + string list" where
  "parseBranch branch =
     (if \<not> startsWith branch BRANCH_PREFIX then Inl (JsError ''ENRTree branch entry must start with enrtree-branch:'')
      else Inr (js_split (CHR '','') (before BRANCH_PREFIX (drop (length BRANCH_PREFIX) branch))))"

section \<open>dns.ts\<close>

datatype entry_type = Root_Entry | Branch_Entry | Record_Entry | Other_Entry

definition getEntryType :: "string \<Rightarrow> entry_type" where
  "getEntryType entry =
     (if startsWith entry ROOT_PREFIX then Root_Entry
      else if startsWith entry BRANCH_PREFIX then Branch_Entry
      else if startsWith entry RECORD_PREFIX then Record_Entry
      else Other_Entry)"

record search_context =
  sc_domain :: string
  sc_publicKey :: string

text \<open>The visited names belong to the context of one tree, the cache to all of them.\<close>

record search_state =
  ss_cache :: "string \<rightharpoonup> string"
  ss_visits :: "string set"
  ss_draws :: nat

definition dns_location :: "string \<Rightarrow> search_context \<Rightarrow> string" where
  "dns_location subdomain ctx =
     (if subdomain \<noteq> sc_domain ctx then subdomain @ ''.'' @ sc_domain ctx else sc_domain ctx)"

definition fetch_text :: "dns_lib \<Rightarrow> search_context \<Rightarrow> string \<Rightarrow> js_error + string" where
  "fetch_text lib ctx subdomain =
     bindE (resolveTXT lib (dns_location subdomain ctx))
       (\<lambda>response. case response of
          [] \<Rightarrow> Inl (JsError ''Received empty result array while fetching TXT record'')
        | r # rs \<Rightarrow> if r = [] then Inl (JsError ''Received empty TXT record'') else Inr (concat (r # rs)))"

definition getTXTRecord :: "dns_lib \<Rightarrow> search_context \<Rightarrow> string \<Rightarrow> search_state \<Rightarrow> (search_state, string) call" where
  "getTXTRecord lib ctx subdomain s =
     (case truthy (ss_cache s subdomain) of
        Some t \<Rightarrow> returns s t
      | None \<Rightarrow> (case fetch_text lib ctx subdomain of
                   Inl e \<Rightarrow> throws s e
                 | Inr t \<Rightarrow> returns (s\<lparr>ss_cache := (ss_cache s)(subdomain \<mapsto> t)\<rparr>) t))"

text \<open>The loop of \<open>selectRandomPath\<close>: \<open>None\<close> when it draws for ever.\<close>

partial_function (option) draw_index :: "(nat \<Rightarrow> real) \<Rightarrow> string list \<Rightarrow> string set \<Rightarrow> nat \<Rightarrow> (nat \<times> nat) option" where
  "draw_index random branches visits n =
     (let i = nat \<lfloor>random n * of_nat (length branches)\<rfloor>
      in if branches ! i \<in> visits then draw_index random branches visits (n + 1) else Some (i, n + 1))"

definition selectRandomPath :: "(nat \<Rightarrow> real) \<Rightarrow> string list \<Rightarrow> search_state \<Rightarrow> (search_state, string) call option" where
  "selectRandomPath random branches s =
     (if set branches \<subseteq> ss_visits s then Some (throws s (JsError ''Unresolvable circular path detected''))
      else map_option (\<lambda>(i, n). returns (s\<lparr>ss_draws := n\<rparr>) (branches ! i))
             (draw_index random branches (ss_visits s) (ss_draws s)))"

text \<open>
  A record is decoded in two parts: what is thrown at once is caught here, but the promise of the rest is handed
  on, so its rejection reaches the caller. A caller that is itself a search awaits it, and catches it.
\<close>

definition decode_entry :: "dns_lib \<Rightarrow> string \<Rightarrow> js_error + enr option" where
  "decode_entry lib entry =
     (case bindE (el_fromBase64url (dl_enr lib) (drop 4 entry)) (el_rlp_decode (dl_enr lib)) of
        Inl e \<Rightarrow> Inr None
      | Inr vs \<Rightarrow> bindE (enr_fromValues (dl_enr lib) vs) (\<lambda>d. Inr (Some d)))"

definition caught :: "(search_state, enr option) call \<Rightarrow> (search_state, enr option) call" where
  "caught r = (fst r, Inr (case snd r of Inl e \<Rightarrow> None | Inr p \<Rightarrow> p))"

partial_function (option) search ::
  "dns_lib \<Rightarrow> (nat \<Rightarrow> real) \<Rightarrow> search_context \<Rightarrow> string \<Rightarrow> search_state \<Rightarrow> (search_state, enr option) call option" where
  "search lib random ctx subdomain s =
     (case getTXTRecord lib ctx subdomain s of
        (s, Inl e) \<Rightarrow> Some (returns s None)
      | (s, Inr entry) \<Rightarrow>
          (let s = s\<lparr>ss_visits := insert subdomain (ss_visits s)\<rparr> in
           case getEntryType entry of
             Root_Entry \<Rightarrow>
               (case parseAndVerifyRoot lib entry (sc_publicKey ctx) of
                  Inl e \<Rightarrow> Some (returns s None)
                | Inr next \<Rightarrow> Option.bind (search lib random ctx next s) (\<lambda>r. Some (caught r)))
           | Branch_Entry \<Rightarrow>
               (case parseBranch entry of
                  Inl e \<Rightarrow> Some (returns s None)
                | Inr branches \<Rightarrow>
                    Option.bind (selectRandomPath random branches s)
                      (\<lambda>r. case r of
                         (s, Inl e) \<Rightarrow> Some (returns s None)
                       | (s, Inr next) \<Rightarrow> Option.bind (search lib random ctx next s) (\<lambda>r. Some (caught r))))
           | Record_Entry \<Rightarrow> Some (s, decode_entry lib entry)
           | Other_Entry \<Rightarrow> Some (returns s None)))"

section \<open>fetch_nodes.ts\<close>

text \<open>
  The generator together with the loop that takes its nodes: \<open>body\<close> is one round of that loop, which goes on, leaves
  the loop (and with it the generator) or throws. The address in the log line is read after the node was taken.
\<close>

datatype flow = Go | Return | Throw js_error
datatype found = No_Node | Known_Node | New_Node string enr

definition found_node :: "enr_lib \<Rightarrow> string set \<Rightarrow> enr option \<Rightarrow> js_error + found" where
  "found_node el ids r =
     (case r of
        None \<Rightarrow> Inr No_Node
      | Some p \<Rightarrow> bindE (enr_nodeId el p)
          (\<lambda>i. Inr (case truthy i of
                     None \<Rightarrow> No_Node
                   | Some nid \<Rightarrow> if nid \<in> ids then Known_Node else New_Node nid p)))"

definition take_node :: "enr_lib \<Rightarrow> (enr \<Rightarrow> 'c \<Rightarrow> 'c \<times> flow) \<Rightarrow> enr \<Rightarrow> 'c \<Rightarrow> 'c \<times> flow" where
  "take_node el body p c =
     (case (if enr_waku2 p = None then (c, Go) else body p c) of
        (c', Go) \<Rightarrow> (c', case get_address el Ip p of Inl e \<Rightarrow> Throw e | Inr _ \<Rightarrow> Go)
      | r \<Rightarrow> r)"

function fetch_loop ::
  "enr_lib \<Rightarrow> ('s \<Rightarrow> ('s, enr option) call option) \<Rightarrow> (enr \<Rightarrow> 'c \<Rightarrow> 'c \<times> flow) \<Rightarrow> nat \<Rightarrow> nat \<Rightarrow> nat \<Rightarrow> nat \<Rightarrow> string set
    \<Rightarrow> 's \<Rightarrow> 'c \<Rightarrow> ('s \<times> 'c \<times> flow) option" where
  "fetch_loop el getNode body maxGet maxErrors searches errs ids s c =
     (if searches < maxGet \<and> errs < maxErrors then
        (case getNode s of
           None \<Rightarrow> None
         | Some (s', r) \<Rightarrow>
             (case bindE r (found_node el ids) of
                Inl e \<Rightarrow> Some (s', c, Throw e)
              | Inr No_Node \<Rightarrow> fetch_loop el getNode body maxGet maxErrors (searches + 1) (errs + 1) ids s' c
              | Inr Known_Node \<Rightarrow> fetch_loop el getNode body maxGet maxErrors (searches + 1) errs ids s' c
              | Inr (New_Node nid p) \<Rightarrow>
                  (case take_node el body p c of
                     (c', Go) \<Rightarrow> fetch_loop el getNode body maxGet maxErrors (searches + 1) errs (insert nid ids) s' c'
                   | (c', fl) \<Rightarrow> Some (s', c', fl))))
      else Some (s, c, Go))"
  by pat_completeness auto

termination
  by (relation "measure (\<lambda>(el, getNode, body, maxGet, maxErrors, searches, errs, ids, s, c). maxGet - searches)") auto

definition fetchNodes ::
  "enr_lib \<Rightarrow> ('s \<Rightarrow> ('s, enr option) call option) \<Rightarrow> (enr \<Rightarrow> 'c \<Rightarrow> 'c \<times> flow) \<Rightarrow> 's \<Rightarrow> 'c \<Rightarrow> ('s \<times> 'c \<times> flow) option" where
  "fetchNodes el getNode body s c = fetch_loop el getNode body 10 3 0 0 {} s c"

text \<open>\<open>getNextPeer\<close>, with the loop over its peers: each tree starts with no visited names.\<close>

fun next_peers ::
  "dns_lib \<Rightarrow> (nat \<Rightarrow> real) \<Rightarrow> (enr \<Rightarrow> 'c \<Rightarrow> 'c \<times> flow) \<Rightarrow> string list \<Rightarrow> search_state \<Rightarrow> 'c \<Rightarrow> (search_state \<times> 'c \<times> flow) option" where
  "next_peers lib random body [] s c = Some (s, c, Go)"
| "next_peers lib random body (url # urls) s c =
     (case parseTree url of
        Inl e \<Rightarrow> Some (s, c, Throw e)
      | Inr (publicKey, domain) \<Rightarrow>
          (case fetchNodes (dl_enr lib) (search lib random \<lparr>sc_domain = domain, sc_publicKey = publicKey\<rparr> domain) body
                  (s\<lparr>ss_visits := {}\<rparr>) c of
             None \<Rightarrow> None
           | Some (s', c', Go) \<Rightarrow> next_peers lib random body urls s' c'
           | r \<Rightarrow> r))"

definition getNextPeer ::
  "dns_lib \<Rightarrow> (nat \<Rightarrow> real) \<Rightarrow> (enr \<Rightarrow> 'c \<Rightarrow> 'c \<times> flow) \<Rightarrow> string list \<Rightarrow> search_state \<Rightarrow> 'c \<Rightarrow> (search_state \<times> 'c \<times> flow) option" where
  "getNextPeer lib random body enrTreeUrls s c =
     next_peers lib random body (shuffle (\<lambda>i. random (ss_draws s + i)) enrTreeUrls)
       (s\<lparr>ss_draws := ss_draws s + (if length enrTreeUrls \<le> 1 then 0 else length enrTreeUrls)\<rparr>) c"

section \<open>dns_discovery.ts\<close>

definition DEFAULT_BOOTSTRAP_TAG_NAME :: string where "DEFAULT_BOOTSTRAP_TAG_NAME = ''bootstrap''"
definition DEFAULT_BOOTSTRAP_TAG_VALUE :: nat where "DEFAULT_BOOTSTRAP_TAG_VALUE = 50"
definition DEFAULT_BOOTSTRAP_TAG_TTL :: nat where "DEFAULT_BOOTSTRAP_TAG_TTL = 100000000"

record dns_options =
  do_enrUrls :: "string list"
  do_tagValue :: "nat option"
  do_tagTTL :: "nat option"

text \<open>
  \<open>dd_search\<close> is the state of the node discovery, made by the first search for peers; \<open>dd_tagged\<close> and \<open>dd_events\<close>
  are the log of the tags that were written, with value and time to live, and of the announced peers.
\<close>

record dns_discovery =
  dd_options :: dns_options
  dd_started :: bool
  dd_search :: "search_state option"
  dd_store :: peer_store
  dd_tagged :: "(string \<times> nat \<times> nat) list"
  dd_events :: "(string \<times> multiaddr list) list"

definition dns_discovery_new :: "dns_options \<Rightarrow> peer_store \<Rightarrow> dns_discovery" where
  "dns_discovery_new opts ps =
     \<lparr>dd_options = opts, dd_started = False, dd_search = None, dd_store = ps, dd_tagged = [], dd_events = []\<rparr>"

text \<open>The tags of both branches of \<open>findPeers\<close>, then the event.\<close>

definition dd_write :: "string \<Rightarrow> multiaddr list \<Rightarrow> store_peer \<Rightarrow> dns_discovery \<Rightarrow> dns_discovery" where
  "dd_write p mas sp d =
     d\<lparr>dd_store := (dd_store d)(p \<mapsto> sp),
       dd_tagged := dd_tagged d @ [(p, case_option DEFAULT_BOOTSTRAP_TAG_VALUE id (do_tagValue (dd_options d)),
                                       case_option DEFAULT_BOOTSTRAP_TAG_TTL id (do_tagTTL (dd_options d)))],
       dd_events := dd_events d @ [(p, mas)]\<rparr>"

definition dd_peer :: "dns_lib \<Rightarrow> enr \<Rightarrow> dns_discovery \<Rightarrow> dns_discovery \<times> flow" where
  "dd_peer lib peerEnr d =
     (if \<not> dd_started d then (d, Return)
      else case bindE (enr_peerInfo (dl_enr lib) peerEnr) (\<lambda>i. bindE (enr_shardInfo peerEnr) (\<lambda>si. Inr (i, si))) of
             Inl e \<Rightarrow> (d, Throw e)
           | Inr (None, _) \<Rightarrow> (d, Go)
           | Inr (Some (p, mas), shardInfo) \<Rightarrow>
               (case dd_store d p of
                  Some sp \<Rightarrow>
                    if DEFAULT_BOOTSTRAP_TAG_NAME \<in> set (sp_tags sp) then (d, Go)
                    else (dd_write p mas (sp\<lparr>sp_tags := sp_tags sp @ [DEFAULT_BOOTSTRAP_TAG_NAME]\<rparr>) d, Go)
                | None \<Rightarrow>
                    (case (case shardInfo of None \<Rightarrow> Inr Map.empty
                                           | Some si \<Rightarrow> bindE (encodeRelayShard si) (\<lambda>bs. Inr [''shardInfo'' \<mapsto> bs])) of
                       Inl e \<Rightarrow> (d, Throw e)
                     | Inr md \<Rightarrow>
                         (dd_write p mas \<lparr>sp_id = p, sp_protocols = [], sp_metadata = md,
                                          sp_tags = [DEFAULT_BOOTSTRAP_TAG_NAME], sp_addresses = []\<rparr> d, Go))))"

definition dd_stop :: "dns_discovery \<Rightarrow> dns_discovery" where
  "dd_stop d = d\<lparr>dd_started := False\<rparr>"

text \<open>One round of the loop; the list says before which of the peers \<open>stop\<close> is called.\<close>

definition dd_round :: "dns_lib \<Rightarrow> enr \<Rightarrow> bool list \<times> dns_discovery \<Rightarrow> (bool list \<times> dns_discovery) \<times> flow" where
  "dd_round lib p c =
     (case c of (stops, d) \<Rightarrow>
        case dd_peer lib p (if stops \<noteq> [] \<and> hd stops then dd_stop d else d) of (d', fl) \<Rightarrow> ((tl stops, d'), fl))"

text \<open>The array of the trees is shuffled in place, so the next call begins with the order of this one.\<close>

definition findPeers :: "dns_lib \<Rightarrow> (nat \<Rightarrow> real) \<Rightarrow> bool list \<Rightarrow> dns_discovery \<Rightarrow> (dns_discovery, unit) call option" where
  "findPeers lib random stops d =
     (let s = (case dd_search d of None \<Rightarrow> \<lparr>ss_cache = Map.empty, ss_visits = {}, ss_draws = 0\<rparr> | Some s \<Rightarrow> s) in
      case getNextPeer lib random (dd_round lib) (do_enrUrls (dd_options d)) s (stops, d) of
        None \<Rightarrow> None
      | Some (s', (_, d'), fl) \<Rightarrow>
          (let d' = d'\<lparr>dd_search := Some s',
                       dd_options := (dd_options d')\<lparr>do_enrUrls := shuffle (\<lambda>i. random (ss_draws s + i)) (do_enrUrls (dd_options d))\<rparr>\<rparr> in
           Some (case fl of Throw e \<Rightarrow> throws d' e | _ \<Rightarrow> returns d' ())))"

definition dd_start :: "dns_lib \<Rightarrow> (nat \<Rightarrow> real) \<Rightarrow> bool list \<Rightarrow> dns_discovery \<Rightarrow> (dns_discovery, unit) call option" where
  "dd_start lib random stops d = findPeers lib random stops (d\<lparr>dd_started := True\<rparr>)"

section \<open>The generator of nodes\<close>

declare fetch_loop.simps [simp del]

lemma fetch_loop_returns:
  assumes "\<And>s. I s \<Longrightarrow> \<exists>s' r. getNode s = Some (s', r) \<and> I s'" and "I s"
  shows "fetch_loop el getNode body maxGet maxErrors n m ids s c \<noteq> None"
  using assms
proof (induction el getNode body maxGet maxErrors n m ids s c rule: fetch_loop.induct)
  case (1 el getNode body maxGet maxErrors n m ids s c)
  obtain s' r where g: "getNode s = Some (s', r)" "I s'" using 1(4)[OF 1(5)] by auto
  show ?case
  proof (cases "n < maxGet \<and> m < maxErrors")
    case True
    note IH = 1(1-3)[OF True g(1) refl]
    from True g IH 1(4) show ?thesis
      by (subst fetch_loop.simps) (simp split: sum.split found.split prod.split flow.split)
  qed (subst fetch_loop.simps, auto)
qed

lemma fetch_loop_None:
  assumes "getNode s = None" and "0 < maxGet" and "0 < maxErrors"
  shows "fetch_loop el getNode body maxGet maxErrors 0 0 ids s c = None"
  using assms by (subst fetch_loop.simps) simp

text \<open>A loop that collects the nodes gets at most \<open>maxGet\<close> of them, with Waku capabilities and different identifiers.\<close>

definition collect_nodes :: "enr \<Rightarrow> enr list \<Rightarrow> enr list \<times> flow" where
  "collect_nodes p ps = (ps @ [p], Go)"

definition new_nodes :: "enr_lib \<Rightarrow> string set \<Rightarrow> nat \<Rightarrow> enr list \<Rightarrow> bool" where
  "new_nodes el ids k ps \<longleftrightarrow>
     length ps \<le> k \<and> (\<forall>p\<in>set ps. enr_waku2 p \<noteq> None \<and> (\<exists>i. enr_nodeId el p = Inr (Some i) \<and> i \<notin> ids))
     \<and> distinct (map (enr_nodeId el) ps)"

lemma new_nodes_simps:
  "new_nodes el ids k []" "new_nodes el ids k ps \<Longrightarrow> k \<le> k' \<Longrightarrow> new_nodes el ids k' ps"
  "enr_nodeId el p = Inr (Some i) \<Longrightarrow> i \<notin> ids \<Longrightarrow> enr_waku2 p \<noteq> None \<Longrightarrow> new_nodes el (insert i ids) k ps \<Longrightarrow> new_nodes el ids (Suc k) (p # ps)"
  "new_nodes el (insert i ids) k ps \<Longrightarrow> new_nodes el ids k ps"
  by (auto simp: new_nodes_def)

lemma found_new:
  assumes "bindE r (found_node el ids) = Inr (New_Node i p)"
  shows "r = Inr (Some p)" "enr_nodeId el p = Inr (Some i)" "i \<notin> ids"
  using assms by (auto simp: found_node_def bindE_Inr truthy_def split: option.splits if_splits)

lemma fetch_loop_collects:
  assumes "fetch_loop el getNode collect_nodes maxGet maxErrors n m ids s c = Some (s', c', fl)"
    and step: "\<And>s s' r. I s \<Longrightarrow> getNode s = Some (s', r) \<Longrightarrow> I s' \<and> g s' \<le> g s
      \<and> (\<forall>p. r = Inr (Some p) \<longrightarrow> Q p \<and> g s' + k \<le> g s)" and "I s"
  shows "\<exists>ps. c' = c @ ps \<and> new_nodes el ids (maxGet - n) ps \<and> (\<forall>p\<in>set ps. Q p) \<and> k * length ps \<le> g s"
  using assms(1,3)
proof (induction "maxGet - n" arbitrary: n m ids s c rule: less_induct)
  case less
  show ?case
  proof (cases "n < maxGet \<and> m < maxErrors")
    case True
    then have less': "maxGet - (n + 1) < maxGet - n" and Suc: "maxGet - n = Suc (maxGet - (n + 1))" by auto
    obtain s1 r where get: "getNode s = Some (s1, r)"
      using less.prems(1) True by (subst (asm) fetch_loop.simps) (auto split: option.splits)
    from step[OF less.prems(2) get] have s1: "I s1" "g s1 \<le> g s"
      and Q: "\<forall>p. r = Inr (Some p) \<longrightarrow> Q p \<and> g s1 + k \<le> g s" by auto
    note IH = less.hyps[OF less' _ s1(1)] and prem = less.prems(1)
    have weaken: "\<exists>ps. c' = c @ ps \<and> new_nodes el ids (maxGet - n) ps \<and> (\<forall>p\<in>set ps. Q p) \<and> k * length ps \<le> g s"
      if "\<exists>ps. c' = c @ ps \<and> new_nodes el ids (maxGet - (n + 1)) ps \<and> (\<forall>p\<in>set ps. Q p) \<and> k * length ps \<le> g s1" for ids c
      using that s1(2) new_nodes_simps(2)[of el ids "maxGet - (n + 1)" _ "maxGet - n"] Suc by fastforce
    show ?thesis
    proof (cases "bindE r (found_node el ids)")
      case (Inl e)
      with prem True get show ?thesis by (subst (asm) fetch_loop.simps) (auto simp: new_nodes_simps(1))
    next
      case (Inr f)
      show ?thesis
      proof (cases f)
        case No_Node
        with prem True get Inr show ?thesis by (subst (asm) fetch_loop.simps) (auto intro!: weaken IH)
      next
        case Known_Node
        with prem True get Inr show ?thesis by (subst (asm) fetch_loop.simps) (auto intro!: weaken IH)
      next
        case (New_Node i p)
        note new = found_new[OF Inr[unfolded New_Node]]
        let ?c = "if enr_waku2 p = None then c else c @ [p]"
        have t: "take_node el collect_nodes p c = (?c, snd (take_node el collect_nodes p c))"
          by (simp add: take_node_def collect_nodes_def)
        have one: "\<exists>ps. ?c @ qs = c @ ps \<and> new_nodes el ids (maxGet - n) ps \<and> (\<forall>p\<in>set ps. Q p) \<and> k * length ps \<le> g s"
          if "new_nodes el (insert i ids) (maxGet - (n + 1)) qs" "\<forall>p\<in>set qs. Q p" "k * length qs \<le> g s1" for qs
          using new_nodes_simps(3)[OF new(2,3) _ that(1)] new_nodes_simps(2)[OF new_nodes_simps(4)[OF that(1)], of "maxGet - n"]
            Suc Q new(1) that(2,3)
          by (cases "enr_waku2 p = None") auto
        show ?thesis
        proof (cases "snd (take_node el collect_nodes p c) = Go")
          case True
          with prem \<open>n < maxGet \<and> m < maxErrors\<close> get Inr New_Node t
          have "fetch_loop el getNode collect_nodes maxGet maxErrors (n + 1) m (insert i ids) s1 ?c = Some (s', c', fl)"
            by (subst (asm) fetch_loop.simps) (simp split: prod.splits)
          from IH[OF this] one show ?thesis by auto
        next
          case False
          with prem \<open>n < maxGet \<and> m < maxErrors\<close> get Inr New_Node t have "c' = ?c"
            by (subst (asm) fetch_loop.simps) (auto split: prod.splits flow.splits)
          with one[OF new_nodes_simps(1)] show ?thesis by simp
        qed
      qed
    qed
  qed (use less.prems in \<open>subst (asm) fetch_loop.simps, auto simp: new_nodes_simps(1)\<close>)
qed

section \<open>What a name resolves to\<close>

definition dns_text :: "dns_lib \<Rightarrow> search_context \<Rightarrow> search_state \<Rightarrow> string \<Rightarrow> js_error + string" where
  "dns_text lib ctx s n = (case truthy (ss_cache s n) of Some t \<Rightarrow> Inr t | None \<Rightarrow> fetch_text lib ctx n)"

lemma fetch_text_nonempty: "fetch_text lib ctx n = Inr t \<Longrightarrow> t \<noteq> []"
  by (cases "resolveTXT lib (dns_location n ctx)") (auto simp: fetch_text_def split: list.splits if_splits)

lemma truthy_nonempty: "t \<noteq> [] \<Longrightarrow> truthy (Some t) = Some t"
  by (simp add: truthy_def split: list.split)

lemma getTXTRecord_text:
  "snd (getTXTRecord lib ctx n s) = dns_text lib ctx s n"
  "dns_text lib ctx (fst (getTXTRecord lib ctx n s)) = dns_text lib ctx s"
  "ss_visits (fst (getTXTRecord lib ctx n s)) = ss_visits s" "ss_draws (fst (getTXTRecord lib ctx n s)) = ss_draws s"
  using fetch_text_nonempty[of lib ctx n]
  by (cases "truthy (ss_cache s n)"; cases "fetch_text lib ctx n";
      simp add: getTXTRecord_def dns_text_def fun_eq_iff returns_def throws_def truthy_nonempty)+

lemma dns_text_update [simp]: "dns_text lib ctx (s\<lparr>ss_visits := v\<rparr>) = dns_text lib ctx s" "dns_text lib ctx (s\<lparr>ss_draws := k\<rparr>) = dns_text lib ctx s"
  by (simp_all add: dns_text_def fun_eq_iff)

section \<open>Random choice\<close>

definition unit_interval :: "(nat \<Rightarrow> real) \<Rightarrow> bool" where
  "unit_interval random \<longleftrightarrow> (\<forall>i. 0 \<le> random i \<and> random i < 1)"

text \<open>Each index of each array is drawn again and again.\<close>

definition fair_draws :: "(nat \<Rightarrow> real) \<Rightarrow> bool" where
  "fair_draws random \<longleftrightarrow> (\<forall>len i n. i < len \<longrightarrow> (\<exists>m\<ge>n. nat \<lfloor>random m * of_nat len\<rfloor> = i))"

lemma index_in_range:
  assumes "unit_interval random" and "0 < len"
  shows "nat \<lfloor>random m * of_nat len\<rfloor> < len"
proof -
  have "random m * of_nat len < 1 * of_nat len" using assms by (intro mult_strict_right_mono) (auto simp: unit_interval_def)
  moreover have "0 \<le> random m * of_nat len" using assms by (simp add: unit_interval_def)
  ultimately show ?thesis by linarith
qed

lemma draw_index_fresh:
  assumes "draw_index random branches visits n = Some r"
  shows "branches ! fst r \<notin> visits \<and> (\<exists>m. fst r = nat \<lfloor>random m * of_nat (length branches)\<rfloor>)"
  by (rule draw_index.raw_induct[OF _ assms]) (auto simp: Let_def split: if_splits)

lemma draw_index_returns:
  assumes "fair_draws random" and "i < length branches" and "branches ! i \<notin> visits"
  shows "draw_index random branches visits n \<noteq> None"
proof -
  from assms(1,2) obtain m where "n \<le> m" "nat \<lfloor>random m * of_nat (length branches)\<rfloor> = i" unfolding fair_draws_def by blast
  then show ?thesis
  proof (induction "m - n" arbitrary: n)
    case 0
    with assms(3) show ?case by (subst draw_index.simps) (simp add: Let_def)
  next
    case (Suc d)
    from Suc.hyps(2) have "d = m - (n + 1)" "n + 1 \<le> m" by auto
    from Suc.hyps(1)[OF this(1,2)] Suc.prems(2) show ?case by (subst draw_index.simps) (simp add: Let_def)
  qed
qed

lemma select_cases:
  assumes "unit_interval random" and "branches \<noteq> []" and "selectRandomPath random branches s = Some (s', r)"
  shows "(set branches \<subseteq> ss_visits s \<and> s' = s \<and> (\<exists>e. r = Inl e))
    \<or> (\<exists>b k. b \<in> set branches - ss_visits s \<and> r = Inr b \<and> s' = s\<lparr>ss_draws := k\<rparr>)"
proof (cases "set branches \<subseteq> ss_visits s")
  case True
  with assms(3) show ?thesis by (auto simp: selectRandomPath_def throws_def)
next
  case False
  with assms(3) obtain i k where d: "draw_index random branches (ss_visits s) (ss_draws s) = Some (i, k)"
    and r: "r = Inr (branches ! i)" "s' = s\<lparr>ss_draws := k\<rparr>"
    by (auto simp: selectRandomPath_def returns_def)
  from draw_index_fresh[OF d, unfolded fst_conv] index_in_range[OF assms(1), of "length branches"] assms(2)
  show ?thesis by (auto simp: r)
qed

lemma select_returns:
  assumes "fair_draws random"
  shows "selectRandomPath random branches s \<noteq> None"
proof (cases "set branches \<subseteq> ss_visits s")
  case False
  then obtain b where "b \<in> set branches" "b \<notin> ss_visits s" by auto
  then obtain i where "i < length branches" "branches ! i \<notin> ss_visits s" by (auto simp: in_set_conv_nth)
  from draw_index_returns[OF assms this] False show ?thesis by (simp add: selectRandomPath_def)
qed (simp add: selectRandomPath_def)

section \<open>The descent\<close>

text \<open>A name leads to the names below it: the signed root names one, a branch each of its own.\<close>

inductive leads :: "dns_lib \<Rightarrow> search_context \<Rightarrow> (string \<Rightarrow> js_error + string) \<Rightarrow> string \<Rightarrow> string \<Rightarrow> bool"
  for lib ctx f where
  leads_here: "leads lib ctx f n n"
| leads_root: "f n = Inr t \<Longrightarrow> getEntryType t = Root_Entry \<Longrightarrow> parseAndVerifyRoot lib t (sc_publicKey ctx) = Inr next
    \<Longrightarrow> leads lib ctx f next m \<Longrightarrow> leads lib ctx f n m"
| leads_branch: "f n = Inr t \<Longrightarrow> getEntryType t = Branch_Entry \<Longrightarrow> parseBranch t = Inr bs \<Longrightarrow> b \<in> set bs
    \<Longrightarrow> leads lib ctx f b m \<Longrightarrow> leads lib ctx f n m"

definition visiting :: "string \<Rightarrow> search_state \<Rightarrow> search_state" where
  "visiting n s = s\<lparr>ss_visits := insert n (ss_visits s)\<rparr>"

lemma caught_simps [simp]: "fst (caught r) = fst r" "snd (caught r) \<noteq> Inl e" "snd (caught r) = Inr (Some d) \<longleftrightarrow> snd r = Inr (Some d)"
  by (auto simp: caught_def split: sum.splits)

text \<open>One call of \<open>_search\<close>, by the kind of the entry; \<open>rec\<close> stands for the calls it makes.\<close>

definition search_round ::
  "(string \<Rightarrow> search_state \<Rightarrow> (search_state, enr option) call option) \<Rightarrow> dns_lib \<Rightarrow> (nat \<Rightarrow> real) \<Rightarrow> search_context \<Rightarrow> string
    \<Rightarrow> search_state \<Rightarrow> (search_state, enr option) call option" where
  "search_round rec lib random ctx n s =
    (let s1 = visiting n (fst (getTXTRecord lib ctx n s)) in
     case dns_text lib ctx s n of
       Inl e \<Rightarrow> Some (returns s None)
     | Inr t \<Rightarrow>
         (case getEntryType t of
            Root_Entry \<Rightarrow> (case parseAndVerifyRoot lib t (sc_publicKey ctx) of
                             Inl e \<Rightarrow> Some (returns s1 None)
                           | Inr next \<Rightarrow> map_option caught (rec next s1))
          | Branch_Entry \<Rightarrow> (case parseBranch t of
                               Inl e \<Rightarrow> Some (returns s1 None)
                             | Inr bs \<Rightarrow> (case selectRandomPath random bs s1 of
                                            None \<Rightarrow> None
                                          | Some (s2, Inl e) \<Rightarrow> Some (returns s2 None)
                                          | Some (s2, Inr next) \<Rightarrow> map_option caught (rec next s2)))
          | Record_Entry \<Rightarrow> Some (s1, decode_entry lib t)
          | Other_Entry \<Rightarrow> Some (returns s1 None)))"

lemma search_body:
  "(case getTXTRecord lib ctx n s of
      (s, Inl e) \<Rightarrow> Some (returns s None)
    | (s, Inr entry) \<Rightarrow>
        (let s = s\<lparr>ss_visits := insert n (ss_visits s)\<rparr> in
         case getEntryType entry of
           Root_Entry \<Rightarrow> (case parseAndVerifyRoot lib entry (sc_publicKey ctx) of
               Inl e \<Rightarrow> Some (returns s None)
             | Inr next \<Rightarrow> Option.bind (rec next s) (\<lambda>r. Some (caught r)))
         | Branch_Entry \<Rightarrow> (case parseBranch entry of
               Inl e \<Rightarrow> Some (returns s None)
             | Inr branches \<Rightarrow> Option.bind (selectRandomPath random branches s)
                 (\<lambda>r. case r of (s, Inl e) \<Rightarrow> Some (returns s None)
                            | (s, Inr next) \<Rightarrow> Option.bind (rec next s) (\<lambda>r. Some (caught r))))
         | Record_Entry \<Rightarrow> Some (s, decode_entry lib entry)
         | Other_Entry \<Rightarrow> Some (returns s None)))
    = search_round rec lib random ctx n s"
proof -
  have b: "Option.bind x (\<lambda>r. Some (caught r)) = map_option caught x" for x by (cases x) auto
  have fail: "fst (getTXTRecord lib ctx n s) = s" if "dns_text lib ctx s n = Inl e" for e
    using that by (auto simp: dns_text_def getTXTRecord_def throws_def split: option.splits sum.splits)
  have g: "getTXTRecord lib ctx n s = (fst (getTXTRecord lib ctx n s), dns_text lib ctx s n)"
    using getTXTRecord_text(1)[of lib ctx n s] by (metis prod.collapse)
  show ?thesis
    by (subst g)
      (auto simp: search_round_def visiting_def b fail Let_def split: sum.split entry_type.split option.split)
qed

lemma search_unfold: "search lib random ctx n s = search_round (search lib random ctx) lib random ctx n s"
  by (subst search.simps) (rule search_body)

lemma visiting_text [simp]: "dns_text lib ctx (visiting n s) = dns_text lib ctx s"
  by (simp add: visiting_def)

lemma parseBranch_nonempty: "parseBranch t = Inr bs \<Longrightarrow> bs \<noteq> []"
  by (auto simp: parseBranch_def split: if_splits)

text \<open>
  The descent never forgets what a name resolves to, so it walks a fixed tree; it returns a record that the start
  leads to, and rejects only when the start itself is a record.
\<close>

definition search_ok :: "dns_lib \<Rightarrow> (nat \<Rightarrow> real) \<Rightarrow> search_context \<Rightarrow> string \<Rightarrow> search_state \<Rightarrow> (search_state, enr option) call \<Rightarrow> bool" where
  "search_ok lib random ctx n s r \<longleftrightarrow>
     dns_text lib ctx (fst r) = dns_text lib ctx s \<and> ss_visits s \<subseteq> ss_visits (fst r)
     \<and> (\<forall>t. dns_text lib ctx s n = Inr t \<longrightarrow> n \<in> ss_visits (fst r))
     \<and> (\<forall>d. snd r = Inr (Some d) \<longrightarrow> (\<exists>m t. leads lib ctx (dns_text lib ctx s) n m \<and> dns_text lib ctx s m = Inr t
          \<and> getEntryType t = Record_Entry \<and> enr_fromString (dl_enr lib) t = Inr d))
     \<and> (\<forall>e. snd r = Inl e \<longrightarrow> (\<exists>t. dns_text lib ctx s n = Inr t \<and> getEntryType t = Record_Entry))"

lemma decode_entry_Some:
  assumes "decode_entry lib t = Inr (Some d)" and "getEntryType t = Record_Entry"
  shows "enr_fromString (dl_enr lib) t = Inr d"
proof -
  from assms(2) have "take 4 t = RECORD_PREFIX"
    by (auto simp: getEntryType_def startsWith_def RECORD_PREFIX_def eval_nat_numeral split: if_splits)
  with assms(1) show ?thesis
    by (auto simp: decode_entry_def enr_fromString_def enr_fromRLP_def bindE_Inr bindE_def split: sum.splits)
qed

lemma search_ok_step:
  assumes "search_ok lib random ctx m s1 r" and "dns_text lib ctx s1 = dns_text lib ctx s" and "insert n (ss_visits s) \<subseteq> ss_visits s1"
    and "\<And>k. leads lib ctx (dns_text lib ctx s) m k \<Longrightarrow> leads lib ctx (dns_text lib ctx s) n k"
  shows "search_ok lib random ctx n s (caught r)"
  using assms unfolding search_ok_def by simp blast

lemma search_ok_round:
  assumes "unit_interval random" and "\<And>m s1 r. rec m s1 = Some r \<Longrightarrow> search_ok lib random ctx m s1 r"
    and "search_round rec lib random ctx n s = Some r"
  shows "search_ok lib random ctx n s r"
proof -
  let ?f = "dns_text lib ctx s" and ?s1 = "visiting n (fst (getTXTRecord lib ctx n s))"
  have s1: "dns_text lib ctx ?s1 = ?f" "insert n (ss_visits s) \<subseteq> ss_visits ?s1"
    using getTXTRecord_text(2,3)[of lib ctx n s] by (auto simp: visiting_def)
  have none: "search_ok lib random ctx n s (returns s2 None)" if "dns_text lib ctx s2 = ?f" "insert n (ss_visits s) \<subseteq> ss_visits s2" for s2
    using that by (simp add: search_ok_def returns_def)
  show ?thesis
  proof (cases "?f n")
    case (Inl e)
    with assms(3) show ?thesis by (auto simp: search_round_def search_ok_def returns_def)
  next
    case (Inr t)
    show ?thesis
    proof (cases "getEntryType t")
      case Root_Entry
      show ?thesis
      proof (cases "parseAndVerifyRoot lib t (sc_publicKey ctx)")
        case (Inl e)
        with assms(3) none[OF s1] \<open>?f n = Inr t\<close> Root_Entry show ?thesis by (simp add: search_round_def)
      next
        case (Inr m)
        with assms(3) \<open>?f n = Inr t\<close> Root_Entry obtain r1 where "rec m ?s1 = Some r1" "r = caught r1"
          by (auto simp: search_round_def)
        with search_ok_step[OF assms(2)[OF this(1)] s1] leads_root[of ?f n t lib ctx m] \<open>?f n = Inr t\<close> Root_Entry Inr
        show ?thesis by simp
      qed
    next
      case Branch_Entry
      show ?thesis
      proof (cases "parseBranch t")
        case (Inl e)
        with assms(3) none[OF s1] \<open>?f n = Inr t\<close> Branch_Entry show ?thesis by (simp add: search_round_def)
      next
        case (Inr bs)
        with assms(3) \<open>?f n = Inr t\<close> Branch_Entry obtain s2 q where sel: "selectRandomPath random bs ?s1 = Some (s2, q)"
          by (auto simp: search_round_def split: option.splits)
        from select_cases[OF assms(1) parseBranch_nonempty[OF Inr] sel]
        have s2: "dns_text lib ctx s2 = ?f" "insert n (ss_visits s) \<subseteq> ss_visits s2" and q: "\<forall>b. q = Inr b \<longrightarrow> b \<in> set bs"
          using s1 by auto
        show ?thesis
        proof (cases q)
          case (Inl e)
          with assms(3) none[OF s2] \<open>?f n = Inr t\<close> Branch_Entry \<open>parseBranch t = Inr bs\<close> sel show ?thesis by (simp add: search_round_def)
        next
          case (Inr b)
          with assms(3) \<open>?f n = Inr t\<close> Branch_Entry \<open>parseBranch t = Inr bs\<close> sel obtain r1 where "rec b s2 = Some r1" "r = caught r1"
            by (auto simp: search_round_def)
          with search_ok_step[OF assms(2)[OF this(1)] s2] leads_branch[of ?f n t bs b lib ctx] \<open>?f n = Inr t\<close> Branch_Entry
            \<open>parseBranch t = Inr bs\<close> q Inr
          show ?thesis by simp
        qed
      qed
    next
      case Record_Entry
      with assms(3) \<open>?f n = Inr t\<close> have "r = (?s1, decode_entry lib t)" by (simp add: search_round_def)
      with s1 \<open>?f n = Inr t\<close> Record_Entry show ?thesis
        using decode_entry_Some[of lib t] leads_here[of lib ctx ?f n] by (auto simp: search_ok_def)
    next
      case Other_Entry
      with assms(3) none[OF s1] \<open>?f n = Inr t\<close> show ?thesis by (simp add: search_round_def)
    qed
  qed
qed

lemma search_induct:
  assumes "search lib random ctx n s = Some r"
    and "\<And>rec n s r. (\<And>m s1 r. rec m s1 = Some r \<Longrightarrow> P m s1 r) \<Longrightarrow> search_round rec lib random ctx n s = Some r \<Longrightarrow> P n s r"
  shows "P n s r"
proof -
  have "lib = lib \<and> random = random \<and> ctx = ctx \<longrightarrow> P n s r"
  proof (rule search.raw_induct[where P = "\<lambda>lib' random' ctx' n s r. lib' = lib \<and> random' = random \<and> ctx' = ctx \<longrightarrow> P n s r", OF _ assms(1)])
    fix rec :: "dns_lib \<Rightarrow> (nat \<Rightarrow> real) \<Rightarrow> search_context \<Rightarrow> string \<Rightarrow> search_state \<Rightarrow> (search_state, enr option) call option"
      and lib' random' ctx' n s r
    assume IH: "\<And>lib' random' ctx' m s r. rec lib' random' ctx' m s = Some r \<Longrightarrow> lib' = lib \<and> random' = random \<and> ctx' = ctx \<longrightarrow> P m s r"
    assume "(case getTXTRecord lib' ctx' n s of
      (s, Inl e) \<Rightarrow> Some (returns s None)
    | (s, Inr entry) \<Rightarrow>
        (let s = s\<lparr>ss_visits := insert n (ss_visits s)\<rparr> in
         case getEntryType entry of
           Root_Entry \<Rightarrow> (case parseAndVerifyRoot lib' entry (sc_publicKey ctx') of
               Inl e \<Rightarrow> Some (returns s None)
             | Inr next \<Rightarrow> Option.bind (rec lib' random' ctx' next s) (\<lambda>r. Some (caught r)))
         | Branch_Entry \<Rightarrow> (case parseBranch entry of
               Inl e \<Rightarrow> Some (returns s None)
             | Inr branches \<Rightarrow> Option.bind (selectRandomPath random' branches s)
                 (\<lambda>r. case r of (s, Inl e) \<Rightarrow> Some (returns s None)
                            | (s, Inr next) \<Rightarrow> Option.bind (rec lib' random' ctx' next s) (\<lambda>r. Some (caught r))))
         | Record_Entry \<Rightarrow> Some (s, decode_entry lib' entry)
         | Other_Entry \<Rightarrow> Some (returns s None))) = Some r"
    note body = this[unfolded search_body]
    show "lib' = lib \<and> random' = random \<and> ctx' = ctx \<longrightarrow> P n s r"
    proof (intro impI)
      assume eq: "lib' = lib \<and> random' = random \<and> ctx' = ctx"
      with body have "search_round (rec lib random ctx) lib random ctx n s = Some r" by simp
      from IH eq have "rec lib random ctx m s1 = Some r \<Longrightarrow> P m s1 r" for m s1 r by simp
      from this \<open>search_round (rec lib random ctx) lib random ctx n s = Some r\<close> show "P n s r" by (rule assms(2))
    qed
  qed
  then show ?thesis by simp
qed

lemma search_spec:
  assumes "unit_interval random" and "search lib random ctx n s = Some r"
  shows "search_ok lib random ctx n s r"
  by (rule search_induct[OF assms(2)]) (rule search_ok_round[OF assms(1)])

text \<open>
  What search finds: a record whose entry the start leads to over the signed roots and the branches, decoded
  from its text. What the names resolve to stays the same, so this holds of every later search too.
\<close>

theorem found_record_is_listed:
  assumes "unit_interval random" and "search lib random ctx n s = Some (s', Inr (Some d))"
  shows "\<exists>m t. leads lib ctx (dns_text lib ctx s) n m \<and> dns_text lib ctx s m = Inr t
    \<and> enr_fromString (dl_enr lib) t = Inr d \<and> dns_text lib ctx s' = dns_text lib ctx s"
  using search_spec[OF assms] by (auto simp: search_ok_def)

text \<open>A search that starts at a root or a branch never rejects: what is wrong below it is caught.\<close>

theorem only_a_bare_record_rejects:
  assumes "unit_interval random" and "search lib random ctx n s = Some (s', Inl e)"
  shows "\<exists>t. dns_text lib ctx s n = Inr t \<and> getEntryType t = Record_Entry \<and> decode_entry lib t = Inl e"
proof -
  from search_spec[OF assms] obtain t where t: "dns_text lib ctx s n = Inr t" "getEntryType t = Record_Entry"
    by (auto simp: search_ok_def)
  with assms(2) show ?thesis by (subst (asm) search_unfold) (simp add: search_round_def)
qed

section \<open>Whether the descent ends\<close>

text \<open>
  A tree is finite when all branches name members of a finite set, and the entries that the roots in it name are
  no roots. Each step over a branch visits a new name.
\<close>

definition finite_tree :: "dns_lib \<Rightarrow> search_context \<Rightarrow> (string \<Rightarrow> js_error + string) \<Rightarrow> string set \<Rightarrow> bool" where
  "finite_tree lib ctx f U \<longleftrightarrow> finite U
     \<and> (\<forall>n\<in>U. \<forall>t bs. f n = Inr t \<and> getEntryType t = Branch_Entry \<and> parseBranch t = Inr bs \<longrightarrow> set bs \<subseteq> U)
     \<and> (\<forall>n\<in>U. \<forall>t m. f n = Inr t \<and> getEntryType t = Root_Entry \<and> parseAndVerifyRoot lib t (sc_publicKey ctx) = Inr m
          \<longrightarrow> m \<in> U \<and> (\<forall>t'. f m = Inr t' \<longrightarrow> getEntryType t' \<noteq> Root_Entry))"

definition is_root :: "(string \<Rightarrow> js_error + string) \<Rightarrow> string \<Rightarrow> bool" where
  "is_root f n \<longleftrightarrow> (\<exists>t. f n = Inr t \<and> getEntryType t = Root_Entry)"

lemma search_returns:
  assumes "unit_interval random" and "fair_draws random" and "finite_tree lib ctx f U"
    and "n \<in> U" and "dns_text lib ctx s = f"
  shows "search lib random ctx n s \<noteq> None"
  using assms(4,5)
proof (induction "2 * card (U - insert n (ss_visits s)) + (if is_root f n then 1 else 0)" arbitrary: n s rule: less_induct)
  case less
  let ?s1 = "visiting n (fst (getTXTRecord lib ctx n s))"
  have s1: "dns_text lib ctx ?s1 = f" "ss_visits ?s1 = insert n (ss_visits s)"
    using getTXTRecord_text(2,3)[of lib ctx n s] less.prems by (auto simp: visiting_def)
  note tree = assms(3)[unfolded finite_tree_def] and prems = less.prems
  show ?case
  proof (cases "f n")
    case (Inr t)
    show ?thesis
    proof (cases "getEntryType t")
      case Root_Entry
      have "search lib random ctx m ?s1 \<noteq> None" if m: "parseAndVerifyRoot lib t (sc_publicKey ctx) = Inr m" for m
      proof (rule less.hyps[OF _ _ s1(1)])
        from tree prems(1) Inr Root_Entry m show "m \<in> U" by blast
        from tree prems(1) Inr Root_Entry m have "\<forall>t'. f m = Inr t' \<longrightarrow> getEntryType t' \<noteq> Root_Entry" by blast
        then have "\<not> is_root f m" unfolding is_root_def by blast
        moreover have "card (U - insert m (ss_visits ?s1)) \<le> card (U - insert n (ss_visits s))"
          using tree s1(2) by (intro card_mono) auto
        moreover have "is_root f n" using Inr Root_Entry by (auto simp: is_root_def)
        ultimately show "2 * card (U - insert m (ss_visits ?s1)) + (if is_root f m then 1 else 0)
          < 2 * card (U - insert n (ss_visits s)) + (if is_root f n then 1 else 0)" by simp
      qed
      with Inr Root_Entry prems(2) show ?thesis
        by (subst search_unfold) (cases "parseAndVerifyRoot lib t (sc_publicKey ctx)"; simp add: search_round_def Let_def)
    next
      case Branch_Entry
      have "search lib random ctx b s2 \<noteq> None"
        if bs: "parseBranch t = Inr bs" and sel: "selectRandomPath random bs ?s1 = Some (s2, Inr b)" for bs s2 b
      proof (rule less.hyps)
        from select_cases[OF assms(1) parseBranch_nonempty[OF bs] sel] obtain k
          where b: "b \<in> set bs" "b \<notin> ss_visits ?s1" and s2: "s2 = ?s1\<lparr>ss_draws := k\<rparr>" by auto
        from tree prems(1) Inr Branch_Entry bs b(1) show "b \<in> U" by blast
        then have "U - insert b (ss_visits s2) \<subset> U - insert n (ss_visits s)" using b(2) s1(2) s2 by auto
        then have "card (U - insert b (ss_visits s2)) < card (U - insert n (ss_visits s))"
          using tree by (intro psubset_card_mono) auto
        then show "2 * card (U - insert b (ss_visits s2)) + (if is_root f b then 1 else 0)
          < 2 * card (U - insert n (ss_visits s)) + (if is_root f n then 1 else 0)" by simp
        show "dns_text lib ctx s2 = f" using s2 s1(1) by simp
      qed
      note below = this
      show ?thesis
      proof (cases "parseBranch t")
        case (Inr bs)
        obtain s2 q where sel: "selectRandomPath random bs ?s1 = Some (s2, q)"
          using select_returns[OF assms(2), of bs ?s1] by auto
        with Inr below \<open>f n = Inr t\<close> Branch_Entry prems(2) show ?thesis
          by (subst search_unfold) (cases q; simp add: search_round_def)
      qed (use \<open>f n = Inr t\<close> Branch_Entry prems(2) in \<open>subst search_unfold, simp add: search_round_def\<close>)
    qed (use Inr prems(2) in \<open>subst search_unfold, simp add: search_round_def\<close>)+
  qed (use prems(2) in \<open>subst search_unfold, simp add: search_round_def\<close>)
qed

text \<open>
  Roots are not checked against the visited names. When the entry that a root names is again a root, and so on (the
  root record itself, served at the name it points to, is enough, and needs no key), the search does not return.
\<close>

lemma roots_loop:
  assumes "\<forall>m\<in>R. \<exists>t k. f m = Inr t \<and> getEntryType t = Root_Entry \<and> parseAndVerifyRoot lib t (sc_publicKey ctx) = Inr k \<and> k \<in> R"
    and "n \<in> R" and "dns_text lib ctx s = f"
  shows "search lib random ctx n s = None"
proof (rule ccontr)
  assume "search lib random ctx n s \<noteq> None"
  then obtain r where r: "search lib random ctx n s = Some r" by blast
  let ?P = "\<lambda>s. \<forall>m\<in>R. \<exists>t k. dns_text lib ctx s m = Inr t \<and> getEntryType t = Root_Entry
    \<and> parseAndVerifyRoot lib t (sc_publicKey ctx) = Inr k \<and> k \<in> R"
  have "?P s \<longrightarrow> n \<notin> R"
  proof (rule search_induct[OF r], intro impI notI)
    fix rec :: "string \<Rightarrow> search_state \<Rightarrow> (search_state, enr option) call option" and n s r
    assume IH: "\<And>m s1 r. rec m s1 = Some r \<Longrightarrow> ?P s1 \<longrightarrow> m \<notin> R" and body: "search_round rec lib random ctx n s = Some r"
      and R: "?P s" "n \<in> R"
    then obtain t k where t: "dns_text lib ctx s n = Inr t" "getEntryType t = Root_Entry"
      "parseAndVerifyRoot lib t (sc_publicKey ctx) = Inr k" "k \<in> R" by blast
    let ?s1 = "visiting n (fst (getTXTRecord lib ctx n s))"
    from body t obtain r1 where "rec k ?s1 = Some r1" by (auto simp: search_round_def)
    from IH[OF this] R(1) t(4) show False unfolding visiting_text getTXTRecord_text(2) by blast
  qed
  with assms show False by simp
qed

section \<open>A tree from end to end\<close>

lemma search_resolved:
  assumes "search lib random ctx n s = Some r" and "snd r = Inr (Some p)"
  shows "\<exists>t. dns_text lib ctx s n = Inr t"
  using assms by (cases "dns_text lib ctx s n") (subst (asm) search_unfold, auto simp: search_round_def returns_def)


lemma fetch_tree_returns:
  assumes "unit_interval random" and "fair_draws random" and "finite_tree lib ctx (dns_text lib ctx s) U" and "n \<in> U"
  shows "fetchNodes el (search lib random ctx n) body s c \<noteq> None"
  unfolding fetchNodes_def
proof (rule fetch_loop_returns[where I = "\<lambda>s1. dns_text lib ctx s1 = dns_text lib ctx s"])
  fix s1 assume s1: "dns_text lib ctx s1 = dns_text lib ctx s"
  from search_returns[OF assms s1] obtain s2 r where r: "search lib random ctx n s1 = Some (s2, r)" by auto
  with search_spec[OF assms(1) r] s1
  show "\<exists>s' r. search lib random ctx n s1 = Some (s', r) \<and> dns_text lib ctx s' = dns_text lib ctx s"
    by (auto simp: search_ok_def)
qed simp

text \<open>C40: In a finite tree, with draws that reach every index again and again, the loop over the nodes ends, whatever it does
  with them and whatever the cache and the visited names are.
\<close>

theorem finite_tree_discovery_ends:
  assumes "unit_interval random" and "fair_draws random" and "finite_tree lib ctx (dns_text lib ctx s) U" and "n \<in> U"
  shows "fetchNodes el (search lib random ctx n) body s c \<noteq> None"
  using assms by (rule fetch_tree_returns)

text \<open>C35: Whoever serves the signed root record also at the name that it points to, which needs no key, makes the search for
  nodes run for ever: the root is read from the cache again and again.
\<close>

theorem replayed_root_hangs:
  assumes "parseAndVerifyRoot lib t (sc_publicKey ctx) = Inr e"
    and "dns_text lib ctx s n = Inr t" and "dns_text lib ctx s e = Inr t"
  shows "fetchNodes el (search lib random ctx n) body s c = None"
proof -
  have "getEntryType t = Root_Entry" using assms(1) by (auto simp: parseAndVerifyRoot_def getEntryType_def split: if_splits)
  then have "search lib random ctx n s = None"
    using roots_loop[where R = "{n, e}" and f = "dns_text lib ctx s"] assms by auto
  then show ?thesis unfolding fetchNodes_def by (rule fetch_loop_None) simp_all
qed

text \<open>An inner branch is entered once: each search that finds a node uses up a name of the branch below the root. However
  many records there are further down, no more nodes are found than this branch has names.
\<close>

theorem nodes_bounded_by_top_branch:
  assumes "unit_interval random"
    and "dns_text lib ctx s n = Inr t" and "getEntryType t = Root_Entry" and "parseAndVerifyRoot lib t (sc_publicKey ctx) = Inr e"
    and "dns_text lib ctx s e = Inr u" and "getEntryType u = Branch_Entry" and "parseBranch u = Inr bs"
    and "fetchNodes el (search lib random ctx n) collect_nodes s [] = Some (s', ps, fl)"
  shows "length ps \<le> card (set bs - ss_visits s)"
proof -
  let ?I = "\<lambda>s1. dns_text lib ctx s1 = dns_text lib ctx s" and ?g = "\<lambda>s1. card (set bs - ss_visits s1)"
  have step: "?I s2 \<and> ?g s2 \<le> ?g s1 \<and> (\<forall>p. r = Inr (Some p) \<longrightarrow> True \<and> ?g s2 + 1 \<le> ?g s1)"
    if I: "?I s1" and search: "search lib random ctx n s1 = Some (s2, r)" for s1 s2 r
  proof -
    from search_spec[OF assms(1) search] I have s2: "?I s2" "ss_visits s1 \<subseteq> ss_visits s2" by (auto simp: search_ok_def)
    have "\<exists>b\<in>set bs. b \<notin> ss_visits s1 \<and> b \<in> ss_visits s2" if p: "r = Inr (Some p)" for p
    proof -
      define a where "a = visiting n (fst (getTXTRecord lib ctx n s1))"
      have a: "dns_text lib ctx a = dns_text lib ctx s" "ss_visits s1 \<subseteq> ss_visits a"
        using getTXTRecord_text(2,3)[of lib ctx n s1] I by (auto simp: a_def visiting_def)
      from search p I assms(2-4) obtain r1 where r1: "search lib random ctx e a = Some r1" "(s2, r) = caught r1"
        by (subst (asm) search_unfold) (auto simp: search_round_def a_def)
      define a' where "a' = visiting e (fst (getTXTRecord lib ctx e a))"
      have a': "dns_text lib ctx a' = dns_text lib ctx s" "ss_visits s1 \<subseteq> ss_visits a'"
        using getTXTRecord_text(2,3)[of lib ctx e a] a by (auto simp: a'_def visiting_def)
      from r1(1) a(1) assms(5-7) obtain s3 q where sel: "selectRandomPath random bs a' = Some (s3, q)"
        by (subst (asm) search_unfold) (auto simp: search_round_def a'_def split: option.splits)
      have "snd r1 = Inr (Some p)" using r1(2) p by (metis caught_simps(3) snd_conv)
      with r1(1) a(1) assms(5-7) sel obtain b r2 where b: "q = Inr b" "search lib random ctx b s3 = Some r2" "r1 = caught r2"
        by (subst (asm) search_unfold) (auto simp: search_round_def a'_def returns_def split: sum.splits)
      from select_cases[OF assms(1) parseBranch_nonempty[OF assms(7)] sel] b(1) a'
      have "b \<in> set bs" "b \<notin> ss_visits s1" and s3: "dns_text lib ctx s3 = dns_text lib ctx s" by auto
      moreover have "b \<in> ss_visits (fst r2)"
      proof -
        from search_spec[OF assms(1) b(2)] have ok: "search_ok lib random ctx b s3 r2" .
        have "snd r2 = Inr (Some p)" using b(3) \<open>snd r1 = Inr (Some p)\<close> by simp
        from search_resolved[OF b(2) this] have "\<exists>t. dns_text lib ctx s3 b = Inr t" .
        with ok show ?thesis by (auto simp: search_ok_def)
      qed
      moreover have "s2 = fst r2" using r1(2) b(3) by (metis caught_simps(1) fst_conv)
      ultimately show ?thesis by auto
    qed
    then have "?g s2 < ?g s1" if "r = Inr (Some p)" for p
      using that s2(2) by (intro psubset_card_mono) auto
    moreover have "?g s2 \<le> ?g s1" using s2(2) by (intro card_mono) auto
    ultimately show ?thesis using s2(1) by (simp add: Suc_le_eq)
  qed
  have "\<exists>qs. ps = [] @ qs \<and> new_nodes el {} (10 - 0) qs \<and> (\<forall>p\<in>set qs. True) \<and> 1 * length qs \<le> ?g s"
    by (rule fetch_loop_collects[OF assms(8)[unfolded fetchNodes_def], where I = ?I and Q = "\<lambda>_. True" and g = ?g and k = 1])
      (erule (1) step, rule refl)
  then show ?thesis by auto
qed

text \<open>
  A node that comes again is no error: when every search finds the same one, it is handed out once and all ten searches
  are made, however many errors are allowed.
\<close>

lemma known_node_again:
  assumes "enr_nodeId el p = Inr (Some i)" and "i \<noteq> []" and "i \<in> ids" and "m < maxErrors" and "n \<le> maxGet"
  shows "fetch_loop el (\<lambda>k. Some (k + 1, Inr (Some p))) body maxGet maxErrors n m ids (k :: nat) c = Some (k + (maxGet - n), c, Go)"
  using assms(5)
proof (induction "maxGet - n" arbitrary: n k)
  case 0
  then show ?case by (subst fetch_loop.simps) simp
next
  case (Suc d)
  then have "n < maxGet" "d = maxGet - (n + 1)" "n + 1 \<le> maxGet" "k + (maxGet - n) = (k + 1) + (maxGet - (n + 1))" by auto
  with Suc.hyps(1)[of "n + 1" "k + 1"] assms(1-4) show ?case
    by (subst fetch_loop.simps) (simp add: found_node_def truthy_nonempty)
qed

theorem duplicates_are_no_errors:
  assumes "enr_nodeId el p = Inr (Some i)" and "i \<noteq> []" and "enr_waku2 p \<noteq> None" and "get_address el Ip p = Inr a"
  shows "fetchNodes el (\<lambda>k. Some (k + 1, Inr (Some p))) collect_nodes (k :: nat) [] = Some (k + 10, [p], Go)"
proof -
  have "take_node el collect_nodes p [] = ([p], Go)" using assms(3,4) by (simp add: take_node_def collect_nodes_def)
  with known_node_again[OF assms(1,2), of "{i}" 0 3 1 10 collect_nodes "k + 1" "[p]"] assms(1,2) show ?thesis
    unfolding fetchNodes_def by (subst fetch_loop.simps) (simp add: found_node_def truthy_nonempty)
qed

section \<open>The service\<close>

lemma fetch_loop_body:
  assumes "\<And>p c. J c \<Longrightarrow> J (fst (body p c))" and "J c"
    and "fetch_loop el getNode body maxGet maxErrors n m ids s c = Some (s', c', fl)"
  shows "J c'"
  using assms(2,3)
proof (induction "maxGet - n" arbitrary: n m ids s c rule: less_induct)
  case less
  have take: "J (fst (take_node el body p c))" for p
    using assms(1)[OF less.prems(1), of p] less.prems(1) by (auto simp: take_node_def split: prod.splits flow.splits if_splits)
  show ?case
  proof (cases "n < maxGet \<and> m < maxErrors")
    case True
    then have less': "maxGet - (n + 1) < maxGet - n" by auto
    note IH = less.hyps[OF less']
    obtain s1 r where get: "getNode s = Some (s1, r)"
      using less.prems(2) True by (subst (asm) fetch_loop.simps) (auto split: option.splits)
    show ?thesis
    proof (cases "bindE r (found_node el ids)")
      case (Inl e)
      with less.prems True get show ?thesis by (subst (asm) fetch_loop.simps) simp
    next
      case (Inr f)
      show ?thesis
      proof (cases f)
        case (New_Node i p)
        obtain c1 fl1 where t: "take_node el body p c = (c1, fl1)" by fastforce
        with take[of p] have "J c1" by simp
        with less.prems True get Inr New_Node t IH[of c1] show ?thesis
          by (subst (asm) fetch_loop.simps) (cases fl1; auto)
      qed (use less.prems True get Inr IH[OF less.prems(1)] in \<open>subst (asm) fetch_loop.simps, auto\<close>)+
    qed
  qed (use less.prems in \<open>subst (asm) fetch_loop.simps, auto\<close>)
qed

lemma next_peers_body:
  assumes "\<And>p c. J c \<Longrightarrow> J (fst (body p c))" and "J c" and "next_peers lib random body urls s c = Some (s', c', fl)"
  shows "J c'"
  using assms(2,3)
proof (induction urls arbitrary: s c)
  case (Cons url urls)
  show ?case
  proof (cases "parseTree url")
    case (Inr r)
    obtain pk domain where r: "r = (pk, domain)" by (cases r)
    let ?get = "search lib random \<lparr>sc_domain = domain, sc_publicKey = pk\<rparr> domain" and ?s = "s\<lparr>ss_visits := {}\<rparr>"
    obtain s1 c1 fl1 where f: "fetchNodes (dl_enr lib) ?get body ?s c = Some (s1, c1, fl1)"
      using Cons.prems(2) Inr r by (auto split: option.splits)
    from fetch_loop_body[OF assms(1) Cons.prems(1) f[unfolded fetchNodes_def]] have "J c1" .
    with Cons.IH[OF this] Cons.prems(2) Inr r f show ?thesis by (cases fl1) auto
  qed (use Cons.prems in auto)
qed simp

text \<open>Calls of the service: with the network as it is at that moment.\<close>

datatype dd_event =
    Dd_Start dns_lib "nat \<Rightarrow> real" "bool list"
  | Dd_Find dns_lib "nat \<Rightarrow> real" "bool list"
  | Dd_Stop

definition dd_after :: "dns_discovery \<Rightarrow> (dns_discovery, unit) call option \<Rightarrow> dns_discovery" where
  "dd_after d r = (case r of None \<Rightarrow> d | Some (d', _) \<Rightarrow> d')"

fun dd_step :: "dd_event \<Rightarrow> dns_discovery \<Rightarrow> dns_discovery" where
  "dd_step (Dd_Start lib random stops) d = dd_after (d\<lparr>dd_started := True\<rparr>) (dd_start lib random stops d)"
| "dd_step (Dd_Find lib random stops) d = dd_after d (findPeers lib random stops d)"
| "dd_step Dd_Stop d = dd_stop d"

definition dd_run :: "dd_event list \<Rightarrow> dns_discovery \<Rightarrow> dns_discovery" where
  "dd_run es d = foldl (\<lambda>d e. dd_step e d) d es"

definition dd_inv :: "dns_discovery \<Rightarrow> bool" where
  "dd_inv d \<longleftrightarrow> distinct (map fst (dd_events d)) \<and> map fst (dd_tagged d) = map fst (dd_events d)
     \<and> (\<forall>p\<in>set (map fst (dd_events d)). \<exists>sp. dd_store d p = Some sp \<and> DEFAULT_BOOTSTRAP_TAG_NAME \<in> set (sp_tags sp))"

lemma dd_write_inv:
  assumes "dd_inv d" and "\<And>sp. dd_store d p = Some sp \<Longrightarrow> DEFAULT_BOOTSTRAP_TAG_NAME \<notin> set (sp_tags sp)"
    and "DEFAULT_BOOTSTRAP_TAG_NAME \<in> set (sp_tags sp)"
  shows "dd_inv (dd_write p mas sp d)"
proof -
  have "p \<notin> set (map fst (dd_events d))" using assms(1,2) unfolding dd_inv_def by blast
  with assms(1,3) show ?thesis by (auto simp: dd_inv_def dd_write_def)
qed

lemma dd_peer_inv: "dd_inv d \<Longrightarrow> dd_inv (fst (dd_peer lib p d))"
  by (auto simp: dd_peer_def intro!: dd_write_inv split: sum.split prod.split option.split)

lemma dd_stop_inv: "dd_inv (dd_stop d) = dd_inv d" "dd_inv (d\<lparr>dd_started := b\<rparr>) = dd_inv d" "dd_inv (d\<lparr>dd_search := s\<rparr>) = dd_inv d"
  by (simp_all add: dd_inv_def dd_stop_def)

lemma dd_round_inv: "dd_inv (snd c) \<Longrightarrow> dd_inv (snd (fst (dd_round lib p c)))"
proof -
  assume c: "dd_inv (snd c)"
  let ?d = "if fst c \<noteq> [] \<and> hd (fst c) then dd_stop (snd c) else snd c"
  have "dd_inv (fst (dd_peer lib p ?d))" using c by (intro dd_peer_inv) (simp add: dd_stop_inv)
  moreover have "snd (fst (dd_round lib p c)) = fst (dd_peer lib p ?d)"
    by (simp only: dd_round_def split_beta fst_conv snd_conv)
  ultimately show ?thesis by simp
qed

lemma findPeers_inv: "dd_inv d \<Longrightarrow> findPeers lib random stops d = Some (d', r) \<Longrightarrow> dd_inv d'"
proof -
  assume d: "dd_inv d" and f: "findPeers lib random stops d = Some (d', r)"
  let ?s = "case dd_search d of None \<Rightarrow> \<lparr>ss_cache = Map.empty, ss_visits = {}, ss_draws = 0\<rparr> | Some s \<Rightarrow> s"
  from f obtain s' st d1 fl where g: "getNextPeer lib random (dd_round lib) (do_enrUrls (dd_options d)) ?s (stops, d) = Some (s', (st, d1), fl)"
    and d': "dd_inv d' = dd_inv d1"
    by (auto simp: findPeers_def Let_def throws_def returns_def dd_inv_def split: option.splits flow.splits)
  have "dd_inv (snd (st, d1))"
    by (rule next_peers_body[OF _ _ g[unfolded getNextPeer_def], where J = "\<lambda>c. dd_inv (snd c)"])
      (simp_all add: dd_round_inv d)
  with d' show ?thesis by simp
qed

lemma dd_step_inv: "dd_inv d \<Longrightarrow> dd_inv (dd_step e d)"
proof -
  have after: "dd_inv (dd_after d (findPeers lib random stops d))" if "dd_inv d" for lib random stops d
    using findPeers_inv[OF that, of lib random stops] that by (cases "findPeers lib random stops d") (auto simp: dd_after_def)
  assume "dd_inv d"
  then show ?thesis using after[of d] after[of "d\<lparr>dd_started := True\<rparr>"] by (cases e) (simp_all add: dd_start_def dd_stop_inv)
qed

text \<open>Whatever the calls and the answers of the resolvers are, as long as nothing else takes tags away: each announced peer
  was announced once, was given the bootstrap tag with it, and is in the peer store with this tag.
\<close>

theorem dns_peers_announced_once: "dd_inv (dd_run es (dns_discovery_new opts ps))"
proof -
  have "dd_inv (dd_run es d)" if "dd_inv d" for d
    using that unfolding dd_run_def by (induction es arbitrary: d) (simp_all add: dd_step_inv)
  moreover have "dd_inv (dns_discovery_new opts ps)" by (simp add: dd_inv_def dns_discovery_new_def)
  ultimately show ?thesis by blast
qed

section \<open>Examples\<close>

text \<open>Random numbers that are fair: each pair of an index and a length comes again and again.\<close>

definition ex_draws :: "nat \<Rightarrow> real" where
  "ex_draws m = (let (i, len) = prod_decode (snd (prod_decode m)) in if i < len then of_nat i / of_nat len else 0)"

lemma ex_draws_unit: "unit_interval ex_draws"
  by (auto simp: unit_interval_def ex_draws_def Let_def split: prod.split)

lemma ex_draws_fair: "fair_draws ex_draws"
  unfolding fair_draws_def
proof (intro allI impI)
  fix len i n :: nat assume "i < len"
  let ?m = "prod_encode (n, prod_encode (i, len))"
  have "ex_draws ?m * of_nat len = of_nat i" using \<open>i < len\<close> by (simp add: ex_draws_def)
  then show "\<exists>m\<ge>n. nat \<lfloor>ex_draws m * of_nat len\<rfloor> = i" by (intro exI[of _ ?m]) (simp add: le_prod_encode_1)
qed

text \<open>A resolver of three names, and packages in which a signature is the key itself.\<close>

definition ex_root :: string where "ex_root = ''enrtree-root:v1 e=E l=L seq=1 sig=K''"

definition ex_values :: "bytes list" where
  "ex_values = [[7, 8], [44], ex_utf8 ''id'', ex_utf8 ''v4'', ex_utf8 ''secp256k1'', [7, 8], ex_utf8 ''waku2'', [1]]"

definition ex_record :: string where
  "ex_record = RECORD_PREFIX @ ex_text_of (ex_rlp ex_values)"

definition ex_dns :: "(string \<times> string) list \<Rightarrow> dns_lib" where
  "ex_dns txts =
     \<lparr>dl_enr = ex_enr_lib\<lparr>el_verify := \<lambda>sig h pk. Inr (sig = pk)\<rparr>, dl_base32 = \<lambda>s. Inr (ex_utf8 s),
      dl_resolver = \<lambda>n. Inr (map_option (\<lambda>t. [Dns_One (Dns_String t)]) (map_of txts n))\<rparr>"

definition ex_ctx :: search_context where "ex_ctx = \<lparr>sc_domain = ''d'', sc_publicKey = ''K''\<rparr>"
definition ex_fresh :: search_state where "ex_fresh = \<lparr>ss_cache = Map.empty, ss_visits = {}, ss_draws = 0\<rparr>"

lemma ex_root_verified: "parseAndVerifyRoot (ex_dns txts) ex_root ''K'' = Inr ''E''"
proof -
  have "parseRootValues ex_root = Inr \<lparr>rv_eRoot = ''E'', rv_lRoot = ''L'', rv_seq = 1, rv_signature = ''K''\<rparr>" by code_simp
  moreover have "startsWith ex_root ROOT_PREFIX" by code_simp
  ultimately show ?thesis
    by (simp add: parseAndVerifyRoot_def ex_dns_def ex_enr_lib_def enr_verifySignature_def ex_utf8_def)
qed

lemma ex_ctx_key: "sc_publicKey ex_ctx = ''K''" "ex_root \<noteq> []"
  by (simp_all add: ex_ctx_def ex_root_def)

lemma ex_dns_text:
  assumes "map_of txts (if n = ''d'' then ''d'' else n @ ''.d'') = Some t" and "t \<noteq> []"
  shows "dns_text (ex_dns txts) ex_ctx ex_fresh n = Inr t"
  using assms
  by (simp add: dns_text_def ex_fresh_def truthy_def fetch_text_def dns_location_def ex_ctx_def resolveTXT_def ex_dns_def
      answer_parts_def data_text_def split: if_splits)

lemma replayed_root_hangs_witness:
  "fetchNodes ex_enr_lib (search (ex_dns [(''d'', ex_root), (''E.d'', ex_root)]) ex_draws ex_ctx ''d'') collect_nodes ex_fresh [] = None"
  by (rule replayed_root_hangs[where t = ex_root and e = "''E''"])
    (simp_all add: ex_dns_text ex_root_verified ex_ctx_key)

text \<open>A tree with one branch and one record.\<close>

definition ex_lib :: dns_lib where
  "ex_lib = ex_dns [(''d'', ex_root), (''E.d'', ''enrtree-branch:X''), (''X.d'', ex_record)]"

definition ex_node :: enr where
  "ex_node = enr_create (dl_enr ex_lib) [(''id'', ex_utf8 ''v4''), (''secp256k1'', [7, 8]), (''waku2'', [1])] 44 (Some [7, 8])"

lemma ex_lib_texts:
  "dns_text ex_lib ex_ctx ex_fresh ''d'' = Inr ex_root"
  "dns_text ex_lib ex_ctx ex_fresh ''E'' = Inr ''enrtree-branch:X''"
  "dns_text ex_lib ex_ctx ex_fresh ''X'' = Inr ex_record"
  unfolding ex_lib_def by (rule ex_dns_text; simp add: ex_root_def ex_record_def RECORD_PREFIX_def)+

lemma ex_lib_types:
  "getEntryType ex_root = Root_Entry" "getEntryType ''enrtree-branch:X'' = Branch_Entry" "getEntryType ex_record = Record_Entry"
  "parseBranch ''enrtree-branch:X'' = Inr [''X'']" "parseAndVerifyRoot ex_lib ex_root ''K'' = Inr ''E''"
proof -
  show "getEntryType ex_root = Root_Entry" "getEntryType ''enrtree-branch:X'' = Branch_Entry"
    "parseBranch ''enrtree-branch:X'' = Inr [''X'']" by code_simp+
  show "getEntryType ex_record = Record_Entry"
    by (simp add: getEntryType_def startsWith_def ROOT_PREFIX_def BRANCH_PREFIX_def RECORD_PREFIX_def ex_record_def)
  show "parseAndVerifyRoot ex_lib ex_root ''K'' = Inr ''E''" unfolding ex_lib_def by (rule ex_root_verified)
qed

lemma ex_decode: "decode_entry ex_lib ex_record = Inr (Some ex_node)"
proof -
  have el: "dl_enr ex_lib = ex_enr_lib\<lparr>el_verify := \<lambda>sig h pk. Inr (sig = pk)\<rparr>" by (simp add: ex_lib_def ex_dns_def)
  have kvs: "read_kvs (dl_enr ex_lib) (drop 2 ex_values) [] = [(''id'', ex_utf8 ''v4''), (''secp256k1'', [7, 8]), (''waku2'', [1])]"
    by (simp add: ex_values_def el ex_enr_lib_def ex_utf8_roundtrip)
  have "checkSignature (dl_enr ex_lib) [44] (drop 2 ex_values) ex_node [7, 8] = Inr ()"
    by (simp add: checkSignature_def enr_verify_def enr_verifySignature_def enr_publicKey_def enr_id_def enr_get_def
        ex_node_def el ex_enr_lib_def ex_utf8_roundtrip)
  moreover have "be_value [44] = 44" by (simp add: be_value_def)
  ultimately have "enr_fromValues (dl_enr ex_lib) ex_values = Inr ex_node" using kvs
    by (simp add: enr_fromValues_def ex_node_def ex_values_def decodeSeq_def Let_def)
  moreover have "bindE (el_fromBase64url (dl_enr ex_lib) (drop 4 ex_record)) (el_rlp_decode (dl_enr ex_lib)) = Inr ex_values"
    by (simp add: ex_record_def RECORD_PREFIX_def el ex_enr_lib_def ex_utf8_roundtrip ex_rlp_roundtrip)
  ultimately show ?thesis by (simp add: decode_entry_def)
qed

lemma ex_finite_tree: "finite_tree ex_lib ex_ctx (dns_text ex_lib ex_ctx ex_fresh) {''d'', ''E'', ''X''}"
  by (simp add: finite_tree_def ex_lib_texts ex_lib_types ex_ctx_key)

lemma finite_tree_discovery_ends_witness:
  "fetchNodes (dl_enr ex_lib) (search ex_lib ex_draws ex_ctx ''d'') collect_nodes ex_fresh [] \<noteq> None"
  by (rule finite_tree_discovery_ends[OF ex_draws_unit ex_draws_fair ex_finite_tree]) simp

lemma ex_search: "\<exists>s. search ex_lib ex_draws ex_ctx ''d'' ex_fresh = Some (s, Inr (Some ex_node))"
proof -
  let ?f = "dns_text ex_lib ex_ctx ex_fresh"
  have X: "\<exists>s'. search ex_lib ex_draws ex_ctx ''X'' s = Some (s', Inr (Some ex_node))" if "dns_text ex_lib ex_ctx s = ?f" for s
    using that by (subst search_unfold) (simp add: search_round_def ex_lib_texts ex_lib_types ex_decode)
  have E: "\<exists>s'. search ex_lib ex_draws ex_ctx ''E'' s = Some (s', Inr (Some ex_node))"
    if f: "dns_text ex_lib ex_ctx s = ?f" and "ss_visits s \<subseteq> {''d''}" for s
  proof -
    let ?s1 = "visiting ''E'' (fst (getTXTRecord ex_lib ex_ctx ''E'' s))"
    have s1: "dns_text ex_lib ex_ctx ?s1 = ?f" "''X'' \<notin> ss_visits ?s1"
      using f that(2) getTXTRecord_text(2,3)[of ex_lib ex_ctx "''E''" s] by (auto simp: visiting_def)
    obtain s2 q where sel: "selectRandomPath ex_draws [''X''] ?s1 = Some (s2, q)"
      using select_returns[OF ex_draws_fair, of "[''X'']" ?s1] by auto
    from select_cases[OF ex_draws_unit _ sel] s1 have "q = Inr ''X''" "dns_text ex_lib ex_ctx s2 = ?f" by auto
    with X[of s2] sel f show ?thesis
      by (subst search_unfold) (auto simp: search_round_def ex_lib_texts ex_lib_types caught_def)
  qed
  let ?s1 = "visiting ''d'' (fst (getTXTRecord ex_lib ex_ctx ''d'' ex_fresh))"
  have "dns_text ex_lib ex_ctx ?s1 = ?f" "ss_visits ?s1 \<subseteq> {''d''}"
    using getTXTRecord_text(2,3)[of ex_lib ex_ctx "''d''" ex_fresh] by (auto simp: visiting_def ex_fresh_def)
  from E[OF this] show ?thesis
    by (subst search_unfold) (auto simp: search_round_def ex_lib_texts ex_lib_types ex_ctx_key caught_def)
qed

lemma ex_node_fields: "enr_waku2 ex_node \<noteq> None" "enr_nodeId (dl_enr ex_lib) ex_node = Inr (Some ''08'')" "get_address (dl_enr ex_lib) Ip ex_node = Inr None"
proof -
  have el: "dl_enr ex_lib = ex_enr_lib\<lparr>el_verify := \<lambda>sig h pk. Inr (sig = pk)\<rparr>" by (simp add: ex_lib_def ex_dns_def)
  have "bytesToHex [8] = ''08''" by code_simp
  then show "enr_nodeId (dl_enr ex_lib) ex_node = Inr (Some ''08'')"
    by (simp add: enr_nodeId_def enr_publicKey_def enr_id_def enr_get_def ex_node_def el ex_enr_lib_def ex_utf8_roundtrip)
qed (simp_all add: enr_waku2_def get_address_def getStringValue_def enr_get_def ex_node_def)

lemma ex_fetch: "\<exists>s ps fl. fetchNodes (dl_enr ex_lib) (search ex_lib ex_draws ex_ctx ''d'') collect_nodes ex_fresh [] = Some (s, ex_node # ps, fl)"
proof -
  obtain s ps fl where r: "fetchNodes (dl_enr ex_lib) (search ex_lib ex_draws ex_ctx ''d'') collect_nodes ex_fresh [] = Some (s, ps, fl)"
    using fetch_tree_returns[OF ex_draws_unit ex_draws_fair ex_finite_tree, of "''d''" "dl_enr ex_lib" collect_nodes "[]"] by auto
  obtain s1 where s1: "search ex_lib ex_draws ex_ctx ''d'' ex_fresh = Some (s1, Inr (Some ex_node))" using ex_search by blast
  have "take_node (dl_enr ex_lib) collect_nodes ex_node [] = ([ex_node], Go)"
    using ex_node_fields by (simp add: take_node_def collect_nodes_def)
  with r s1 ex_node_fields
  have "fetch_loop (dl_enr ex_lib) (search ex_lib ex_draws ex_ctx ''d'') collect_nodes 10 3 1 0 {''08''} s1 [ex_node] = Some (s, ps, fl)"
    unfolding fetchNodes_def by (subst (asm) fetch_loop.simps) (simp add: found_node_def truthy_nonempty)
  from fetch_loop_collects[OF this, where I = "\<lambda>_. True" and Q = "\<lambda>_. True" and g = "\<lambda>_. 0" and k = 0]
  obtain qs where "ps = [ex_node] @ qs" by auto
  with r show ?thesis by auto
qed


lemma nodes_bounded_by_top_branch_witness:
  "\<exists>s fl. fetchNodes (dl_enr ex_lib) (search ex_lib ex_draws ex_ctx ''d'') collect_nodes ex_fresh [] = Some (s, [ex_node], fl)"
proof -
  obtain s ps fl where r: "fetchNodes (dl_enr ex_lib) (search ex_lib ex_draws ex_ctx ''d'') collect_nodes ex_fresh [] = Some (s, ex_node # ps, fl)"
    using ex_fetch by blast
  have "length (ex_node # ps) \<le> card (set [''X''] - ss_visits ex_fresh)"
    by (rule nodes_bounded_by_top_branch[OF ex_draws_unit ex_lib_texts(1) ex_lib_types(1) _ ex_lib_texts(2) ex_lib_types(2,4) r])
      (simp add: ex_lib_types ex_ctx_key)
  moreover have "card (set [''X''] - ss_visits ex_fresh) \<le> 1" by (simp add: ex_fresh_def)
  ultimately have "length (ex_node # ps) \<le> 1" by (rule le_trans)
  then have "ps = []" by simp
  with r show ?thesis by blast
qed

end
