(* ===== verification/Json.thy ===== *)
theory Json
  imports Js_Strings
begin

text \<open>
  JSON values, as \<open>JSON.parse\<close> yields them: the numbers are integers, and an object is the list of its fields in
  their order, without duplicates. The names of the fields are none that every object inherits.
\<close>

datatype json =
    J_Null
  | J_Bool bool
  | J_Number int
  | J_String string
  | J_Array "json list"
  | J_Object "(string \<times> json) list"

definition json_field :: "string \<Rightarrow> json \<Rightarrow> json option" where
  "json_field k j = (case j of J_Object fs \<Rightarrow> map_of fs k | _ \<Rightarrow> None)"

definition is_json_object :: "json \<Rightarrow> bool" where
  "is_json_object j = (case j of J_Object fs \<Rightarrow> True | _ \<Rightarrow> False)"

definition is_json_string :: "json \<Rightarrow> bool" where
  "is_json_string j = (case j of J_String s \<Rightarrow> True | _ \<Rightarrow> False)"

text \<open>\<open>_.get\<close> with a path of two names: a field with the whole path as its name comes first.\<close>

definition json_get2 :: "string \<Rightarrow> string \<Rightarrow> json \<Rightarrow> json option" where
  "json_get2 k1 k2 j =
     (case json_field (k1 @ ''.'' @ k2) j of
        Some v \<Rightarrow> Some v
      | None \<Rightarrow> (case json_field k1 j of Some v \<Rightarrow> json_field k2 v | None \<Rightarrow> None))"

text \<open>An absent field and a field of a JSON value: what a template string makes of it.\<close>

fun js_text :: "json \<Rightarrow> string" where
  "js_text J_Null = ''null''"
| "js_text (J_Bool b) = (if b then ''true'' else ''false'')"
| "js_text (J_Number n) = js_show_int n"
| "js_text (J_String s) = s"
| "js_text (J_Array vs) = js_join '','' (map (\<lambda>v. if v = J_Null then [] else js_text v) vs)"
| "js_text (J_Object fs) = ''[object Object]''"

definition js_template :: "json option \<Rightarrow> string" where
  "js_template v = (case v of Some j \<Rightarrow> js_text j | None \<Rightarrow> ''undefined'')"

end
