(* ===== verification/Peer_Cache.thy ===== *)
theory Peer_Cache
  imports Enr Dialer Json
begin

text \<open>
  Discovery from a cache of peers (\<open>packages/discovery/src/peer-cache\<close>): the caches, and the service that reads its
  peers from one and keeps it up to date. The item of the local storage is its JSON value. A cache given by the
  caller is two operations over a state of its own, as the locale \<open>peer_cache\<close> says. The peers of a running
  discovery are handled one at a time, each without interruption.
\<close>

section \<open>utils.ts\<close>

definition isValidStoredPeer :: "json \<Rightarrow> bool" where
  "isValidStoredPeer peer =
     (case peer of
        J_Object fs \<Rightarrow>
          (case (map_of fs ''id'', map_of fs ''multiaddrs'') of
             (Some (J_String _), Some (J_Array _)) \<Rightarrow> True
           | _ \<Rightarrow> False)
      | _ \<Rightarrow> False)"

text \<open>The item \<open>waku:peers\<close>, and whether reading and writing the storage works.\<close>

datatype stored_item = No_Item | Broken_Text | Item json

record local_storage =
  ls_item :: stored_item
  ls_readable :: bool
  ls_writable :: bool

definition local_get :: "local_storage \<Rightarrow> json list" where
  "local_get ls =
     (if ls_readable ls
      then (case ls_item ls of
              Item (J_Array peers) \<Rightarrow> filter isValidStoredPeer peers
            | _ \<Rightarrow> [])
      else [])"

definition local_set :: "json list \<Rightarrow> local_storage \<Rightarrow> local_storage" where
  "local_set v ls = (if ls_writable ls then ls\<lparr>ls_item := Item (J_Array v)\<rparr> else ls)"

definition local_remove :: "local_storage \<Rightarrow> local_storage" where
  "local_remove ls = (if ls_writable ls then ls\<lparr>ls_item := No_Item\<rparr> else ls)"

datatype default_cache = Local_Storage_Cache local_storage | Noop_Cache

definition defaultCache :: "local_storage option \<Rightarrow> default_cache" where
  "defaultCache localStorage = (case localStorage of Some ls \<Rightarrow> Local_Storage_Cache ls | None \<Rightarrow> Noop_Cache)"

record 'x cache_ops =
  co_get :: "'x \<Rightarrow> js_error + json list"
  co_set :: "json list \<Rightarrow> 'x \<Rightarrow> js_error + 'x"

definition default_ops :: "default_cache cache_ops" where
  "default_ops =
     \<lparr>co_get = (\<lambda>c. Inr (case c of Local_Storage_Cache ls \<Rightarrow> local_get ls | Noop_Cache \<Rightarrow> [])),
      co_set = (\<lambda>v c. Inr (case c of Local_Storage_Cache ls \<Rightarrow> Local_Storage_Cache (local_set v ls) | Noop_Cache \<Rightarrow> Noop_Cache))\<rparr>"

section \<open>peer_cache.ts: the cache\<close>

definition readPeerInfoFromCache :: "'x cache_ops \<Rightarrow> 'x \<Rightarrow> json list" where
  "readPeerInfoFromCache ops x = (case co_get ops x of Inl e \<Rightarrow> [] | Inr peers \<Rightarrow> peers)"

definition writePeerInfoToCache :: "'x cache_ops \<Rightarrow> json list \<Rightarrow> 'x \<Rightarrow> 'x" where
  "writePeerInfoToCache ops peers x = (case co_set ops peers x of Inl e \<Rightarrow> x | Inr x' \<Rightarrow> x')"

definition json_addresses :: "string list \<Rightarrow> json" where
  "json_addresses addrs = J_Array (map J_String addrs)"

text \<open>The first peer with this identifier gets the new addresses, in place; else a new one comes last.\<close>

fun remember_peer :: "string \<Rightarrow> string list \<Rightarrow> json list \<Rightarrow> json list" where
  "remember_peer p addrs [] = [J_Object [(''id'', J_String p), (''multiaddrs'', json_addresses addrs)]]"
| "remember_peer p addrs (j # js) =
     (if json_field ''id'' j = Some (J_String p)
      then (case j of J_Object fs \<Rightarrow> J_Object (AList.update ''multiaddrs'' (json_addresses addrs) fs) | _ \<Rightarrow> j) # js
      else j # remember_peer p addrs js)"

definition handleDiscoveredPeer :: "'x cache_ops \<Rightarrow> string \<Rightarrow> string list \<Rightarrow> 'x \<Rightarrow> 'x" where
  "handleDiscoveredPeer ops p addrs x = writePeerInfoToCache ops (remember_peer p addrs (readPeerInfoFromCache ops x)) x"

section \<open>peer_cache.ts: the service\<close>

text \<open>What the packages make of a peer identifier and of an address, which may be any JSON value.\<close>

record cache_net =
  cn_peerId :: "string \<Rightarrow> js_error + string"
  cn_multiaddr :: "json \<Rightarrow> js_error + string"

text \<open>\<open>pc_runs\<close> are the peers that the running calls of \<open>start\<close> have still to handle.\<close>

record 'x peer_cache_discovery =
  pc_started :: bool
  pc_listening :: bool
  pc_cache :: 'x
  pc_runs :: "json list list"
  pc_store :: peer_store
  pc_events :: "(string \<times> string list) list"

definition PEER_CACHE_TAG_NAME :: string where "PEER_CACHE_TAG_NAME = ''peer-cache''"

definition peer_cache_new :: "'x \<Rightarrow> peer_store \<Rightarrow> 'x peer_cache_discovery" where
  "peer_cache_new x ps =
     \<lparr>pc_started = False, pc_listening = False, pc_cache = x, pc_runs = [], pc_store = ps, pc_events = []\<rparr>"

definition pc_start :: "'x cache_ops \<Rightarrow> 'x peer_cache_discovery \<Rightarrow> 'x peer_cache_discovery" where
  "pc_start ops d =
     (if pc_started d then d
      else d\<lparr>pc_listening := True, pc_runs := pc_runs d @ [readPeerInfoFromCache ops (pc_cache d)]\<rparr>)"

definition pc_stop :: "'x peer_cache_discovery \<Rightarrow> 'x peer_cache_discovery" where
  "pc_stop d = (if \<not> pc_started d then d else d\<lparr>pc_listening := False, pc_started := False\<rparr>)"

fun all_addresses :: "cache_net \<Rightarrow> json list \<Rightarrow> js_error + string list" where
  "all_addresses net [] = Inr []"
| "all_addresses net (j # js) = bindE (cn_multiaddr net j) (\<lambda>a. bindE (all_addresses net js) (\<lambda>as. Inr (a # as)))"

definition stored_peer :: "cache_net \<Rightarrow> json \<Rightarrow> js_error + string \<times> string list" where
  "stored_peer net j =
     (case (json_field ''id'' j, json_field ''multiaddrs'' j) of
        (Some (J_String p), Some (J_Array as)) \<Rightarrow>
          bindE (cn_peerId net p) (\<lambda>q. bindE (all_addresses net as) (\<lambda>mas. Inr (q, mas)))
      | _ \<Rightarrow> Inl TypeError)"

text \<open>One round of \<open>discoverPeers\<close>; after the last one \<open>start\<close> sets its flag. What throws ends the call of \<open>start\<close>.\<close>

definition discover_round :: "cache_net \<Rightarrow> nat \<Rightarrow> 'x peer_cache_discovery \<Rightarrow> 'x peer_cache_discovery" where
  "discover_round net i d =
     (if length (pc_runs d) \<le> i then d
      else let ended = d\<lparr>pc_runs := take i (pc_runs d) @ drop (Suc i) (pc_runs d)\<rparr> in
           case pc_runs d ! i of
             [] \<Rightarrow> ended\<lparr>pc_started := True\<rparr>
           | j # js \<Rightarrow>
               (case stored_peer net j of
                  Inl e \<Rightarrow> ended
                | Inr (p, mas) \<Rightarrow>
                    (let d = d\<lparr>pc_runs := (pc_runs d)[i := js]\<rparr> in
                     if pc_store d p \<noteq> None then d
                     else d\<lparr>pc_store := (pc_store d)(p \<mapsto> \<lparr>sp_id = p, sp_protocols = [], sp_metadata = Map.empty,
                                                        sp_tags = [PEER_CACHE_TAG_NAME], sp_addresses = mas\<rparr>),
                            pc_events := pc_events d @ [(p, mas)]\<rparr>)))"

definition pc_identify :: "'x cache_ops \<Rightarrow> string \<Rightarrow> string list \<Rightarrow> 'x peer_cache_discovery \<Rightarrow> 'x peer_cache_discovery" where
  "pc_identify ops p addrs d =
     (if pc_listening d then d\<lparr>pc_cache := handleDiscoveredPeer ops p addrs (pc_cache d)\<rparr> else d)"

datatype pc_event = Pc_Start | Pc_Stop | Pc_Round cache_net nat | Pc_Identify string "string list"

fun pc_step :: "'x cache_ops \<Rightarrow> pc_event \<Rightarrow> 'x peer_cache_discovery \<Rightarrow> 'x peer_cache_discovery" where
  "pc_step ops Pc_Start d = pc_start ops d"
| "pc_step ops Pc_Stop d = pc_stop d"
| "pc_step ops (Pc_Round net i) d = discover_round net i d"
| "pc_step ops (Pc_Identify p addrs) d = pc_identify ops p addrs d"

definition pc_run :: "'x cache_ops \<Rightarrow> pc_event list \<Rightarrow> 'x peer_cache_discovery \<Rightarrow> 'x peer_cache_discovery" where
  "pc_run ops es d = foldl (\<lambda>d e. pc_step ops e d) d es"

section \<open>What a cache remembers\<close>

definition cached_peer :: "string \<Rightarrow> json list \<Rightarrow> json option" where
  "cached_peer p js = find (\<lambda>j. json_field ''id'' j = Some (J_String p)) js"

locale peer_cache =
  fixes ops :: "'x cache_ops" and usable :: "'x \<Rightarrow> bool"
  assumes get_valid: "usable x \<Longrightarrow> \<exists>js. co_get ops x = Inr js \<and> list_all isValidStoredPeer js"
    and set_get: "usable x \<Longrightarrow> list_all isValidStoredPeer js \<Longrightarrow> \<exists>x'. co_set ops js x = Inr x' \<and> usable x' \<and> co_get ops x' = Inr js"
begin

lemma read_valid: "usable x \<Longrightarrow> list_all isValidStoredPeer (readPeerInfoFromCache ops x)"
  using get_valid[of x] by (auto simp: readPeerInfoFromCache_def)

lemma read_written:
  assumes "usable x" and "list_all isValidStoredPeer js"
  shows "usable (writePeerInfoToCache ops js x)" "readPeerInfoFromCache ops (writePeerInfoToCache ops js x) = js"
  using set_get[OF assms] by (auto simp: readPeerInfoFromCache_def writePeerInfoToCache_def)

end

lemma valid_fields:
  "isValidStoredPeer j \<longleftrightarrow> (\<exists>fs p as. j = J_Object fs \<and> map_of fs ''id'' = Some (J_String p) \<and> map_of fs ''multiaddrs'' = Some (J_Array as))"
  by (auto simp: isValidStoredPeer_def split: json.splits option.splits)

lemma remember_valid: "list_all isValidStoredPeer js \<Longrightarrow> list_all isValidStoredPeer (remember_peer p addrs js)"
  by (induction js) (auto simp: valid_fields json_addresses_def update_conv')

lemma remember_lookup:
  assumes "list_all isValidStoredPeer js"
  shows "\<exists>j. cached_peer p (remember_peer p addrs js) = Some j \<and> json_field ''multiaddrs'' j = Some (json_addresses addrs)"
    and "q \<noteq> p \<Longrightarrow> cached_peer q (remember_peer p addrs js) = cached_peer q js"
  using assms
  by (induction js) (auto simp: cached_peer_def valid_fields json_field_def update_conv')

context peer_cache begin

lemma identified_peer_remembered:
  assumes "usable x"
  shows "usable (handleDiscoveredPeer ops p addrs x)"
    and "\<exists>j. cached_peer p (readPeerInfoFromCache ops (handleDiscoveredPeer ops p addrs x)) = Some j
      \<and> json_field ''multiaddrs'' j = Some (json_addresses addrs)"
    and "q \<noteq> p \<Longrightarrow> cached_peer q (readPeerInfoFromCache ops (handleDiscoveredPeer ops p addrs x))
      = cached_peer q (readPeerInfoFromCache ops x)"
  using read_written[OF assms remember_valid[OF read_valid[OF assms], of p addrs]]
    remember_lookup[OF read_valid[OF assms], where p = p and addrs = addrs]
  by (simp_all add: handleDiscoveredPeer_def)

end

definition usable_default :: "default_cache \<Rightarrow> bool" where
  "usable_default c = (case c of Local_Storage_Cache ls \<Rightarrow> ls_readable ls \<and> ls_writable ls | Noop_Cache \<Rightarrow> False)"

lemma item_cases:
  fixes P :: "json list \<Rightarrow> bool"
  assumes "P []" and "\<And>js. P (f js)"
  shows "P (case x of Item (J_Array js) \<Rightarrow> f js | _ \<Rightarrow> [])"
  using assms by (cases x) (auto split: json.splits)

lemma local_get_valid: "list_all isValidStoredPeer (local_get ls)"
  unfolding local_get_def by (cases "ls_readable ls") (auto simp: list_all_iff intro: item_cases)

interpretation dc: peer_cache default_ops usable_default
proof
  fix x assume "usable_default x"
  then show "\<exists>js. co_get default_ops x = Inr js \<and> list_all isValidStoredPeer js"
    by (auto simp: default_ops_def local_get_valid split: default_cache.split)
next
  fix x js assume "usable_default x" "list_all isValidStoredPeer js"
  then show "\<exists>x'. co_set default_ops js x = Inr x' \<and> usable_default x' \<and> co_get default_ops x' = Inr js"
    by (cases x) (auto simp: default_ops_def local_get_def local_set_def usable_default_def list_all_iff filter_id_conv)
qed

text \<open>C32: A peer that was identified is read back from the local storage with its last addresses, and the other peers as
  they were.
\<close>

theorem identified_peer_read_back:
  assumes "usable_default c" and "c' = handleDiscoveredPeer default_ops p addrs c"
  shows "(\<exists>j. cached_peer p (readPeerInfoFromCache default_ops c') = Some j \<and> json_field ''multiaddrs'' j = Some (json_addresses addrs))
    \<and> (q \<noteq> p \<longrightarrow> cached_peer q (readPeerInfoFromCache default_ops c') = cached_peer q (readPeerInfoFromCache default_ops c))
    \<and> usable_default c'"
  unfolding assms(2) using dc.identified_peer_remembered[OF assms(1)] by blast

lemma identified_peer_read_back_witness:
  "\<exists>j. cached_peer ''p'' (readPeerInfoFromCache default_ops
      (handleDiscoveredPeer default_ops ''p'' [''/a'']
        (defaultCache (Some \<lparr>ls_item = Item (J_Array [J_Null, J_Object [(''id'', J_String ''p''), (''multiaddrs'', J_Array [])]]),
           ls_readable = True, ls_writable = True\<rparr>)))) = Some j
    \<and> json_field ''multiaddrs'' j = Some (json_addresses [''/a''])"
  using identified_peer_read_back[OF _ refl, of "defaultCache (Some \<lparr>ls_item = Item (J_Array [J_Null, J_Object [(''id'', J_String ''p''), (''multiaddrs'', J_Array [])]]),
           ls_readable = True, ls_writable = True\<rparr>)" "''p''" "[''/a'']"]
  by (simp add: usable_default_def defaultCache_def)

section \<open>The service\<close>

definition pc_inv :: "'x peer_cache_discovery \<Rightarrow> bool" where
  "pc_inv d \<longleftrightarrow> distinct (map fst (pc_events d))
     \<and> (\<forall>p mas. (p, mas) \<in> set (pc_events d) \<longrightarrow> (\<exists>sp. pc_store d p = Some sp \<and> sp_tags sp = [PEER_CACHE_TAG_NAME] \<and> sp_addresses sp = mas))"

lemma pc_inv_announce:
  assumes "pc_inv d" and "pc_store d p = None"
  shows "pc_inv (d\<lparr>pc_runs := rs, pc_store := (pc_store d)(p \<mapsto> \<lparr>sp_id = p, sp_protocols = [], sp_metadata = Map.empty,
    sp_tags = [PEER_CACHE_TAG_NAME], sp_addresses = mas\<rparr>), pc_events := pc_events d @ [(p, mas)]\<rparr>)"
proof -
  have p: "(p, m) \<notin> set (pc_events d)" for m using assms unfolding pc_inv_def by fastforce
  then have "p \<notin> fst ` set (pc_events d)" by auto
  with assms p show ?thesis unfolding pc_inv_def by auto
qed

lemma discover_round_inv:
  assumes "pc_inv d"
  shows "pc_inv (discover_round net i d)"
proof (cases "length (pc_runs d) \<le> i")
  case True
  with assms show ?thesis by (simp add: discover_round_def)
next
  case False
  show ?thesis
  proof (cases "pc_runs d ! i")
    case Nil
    with assms False show ?thesis by (simp add: discover_round_def pc_inv_def)
  next
    case (Cons j js)
    show ?thesis
    proof (cases "stored_peer net j")
      case (Inl e)
      with assms False Cons show ?thesis by (simp add: discover_round_def pc_inv_def)
    next
      case (Inr r)
      obtain p mas where r: "r = (p, mas)" by (cases r)
      show ?thesis
      proof (cases "pc_store d p = None")
        case True
        from pc_inv_announce[OF assms True] False Cons Inr r True show ?thesis by (simp add: discover_round_def Let_def)
      next
        case known: False
        have "discover_round net i d = d\<lparr>pc_runs := (pc_runs d)[i := js]\<rparr>"
          using False Cons Inr r known by (simp add: discover_round_def Let_def)
        with assms show ?thesis by (simp add: pc_inv_def)
      qed
    qed
  qed
qed

lemma pc_step_inv: "pc_inv d \<Longrightarrow> pc_inv (pc_step ops e d)"
proof (cases e)
  case (Pc_Round net i)
  then show "pc_inv d \<Longrightarrow> ?thesis" by (simp add: discover_round_inv)
qed (simp_all add: pc_start_def pc_stop_def pc_identify_def pc_inv_def)

text \<open>
  Whatever the calls, the interleaving and the cache are: each announced peer was announced once and is in the peer
  store with its tag and the announced addresses.
\<close>

theorem cached_peers_announced_once: "pc_inv (pc_run ops es (peer_cache_new x ps))"
proof -
  have "pc_inv (pc_run ops es d)" if "pc_inv d" for d
    using that unfolding pc_run_def by (induction es arbitrary: d) (simp_all add: pc_step_inv)
  moreover have "pc_inv (peer_cache_new x ps)" by (simp add: pc_inv_def peer_cache_new_def)
  ultimately show ?thesis by blast
qed

text \<open>
  The flag is set at the end of \<open>start\<close> only. A stop before that does nothing, so the service runs on; and two calls of
  \<open>start\<close> around a stop leave a service that counts as started, hears of no peer, and cannot be started again.
\<close>

theorem stop_while_starting_ignored:
  assumes "\<not> pc_started d"
  shows "pc_stop (pc_start ops d) = pc_start ops d \<and> pc_listening (pc_stop (pc_start ops d))"
  using assms by (simp add: pc_start_def pc_stop_def)

theorem started_but_deaf:
  assumes "readPeerInfoFromCache ops x = []"
    and "d = pc_run ops [Pc_Start, Pc_Start, Pc_Round net 0, Pc_Stop, Pc_Round net 0] (peer_cache_new x ps)"
  shows "pc_started d \<and> pc_step ops Pc_Start d = d \<and> pc_step ops (Pc_Identify p addrs) d = d"
proof -
  have "d = (peer_cache_new x ps)\<lparr>pc_started := True\<rparr>"
    using assms by (simp add: pc_run_def pc_start_def pc_stop_def discover_round_def peer_cache_new_def Let_def)
  then show ?thesis by (simp add: pc_start_def pc_identify_def peer_cache_new_def)
qed

end
