(* ===== verification/Peer_Exchange.thy ===== *)
theory Peer_Exchange
  imports Enr Dialer
begin

text \<open>
  Discovery by peer exchange (\<open>packages/discovery/src/peer-exchange\<close>): the client of the protocol and the service that
  asks the peers it hears of. The protobuf codec, the streams and the text of a multiaddress are the record
  \<open>px_net\<close>. A query of the service begins with one step and ends with another, so that identified peers, timers,
  a stop and other queries can come in between; its answer is taken in at its end.
\<close>

section \<open>rpc.ts and peer_exchange.ts\<close>

definition PeerExchangeCodec :: string where "PeerExchangeCodec = ''/vac/waku/peer-exchange/2.0.0-alpha1''"

record px_rpc =
  xr_query :: "nat option"
  xr_response :: "bytes option list option"

definition createRequest :: "nat \<Rightarrow> px_rpc" where
  "createRequest numPeers = \<lparr>xr_query = Some numPeers, xr_response = None\<rparr>"

record px_net =
  xn_lib :: enr_lib
  xn_encode :: "px_rpc \<Rightarrow> bytes"
  xn_decode :: "bytes \<Rightarrow> js_error + px_rpc"
  xn_stream :: "string \<Rightarrow> bool"
  xn_exchange :: "string \<Rightarrow> bytes \<Rightarrow> js_error + bytes list"
  xn_show :: "multiaddr \<Rightarrow> string"

datatype px_error = P_NO_PEER_AVAILABLE | P_NO_STREAM_AVAILABLE | P_EMPTY_PAYLOAD | P_DECODE_FAILED
datatype px_result = Px_Infos "enr list" | Px_Error px_error

fun decode_enrs :: "enr_lib \<Rightarrow> bytes list \<Rightarrow> js_error + enr list" where
  "decode_enrs lib [] = Inr []"
| "decode_enrs lib (b # bs) = bindE (enr_fromRLP lib b) (\<lambda>e. bindE (decode_enrs lib bs) (\<lambda>es. Inr (e # es)))"

text \<open>The exchange itself is outside of the \<open>try\<close>: what it throws rejects the query.\<close>

definition px_query :: "px_net \<Rightarrow> peer_store \<Rightarrow> nat \<Rightarrow> string \<Rightarrow> js_error + px_result" where
  "px_query net ps numPeers peerId =
     (if ps peerId = None then Inr (Px_Error P_NO_PEER_AVAILABLE)
      else if \<not> xn_stream net peerId then Inr (Px_Error P_NO_STREAM_AVAILABLE)
      else bindE (xn_exchange net peerId (xn_encode net (createRequest numPeers)))
        (\<lambda>chunks. Inr (case xn_decode net (concat chunks) of
             Inl e \<Rightarrow> Px_Error P_DECODE_FAILED
           | Inr rpc \<Rightarrow>
               (case xr_response rpc of
                  None \<Rightarrow> Px_Error P_EMPTY_PAYLOAD
                | Some infos \<Rightarrow>
                    (case decode_enrs (xn_lib net) (concat (map (case_option [] (\<lambda>b. [b])) infos)) of
                       Inl e \<Rightarrow> Px_Error P_DECODE_FAILED
                     | Inr es \<Rightarrow> Px_Infos es)))))"

section \<open>peer_exchange_discovery.ts\<close>

definition DEFAULT_PEER_EXCHANGE_REQUEST_NODES :: nat where "DEFAULT_PEER_EXCHANGE_REQUEST_NODES = 60"
definition DEFAULT_PEER_EXCHANGE_TAG_NAME :: string where "DEFAULT_PEER_EXCHANGE_TAG_NAME = ''peer-exchange''"
definition DEFAULT_PEER_EXCHANGE_TAG_TTL :: int where "DEFAULT_PEER_EXCHANGE_TAG_TTL = 30000"

text \<open>\<open>px_running\<close> are the peers whose queries have begun and not ended, in the order in which they began.\<close>

record px_discovery =
  px_TTL :: int
  px_started :: bool
  px_listening :: bool
  px_interval :: bool
  px_querying :: "string set"
  px_expiry :: "string \<rightharpoonup> int"
  px_running :: "string list"
  px_store :: peer_store
  px_events :: "(string \<times> multiaddr list) list"

definition px_new :: "int option \<Rightarrow> peer_store \<Rightarrow> px_discovery" where
  "px_new ttl ps =
     \<lparr>px_TTL = case_option DEFAULT_PEER_EXCHANGE_TAG_TTL id ttl, px_started = False, px_listening = False, px_interval = False,
      px_querying = {}, px_expiry = Map.empty, px_running = [], px_store = ps, px_events = []\<rparr>"

definition px_start :: "px_discovery \<Rightarrow> px_discovery" where
  "px_start d = (if px_started d then d else d\<lparr>px_started := True, px_listening := True, px_interval := True\<rparr>)"

definition px_stop :: "px_discovery \<Rightarrow> px_discovery" where
  "px_stop d =
     (if \<not> px_started d then d
      else d\<lparr>px_started := False, px_querying := {}, px_expiry := Map.empty, px_interval := False, px_listening := False\<rparr>)"

definition runQuery :: "string \<Rightarrow> string list \<Rightarrow> px_discovery \<Rightarrow> px_discovery" where
  "runQuery p protocols d =
     (if PeerExchangeCodec \<notin> set protocols \<or> p \<in> px_querying d then d
      else d\<lparr>px_querying := insert p (px_querying d), px_running := px_running d @ [p]\<rparr>)"

definition px_handleDiscoveredPeer :: "string \<Rightarrow> string list \<Rightarrow> px_discovery \<Rightarrow> px_discovery" where
  "px_handleDiscoveredPeer p protocols d = (if px_listening d then runQuery p protocols d else d)"

definition shouldQuery :: "int \<Rightarrow> px_discovery \<Rightarrow> string \<Rightarrow> bool" where
  "shouldQuery now d p = (case px_expiry d p of Some t \<Rightarrow> t \<le> now | None \<Rightarrow> True)"

text \<open>A connected peer that is not in the store is left out: \<open>get\<close> throws, which is caught.\<close>

definition periodic_peer :: "int \<Rightarrow> string \<Rightarrow> px_discovery \<Rightarrow> px_discovery" where
  "periodic_peer now p d =
     (if \<not> shouldQuery now d p then d
      else case px_store d p of None \<Rightarrow> d | Some sp \<Rightarrow> runQuery p (sp_protocols sp) d)"

definition handlePeriodicDiscovery :: "int \<Rightarrow> string list \<Rightarrow> px_discovery \<Rightarrow> px_discovery" where
  "handlePeriodicDiscovery now connections d =
     (if px_interval d then foldl (\<lambda>d p. periodic_peer now p d) d connections else d)"

definition px_hasShardInfo :: "px_discovery \<Rightarrow> string \<Rightarrow> bool" where
  "px_hasShardInfo d p = (case px_store d p of None \<Rightarrow> False | Some sp \<Rightarrow> sp_metadata sp ''shardInfo'' \<noteq> None)"

text \<open>\<open>merge\<close> adds the tag, the metadata and the addresses to what is stored.\<close>

definition px_merge :: "string \<Rightarrow> bytes option \<Rightarrow> string list \<Rightarrow> peer_store \<Rightarrow> peer_store" where
  "px_merge p shardInfo addrs ps =
     (let sp = (case ps p of Some sp \<Rightarrow> sp
                           | None \<Rightarrow> \<lparr>sp_id = p, sp_protocols = [], sp_metadata = Map.empty, sp_tags = [], sp_addresses = []\<rparr>)
      in ps(p \<mapsto> sp\<lparr>sp_tags := js_set_add DEFAULT_PEER_EXCHANGE_TAG_NAME (sp_tags sp),
                     sp_metadata := (case shardInfo of None \<Rightarrow> sp_metadata sp | Some bs \<Rightarrow> (sp_metadata sp)(''shardInfo'' \<mapsto> bs)),
                     sp_addresses := foldl (\<lambda>as a. js_set_add a as) (sp_addresses sp) addrs\<rparr>))"

definition px_handle_enr :: "px_net \<Rightarrow> enr \<Rightarrow> px_discovery \<Rightarrow> (px_discovery, unit) call" where
  "px_handle_enr net e d =
     (case bindE (enr_peerInfo (xn_lib net) e) (\<lambda>i. bindE (enr_shardInfo e) (\<lambda>si. Inr (i, si))) of
        Inl err \<Rightarrow> throws d err
      | Inr (None, _) \<Rightarrow> returns d ()
      | Inr (Some (p, mas), shardInfo) \<Rightarrow>
          (case (if px_hasShardInfo d p then Inr None
                 else case shardInfo of None \<Rightarrow> Inr None | Some si \<Rightarrow> bindE (encodeRelayShard si) (\<lambda>bs. Inr (Some bs))) of
             Inl err \<Rightarrow> throws d err
           | Inr md \<Rightarrow> returns (d\<lparr>px_store := px_merge p md (map (xn_show net) mas) (px_store d),
                                    px_events := px_events d @ [(p, mas)]\<rparr>) ()))"

fun px_handle_enrs :: "px_net \<Rightarrow> enr list \<Rightarrow> px_discovery \<Rightarrow> (px_discovery, unit) call" where
  "px_handle_enrs net [] d = returns d ()"
| "px_handle_enrs net (e # es) d = then_do (px_handle_enr net e d) (\<lambda>d _. px_handle_enrs net es d)"

definition px_run_query :: "px_net \<Rightarrow> string \<Rightarrow> px_discovery \<Rightarrow> (px_discovery, unit) call" where
  "px_run_query net p d =
     (case px_query net (px_store d) DEFAULT_PEER_EXCHANGE_REQUEST_NODES p of
        Inl e \<Rightarrow> throws d e
      | Inr (Px_Error e) \<Rightarrow> returns d ()
      | Inr (Px_Infos es) \<Rightarrow> px_handle_enrs net es d)"

text \<open>The end of \<open>runQuery\<close>: errors are caught, then the time is noted and the peer is free again.\<close>

definition runQuery_ends :: "px_net \<Rightarrow> int \<Rightarrow> nat \<Rightarrow> px_discovery \<Rightarrow> px_discovery" where
  "runQuery_ends net now i d =
     (if length (px_running d) \<le> i then d
      else let p = px_running d ! i; d = fst (px_run_query net p d) in
           d\<lparr>px_expiry := (px_expiry d)(p \<mapsto> now + px_TTL d), px_querying := px_querying d - {p},
             px_running := take i (px_running d) @ drop (Suc i) (px_running d)\<rparr>)"

datatype px_event =
    Px_Start
  | Px_Stop
  | Px_Identify string "string list"
  | Px_Interval int "string list"
  | Px_Query_Ends px_net int nat

fun px_step :: "px_event \<Rightarrow> px_discovery \<Rightarrow> px_discovery" where
  "px_step Px_Start d = px_start d"
| "px_step Px_Stop d = px_stop d"
| "px_step (Px_Identify p protocols) d = px_handleDiscoveredPeer p protocols d"
| "px_step (Px_Interval now connections) d = handlePeriodicDiscovery now connections d"
| "px_step (Px_Query_Ends net now i) d = runQuery_ends net now i d"

definition px_run :: "px_event list \<Rightarrow> px_discovery \<Rightarrow> px_discovery" where
  "px_run es d = foldl (\<lambda>d e. px_step e d) d es"

section \<open>What the end of a query changes\<close>

text \<open>A store grows when no peer, tag or shard information gets lost or replaced.\<close>

definition peer_grows :: "store_peer \<Rightarrow> store_peer \<Rightarrow> bool" where
  "peer_grows sp sp' \<longleftrightarrow>
     set (sp_tags sp) \<subseteq> set (sp_tags sp') \<and> sp_protocols sp' = sp_protocols sp \<and> set (sp_addresses sp) \<subseteq> set (sp_addresses sp')
     \<and> (\<forall>bs. sp_metadata sp ''shardInfo'' = Some bs \<longrightarrow> sp_metadata sp' ''shardInfo'' = Some bs)"

definition store_grows :: "peer_store \<Rightarrow> peer_store \<Rightarrow> bool" where
  "store_grows ps ps' \<longleftrightarrow> (\<forall>p sp. ps p = Some sp \<longrightarrow> (\<exists>sp'. ps' p = Some sp' \<and> peer_grows sp sp'))"

lemma peer_grows_refl: "peer_grows sp sp"
  by (simp add: peer_grows_def)

lemma peer_grows_trans: "peer_grows a b \<Longrightarrow> peer_grows b c \<Longrightarrow> peer_grows a c"
  by (auto simp: peer_grows_def)

lemma store_grows_refl: "store_grows ps ps"
  by (simp add: store_grows_def peer_grows_refl)

lemma store_grows_trans:
  assumes "store_grows a b" and "store_grows b c"
  shows "store_grows a c"
  unfolding store_grows_def
proof (intro allI impI)
  fix p sp assume "a p = Some sp"
  with assms(1) obtain sp1 where "b p = Some sp1" "peer_grows sp sp1" unfolding store_grows_def by blast
  with assms(2) show "\<exists>sp'. c p = Some sp' \<and> peer_grows sp sp'" unfolding store_grows_def by (meson peer_grows_trans)
qed

lemma set_addresses_added: "set (foldl (\<lambda>as a. js_set_add a as) xs ys) = set xs \<union> set ys"
  by (induction ys arbitrary: xs) auto

definition announced_tagged :: "px_discovery \<Rightarrow> bool" where
  "announced_tagged d \<longleftrightarrow> (\<forall>p\<in>fst ` set (px_events d). \<exists>sp. px_store d p = Some sp \<and> DEFAULT_PEER_EXCHANGE_TAG_NAME \<in> set (sp_tags sp))"

definition answer_taken :: "px_discovery \<Rightarrow> px_discovery \<Rightarrow> bool" where
  "answer_taken d d' \<longleftrightarrow>
     px_TTL d' = px_TTL d \<and> px_started d' = px_started d \<and> px_listening d' = px_listening d \<and> px_interval d' = px_interval d
     \<and> px_querying d' = px_querying d \<and> px_expiry d' = px_expiry d \<and> px_running d' = px_running d
     \<and> store_grows (px_store d) (px_store d') \<and> (announced_tagged d \<longrightarrow> announced_tagged d')"

lemma answer_taken_refl: "answer_taken d d"
  by (simp add: answer_taken_def store_grows_refl)

lemma answer_taken_trans: "answer_taken a b \<Longrightarrow> answer_taken b c \<Longrightarrow> answer_taken a c"
  unfolding answer_taken_def by (auto intro: store_grows_trans)

lemma merge_grows:
  assumes "\<not> px_hasShardInfo d p \<or> md = None"
  shows "store_grows (px_store d) (px_merge p md addrs (px_store d))"
  using assms unfolding store_grows_def peer_grows_def
  by (auto simp: px_merge_def px_hasShardInfo_def Let_def set_addresses_added split: option.splits)

lemma merge_tagged: "\<exists>sp. px_merge p md addrs ps p = Some sp \<and> DEFAULT_PEER_EXCHANGE_TAG_NAME \<in> set (sp_tags sp)"
  by (simp add: px_merge_def Let_def)

lemma handle_enr_taken: "answer_taken d (fst (px_handle_enr net e d))"
proof -
  have merged: "answer_taken d (d\<lparr>px_store := px_merge p md as (px_store d), px_events := px_events d @ [(p, mas)]\<rparr>)"
    if "\<not> px_hasShardInfo d p \<or> md = None" for p md as mas
  proof -
    let ?d = "d\<lparr>px_store := px_merge p md as (px_store d), px_events := px_events d @ [(p, mas)]\<rparr>"
    have g: "store_grows (px_store d) (px_store ?d)" using merge_grows[OF that] by simp
    have "announced_tagged ?d" if a: "announced_tagged d"
      unfolding announced_tagged_def
    proof
      fix q assume "q \<in> fst ` set (px_events ?d)"
      then consider "q = p" | "q \<in> fst ` set (px_events d)" by auto
      then show "\<exists>sp. px_store ?d q = Some sp \<and> DEFAULT_PEER_EXCHANGE_TAG_NAME \<in> set (sp_tags sp)"
      proof cases
        case 1
        with merge_tagged show ?thesis by simp
      next
        case 2
        with a obtain sp where "px_store d q = Some sp" "DEFAULT_PEER_EXCHANGE_TAG_NAME \<in> set (sp_tags sp)"
          by (auto simp: announced_tagged_def)
        with g show ?thesis unfolding store_grows_def peer_grows_def by blast
      qed
    qed
    with g show ?thesis by (simp add: answer_taken_def)
  qed
  show ?thesis
    by (auto simp: px_handle_enr_def answer_taken_refl intro!: merged
        split: sum.split prod.split option.split)
qed

lemma handle_enrs_taken: "answer_taken d (fst (px_handle_enrs net es d))"
proof (induction es arbitrary: d)
  case (Cons e es)
  show ?case
  proof (cases "px_handle_enr net e d")
    case (Pair d1 r)
    with handle_enr_taken[of d net e] have "answer_taken d d1" by simp
    with Cons.IH[of d1] Pair show ?thesis by (cases r) (auto intro: answer_taken_trans)
  qed
qed (simp add: answer_taken_refl)

lemma run_query_taken: "answer_taken d (fst (px_run_query net p d))"
  by (auto simp: px_run_query_def answer_taken_refl handle_enrs_taken throws_def returns_def split: sum.split px_result.split)

lemma taken_fields:
  assumes "answer_taken d d'"
  shows "px_TTL d' = px_TTL d" "px_started d' = px_started d" "px_listening d' = px_listening d" "px_interval d' = px_interval d"
    "px_querying d' = px_querying d" "px_expiry d' = px_expiry d" "px_running d' = px_running d"
  using assms by (simp_all add: answer_taken_def)

section \<open>Properties\<close>

definition px_inv :: "px_discovery \<Rightarrow> bool" where
  "px_inv d \<longleftrightarrow> px_listening d = px_started d \<and> px_interval d = px_started d \<and> px_querying d \<subseteq> set (px_running d) \<and> announced_tagged d"

lemma set_remove_nth: "i < length xs \<Longrightarrow> set xs - {xs ! i} \<subseteq> set (take i xs @ drop (Suc i) xs)"
  by (subst (1) id_take_nth_drop[of i xs]) auto

lemma announced_cong: "px_store d' = px_store d \<Longrightarrow> px_events d' = px_events d \<Longrightarrow> announced_tagged d' = announced_tagged d"
  by (simp add: announced_tagged_def)

lemma runQuery_inv: "px_inv d \<Longrightarrow> px_inv (runQuery p protocols d)"
  by (auto simp: runQuery_def px_inv_def announced_tagged_def)

lemma periodic_induct:
  assumes "P d" and "\<And>p protocols d. P d \<Longrightarrow> P (runQuery p protocols d)"
  shows "P (handlePeriodicDiscovery now ps d)"
proof -
  have "P (foldl (\<lambda>d p. periodic_peer now p d) d ps)" using assms(1)
    by (induction ps arbitrary: d) (auto simp: periodic_peer_def assms(2) split: option.split)
  with assms(1) show ?thesis by (simp add: handlePeriodicDiscovery_def)
qed

lemma runQuery_ends_inv:
  assumes "px_inv d"
  shows "px_inv (runQuery_ends net now i d)"
proof (cases "i < length (px_running d)")
  case True
  let ?d = "fst (px_run_query net (px_running d ! i) d)"
  note f = taken_fields[OF run_query_taken[of d net "px_running d ! i"]]
  have "px_querying d - {px_running d ! i} \<subseteq> set (take i (px_running d) @ drop (Suc i) (px_running d))"
    using assms set_remove_nth[OF True] by (auto simp: px_inv_def)
  moreover have "announced_tagged ?d" using run_query_taken[of d net "px_running d ! i"] assms by (simp add: answer_taken_def px_inv_def)
  ultimately show ?thesis using assms True by (simp add: runQuery_ends_def Let_def px_inv_def f announced_tagged_def)
qed (simp add: runQuery_ends_def assms)

lemma px_step_inv: "px_inv d \<Longrightarrow> px_inv (px_step e d)"
proof (cases e)
  case (Px_Interval now ps)
  show "px_inv d \<Longrightarrow> ?thesis" unfolding Px_Interval px_step.simps by (rule periodic_induct) (simp_all add: runQuery_inv)
qed (auto simp: px_start_def px_stop_def px_handleDiscoveredPeer_def runQuery_inv runQuery_ends_inv, auto simp: px_inv_def announced_tagged_def)


text \<open>
  What other peers answer takes nothing away: after every run each peer of the store is still there, with its protocols,
  tags and addresses and, if it had one, with the same shard information.
\<close>

theorem answers_overwrite_nothing: "store_grows (px_store d) (px_store (px_run es d))"
proof -
  have run: "store_grows (px_store d) (px_store (runQuery p protocols d))" for p protocols d
    by (simp add: runQuery_def store_grows_refl)
  have step: "store_grows (px_store d) (px_store (px_step e d))" for e d
  proof (cases e)
    case (Px_Interval now ps)
    show ?thesis unfolding Px_Interval px_step.simps
      by (rule periodic_induct[where P = "\<lambda>d'. store_grows (px_store d) (px_store d')"])
        (auto simp: store_grows_refl intro: store_grows_trans run)
  next
    case (Px_Query_Ends net now i)
    with run_query_taken[of d net "px_running d ! i"] show ?thesis
      by (simp add: runQuery_ends_def Let_def answer_taken_def store_grows_refl)
  qed (simp_all add: px_start_def px_stop_def px_handleDiscoveredPeer_def run store_grows_refl)
  show ?thesis unfolding px_run_def
    by (induction es arbitrary: d) (auto simp: store_grows_refl intro: store_grows_trans step)
qed

definition single_queries :: "px_discovery \<Rightarrow> bool" where
  "single_queries d \<longleftrightarrow> distinct (px_running d) \<and> px_querying d = set (px_running d)"

lemma runQuery_single: "single_queries d \<Longrightarrow> single_queries (runQuery p protocols d)"
  by (auto simp: single_queries_def runQuery_def)

text \<open>C22: As long as the service is not stopped, a peer has at most one running query.\<close>

theorem one_query_per_peer:
  assumes "Px_Stop \<notin> set es"
  shows "single_queries (px_run es (px_new ttl ps))"
proof -
  have ends: "single_queries (runQuery_ends net now i d)" if s: "single_queries d" for net now i d
  proof (cases "i < length (px_running d)")
    case True
    let ?xs = "px_running d"
    have x: "?xs = take i ?xs @ ?xs ! i # drop (Suc i) ?xs" using True by (rule id_take_nth_drop)
    from s have "distinct (take i ?xs @ ?xs ! i # drop (Suc i) ?xs)" "px_querying d = set (take i ?xs @ ?xs ! i # drop (Suc i) ?xs)"
      unfolding single_queries_def by (simp_all flip: x)
    with True taken_fields[OF run_query_taken[of d net "?xs ! i"]] show ?thesis
      by (auto simp: single_queries_def runQuery_ends_def Let_def)
  qed (simp add: runQuery_ends_def s)
  have "single_queries (px_run es d)" if "single_queries d" for d
    using that assms unfolding px_run_def
  proof (induction es arbitrary: d)
    case (Cons e es)
    have "single_queries (px_step e d)"
    proof (cases e)
      case (Px_Interval now ps)
      show ?thesis unfolding Px_Interval px_step.simps using Cons.prems(1) by (rule periodic_induct) (rule runQuery_single)
    next
      case Px_Start
      with Cons.prems(1) show ?thesis by (simp add: px_start_def single_queries_def)
    qed (use Cons.prems in \<open>simp_all add: ends runQuery_single px_handleDiscoveredPeer_def\<close>)
    with Cons show ?case by simp
  qed simp
  then show ?thesis by (simp add: single_queries_def px_new_def)
qed

lemma one_query_per_peer_witness:
  "single_queries (px_run [Px_Start, Px_Identify ''p'' [PeerExchangeCodec], Px_Identify ''p'' [PeerExchangeCodec]] (px_new None Map.empty))"
  by (rule one_query_per_peer) simp

text \<open>
  A stop does not end a running query: its answer is taken in all the same, and the time it leaves behind keeps
  the peer from being queried by the interval after the next start; and a peer that is identified again after
  a restart is queried a second time at once.
\<close>

theorem query_outlives_stop:
  assumes "px_running d = p # rest" and "d' = px_step (Px_Query_Ends net now 0) (px_step Px_Stop d)"
  shows "px_events d' = px_events (fst (px_run_query net p (px_stop d))) \<and> \<not> px_started d'
    \<and> (\<forall>t < now + px_TTL d. px_step (Px_Interval t [p]) (px_step Px_Start d') = px_step Px_Start d')"
proof -
  note f = taken_fields[OF run_query_taken[of "px_stop d" net p]]
  have r: "px_running (px_stop d) = p # rest" "px_TTL (px_stop d) = px_TTL d" "\<not> px_started (px_stop d)"
    using assms(1) by (simp_all add: px_stop_def)
  have e: "d' = runQuery_ends net now 0 (px_stop d)" by (simp add: assms(2))
  have "px_expiry d' p = Some (now + px_TTL d)" "\<not> px_started d'"
    "px_events d' = px_events (fst (px_run_query net p (px_stop d)))"
    by (simp_all add: e runQuery_ends_def r f Let_def)
  then show ?thesis by (simp add: handlePeriodicDiscovery_def periodic_peer_def shouldQuery_def px_start_def)
qed

lemma restart_allows_second_query:
  "px_running (px_run [Px_Start, Px_Identify p [PeerExchangeCodec], Px_Stop, Px_Start, Px_Identify p [PeerExchangeCodec]] (px_new ttl ps)) = [p, p]"
  by (simp add: px_run_def px_start_def px_stop_def px_handleDiscoveredPeer_def runQuery_def px_new_def)

end
