(* ===== verification/Rln_Contract.thy ===== *)
theory Rln_Contract
  imports Light_Push Repair_Manager Json
begin

unbundle bit_operations_syntax

text \<open>
  The identities and the smart contract of the rate limiting nullifier (\<open>packages/rln/src\<close>: \<open>utils\<close>,
  \<open>identity.ts\<close>, \<open>contract\<close>). What the chain answers to the calls of one operation is a record of functions; each
  kind of call is asked at most once in an operation, so the answers to different kinds are independent and may come
  from different blocks. An operation yields the calls that it made to the wallet, in their order, and what it returns
  or throws. Logging is left out.
\<close>

section \<open>utils/bytes.ts\<close>

text \<open>\<open>concatenate\<close> is \<^const>\<open>concat_into\<close> over a buffer of the total length, as in \<open>packages/utils\<close>.\<close>

definition concatenate :: "bytes list \<Rightarrow> js_error + bytes" where
  "concatenate input = (let totalLength = foldl (\<lambda>n arr. n + length arr) 0 input in concat_into 0 (replicate totalLength 0) input)"

datatype endianness = Big | Little

definition toBigInt :: "bytes \<Rightarrow> endianness \<Rightarrow> int" where
  "toBigInt bs inputEndianness =
     (if bs = [] then 0
      else (let workingBytes = (if inputEndianness = Little then rev bs else bs)
            in foldl (\<lambda>r b. push_bit 8 r OR uint b) 0 workingBytes))"

definition checkInt :: "bytes \<Rightarrow> int \<Rightarrow> nat \<Rightarrow> nat \<Rightarrow> int \<Rightarrow> int \<Rightarrow> js_error + unit" where
  "checkInt buf v offset ext max_v min_v =
     (if v > max_v \<or> v < min_v then Inl RangeError
      else if offset + ext > length buf then Inl RangeError
      else Inr ())"

text \<open>
  The division is exact in a double, and \<open>&\<close> truncates it towards zero. A write past the end of the array is
  ignored.
\<close>

definition low_byte :: "int \<Rightarrow> int \<Rightarrow> byte" where
  "low_byte v mul = word_of_int ((sgn v * (\<bar>v\<bar> div mul)) mod 2 ^ 32 AND 255)"

fun write_bytes :: "bytes \<Rightarrow> int \<Rightarrow> nat \<Rightarrow> int \<Rightarrow> nat \<Rightarrow> nat \<Rightarrow> bytes" where
  "write_bytes buf v offset mul i 0 = buf"
| "write_bytes buf v offset mul i (Suc n) =
     write_bytes (buf[offset + i := low_byte v mul]) v offset (mul * 256) (i + 1) n"

definition writeUIntLE :: "bytes \<Rightarrow> int \<Rightarrow> nat \<Rightarrow> nat \<Rightarrow> bool \<Rightarrow> js_error + bytes" where
  "writeUIntLE buf v offset byteLength noAssert =
     bindE (if noAssert then Inr () else checkInt buf v offset byteLength (2 ^ (8 * byteLength) - 1) 0)
       (\<lambda>_. Inr (write_bytes (buf[offset := low_byte v 1]) v offset 256 1 (byteLength - 1)))"

section \<open>utils/hash.ts, utils/epoch.ts\<close>

text \<open>The hash functions of \<open>zerokit-rln-wasm\<close> are arguments.\<close>

definition len_prefixed :: "int \<Rightarrow> bytes list \<Rightarrow> js_error + bytes" where
  "len_prefixed n input =
     bindE (writeUIntLE (replicate 8 0) n 0 8 False) (\<lambda>inputLen. concatenate (inputLen # input))"

definition poseidonHash :: "(bytes \<Rightarrow> bytes) \<Rightarrow> bytes list \<Rightarrow> js_error + bytes" where
  "poseidonHash poseidon input = bindE (len_prefixed (int (length input)) input) (\<lambda>d. Inr (poseidon d))"

definition rln_sha256 :: "(bytes \<Rightarrow> bytes) \<Rightarrow> bytes \<Rightarrow> js_error + bytes" where
  "rln_sha256 hash input = bindE (len_prefixed (int (length input)) [input]) (\<lambda>d. Inr (hash d))"

definition DefaultEpochUnitSeconds :: int where "DefaultEpochUnitSeconds = 10"

text \<open>The time is in milliseconds; the divisions are exact here.\<close>

definition dateToEpoch :: "int \<Rightarrow> int \<Rightarrow> int" where
  "dateToEpoch time epochUnitSeconds = time div (1000 * epochUnitSeconds)"

definition epochIntToBytes :: "int \<Rightarrow> bytes" where
  "epochIntToBytes epoch = (let db = replicate 32 0 in rev (be_bytes 4 (nat (epoch mod 2 ^ 32))) @ drop 4 db)"

definition epochBytesToInt :: "bytes \<Rightarrow> js_error + int" where
  "epochBytesToInt bs = (if 4 \<le> length bs then Inr (int (be_value (rev (take 4 bs)))) else Inl RangeError)"

section \<open>identity.ts\<close>

record identity_credential =
  IDTrapdoor :: bytes
  IDNullifier :: bytes
  IDSecretHash :: bytes
  IDCommitment :: bytes
  IDCommitmentBigInt :: int

definition IdentityCredential :: "bytes \<Rightarrow> bytes \<Rightarrow> bytes \<Rightarrow> bytes \<Rightarrow> identity_credential" where
  "IdentityCredential t n s c =
     \<lparr>IDTrapdoor = t, IDNullifier = n, IDSecretHash = s, IDCommitment = c, IDCommitmentBigInt = toBigInt c Little\<rparr>"

definition subarray :: "nat \<Rightarrow> nat \<Rightarrow> 'a list \<Rightarrow> 'a list" where
  "subarray i j xs = take (j - i) (drop i xs)"

definition identity_fromBytes :: "bytes \<Rightarrow> js_error + identity_credential" where
  "identity_fromBytes memKeys =
     (if length memKeys < 128 then Inl (JsError ''Invalid memKeys length - must be at least 128 bytes'')
      else Inr (IdentityCredential (subarray 0 32 memKeys) (subarray 32 64 memKeys)
                  (subarray 64 96 memKeys) (subarray 96 128 memKeys)))"

section \<open>zerokit.ts\<close>

text \<open>The identity of a seed: the key comes from \<open>zerokit-rln-wasm\<close>, an argument.\<close>

definition generateSeededIdentityCredential :: "(bytes \<Rightarrow> bytes) \<Rightarrow> string \<Rightarrow> js_error + identity_credential" where
  "generateSeededIdentityCredential membershipKey seed = identity_fromBytes (membershipKey (utf8_encode seed))"

section \<open>Facts about the bytes\<close>

lemma concatenate_eq: "concatenate input = Inr (concat input)"
proof -
  have "foldl (\<lambda>n arr. n + length arr) k input = k + sum_list (map length input)" for k
    by (induction input arbitrary: k) auto
  then show ?thesis by (simp add: concatenate_def Let_def concat_into_fits)
qed

lemma push_or_add: "push_bit 8 r OR uint (b :: byte) = 256 * r + uint b"
proof -
  have b: "uint b < 256" "0 \<le> uint b"
    using unsigned_less[of b] by simp_all
  have high: "\<not> bit (uint b) n" if "8 \<le> n" for n
    using bit_uint_iff[of b n] that by simp
  have "\<not> bit (push_bit 8 r) n \<or> \<not> bit (uint b) n" for n
    using high[of n] by (cases "8 \<le> n") (auto simp: bit_push_bit_iff)
  then have "push_bit 8 r OR uint b = push_bit 8 r + uint b"
    by (intro disjunctive_add_eq_or[symmetric]) (auto simp: bit_eq_iff bit_and_iff)
  then show ?thesis by (simp add: push_bit_eq_mult)
qed

lemma toBigInt_value: "toBigInt bs Little = int (be_value (rev bs))" "toBigInt bs Big = int (be_value bs)"
proof -
  have *: "foldl (\<lambda>r b. push_bit 8 r OR uint b) (int n) xs = int (foldl (\<lambda>n b. 256 * n + unat b) n xs)" for xs :: bytes and n
  proof (induction xs arbitrary: n)
    case (Cons b xs)
    have "push_bit 8 (int n) OR uint b = int (256 * n + unat b)" by (simp add: push_or_add)
    then show ?case using Cons[of "256 * n + unat b"] by (simp only: foldl.simps)
  qed simp
  show "toBigInt bs Little = int (be_value (rev bs))" "toBigInt bs Big = int (be_value bs)"
    using *[of 0] by (simp_all add: toBigInt_def be_value_def)
qed

lemma write_bytes_spec:
  assumes "0 \<le> v" and "offset + i + n \<le> length buf"
  shows "write_bytes buf v offset (256 ^ i) i n =
    take (offset + i) buf @ map (\<lambda>k. of_nat (nat v div 256 ^ k)) [i..<i + n] @ drop (offset + i + n) buf"
  using assms(2)
proof (induction n arbitrary: buf i)
  case (Suc n)
  let ?b = "of_nat (nat v div 256 ^ i) :: byte"
  have low: "low_byte v (256 ^ i) = ?b"
  proof -
    have "sgn v * (\<bar>v\<bar> div 256 ^ i) = int (nat v div 256 ^ i)"
      using assms(1) by (cases "v = 0") (simp_all add: zdiv_int sgn_if)
    moreover have "word_of_int (int m mod 2 ^ 32 AND 255) = (of_nat m :: byte)" for m
    proof -
      have "int m mod 2 ^ 32 AND 255 = int m mod 2 ^ 32 mod 2 ^ 8"
        using take_bit_eq_mask[of 8 "int m mod 2 ^ 32"] by (simp add: mask_eq_exp_minus_1 take_bit_eq_mod)
      also have "\<dots> = int m mod 2 ^ 8" by (simp add: mod_mod_cancel)
      finally show ?thesis
        by (intro word_uint_eqI) (simp add: unsigned_of_int unsigned_of_nat take_bit_eq_mod zmod_int)
    qed
    ultimately show ?thesis by (simp add: low_byte_def)
  qed
  have "write_bytes (buf[offset + i := ?b]) v offset (256 ^ (i + 1)) (i + 1) n =
      take (offset + (i + 1)) (buf[offset + i := ?b]) @ map (\<lambda>k. of_nat (nat v div 256 ^ k)) [i + 1..<i + 1 + n]
      @ drop (offset + (i + 1) + n) (buf[offset + i := ?b])"
    using Suc.prems by (intro Suc.IH) simp
  moreover have "take (offset + (i + 1)) (buf[offset + i := ?b]) = take (offset + i) buf @ [?b]"
    using Suc.prems by (simp add: take_Suc_conv_app_nth)
  moreover have "[i..<i + Suc n] = i # [i + 1..<i + 1 + n]" by (simp add: upt_conv_Cons)
  ultimately show ?case using low by (simp add: mult.commute add.commute add.left_commute)
qed simp

lemma le_bytes_value: "be_value (rev (map (\<lambda>k. of_nat (v div 256 ^ k)) [i..<i + n])) = v div 256 ^ i mod 256 ^ n"
proof (induction n arbitrary: i)
  case (Suc n)
  let ?w = "v div 256 ^ i"
  have "[i..<i + Suc n] = i # [Suc i..<Suc i + n]" by (simp add: upt_conv_Cons)
  moreover have "v div 256 ^ Suc i = ?w div 256" by (simp only: power_Suc2 div_mult2_eq)
  ultimately have "be_value (rev (map (\<lambda>k. of_nat (v div 256 ^ k)) [i..<i + Suc n])) =
      256 * (?w div 256 mod 256 ^ n) + unat (of_nat ?w :: byte)"
    using Suc[of "Suc i"] by (simp only: list.map rev.simps be_value_snoc)
  also have "\<dots> = ?w mod 256 ^ Suc n"
    using mod_mult2_eq[of ?w 256 "256 ^ n"] by (simp add: unat_of_nat)
  finally show ?case .
qed simp

lemma writeUIntLE_eq:
  assumes "0 \<le> v" "v < 256 ^ n" "0 < n" "offset + n \<le> length buf"
  shows "writeUIntLE buf v offset n False =
    Inr (take offset buf @ map (\<lambda>k. of_nat (nat v div 256 ^ k)) [0..<n] @ drop (offset + n) buf)"
proof -
  obtain m where n: "n = Suc m" using assms(3) by (cases n) auto
  have "(2 :: int) ^ (8 * n) = 256 ^ n" by (simp add: power_mult)
  then have "checkInt buf v offset n (2 ^ (8 * n) - 1) 0 = Inr ()"
    using assms by (simp add: checkInt_def)
  moreover have "write_bytes (buf[offset := low_byte v 1]) v offset 256 1 (n - 1) = write_bytes buf v offset (256 ^ 0) 0 n"
    by (simp add: n)
  ultimately show ?thesis
    using write_bytes_spec[OF assms(1), of offset 0 n buf] assms(4) by (simp add: writeUIntLE_def)
qed

lemma len_prefixed_eq:
  assumes "n < 2 ^ 64"
  shows "len_prefixed (int n) input = Inr (map (\<lambda>k. of_nat (n div 256 ^ k)) [0..<8] @ concat input)"
  using assms writeUIntLE_eq[of "int n" 8 0 "replicate 8 0"] by (simp add: len_prefixed_def concatenate_eq)

section \<open>What the chain answers\<close>

text \<open>What is thrown: an \<open>Error\<close> with its message, or some other value.\<close>

datatype thrown = Thrown_Error string | Thrown_Other

text \<open>The receipt's events, decoded with the contract's ABI.\<close>

datatype event_log =
    Membership_Registered int int
  | Other_Event
  | Undecodable

record receipt =
  rc_status :: string
  rc_logs :: "event_log list"

record membership_data =
  md_depositAmount :: int
  md_activeDuration :: int
  md_gracePeriodStartTimestamp :: int
  md_gracePeriodDuration :: int
  md_rateLimit :: int
  md_index :: int
  md_holder :: string
  md_token :: string

datatype chain_tx =
    Register int int "int list"
  | ExtendMemberships "int list"
  | EraseMemberships "int list" bool
  | Withdraw string

record chain =
  ch_minMembershipRateLimit :: "thrown + int"
  ch_maxMembershipRateLimit :: "thrown + int"
  ch_maxTotalRateLimit :: "thrown + int"
  ch_currentTotalRateLimit :: "thrown + int"
  ch_root :: "thrown + int"
  ch_getMerkleProof :: "int \<Rightarrow> thrown + int list"
  ch_memberships :: "int \<Rightarrow> thrown + membership_data"
  ch_isExpired :: "int \<Rightarrow> thrown + bool"
  ch_isInGracePeriod :: "int \<Rightarrow> thrown + bool"
  ch_priceCalculator :: "thrown + string"
  ch_calculate :: "string \<Rightarrow> int \<Rightarrow> thrown + string option \<times> int option"
  ch_blockNumber :: "thrown + int"
  ch_simulate :: "string \<Rightarrow> chain_tx \<Rightarrow> thrown + unit"
  ch_write :: "string \<Rightarrow> chain_tx \<Rightarrow> thrown + string"
  ch_receipt :: "string \<Rightarrow> thrown + receipt"

text \<open>The calls made with the account of the wallet.\<close>

datatype wallet_call =
    Simulated string chain_tx
  | Written string chain_tx
  | Awaited string

type_synonym 'a wallet_run = "wallet_call list \<times> (thrown + 'a)"

definition bindT :: "thrown + 'a \<Rightarrow> ('a \<Rightarrow> thrown + 'b) \<Rightarrow> thrown + 'b" where
  "bindT r f = (case r of Inl e \<Rightarrow> Inl e | Inr x \<Rightarrow> f x)"

definition and_then :: "'a wallet_run \<Rightarrow> ('a \<Rightarrow> 'b wallet_run) \<Rightarrow> 'b wallet_run" where
  "and_then c f = (case snd c of Inl e \<Rightarrow> (fst c, Inl e) | Inr x \<Rightarrow> (fst c @ fst (f x), snd (f x)))"

lemma bindT_simps [simp]: "bindT (Inl e) f = Inl e" "bindT (Inr x) f = f x"
  by (simp_all add: bindT_def)

lemma bindT_Inr: "bindT r f = Inr y \<longleftrightarrow> (\<exists>x. r = Inr x \<and> f x = Inr y)"
  by (cases r) auto

lemma and_then_simps [simp]: "and_then (l, Inl e) f = (l, Inl e)" "and_then (l, Inr x) f = (l @ fst (f x), snd (f x))"
  by (simp_all add: and_then_def)

section \<open>contract/constants.ts, contract/types.ts\<close>

definition RLN_CONTRACT_chainId :: int where "RLN_CONTRACT_chainId = 59141"
definition RLN_CONTRACT_address :: string where "RLN_CONTRACT_address = ''0xb9cd878c90e49f797b4431fbf4fb333108cb90e6''"
definition MIN_RATE :: int where "MIN_RATE = 300"
definition MAX_RATE :: int where "MAX_RATE = 600"
definition DEFAULT_RATE_LIMIT :: int where "DEFAULT_RATE_LIMIT = MAX_RATE"

datatype membership_state = Active | GracePeriod | Expired | ErasedAwaitsWithdrawal

record membership_info =
  mi_index :: int
  mi_idCommitment :: string
  mi_rateLimit :: int
  mi_startBlock :: int
  mi_endBlock :: int
  mi_state :: membership_state
  mi_depositAmount :: int
  mi_activeDuration :: int
  mi_gracePeriodDuration :: int
  mi_holder :: string
  mi_token :: string

section \<open>contract/rln_base_contract.ts: the limits\<close>

record rln_contract =
  rln_address :: json
  rln_rateLimit :: int
  rln_minRateLimit :: "int option"
  rln_maxRateLimit :: "int option"

definition rln_contract_new :: "json \<Rightarrow> int option \<Rightarrow> rln_contract" where
  "rln_contract_new address rateLimit =
     \<lparr>rln_address = address,
      rln_rateLimit = (case rateLimit of Some r \<Rightarrow> r | None \<Rightarrow> DEFAULT_RATE_LIMIT),
      rln_minRateLimit = None, rln_maxRateLimit = None\<rparr>"

definition validateRateLimit :: "rln_contract \<Rightarrow> int \<Rightarrow> thrown + unit" where
  "validateRateLimit c rateLimit =
     (case (rln_minRateLimit c, rln_maxRateLimit c) of
        (Some lo, Some hi) \<Rightarrow>
          (if rateLimit < lo \<or> rateLimit > hi
           then Inl (Thrown_Error (''Rate limit must be between '' @ js_show_int lo @ '' and '' @ js_show_int hi @ '' messages per epoch''))
           else Inr ())
      | _ \<Rightarrow> Inl (Thrown_Error ''Rate limits not initialized''))"

text \<open>Where both limits cannot be read, the error of the first is thrown.\<close>

definition rln_contract_create :: "chain \<Rightarrow> json \<Rightarrow> int option \<Rightarrow> thrown + rln_contract" where
  "rln_contract_create ch address rateLimit =
     (let c = rln_contract_new address rateLimit in
      bindT (ch_minMembershipRateLimit ch) (\<lambda>lo.
      bindT (ch_maxMembershipRateLimit ch) (\<lambda>hi.
        let c = c\<lparr>rln_minRateLimit := Some lo, rln_maxRateLimit := Some hi\<rparr> in
        bindT (validateRateLimit c (rln_rateLimit c)) (\<lambda>_. Inr c))))"

definition setRateLimit :: "int \<Rightarrow> rln_contract \<Rightarrow> rln_contract \<times> (thrown + unit)" where
  "setRateLimit newRateLimit c =
     (case validateRateLimit c newRateLimit of
        Inl e \<Rightarrow> (c, Inl e)
      | Inr _ \<Rightarrow> (c\<lparr>rln_rateLimit := newRateLimit\<rparr>, Inr ()))"

definition getMinRateLimit :: "rln_contract \<Rightarrow> thrown + int" where
  "getMinRateLimit c =
     (case rln_minRateLimit c of None \<Rightarrow> Inl (Thrown_Error ''minRateLimit not initialized'') | Some r \<Rightarrow> Inr r)"

definition getMaxRateLimit :: "rln_contract \<Rightarrow> thrown + int" where
  "getMaxRateLimit c =
     (case rln_maxRateLimit c of None \<Rightarrow> Inl (Thrown_Error ''maxRateLimit not initialized'') | Some r \<Rightarrow> Inr r)"

definition getRateLimit :: "rln_contract \<Rightarrow> int" where "getRateLimit c = rln_rateLimit c"

definition getMaxTotalRateLimit :: "chain \<Rightarrow> thrown + int" where "getMaxTotalRateLimit ch = ch_maxTotalRateLimit ch"

definition getCurrentTotalRateLimit :: "chain \<Rightarrow> thrown + int" where
  "getCurrentTotalRateLimit ch = bindT (ch_currentTotalRateLimit ch) Inr"

definition getRemainingTotalRateLimit :: "chain \<Rightarrow> thrown + int" where
  "getRemainingTotalRateLimit ch =
     bindT (ch_maxTotalRateLimit ch) (\<lambda>total_limit. bindT (ch_currentTotalRateLimit ch) (\<lambda>used. Inr (total_limit - used)))"

section \<open>contract/rln_base_contract.ts: what is read\<close>

definition getMerkleRoot :: "chain \<Rightarrow> thrown + int" where "getMerkleRoot ch = ch_root ch"

definition getMerkleProof :: "chain \<Rightarrow> int \<Rightarrow> thrown + int list" where "getMerkleProof ch i = ch_getMerkleProof ch i"

definition getMembershipInfo :: "chain \<Rightarrow> int \<Rightarrow> membership_info option" where
  "getMembershipInfo ch idCommitmentBigInt =
     (case bindT (ch_memberships ch idCommitmentBigInt) (\<lambda>md. bindT (ch_blockNumber ch) (\<lambda>currentBlock.
        let start = md_gracePeriodStartTimestamp md;
            gracePeriodEnd = start + md_gracePeriodDuration md;
            state = (if currentBlock < start then Active
                     else if currentBlock < gracePeriodEnd then GracePeriod
                     else Expired)
        in Inr \<lparr>mi_index = md_index md, mi_idCommitment = js_show_int idCommitmentBigInt, mi_rateLimit = md_rateLimit md,
                mi_startBlock = start, mi_endBlock = gracePeriodEnd, mi_state = state,
                mi_depositAmount = md_depositAmount md, mi_activeDuration = md_activeDuration md,
                mi_gracePeriodDuration = md_gracePeriodDuration md, mi_holder = md_holder md, mi_token = md_token md\<rparr>)) of
        Inl e \<Rightarrow> None
      | Inr info \<Rightarrow> Some info)"

definition getMemberIndex :: "chain \<Rightarrow> int \<Rightarrow> thrown + int" where
  "getMemberIndex ch idCommitmentBigInt = bindT (ch_memberships ch idCommitmentBigInt) (\<lambda>md. Inr (md_index md))"

text \<open>\<open>''expired'' | ''grace'' | ''active''\<close>, as the states of this name.\<close>

definition getMembershipStatus :: "chain \<Rightarrow> int \<Rightarrow> thrown + membership_state" where
  "getMembershipStatus ch idCommitment =
     bindT (ch_isExpired ch idCommitment) (\<lambda>is_expired.
     bindT (ch_isInGracePeriod ch idCommitment) (\<lambda>is_grace.
       Inr (if is_expired then Expired else if is_grace then GracePeriod else Active)))"

definition isExpired :: "chain \<Rightarrow> int \<Rightarrow> bool" where
  "isExpired ch idCommitmentBigInt = (case ch_isExpired ch idCommitmentBigInt of Inr b \<Rightarrow> b | Inl e \<Rightarrow> False)"

definition isInGracePeriod :: "chain \<Rightarrow> int \<Rightarrow> bool" where
  "isInGracePeriod ch idCommitmentBigInt = (case ch_isInGracePeriod ch idCommitmentBigInt of Inr b \<Rightarrow> b | Inl e \<Rightarrow> False)"

definition getPriceForRateLimit :: "chain \<Rightarrow> int \<Rightarrow> thrown + string option \<times> int option" where
  "getPriceForRateLimit ch rateLimit =
     bindT (ch_priceCalculator ch) (\<lambda>address.
     bindT (ch_calculate ch address rateLimit) (\<lambda>(token, price).
       if truthy token = None \<or> price = None \<or> price = Some 0 then Inr (None, None) else Inr (token, price)))"

section \<open>contract/rln_base_contract.ts: what is written\<close>

definition simulated :: "string \<Rightarrow> thrown + unit \<Rightarrow> thrown + unit" where
  "simulated what r =
     (case r of
        Inr u \<Rightarrow> Inr u
      | Inl (Thrown_Error m) \<Rightarrow> Inl (Thrown_Error (''Error simulating '' @ what @ '': '' @ m))
      | Inl Thrown_Other \<Rightarrow> Inl (Thrown_Error (''Error simulating '' @ what)))"

text \<open>The three steps every operation takes: simulate, write, wait for the receipt.\<close>

definition transact :: "chain \<Rightarrow> string \<Rightarrow> (thrown + unit \<Rightarrow> thrown + unit) \<Rightarrow> chain_tx \<Rightarrow> (string \<times> receipt) wallet_run" where
  "transact ch account explain tx =
     and_then ([Simulated account tx], explain (ch_simulate ch account tx)) (\<lambda>_.
     and_then ([Written account tx], ch_write ch account tx) (\<lambda>hash.
     and_then ([Awaited hash], ch_receipt ch hash) (\<lambda>r. ([], Inr (hash, r)))))"

definition with_account :: "string \<Rightarrow> string option \<Rightarrow> (string \<Rightarrow> 'a wallet_run) \<Rightarrow> 'a wallet_run" where
  "with_account operation account f =
     (case account of
        None \<Rightarrow> ([], Inl (Thrown_Error (''Failed to '' @ operation @ '': no account set in wallet client'')))
      | Some a \<Rightarrow> f a)"

definition extendMembership :: "chain \<Rightarrow> string option \<Rightarrow> int \<Rightarrow> string wallet_run" where
  "extendMembership ch account idCommitmentBigInt =
     with_account ''extendMembership'' account (\<lambda>a.
       and_then (transact ch a (simulated ''extending membership'') (ExtendMemberships [idCommitmentBigInt]))
         (\<lambda>(hash, _). ([], Inr hash)))"

definition eraseMembership :: "chain \<Rightarrow> string option \<Rightarrow> int \<Rightarrow> bool \<Rightarrow> string wallet_run" where
  "eraseMembership ch account idCommitmentBigInt eraseFromMembershipSet =
     (if \<not> isExpired ch idCommitmentBigInt \<or> \<not> isInGracePeriod ch idCommitmentBigInt
      then ([], Inl (Thrown_Error ''Membership is not expired or in grace period''))
      else with_account ''eraseMembership'' account (\<lambda>a.
        and_then (transact ch a (simulated ''eraseMemberships'') (EraseMemberships [idCommitmentBigInt] eraseFromMembershipSet))
          (\<lambda>(hash, _). ([], Inr hash))))"

definition contract_registerMembership :: "chain \<Rightarrow> string option \<Rightarrow> int \<Rightarrow> int option \<Rightarrow> string wallet_run" where
  "contract_registerMembership ch account idCommitmentBigInt rate =
     (let rateLimit = (case rate of Some r \<Rightarrow> r | None \<Rightarrow> DEFAULT_RATE_LIMIT) in
      if rateLimit < MIN_RATE \<or> rateLimit > MAX_RATE
      then ([], Inl (Thrown_Error (''Rate limit must be between '' @ js_show_int MIN_RATE @ '' and '' @ js_show_int MAX_RATE)))
      else with_account ''registerMembership'' account (\<lambda>a.
        and_then (transact ch a (simulated ''register membership'') (Register idCommitmentBigInt rateLimit []))
          (\<lambda>(hash, _). ([], Inr hash))))"

definition withdraw :: "chain \<Rightarrow> string option \<Rightarrow> string \<Rightarrow> string wallet_run" where
  "withdraw ch account token =
     with_account ''withdraw'' account (\<lambda>a.
       and_then (transact ch a (simulated ''withdraw'') (Withdraw token)) (\<lambda>(hash, _). ([], Inr hash)))"

section \<open>contract/rln_base_contract.ts: registration\<close>

text \<open>
  The types of \<open>keystore/types.ts\<close>. A membership that was read from a key store may hold any JSON value, or none, in
  each of its fields.
\<close>

record keystore_membership =
  km_chainId :: "json option"
  km_address :: "json option"
  km_treeIndex :: "json option"
  km_rateLimit :: "json option"

record keystore_entity =
  ke_identity :: identity_credential
  ke_membership :: keystore_membership

definition is_membership_registered :: "event_log \<Rightarrow> bool" where
  "is_membership_registered l = (case l of Membership_Registered i r \<Rightarrow> True | _ \<Rightarrow> False)"

text \<open>The credentials of the first event \<open>MembershipRegistered\<close>, if there is one.\<close>

definition registered_credentials :: "rln_contract \<Rightarrow> identity_credential \<Rightarrow> event_log list \<Rightarrow> keystore_entity option" where
  "registered_credentials c identity logs =
     (case find is_membership_registered logs of
        Some (Membership_Registered index membershipRateLimit) \<Rightarrow>
          Some \<lparr>ke_identity = identity,
                ke_membership = \<lparr>km_chainId = Some (J_String (js_show_int RLN_CONTRACT_chainId)),
                                 km_address = Some (rln_address c),
                                 km_treeIndex = Some (J_Number index),
                                 km_rateLimit = Some (J_Number membershipRateLimit)\<rparr>\<rparr>
      | _ \<Rightarrow> None)"

definition explain_failure :: "thrown \<Rightarrow> thrown" where
  "explain_failure e =
     (case e of
        Thrown_Error errorMessage \<Rightarrow>
          Thrown_Error
            (if js_includes errorMessage ''CannotExceedMaxTotalRateLimit''
             then ''Registration failed: Cannot exceed maximum total rate limit''
             else if js_includes errorMessage ''InvalidIdCommitment''
             then ''Registration failed: Invalid ID commitment''
             else if js_includes errorMessage ''InvalidMembershipRateLimit''
             then ''Registration failed: Invalid membership rate limit''
             else if js_includes errorMessage ''execution reverted''
             then ''Contract execution reverted. Check contract requirements.''
             else ''Error in registerWithIdentity: '' @ errorMessage)
      | Thrown_Other \<Rightarrow> Thrown_Error ''Unknown error in registerWithIdentity'')"

definition check_registration :: "rln_contract \<Rightarrow> chain \<Rightarrow> identity_credential \<Rightarrow> thrown + unit" where
  "check_registration c ch identity =
     bindT (getMemberIndex ch (IDCommitmentBigInt identity)) (\<lambda>existingIndex.
       if existingIndex \<noteq> 0
       then Inl (Thrown_Error (''ID commitment is already registered with index '' @ js_show_int existingIndex))
       else bindT (getRemainingTotalRateLimit ch) (\<lambda>remainingRateLimit.
         if remainingRateLimit < rln_rateLimit c
         then Inl (Thrown_Error (''Not enough remaining rate limit. Requested: '' @ js_show_int (rln_rateLimit c) @
                '', Available: '' @ js_show_int remainingRateLimit))
         else Inr ()))"

definition registration :: "rln_contract \<Rightarrow> chain \<Rightarrow> string option \<Rightarrow> identity_credential \<Rightarrow> keystore_entity option wallet_run" where
  "registration c ch account identity =
     with_account ''registerWithIdentity'' account (\<lambda>a.
       and_then ([], check_registration c ch identity) (\<lambda>_.
       and_then (transact ch a id (Register (IDCommitmentBigInt identity) (rln_rateLimit c) [])) (\<lambda>(_, r).
         if rc_status r = ''reverted'' then ([], Inl (Thrown_Error ''Transaction failed on-chain''))
         else ([], Inr (registered_credentials c identity (rc_logs r))))))"

definition registerWithIdentity :: "rln_contract \<Rightarrow> chain \<Rightarrow> string option \<Rightarrow> identity_credential \<Rightarrow> keystore_entity option wallet_run" where
  "registerWithIdentity c ch account identity =
     (case registration c ch account identity of
        (l, Inl e) \<Rightarrow> (l, Inl (explain_failure e))
      | (l, Inr r) \<Rightarrow> (l, Inr r))"

section \<open>The discipline of the operations\<close>

text \<open>
  An operation that acts through the wallet: it makes the calls of one transaction, in this order, and goes on
  only as long as they succeed.
\<close>

definition wallet_calls :: "chain \<Rightarrow> string \<Rightarrow> chain_tx \<Rightarrow> wallet_call list \<Rightarrow> bool" where
  "wallet_calls ch a tx l =
     (l = [] \<or> l = [Simulated a tx]
      \<or> (ch_simulate ch a tx = Inr () \<and>
         (l = [Simulated a tx, Written a tx]
          \<or> (\<exists>hash. ch_write ch a tx = Inr hash \<and> l = [Simulated a tx, Written a tx, Awaited hash]))))"

locale wallet_operation =
  fixes op :: "chain \<Rightarrow> string option \<Rightarrow> 'a \<Rightarrow> 'b wallet_run"
    and tx :: "'a \<Rightarrow> chain_tx"
  assumes no_account: "fst (op ch None x) = []"
    and calls: "wallet_calls ch a (tx x) (fst (op ch (Some a) x))"
    and returned: "snd (op ch (Some a) x) = Inr y \<Longrightarrow> \<exists>hash. fst (op ch (Some a) x) = [Simulated a (tx x), Written a (tx x), Awaited hash]"
begin

lemma written_was_simulated:
  assumes "Written b t \<in> set (fst (op ch account x))"
  shows "account = Some b \<and> t = tx x \<and> ch_simulate ch b t = Inr ()"
proof (cases account)
  case None
  then show ?thesis using assms no_account by simp
next
  case (Some a)
  then show ?thesis using assms calls[of ch a x] by (auto simp: wallet_calls_def)
qed

lemma written_at_most_once: "length (filter (\<lambda>w. case w of Written b t \<Rightarrow> True | _ \<Rightarrow> False) (fst (op ch account x))) \<le> 1"
proof (cases account)
  case (Some a)
  then show ?thesis using calls[of ch a x] by (auto simp: wallet_calls_def)
qed (simp add: no_account)

lemma returns_after_receipt:
  assumes "snd (op ch account x) = Inr y"
    and "account = Some a"
  shows "\<exists>hash. ch_write ch a (tx x) = Inr hash \<and> Awaited hash \<in> set (fst (op ch account x))"
  using returned[of ch a x y] calls[of ch a x] assms by (auto simp: wallet_calls_def)

end

lemma wallet_calls_simps [simp]:
  "wallet_calls ch a tx []"
  "wallet_calls ch a tx [Simulated a tx]"
  "wallet_calls ch a tx [Simulated a tx, Written a tx] \<longleftrightarrow> ch_simulate ch a tx = Inr ()"
  "wallet_calls ch a tx [Simulated a tx, Written a tx, Awaited h] \<longleftrightarrow> ch_simulate ch a tx = Inr () \<and> ch_write ch a tx = Inr h"
  by (auto simp: wallet_calls_def)

lemmas wallet_defs = transact_def and_then_def with_account_def

lemma simulated_Inr [simp]: "simulated what r = Inr u \<longleftrightarrow> r = Inr ()"
  by (auto simp: simulated_def split: sum.splits thrown.splits)

lemma simulated_of_Inr [simp]: "simulated what (Inr u) = Inr u"
  by (simp add: simulated_def)

interpretation ext: wallet_operation extendMembership "\<lambda>x. ExtendMemberships [x]"
  by unfold_locales (auto simp: extendMembership_def wallet_defs split: sum.splits)

interpretation era: wallet_operation "\<lambda>ch account (x, b). eraseMembership ch account x b" "\<lambda>(x, b). EraseMemberships [x] b"
  by unfold_locales (auto simp: eraseMembership_def wallet_defs split: sum.splits if_splits)

interpretation reg: wallet_operation
  "\<lambda>ch account (x, r). contract_registerMembership ch account x r" "\<lambda>(x, r). Register x (case r of Some n \<Rightarrow> n | None \<Rightarrow> DEFAULT_RATE_LIMIT) []"
  by unfold_locales (auto simp: contract_registerMembership_def wallet_defs Let_def split: sum.splits if_splits)

interpretation wdr: wallet_operation withdraw Withdraw
  by unfold_locales (auto simp: withdraw_def wallet_defs split: sum.splits)

interpretation rid: wallet_operation
  "\<lambda>ch account (c, i). registerWithIdentity c ch account i" "\<lambda>(c, i). Register (IDCommitmentBigInt i) (rln_rateLimit c) []"
  by unfold_locales (auto simp: registerWithIdentity_def registration_def wallet_defs split: sum.splits if_splits prod.splits)

section \<open>Properties\<close>

text \<open>A chain on which everything succeeds, for the examples.\<close>

definition ex_membership :: membership_data where
  "ex_membership = \<lparr>md_depositAmount = 5, md_activeDuration = 100, md_gracePeriodStartTimestamp = 1000,
     md_gracePeriodDuration = 50, md_rateLimit = 300, md_index = 0, md_holder = ''0xa'', md_token = ''0xt''\<rparr>"

definition ex_chain :: "string \<Rightarrow> bool \<Rightarrow> chain" where
  "ex_chain status expired =
     \<lparr>ch_minMembershipRateLimit = Inr 20, ch_maxMembershipRateLimit = Inr 600, ch_maxTotalRateLimit = Inr 160000,
      ch_currentTotalRateLimit = Inr 1000, ch_root = Inr 7, ch_getMerkleProof = (\<lambda>i. Inr []),
      ch_memberships = (\<lambda>i. Inr ex_membership), ch_isExpired = (\<lambda>i. Inr expired), ch_isInGracePeriod = (\<lambda>i. Inr (\<not> expired)),
      ch_priceCalculator = Inr ''0xp'', ch_calculate = (\<lambda>a r. Inr (Some ''0xt'', Some r)), ch_blockNumber = Inr 20,
      ch_simulate = (\<lambda>a t. Inr ()), ch_write = (\<lambda>a t. Inr ''0xh''),
      ch_receipt = (\<lambda>h. Inr \<lparr>rc_status = status, rc_logs = [Undecodable, Other_Event, Membership_Registered 4 300]\<rparr>)\<rparr>"

definition ex_contract :: rln_contract where
  "ex_contract = \<lparr>rln_address = J_String ''0xc'', rln_rateLimit = 300, rln_minRateLimit = Some 20, rln_maxRateLimit = Some 600\<rparr>"

text \<open>C26: Whatever the chain answers, an operation writes only with the account of the wallet, and only what the chain has
  simulated for this account without an error.
\<close>

theorem written_only_after_simulation:
  assumes "Written b t \<in> set (fst (extendMembership ch account i)) \<union> set (fst (eraseMembership ch account i e))
    \<union> set (fst (contract_registerMembership ch account i r)) \<union> set (fst (withdraw ch account token))
    \<union> set (fst (registerWithIdentity c ch account identity))"
  shows "account = Some b \<and> ch_simulate ch b t = Inr ()"
  using assms ext.written_was_simulated era.written_was_simulated[of b t ch account "(i, e)"]
    reg.written_was_simulated[of b t ch account "(i, r)"] wdr.written_was_simulated
    rid.written_was_simulated[of b t ch account "(c, identity)"]
  by auto

theorem written_only_after_simulation_witness:
  "Some ''0xa'' = Some ''0xa'' \<and> ch_simulate (ex_chain ''success'' True) ''0xa'' (ExtendMemberships [3]) = Inr ()"
  by (rule written_only_after_simulation[where i = 3 and e = True and r = None and token = "''0xt''" and c = ex_contract
        and identity = "IdentityCredential [] [] [] []"])
     (simp add: extendMembership_def wallet_defs ex_chain_def)

text \<open>C27: Of the two states in which the error message says that a membership can be erased, a membership can be only in
  one at a time, and the guard of \<open>eraseMembership\<close> asks for both: no membership is ever erased.
\<close>

theorem membership_cannot_be_erased:
  assumes "ch_isExpired ch i = Inr expired" and "ch_isInGracePeriod ch i = Inr grace" and "expired \<noteq> grace"
  shows "getMembershipStatus ch i = Inr (if expired then Expired else GracePeriod) \<and>
    eraseMembership ch account i b = ([], Inl (Thrown_Error ''Membership is not expired or in grace period''))"
  using assms by (auto simp: getMembershipStatus_def eraseMembership_def isExpired_def isInGracePeriod_def)

theorem membership_cannot_be_erased_witness:
  "getMembershipStatus (ex_chain ''success'' True) 3 = Inr (if True then Expired else GracePeriod) \<and>
   eraseMembership (ex_chain ''success'' True) (Some ''0xa'') 3 True =
    ([], Inl (Thrown_Error ''Membership is not expired or in grace period''))"
  by (rule membership_cannot_be_erased[where expired = True and grace = False]) (simp_all add: ex_chain_def)

text \<open>
  A registration that passes its checks writes one transaction with the rate limit of the contract; its credentials
  are those of the event. An identity that is registered with an index other than 0, or a limit that is not
  left, ends it before anything is asked of the wallet.
\<close>

theorem registration_outcome:
  assumes "ch_memberships ch (IDCommitmentBigInt identity) = Inr md"
    and "ch_maxTotalRateLimit ch = Inr t" and "ch_currentTotalRateLimit ch = Inr u"
  shows "if md_index md = 0 \<and> rln_rateLimit c \<le> t - u
    then (let tx = Register (IDCommitmentBigInt identity) (rln_rateLimit c) [] in
          \<forall>hash r. ch_simulate ch a tx = Inr () \<and> ch_write ch a tx = Inr hash \<and> ch_receipt ch hash = Inr r \<longrightarrow>
            registerWithIdentity c ch (Some a) identity =
              ([Simulated a tx, Written a tx, Awaited hash],
               if rc_status r = ''reverted'' then Inl (Thrown_Error ''Error in registerWithIdentity: Transaction failed on-chain'')
               else Inr (registered_credentials c identity (rc_logs r))))
    else fst (registerWithIdentity c ch (Some a) identity) = [] \<and>
         (\<exists>m. snd (registerWithIdentity c ch (Some a) identity) = Inl (Thrown_Error m))"
  using assms
  by (auto simp: registerWithIdentity_def registration_def check_registration_def getMemberIndex_def
      getRemainingTotalRateLimit_def wallet_defs explain_failure_def Let_def)

theorem registration_outcome_witness:
  "registerWithIdentity ex_contract (ex_chain ''success'' True) (Some ''0xa'') (IdentityCredential [] [] [] []) =
    ([Simulated ''0xa'' (Register 0 300 []), Written ''0xa'' (Register 0 300 []), Awaited ''0xh''],
     Inr (Some \<lparr>ke_identity = IdentityCredential [] [] [] [],
       ke_membership = \<lparr>km_chainId = Some (J_String (js_show_int 59141)), km_address = Some (J_String ''0xc''),
         km_treeIndex = Some (J_Number 4), km_rateLimit = Some (J_Number 300)\<rparr>\<rparr>))"
  using registration_outcome[of "ex_chain ''success'' True" "IdentityCredential [] [] [] []" ex_membership 160000 1000 ex_contract "''0xa''"]
  by (simp add: ex_chain_def ex_contract_def ex_membership_def IdentityCredential_def toBigInt_def registered_credentials_def
      is_membership_registered_def RLN_CONTRACT_chainId_def Let_def)

text \<open>
  The other operations do not look at the receipt: a transaction that was reverted on the chain yields its hash, as
  one that succeeded does.
\<close>

theorem reverted_transaction_yields_hash:
  assumes "ch_simulate ch a (ExtendMemberships [i]) = Inr ()" and "ch_write ch a (ExtendMemberships [i]) = Inr hash"
    and "ch_receipt ch hash = Inr r"
  shows "snd (extendMembership ch (Some a) i) = Inr hash \<and>
    snd (extendMembership (ch\<lparr>ch_receipt := \<lambda>h. Inr (r\<lparr>rc_status := ''reverted''\<rparr>)\<rparr>) (Some a) i) = Inr hash"
  using assms by (simp add: extendMembership_def wallet_defs)

theorem reverted_transaction_yields_hash_witness:
  "snd (extendMembership (ex_chain ''reverted'' True) (Some ''0xa'') 3) = Inr ''0xh''"
  using reverted_transaction_yields_hash[of "ex_chain ''reverted'' True" "''0xa''" 3 "''0xh''"
      "\<lparr>rc_status = ''reverted'', rc_logs = [Undecodable, Other_Event, Membership_Registered 4 300]\<rparr>"]
  by (simp add: ex_chain_def)

text \<open>
  A contract that was created has the limits of the chain, and its own limit lies between them, whatever limits the
  application asks for later.
\<close>

theorem rate_limit_in_range:
  assumes "rln_contract_create ch address rate = Inr c"
  shows "\<exists>lo hi. ch_minMembershipRateLimit ch = Inr lo \<and> ch_maxMembershipRateLimit ch = Inr hi \<and>
    (let c' = foldl (\<lambda>c n. fst (setRateLimit n c)) c ns in
     getMinRateLimit c' = Inr lo \<and> getMaxRateLimit c' = Inr hi \<and> lo \<le> getRateLimit c' \<and> getRateLimit c' \<le> hi)"
proof -
  obtain lo hi where l: "ch_minMembershipRateLimit ch = Inr lo" "ch_maxMembershipRateLimit ch = Inr hi"
    "rln_minRateLimit c = Some lo" "rln_maxRateLimit c = Some hi" "lo \<le> rln_rateLimit c" "rln_rateLimit c \<le> hi"
    using assms by (auto simp: rln_contract_create_def Let_def bindT_Inr validateRateLimit_def split: if_splits)
  have "rln_minRateLimit (foldl (\<lambda>c n. fst (setRateLimit n c)) c ns) = Some lo \<and>
    rln_maxRateLimit (foldl (\<lambda>c n. fst (setRateLimit n c)) c ns) = Some hi \<and>
    lo \<le> rln_rateLimit (foldl (\<lambda>c n. fst (setRateLimit n c)) c ns) \<and>
    rln_rateLimit (foldl (\<lambda>c n. fst (setRateLimit n c)) c ns) \<le> hi"
    using l(3-)
  proof (induction ns arbitrary: c)
    case (Cons n ns)
    then have "rln_minRateLimit (fst (setRateLimit n c)) = Some lo" "rln_maxRateLimit (fst (setRateLimit n c)) = Some hi"
      "lo \<le> rln_rateLimit (fst (setRateLimit n c))" "rln_rateLimit (fst (setRateLimit n c)) \<le> hi"
      by (auto simp: setRateLimit_def validateRateLimit_def)
    then show ?case using Cons.IH by simp
  qed simp
  then show ?thesis
    using l(1,2) by (simp add: getMinRateLimit_def getMaxRateLimit_def getRateLimit_def Let_def)
qed

theorem rate_limit_in_range_witness:
  "\<exists>lo hi. ch_minMembershipRateLimit (ex_chain ''success'' True) = Inr lo \<and> ch_maxMembershipRateLimit (ex_chain ''success'' True) = Inr hi \<and>
    (let c' = foldl (\<lambda>c n. fst (setRateLimit n c)) ex_contract [700, 400] in
     getMinRateLimit c' = Inr lo \<and> getMaxRateLimit c' = Inr hi \<and> lo \<le> getRateLimit c' \<and> getRateLimit c' \<le> hi)"
  by (rule rate_limit_in_range[where address = "J_String ''0xc''" and rate = "Some 300"])
     (simp add: rln_contract_create_def rln_contract_new_def ex_chain_def ex_contract_def validateRateLimit_def)

text \<open>What \<open>writeUIntLE\<close> has written is read back by \<open>toBigInt\<close>, and nothing around it has changed.\<close>

theorem unsigned_integer_roundtrip:
  assumes "0 \<le> v" "v < 256 ^ n" "0 < n" "offset + n \<le> length buf"
  shows "\<exists>out. writeUIntLE buf v offset n False = Inr out \<and> length out = length buf \<and>
    toBigInt (subarray offset (offset + n) out) Little = v \<and>
    take offset out = take offset buf \<and> drop (offset + n) out = drop (offset + n) buf"
proof -
  let ?bs = "map (\<lambda>k. of_nat (nat v div 256 ^ k)) [0..<n] :: bytes"
  have "nat v < 256 ^ n" using assms(1,2) by (simp add: nat_less_iff)
  then have "toBigInt ?bs Little = v"
    using le_bytes_value[of "nat v" 0 n] assms(1) by (simp add: toBigInt_value)
  moreover have "subarray offset (offset + n) (take offset buf @ ?bs @ drop (offset + n) buf) = ?bs"
    using assms(4) by (simp add: subarray_def)
  ultimately show ?thesis using writeUIntLE_eq[OF assms] assms(4) by simp
qed

theorem unsigned_integer_roundtrip_witness:
  "\<exists>out. writeUIntLE (replicate 4 9) 770 1 2 False = Inr out \<and> length out = length (replicate 4 (9 :: byte)) \<and>
    toBigInt (subarray 1 (1 + 2) out) Little = 770 \<and>
    take 1 out = take 1 (replicate 4 9) \<and> drop (1 + 2) out = drop (1 + 2) (replicate 4 9)"
  by (rule unsigned_integer_roundtrip) simp_all

text \<open>An epoch comes back from its 32 bytes modulo \<open>2 ^ 32\<close>.\<close>

theorem epoch_roundtrip: "epochBytesToInt (epochIntToBytes e) = Inr (e mod 2 ^ 32) \<and> length (epochIntToBytes e) = 32"
  by (simp add: epochBytesToInt_def epochIntToBytes_def Let_def)

text \<open>
  The data that \<open>poseidonHash\<close> hashes begin with the number of the inputs, not with their lengths: inputs that are cut
  elsewhere have the same hash.
\<close>

theorem poseidon_inputs_recut:
  assumes "xs @ ys = xs' @ ys'"
  shows "poseidonHash poseidon [xs, ys] = poseidonHash poseidon [xs', ys'] \<and>
    poseidonHash poseidon [xs, ys] = Inr (poseidon ([2, 0, 0, 0, 0, 0, 0, 0] @ xs @ ys))"
proof -
  have "map (\<lambda>k. of_nat (2 div 256 ^ k)) [0..<8] = ([2, 0, 0, 0, 0, 0, 0, 0] :: bytes)"
    by (simp add: upt_rec)
  then have "len_prefixed 2 [us, vs] = Inr ([2, 0, 0, 0, 0, 0, 0, 0] @ us @ vs)" for us vs
    using len_prefixed_eq[of 2 "[us, vs]"] by simp
  then show ?thesis using assms by (simp add: poseidonHash_def)
qed

theorem poseidon_inputs_recut_witness:
  "poseidonHash id [[1], [2, 3]] = poseidonHash id [[1, 2], [3]] \<and>
   poseidonHash id [[1], [2, 3]] = Inr (id ([2, 0, 0, 0, 0, 0, 0, 0] @ [1] @ [2, 3]))"
  by (rule poseidon_inputs_recut) simp

end
