(* ===== verification/Keystore.thy ===== *)
theory Keystore
  imports Rln_Contract Json
begin

text \<open>
  The key store of the credentials (\<open>packages/rln/src/keystore\<close>). Its data is a JSON object; the cryptography, the
  conversions of \<open>ethereum-cryptography/utils\<close> and the text of JSON are a record of functions. Names of fields that
  every JavaScript object inherits are left out. What is thrown where a field of \<open>undefined\<close> is read is one error.
\<close>

section \<open>The libraries\<close>

text \<open>A module of an EIP-2335 key store; a field of a credential may be missing.\<close>

record eip_module =
  em_function :: "json option"
  em_params :: "json option"
  em_message :: "json option"

record eip_crypto =
  ec_kdf :: eip_module
  ec_cipher :: eip_module
  ec_checksum :: eip_module

record key_library =
  kl_utf8ToBytes :: "string \<Rightarrow> bytes"
  kl_bytesToUtf8 :: "bytes \<Rightarrow> thrown + string"
  kl_bytesToHex :: "bytes \<Rightarrow> string"
  kl_hexToBytes :: "json option \<Rightarrow> thrown + bytes"
  kl_parse :: "string \<Rightarrow> thrown + json"
  kl_stringify :: "json \<Rightarrow> string"
  kl_sha256 :: "bytes \<Rightarrow> bytes"
  kl_keccak256 :: "bytes \<Rightarrow> bytes"
  kl_create :: "string \<Rightarrow> bytes \<Rightarrow> thrown + eip_crypto"
  kl_kdf :: "eip_module \<Rightarrow> string \<Rightarrow> thrown + bytes"
  kl_cipherDecrypt :: "eip_module \<Rightarrow> bytes \<Rightarrow> thrown + bytes"

text \<open>\<open>kl_kdf\<close> is \<open>kdf\<close> after \<open>normalizePassword\<close>.\<close>

definition type_error :: thrown where "type_error = Thrown_Error ''TypeError''"

section \<open>cipher.ts\<close>

definition keccak256Checksum :: "key_library \<Rightarrow> string \<Rightarrow> eip_crypto \<Rightarrow> thrown + string" where
  "keccak256Checksum lib password eip =
     bindT (kl_kdf lib (ec_kdf eip) password) (\<lambda>key.
     bindT (kl_hexToBytes lib (em_message (ec_cipher eip))) (\<lambda>message.
       let payload = drop 16 key @ message in Inr (kl_bytesToHex lib (kl_keccak256 lib payload))))"

definition validateChecksum :: "key_library \<Rightarrow> string \<Rightarrow> eip_crypto \<Rightarrow> thrown + bool" where
  "validateChecksum lib password eip =
     bindT (keccak256Checksum lib password eip) (\<lambda>computedChecksum.
       Inr (Some (J_String computedChecksum) = em_message (ec_checksum eip)))"

definition decryptEipKeystore :: "key_library \<Rightarrow> string \<Rightarrow> eip_crypto \<Rightarrow> thrown + bytes" where
  "decryptEipKeystore lib password eip =
     bindT (kl_kdf lib (ec_kdf eip) password) (\<lambda>decryptionKey.
     bindT (validateChecksum lib password eip) (\<lambda>isChecksumValid.
       if \<not> isChecksumValid then Inl (Thrown_Error ''Password is invalid.'')
       else kl_cipherDecrypt lib (ec_cipher eip) (take 16 decryptionKey)))"

section \<open>schema_validator.ts\<close>

text \<open>The generated validators: the fields that are required, and their types.\<close>

definition has_field :: "(json \<Rightarrow> bool) \<Rightarrow> json \<Rightarrow> string \<Rightarrow> bool" where
  "has_field P j k = (case json_field k j of Some v \<Rightarrow> P v | None \<Rightarrow> False)"

definition isKeystoreValid :: "json \<Rightarrow> bool" where
  "isKeystoreValid j =
     (is_json_object j \<and> has_field is_json_object j ''credentials'' \<and> has_field is_json_string j ''appIdentifier''
      \<and> has_field is_json_string j ''version'' \<and> has_field is_json_string j ''application'')"

definition isCryptoValid :: "json \<Rightarrow> bool" where
  "isCryptoValid j =
     (is_json_object j \<and> (\<forall>k\<in>set [''cipher'', ''ciphertext'', ''kdf'', ''mac'']. has_field is_json_string j k)
      \<and> (\<forall>k\<in>set [''cipherparams'', ''kdfparams'']. has_field is_json_object j k))"

definition isCredentialValid :: "json \<Rightarrow> bool" where
  "isCredentialValid j = (is_json_object j \<and> has_field isCryptoValid j ''crypto'')"

section \<open>keystore.ts: the store\<close>

type_synonym nwaku_keystore = "(string \<times> json) list"

definition object_assign :: "(string \<times> json) list \<Rightarrow> (string \<times> json) list \<Rightarrow> (string \<times> json) list" where
  "object_assign target_fields src = foldl (\<lambda>t (k, v). AList.update k v t) target_fields src"

definition keystore_new :: "(string \<times> json) list \<Rightarrow> nwaku_keystore" where
  "keystore_new opts =
     object_assign
       [(''application'', J_String ''waku-rln-relay''), (''appIdentifier'', J_String ''01234567890abcdef''),
        (''version'', J_String ''0.2''), (''credentials'', J_Object [])] opts"

definition opt_field :: "string \<Rightarrow> json option \<Rightarrow> (string \<times> json) list" where
  "opt_field k v = (case v of Some j \<Rightarrow> [(k, j)] | None \<Rightarrow> [])"

definition keystore_create :: "string option \<Rightarrow> string option \<Rightarrow> string option \<Rightarrow> nwaku_keystore" where
  "keystore_create app ver appId =
     keystore_new (opt_field ''application'' (map_option J_String app) @ opt_field ''version'' (map_option J_String ver)
       @ opt_field ''appIdentifier'' (map_option J_String appId))"

definition store_credentials :: "nwaku_keystore \<Rightarrow> (string \<times> json) list" where
  "store_credentials d = (case map_of d ''credentials'' of Some (J_Object cs) \<Rightarrow> cs | _ \<Rightarrow> [])"

definition isValidNwakuStore :: "json \<Rightarrow> bool" where
  "isValidNwakuStore j =
     (isKeystoreValid j \<and>
      (case json_field ''credentials'' j of
         Some (J_Object cs) \<Rightarrow> \<forall>(k, c)\<in>set cs. isCredentialValid c
       | _ \<Rightarrow> True))"

definition keystore_fromString :: "key_library \<Rightarrow> string \<Rightarrow> nwaku_keystore option" where
  "keystore_fromString lib str =
     (case kl_parse lib str of
        Inl e \<Rightarrow> None
      | Inr j \<Rightarrow> if \<not> isValidNwakuStore j then None else (case j of J_Object fs \<Rightarrow> Some (keystore_new fs) | _ \<Rightarrow> None))"

definition keystore_fromObject :: "json \<Rightarrow> thrown + nwaku_keystore" where
  "keystore_fromObject j =
     (if \<not> isValidNwakuStore j then Inl (Thrown_Error ''Invalid object, does not match Nwaku Keystore format.'')
      else Inr (keystore_new (case j of J_Object fs \<Rightarrow> fs | _ \<Rightarrow> [])))"

definition keystore_toObject :: "nwaku_keystore \<Rightarrow> json" where "keystore_toObject d = J_Object d"

definition keystore_toString :: "key_library \<Rightarrow> nwaku_keystore \<Rightarrow> string" where
  "keystore_toString lib d = kl_stringify lib (J_Object d)"

definition keystore_keys :: "nwaku_keystore \<Rightarrow> string list" where
  "keystore_keys d = map fst (store_credentials d)"

definition js_truthy :: "json option \<Rightarrow> bool" where
  "js_truthy v = (v \<noteq> None \<and> v \<noteq> Some J_Null \<and> v \<noteq> Some (J_Bool False) \<and> v \<noteq> Some (J_Number 0) \<and> v \<noteq> Some (J_String []))"

definition store_credential :: "nwaku_keystore \<Rightarrow> string \<Rightarrow> json option" where
  "store_credential d membershipHash = map_of (store_credentials d) membershipHash"

definition set_credentials :: "(string \<times> json) list \<Rightarrow> nwaku_keystore \<Rightarrow> nwaku_keystore" where
  "set_credentials cs d = AList.update ''credentials'' (J_Object cs) d"

section \<open>keystore.ts: conversions\<close>

text \<open>What \<open>new Uint8Array\<close> makes of an element: its number modulo 256, and 0 where it is none.\<close>

definition byte_of_json :: "json \<Rightarrow> byte" where
  "byte_of_json j =
     (case j of
        J_Number n \<Rightarrow> word_of_int n
      | J_Bool b \<Rightarrow> (if b then 1 else 0)
      | J_Null \<Rightarrow> 0
      | J_Object fs \<Rightarrow> 0
      | J_String s \<Rightarrow> (case js_Number s of Some n \<Rightarrow> word_of_int n | None \<Rightarrow> 0)
      | J_Array vs \<Rightarrow> (case js_Number (js_text j) of Some n \<Rightarrow> word_of_int n | None \<Rightarrow> 0))"

text \<open>
  The fields \<open>0\<close>, \<open>1\<close> and so on until one is missing. The loop makes at most one step more than there are fields, as
  \<open>arraylike_ends\<close> shows.
\<close>

fun arraylike_from :: "nat \<Rightarrow> nat \<Rightarrow> (string \<times> json) list \<Rightarrow> json list" where
  "arraylike_from 0 index fs = []"
| "arraylike_from (Suc n) index fs =
     (case map_of fs (decimal index) of
        None \<Rightarrow> []
      | Some lastElement \<Rightarrow> lastElement # arraylike_from n (index + 1) fs)"

definition arraylike_elements :: "(string \<times> json) list \<Rightarrow> json list" where
  "arraylike_elements fs = arraylike_from (length fs + 1) 0 fs"

definition fromArraylikeToBytes :: "json \<Rightarrow> thrown + bytes" where
  "fromArraylikeToBytes j =
     (case j of
        J_Array vs \<Rightarrow> Inr (map byte_of_json vs)
      | J_Object fs \<Rightarrow> Inr (map byte_of_json (arraylike_elements fs))
      | J_String s \<Rightarrow> Inr (map (\<lambda>c. byte_of_json (J_String [c])) s)
      | J_Null \<Rightarrow> Inl type_error
      | _ \<Rightarrow> Inr [])"

definition identity_part :: "json \<Rightarrow> string \<Rightarrow> thrown + bytes" where
  "identity_part obj k =
     fromArraylikeToBytes (case json_get2 ''identityCredential'' k obj of Some v \<Rightarrow> v | None \<Rightarrow> J_Array [])"

definition fromBytesToIdentity :: "key_library \<Rightarrow> bytes \<Rightarrow> keystore_entity option" where
  "fromBytesToIdentity lib bs =
     (case bindT (kl_bytesToUtf8 lib bs) (\<lambda>str.
           bindT (kl_parse lib str) (\<lambda>obj.
           bindT (identity_part obj ''idCommitment'') (\<lambda>idCommitmentLE.
           bindT (identity_part obj ''idTrapdoor'') (\<lambda>idTrapdoorLE.
           bindT (identity_part obj ''idNullifier'') (\<lambda>idNullifierLE.
           bindT (identity_part obj ''idSecretHash'') (\<lambda>idSecretHashLE.
             Inr \<lparr>ke_identity = \<lparr>IDTrapdoor = idTrapdoorLE, IDNullifier = idNullifierLE, IDSecretHash = idSecretHashLE,
                                IDCommitment = idCommitmentLE, IDCommitmentBigInt = toBigInt idCommitmentLE Little\<rparr>,
                  ke_membership = \<lparr>km_chainId = json_get2 ''membershipContract'' ''chainId'' obj,
                                   km_address = json_get2 ''membershipContract'' ''address'' obj,
                                   km_treeIndex = json_field ''treeIndex'' obj,
                                   km_rateLimit = json_field ''userMessageLimit'' obj\<rparr>\<rparr>)))))) of
        Inl e \<Rightarrow> None
      | Inr e \<Rightarrow> Some e)"

text \<open>\<open>JSON.stringify\<close> leaves out the fields that are \<open>undefined\<close>.\<close>

definition json_bytes :: "bytes \<Rightarrow> json" where "json_bytes bs = J_Array (map (\<lambda>b. J_Number (uint b)) bs)"

definition identity_json :: "keystore_entity \<Rightarrow> json" where
  "identity_json e =
     (let i = ke_identity e; m = ke_membership e in
      J_Object (opt_field ''treeIndex'' (km_treeIndex m) @
        [(''identityCredential'',
          J_Object [(''idCommitment'', json_bytes (IDCommitment i)), (''idNullifier'', json_bytes (IDNullifier i)),
                    (''idSecretHash'', json_bytes (IDSecretHash i)), (''idTrapdoor'', json_bytes (IDTrapdoor i))]),
         (''membershipContract'', J_Object (opt_field ''chainId'' (km_chainId m) @ opt_field ''address'' (km_address m)))] @
        opt_field ''userMessageLimit'' (km_rateLimit m)))"

definition fromIdentityToBytes :: "key_library \<Rightarrow> keystore_entity \<Rightarrow> bytes" where
  "fromIdentityToBytes lib e = kl_utf8ToBytes lib (kl_stringify lib (identity_json e))"

text \<open>\<open>toUpperCase\<close> on the digits of a hexadecimal number.\<close>

definition hex_upper :: "char \<Rightarrow> char" where
  "hex_upper c = (if (of_char c :: nat) \<in> {97..122} then char_of ((of_char c :: nat) - 32) else c)"

definition membership_text :: "keystore_membership \<Rightarrow> string" where
  "membership_text info = js_template (km_chainId info) @ js_template (km_address info) @ js_template (km_treeIndex info)"

definition computeMembershipHash :: "key_library \<Rightarrow> keystore_membership \<Rightarrow> string" where
  "computeMembershipHash lib info =
     map hex_upper (kl_bytesToHex lib (kl_sha256 lib (kl_utf8ToBytes lib (membership_text info))))"

definition fromCredentialToEip :: "json \<Rightarrow> thrown + eip_crypto" where
  "fromCredentialToEip credential =
     (case json_field ''crypto'' credential of
        None \<Rightarrow> Inl type_error
      | Some nwakuCrypto \<Rightarrow>
          if nwakuCrypto = J_Null then Inl type_error
          else Inr \<lparr>ec_kdf = \<lparr>em_function = json_field ''kdf'' nwakuCrypto, em_params = json_field ''kdfparams'' nwakuCrypto,
                             em_message = Some (J_String [])\<rparr>,
                    ec_cipher = \<lparr>em_function = json_field ''cipher'' nwakuCrypto, em_params = json_field ''cipherparams'' nwakuCrypto,
                                em_message = json_field ''ciphertext'' nwakuCrypto\<rparr>,
                    ec_checksum = \<lparr>em_function = Some (J_String ''sha256''), em_params = Some (J_Object []),
                                  em_message = json_field ''mac'' nwakuCrypto\<rparr>\<rparr>)"

definition fromEipToCredential :: "eip_crypto \<Rightarrow> string \<Rightarrow> json" where
  "fromEipToCredential eip checksum =
     J_Object [(''crypto'', J_Object
       (opt_field ''cipher'' (em_function (ec_cipher eip)) @ opt_field ''cipherparams'' (em_params (ec_cipher eip)) @
        opt_field ''ciphertext'' (em_message (ec_cipher eip)) @ opt_field ''kdf'' (em_function (ec_kdf eip)) @
        opt_field ''kdfparams'' (em_params (ec_kdf eip)) @ [(''mac'', J_String checksum)]))]"

section \<open>keystore.ts: the operations\<close>

text \<open>
  \<open>addCredential\<close> waits for the cryptography between its check and its write. In between the store may have changed:
  the write sees the store \<open>later\<close>.
\<close>

definition new_credential :: "key_library \<Rightarrow> keystore_entity \<Rightarrow> string \<Rightarrow> thrown + json" where
  "new_credential lib e password =
     bindT (kl_create lib password (fromIdentityToBytes lib e)) (\<lambda>eip.
     bindT (keccak256Checksum lib password eip) (\<lambda>checksum. Inr (fromEipToCredential eip checksum)))"

definition credential_to_add :: "key_library \<Rightarrow> nwaku_keystore \<Rightarrow> keystore_entity \<Rightarrow> string \<Rightarrow> thrown + string \<times> json" where
  "credential_to_add lib d e password =
     (let membershipHash = computeMembershipHash lib (ke_membership e) in
      if js_truthy (store_credential d membershipHash) then Inl (Thrown_Error ''Credential already exists in the store.'')
      else bindT (new_credential lib e password) (\<lambda>nwakuCredential. Inr (membershipHash, nwakuCredential)))"

definition write_credential :: "string \<Rightarrow> json \<Rightarrow> nwaku_keystore \<Rightarrow> nwaku_keystore" where
  "write_credential membershipHash c d = set_credentials (AList.update membershipHash c (store_credentials d)) d"

definition addCredential :: "key_library \<Rightarrow> keystore_entity \<Rightarrow> string \<Rightarrow> nwaku_keystore \<Rightarrow> nwaku_keystore \<Rightarrow> nwaku_keystore \<times> (thrown + string)" where
  "addCredential lib e password d later =
     (case credential_to_add lib d e password of
        Inl err \<Rightarrow> (later, Inl err)
      | Inr (h, c) \<Rightarrow> (write_credential h c later, Inr h))"

definition readCredential :: "key_library \<Rightarrow> nwaku_keystore \<Rightarrow> string \<Rightarrow> string \<Rightarrow> thrown + keystore_entity option" where
  "readCredential lib d membershipHash password =
     (case store_credential d membershipHash of
        Some nwakuCredential \<Rightarrow>
          if js_truthy (Some nwakuCredential)
          then bindT (fromCredentialToEip nwakuCredential) (\<lambda>eip.
               bindT (decryptEipKeystore lib password eip) (\<lambda>bs. Inr (fromBytesToIdentity lib bs)))
          else Inr None
      | None \<Rightarrow> Inr None)"

definition removeCredential :: "string \<Rightarrow> nwaku_keystore \<Rightarrow> nwaku_keystore" where
  "removeCredential h d =
     (if js_truthy (store_credential d h) then set_credentials (AList.delete h (store_credentials d)) d else d)"

section \<open>Facts about the conversions\<close>

lemma arraylike_from_more:
  assumes "map_of fs (decimal (index + m)) = None" "m \<le> n"
  shows "arraylike_from (Suc n) index fs = arraylike_from (Suc m) index fs"
  using assms
proof (induction n arbitrary: index m)
  case (Suc n)
  then show ?case
  proof (cases m)
    case 0
    then show ?thesis using Suc.prems by simp
  next
    case (Suc m')
    then have "arraylike_from (Suc n) (index + 1) fs = arraylike_from (Suc m') (index + 1) fs"
      using Suc.prems Suc.IH[of "index + 1" m'] by simp
    then show ?thesis using \<open>m = Suc m'\<close> by (simp only: arraylike_from.simps(2)[of "Suc _" index])
  qed
qed simp

lemma json_bytes_read [simp]: "fromArraylikeToBytes (json_bytes bs) = Inr bs"
  by (simp add: fromArraylikeToBytes_def json_bytes_def byte_of_json_def comp_def)

lemma json_field_opt [simp]:
  "json_field k (J_Object (opt_field k v @ fs)) = (case v of Some j \<Rightarrow> Some j | None \<Rightarrow> json_field k (J_Object fs))"
  "k \<noteq> k' \<Longrightarrow> json_field k (J_Object (opt_field k' v @ fs)) = json_field k (J_Object fs)"
  "k \<noteq> k' \<Longrightarrow> json_field k (J_Object (opt_field k' v)) = None"
  "json_field k (J_Object (opt_field k v)) = v"
  by (auto simp: json_field_def opt_field_def split: option.splits)

lemma json_field_Cons [simp]:
  "json_field k (J_Object ((k', v) # fs)) = (if k = k' then Some v else json_field k (J_Object fs))"
  "json_field k (J_Object []) = None"
  by (auto simp: json_field_def)

lemma arraylike_ends: "\<exists>m\<le>length fs. map_of fs (decimal m) = None"
proof (rule ccontr)
  assume "\<not> ?thesis"
  then have "decimal ` {..length fs} \<subseteq> fst ` set fs"
    by (auto simp: map_of_eq_None_iff)
  then have "card (decimal ` {..length fs}) \<le> card (fst ` set fs)"
    by (rule card_mono[rotated]) simp
  also have "\<dots> \<le> length fs" using card_image_le[of "set fs" fst, OF finite_set] card_length[of fs] by (rule le_trans)
  finally show False by (simp add: card_image inj_on_def decimal_inject)
qed

lemma arraylike_elements_complete: "length fs < n \<Longrightarrow> arraylike_from n 0 fs = arraylike_elements fs"
proof -
  assume n: "length fs < n"
  obtain m where m: "m \<le> length fs" "map_of fs (decimal (0 + m)) = None" using arraylike_ends[of fs] by auto
  obtain k where k: "n = Suc k" using n by (cases n) auto
  show ?thesis
    using arraylike_from_more[OF m(2), of k] arraylike_from_more[OF m(2), of "length fs"] m(1) n k
    by (simp only: arraylike_elements_def) simp
qed

lemma identity_json_read:
  assumes "kl_bytesToUtf8 lib (kl_utf8ToBytes lib (kl_stringify lib (identity_json e))) = Inr (kl_stringify lib (identity_json e))"
    and "kl_parse lib (kl_stringify lib (identity_json e)) = Inr (identity_json e)"
  shows "fromBytesToIdentity lib (fromIdentityToBytes lib e) =
    Some (e\<lparr>ke_identity := (ke_identity e)\<lparr>IDCommitmentBigInt := toBigInt (IDCommitment (ke_identity e)) Little\<rparr>\<rparr>)"
proof -
  have get: "json_get2 ''membershipContract'' ''chainId'' (identity_json e) = km_chainId (ke_membership e)"
    "json_get2 ''membershipContract'' ''address'' (identity_json e) = km_address (ke_membership e)"
    "json_field ''treeIndex'' (identity_json e) = km_treeIndex (ke_membership e)"
    "json_field ''userMessageLimit'' (identity_json e) = km_rateLimit (ke_membership e)"
    "identity_part (identity_json e) ''idCommitment'' = Inr (IDCommitment (ke_identity e))"
    "identity_part (identity_json e) ''idTrapdoor'' = Inr (IDTrapdoor (ke_identity e))"
    "identity_part (identity_json e) ''idNullifier'' = Inr (IDNullifier (ke_identity e))"
    "identity_part (identity_json e) ''idSecretHash'' = Inr (IDSecretHash (ke_identity e))"
    by (simp_all add: identity_json_def json_get2_def identity_part_def Let_def split: option.splits)
  show ?thesis
    using assms by (simp add: fromBytesToIdentity_def fromIdentityToBytes_def get)
qed

section \<open>The store as a map\<close>

text \<open>What a client of the store relies on; \<open>good\<close> are the entries that may be put into it.\<close>

locale keyed_store =
  fixes look :: "'d \<Rightarrow> 'k \<Rightarrow> 'c option"
    and put :: "'k \<Rightarrow> 'c \<Rightarrow> 'd \<Rightarrow> 'd"
    and del :: "'k \<Rightarrow> 'd \<Rightarrow> 'd"
    and ok :: "'d \<Rightarrow> bool"
    and good :: "'c \<Rightarrow> bool"
  assumes look_put: "ok d \<Longrightarrow> look (put h c d) = (look d)(h \<mapsto> c)"
    and look_del: "ok d \<Longrightarrow> look (del h d) = (look d)(h := None)"
    and ok_put: "ok d \<Longrightarrow> good c \<Longrightarrow> ok (put h c d)"
    and ok_del: "ok d \<Longrightarrow> ok (del h d)"
begin

lemma put_then_look: "ok d \<Longrightarrow> look (put h c d) h = Some c"
  by (simp add: look_put)

lemma put_keeps_others: "ok d \<Longrightarrow> h' \<noteq> h \<Longrightarrow> look (put h c d) h' = look d h'"
  by (simp add: look_put)

lemma del_then_put: "ok d \<Longrightarrow> good c \<Longrightarrow> look (put h c (del h d)) = look (put h c d)"
  by (simp add: look_put look_del ok_del)

lemma steps_refine:
  assumes "ok d"
    and "\<And>d x. ok d \<Longrightarrow> step d x = d \<or> (\<exists>h c. good c \<and> step d x = put h c d) \<or> (\<exists>h. step d x = del h d)"
    and "\<And>d x. ok d \<Longrightarrow> look (step d x) = spec (look d) x"
  shows "ok (foldl step d xs) \<and> look (foldl step d xs) = foldl spec (look d) xs"
  using assms(1)
proof (induction xs arbitrary: d)
  case (Cons x xs)
  then have "ok (step d x)" using assms(2)[of d x] ok_put ok_del by metis
  then show ?case using Cons assms(3)[of d x] by simp
qed simp

end

definition store_ok :: "nwaku_keystore \<Rightarrow> bool" where "store_ok d = isValidNwakuStore (J_Object d)"

lemma store_ok_credentials:
  assumes "store_ok d"
  obtains cs where "map_of d ''credentials'' = Some (J_Object cs)" "store_credentials d = cs"
    "\<forall>(k, c)\<in>set cs. isCredentialValid c"
proof -
  obtain v where v: "map_of d ''credentials'' = Some v" "is_json_object v"
    using assms by (auto simp: store_ok_def isValidNwakuStore_def isKeystoreValid_def has_field_def json_field_def split: option.splits)
  then obtain cs where cs: "v = J_Object cs" by (auto simp: is_json_object_def split: json.splits)
  then have "\<forall>(k, c)\<in>set cs. isCredentialValid c"
    using assms v by (simp add: store_ok_def isValidNwakuStore_def json_field_def)
  then show thesis using that[of cs] v cs by (simp add: store_credentials_def)
qed

lemma valid_truthy: "isCredentialValid c \<Longrightarrow> js_truthy (Some c)"
  by (auto simp: isCredentialValid_def js_truthy_def is_json_object_def split: json.splits)

lemma valid_in_store: "store_ok d \<Longrightarrow> store_credential d h = Some c \<Longrightarrow> isCredentialValid c"
  by (erule store_ok_credentials) (auto simp: store_credential_def dest: map_of_SomeD)

lemma store_ok_truthy: "store_ok d \<Longrightarrow> js_truthy (store_credential d h) \<longleftrightarrow> store_credential d h \<noteq> None"
  using valid_in_store[of d h] valid_truthy by (cases "store_credential d h") (auto simp: js_truthy_def)

lemma set_credentials_read [simp]: "store_credentials (set_credentials cs d) = cs"
  by (simp add: set_credentials_def store_credentials_def update_conv')

lemma store_ok_set:
  assumes "store_ok d" "\<forall>(k, c)\<in>set cs. isCredentialValid c"
  shows "store_ok (set_credentials cs d)"
  using assms
  by (auto simp: store_ok_def isValidNwakuStore_def isKeystoreValid_def set_credentials_def json_field_def has_field_def
      update_conv' is_json_object_def)

lemma set_update_subset: "set (AList.update k v xs) \<subseteq> insert (k, v) (set xs)"
  by (induction xs) auto

lemma set_delete_subset: "set (AList.delete k xs) \<subseteq> set xs"
  by (induction xs) auto

interpretation ks: keyed_store store_credential write_credential removeCredential store_ok isCredentialValid
proof unfold_locales
  fix d :: nwaku_keystore and h c
  assume d: "store_ok d"
  show "store_credential (write_credential h c d) = (store_credential d)(h \<mapsto> c)"
    by (simp add: fun_eq_iff store_credential_def write_credential_def update_conv')
  show "store_credential (removeCredential h d) = (store_credential d)(h := None)"
    using store_ok_truthy[OF d, of h]
    by (auto simp: fun_eq_iff removeCredential_def store_credential_def delete_conv')
  show "store_ok (removeCredential h d)"
    by (rule store_ok_credentials[OF d])
      (use d in \<open>auto simp: removeCredential_def intro!: store_ok_set dest: set_mp[OF set_delete_subset]\<close>)
  assume "isCredentialValid c"
  then show "store_ok (write_credential h c d)"
    using d by - (rule store_ok_credentials[OF d],
      auto simp: write_credential_def intro!: store_ok_set dest: set_mp[OF set_update_subset])
qed

datatype keystore_op = Add keystore_entity string | Remove string

fun keystore_step :: "key_library \<Rightarrow> nwaku_keystore \<Rightarrow> keystore_op \<Rightarrow> nwaku_keystore" where
  "keystore_step lib d (Add e password) = fst (addCredential lib e password d d)"
| "keystore_step lib d (Remove h) = removeCredential h d"

text \<open>What the key store promises: a map from membership hashes to credentials, and an entry is never overwritten.\<close>

fun map_step :: "key_library \<Rightarrow> (string \<rightharpoonup> json) \<Rightarrow> keystore_op \<Rightarrow> (string \<rightharpoonup> json)" where
  "map_step lib m (Add e password) =
     (let h = computeMembershipHash lib (ke_membership e) in
      if m h \<noteq> None then m
      else case new_credential lib e password of
             Inl err \<Rightarrow> m
           | Inr c \<Rightarrow> m(h \<mapsto> c))"
| "map_step lib m (Remove h) = m(h := None)"

definition eip_typed :: "eip_crypto \<Rightarrow> bool" where
  "eip_typed eip =
     (\<exists>cf cp cm kf kp. ec_cipher eip = \<lparr>em_function = Some (J_String cf), em_params = Some (J_Object cp), em_message = Some (J_String cm)\<rparr>
       \<and> em_function (ec_kdf eip) = Some (J_String kf) \<and> em_params (ec_kdf eip) = Some (J_Object kp))"

lemma created_credential_valid: "eip_typed eip \<Longrightarrow> isCredentialValid (fromEipToCredential eip checksum)"
  by (auto simp: eip_typed_def isCredentialValid_def fromEipToCredential_def has_field_def isCryptoValid_def
      is_json_object_def is_json_string_def opt_field_def)

lemma keystore_run_refines:
  assumes "store_ok d" and "\<forall>p s eip. kl_create lib p s = Inr eip \<longrightarrow> eip_typed eip"
  shows "store_ok (foldl (keystore_step lib) d ops) \<and>
    store_credential (foldl (keystore_step lib) d ops) = foldl (map_step lib) (store_credential d) ops"
proof (rule ks.steps_refine[OF assms(1)])
  fix d x assume d: "store_ok d"
  have good: "isCredentialValid c" if "new_credential lib e p = Inr c" for e p c
    using that assms(2) created_credential_valid by (auto simp: new_credential_def bindT_Inr)
  show "keystore_step lib d x = d \<or> (\<exists>h c. isCredentialValid c \<and> keystore_step lib d x = write_credential h c d)
      \<or> (\<exists>h. keystore_step lib d x = removeCredential h d)"
    by (cases x) (auto simp: addCredential_def credential_to_add_def Let_def bindT_def dest!: good split: sum.splits)
  show "store_credential (keystore_step lib d x) = map_step lib (store_credential d) x"
  proof (cases x)
    case (Add e p)
    then show ?thesis
      using store_ok_truthy[OF d] ks.look_put[OF d]
      by (auto simp: addCredential_def credential_to_add_def Let_def bindT_def split: sum.splits)
  qed (simp add: ks.look_del[OF d])
qed

section \<open>Properties\<close>


text \<open>
  A credential that was added can be read with its password from the hash that was returned: the identity and the
  membership come back, the commitment as a number computed anew. The libraries have to decrypt what they have
  encrypted, with a key that depends on the password only, and to read back the text that they have written.
\<close>

theorem added_credential_read_back:
  assumes "store_ok d" and "addCredential lib e password d d = (d', Inr h)"
    and "kl_create lib password (fromIdentityToBytes lib e) = Inr eip" and "em_message (ec_kdf eip) = Some (J_String [])"
    and "kl_kdf lib (ec_kdf eip) password = Inr key"
    and "kl_cipherDecrypt lib (ec_cipher eip) (take 16 key) = Inr (fromIdentityToBytes lib e)"
    and "kl_bytesToUtf8 lib (fromIdentityToBytes lib e) = Inr (kl_stringify lib (identity_json e))"
    and "kl_parse lib (kl_stringify lib (identity_json e)) = Inr (identity_json e)"
    and "eip_typed eip"
  shows "readCredential lib d' h password =
    Inr (Some (e\<lparr>ke_identity := (ke_identity e)\<lparr>IDCommitmentBigInt := toBigInt (IDCommitment (ke_identity e)) Little\<rparr>\<rparr>))"
proof -
  obtain checksum where cs: "keccak256Checksum lib password eip = Inr checksum"
    and h: "d' = write_credential h (fromEipToCredential eip checksum) d"
    using assms(2,3) by (auto simp: addCredential_def credential_to_add_def new_credential_def Let_def bindT_Inr
        split: sum.splits if_splits)
  let ?c = "fromEipToCredential eip checksum"
  have valid: "isCredentialValid ?c" by (rule created_credential_valid[OF assms(9)])
  have look: "store_credential d' h = Some ?c" using ks.put_then_look[OF assms(1)] h by simp
  obtain eip' where e: "fromCredentialToEip ?c = Inr eip'" "ec_kdf eip' = ec_kdf eip" "ec_cipher eip' = ec_cipher eip"
    "em_message (ec_checksum eip') = Some (J_String checksum)"
    using assms(4,9) by (auto simp: fromCredentialToEip_def fromEipToCredential_def eip_typed_def)
  have "decryptEipKeystore lib password eip' = Inr (fromIdentityToBytes lib e)"
    using e cs assms(5,6) by (simp add: decryptEipKeystore_def validateChecksum_def keccak256Checksum_def)
  then show ?thesis
    using look valid_truthy[OF valid] e(1) identity_json_read[of lib e] assms(7,8)
    by (simp add: readCredential_def fromIdentityToBytes_def)
qed

text \<open>A password with another checksum is refused.\<close>

theorem wrong_password_refused:
  assumes "store_ok d" and "store_credential d h = Some c" and "fromCredentialToEip c = Inr eip"
    and "keccak256Checksum lib password eip = Inr checksum"
    and "em_message (ec_checksum eip) \<noteq> Some (J_String checksum)"
  shows "readCredential lib d h password = Inl (Thrown_Error ''Password is invalid.'')"
proof -
  have "js_truthy (Some c)" using valid_in_store[OF assms(1,2)] valid_truthy by blast
  moreover obtain key where "kl_kdf lib (ec_kdf eip) password = Inr key"
    using assms(4) by (auto simp: keccak256Checksum_def bindT_Inr)
  ultimately show ?thesis
    using assms(2-5) by (auto simp: readCredential_def decryptEipKeystore_def validateChecksum_def)
qed

text \<open>
  The hash is that of the chain, the address and the index one after the other, with nothing in between: of two
  memberships that read the same this way, only one can be in the store.
\<close>

theorem memberships_share_hash:
  assumes "membership_text (ke_membership e) = membership_text (ke_membership e')" and "store_ok d"
    and "addCredential lib e password d d = (d', Inr h)" and "store_ok d'"
  shows "addCredential lib e' password' d' d' = (d', Inl (Thrown_Error ''Credential already exists in the store.''))"
proof -
  have h: "h = computeMembershipHash lib (ke_membership e')"
    using assms(1,3) by (auto simp: addCredential_def credential_to_add_def computeMembershipHash_def Let_def bindT_Inr
        split: sum.splits if_splits)
  have "store_credential d' h \<noteq> None"
    using assms(2,3) ks.put_then_look by (auto simp: addCredential_def split: sum.splits)
  then have "js_truthy (store_credential d' h)"
    using store_ok_truthy[OF assms(4)] by blast
  then show ?thesis using h by (simp add: addCredential_def credential_to_add_def Let_def)
qed

text \<open>
  Two calls that add the same credential at the same time both find it absent: both return, and the entry of the one
  that ends first is overwritten.
\<close>

theorem concurrent_adds_overwrite:
  assumes "store_ok d" and "new_credential lib e p1 = Inr c1" and "new_credential lib e p2 = Inr c2"
    and "store_credential d (computeMembershipHash lib (ke_membership e)) = None"
    and "isCredentialValid c1"
  shows "let h = computeMembershipHash lib (ke_membership e);
             (d1, r1) = addCredential lib e p1 d d;
             (d2, r2) = addCredential lib e p2 d d1
         in r1 = Inr h \<and> r2 = Inr h \<and> store_credential d1 h = Some c1 \<and> store_credential d2 h = Some c2"
  using assms ks.put_then_look ks.ok_put
  by (simp add: addCredential_def credential_to_add_def Let_def js_truthy_def)

text \<open>
  A store that was made by \<open>create\<close> and then changed in any way comes back from its text as it was.
\<close>

definition plain_store :: "nwaku_keystore \<Rightarrow> bool" where
  "plain_store d = (\<exists>a i v cs. d = [(''application'', J_String a), (''appIdentifier'', J_String i), (''version'', J_String v),
     (''credentials'', J_Object cs)])"

lemma plain_store_create: "plain_store (keystore_create a v i) \<and> store_ok (keystore_create a v i)"
  by (cases a; cases v; cases i)
    (simp_all add: plain_store_def keystore_create_def keystore_new_def opt_field_def object_assign_def store_ok_def
      isValidNwakuStore_def isKeystoreValid_def has_field_def is_json_object_def is_json_string_def)

lemma plain_store_step: "plain_store d \<Longrightarrow> plain_store (keystore_step lib d x)"
  by (cases x)
    (auto simp: plain_store_def addCredential_def write_credential_def removeCredential_def set_credentials_def split: sum.splits)

lemma plain_store_run: "plain_store d \<Longrightarrow> plain_store (foldl (keystore_step lib) d ops)"
  by (induction ops arbitrary: d) (simp_all add: plain_store_step)

lemma plain_store_new: "plain_store d \<Longrightarrow> keystore_new d = d"
  by (auto simp: plain_store_def keystore_new_def object_assign_def)

theorem keystore_text_roundtrip:
  assumes "\<forall>p s eip. kl_create lib p s = Inr eip \<longrightarrow> eip_typed eip"
    and "d = foldl (keystore_step lib) (keystore_create app ver appId) ops"
    and "kl_parse lib (kl_stringify lib (keystore_toObject d)) = Inr (keystore_toObject d)"
  shows "keystore_fromString lib (keystore_toString lib d) = Some d \<and> keystore_fromObject (keystore_toObject d) = Inr d"
proof -
  have "plain_store d" using plain_store_run plain_store_create assms(2) by blast
  moreover have "store_ok d"
    using keystore_run_refines[OF _ assms(1), of "keystore_create app ver appId" ops] plain_store_create assms(2) by blast
  ultimately show ?thesis
    using assms(3) plain_store_new
    by (simp add: keystore_fromString_def keystore_toString_def keystore_fromObject_def keystore_toObject_def store_ok_def)
qed

section \<open>Examples\<close>

text \<open>A library for the examples: it encrypts by writing down, and its key is the password after sixteen zeros.\<close>

definition ex_bytes :: "string \<Rightarrow> bytes" where "ex_bytes s = map (\<lambda>c. of_nat (of_char c)) s"

definition ex_identity :: keystore_entity where
  "ex_identity = \<lparr>ke_identity = IdentityCredential [1] [2] [3] [4, 1],
     ke_membership = \<lparr>km_chainId = Some (J_String ''1''), km_address = Some (J_String ''23''), km_treeIndex = Some (J_Number 4), km_rateLimit = None\<rparr>\<rparr>"

definition ex_eip :: "bytes \<Rightarrow> eip_crypto" where
  "ex_eip s = \<lparr>ec_kdf = \<lparr>em_function = Some (J_String ''k''), em_params = Some (J_Object []), em_message = Some (J_String [])\<rparr>,
     ec_cipher = \<lparr>em_function = Some (J_String ''c''), em_params = Some (J_Object []), em_message = Some (J_String (bytesToHex s))\<rparr>,
     ec_checksum = \<lparr>em_function = None, em_params = None, em_message = None\<rparr>\<rparr>"

definition ex_library :: key_library where
  "ex_library = \<lparr>kl_utf8ToBytes = ex_bytes, kl_bytesToUtf8 = (\<lambda>b. Inr ''j''), kl_bytesToHex = bytesToHex,
     kl_hexToBytes = (\<lambda>m. Inr []), kl_parse = (\<lambda>s. Inr (if s = ''s'' then keystore_toObject (keystore_create None None None) else identity_json ex_identity)),
     kl_stringify = (\<lambda>j. if json_field ''treeIndex'' j = None then ''s'' else ''j''),
     kl_sha256 = id, kl_keccak256 = id, kl_create = (\<lambda>p s. Inr (ex_eip s)),
     kl_kdf = (\<lambda>m p. Inr (replicate 16 0 @ ex_bytes p)), kl_cipherDecrypt = (\<lambda>m k. Inr (ex_bytes ''j''))\<rparr>"

definition ex_store :: nwaku_keystore where "ex_store = keystore_create None None None"

lemma ex_eip_typed: "eip_typed (ex_eip s)"
  by (simp add: eip_typed_def ex_eip_def)

lemma ex_store_ok: "store_ok ex_store"
  using plain_store_create by (simp add: ex_store_def)

lemma ex_store_empty: "store_credential ex_store h = None"
  by (simp add: ex_store_def store_credential_def store_credentials_def keystore_create_def keystore_new_def opt_field_def object_assign_def)

lemma ex_bytes_written: "fromIdentityToBytes ex_library ex_identity = ex_bytes ''j''"
  by (simp add: fromIdentityToBytes_def ex_library_def ex_identity_def identity_json_def Let_def)

lemma ex_new_credential: "new_credential ex_library ex_identity p = Inr (fromEipToCredential (ex_eip (ex_bytes ''j'')) (bytesToHex (ex_bytes p)))"
  by (simp add: new_credential_def ex_bytes_written) (simp add: ex_library_def keccak256Checksum_def)

lemma ex_added:
  "addCredential ex_library ex_identity p ex_store ex_store =
    (write_credential (computeMembershipHash ex_library (ke_membership ex_identity))
       (fromEipToCredential (ex_eip (ex_bytes ''j'')) (bytesToHex (ex_bytes p))) ex_store,
     Inr (computeMembershipHash ex_library (ke_membership ex_identity)))"
  by (simp add: addCredential_def credential_to_add_def Let_def ex_store_empty js_truthy_def ex_new_credential)

lemma ex_library_typed: "\<forall>p s eip. kl_create ex_library p s = Inr eip \<longrightarrow> eip_typed eip"
  by (auto simp: ex_library_def ex_eip_typed)


theorem added_credential_read_back_witness:
  "readCredential ex_library (fst (addCredential ex_library ex_identity ''pw'' ex_store ex_store))
     (computeMembershipHash ex_library (ke_membership ex_identity)) ''pw'' =
   Inr (Some (ex_identity\<lparr>ke_identity := (ke_identity ex_identity)\<lparr>IDCommitmentBigInt := toBigInt (IDCommitment (ke_identity ex_identity)) Little\<rparr>\<rparr>))"
  by (rule added_credential_read_back[where eip = "ex_eip (ex_bytes ''j'')" and key = "replicate 16 0 @ ex_bytes ''pw''", OF ex_store_ok])
     (simp_all add: ex_added ex_bytes_written ex_eip_typed, simp_all add: ex_library_def ex_eip_def ex_identity_def identity_json_def Let_def)

theorem wrong_password_refused_witness:
  "readCredential ex_library (write_credential ''AA'' (fromEipToCredential (ex_eip [1]) []) ex_store) ''AA'' ''pw'' =
    Inl (Thrown_Error ''Password is invalid.'')"
proof (rule wrong_password_refused)
  show "store_ok (write_credential ''AA'' (fromEipToCredential (ex_eip [1]) []) ex_store)"
    by (intro ks.ok_put ex_store_ok created_credential_valid ex_eip_typed)
  show "store_credential (write_credential ''AA'' (fromEipToCredential (ex_eip [1]) []) ex_store) ''AA'' =
      Some (fromEipToCredential (ex_eip [1]) [])"
    by (rule ks.put_then_look[OF ex_store_ok])
  show "fromCredentialToEip (fromEipToCredential (ex_eip [1]) []) =
      Inr ((ex_eip [1])\<lparr>ec_checksum := \<lparr>em_function = Some (J_String ''sha256''), em_params = Some (J_Object []), em_message = Some (J_String [])\<rparr>\<rparr>)"
    by (simp add: fromCredentialToEip_def fromEipToCredential_def ex_eip_def)
  show "keccak256Checksum ex_library ''pw''
      ((ex_eip [1])\<lparr>ec_checksum := \<lparr>em_function = Some (J_String ''sha256''), em_params = Some (J_Object []), em_message = Some (J_String [])\<rparr>\<rparr>) =
      Inr (bytesToHex (ex_bytes ''pw''))"
    by (simp add: keccak256Checksum_def ex_library_def)
qed (simp add: ex_bytes_def)

definition ex_twin :: keystore_entity where
  "ex_twin = ex_identity\<lparr>ke_membership := (ke_membership ex_identity)\<lparr>km_chainId := Some (J_String ''12''), km_address := Some (J_String ''3'')\<rparr>\<rparr>"

lemma ex_twin_text: "membership_text (ke_membership ex_identity) = membership_text (ke_membership ex_twin)"
  by (simp add: membership_text_def ex_twin_def ex_identity_def js_template_def)

theorem memberships_share_hash_witness:
  "(let d' = fst (addCredential ex_library ex_identity ''pw'' ex_store ex_store) in
    addCredential ex_library ex_twin ''other'' d' d' = (d', Inl (Thrown_Error ''Credential already exists in the store.'')))"
  unfolding Let_def
  by (rule memberships_share_hash[OF ex_twin_text ex_store_ok])
     (simp only: ex_added fst_conv, simp only: ex_added fst_conv, intro ks.ok_put ex_store_ok created_credential_valid ex_eip_typed)

theorem concurrent_adds_overwrite_witness:
  "let h = computeMembershipHash ex_library (ke_membership ex_identity);
       (d1, r1) = addCredential ex_library ex_identity ''one'' ex_store ex_store;
       (d2, r2) = addCredential ex_library ex_identity ''two'' ex_store d1
   in r1 = Inr h \<and> r2 = Inr h
     \<and> store_credential d1 h = Some (fromEipToCredential (ex_eip (ex_bytes ''j'')) (bytesToHex (ex_bytes ''one'')))
     \<and> store_credential d2 h = Some (fromEipToCredential (ex_eip (ex_bytes ''j'')) (bytesToHex (ex_bytes ''two'')))"
  by (rule concurrent_adds_overwrite[OF ex_store_ok ex_new_credential ex_new_credential ex_store_empty
        created_credential_valid[OF ex_eip_typed]])

theorem keystore_text_roundtrip_witness:
  "keystore_fromString ex_library (keystore_toString ex_library ex_store) = Some ex_store \<and>
   keystore_fromObject (keystore_toObject ex_store) = Inr ex_store"
  by (rule keystore_text_roundtrip[where app = None and ver = None and appId = None and ops = "[]", OF ex_library_typed])
     (simp_all add: ex_store_def ex_library_def keystore_toObject_def keystore_create_def keystore_new_def object_assign_def
       opt_field_def)

end
