(* ===== verification/Rln_Credentials.thy ===== *)
theory Rln_Credentials
  imports Keystore
begin

text \<open>
  The manager of the credentials (\<open>packages/rln/src/credentials_manager.ts\<close>) and the wallet of the browser
  (\<open>utils/rpcClient.ts\<close>). A start is cut at its waits: the guard, what comes before the contract is asked, and the
  contract. Between them the application may use other credentials, register, or call start again.
\<close>

section \<open>utils/rpcClient.ts\<close>

text \<open>The client: its account, the identifier of its chain.\<close>

record rpc_client =
  rpc_account :: "string option"
  rpc_chainId :: "int option"

text \<open>What the wallet throws, with the field \<open>code\<close> if it has one.\<close>

record wallet_error =
  we_code :: "int option"
  we_thrown :: thrown

record window_wallet =
  ww_accounts :: "thrown + json"
  ww_switchChain :: "wallet_error + unit"
  ww_addChain :: "wallet_error + unit"
  ww_switchAgain :: "wallet_error + unit"

datatype chain_request = Switch_Chain int | Add_Chain int

definition wallet_result :: "wallet_error + unit \<Rightarrow> thrown + unit" where
  "wallet_result r = (case r of Inl e \<Rightarrow> Inl (we_thrown e) | Inr u \<Rightarrow> Inr u)"

definition ensure_chain :: "int \<Rightarrow> window_wallet \<Rightarrow> chain_request list \<times> (thrown + unit)" where
  "ensure_chain lineaSepolia w =
     (case ww_switchChain w of
        Inr _ \<Rightarrow> ([Switch_Chain lineaSepolia], Inr ())
      | Inl e \<Rightarrow>
          if we_code e = Some 4902
          then (case ww_addChain w of
                  Inl e' \<Rightarrow> ([Switch_Chain lineaSepolia, Add_Chain lineaSepolia], Inl (we_thrown e'))
                | Inr _ \<Rightarrow> ([Switch_Chain lineaSepolia, Add_Chain lineaSepolia, Switch_Chain lineaSepolia], wallet_result (ww_switchAgain w)))
          else ([Switch_Chain lineaSepolia], Inl (we_thrown e)))"

text \<open>\<open>lineaSepolia\<close> is the identifier of the chain of this name in \<open>viem/chains\<close>.\<close>

definition createViemClientFromWindow :: "int \<Rightarrow> window_wallet option \<Rightarrow> chain_request list \<times> (thrown + rpc_client)" where
  "createViemClientFromWindow lineaSepolia ethereum =
     (case ethereum of
        None \<Rightarrow> ([], Inl (Thrown_Error ''Missing or invalid Ethereum provider. Please install a Web3 wallet such as MetaMask.''))
      | Some w \<Rightarrow>
          (case ww_accounts w of
             Inl e \<Rightarrow> ([], Inl e)
           | Inr (J_Array accounts) \<Rightarrow>
               (let account = (case accounts of J_String a # _ \<Rightarrow> Some a | _ \<Rightarrow> None);
                    (requests, r) = ensure_chain lineaSepolia w
                in (requests, bindT r (\<lambda>_. Inr \<lparr>rpc_account = account, rpc_chainId = Some lineaSepolia\<rparr>)))
           | Inr _ \<Rightarrow> ([], Inl (Thrown_Error ''Failed to get accounts''))))"

section \<open>credentials_manager.ts: the state\<close>

datatype credentials_input =
    Decrypted keystore_entity
  | Encrypted string string string

record start_options =
  so_walletClient :: "rpc_client option"
  so_address :: "string option"
  so_credentials :: "credentials_input option"
  so_rateLimit :: "int option"

text \<open>Where a running start waits: for the credentials and the wallet, or for the contract.\<close>

datatype start_phase =
    No_Start
  | Preparing start_options
  | Creating json rpc_client "int option"

record rln_manager =
  mg_started :: bool
  mg_starting :: bool
  mg_phase :: start_phase
  mg_contract :: "(rln_contract \<times> rpc_client) option"
  mg_rpcClient :: "rpc_client option"
  mg_keystore :: nwaku_keystore
  mg_credentials :: "keystore_entity option"
  mg_zerokit_rateLimit :: int
  mg_reads :: "(thrown + keystore_entity option) list"

definition rln_manager_new :: "int \<Rightarrow> rln_manager" where
  "rln_manager_new zerokit_rateLimit =
     \<lparr>mg_started = False, mg_starting = False, mg_phase = No_Start, mg_contract = None, mg_rpcClient = None,
      mg_keystore = keystore_create None None None, mg_credentials = None,
      mg_zerokit_rateLimit = zerokit_rateLimit, mg_reads = []\<rparr>"

section \<open>credentials_manager.ts: starting\<close>

definition decryptCredentialsIfNeeded :: "key_library \<Rightarrow> credentials_input option \<Rightarrow> thrown + keystore_entity option \<times> nwaku_keystore option" where
  "decryptCredentialsIfNeeded lib credentials =
     (case credentials of
        None \<Rightarrow> Inr (None, None)
      | Some (Decrypted e) \<Rightarrow> Inr (Some e, None)
      | Some (Encrypted ks i password) \<Rightarrow>
          (case keystore_fromString lib ks of
             None \<Rightarrow> Inr (None, None)
           | Some d \<Rightarrow> bindT (readCredential lib d i password) (\<lambda>e. Inr (e, Some d))))"

text \<open>The first of the addresses that is not empty.\<close>

definition contract_address :: "string option \<Rightarrow> keystore_entity option \<Rightarrow> json" where
  "contract_address opt_address credentials =
     (let own = Option.bind credentials (\<lambda>e. km_address (ke_membership e)) in
      if js_truthy own then the own
      else case truthy opt_address of Some a \<Rightarrow> J_String a | None \<Rightarrow> J_String RLN_CONTRACT_address)"

definition contract_chainId :: "json \<Rightarrow> keystore_entity option \<Rightarrow> json option" where
  "contract_chainId address credentials =
     (if address = J_String RLN_CONTRACT_address then Some (J_String (js_show_int RLN_CONTRACT_chainId))
      else Option.bind credentials (\<lambda>e. km_chainId (ke_membership e)))"

definition current_chain :: "rpc_client \<Rightarrow> json option" where
  "current_chain rpc = map_option (\<lambda>n. J_String (js_show_int n)) (rpc_chainId rpc)"

text \<open>\<open>window\<close> is what \<open>createViemClientFromWindow\<close> yields; it is asked for where no wallet is given.\<close>

definition determineStartOptions :: "thrown + rpc_client \<Rightarrow> start_options \<Rightarrow> keystore_entity option \<Rightarrow> thrown + rpc_client \<times> json \<times> int option" where
  "determineStartOptions window opts credentials =
     (let address = contract_address (so_address opts) credentials;
          chainId = contract_chainId address credentials
      in bindT (case so_walletClient opts of Some w \<Rightarrow> Inr w | None \<Rightarrow> window) (\<lambda>rpcClient.
           if js_truthy chainId \<and> chainId \<noteq> current_chain rpcClient
           then Inl (Thrown_Error (''Failed to start RLN contract, chain ID of contract is different from current one: contract-'' @
                  js_template chainId @ '', current network-'' @ js_template (map_option J_Number (rpc_chainId rpcClient))))
           else Inr (rpcClient, address, None)))"

definition mg_start :: "start_options \<Rightarrow> rln_manager \<Rightarrow> rln_manager" where
  "mg_start opts m =
     (if mg_started m \<or> mg_starting m then m else m\<lparr>mg_starting := True, mg_phase := Preparing opts\<rparr>)"

definition start_failed :: "rln_manager \<Rightarrow> rln_manager" where
  "start_failed m = m\<lparr>mg_starting := False, mg_phase := No_Start\<rparr>"

definition mg_prepare :: "key_library \<Rightarrow> thrown + rpc_client \<Rightarrow> rln_manager \<Rightarrow> rln_manager \<times> (thrown + unit)" where
  "mg_prepare lib window m =
     (case mg_phase m of
        Preparing opts \<Rightarrow>
          (case bindT (decryptCredentialsIfNeeded lib (so_credentials opts)) (\<lambda>(credentials, keystore).
                  bindT (determineStartOptions window opts credentials) (\<lambda>(rpcClient, address, rateLimit).
                    Inr (credentials, keystore, rpcClient, address, rateLimit))) of
             Inl e \<Rightarrow> (start_failed m, Inl e)
           | Inr (credentials, keystore, rpcClient, address, rateLimit) \<Rightarrow>
               (m\<lparr>mg_keystore := (case keystore of Some d \<Rightarrow> d | None \<Rightarrow> mg_keystore m),
                  mg_credentials := credentials, mg_rpcClient := Some rpcClient,
                  mg_phase := Creating address rpcClient rateLimit\<rparr>, Inr ()))
      | _ \<Rightarrow> (m, Inr ()))"

definition mg_create :: "chain \<Rightarrow> rln_manager \<Rightarrow> rln_manager \<times> (thrown + unit)" where
  "mg_create ch m =
     (case mg_phase m of
        Creating address rpcClient rateLimit \<Rightarrow>
          (case rln_contract_create ch address (Some (case rateLimit of Some r \<Rightarrow> r | None \<Rightarrow> mg_zerokit_rateLimit m)) of
             Inl e \<Rightarrow> (start_failed m, Inl e)
           | Inr c \<Rightarrow> (m\<lparr>mg_contract := Some (c, rpcClient), mg_started := True, mg_starting := False, mg_phase := No_Start\<rparr>, Inr ()))
      | _ \<Rightarrow> (m, Inr ()))"

section \<open>credentials_manager.ts: the other operations\<close>

record register_options =
  ro_identity :: "identity_credential option"
  ro_signature :: "string option"

definition as_thrown :: "js_error + 'a \<Rightarrow> thrown + 'a" where
  "as_thrown r = (case r of Inr x \<Rightarrow> Inr x | Inl (JsError msg) \<Rightarrow> Inl (Thrown_Error msg) | Inl e \<Rightarrow> Inl type_error)"

definition mg_registerMembership :: "(bytes \<Rightarrow> bytes) \<Rightarrow> chain \<Rightarrow> register_options \<Rightarrow> rln_manager \<Rightarrow> keystore_entity option wallet_run" where
  "mg_registerMembership membershipKey ch opts m =
     (case mg_contract m of
        None \<Rightarrow> ([], Inl (Thrown_Error ''RLN Contract is not initialized.''))
      | Some (c, rpc) \<Rightarrow>
          (case (case ro_signature opts of
                   Some s \<Rightarrow> as_thrown (generateSeededIdentityCredential membershipKey s)
                 | None \<Rightarrow> (case ro_identity opts of
                              Some i \<Rightarrow> Inr i
                            | None \<Rightarrow> Inl (Thrown_Error ''Missing signature or identity to register membership.''))) of
             Inl e \<Rightarrow> ([], Inl e)
           | Inr identity \<Rightarrow> registerWithIdentity c ch (rpc_account rpc) identity))"

text \<open>\<open>useCredentials\<close> reads from the store of the moment of the call, and takes the result over when it is there.\<close>

definition mg_use :: "key_library \<Rightarrow> string \<Rightarrow> string \<Rightarrow> rln_manager \<Rightarrow> rln_manager" where
  "mg_use lib i password m = m\<lparr>mg_reads := mg_reads m @ [readCredential lib (mg_keystore m) i password]\<rparr>"

definition mg_use_done :: "nat \<Rightarrow> rln_manager \<Rightarrow> rln_manager \<times> (thrown + unit)" where
  "mg_use_done n m =
     (if n < length (mg_reads m)
      then (let m' = m\<lparr>mg_reads := take n (mg_reads m) @ drop (n + 1) (mg_reads m)\<rparr>
            in case mg_reads m ! n of Inl e \<Rightarrow> (m', Inl e) | Inr c \<Rightarrow> (m'\<lparr>mg_credentials := c\<rparr>, Inr ()))
      else (m, Inr ()))"

definition verifyCredentialsAgainstContract :: "thrown + int \<Rightarrow> keystore_membership \<Rightarrow> rln_manager \<Rightarrow> thrown + unit" where
  "verifyCredentialsAgainstContract currentChainId membership m =
     (case (mg_contract m, mg_rpcClient m) of
        (Some (c, _), Some _) \<Rightarrow>
          if km_address membership \<noteq> Some (rln_address c)
          then Inl (Thrown_Error (''Failed to verify chain coordinates: credentials contract address='' @ js_template (km_address membership) @
                 '' is not equal to registryContract address='' @ js_template (Some (rln_address c))))
          else bindT currentChainId (\<lambda>n.
            if km_chainId membership \<noteq> Some (J_String (js_show_int n))
            then Inl (Thrown_Error (''Failed to verify chain coordinates: credentials chainID='' @ js_template (km_chainId membership) @
                   '' is not equal to registryContract chainID='' @ js_show_int n))
            else Inr ())
      | _ \<Rightarrow> Inl (Thrown_Error ''Failed to verify chain coordinates: no contract or viem client initialized.''))"

section \<open>Runs\<close>

datatype manager_event =
    Start start_options
  | Prepared key_library "thrown + rpc_client"
  | Created chain
  | Use key_library string string
  | Use_Done nat

fun manager_step :: "rln_manager \<Rightarrow> manager_event \<Rightarrow> rln_manager" where
  "manager_step m (Start opts) = mg_start opts m"
| "manager_step m (Prepared lib window) = fst (mg_prepare lib window m)"
| "manager_step m (Created ch) = fst (mg_create ch m)"
| "manager_step m (Use lib i password) = mg_use lib i password m"
| "manager_step m (Use_Done n) = fst (mg_use_done n m)"

section \<open>Properties\<close>

definition within_limits :: "rln_contract \<Rightarrow> bool" where
  "within_limits c \<longleftrightarrow>
     (\<exists>lo hi. getMinRateLimit c = Inr lo \<and> getMaxRateLimit c = Inr hi \<and> lo \<le> rln_rateLimit c \<and> rln_rateLimit c \<le> hi)"

definition manager_ok :: "rln_manager \<Rightarrow> bool" where
  "manager_ok m \<longleftrightarrow>
     (mg_starting m \<longleftrightarrow> mg_phase m \<noteq> No_Start) \<and> (mg_started m \<longleftrightarrow> mg_contract m \<noteq> None) \<and>
     (mg_started m \<longrightarrow> mg_phase m = No_Start) \<and>
     (\<forall>address rpc r. mg_phase m = Creating address rpc r \<longrightarrow> r = None \<and> mg_rpcClient m = Some rpc) \<and>
     (\<forall>c rpc. mg_contract m = Some (c, rpc) \<longrightarrow>
        rln_rateLimit c = mg_zerokit_rateLimit m \<and> mg_rpcClient m = Some rpc \<and> within_limits c)"

lemma js_show_int_inject: "js_show_int n = js_show_int k \<longleftrightarrow> n = k"
  by (metis option.inject parseInt_show_int)

lemma js_show_int_not_Nil: "js_show_int n \<noteq> []"
proof
  assume "js_show_int n = []"
  then have "parseInt [] = Some n" using parseInt_show_int[of n] by simp
  then show False by (simp add: parseInt_def)
qed

lemma created_limits:
  "rln_contract_create ch address (Some r) = Inr c \<Longrightarrow>
   rln_address c = address \<and> rln_rateLimit c = r \<and> within_limits c"
  by (auto simp: within_limits_def rln_contract_create_def rln_contract_new_def Let_def bindT_Inr validateRateLimit_def getMinRateLimit_def
      getMaxRateLimit_def split: if_splits)

lemma determined_no_limit: "determineStartOptions window opts e = Inr (rpc, address, r) \<Longrightarrow> r = None"
  by (auto simp: determineStartOptions_def Let_def bindT_Inr split: if_splits)

lemma manager_ok_new: "manager_ok (rln_manager_new r)"
  by (simp add: manager_ok_def rln_manager_new_def)

lemma manager_ok_step: "manager_ok m \<Longrightarrow> manager_ok (manager_step m x)"
proof (cases x)
  case (Start opts)
  assume "manager_ok m"
  then show ?thesis using Start by (auto simp: manager_ok_def mg_start_def)
next
  case (Prepared lib window)
  assume "manager_ok m"
  then show ?thesis
    using Prepared
    by (auto simp: manager_ok_def mg_prepare_def start_failed_def bindT_Inr dest: determined_no_limit
        split: start_phase.splits sum.splits prod.splits option.splits)
next
  case (Created ch)
  assume m: "manager_ok m"
  then show ?thesis
    using Created
    by (auto simp: manager_ok_def mg_create_def start_failed_def dest!: created_limits split: start_phase.splits sum.splits)
next
  case (Use lib i p)
  assume "manager_ok m"
  then show ?thesis using Use by (auto simp: manager_ok_def mg_use_def)
next
  case (Use_Done n)
  assume "manager_ok m"
  then show ?thesis using Use_Done by (auto simp: manager_ok_def mg_use_done_def Let_def split: sum.splits)
qed


text \<open>
  A start goes on to the contract only with a wallet on the chain that the address, or else the credentials, ask for.
\<close>

theorem start_checks_chain:
  assumes "determineStartOptions window opts credentials = Inr (rpc, address, r)"
  shows "address = contract_address (so_address opts) credentials \<and>
    (address = J_String RLN_CONTRACT_address \<longrightarrow> rpc_chainId rpc = Some RLN_CONTRACT_chainId) \<and>
    (\<forall>e n. address \<noteq> J_String RLN_CONTRACT_address \<and> credentials = Some e \<and> km_chainId (ke_membership e) = Some (J_String n) \<and> n \<noteq> [] \<longrightarrow>
       current_chain rpc = Some (J_String n))"
proof -
  show ?thesis
    using assms
    by (cases "rpc_chainId rpc") (auto simp: js_show_int_inject js_show_int_not_Nil determineStartOptions_def Let_def bindT_Inr contract_chainId_def current_chain_def js_truthy_def
        split: if_splits)
qed

lemma registered_membership:
  assumes "registerWithIdentity c ch account identity = (l, Inr (Some e))"
  shows "ke_identity e = identity \<and> km_address (ke_membership e) = Some (rln_address c) \<and>
    km_chainId (ke_membership e) = Some (J_String (js_show_int RLN_CONTRACT_chainId))"
  using assms
  by (auto simp: registerWithIdentity_def registration_def and_then_def with_account_def registered_credentials_def
      split: sum.splits prod.splits option.splits event_log.splits if_splits)

text \<open>C28: A membership that was registered at another contract, on another chain than the default one, is written down with
  the identifier of the default chain. The same wallet could start with that contract without credentials, and
  cannot with those that the registration yields.
\<close>

theorem registered_elsewhere_cannot_start:
  assumes "registerWithIdentity c ch account identity = (l, Inr (Some e))"
    and "rln_address c = J_String a" and "a \<noteq> []" and "a \<noteq> RLN_CONTRACT_address"
    and "rpc_chainId rpc = Some n" and "n \<noteq> RLN_CONTRACT_chainId"
  shows "determineStartOptions window (opts\<lparr>so_walletClient := Some rpc, so_address := Some a\<rparr>) None = Inr (rpc, J_String a, None) \<and>
    (\<exists>msg. determineStartOptions window (opts\<lparr>so_walletClient := Some rpc\<rparr>) (Some e) = Inl (Thrown_Error msg))"
proof -
  note e = registered_membership[OF assms(1), unfolded assms(2)]
  have "js_show_int n \<noteq> js_show_int RLN_CONTRACT_chainId" using assms(6) by (simp add: js_show_int_inject)
  then show ?thesis
    using assms(3-5) e
    by (auto simp: js_show_int_not_Nil determineStartOptions_def Let_def contract_address_def contract_chainId_def current_chain_def js_truthy_def truthy_def)
qed

text \<open>A key store that cannot be read does not end a start: it goes on as if no credentials were given.\<close>

theorem unreadable_keystore_ignored:
  assumes "keystore_fromString lib ks = None" and "mg_phase m = Preparing opts"
    and "so_credentials opts = Some (Encrypted ks i password)"
  shows "mg_prepare lib window m = mg_prepare lib window (m\<lparr>mg_phase := Preparing (opts\<lparr>so_credentials := None\<rparr>)\<rparr>)"
  using assms
  by (simp add: mg_prepare_def decryptCredentialsIfNeeded_def determineStartOptions_def start_failed_def Let_def bindT_def
      split: sum.splits option.splits)

text \<open>
  A start that fails at the contract leaves its credentials and its wallet in use, and another start may follow.
\<close>

theorem failed_start_keeps_credentials:
  assumes "manager_ok m" and "mg_phase m = Preparing opts" and "mg_prepare lib window m = (m1, Inr ())"
    and "mg_create ch m1 = (m2, Inl e)"
  shows "(\<exists>k. decryptCredentialsIfNeeded lib (so_credentials opts) = Inr (mg_credentials m2, k)) \<and>
    mg_rpcClient m2 \<noteq> None \<and> mg_contract m2 = None \<and> mg_phase (mg_start opts' m2) = Preparing opts'"
proof -
  have m: "mg_contract m = None" "\<not> mg_started m" using assms(1,2) by (cases "mg_contract m"; auto simp: manager_ok_def)+
  obtain c k rpc address r where d: "decryptCredentialsIfNeeded lib (so_credentials opts) = Inr (c, k)"
    and m1: "m1 = m\<lparr>mg_keystore := (case k of Some d \<Rightarrow> d | None \<Rightarrow> mg_keystore m), mg_credentials := c, mg_rpcClient := Some rpc,
      mg_phase := Creating address rpc r\<rparr>"
    using assms(2,3) by (auto simp: mg_prepare_def bindT_Inr split: sum.splits)
  have "m2 = start_failed m1" using assms(4) m1 by (auto simp: mg_create_def split: sum.splits)
  then show ?thesis using d m m1 by (simp add: start_failed_def mg_start_def)
qed

section \<open>Examples\<close>

definition ex_wallet :: rpc_client where "ex_wallet = \<lparr>rpc_account = Some ''0xa'', rpc_chainId = Some 5\<rparr>"

definition ex_options :: start_options where
  "ex_options = \<lparr>so_walletClient = Some ex_wallet, so_address = Some ''0xc'', so_credentials = None, so_rateLimit = Some 400\<rparr>"

theorem start_checks_chain_witness:
  "J_String ''0xc'' = contract_address (so_address ex_options) None \<and>
    (J_String ''0xc'' = J_String RLN_CONTRACT_address \<longrightarrow> rpc_chainId ex_wallet = Some RLN_CONTRACT_chainId) \<and>
    (\<forall>e n. J_String ''0xc'' \<noteq> J_String RLN_CONTRACT_address \<and> (None :: keystore_entity option) = Some e \<and> km_chainId (ke_membership e) = Some (J_String n) \<and> n \<noteq> [] \<longrightarrow>
       current_chain ex_wallet = Some (J_String n))"
  by (rule start_checks_chain[where window = "Inl Thrown_Other" and r = None])
     (simp add: ex_options_def determineStartOptions_def contract_address_def contract_chainId_def truthy_def js_truthy_def
       RLN_CONTRACT_address_def)

theorem registered_elsewhere_cannot_start_witness:
  "determineStartOptions (Inl Thrown_Other) (ex_options\<lparr>so_walletClient := Some ex_wallet, so_address := Some ''0xc''\<rparr>) None =
      Inr (ex_wallet, J_String ''0xc'', None) \<and>
   (\<exists>msg. determineStartOptions (Inl Thrown_Other) (ex_options\<lparr>so_walletClient := Some ex_wallet\<rparr>)
      (Some (the (registered_credentials ex_contract (IdentityCredential [] [] [] []) [Membership_Registered 4 300]))) =
      Inl (Thrown_Error msg))"
proof (rule registered_elsewhere_cannot_start[where n = 5])
  show "registerWithIdentity ex_contract (ex_chain ''success'' True) (Some ''0xa'') (IdentityCredential [] [] [] []) =
    ([Simulated ''0xa'' (Register 0 300 []), Written ''0xa'' (Register 0 300 []), Awaited ''0xh''],
     Inr (Some (the (registered_credentials ex_contract (IdentityCredential [] [] [] []) [Membership_Registered 4 300]))))"
    by (simp add: registerWithIdentity_def registration_def wallet_defs check_registration_def getMemberIndex_def
        getRemainingTotalRateLimit_def ex_chain_def ex_contract_def ex_membership_def IdentityCredential_def toBigInt_def
        registered_credentials_def is_membership_registered_def)
qed (simp_all add: ex_contract_def ex_wallet_def RLN_CONTRACT_address_def RLN_CONTRACT_chainId_def)

definition ex_preparing :: "credentials_input option \<Rightarrow> rln_manager" where
  "ex_preparing i = mg_start (ex_options\<lparr>so_credentials := i\<rparr>) (rln_manager_new 300)"

theorem unreadable_keystore_ignored_witness:
  "mg_prepare (ex_library\<lparr>kl_parse := \<lambda>s. Inl Thrown_Other\<rparr>) (Inl Thrown_Other) (ex_preparing (Some (Encrypted ''x'' ''y'' ''z''))) =
   mg_prepare (ex_library\<lparr>kl_parse := \<lambda>s. Inl Thrown_Other\<rparr>) (Inl Thrown_Other)
     ((ex_preparing (Some (Encrypted ''x'' ''y'' ''z'')))
        \<lparr>mg_phase := Preparing (ex_options\<lparr>so_credentials := Some (Encrypted ''x'' ''y'' ''z'')\<rparr>\<lparr>so_credentials := None\<rparr>)\<rparr>)"
  by (rule unreadable_keystore_ignored) (simp_all add: keystore_fromString_def ex_preparing_def mg_start_def rln_manager_new_def)

definition ex_unbound :: keystore_entity where
  "ex_unbound = ex_identity\<lparr>ke_membership := (ke_membership ex_identity)\<lparr>km_chainId := None\<rparr>\<rparr>"

lemma ex_prepared:
  "mg_prepare ex_library (Inl Thrown_Other) (ex_preparing (Some (Decrypted ex_unbound))) =
    ((ex_preparing (Some (Decrypted ex_unbound)))\<lparr>mg_credentials := Some ex_unbound, mg_rpcClient := Some ex_wallet,
       mg_phase := Creating (J_String ''23'') ex_wallet None\<rparr>, Inr ())"
  by (simp add: ex_preparing_def ex_options_def mg_start_def rln_manager_new_def mg_prepare_def decryptCredentialsIfNeeded_def
      determineStartOptions_def contract_address_def contract_chainId_def ex_unbound_def ex_identity_def js_truthy_def
      RLN_CONTRACT_address_def)

definition ex_low_chain :: chain where "ex_low_chain = (ex_chain ''success'' True)\<lparr>ch_maxMembershipRateLimit := Inr 100\<rparr>"

theorem failed_start_keeps_credentials_witness:
  "let m2 = fst (mg_create ex_low_chain (fst (mg_prepare ex_library (Inl Thrown_Other) (ex_preparing (Some (Decrypted ex_unbound))))))
   in (\<exists>k. decryptCredentialsIfNeeded ex_library (so_credentials (ex_options\<lparr>so_credentials := Some (Decrypted ex_unbound)\<rparr>)) =
        Inr (mg_credentials m2, k)) \<and>
      mg_rpcClient m2 \<noteq> None \<and> mg_contract m2 = None \<and> mg_phase (mg_start ex_options m2) = Preparing ex_options"
  unfolding Let_def
proof (rule failed_start_keeps_credentials)
  show "manager_ok (ex_preparing (Some (Decrypted ex_unbound)))"
    using manager_ok_step[OF manager_ok_new, of 300 "Start (ex_options\<lparr>so_credentials := Some (Decrypted ex_unbound)\<rparr>)"]
    by (simp add: ex_preparing_def)
  show "mg_phase (ex_preparing (Some (Decrypted ex_unbound))) = Preparing (ex_options\<lparr>so_credentials := Some (Decrypted ex_unbound)\<rparr>)"
    by (simp add: ex_preparing_def mg_start_def rln_manager_new_def)
  show "mg_prepare ex_library (Inl Thrown_Other) (ex_preparing (Some (Decrypted ex_unbound))) =
      (fst (mg_prepare ex_library (Inl Thrown_Other) (ex_preparing (Some (Decrypted ex_unbound)))), Inr ())"
    by (simp add: ex_prepared)
  let ?e = "Thrown_Error (''Rate limit must be between '' @ js_show_int 20 @ '' and '' @ js_show_int 100 @ '' messages per epoch'')"
  show "mg_create ex_low_chain (fst (mg_prepare ex_library (Inl Thrown_Other) (ex_preparing (Some (Decrypted ex_unbound))))) =
      (fst (mg_create ex_low_chain (fst (mg_prepare ex_library (Inl Thrown_Other) (ex_preparing (Some (Decrypted ex_unbound)))))), Inl ?e)"
    by (simp only: ex_prepared fst_conv)
      (simp add: mg_create_def rln_contract_create_def rln_contract_new_def validateRateLimit_def ex_low_chain_def ex_chain_def
        ex_preparing_def mg_start_def rln_manager_new_def Let_def)
qed

section \<open>From a registration to the next start\<close>

lemma added_store:
  assumes "store_ok d" "plain_store d" "addCredential lib e password d d = (d', Inr h)"
    and "kl_create lib password (fromIdentityToBytes lib e) = Inr eip" "eip_typed eip"
  shows "store_ok d' \<and> keystore_new d' = d'"
proof -
  obtain checksum where d': "d' = write_credential h (fromEipToCredential eip checksum) d"
    using assms(3,4) by (auto simp: addCredential_def credential_to_add_def new_credential_def Let_def bindT_Inr
        split: sum.splits if_splits)
  have "plain_store d'"
    using plain_store_step[OF assms(2), of lib "Add e password"] assms(3) by simp
  then show ?thesis
    using plain_store_new ks.ok_put[OF assms(1) created_credential_valid[OF assms(5)]] d' by simp
qed

text \<open>C7: The credentials of a registration at the default contract, kept in a key store under a password, are those with
  which a manager starts on that chain from the text of the store, the hash and the password.
\<close>

theorem registered_then_started:
  assumes "registerWithIdentity c ch account identity = (l, Inr (Some e))" and "rln_address c = J_String RLN_CONTRACT_address"
    and "IDCommitmentBigInt identity = toBigInt (IDCommitment identity) Little"
    and "store_ok d" and "plain_store d" and "addCredential lib e password d d = (d', Inr h)"
    and "kl_create lib password (fromIdentityToBytes lib e) = Inr eip" and "eip_typed eip"
    and "em_message (ec_kdf eip) = Some (J_String [])" and "kl_kdf lib (ec_kdf eip) password = Inr key"
    and "kl_cipherDecrypt lib (ec_cipher eip) (take 16 key) = Inr (fromIdentityToBytes lib e)"
    and "kl_bytesToUtf8 lib (fromIdentityToBytes lib e) = Inr (kl_stringify lib (identity_json e))"
    and "\<forall>j\<in>{identity_json e, keystore_toObject d'}. kl_parse lib (kl_stringify lib j) = Inr j"
    and "rpc_chainId rpc = Some RLN_CONTRACT_chainId" and "so_walletClient opts = Some rpc"
    and "so_credentials opts = Some (Encrypted (keystore_toString lib d') h password)"
  shows "mg_prepare lib window (mg_start opts (rln_manager_new r)) =
    ((mg_start opts (rln_manager_new r))\<lparr>mg_keystore := d', mg_credentials := Some e, mg_rpcClient := Some rpc,
       mg_phase := Creating (J_String RLN_CONTRACT_address) rpc None\<rparr>, Inr ())"
proof -
  note m = registered_membership[OF assms(1)] and d' = added_store[OF assms(4-8)]
  have "keystore_fromString lib (keystore_toString lib d') = Some d'"
    using d' assms(13) by (simp add: keystore_fromString_def keystore_toString_def keystore_toObject_def store_ok_def)
  moreover have "readCredential lib d' h password = Inr (Some e)"
  proof -
    have "e\<lparr>ke_identity := (ke_identity e)\<lparr>IDCommitmentBigInt := toBigInt (IDCommitment (ke_identity e)) Little\<rparr>\<rparr> = e"
      using m assms(3) by (cases e; cases identity) simp
    then show ?thesis
      using added_credential_read_back[OF assms(4,6,7,9,10,11,12) _ assms(8)] assms(13) by simp
  qed
  ultimately have "decryptCredentialsIfNeeded lib (so_credentials opts) = Inr (Some e, Some d')"
    using assms(16) by (simp add: decryptCredentialsIfNeeded_def)
  moreover have "determineStartOptions window opts (Some e) = Inr (rpc, J_String RLN_CONTRACT_address, None)"
    using m assms(2,14,15)
    by (simp add: determineStartOptions_def contract_address_def contract_chainId_def current_chain_def js_truthy_def
        RLN_CONTRACT_address_def)
  ultimately show ?thesis
    by (simp add: mg_prepare_def mg_start_def rln_manager_new_def)
qed

definition ex_registered :: keystore_entity where
  "ex_registered = the (registered_credentials (ex_contract\<lparr>rln_address := J_String RLN_CONTRACT_address\<rparr>)
     (IdentityCredential [] [] [] []) [Membership_Registered 4 300])"

definition ex_full_store :: nwaku_keystore where
  "ex_full_store = write_credential (computeMembershipHash ex_library (ke_membership ex_registered))
     (fromEipToCredential (ex_eip (ex_bytes ''j'')) (bytesToHex (ex_bytes ''pw''))) ex_store"

definition ex_library2 :: key_library where
  "ex_library2 = ex_library\<lparr>kl_parse := \<lambda>s. Inr (if s = ''s'' then keystore_toObject ex_full_store else identity_json ex_registered)\<rparr>"

lemma ex_registered_json:
  "json_field ''treeIndex'' (identity_json ex_registered) = Some (J_Number 4)"
  by (simp add: ex_registered_def registered_credentials_def is_membership_registered_def identity_json_def Let_def)

lemma ex_full_store_json: "json_field ''treeIndex'' (keystore_toObject ex_full_store) = None"
  by (simp add: ex_full_store_def write_credential_def set_credentials_def ex_store_def keystore_create_def keystore_new_def
      object_assign_def opt_field_def keystore_toObject_def)

lemma ex_registered_bytes: "fromIdentityToBytes ex_library2 ex_registered = ex_bytes ''j''"
  using ex_registered_json by (simp add: fromIdentityToBytes_def ex_library2_def ex_library_def)

lemma ex_registered_added:
  "addCredential ex_library2 ex_registered ''pw'' ex_store ex_store =
    (ex_full_store, Inr (computeMembershipHash ex_library (ke_membership ex_registered)))"
proof -
  have "computeMembershipHash ex_library2 info = computeMembershipHash ex_library info" for info
    by (simp add: computeMembershipHash_def ex_library2_def ex_library_def)
  moreover have "new_credential ex_library2 ex_registered ''pw'' =
      Inr (fromEipToCredential (ex_eip (ex_bytes ''j'')) (bytesToHex (ex_bytes ''pw'')))"
    by (simp add: new_credential_def ex_registered_bytes) (simp add: ex_library2_def ex_library_def keccak256Checksum_def)
  ultimately show ?thesis
    by (simp add: addCredential_def credential_to_add_def Let_def ex_store_empty js_truthy_def ex_full_store_def)
qed

definition ex_start :: start_options where
  "ex_start = \<lparr>so_walletClient = Some \<lparr>rpc_account = None, rpc_chainId = Some RLN_CONTRACT_chainId\<rparr>, so_address = None,
     so_credentials = Some (Encrypted (keystore_toString ex_library2 ex_full_store)
       (computeMembershipHash ex_library (ke_membership ex_registered)) ''pw''), so_rateLimit = None\<rparr>"

theorem registered_then_started_witness:
  "mg_prepare ex_library2 (Inl Thrown_Other) (mg_start ex_start (rln_manager_new 300)) =
    ((mg_start ex_start (rln_manager_new 300))\<lparr>mg_keystore := ex_full_store, mg_credentials := Some ex_registered,
       mg_rpcClient := Some \<lparr>rpc_account = None, rpc_chainId = Some RLN_CONTRACT_chainId\<rparr>,
       mg_phase := Creating (J_String RLN_CONTRACT_address) \<lparr>rpc_account = None, rpc_chainId = Some RLN_CONTRACT_chainId\<rparr> None\<rparr>, Inr ())"
proof (rule registered_then_started[where key = "replicate 16 0 @ ex_bytes ''pw''" and eip = "ex_eip (ex_bytes ''j'')"
      and identity = "IdentityCredential [] [] [] []", OF _ _ _ ex_store_ok _ ex_registered_added])
  show "registerWithIdentity (ex_contract\<lparr>rln_address := J_String RLN_CONTRACT_address\<rparr>) (ex_chain ''success'' True) (Some ''0xa'') (IdentityCredential [] [] [] []) =
    ([Simulated ''0xa'' (Register 0 300 []), Written ''0xa'' (Register 0 300 []), Awaited ''0xh''], Inr (Some ex_registered))"
    by (simp add: registerWithIdentity_def registration_def wallet_defs check_registration_def getMemberIndex_def
        getRemainingTotalRateLimit_def ex_chain_def ex_contract_def ex_membership_def IdentityCredential_def toBigInt_def
        registered_credentials_def is_membership_registered_def ex_registered_def)
  show "plain_store ex_store" using plain_store_create by (simp add: ex_store_def)
  show "\<forall>j\<in>{identity_json ex_registered, keystore_toObject ex_full_store}.
      kl_parse ex_library2 (kl_stringify ex_library2 j) = Inr j"
    using ex_registered_json ex_full_store_json by (simp add: ex_library2_def ex_library_def)
  show "kl_bytesToUtf8 ex_library2 (fromIdentityToBytes ex_library2 ex_registered) =
      Inr (kl_stringify ex_library2 (identity_json ex_registered))"
    using ex_registered_json by (simp add: ex_library2_def ex_library_def)
  show "kl_create ex_library2 ''pw'' (fromIdentityToBytes ex_library2 ex_registered) = Inr (ex_eip (ex_bytes ''j''))"
    by (simp add: ex_registered_bytes) (simp add: ex_library2_def ex_library_def)
  show "kl_cipherDecrypt ex_library2 (ec_cipher (ex_eip (ex_bytes ''j''))) (take 16 (replicate 16 0 @ ex_bytes ''pw'')) =
      Inr (fromIdentityToBytes ex_library2 ex_registered)"
    by (simp add: ex_registered_bytes) (simp add: ex_library2_def ex_library_def)
qed (simp_all add: IdentityCredential_def ex_eip_typed, simp_all add: ex_library2_def ex_library_def ex_eip_def ex_start_def)

end
