(* ===== verification/Node_Creation.thy ===== *)
theory Node_Creation
  imports Waku_Node
begin

text \<open>
  How a node is made of its options (\<open>packages/sdk/src/create\<close>, \<open>packages/relay/src/create.ts\<close>): which discovery
  services, transports and services libp2p gets, what of the options of the caller is changed on the way, and which
  protocols a light node and a relay node have. libp2p itself is a parameter: whether it could be made, whether it is
  started then, what it answers to its start, and its connections. A field of an options object that is set to \<open>undefined\<close>
  is one that is not set.
\<close>

section \<open>The options\<close>

datatype discovery_service =
    Given_Discovery string
  | Dns_Discovery "string list"
  | Peer_Cache_Discovery bool
  | Peer_Exchange_Discovery
  | Bootstrap "string list"

text \<open>\<open>Peer_Cache_Discovery True\<close> uses the cache of the caller.\<close>

record discovery_options =
  do_dns :: "bool option"
  do_peerExchange :: "bool option"
  do_peerCache :: "bool option"

datatype service =
    Identify string
  | Ping int
  | Metadata_Service int
  | Gossipsub
  | Given_Service string

datatype transport =
    Web_Sockets_All
  | Web_Sockets_Secure
  | Given_Transport string

record libp2p_options =
  lo_peerDiscovery :: "discovery_service list option"
  lo_services :: "(string \<times> service) list"
  lo_transports :: "transport list option"
  lo_filterMultiaddrs :: "bool option"
  lo_hideWebSocketInfo :: bool
  lo_pingMaxInboundStreams :: "int option"

definition no_libp2p_options :: libp2p_options where
  "no_libp2p_options = \<lparr>lo_peerDiscovery = None, lo_services = [], lo_transports = None, lo_filterMultiaddrs = None,
     lo_hideWebSocketInfo = False, lo_pingMaxInboundStreams = None\<rparr>"

record create_options =
  cr_node :: node_options
  cr_libp2p :: "libp2p_options option"
  cr_defaultBootstrap :: bool
  cr_discovery :: "discovery_options option"
  cr_peerCache :: bool
  cr_bootstrapPeers :: "string list option"
  cr_storePeers :: "string list option"
  cr_userAgent :: "string option"
  cr_autoStart :: "bool option"

text \<open>What \<open>createLibp2p\<close> is called with.\<close>

record libp2p_config =
  lc_transports :: "transport list"
  lc_peerDiscovery :: "discovery_service list"
  lc_services :: "(string \<times> service) list"

section \<open>discovery.ts\<close>

definition SANDBOX :: string where
  "SANDBOX = ''enrtree://AIRVQ5DDA4FFWLRBCHJWUWOO6X6S4ZTZ5B667LQ6AJU6PEYDLRD5O@sandbox.waku.nodes.status.im''"

definition TEST :: string where
  "TEST = ''enrtree://AOGYWMBYOUIMOENHXCHILPKY3ZRFEULMFI4DOM442QSZ73TT2A7VI@test.waku.nodes.status.im''"

definition is_on :: "bool option \<Rightarrow> bool" where "is_on b = (b = Some True)"

definition getPeerDiscoveries :: "discovery_options option \<Rightarrow> bool \<Rightarrow> discovery_service list" where
  "getPeerDiscoveries enabled peerCache =
     (let dnsEnrTrees = [SANDBOX, TEST] in
      (if is_on (Option.bind enabled do_dns) then [Dns_Discovery dnsEnrTrees] else []) @
      (if is_on (Option.bind enabled do_peerCache) \<or> peerCache then [Peer_Cache_Discovery peerCache] else []) @
      (if is_on (Option.bind enabled do_peerExchange) then [Peer_Exchange_Discovery] else []))"

section \<open>libp2p.ts\<close>

definition DefaultUserAgent :: string where "DefaultUserAgent = ''js-waku''"
definition DefaultPingMaxInboundStreams :: int where "DefaultPingMaxInboundStreams = 10"

definition default_of :: "'a \<Rightarrow> 'a option \<Rightarrow> 'a" where
  "default_of d v = (case v of Some x \<Rightarrow> x | None \<Rightarrow> d)"

text \<open>\<open>test_env\<close> is \<open>isTestEnvironment()\<close>.\<close>

definition defaultLibp2p :: "bool \<Rightarrow> int \<Rightarrow> libp2p_options \<Rightarrow> string option \<Rightarrow> libp2p_config" where
  "defaultLibp2p test_env cluster_id opts userAgent =
     (let addr_filter = (if lo_filterMultiaddrs opts = Some False \<or> test_env then Web_Sockets_All else Web_Sockets_Secure) in
      \<lparr>lc_transports = default_of [addr_filter] (lo_transports opts),
       lc_peerDiscovery = default_of [] (lo_peerDiscovery opts),
       lc_services = foldl (\<lambda>t (k, v). AList.update k v t)
         [(''identify'', Identify (default_of DefaultUserAgent userAgent)),
          (''ping'', Ping (default_of DefaultPingMaxInboundStreams (lo_pingMaxInboundStreams opts))),
          (''metadata'', Metadata_Service cluster_id)] (lo_services opts)\<rparr>)"

definition all_discoveries :: "discovery_options option \<Rightarrow> discovery_options" where
  "all_discoveries given =
     (let pick = (\<lambda>f. Some (default_of True (Option.bind given f))) in
      \<lparr>do_dns = pick do_dns, do_peerExchange = pick do_peerExchange, do_peerCache = pick do_peerCache\<rparr>)"

text \<open>What a creation adds to the discovery services.\<close>

definition added_discoveries :: "create_options \<Rightarrow> discovery_service list" where
  "added_discoveries opts =
     (let bootstrapPeers = default_of [] (cr_bootstrapPeers opts) @ default_of [] (cr_storePeers opts) in
      (if cr_defaultBootstrap opts then getPeerDiscoveries (Some (all_discoveries (cr_discovery opts))) (cr_peerCache opts)
       else getPeerDiscoveries (cr_discovery opts) (cr_peerCache opts)) @
      (if bootstrapPeers \<noteq> [] then [Bootstrap bootstrapPeers] else []))"

text \<open>
  The array of discovery services is that of the caller, if there is one, and it becomes the field of the object
  \<open>libp2p\<close> of the caller, if there is one: the options come back as the caller sees them afterwards.
\<close>

definition createLibp2pAndUpdateOptions :: "bool \<Rightarrow> create_options \<Rightarrow> create_options \<times> libp2p_config" where
  "createLibp2pAndUpdateOptions test_env opts =
     (let networkConfig = default_of DefaultNetworkConfig (no_networkConfig (cr_node opts));
          cluster_id = nc_clusterId networkConfig;
          libp2pOptions = default_of no_libp2p_options (cr_libp2p opts);
          peerDiscovery = default_of [] (lo_peerDiscovery libp2pOptions) @ added_discoveries opts;
          libp2pOptions' = libp2pOptions\<lparr>lo_peerDiscovery := Some peerDiscovery\<rparr>
      in (opts\<lparr>cr_libp2p := (case cr_libp2p opts of None \<Rightarrow> None | Some _ \<Rightarrow> Some libp2pOptions')\<rparr>,
          defaultLibp2p test_env cluster_id libp2pOptions' (cr_userAgent opts)))"

section \<open>create.ts\<close>

text \<open>
  \<open>lib_made\<close> is what \<open>createLibp2p\<close> answers, with the connections the node has then and whether it is started;
  \<open>start\<close> and \<open>handled\<close> are the answers to the node's own start.
\<close>

definition auto_start :: "bool option \<Rightarrow> world \<Rightarrow> js_error + unit \<Rightarrow> bool \<Rightarrow> ('m, 'c, 'k, 'p) waku_node \<Rightarrow> js_error + ('m, 'c, 'k, 'p) waku_node" where
  "auto_start autoStart w start handled n =
     (if autoStart \<noteq> Some False
      then (case node_start w start handled n of (n', Inl e) \<Rightarrow> Inl e | (n', Inr _) \<Rightarrow> Inr n')
      else Inr n)"

definition createLightNode ::
    "bool \<Rightarrow> (libp2p_config \<Rightarrow> js_error + mconn list \<times> bool) \<Rightarrow> world \<Rightarrow> js_error + unit \<Rightarrow> bool \<Rightarrow> create_options
     \<Rightarrow> create_options \<times> (js_error + ('m, 'c, 'k, 'p) waku_node)" where
  "createLightNode test_env lib_made w start handled opts =
     (let (opts', config) = createLibp2pAndUpdateOptions test_env opts in
      (opts', bindE (lib_made config) (\<lambda>(conns, started).
         auto_start (cr_autoStart opts) w start handled
           (waku_node_new (cr_node opts) conns started \<lparr>pe_filter = True, pe_lightpush = True, pe_store = True\<rparr> None))))"

section \<open>packages/relay/src/create.ts\<close>

text \<open>
  The options and their object \<open>libp2p\<close> are copied, with gossipsub as the only service; an array of discovery
  services is still that of the caller.
\<close>

definition relay_options :: "create_options \<Rightarrow> create_options" where
  "relay_options opts =
     opts\<lparr>cr_libp2p := Some ((default_of no_libp2p_options (cr_libp2p opts))\<lparr>lo_services := [(''pubsub'', Gossipsub)]\<rparr>)\<rparr>"

definition after_relay :: "create_options \<Rightarrow> create_options \<Rightarrow> create_options" where
  "after_relay opts used =
     (case cr_libp2p opts of
        Some lo \<Rightarrow>
          if lo_peerDiscovery lo \<noteq> None
          then opts\<lparr>cr_libp2p := Some (lo\<lparr>lo_peerDiscovery := Option.bind (cr_libp2p used) lo_peerDiscovery\<rparr>)\<rparr>
          else opts
      | None \<Rightarrow> opts)"

definition createRelayNode ::
    "bool \<Rightarrow> (libp2p_config \<Rightarrow> js_error + mconn list \<times> bool) \<Rightarrow> world \<Rightarrow> js_error + unit \<Rightarrow> bool \<Rightarrow> string list \<Rightarrow> create_options
     \<Rightarrow> create_options \<times> (js_error + ('m, 'c, 'k, 'p) waku_node)" where
  "createRelayNode test_env lib_made w start handled pubsubTopics opts =
     (let (used, config) = createLibp2pAndUpdateOptions test_env (relay_options opts) in
      (after_relay opts used,
       bindE (lib_made config) (\<lambda>(conns, started).
         bindE (relay_new (if map_of (lc_services config) ''pubsub'' = Some Gossipsub then Some RelayCodecs else None) started pubsubTopics)
           (\<lambda>relay.
             auto_start (cr_autoStart opts) w start handled
               (waku_node_new (cr_node opts) conns started \<lparr>pe_filter = False, pe_lightpush = False, pe_store = False\<rparr> (Some relay))))))"

section \<open>Properties\<close>

text \<open>
  With the default bootstrap and no choice of discoveries, a node gets all three, after those of the caller; the
  bootstrap peers and the peers of the store come last, as one more service. Without it, nothing is added that was
  not asked for.
\<close>

theorem discoveries_of_node:
  "lc_peerDiscovery (snd (createLibp2pAndUpdateOptions test_env opts)) =
     default_of [] (Option.bind (cr_libp2p opts) lo_peerDiscovery) @ added_discoveries opts \<and>
   (let peers = default_of [] (cr_bootstrapPeers opts) @ default_of [] (cr_storePeers opts) in
    Bootstrap peers \<in> set (added_discoveries opts) \<longleftrightarrow> peers \<noteq> []) \<and>
   (Dns_Discovery [SANDBOX, TEST] \<in> set (added_discoveries opts) \<longleftrightarrow>
     default_of (cr_defaultBootstrap opts) (Option.bind (cr_discovery opts) do_dns)) \<and>
   (Peer_Exchange_Discovery \<in> set (added_discoveries opts) \<longleftrightarrow>
     default_of (cr_defaultBootstrap opts) (Option.bind (cr_discovery opts) do_peerExchange)) \<and>
   (Peer_Cache_Discovery (cr_peerCache opts) \<in> set (added_discoveries opts) \<longleftrightarrow>
     default_of (cr_defaultBootstrap opts) (Option.bind (cr_discovery opts) do_peerCache) \<or> cr_peerCache opts)"
  by (auto simp: createLibp2pAndUpdateOptions_def defaultLibp2p_def added_discoveries_def getPeerDiscoveries_def
      all_discoveries_def is_on_def default_of_def no_libp2p_options_def Let_def split: option.splits)

text \<open>C37: Creating a node changes the options of the caller: where they have an object \<open>libp2p\<close>, a second node made from the
  same options gets every service that the first one added once more.
\<close>

theorem second_node_repeats_discoveries:
  assumes "cr_libp2p opts = Some lo"
  shows "let (opts1, first) = createLibp2pAndUpdateOptions test_env opts;
             (opts2, second) = createLibp2pAndUpdateOptions test_env opts1
         in lc_peerDiscovery second = lc_peerDiscovery first @ added_discoveries opts"
  using assms
  by (simp add: createLibp2pAndUpdateOptions_def defaultLibp2p_def added_discoveries_def default_of_def Let_def)

definition ex_create :: create_options where
  "ex_create = \<lparr>cr_node = sample_options, cr_libp2p = Some no_libp2p_options, cr_defaultBootstrap = True, cr_discovery = None,
     cr_peerCache = False, cr_bootstrapPeers = Some [''/dns4/a''], cr_storePeers = None, cr_userAgent = None, cr_autoStart = None\<rparr>"

theorem second_node_repeats_discoveries_witness:
  "let (opts1, first) = createLibp2pAndUpdateOptions False ex_create;
       (opts2, second) = createLibp2pAndUpdateOptions False opts1
   in lc_peerDiscovery second = lc_peerDiscovery first @ added_discoveries ex_create"
  by (rule second_node_repeats_discoveries[of _ no_libp2p_options]) (simp add: ex_create_def)

text \<open>
  The service of a name is the one of the caller where there is one; the others are those of a node, with the
  cluster of its network. A relay node has gossipsub and no service of the caller.
\<close>

lemma foldl_update_other: "k \<notin> fst ` set xs \<Longrightarrow> map_of (foldl (\<lambda>t (k, v). AList.update k v t) t xs) k = map_of t k"
  by (induction xs arbitrary: t) (auto simp: update_conv')

theorem services_of_node:
  "(\<forall>k. k \<notin> fst ` set (lo_services (default_of no_libp2p_options (cr_libp2p opts))) \<longrightarrow>
      map_of (lc_services (snd (createLibp2pAndUpdateOptions test_env opts))) k =
        [''identify'' \<mapsto> Identify (default_of DefaultUserAgent (cr_userAgent opts)),
         ''ping'' \<mapsto> Ping (default_of DefaultPingMaxInboundStreams (lo_pingMaxInboundStreams (default_of no_libp2p_options (cr_libp2p opts)))),
         ''metadata'' \<mapsto> Metadata_Service (nc_clusterId (default_of DefaultNetworkConfig (no_networkConfig (cr_node opts))))] k) \<and>
   map fst (lc_services (snd (createLibp2pAndUpdateOptions test_env (relay_options opts)))) = [''identify'', ''ping'', ''metadata'', ''pubsub'']"
  by (simp add: createLibp2pAndUpdateOptions_def defaultLibp2p_def Let_def foldl_update_other relay_options_def default_of_def)

theorem services_of_node_witness:
  "map_of (lc_services (snd (createLibp2pAndUpdateOptions False ex_create))) ''metadata'' = Some (Metadata_Service 1)"
proof -
  have "''metadata'' \<notin> fst ` set (lo_services (default_of no_libp2p_options (cr_libp2p ex_create)))"
    by (simp add: ex_create_def default_of_def no_libp2p_options_def)
  then have "map_of (lc_services (snd (createLibp2pAndUpdateOptions False ex_create))) ''metadata'' =
    Some (Metadata_Service (nc_clusterId (default_of DefaultNetworkConfig (no_networkConfig (cr_node ex_create)))))"
    using services_of_node[of ex_create False] by simp
  then show ?thesis by (simp add: ex_create_def sample_options_def default_of_def DefaultNetworkConfig_def)
qed

lemma new_node_inv: "node_inv (waku_node_new opts conns b enabled relay_opt)"
  by (simp add: waku_node_new_def Let_def node_inv_def node_quiet_def silent_def cm_new_def monitor_new_def dialer_new_def
      keep_alive_new_def peer_manager_new_def health_indicator_new_def retry_manager_new_def)

lemma node_start_mounts:
  assumes "node_start w start handled n = (n', Inr u)"
  shows "(wk_store n' = None \<longleftrightarrow> wk_store n = None) \<and> (wk_filter n' = None \<longleftrightarrow> wk_filter n = None) \<and>
    (wk_lightPush n' = None \<longleftrightarrow> wk_lightPush n = None) \<and> (wk_relay n' = None \<longleftrightarrow> wk_relay n = None)"
  using assms by (auto simp: node_start_def Let_def libp2p_status_def split: sum.splits if_splits)

lemma node_start_ok:
  assumes "node_start w start handled n = (n', Inr ())" "\<not> nodeStateLock n" "\<not> node_isStarted n"
  shows "nodeStarted n' \<and> \<not> nodeStateLock n' \<and> node_isStarted n'"
  using assms by (auto simp: node_start_def Let_def node_isStarted_def libp2p_status_def split: sum.splits)

lemma auto_start_node:
  assumes "auto_start a w start handled n = Inr n'" and "node_inv n" and "\<not> nodeStateLock n" and "\<not> nodeStarted n"
  shows "\<not> nodeStateLock n' \<and> (if a = Some False then n' = n else node_isStarted n' \<and> node_active n') \<and>
    (wk_store n' = None \<longleftrightarrow> wk_store n = None) \<and> (wk_filter n' = None \<longleftrightarrow> wk_filter n = None) \<and>
    (wk_lightPush n' = None \<longleftrightarrow> wk_lightPush n = None) \<and> (wk_relay n' = None \<longleftrightarrow> wk_relay n = None)"
proof (cases "a = Some False")
  case False
  then have s: "node_start w start handled n = (n', Inr ())"
    using assms(1) by (auto simp: auto_start_def split: prod.splits sum.splits)
  then have "nodeStarted n' \<and> \<not> nodeStateLock n' \<and> node_isStarted n'"
    using assms(3,4) by (intro node_start_ok) (auto simp: node_isStarted_def)
  moreover have "node_inv n'"
    using node_step_inv[OF assms(2), of "Node_Start w start handled"] s by simp
  ultimately show ?thesis using False node_start_mounts[OF s] by (simp add: node_inv_def)
qed (use assms in \<open>simp add: auto_start_def\<close>)

text \<open>
  What a creation yields: unless \<open>autoStart\<close> is \<open>false\<close>, a node that is returned is started, unlocked and has all
  its components running; a libp2p that refuses to start makes the creation reject. A light node has the three
  clients and no relay, a relay node the relay only.
\<close>

theorem created_light_node:
  assumes "snd (createLightNode test_env lib_made w start handled opts) = Inr n"
  shows "wk_store n \<noteq> None \<and> wk_filter n \<noteq> None \<and> wk_lightPush n \<noteq> None \<and> wk_relay n = None \<and> \<not> nodeStateLock n \<and>
    (if cr_autoStart opts = Some False then \<not> nodeStarted n else node_isStarted n \<and> node_active n)"
proof -
  obtain conns b where n: "auto_start (cr_autoStart opts) w start handled
      (waku_node_new (cr_node opts) conns b \<lparr>pe_filter = True, pe_lightpush = True, pe_store = True\<rparr> None) = Inr n"
    using assms by (auto simp: createLightNode_def bindE_Inr split: prod.splits)
  show ?thesis
    using auto_start_node[OF n new_node_inv] n
    by (auto simp: waku_node_new_def Let_def auto_start_def split: if_splits)
qed

theorem created_relay_node:
  assumes "snd (createRelayNode test_env lib_made w start handled topics opts) = Inr n"
  shows "wk_store n = None \<and> wk_filter n = None \<and> wk_lightPush n = None \<and> wk_relay n \<noteq> None \<and> \<not> nodeStateLock n \<and>
    (if cr_autoStart opts = Some False then \<not> nodeStarted n else node_isStarted n \<and> node_active n)"
proof -
  obtain conns b relay where n: "auto_start (cr_autoStart opts) w start handled
      (waku_node_new (cr_node opts) conns b \<lparr>pe_filter = False, pe_lightpush = False, pe_store = False\<rparr> (Some relay)) = Inr n"
    using assms by (auto simp: createRelayNode_def bindE_Inr split: prod.splits)
  show ?thesis
    using auto_start_node[OF n new_node_inv] n
    by (auto simp: waku_node_new_def Let_def auto_start_def split: if_splits)
qed

theorem created_light_node_witness:
  "\<exists>n :: (nat, nat, nat, nat) waku_node.
    snd (createLightNode False (\<lambda>c. Inr ([], False)) sample_world (Inr ()) True ex_create) = Inr n \<and>
    wk_store n \<noteq> None \<and> wk_filter n \<noteq> None \<and> wk_lightPush n \<noteq> None \<and> wk_relay n = None \<and> \<not> nodeStateLock n \<and>
    (if cr_autoStart ex_create = Some False then \<not> nodeStarted n else node_isStarted n \<and> node_active n)"
proof -
  obtain n :: "(nat, nat, nat, nat) waku_node" where n:
    "snd (createLightNode False (\<lambda>c. Inr ([], False)) sample_world (Inr ()) True ex_create) = Inr n"
    by (simp add: createLightNode_def auto_start_def node_start_def waku_node_new_def node_isStarted_def libp2p_status_def
        Let_def ex_create_def split: prod.splits)
  show ?thesis using n created_light_node[OF n] by blast
qed

theorem created_relay_node_witness:
  "\<exists>n :: (nat, nat, nat, nat) waku_node.
    snd (createRelayNode False (\<lambda>c. Inr ([], False)) sample_world (Inr ()) True [''/waku/2/rs/1/0''] ex_create) = Inr n \<and>
    wk_store n = None \<and> wk_filter n = None \<and> wk_lightPush n = None \<and> wk_relay n \<noteq> None \<and> \<not> nodeStateLock n \<and>
    (if cr_autoStart ex_create = Some False then \<not> nodeStarted n else node_isStarted n \<and> node_active n)"
proof -
  obtain used config where c: "createLibp2pAndUpdateOptions False (relay_options ex_create) = (used, config)"
    "map_of (lc_services config) ''pubsub'' = Some Gossipsub"
    by (simp add: createLibp2pAndUpdateOptions_def defaultLibp2p_def relay_options_def Let_def default_of_def)
  have "cr_autoStart ex_create = None" "hd RelayCodecs \<in> set RelayCodecs"
    by (simp_all add: ex_create_def RelayCodecs_def)
  with c obtain n :: "(nat, nat, nat, nat) waku_node" where n:
    "snd (createRelayNode False (\<lambda>c. Inr ([], False)) sample_world (Inr ()) True [''/waku/2/rs/1/0''] ex_create) = Inr n"
    by (simp add: createRelayNode_def auto_start_def node_start_def waku_node_new_def node_isStarted_def libp2p_status_def
        relay_new_def isRelayPubsub_def Let_def returns_def)
  show ?thesis using n created_relay_node[OF n] by blast
qed

end
