(* ===== verification/Spec2Isabelle.thy ===== *)
theory Spec2Isabelle
  imports Reliable_Events Waku_Node Encryption Store Async_Iterator Dns Peer_Cache Peer_Exchange Rln_Credentials Node_Creation
begin

text \<open>
  A verification development for logos-messaging-js.

  \<^bold>\<open>The program.\<close> A node (\<open>packages/sdk/src/waku/waku.ts\<close>) owns a libp2p node and, over it, a connection manager, a
  peer manager, a health indicator and the clients of the light push, filter and store protocols; a full node also has
  the relay. An application sends and receives Waku messages through these clients, or through a reliable channel,
  which puts a scalable data sync (SDS) message channel on top of them: every SDS message carries a Lamport time, its
  recent history and a bloom filter of what its sender received, so that receivers order messages and detect
  missing ones and senders learn what was received.

  \<^bold>\<open>The theories\<close> and the sources they translate, from the bottom up:

  \<^item> \<open>Prelude\<close>, \<open>Bytes\<close>, \<open>Js_Strings\<close>, \<open>Timers\<close>: errors as sums, calls that keep their state when they throw, the parts of
    the JavaScript library that are used (stable sort, sets and maps in insertion order, decimal numbers, \<open>slice\<close>,
    \<open>DataView\<close>, string functions, timers with handles) and the locales about them.
  \<^item> \<open>packages/sds\<close>: \<open>Probabilities\<close> and \<open>Bloom\<close> (the filter and the hash of \<open>nim_hashn.mjs\<close>), \<open>Sds_Message\<close>,
    \<open>Local_History\<close>, \<open>Repair_Buffers\<close>, \<open>Repair_Manager\<close>, \<open>Message_Channel\<close> with \<open>Channel_Invariant\<close> and
    \<open>Channel_Properties\<close>.
  \<^item> \<open>packages/sdk/src/reliable_channel\<close> and \<open>query_on_connect\<close>: \<open>Retry\<close>, \<open>Random_Timeout\<close>, \<open>Sync_Status\<close>,
    \<open>Missing_Retriever\<close>, \<open>Query_On_Connect\<close>, \<open>Reliable_Channel\<close> with \<open>Reliable_Properties\<close>, \<open>Reliable_Timers\<close> and
    \<open>Reliable_Events\<close>.
  \<^item> \<open>packages/core/src/lib/message\<close>, \<open>message_hash\<close> and \<open>packages/message-encryption\<close>: \<open>Message_Hash\<close>, \<open>Version_0\<close>,
    \<open>Encryption\<close>.
  \<^item> \<open>packages/utils/src/common\<close>: \<open>Sharding\<close> (topics, autosharding, routing information, the relay shard record) and
    \<open>Async_Iterator\<close>.
  \<^item> Protocol clients, each with its half in \<open>packages/core\<close> and its half in \<open>packages/sdk\<close>: \<open>Light_Push\<close>, \<open>Store\<close>,
    \<open>Filter_Client\<close>; and \<open>Relay_Protocol\<close> for \<open>packages/relay\<close>.
  \<^item> \<open>packages/core/src/lib/connection_manager\<close>: \<open>Dialer\<close> (with the shard reader), \<open>Connections\<close> (limits, network
    monitor), \<open>Keep_Alive\<close>, \<open>Connection_Manager\<close>; \<open>Stream_Manager\<close> and \<open>Metadata\<close> for the directories of these names.
  \<^item> \<open>packages/sdk/src\<close>: \<open>Peer_Manager\<close>, \<open>Health_Indicator\<close>, \<open>Wait_For_Peer\<close>, \<open>Waku_Node\<close>, and
    \<open>Node_Creation\<close> for \<open>create\<close>.
  \<^item> \<open>packages/enr/src\<close>: \<open>Enr\<close>; \<open>packages/discovery/src\<close>: \<open>Dns\<close>, \<open>Peer_Cache\<close>, \<open>Peer_Exchange\<close>.
  \<^item> \<open>packages/rln/src\<close>: \<open>Rln_Contract\<close> (identities and the membership contract), \<open>Keystore\<close>, \<open>Rln_Credentials\<close>; \<open>Json\<close> for the
    JSON values that \<open>Keystore\<close> and \<open>Peer_Cache\<close> share.

  \<^bold>\<open>How the code corresponds to the model.\<close> A class is a record with the names of its fields, an enum or tagged union a
  datatype, a function or method a definition of the same name where Isabelle allows it, with its guards and early
  returns in the order of the code. A method that may throw yields the state it left and a sum; logging is left
  out. An operation that waits is cut at the points where another one can come in between, when the code's
  behaviour depends on it (dialer, stream manager, retries of light push, reliable channel, peer exchange,
  credentials manager); elsewhere it runs to its
  end before the next, as the header of the theory says. What the network, the clock, the random numbers and the
  caller's functions answer is an argument, or comes with the event of a step; a run is a list of such events,
  and an invariant holds after every run. Bytes and hashes are kept at their width; numbers that JavaScript
  keeps as integers below \<open>2^53\<close> are \<^typ>\<open>int\<close> or \<^typ>\<open>nat\<close>. Strings are those whose code units are below 256.
  Cryptography, the generated protobuf codecs, libp2p and gossipsub are not under \<open>src\<close> or are generated: they are
  parameters, and a theorem that relies on them names what it relies on.

  \<^bold>\<open>What is shown.\<close> Invariants over all runs (message channel, repair manager, dialer, filter subscription, stream
  manager, node, peer exchange, credentials manager); that a reliable channel refines a message channel and the key store a
  map; what sending, receiving, sweeping and
  acknowledging do to a channel; round trips of messages, encrypted messages, shard and node records,
  cached peers, subscriptions and credentials;
  bounds on attempts, connections and shards; the termination of the task queue, of paginated queries
  and of the discovery over DNS; and,
  proved just as much, where the code does not keep what it or its documentation promises: messages delivered
  before their dependencies, timers and subscriptions that a stop leaves behind, a node locked by a rejected start,
  a wait for peers that ends without them, memberships that cannot be erased, options that change under their caller.

  \<^bold>\<open>Bounds and fuel.\<close> A paginated store query runs with one step more than there are messages; the theorem about
  pagination shows that this is enough when every page moves the cursor. The search in the probability table
  runs over the rows of the table, and the reading of an array-like object one step longer than it has fields
  (\<open>arraylike_ends\<close>). The descent in an ENR tree of \<open>Dns\<close>, which may never end, is a partial function: that it ends on
  a finite tree, and does not in a tree that leads back to itself, are theorems. All other loops are structural
  recursions or have a measure.

  \<^bold>\<open>Not modelled.\<close> Generated code (protobuf codecs, contract bindings), the loading of the WebAssembly of the rate
  limiting nullifier and the proofs it computes, React bindings, the command line runner, browser and reliability tests, type
  declarations without behaviour, logging.
\<close>

end
